(* ===== verification/Prelude.thy ===== *)
theory Prelude
  imports Main "HOL-Library.Word"
begin

text \<open>
  Shared vocabulary of the development: the machine integers of the Rust code, the
  failure values (an \<open>Err\<close> carries a value of the code's error enum, a \<open>Panic\<close> a Rust
  panic), the state monad in which the stateful code of the executor is written, and the
  relational reasoning rules for that monad.

  Integer conventions. The workspace builds the executor with the release profile, in which
  \<open>+\<close>, \<open>-\<close> and \<open>*\<close> on machine integers wrap around; so does arithmetic on
  \<^typ>\<open>'a word\<close>. What panics in every profile (indexing out of range, a division that
  overflows, \<open>unreachable!\<close>, \<open>expect\<close> on \<open>None\<close>) is a \<open>Panic\<close> value of the model.
\<close>

unbundle bit_operations_syntax

section \<open>Machine integers\<close>

type_synonym u8 = "8 word"
type_synonym u16 = "16 word"
type_synonym u32 = "32 word"
type_synonym u64 = "64 word"

section \<open>Word lemmas\<close>

text \<open>Masks of the code as \<open>take_bit\<close>, and extensionality of 32-bit words by their 32 bits: a goal
  between concrete shift and mask expressions is decided by \<open>simp add: u32_eq_iff_bits bit_simps\<close>.\<close>

lemma and_0x1F: "x AND 0x1F = take_bit 5 (x::u32)"
  by (simp add: take_bit_eq_mask mask_eq_exp_minus_1)

lemma and_0xffff: "x AND 0xffff = take_bit 16 (x::u32)"
  by (simp add: take_bit_eq_mask mask_eq_exp_minus_1)

lemma and_0xff: "x AND 0xff = take_bit 8 (x::u32)"
  by (simp add: take_bit_eq_mask mask_eq_exp_minus_1)

lemma u32_eq_iff_bits:
  "(a::u32) = b \<longleftrightarrow> list_all (\<lambda>n. bit a n = bit b n)
     [0,1,2,3,4,5,6,7,8,9,10,11,12,13,14,15,16,17,18,19,20,21,22,23,24,25,26,27,28,29,30,31]"
proof -
  have "(a = b) = (\<forall>n\<in>set [0..<32]. bit a n = bit b n)"
    by (auto intro!: bit_word_eqI)
  also have "[0..<32] = [0,1,2,3,4,5,6,7,8,9,10,11,12,13,14,15,16,17,18,19,20,21,22,23,24,25,26,27,28,29,30,31]"
    by (simp add: upt_rec)
  finally show ?thesis by (simp only: list_all_iff)
qed

lemma u8_eq_iff_bits:
  "(a::u8) = b \<longleftrightarrow> list_all (\<lambda>n. bit a n = bit b n) [0,1,2,3,4,5,6,7]"
proof -
  have "(a = b) = (\<forall>n\<in>set [0..<8]. bit a n = bit b n)"
    by (auto intro!: bit_word_eqI)
  also have "[0..<8] = [0,1,2,3,4,5,6,7]"
    by (simp add: upt_rec)
  finally show ?thesis by (simp only: list_all_iff)
qed

lemma bit_beyond: "LENGTH('a) \<le> n \<Longrightarrow> bit w n \<longleftrightarrow> False" for w :: "'a::len word"
  by (auto dest: bit_imp_le_length)

lemma top_bit_iff: "drop_bit n (take_bit (Suc n) x) \<noteq> 0 \<longleftrightarrow> bit x n" for x :: "'a::len word"
  by (simp add: drop_bit_take_bit bit_iff_odd_drop_bit odd_iff_mod_2_eq_one)

lemma take_bit_self: "x < 2 ^ n \<Longrightarrow> take_bit n x = x" for x :: "'a::len word"
  using less_mask_eq [of x n] by (simp add: take_bit_eq_mask)

lemma ucast_u8_id: "(x::u32) < 256 \<Longrightarrow> ucast (ucast x :: u8) = x"
  using take_bit_self [of x 8] by (simp add: unsigned_ucast_eq)

section \<open>Leading zeros and ones\<close>

definition leading_zeros :: "'a::len word \<Rightarrow> nat" where
  "leading_zeros w = length (takeWhile (\<lambda>n. \<not> bit w n) (rev [0..<LENGTH('a)]))"

definition leading_ones :: "'a::len word \<Rightarrow> nat" where
  "leading_ones w = length (takeWhile (\<lambda>n. bit w n) (rev [0..<LENGTH('a)]))"

lemma le_length_takeWhile_iff:
  "m \<le> length xs \<Longrightarrow> m \<le> length (takeWhile P xs) \<longleftrightarrow> (\<forall>i<m. P (xs ! i))"
proof (induction xs arbitrary: m)
  case (Cons x xs)
  then show ?case
    by (cases m) (auto simp: nth_Cons split: nat.splits)
qed simp

lemma leading_zeros_le: "leading_zeros (w::'a::len word) \<le> LENGTH('a)"
  using length_takeWhile_le [of "\<lambda>n. \<not> bit w n" "rev [0..<LENGTH('a)]"] by (simp add: leading_zeros_def)

lemma leading_zeros_ge_iff:
  fixes w :: "'a::len word"
  assumes "m \<le> LENGTH('a)"
  shows "m \<le> leading_zeros w \<longleftrightarrow> unat w < 2 ^ (LENGTH('a) - m)"
proof -
  have "m \<le> leading_zeros w \<longleftrightarrow> (\<forall>i<m. \<not> bit w (LENGTH('a) - Suc i))"
    using assms by (simp add: leading_zeros_def le_length_takeWhile_iff rev_nth)
  also have "\<dots> \<longleftrightarrow> (\<forall>n. LENGTH('a) - m \<le> n \<longrightarrow> \<not> bit w n)"
  proof (intro iffI allI impI)
    fix n
    assume *: "\<forall>i<m. \<not> bit w (LENGTH('a) - Suc i)" and "LENGTH('a) - m \<le> n"
    show "\<not> bit w n"
    proof
      assume b: "bit w n"
      then have "n < LENGTH('a)" by (rule bit_imp_le_length)
      then have "LENGTH('a) - Suc n < m" using \<open>LENGTH('a) - m \<le> n\<close> assms by arith
      with * [rule_format, of "LENGTH('a) - Suc n"] b \<open>n < LENGTH('a)\<close> show False by simp
    qed
  qed (use assms in auto)
  also have "\<dots> \<longleftrightarrow> take_bit (LENGTH('a) - m) w = w"
    by (auto simp: bit_eq_iff bit_take_bit_iff not_le dest: bit_imp_le_length leD)
  also have "\<dots> \<longleftrightarrow> unat w < 2 ^ (LENGTH('a) - m)"
    by (simp add: word_unat_eq_iff unsigned_take_bit_eq take_bit_nat_eq_self_iff)
  finally show ?thesis .
qed

lemma leading_zeros_bounds:
  fixes w :: "'a::len word"
  assumes "w \<noteq> 0"
  shows "leading_zeros w < LENGTH('a)"
    and "2 ^ (LENGTH('a) - Suc (leading_zeros w)) \<le> unat w"
    and "unat w < 2 ^ (LENGTH('a) - leading_zeros w)"
proof -
  show lt: "leading_zeros w < LENGTH('a)"
    using leading_zeros_ge_iff [of "LENGTH('a)" w] assms by (simp add: unat_eq_0)
  show "2 ^ (LENGTH('a) - Suc (leading_zeros w)) \<le> unat w"
    using leading_zeros_ge_iff [of "Suc (leading_zeros w)" w] lt by simp
  show "unat w < 2 ^ (LENGTH('a) - leading_zeros w)"
    using leading_zeros_ge_iff [of "leading_zeros w" w] lt by simp
qed

lemma leading_zeros_0: "leading_zeros (0::'a::len word) = LENGTH('a)"
  using leading_zeros_ge_iff [of "LENGTH('a)" "0::'a word"] leading_zeros_le [of "0::'a word"] by simp

lemma leading_ones_not: "leading_ones w = leading_zeros (NOT w)" for w :: "'a::len word"
proof -
  have "takeWhile (bit w) (rev [0..<LENGTH('a)]) = takeWhile (\<lambda>n. \<not> bit (NOT w) n) (rev [0..<LENGTH('a)])"
    by (rule takeWhile_cong) (auto simp: bit_not_iff)
  then show ?thesis by (simp add: leading_ones_def leading_zeros_def)
qed

section \<open>Failures\<close>

datatype panic_kind =
    IndexOutOfBounds
  | DivisionOverflow
  | InvalidRegister u8
  | Unreachable
  | ExpectFailed
  | ExplicitPanic

datatype 'e fail = Err 'e | Panic panic_kind

type_synonym ('e, 'a) outcome = "'e fail + 'a"

section \<open>The state monad with failures\<close>

text \<open>
  A method with receiver \<open>&mut self\<close> is a function from the state to a failure or to a
  value with the new state.
\<close>

type_synonym ('e, 's, 'a) exec = "'s \<Rightarrow> 'e fail + ('a \<times> 's)"

definition retM :: "'a \<Rightarrow> ('e, 's, 'a) exec" where
  "retM v = (\<lambda>s. Inr (v, s))"

definition bindM :: "('e, 's, 'a) exec \<Rightarrow> ('a \<Rightarrow> ('e, 's, 'b) exec) \<Rightarrow> ('e, 's, 'b) exec" where
  "bindM m f = (\<lambda>s. case m s of Inl e \<Rightarrow> Inl e | Inr (v, s') \<Rightarrow> f v s')"

definition errM :: "'e \<Rightarrow> ('e, 's, 'a) exec" where
  "errM e = (\<lambda>_. Inl (Err e))"

definition panicM :: "panic_kind \<Rightarrow> ('e, 's, 'a) exec" where
  "panicM p = (\<lambda>_. Inl (Panic p))"

definition getM :: "('s \<Rightarrow> 'a) \<Rightarrow> ('e, 's, 'a) exec" where
  "getM f = (\<lambda>s. Inr (f s, s))"

definition modM :: "('s \<Rightarrow> 's) \<Rightarrow> ('e, 's, unit) exec" where
  "modM f = (\<lambda>s. Inr ((), f s))"

definition whenM :: "bool \<Rightarrow> ('e, 's, unit) exec \<Rightarrow> ('e, 's, unit) exec" where
  "whenM b m = (if b then m else retM ())"

definition liftM :: "('e, 'a) outcome \<Rightarrow> ('e, 's, 'a) exec" where
  "liftM r = (\<lambda>s. case r of Inl e \<Rightarrow> Inl e | Inr v \<Rightarrow> Inr (v, s))"

named_theorems monad_defs \<open>unfolding of the monad on a concrete state\<close>
named_theorems spec_intros \<open>compositional rules for \<open>keeps\<close>\<close>

lemma retM_apply [simp, monad_defs]: "retM v s = Inr (v, s)"
  by (simp add: retM_def)

lemma errM_apply [simp, monad_defs]: "errM e s = Inl (Err e)"
  by (simp add: errM_def)

lemma panicM_apply [simp, monad_defs]: "panicM p s = Inl (Panic p)"
  by (simp add: panicM_def)

lemma getM_apply [simp, monad_defs]: "getM f s = Inr (f s, s)"
  by (simp add: getM_def)

lemma modM_apply [simp, monad_defs]: "modM f s = Inr ((), f s)"
  by (simp add: modM_def)

lemma whenM_apply [simp, monad_defs]: "whenM b m s = (if b then m s else Inr ((), s))"
  by (simp add: whenM_def)

lemma liftM_Inr [simp, monad_defs]: "liftM (Inr v) s = Inr (v, s)"
  by (simp add: liftM_def)

lemma liftM_Inl [simp, monad_defs]: "liftM (Inl e) s = Inl e"
  by (simp add: liftM_def)

lemma bindM_apply_Inr [simp, monad_defs]: "m s = Inr (v, s') \<Longrightarrow> bindM m f s = f v s'"
  by (simp add: bindM_def)

lemma bindM_apply_Inl [simp, monad_defs]: "m s = Inl e \<Longrightarrow> bindM m f s = Inl e"
  by (simp add: bindM_def)

lemma bindM_Inr_iff: "bindM m f s = Inr (v, t) \<longleftrightarrow> (\<exists>x u. m s = Inr (x, u) \<and> f x u = Inr (v, t))"
  by (auto simp: bindM_def split: sum.splits)

lemma bindM_InrE:
  assumes "bindM m f s = Inr (v, t)"
  obtains x u where "m s = Inr (x, u)" "f x u = Inr (v, t)"
  using assms by (auto simp: bindM_Inr_iff)

lemma liftM_Inr_iff: "liftM r s = Inr (v, t) \<longleftrightarrow> r = Inr v \<and> t = s"
  by (auto simp: liftM_def split: sum.splits)

section \<open>Relational specifications\<close>

text \<open>
  \<open>keeps R m\<close>: whenever \<open>m\<close> returns, its final state is related by \<open>R\<close> to its
  initial one. An invariant \<open>P\<close> is the relation \<open>P s \<longrightarrow> P t\<close>, a frame condition the
  relation \<open>f s = f t\<close>.
\<close>

definition keeps :: "('s \<Rightarrow> 's \<Rightarrow> bool) \<Rightarrow> ('e, 's, 'a) exec \<Rightarrow> bool" where
  "keeps R m \<longleftrightarrow> (\<forall>s v t. m s = Inr (v, t) \<longrightarrow> R s t)"

lemma keepsI: "(\<And>s v t. m s = Inr (v, t) \<Longrightarrow> R s t) \<Longrightarrow> keeps R m"
  by (simp add: keeps_def)

lemma keepsD: "keeps R m \<Longrightarrow> m s = Inr (v, t) \<Longrightarrow> R s t"
  by (auto simp: keeps_def)

locale step_preorder =
  fixes R :: "'s \<Rightarrow> 's \<Rightarrow> bool"
  assumes R_refl: "R s s"
    and R_trans: "R s t \<Longrightarrow> R t u \<Longrightarrow> R s u"
begin

lemma keeps_retM: "keeps R (retM v)"
  by (rule keepsI) (auto simp: R_refl)

lemma keeps_errM: "keeps R (errM e)"
  by (rule keepsI) auto

lemma keeps_panicM: "keeps R (panicM p)"
  by (rule keepsI) auto

lemma keeps_getM: "keeps R (getM f)"
  by (rule keepsI) (auto simp: R_refl)

lemma keeps_liftM: "keeps R (liftM r)"
  by (rule keepsI) (auto simp: liftM_Inr_iff R_refl)

lemma keeps_modM: "(\<And>s. R s (f s)) \<Longrightarrow> keeps R (modM f)"
  by (rule keepsI) auto

lemma keeps_bindM:
  assumes "keeps R m" and "\<And>x. keeps R (f x)"
  shows "keeps R (bindM m f)"
proof (rule keepsI)
  fix s v t
  assume "bindM m f s = Inr (v, t)"
  then obtain x u where "m s = Inr (x, u)" "f x u = Inr (v, t)"
    by (rule bindM_InrE)
  with assms show "R s t"
    by (blast intro: R_trans dest: keepsD)
qed

lemma keeps_whenM: "keeps R m \<Longrightarrow> keeps R (whenM b m)"
  by (auto simp: keeps_def R_refl split: if_splits)

lemma keeps_if: "keeps R m \<Longrightarrow> keeps R m' \<Longrightarrow> keeps R (if b then m else m')"
  by simp

lemmas keeps_basic =
  keeps_retM keeps_errM keeps_panicM keeps_getM keeps_liftM
  keeps_bindM keeps_whenM keeps_if

end

end
