(* ===== verification/Opcodes.thy ===== *)
theory Opcodes
  imports Prelude
begin

text \<open>
  Opcodes, byte-table opcodes and registers of the virtual machine
  (\<^verbatim>\<open>crates/core/executor/src/opcode.rs\<close>, \<^verbatim>\<open>register.rs\<close>), with their numeric
  representations. The enum \<^verbatim>\<open>Opcode\<close> is \<^verbatim>\<open>#[repr(u8)]\<close> and derives \<^verbatim>\<open>TryFromPrimitive\<close>;
  the round-trip lemmas show that the two conversions are inverse, which also gives the
  derived order.
\<close>

section \<open>Opcodes\<close>

datatype (plugins only: code size) opcode =
    Op_ADD | Op_SUB | Op_MUL | Op_MULT | Op_MULTU | Op_DIV | Op_DIVU | Op_MOD | Op_MODU
    | Op_SLL | Op_SRL | Op_SRA | Op_ROR | Op_SLT | Op_SLTU | Op_AND | Op_OR | Op_XOR
    | Op_NOR | Op_CLZ | Op_CLO | Op_BEQ | Op_BGEZ | Op_BGTZ | Op_BLEZ | Op_BLTZ | Op_BNE
    | Op_Jump | Op_Jumpi | Op_JumpDirect | Op_SYSCALL | Op_LB | Op_LBU | Op_LH | Op_LHU
    | Op_LW | Op_LWL | Op_LWR | Op_LL | Op_SB | Op_SH | Op_SW | Op_SWL | Op_SWR | Op_SC
    | Op_INS | Op_MADDU | Op_MSUBU | Op_MADD | Op_MSUB | Op_MEQ | Op_MNE | Op_WSBH
    | Op_EXT | Op_TEQ | Op_SEXT | Op_UNIMPL

primrec opcode_repr :: "opcode \<Rightarrow> u8" where
  "opcode_repr Op_ADD = 0"
| "opcode_repr Op_SUB = 1"
| "opcode_repr Op_MUL = 2"
| "opcode_repr Op_MULT = 3"
| "opcode_repr Op_MULTU = 4"
| "opcode_repr Op_DIV = 5"
| "opcode_repr Op_DIVU = 6"
| "opcode_repr Op_MOD = 7"
| "opcode_repr Op_MODU = 8"
| "opcode_repr Op_SLL = 9"
| "opcode_repr Op_SRL = 10"
| "opcode_repr Op_SRA = 11"
| "opcode_repr Op_ROR = 12"
| "opcode_repr Op_SLT = 13"
| "opcode_repr Op_SLTU = 14"
| "opcode_repr Op_AND = 15"
| "opcode_repr Op_OR = 16"
| "opcode_repr Op_XOR = 17"
| "opcode_repr Op_NOR = 18"
| "opcode_repr Op_CLZ = 19"
| "opcode_repr Op_CLO = 20"
| "opcode_repr Op_BEQ = 21"
| "opcode_repr Op_BGEZ = 22"
| "opcode_repr Op_BGTZ = 23"
| "opcode_repr Op_BLEZ = 24"
| "opcode_repr Op_BLTZ = 25"
| "opcode_repr Op_BNE = 26"
| "opcode_repr Op_Jump = 27"
| "opcode_repr Op_Jumpi = 28"
| "opcode_repr Op_JumpDirect = 29"
| "opcode_repr Op_SYSCALL = 30"
| "opcode_repr Op_LB = 31"
| "opcode_repr Op_LBU = 32"
| "opcode_repr Op_LH = 33"
| "opcode_repr Op_LHU = 34"
| "opcode_repr Op_LW = 35"
| "opcode_repr Op_LWL = 36"
| "opcode_repr Op_LWR = 37"
| "opcode_repr Op_LL = 38"
| "opcode_repr Op_SB = 39"
| "opcode_repr Op_SH = 40"
| "opcode_repr Op_SW = 41"
| "opcode_repr Op_SWL = 42"
| "opcode_repr Op_SWR = 43"
| "opcode_repr Op_SC = 44"
| "opcode_repr Op_INS = 45"
| "opcode_repr Op_MADDU = 46"
| "opcode_repr Op_MSUBU = 47"
| "opcode_repr Op_MADD = 48"
| "opcode_repr Op_MSUB = 49"
| "opcode_repr Op_MEQ = 50"
| "opcode_repr Op_MNE = 51"
| "opcode_repr Op_WSBH = 52"
| "opcode_repr Op_EXT = 53"
| "opcode_repr Op_TEQ = 54"
| "opcode_repr Op_SEXT = 55"
| "opcode_repr Op_UNIMPL = 255"

definition all_opcodes :: "opcode list" where
  "all_opcodes =
     [Op_ADD, Op_SUB, Op_MUL, Op_MULT, Op_MULTU, Op_DIV, Op_DIVU, Op_MOD, Op_MODU
     , Op_SLL, Op_SRL, Op_SRA, Op_ROR, Op_SLT, Op_SLTU, Op_AND, Op_OR, Op_XOR, Op_NOR
     , Op_CLZ, Op_CLO, Op_BEQ, Op_BGEZ, Op_BGTZ, Op_BLEZ, Op_BLTZ, Op_BNE, Op_Jump
     , Op_Jumpi, Op_JumpDirect, Op_SYSCALL, Op_LB, Op_LBU, Op_LH, Op_LHU, Op_LW, Op_LWL
     , Op_LWR, Op_LL, Op_SB, Op_SH, Op_SW, Op_SWL, Op_SWR, Op_SC, Op_INS, Op_MADDU
     , Op_MSUBU, Op_MADD, Op_MSUB, Op_MEQ, Op_MNE, Op_WSBH, Op_EXT, Op_TEQ, Op_SEXT
     , Op_UNIMPL]"

definition opcode_try_from_primitive :: "u8 \<Rightarrow> opcode option" where
  "opcode_try_from_primitive n = find (\<lambda>op. opcode_repr op = n) all_opcodes"

primrec mnemonic :: "opcode \<Rightarrow> string" where
  "mnemonic Op_ADD = ''add''"
| "mnemonic Op_SUB = ''sub''"
| "mnemonic Op_MUL = ''mul''"
| "mnemonic Op_MULT = ''mult''"
| "mnemonic Op_MULTU = ''multu''"
| "mnemonic Op_DIV = ''div''"
| "mnemonic Op_DIVU = ''divu''"
| "mnemonic Op_MOD = ''mod''"
| "mnemonic Op_MODU = ''modu''"
| "mnemonic Op_SLL = ''sll''"
| "mnemonic Op_SRL = ''srl''"
| "mnemonic Op_SRA = ''sra''"
| "mnemonic Op_ROR = ''ror''"
| "mnemonic Op_SLT = ''slt''"
| "mnemonic Op_SLTU = ''sltu''"
| "mnemonic Op_AND = ''and''"
| "mnemonic Op_OR = ''or''"
| "mnemonic Op_XOR = ''xor''"
| "mnemonic Op_NOR = ''nor''"
| "mnemonic Op_CLZ = ''clz''"
| "mnemonic Op_CLO = ''clo''"
| "mnemonic Op_BEQ = ''beq''"
| "mnemonic Op_BGEZ = ''bgez''"
| "mnemonic Op_BGTZ = ''bgtz''"
| "mnemonic Op_BLEZ = ''blez''"
| "mnemonic Op_BLTZ = ''bltz''"
| "mnemonic Op_BNE = ''bne''"
| "mnemonic Op_Jump = ''jump''"
| "mnemonic Op_Jumpi = ''jumpi''"
| "mnemonic Op_JumpDirect = ''jump_direct''"
| "mnemonic Op_SYSCALL = ''syscall''"
| "mnemonic Op_LB = ''lb''"
| "mnemonic Op_LBU = ''lbu''"
| "mnemonic Op_LH = ''lh''"
| "mnemonic Op_LHU = ''lhu''"
| "mnemonic Op_LW = ''lw''"
| "mnemonic Op_LWL = ''lwl''"
| "mnemonic Op_LWR = ''lwr''"
| "mnemonic Op_LL = ''ll''"
| "mnemonic Op_SB = ''sb''"
| "mnemonic Op_SH = ''sh''"
| "mnemonic Op_SW = ''sw''"
| "mnemonic Op_SWL = ''swl''"
| "mnemonic Op_SWR = ''swr''"
| "mnemonic Op_SC = ''sc''"
| "mnemonic Op_INS = ''ins''"
| "mnemonic Op_MADDU = ''maddu''"
| "mnemonic Op_MSUBU = ''msubu''"
| "mnemonic Op_MADD = ''madd''"
| "mnemonic Op_MSUB = ''msub''"
| "mnemonic Op_MEQ = ''meq''"
| "mnemonic Op_MNE = ''mne''"
| "mnemonic Op_WSBH = ''wsbh''"
| "mnemonic Op_EXT = ''ext''"
| "mnemonic Op_TEQ = ''teq''"
| "mnemonic Op_SEXT = ''seb''"
| "mnemonic Op_UNIMPL = ''unimpl''"

definition is_use_lo_hi_alu :: "opcode \<Rightarrow> bool" where
  "is_use_lo_hi_alu op \<longleftrightarrow> op \<in> {Op_DIV, Op_DIVU, Op_MULT, Op_MULTU, Op_MADDU, Op_MSUBU,
     Op_MADD, Op_MSUB}"

definition only_one_operand :: "opcode \<Rightarrow> bool" where
  "only_one_operand op \<longleftrightarrow> op \<in> {Op_BGEZ, Op_BLEZ, Op_BGTZ, Op_BLTZ}"

datatype byte_opcode =
    B_AND | B_OR | B_XOR | B_SLL | B_U8Range | B_ShrCarry | B_LTU | B_MSB | B_U16Range | B_NOR

primrec byte_opcode_repr :: "byte_opcode \<Rightarrow> u8" where
  "byte_opcode_repr B_AND = 0"
| "byte_opcode_repr B_OR = 1"
| "byte_opcode_repr B_XOR = 2"
| "byte_opcode_repr B_SLL = 3"
| "byte_opcode_repr B_U8Range = 4"
| "byte_opcode_repr B_ShrCarry = 5"
| "byte_opcode_repr B_LTU = 6"
| "byte_opcode_repr B_MSB = 7"
| "byte_opcode_repr B_U16Range = 8"
| "byte_opcode_repr B_NOR = 9"

section \<open>Registers\<close>

datatype (plugins only: code size) register =
    R_ZERO | R_AT | R_V0 | R_V1 | R_A0 | R_A1 | R_A2 | R_A3 | R_T0 | R_T1 | R_T2 | R_T3
    | R_T4 | R_T5 | R_T6 | R_T7 | R_S0 | R_S1 | R_S2 | R_S3 | R_S4 | R_S5 | R_S6 | R_S7
    | R_T8 | R_T9 | R_K0 | R_K1 | R_GP | R_SP | R_FP | R_RA | R_LO | R_HI | R_BRK
    | R_HEAP

definition NUM_REGISTERS :: nat where
  "NUM_REGISTERS = 36"

primrec reg_index :: "register \<Rightarrow> u32" where
  "reg_index R_ZERO = 0"
| "reg_index R_AT = 1"
| "reg_index R_V0 = 2"
| "reg_index R_V1 = 3"
| "reg_index R_A0 = 4"
| "reg_index R_A1 = 5"
| "reg_index R_A2 = 6"
| "reg_index R_A3 = 7"
| "reg_index R_T0 = 8"
| "reg_index R_T1 = 9"
| "reg_index R_T2 = 10"
| "reg_index R_T3 = 11"
| "reg_index R_T4 = 12"
| "reg_index R_T5 = 13"
| "reg_index R_T6 = 14"
| "reg_index R_T7 = 15"
| "reg_index R_S0 = 16"
| "reg_index R_S1 = 17"
| "reg_index R_S2 = 18"
| "reg_index R_S3 = 19"
| "reg_index R_S4 = 20"
| "reg_index R_S5 = 21"
| "reg_index R_S6 = 22"
| "reg_index R_S7 = 23"
| "reg_index R_T8 = 24"
| "reg_index R_T9 = 25"
| "reg_index R_K0 = 26"
| "reg_index R_K1 = 27"
| "reg_index R_GP = 28"
| "reg_index R_SP = 29"
| "reg_index R_FP = 30"
| "reg_index R_RA = 31"
| "reg_index R_LO = 32"
| "reg_index R_HI = 33"
| "reg_index R_BRK = 34"
| "reg_index R_HEAP = 35"

definition all_registers :: "register list" where
  "all_registers =
     [R_ZERO, R_AT, R_V0, R_V1, R_A0, R_A1, R_A2, R_A3, R_T0, R_T1, R_T2, R_T3, R_T4
     , R_T5, R_T6, R_T7, R_S0, R_S1, R_S2, R_S3, R_S4, R_S5, R_S6, R_S7, R_T8, R_T9
     , R_K0, R_K1, R_GP, R_SP, R_FP, R_RA, R_LO, R_HI, R_BRK, R_HEAP]"

text \<open>\<^verbatim>\<open>impl From<u8> for Register\<close>: the table lists the 36 registers in index order, any other
  value panics.\<close>

definition register_from :: "u8 \<Rightarrow> ('e, register) outcome" where
  "register_from v =
     (if unat v < NUM_REGISTERS then Inr (all_registers ! unat v) else Inl (Panic (InvalidRegister v)))"

section \<open>Conversions are inverse\<close>

lemma all_opcodes_complete: "op \<in> set all_opcodes"
  by (cases op) (simp_all add: all_opcodes_def)

lemma opcode_try_from_repr: "opcode_try_from_primitive (opcode_repr op) = Some op"
  by (cases op) (simp_all add: opcode_try_from_primitive_def all_opcodes_def)

lemma opcode_repr_inject [simp]: "opcode_repr op = opcode_repr op' \<longleftrightarrow> op = op'"
  by (metis opcode_try_from_repr option.inject)

lemma opcode_try_from_Some: "opcode_try_from_primitive n = Some op \<Longrightarrow> opcode_repr op = n"
  by (auto simp: opcode_try_from_primitive_def find_Some_iff)

instantiation opcode :: linorder
begin

definition less_eq_opcode :: "opcode \<Rightarrow> opcode \<Rightarrow> bool" where
  "less_eq_opcode x y \<longleftrightarrow> opcode_repr x \<le> opcode_repr y"

definition less_opcode :: "opcode \<Rightarrow> opcode \<Rightarrow> bool" where
  "less_opcode x y \<longleftrightarrow> opcode_repr x < opcode_repr y"

instance
  by standard (auto simp: less_eq_opcode_def less_opcode_def simp flip: opcode_repr_inject)

end

lemma register_from_index: "register_from (ucast (reg_index r)) = Inr r"
  by (cases r) (simp_all add: register_from_def all_registers_def NUM_REGISTERS_def)

lemma reg_index_inject [simp]: "reg_index r = reg_index r' \<longleftrightarrow> r = r'"
  by (metis register_from_index sum.inject(2))

lemma reg_index_less: "reg_index r < 36"
  by (cases r) simp_all

lemma all_registers_index: "list_all (\<lambda>i. reg_index (all_registers ! i) = of_nat i) [0..<36]"
  by (simp add: all_registers_def upt_rec)

lemma register_from_total: "v < 36 \<Longrightarrow> \<exists>r. register_from v = Inr r \<and> reg_index r = ucast v"
proof -
  assume "v < 36"
  then have lt: "unat v < 36" by (simp add: word_less_nat_alt)
  then have "reg_index (all_registers ! unat v) = of_nat (unat v)"
    using all_registers_index by (simp add: list_all_iff)
  with lt show ?thesis
    by (simp add: register_from_def NUM_REGISTERS_def unsigned_of_nat)
qed

end
