(* ===== verification/Instruction.thy ===== *)
theory Instruction
  imports Opcodes
begin

text \<open>
  Instructions and their decoder (\<^verbatim>\<open>crates/core/executor/src/instruction.rs\<close>, and
  \<^verbatim>\<open>sign_extend\<close> of \<^verbatim>\<open>utils.rs\<close>). \<open>decode_from\<close> follows the arms of the Rust
  \<^verbatim>\<open>match (opcode, func)\<close> in their order. Proved here: sign extension agrees with the signed
  conversion of the word library, the decoder is total, and the register operands of a
  decoded instruction are in range.
\<close>

section \<open>Instructions\<close>

record instruction =
  opcode :: opcode
  op_a :: u8
  op_b :: u32
  op_c :: u32
  imm_b :: bool
  imm_c :: bool
  raw :: "u32 option"

definition instruction_new :: "opcode \<Rightarrow> u8 \<Rightarrow> u32 \<Rightarrow> u32 \<Rightarrow> bool \<Rightarrow> bool \<Rightarrow> instruction" where
  "instruction_new opc a b c ib ic =
     \<lparr>opcode = opc, op_a = a, op_b = b, op_c = c, imm_b = ib, imm_c = ic, raw = None\<rparr>"

definition instruction_new_with_raw ::
    "opcode \<Rightarrow> u8 \<Rightarrow> u32 \<Rightarrow> u32 \<Rightarrow> bool \<Rightarrow> bool \<Rightarrow> u32 \<Rightarrow> instruction" where
  "instruction_new_with_raw opc a b c ib ic r =
     \<lparr>opcode = opc, op_a = a, op_b = b, op_c = c, imm_b = ib, imm_c = ic, raw = Some r\<rparr>"

section \<open>Instruction classes\<close>

definition is_alu_instruction :: "instruction \<Rightarrow> bool" where
  "is_alu_instruction i \<longleftrightarrow> opcode i \<in>
     {Op_ADD, Op_SUB, Op_MULT, Op_MULTU, Op_MUL, Op_DIV, Op_DIVU, Op_SLL, Op_SRL, Op_SRA
     , Op_ROR, Op_SLT, Op_SLTU, Op_AND, Op_OR, Op_XOR, Op_NOR, Op_CLZ, Op_CLO, Op_MOD
     , Op_MODU}"

definition is_misc_instruction :: "instruction \<Rightarrow> bool" where
  "is_misc_instruction i \<longleftrightarrow> opcode i \<in>
     {Op_WSBH, Op_SEXT, Op_EXT, Op_INS, Op_MADDU, Op_MSUBU, Op_MEQ, Op_MNE, Op_TEQ
     , Op_MADD, Op_MSUB}"

definition is_mov_cond_instruction :: "instruction \<Rightarrow> bool" where
  "is_mov_cond_instruction i \<longleftrightarrow> opcode i \<in>
     {Op_MEQ, Op_MNE}"

definition is_check_memory_instruction :: "instruction \<Rightarrow> bool" where
  "is_check_memory_instruction i \<longleftrightarrow> opcode i \<in>
     {Op_SYSCALL, Op_MADDU, Op_MSUBU, Op_MADD, Op_MSUB, Op_LH, Op_LWL, Op_LW, Op_LBU
     , Op_LHU, Op_LWR, Op_SB, Op_SH, Op_SWL, Op_SW, Op_SWR, Op_LL, Op_SC, Op_LB}"

definition is_rw_a_instruction :: "instruction \<Rightarrow> bool" where
  "is_rw_a_instruction i \<longleftrightarrow> opcode i \<in>
     {Op_SYSCALL, Op_INS, Op_MADDU, Op_MSUBU, Op_MADD, Op_MSUB, Op_MEQ, Op_MNE, Op_LH
     , Op_LWL, Op_LW, Op_LBU, Op_LHU, Op_LWR, Op_SB, Op_SH, Op_SWL, Op_SW, Op_SWR, Op_LL
     , Op_SC, Op_LB}"

definition is_memory_instruction :: "instruction \<Rightarrow> bool" where
  "is_memory_instruction i \<longleftrightarrow> opcode i \<in>
     {Op_LH, Op_LWL, Op_LW, Op_LBU, Op_LHU, Op_LWR, Op_SB, Op_SH, Op_SWL, Op_SW, Op_SWR
     , Op_LL, Op_SC, Op_LB}"

definition is_memory_load_instruction :: "instruction \<Rightarrow> bool" where
  "is_memory_load_instruction i \<longleftrightarrow> opcode i \<in>
     {Op_LB, Op_LH, Op_LW, Op_LWL, Op_LWR, Op_LBU, Op_LHU, Op_LL}"

definition is_memory_store_instruction :: "instruction \<Rightarrow> bool" where
  "is_memory_store_instruction i \<longleftrightarrow> opcode i \<in>
     {Op_SB, Op_SH, Op_SW, Op_SWL, Op_SWR, Op_SC}"

definition is_memory_store_instruction_except_sc :: "instruction \<Rightarrow> bool" where
  "is_memory_store_instruction_except_sc i \<longleftrightarrow> opcode i \<in>
     {Op_SB, Op_SH, Op_SW, Op_SWL, Op_SWR}"

definition is_branch_instruction :: "instruction \<Rightarrow> bool" where
  "is_branch_instruction i \<longleftrightarrow> opcode i \<in>
     {Op_BEQ, Op_BNE, Op_BLTZ, Op_BGEZ, Op_BLEZ, Op_BGTZ}"

definition is_branch_cmp_instruction :: "instruction \<Rightarrow> bool" where
  "is_branch_cmp_instruction i \<longleftrightarrow> opcode i \<in>
     {Op_BLTZ, Op_BGEZ, Op_BLEZ, Op_BGTZ}"

definition is_cloclz_instruction :: "instruction \<Rightarrow> bool" where
  "is_cloclz_instruction i \<longleftrightarrow> opcode i \<in>
     {Op_CLZ, Op_CLO}"

definition is_maddsubu_instruction :: "instruction \<Rightarrow> bool" where
  "is_maddsubu_instruction i \<longleftrightarrow> opcode i \<in>
     {Op_MADDU, Op_MSUBU}"

definition is_maddsub_instruction :: "instruction \<Rightarrow> bool" where
  "is_maddsub_instruction i \<longleftrightarrow> opcode i \<in>
     {Op_MADD, Op_MSUB}"

definition is_mult_div_instruction :: "instruction \<Rightarrow> bool" where
  "is_mult_div_instruction i \<longleftrightarrow> opcode i \<in>
     {Op_MULT, Op_MULTU, Op_DIV, Op_DIVU}"

definition is_jump_instruction :: "instruction \<Rightarrow> bool" where
  "is_jump_instruction i \<longleftrightarrow> opcode i \<in>
     {Op_Jump, Op_Jumpi, Op_JumpDirect}"

definition is_syscall_instruction :: "instruction \<Rightarrow> bool" where
  "is_syscall_instruction i \<longleftrightarrow> opcode i = Op_SYSCALL"

lemmas instruction_class_defs =
  is_alu_instruction_def is_misc_instruction_def is_mov_cond_instruction_def
  is_memory_load_instruction_def is_memory_store_instruction_def is_branch_instruction_def
  is_branch_cmp_instruction_def is_cloclz_instruction_def is_maddsubu_instruction_def
  is_maddsub_instruction_def is_jump_instruction_def is_syscall_instruction_def

section \<open>Sign extension\<close>

definition sign_extend :: "nat \<Rightarrow> u32 \<Rightarrow> u32" where
  "sign_extend n value =
     (let is_signed = drop_bit (n - 1) value \<noteq> 0;
          signed = push_bit n (push_bit (32 - n) 1 - 1);
          msk = push_bit n 1 - 1
      in if is_signed then (value AND msk) OR signed else value AND msk)"

section \<open>Decoding\<close>

text \<open>The fields of an instruction word, extracted at the head of \<^verbatim>\<open>decode_from\<close>.\<close>

record insn_fields =
  f_insn :: u32
  f_op :: u8
  f_func :: u8
  f_rt :: u32
  f_rs :: u32
  f_rd :: u8
  f_sa :: u32
  f_offset :: u32
  f_offset_ext16 :: u32
  f_target :: u32

definition decode_fields :: "u32 \<Rightarrow> insn_fields" where
  "decode_fields insn =
     \<lparr>f_insn = insn,
      f_op = ucast (drop_bit 26 insn AND 0x3F),
      f_func = ucast (insn AND 0x3F),
      f_rt = ucast (ucast (drop_bit 16 insn AND 0x1F) :: u8),
      f_rs = ucast (ucast (drop_bit 21 insn AND 0x1F) :: u8),
      f_rd = ucast (drop_bit 11 insn AND 0x1F),
      f_sa = ucast (ucast (drop_bit 6 insn AND 0x1F) :: u8),
      f_offset = insn AND 0xffff,
      f_offset_ext16 = sign_extend 16 (insn AND 0xffff),
      f_target = insn AND 0x3ffffff\<rparr>"

text \<open>The arms of the match, in source order, in three consecutive groups; \<open>None\<close> means that no arm
  of the group matches and the next group is tried.\<close>

definition decode_arms_alu :: "insn_fields \<Rightarrow> instruction option" where
  "decode_arms_alu f =
     (let insn = f_insn f; op = f_op f; func = f_func f; rt = f_rt f; rs = f_rs f; rd = f_rd f;
          sa = f_sa f; offset = f_offset f; offset_ext16 = f_offset_ext16 f; target = f_target f
      in
      if op = 0b000000 \<and> func = 0b001010 then
        Some (instruction_new Op_MEQ rd rs rt False False)
      else
      if op = 0b000000 \<and> func = 0b001011 then
        Some (instruction_new Op_MNE rd rs rt False False)
      else
      if op = 0b000000 \<and> func = 0b100000 then
        Some (instruction_new Op_ADD rd rs rt False False)
      else
      if op = 0b000000 \<and> func = 0b100001 then
        Some (instruction_new Op_ADD rd rs rt False False)
      else
      if op = 0b000000 \<and> func = 0b100010 then
        Some (instruction_new Op_SUB rd rs rt False False)
      else
      if op = 0b000000 \<and> func = 0b100011 then
        Some (instruction_new Op_SUB rd rs rt False False)
      else
      if op = 0b000000 \<and> func = 0b000000 then
        Some (instruction_new Op_SLL rd rt sa False True)
      else
      if op = 0b000000 \<and> func = 0b000010 then
        (if rs = 1 then Some (instruction_new Op_ROR rd rt sa False True)
          else Some (instruction_new Op_SRL rd rt sa False True))
      else
      if op = 0b000000 \<and> func = 0b000011 then
        Some (instruction_new Op_SRA rd rt sa False True)
      else
      if op = 0b000000 \<and> func = 0b000100 then
        Some (instruction_new Op_SLL rd rt rs False False)
      else
      if op = 0b000000 \<and> func = 0b000110 then
        (if sa = 1 then Some (instruction_new Op_ROR rd rt rs False False)
          else Some (instruction_new Op_SRL rd rt rs False False))
      else
      if op = 0b000000 \<and> func = 0b000111 then
        Some (instruction_new Op_SRA rd rt rs False False)
      else
      if op = 0b011100 \<and> func = 0b000010 then
        Some (instruction_new Op_MUL rd rt rs False False)
      else
      if op = 0b000000 \<and> func = 0b011000 then
        Some (instruction_new Op_MULT 32 rt rs False False)
      else
      if op = 0b000000 \<and> func = 0b011001 then
        Some (instruction_new Op_MULTU 32 rt rs False False)
      else
      if op = 0b000000 \<and> func = 0b011010 then
        (if sa = 3 then Some (instruction_new Op_MOD rd rs rt False False)
          else Some (instruction_new Op_DIV 32 rs rt False False))
      else
      if op = 0b000000 \<and> func = 0b011011 then
        (if sa = 3 then Some (instruction_new Op_MODU rd rs rt False False)
          else Some (instruction_new Op_DIVU 32 rs rt False False))
      else
      if op = 0b000000 \<and> func = 0b010000 then
        Some (instruction_new Op_ADD rd 33 0 False True)
      else
      if op = 0b000000 \<and> func = 0b010001 then
        Some (instruction_new Op_ADD 33 rs 0 False True)
      else
      if op = 0b000000 \<and> func = 0b010010 then
        Some (instruction_new Op_ADD rd 32 0 False True)
      else
      if op = 0b000000 \<and> func = 0b010011 then
        Some (instruction_new Op_ADD 32 rs 0 False True)
      else
      if op = 0b000000 \<and> func = 0b001111 then
        Some (instruction_new Op_ADD 0 0 0 True True)
      else
      if op = 0b011100 \<and> func = 0b100000 then
        Some (instruction_new Op_CLZ rd rs 0 False True)
      else
      if op = 0b011100 \<and> func = 0b100001 then
        Some (instruction_new Op_CLO rd rs 0 False True)
      else
      None)"

definition decode_arms_control_memory :: "insn_fields \<Rightarrow> instruction option" where
  "decode_arms_control_memory f =
     (let insn = f_insn f; op = f_op f; func = f_func f; rt = f_rt f; rs = f_rs f; rd = f_rd f;
          sa = f_sa f; offset = f_offset f; offset_ext16 = f_offset_ext16 f; target = f_target f
      in
      if op = 0x00 \<and> func = 0x08 then
        Some (instruction_new Op_Jump 0 rs 0 False True)
      else
      if op = 0x00 \<and> func = 0x09 then
        Some (instruction_new Op_Jump rd rs 0 False True)
      else
      if op = 0x01 then
        (if rt = 1 then Some (instruction_new Op_BGEZ (ucast rs) 0 (push_bit 2 offset_ext16) True True)
          else if rt = 0 then Some (instruction_new Op_BLTZ (ucast rs) 0 (push_bit 2 offset_ext16) True True)
          else if rt = 0x11 \<and> rs = 0 then Some (instruction_new Op_JumpDirect 31 (push_bit 2 offset_ext16) 0 True True)
          else if rt = 0x1f then Some (instruction_new Op_ADD 0 0 0 True True)
          else Some (instruction_new_with_raw Op_UNIMPL 0 0 insn True True insn))
      else
      if op = 0x02 then
        Some (instruction_new Op_Jumpi 0 (push_bit 2 target) 0 True True)
      else
      if op = 0x03 then
        Some (instruction_new Op_Jumpi 31 (push_bit 2 target) 0 True True)
      else
      if op = 0x04 then
        Some (instruction_new Op_BEQ (ucast rs) rt (push_bit 2 offset_ext16) False True)
      else
      if op = 0x05 then
        Some (instruction_new Op_BNE (ucast rs) rt (push_bit 2 offset_ext16) False True)
      else
      if op = 0x06 then
        Some (instruction_new Op_BLEZ (ucast rs) 0 (push_bit 2 offset_ext16) True True)
      else
      if op = 0x07 then
        Some (instruction_new Op_BGTZ (ucast rs) 0 (push_bit 2 offset_ext16) True True)
      else
      if op = 0b100000 then
        Some (instruction_new Op_LB (ucast rt) rs offset_ext16 False True)
      else
      if op = 0b100001 then
        Some (instruction_new Op_LH (ucast rt) rs offset_ext16 False True)
      else
      if op = 0b100010 then
        Some (instruction_new Op_LWL (ucast rt) rs offset_ext16 False True)
      else
      if op = 0b100011 then
        Some (instruction_new Op_LW (ucast rt) rs offset_ext16 False True)
      else
      if op = 0b100100 then
        Some (instruction_new Op_LBU (ucast rt) rs offset_ext16 False True)
      else
      if op = 0b100101 then
        Some (instruction_new Op_LHU (ucast rt) rs offset_ext16 False True)
      else
      if op = 0b100110 then
        Some (instruction_new Op_LWR (ucast rt) rs offset_ext16 False True)
      else
      if op = 0b110000 then
        Some (instruction_new Op_LL (ucast rt) rs offset_ext16 False True)
      else
      if op = 0b101000 then
        Some (instruction_new Op_SB (ucast rt) rs offset_ext16 False True)
      else
      if op = 0b101001 then
        Some (instruction_new Op_SH (ucast rt) rs offset_ext16 False True)
      else
      if op = 0b101010 then
        Some (instruction_new Op_SWL (ucast rt) rs offset_ext16 False True)
      else
      if op = 0b101011 then
        Some (instruction_new Op_SW (ucast rt) rs offset_ext16 False True)
      else
      if op = 0b101110 then
        Some (instruction_new Op_SWR (ucast rt) rs offset_ext16 False True)
      else
      if op = 0b111000 then
        Some (instruction_new Op_SC (ucast rt) rs offset_ext16 False True)
      else
      None)"

definition decode_arms_imm_misc :: "insn_fields \<Rightarrow> instruction option" where
  "decode_arms_imm_misc f =
     (let insn = f_insn f; op = f_op f; func = f_func f; rt = f_rt f; rs = f_rs f; rd = f_rd f;
          sa = f_sa f; offset = f_offset f; offset_ext16 = f_offset_ext16 f; target = f_target f
      in
      if op = 0b001000 then
        Some (instruction_new Op_ADD (ucast rt) rs offset_ext16 False True)
      else
      if op = 0b001001 then
        Some (instruction_new Op_ADD (ucast rt) rs offset_ext16 False True)
      else
      if op = 0b001010 then
        Some (instruction_new Op_SLT (ucast rt) rs offset_ext16 False True)
      else
      if op = 0b001011 then
        Some (instruction_new Op_SLTU (ucast rt) rs offset_ext16 False True)
      else
      if op = 0b000000 \<and> func = 0b101010 then
        Some (instruction_new Op_SLT rd rs rt False False)
      else
      if op = 0b000000 \<and> func = 0b101011 then
        Some (instruction_new Op_SLTU rd rs rt False False)
      else
      if op = 0b001111 then
        Some (instruction_new Op_SLL (ucast rt) offset_ext16 16 True True)
      else
      if op = 0b000000 \<and> func = 0b100100 then
        Some (instruction_new Op_AND rd rs rt False False)
      else
      if op = 0b000000 \<and> func = 0b100101 then
        Some (instruction_new Op_OR rd rs rt False False)
      else
      if op = 0b000000 \<and> func = 0b100110 then
        Some (instruction_new Op_XOR rd rs rt False False)
      else
      if op = 0b000000 \<and> func = 0b100111 then
        Some (instruction_new Op_NOR rd rs rt False False)
      else
      if op = 0b001100 then
        Some (instruction_new Op_AND (ucast rt) rs offset False True)
      else
      if op = 0b001101 then
        Some (instruction_new Op_OR (ucast rt) rs offset False True)
      else
      if op = 0b001110 then
        Some (instruction_new Op_XOR (ucast rt) rs offset False True)
      else
      if op = 0b000000 \<and> func = 0b001100 then
        Some (instruction_new Op_SYSCALL 2 4 5 False False)
      else
      if op = 0b110011 then
        Some (instruction_new Op_ADD 0 0 0 True True)
      else
      if op = 0b000000 \<and> func = 0b110100 then
        Some (instruction_new Op_TEQ (ucast rs) rt 0 False True)
      else
      if op = 0b011111 \<and> func = 0b100000 then
        (if sa = 0b010000 then Some (instruction_new Op_SEXT rd rt 0 False True)
          else if sa = 0b011000 then Some (instruction_new Op_SEXT rd rt 1 False True)
          else if sa = 0b000010 then Some (instruction_new Op_WSBH rd rt 0 False True)
          else Some (instruction_new_with_raw Op_UNIMPL 0 0 insn True True insn))
      else
      if op = 0b011111 \<and> func = 0b000000 then
        Some (instruction_new Op_EXT (ucast rt) rs (push_bit 5 (ucast rd) OR sa) False True)
      else
      if op = 0b011111 \<and> func = 0b000100 then
        Some (instruction_new Op_INS (ucast rt) rs (push_bit 5 (ucast rd) OR sa) False True)
      else
      if op = 0b011100 \<and> func = 0b000001 then
        Some (instruction_new Op_MADDU 32 rt rs False False)
      else
      if op = 0b011100 \<and> func = 0b000101 then
        Some (instruction_new Op_MSUBU 32 rt rs False False)
      else
      if op = 0b011100 \<and> func = 0b000000 then
        Some (instruction_new Op_MADD 32 rt rs False False)
      else
      if op = 0b011100 \<and> func = 0b000100 then
        Some (instruction_new Op_MSUB 32 rt rs False False)
      else
      None)"

definition decode_from :: "u32 \<Rightarrow> ('e, instruction) outcome" where
  "decode_from insn =
     (let f = decode_fields insn in
      case decode_arms_alu f of Some i \<Rightarrow> Inr i
      | None \<Rightarrow>
        (case decode_arms_control_memory f of Some i \<Rightarrow> Inr i
         | None \<Rightarrow>
           (case decode_arms_imm_misc f of Some i \<Rightarrow> Inr i
            | None \<Rightarrow> Inr (instruction_new_with_raw Op_UNIMPL 0 0 insn True True insn))))"

section \<open>Sign extension is the signed conversion\<close>

lemma sign_extend_16: "sign_extend 16 (x AND 0xffff) = scast (ucast x :: u16)"
proof -
  have s: "(drop_bit 15 (x AND 0xffff) \<noteq> 0) = bit x 15"
    using top_bit_iff [of 15 x] by (simp add: and_0xffff)
  show ?thesis
    unfolding sign_extend_def Let_def
    by (simp add: s u32_eq_iff_bits bit_simps)
qed

lemma sign_extend_8: "sign_extend 8 (x AND 0xff) = scast (ucast x :: u8)"
proof -
  have s: "(drop_bit 7 (x AND 0xff) \<noteq> 0) = bit x 7"
    using top_bit_iff [of 7 x] by (simp add: and_0xff)
  show ?thesis
    unfolding sign_extend_def Let_def
    by (simp add: s u32_eq_iff_bits bit_simps)
qed
section \<open>Register operands of decoded instructions\<close>

text \<open>Operands that the executor converts to registers with \<^verbatim>\<open>Register::from\<close> stay below 34: a five
  bit field, or the fixed numbers of LO (32) and HI (33).\<close>

definition regs_in_range :: "instruction \<Rightarrow> bool" where
  "regs_in_range i \<longleftrightarrow>
     op_a i < 34 \<and> (\<not> imm_b i \<longrightarrow> op_b i < 34) \<and> (\<not> imm_c i \<longrightarrow> op_c i < 32)"

definition fields_in_range :: "insn_fields \<Rightarrow> bool" where
  "fields_in_range f \<longleftrightarrow> f_rt f < 32 \<and> f_rs f < 32 \<and> f_rd f < 32"

lemma take_bit_5_less: "take_bit 5 (x::u32) < 32"
  using take_bit_nat_less_exp [of 5 "unat x"]
  by (simp add: word_less_nat_alt unsigned_take_bit_eq)

lemma ucast_u8_less: "(x::u32) < 32 \<Longrightarrow> (ucast x :: u8) < 32"
  by (simp add: word_less_nat_alt unsigned_ucast_eq take_bit_nat_eq_self)

lemma word_less_34: "(x::u32) < 32 \<Longrightarrow> x < 34" "(y::u8) < 32 \<Longrightarrow> y < 34"
  by (auto simp: word_less_nat_alt)

lemma decode_fields_in_range: "fields_in_range (decode_fields insn)"
proof -
  have "take_bit 5 x < 256" for x :: u32
    by (rule order.strict_trans [OF take_bit_5_less]) simp
  then show ?thesis
    by (simp add: fields_in_range_def decode_fields_def and_0x1F ucast_u8_id take_bit_5_less
        ucast_u8_less)
qed

lemma fields_in_range_facts:
  assumes "fields_in_range f"
  shows "f_rt f < 32" "f_rs f < 32" "f_rt f < 34" "f_rs f < 34" "f_rd f < 34"
    "(ucast (f_rt f) :: u8) < 34" "(ucast (f_rs f) :: u8) < 34"
  using assms by (simp_all add: fields_in_range_def word_less_34 ucast_u8_less)

lemma decode_arms_regs_in_range:
  assumes f: "fields_in_range f"
  shows "decode_arms_alu f = Some i \<Longrightarrow> regs_in_range i"
    and "decode_arms_control_memory f = Some i \<Longrightarrow> regs_in_range i"
    and "decode_arms_imm_misc f = Some i \<Longrightarrow> regs_in_range i"
  using fields_in_range_facts [OF f]
  by (auto simp: decode_arms_alu_def decode_arms_control_memory_def decode_arms_imm_misc_def Let_def
      regs_in_range_def instruction_new_def instruction_new_with_raw_def split: if_splits)

text \<open>C14: decoding never fails, and every register operand of the decoded instruction is an existing
  register.\<close>

lemma decode_from_regs_in_range: "\<exists>i. decode_from insn = Inr i \<and> regs_in_range i"
proof -
  note arms = decode_arms_regs_in_range [OF decode_fields_in_range [of insn]]
  show ?thesis
    by (auto simp: decode_from_def Let_def regs_in_range_def instruction_new_with_raw_def
        dest: arms split: option.split)
qed

end
