(* ===== verification/Encoding.thy ===== *)
theory Encoding
  imports Instruction
begin

text \<open>
  The MIPS32 Release 2 instruction encodings, written from the architecture's formats and
  independent of the decoder: an assembly datatype, its 32-bit encodings, and the virtual-machine
  instruction each one must decode to at its address. The theorem \<open>decode_encode\<close> checks the arms of
  \<^verbatim>\<open>Instruction::decode_from\<close> against them for all operand values. The jumps \<open>J\<close> and \<open>JAL\<close> stay within the
  256 MB region of their delay slot; the decoder, which does not see the address, is right for them only in the lowest region.
\<close>

section \<open>Instruction formats\<close>

definition enc_r :: "6 word \<Rightarrow> 5 word \<Rightarrow> 5 word \<Rightarrow> 5 word \<Rightarrow> 5 word \<Rightarrow> 6 word \<Rightarrow> u32" where
  "enc_r opc rs rt rd sa fn =
     push_bit 26 (ucast opc) OR push_bit 21 (ucast rs) OR push_bit 16 (ucast rt) OR
     push_bit 11 (ucast rd) OR push_bit 6 (ucast sa) OR ucast fn"

definition enc_i :: "6 word \<Rightarrow> 5 word \<Rightarrow> 5 word \<Rightarrow> 16 word \<Rightarrow> u32" where
  "enc_i opc rs rt imm =
     push_bit 26 (ucast opc) OR push_bit 21 (ucast rs) OR push_bit 16 (ucast rt) OR ucast imm"

definition enc_j :: "6 word \<Rightarrow> 26 word \<Rightarrow> u32" where
  "enc_j opc target = push_bit 26 (ucast opc) OR ucast target"

lemma fields_enc_r:
  "f_op (decode_fields (enc_r opc rs rt rd sa fn)) = ucast opc"
  "f_func (decode_fields (enc_r opc rs rt rd sa fn)) = ucast fn"
  "f_rs (decode_fields (enc_r opc rs rt rd sa fn)) = ucast rs"
  "f_rt (decode_fields (enc_r opc rs rt rd sa fn)) = ucast rt"
  "f_rd (decode_fields (enc_r opc rs rt rd sa fn)) = ucast rd"
  "f_sa (decode_fields (enc_r opc rs rt rd sa fn)) = ucast sa"
  by (simp_all add: decode_fields_def enc_r_def u32_eq_iff_bits u8_eq_iff_bits bit_simps bit_beyond)

lemma fields_enc_i:
  "f_op (decode_fields (enc_i opc rs rt imm)) = ucast opc"
  "f_rs (decode_fields (enc_i opc rs rt imm)) = ucast rs"
  "f_rt (decode_fields (enc_i opc rs rt imm)) = ucast rt"
  "f_offset (decode_fields (enc_i opc rs rt imm)) = ucast imm"
  "f_offset_ext16 (decode_fields (enc_i opc rs rt imm)) = scast imm"
  by (simp_all add: decode_fields_def enc_i_def u32_eq_iff_bits u8_eq_iff_bits bit_simps bit_beyond sign_extend_16)

lemma fields_enc_j:
  "f_op (decode_fields (enc_j opc target)) = ucast opc"
  "f_target (decode_fields (enc_j opc target)) = ucast target"
  by (simp_all add: decode_fields_def enc_j_def u32_eq_iff_bits u8_eq_iff_bits bit_simps bit_beyond)


section \<open>Assembly instructions of MIPS32r2 and their encodings\<close>

type_synonym reg5 = "5 word"

datatype r3_op = M_ADD | M_ADDU | M_SUB | M_SUBU | M_AND | M_OR | M_XOR | M_NOR
  | M_SLT | M_SLTU | M_MOVZ | M_MOVN

datatype shift_op = M_SLL | M_SRL | M_SRA | M_ROTR

datatype hilo_op = M_MULT | M_MULTU | M_DIV | M_DIVU | M_MADD | M_MADDU | M_MSUB | M_MSUBU

datatype imm_op = M_ADDI | M_ADDIU | M_SLTI | M_SLTIU | M_ANDI | M_ORI | M_XORI

datatype mem_op = M_LB | M_LH | M_LWL | M_LW | M_LBU | M_LHU | M_LWR | M_LL
  | M_SB | M_SH | M_SWL | M_SW | M_SWR | M_SC

datatype branch1_op = M_BLEZ | M_BGTZ | M_BLTZ | M_BGEZ

datatype asm =
    R3 r3_op reg5 reg5 reg5 \<comment> \<open>\<open>op rd, rs, rt\<close>\<close>
  | MUL reg5 reg5 reg5 \<comment> \<open>\<open>mul rd, rs, rt\<close>\<close>
  | ShiftV shift_op reg5 reg5 reg5 \<comment> \<open>\<open>op rd, rt, rs\<close>: shift by a register\<close>
  | Shift shift_op reg5 reg5 reg5 \<comment> \<open>\<open>op rd, rt, sa\<close>: shift by a constant\<close>
  | HiLo hilo_op reg5 reg5 \<comment> \<open>\<open>op rs, rt\<close>: result in HI and LO\<close>
  | MFHI reg5 | MFLO reg5 | MTHI reg5 | MTLO reg5
  | CLZ reg5 reg5 | CLO reg5 reg5 \<comment> \<open>\<open>op rd, rs\<close>\<close>
  | SEB reg5 reg5 | SEH reg5 reg5 | WSBH reg5 reg5 \<comment> \<open>\<open>op rd, rt\<close>\<close>
  | EXT reg5 reg5 reg5 reg5 \<comment> \<open>\<open>ext rt, rs\<close> with fields \<open>msbd\<close>, \<open>lsb\<close>\<close>
  | INS reg5 reg5 reg5 reg5 \<comment> \<open>\<open>ins rt, rs\<close> with fields \<open>msb\<close>, \<open>lsb\<close>\<close>
  | Imm imm_op reg5 reg5 u16 \<comment> \<open>\<open>op rt, rs, imm\<close>\<close>
  | LUI reg5 u16
  | Mem mem_op reg5 u16 reg5 \<comment> \<open>\<open>op rt, offset(base)\<close>\<close>
  | BEQ reg5 reg5 u16 | BNE reg5 reg5 u16 | Branch1 branch1_op reg5 u16 | BAL u16
  | J "26 word" | JAL "26 word" | JR reg5 | JALR reg5 reg5 \<comment> \<open>\<open>jalr rd, rs\<close>\<close>
  | SYSCALL reg5 reg5 reg5 reg5 \<comment> \<open>the four fields of the code, ignored\<close>
  | TEQ reg5 reg5 reg5 reg5 \<comment> \<open>\<open>teq rs, rt\<close> and the two fields of the code\<close>
  | SYNC reg5 | SYNCI reg5 u16 | PREF reg5 reg5 u16

primrec r3_func :: "r3_op \<Rightarrow> 6 word" where
  "r3_func M_ADD = 0x20" | "r3_func M_ADDU = 0x21" | "r3_func M_SUB = 0x22"
| "r3_func M_SUBU = 0x23" | "r3_func M_AND = 0x24" | "r3_func M_OR = 0x25"
| "r3_func M_XOR = 0x26" | "r3_func M_NOR = 0x27" | "r3_func M_SLT = 0x2A"
| "r3_func M_SLTU = 0x2B" | "r3_func M_MOVZ = 0x0A" | "r3_func M_MOVN = 0x0B"

primrec shiftv_func :: "shift_op \<Rightarrow> 6 word" where
  "shiftv_func M_SLL = 4" | "shiftv_func M_SRL = 6" | "shiftv_func M_SRA = 7"
| "shiftv_func M_ROTR = 6"

primrec shift_func :: "shift_op \<Rightarrow> 6 word" where
  "shift_func M_SLL = 0" | "shift_func M_SRL = 2" | "shift_func M_SRA = 3"
| "shift_func M_ROTR = 2"

primrec hilo_code :: "hilo_op \<Rightarrow> 6 word \<times> 6 word" where
  "hilo_code M_MULT = (0, 0x18)" | "hilo_code M_MULTU = (0, 0x19)"
| "hilo_code M_DIV = (0, 0x1A)" | "hilo_code M_DIVU = (0, 0x1B)"
| "hilo_code M_MADD = (0x1C, 0)" | "hilo_code M_MADDU = (0x1C, 1)"
| "hilo_code M_MSUB = (0x1C, 4)" | "hilo_code M_MSUBU = (0x1C, 5)"

primrec imm_code :: "imm_op \<Rightarrow> 6 word" where
  "imm_code M_ADDI = 8" | "imm_code M_ADDIU = 9" | "imm_code M_SLTI = 0xA"
| "imm_code M_SLTIU = 0xB" | "imm_code M_ANDI = 0xC" | "imm_code M_ORI = 0xD"
| "imm_code M_XORI = 0xE"

primrec mem_code :: "mem_op \<Rightarrow> 6 word" where
  "mem_code M_LB = 0x20" | "mem_code M_LH = 0x21" | "mem_code M_LWL = 0x22"
| "mem_code M_LW = 0x23" | "mem_code M_LBU = 0x24" | "mem_code M_LHU = 0x25"
| "mem_code M_LWR = 0x26" | "mem_code M_LL = 0x30" | "mem_code M_SB = 0x28"
| "mem_code M_SH = 0x29" | "mem_code M_SWL = 0x2A" | "mem_code M_SW = 0x2B"
| "mem_code M_SWR = 0x2E" | "mem_code M_SC = 0x38"

primrec branch1_code :: "branch1_op \<Rightarrow> 6 word \<times> reg5" where
  "branch1_code M_BLEZ = (6, 0)" | "branch1_code M_BGTZ = (7, 0)"
| "branch1_code M_BLTZ = (1, 0)" | "branch1_code M_BGEZ = (1, 1)"

primrec encode :: "asm \<Rightarrow> u32" where
  "encode (R3 x rd rs rt) = enc_r 0 rs rt rd 0 (r3_func x)"
| "encode (MUL rd rs rt) = enc_r 0x1C rs rt rd 0 2"
| "encode (ShiftV x rd rt rs) = enc_r 0 rs rt rd (if x = M_ROTR then 1 else 0) (shiftv_func x)"
| "encode (Shift x rd rt sa) = enc_r 0 (if x = M_ROTR then 1 else 0) rt rd sa (shift_func x)"
| "encode (HiLo x rs rt) = enc_r (fst (hilo_code x)) rs rt 0 0 (snd (hilo_code x))"
| "encode (MFHI rd) = enc_r 0 0 0 rd 0 0x10"
| "encode (MFLO rd) = enc_r 0 0 0 rd 0 0x12"
| "encode (MTHI rs) = enc_r 0 rs 0 0 0 0x11"
| "encode (MTLO rs) = enc_r 0 rs 0 0 0 0x13"
| "encode (CLZ rd rs) = enc_r 0x1C rs rd rd 0 0x20"
| "encode (CLO rd rs) = enc_r 0x1C rs rd rd 0 0x21"
| "encode (SEB rd rt) = enc_r 0x1F 0 rt rd 0x10 0x20"
| "encode (SEH rd rt) = enc_r 0x1F 0 rt rd 0x18 0x20"
| "encode (WSBH rd rt) = enc_r 0x1F 0 rt rd 0x02 0x20"
| "encode (EXT rt rs msbd lsb) = enc_r 0x1F rs rt msbd lsb 0"
| "encode (INS rt rs msb lsb) = enc_r 0x1F rs rt msb lsb 4"
| "encode (Imm x rt rs imm) = enc_i (imm_code x) rs rt imm"
| "encode (LUI rt imm) = enc_i 0xF 0 rt imm"
| "encode (Mem x rt offset base) = enc_i (mem_code x) base rt offset"
| "encode (BEQ rs rt offset) = enc_i 4 rs rt offset"
| "encode (BNE rs rt offset) = enc_i 5 rs rt offset"
| "encode (Branch1 x rs offset) = enc_i (fst (branch1_code x)) rs (snd (branch1_code x)) offset"
| "encode (BAL offset) = enc_i 1 0 0x11 offset"
| "encode (J target) = enc_j 2 target"
| "encode (JAL target) = enc_j 3 target"
| "encode (JR rs) = enc_r 0 rs 0 0 0 8"
| "encode (JALR rd rs) = enc_r 0 rs 0 rd 0 9"
| "encode (SYSCALL c1 c2 c3 c4) = enc_r 0 c1 c2 c3 c4 0xC"
| "encode (TEQ rs rt c1 c2) = enc_r 0 rs rt c1 c2 0x34"
| "encode (SYNC stype) = enc_r 0 0 0 0 stype 0xF"
| "encode (SYNCI base offset) = enc_i 1 base 0x1F offset"
| "encode (PREF hint base offset) = enc_i 0x33 base hint offset"

section \<open>What each instruction must decode to\<close>

primrec r3_opcode :: "r3_op \<Rightarrow> opcode" where
  "r3_opcode M_ADD = Op_ADD" | "r3_opcode M_ADDU = Op_ADD" | "r3_opcode M_SUB = Op_SUB"
| "r3_opcode M_SUBU = Op_SUB" | "r3_opcode M_AND = Op_AND" | "r3_opcode M_OR = Op_OR"
| "r3_opcode M_XOR = Op_XOR" | "r3_opcode M_NOR = Op_NOR" | "r3_opcode M_SLT = Op_SLT"
| "r3_opcode M_SLTU = Op_SLTU" | "r3_opcode M_MOVZ = Op_MEQ" | "r3_opcode M_MOVN = Op_MNE"

primrec shift_opcode :: "shift_op \<Rightarrow> opcode" where
  "shift_opcode M_SLL = Op_SLL" | "shift_opcode M_SRL = Op_SRL" | "shift_opcode M_SRA = Op_SRA"
| "shift_opcode M_ROTR = Op_ROR"

primrec hilo_opcode :: "hilo_op \<Rightarrow> opcode" where
  "hilo_opcode M_MULT = Op_MULT" | "hilo_opcode M_MULTU = Op_MULTU"
| "hilo_opcode M_DIV = Op_DIV" | "hilo_opcode M_DIVU = Op_DIVU"
| "hilo_opcode M_MADD = Op_MADD" | "hilo_opcode M_MADDU = Op_MADDU"
| "hilo_opcode M_MSUB = Op_MSUB" | "hilo_opcode M_MSUBU = Op_MSUBU"

primrec imm_opcode :: "imm_op \<Rightarrow> opcode" where
  "imm_opcode M_ADDI = Op_ADD" | "imm_opcode M_ADDIU = Op_ADD" | "imm_opcode M_SLTI = Op_SLT"
| "imm_opcode M_SLTIU = Op_SLTU" | "imm_opcode M_ANDI = Op_AND" | "imm_opcode M_ORI = Op_OR"
| "imm_opcode M_XORI = Op_XOR"

definition imm_value :: "imm_op \<Rightarrow> u16 \<Rightarrow> u32" where
  "imm_value x imm = (if x \<in> {M_ANDI, M_ORI, M_XORI} then ucast imm else scast imm)"

primrec mem_opcode :: "mem_op \<Rightarrow> opcode" where
  "mem_opcode M_LB = Op_LB" | "mem_opcode M_LH = Op_LH" | "mem_opcode M_LWL = Op_LWL"
| "mem_opcode M_LW = Op_LW" | "mem_opcode M_LBU = Op_LBU" | "mem_opcode M_LHU = Op_LHU"
| "mem_opcode M_LWR = Op_LWR" | "mem_opcode M_LL = Op_LL" | "mem_opcode M_SB = Op_SB"
| "mem_opcode M_SH = Op_SH" | "mem_opcode M_SWL = Op_SWL" | "mem_opcode M_SW = Op_SW"
| "mem_opcode M_SWR = Op_SWR" | "mem_opcode M_SC = Op_SC"

primrec branch1_opcode :: "branch1_op \<Rightarrow> opcode" where
  "branch1_opcode M_BLEZ = Op_BLEZ" | "branch1_opcode M_BGTZ = Op_BGTZ"
| "branch1_opcode M_BLTZ = Op_BLTZ" | "branch1_opcode M_BGEZ = Op_BGEZ"

definition rri :: "opcode \<Rightarrow> u8 \<Rightarrow> reg5 \<Rightarrow> u32 \<Rightarrow> instruction" where
  "rri x a b c = instruction_new x a (ucast b) c False True"

definition rrr :: "opcode \<Rightarrow> u8 \<Rightarrow> reg5 \<Rightarrow> reg5 \<Rightarrow> instruction" where
  "rrr x a b c = instruction_new x a (ucast b) (ucast c) False False"

definition branch_offset :: "u16 \<Rightarrow> u32" where
  "branch_offset offset = 4 * scast offset"

text \<open>The target of \<open>J\<close> and \<open>JAL\<close>: the upper four bits are those of the address of the delay slot.\<close>

definition region_target :: "u32 \<Rightarrow> 26 word \<Rightarrow> u32" where
  "region_target pc target = ((pc + 4) AND 0xF0000000) OR 4 * ucast target"

fun is_region_jump :: "asm \<Rightarrow> bool" where
  "is_region_jump (J target) = True"
| "is_region_jump (JAL target) = True"
| "is_region_jump _ = False"

primrec lower :: "u32 \<Rightarrow> asm \<Rightarrow> instruction" where
  "lower pc (R3 x rd rs rt) = rrr (r3_opcode x) (ucast rd) rs rt"
| "lower pc (MUL rd rs rt) = rrr Op_MUL (ucast rd) rt rs"
| "lower pc (ShiftV x rd rt rs) = rrr (shift_opcode x) (ucast rd) rt rs"
| "lower pc (Shift x rd rt sa) = rri (shift_opcode x) (ucast rd) rt (ucast sa)"
| "lower pc (HiLo x rs rt) =
     (if x \<in> {M_DIV, M_DIVU} then rrr (hilo_opcode x) 32 rs rt else rrr (hilo_opcode x) 32 rt rs)"
| "lower pc (MFHI rd) = instruction_new Op_ADD (ucast rd) 33 0 False True"
| "lower pc (MFLO rd) = instruction_new Op_ADD (ucast rd) 32 0 False True"
| "lower pc (MTHI rs) = rri Op_ADD 33 rs 0"
| "lower pc (MTLO rs) = rri Op_ADD 32 rs 0"
| "lower pc (CLZ rd rs) = rri Op_CLZ (ucast rd) rs 0"
| "lower pc (CLO rd rs) = rri Op_CLO (ucast rd) rs 0"
| "lower pc (SEB rd rt) = rri Op_SEXT (ucast rd) rt 0"
| "lower pc (SEH rd rt) = rri Op_SEXT (ucast rd) rt 1"
| "lower pc (WSBH rd rt) = rri Op_WSBH (ucast rd) rt 0"
| "lower pc (EXT rt rs msbd lsb) = rri Op_EXT (ucast rt) rs (32 * ucast msbd + ucast lsb)"
| "lower pc (INS rt rs msb lsb) = rri Op_INS (ucast rt) rs (32 * ucast msb + ucast lsb)"
| "lower pc (Imm x rt rs imm) = rri (imm_opcode x) (ucast rt) rs (imm_value x imm)"
| "lower pc (LUI rt imm) = instruction_new Op_SLL (ucast rt) (scast imm) 16 True True"
| "lower pc (Mem x rt offset base) = rri (mem_opcode x) (ucast rt) base (scast offset)"
| "lower pc (BEQ rs rt offset) = rri Op_BEQ (ucast rs) rt (branch_offset offset)"
| "lower pc (BNE rs rt offset) = rri Op_BNE (ucast rs) rt (branch_offset offset)"
| "lower pc (Branch1 x rs offset) =
     instruction_new (branch1_opcode x) (ucast rs) 0 (branch_offset offset) True True"
| "lower pc (BAL offset) = instruction_new Op_JumpDirect 31 (branch_offset offset) 0 True True"
| "lower pc (J target) = instruction_new Op_Jumpi 0 (region_target pc target) 0 True True"
| "lower pc (JAL target) = instruction_new Op_Jumpi 31 (region_target pc target) 0 True True"
| "lower pc (JR rs) = rri Op_Jump 0 rs 0"
| "lower pc (JALR rd rs) = rri Op_Jump (ucast rd) rs 0"
| "lower pc (SYSCALL c1 c2 c3 c4) = instruction_new Op_SYSCALL 2 4 5 False False"
| "lower pc (TEQ rs rt c1 c2) = rri Op_TEQ (ucast rs) rt 0"
| "lower pc (SYNC stype) = instruction_new Op_ADD 0 0 0 True True"
| "lower pc (SYNCI base offset) = instruction_new Op_ADD 0 0 0 True True"
| "lower pc (PREF hint base offset) = instruction_new Op_ADD 0 0 0 True True"

lemmas decode_defs = decode_from_def decode_arms_alu_def decode_arms_control_memory_def
  decode_arms_imm_misc_def Let_def

lemma ucast_5_32 [simp]: "(ucast (ucast (r::reg5) :: u32) :: u8) = ucast r"
  by (simp add: u8_eq_iff_bits bit_simps bit_beyond)

lemma field_pair: "push_bit 5 (ucast (ucast (x::reg5) :: u8)) OR ucast (y::reg5) = (32 * ucast x + ucast y :: u32)"
proof -
  have "push_bit 5 (ucast x) OR ucast y = push_bit 5 (ucast x) + (ucast y :: u32)"
    by (rule disjunctive_add [symmetric]) (auto simp: bit_simps dest!: bit_imp_le_length)
  moreover have "(ucast (ucast x :: u8) :: u32) = ucast x"
    by (simp add: u32_eq_iff_bits bit_simps bit_beyond)
  ultimately show ?thesis
    by (simp add: push_bit_eq_mult mult.commute)
qed

lemma push_2: "push_bit 2 (x::u32) = 4 * x"
  by (simp add: push_bit_eq_mult mult.commute)


lemmas enc_simps = fields_enc_r fields_enc_i fields_enc_j

lemma decode_enc_r3: "decode_from (encode (R3 x rd rs rt)) = Inr (lower pc (R3 x rd rs rt))"
  by (cases x) (simp_all add: decode_defs enc_simps rrr_def)

lemma decode_enc_shift:
  "decode_from (encode (ShiftV x rd rt rs)) = Inr (lower pc (ShiftV x rd rt rs))"
  "decode_from (encode (Shift x rd rt sa)) = Inr (lower pc (Shift x rd rt sa))"
  by (cases x; simp add: decode_defs enc_simps rrr_def rri_def)+

lemma decode_enc_hilo: "decode_from (encode (HiLo x rs rt)) = Inr (lower pc (HiLo x rs rt))"
  by (cases x) (simp_all add: decode_defs enc_simps rrr_def)

lemma decode_enc_imm: "decode_from (encode (Imm x rt rs imm)) = Inr (lower pc (Imm x rt rs imm))"
  by (cases x) (simp_all add: decode_defs enc_simps rri_def imm_value_def)

lemma decode_enc_mem: "decode_from (encode (Mem x rt offset base)) = Inr (lower pc (Mem x rt offset base))"
  by (cases x) (simp_all add: decode_defs enc_simps rri_def)

lemma decode_enc_branch1: "decode_from (encode (Branch1 x rs offset)) = Inr (lower pc (Branch1 x rs offset))"
  by (cases x) (simp_all add: decode_defs enc_simps push_2 branch_offset_def)

lemma region_target_low:
  assumes "pc + 4 < (0x10000000 :: u32)"
  shows "region_target pc target = 4 * ucast target"
proof -
  have "unat (pc + 4) < 2 ^ 28" using assms by (simp only: word_less_nat_alt) simp
  then have "take_bit 28 (pc + 4) = pc + 4" by (simp add: word_unat_eq_iff unsigned_take_bit_eq take_bit_nat_eq_self)
  then have "\<not> bit (pc + 4) n" if "28 \<le> n" for n using that by (metis bit_take_bit_iff leD)
  then have "(pc + 4) AND 0xF0000000 = 0" by (simp add: u32_eq_iff_bits bit_simps)
  then show ?thesis by (simp add: region_target_def)
qed

text \<open>C13: for every assembly instruction and all operands, decoding its MIPS32r2 encoding gives the virtual-machine
  instruction it stands for at its address. For \<open>J\<close> and \<open>JAL\<close>, whose target keeps the upper four bits of the address of the
  delay slot, the delay slot must lie below \<open>0x10000000\<close>: the decoder takes the index as an absolute address.\<close>

theorem decode_encode:
  assumes "is_region_jump a \<longrightarrow> pc + 4 < 0x10000000"
  shows "decode_from (encode a) = Inr (lower pc a)"
  using assms
proof (cases a)
  case (R3 x rd rs rt) then show ?thesis by (simp only: decode_enc_r3)
next
  case (ShiftV x rd rt rs) then show ?thesis by (simp only: decode_enc_shift)
next
  case (Shift x rd rt sa) then show ?thesis by (simp only: decode_enc_shift)
next
  case (HiLo x rs rt) then show ?thesis by (simp only: decode_enc_hilo)
next
  case (Imm x rt rs imm) then show ?thesis by (simp only: decode_enc_imm)
next
  case (Mem x rt offset base) then show ?thesis by (simp only: decode_enc_mem)
next
  case (Branch1 x rs offset) then show ?thesis by (simp only: decode_enc_branch1)
qed (simp only: encode.simps lower.simps, simp add: decode_defs enc_simps rrr_def rri_def field_pair
    push_2 branch_offset_def region_target_low)+

theorem decode_encode_witness:
  "decode_from (encode (JAL 0x100)) = Inr (instruction_new Op_Jumpi 31 0x400 0 True True) \<and>
   decode_from (encode (BNE 8 9 0xFFFF)) = Inr (rri Op_BNE 8 9 (- 4))"
  using decode_encode [where a = "JAL 0x100" and pc = "0x1000"] decode_encode [where a = "BNE 8 9 0xFFFF" and pc = "0x20001000"]
  by (simp add: region_target_def branch_offset_def)

end
