(* ===== verification/Events.thy ===== *)
theory Events
  imports Instruction
begin

text \<open>
  The events of an execution trace (\<^verbatim>\<open>crates/core/executor/src/events/\<close>): memory records and access
  positions, and the CPU, ALU, memory, branch, jump, misc, conditional-move and syscall events.
  Field names carry a prefix for their struct.
\<close>

record memory_record =
  rec_shard :: u32
  rec_timestamp :: u32
  rec_value :: u32

record memory_read_record =
  rd_value :: u32
  rd_shard :: u32
  rd_timestamp :: u32
  rd_prev_shard :: u32
  rd_prev_timestamp :: u32

record memory_write_record =
  wr_value :: u32
  wr_shard :: u32
  wr_timestamp :: u32
  wr_prev_value :: u32
  wr_prev_shard :: u32
  wr_prev_timestamp :: u32

datatype memory_record_enum = Read memory_read_record | Write memory_write_record

primrec record_value :: "memory_record_enum \<Rightarrow> u32" where
  "record_value (Read r) = rd_value r"
| "record_value (Write r) = wr_value r"

primrec current_record :: "memory_record_enum \<Rightarrow> memory_record" where
  "current_record (Read r) = \<lparr>rec_shard = rd_shard r, rec_timestamp = rd_timestamp r, rec_value = rd_value r\<rparr>"
| "current_record (Write r) = \<lparr>rec_shard = wr_shard r, rec_timestamp = wr_timestamp r, rec_value = wr_value r\<rparr>"

primrec previous_record :: "memory_record_enum \<Rightarrow> memory_record" where
  "previous_record (Read r) =
     \<lparr>rec_shard = rd_prev_shard r, rec_timestamp = rd_prev_timestamp r, rec_value = rd_value r\<rparr>"
| "previous_record (Write r) =
     \<lparr>rec_shard = wr_prev_shard r, rec_timestamp = wr_prev_timestamp r, rec_value = wr_prev_value r\<rparr>"

definition default_write_record :: memory_write_record where
  "default_write_record = \<lparr>wr_value = 0, wr_shard = 0, wr_timestamp = 0,
     wr_prev_value = 0, wr_prev_shard = 0, wr_prev_timestamp = 0\<rparr>"

datatype memory_access_position = PosMemory | PosC | PosB | PosA | PosHI

primrec position_offset :: "memory_access_position \<Rightarrow> u32" where
  "position_offset PosMemory = 0"
| "position_offset PosC = 1"
| "position_offset PosB = 2"
| "position_offset PosA = 3"
| "position_offset PosHI = 4"

record memory_init_finalize_event =
  if_addr :: u32
  if_value :: u32
  if_shard :: u32
  if_timestamp :: u32

definition init_event :: "u32 \<Rightarrow> u32 \<Rightarrow> memory_init_finalize_event" where
  "init_event addr value = \<lparr>if_addr = addr, if_value = value, if_shard = 1, if_timestamp = 1\<rparr>"

definition finalize_from_record :: "u32 \<Rightarrow> memory_record \<Rightarrow> memory_init_finalize_event" where
  "finalize_from_record addr r =
     \<lparr>if_addr = addr, if_value = rec_value r, if_shard = rec_shard r, if_timestamp = rec_timestamp r\<rparr>"

record memory_local_event =
  le_addr :: u32
  le_initial_mem_access :: memory_record
  le_final_mem_access :: memory_record

record memory_access_record =
  acc_a :: "memory_record_enum option"
  acc_b :: "memory_record_enum option"
  acc_c :: "memory_record_enum option"
  acc_hi :: "memory_record_enum option"
  acc_memory :: "memory_record_enum option"

definition default_access_record :: memory_access_record where
  "default_access_record = \<lparr>acc_a = None, acc_b = None, acc_c = None, acc_hi = None, acc_memory = None\<rparr>"

record cpu_event =
  cpu_clk :: u32
  cpu_pc :: u32
  cpu_next_pc :: u32
  cpu_next_next_pc :: u32
  cpu_a :: u32
  cpu_a_record :: "memory_record_enum option"
  cpu_b :: u32
  cpu_b_record :: "memory_record_enum option"
  cpu_c :: u32
  cpu_c_record :: "memory_record_enum option"
  cpu_hi :: "u32 option"
  cpu_hi_record :: "memory_record_enum option"
  cpu_memory_record :: "memory_record_enum option"
  cpu_exit_code :: u32

record alu_event =
  alu_pc :: u32
  alu_next_pc :: u32
  alu_opcode :: opcode
  alu_hi :: u32
  alu_a :: u32
  alu_b :: u32
  alu_c :: u32

definition alu_event_new :: "u32 \<Rightarrow> opcode \<Rightarrow> u32 \<Rightarrow> u32 \<Rightarrow> u32 \<Rightarrow> alu_event" where
  "alu_event_new pc op a b c =
     \<lparr>alu_pc = pc, alu_next_pc = pc + 4, alu_opcode = op, alu_hi = 0, alu_a = a, alu_b = b, alu_c = c\<rparr>"

record comp_alu_event =
  calu_shard :: u32
  calu_clk :: u32
  calu_pc :: u32
  calu_next_pc :: u32
  calu_opcode :: opcode
  calu_hi :: u32
  calu_a :: u32
  calu_b :: u32
  calu_c :: u32
  calu_hi_record :: memory_write_record
  calu_hi_record_is_real :: bool

definition comp_alu_event_new :: "u32 \<Rightarrow> opcode \<Rightarrow> u32 \<Rightarrow> u32 \<Rightarrow> u32 \<Rightarrow> comp_alu_event" where
  "comp_alu_event_new pc op a b c =
     \<lparr>calu_shard = 0, calu_clk = 0, calu_pc = pc, calu_next_pc = pc + 4, calu_opcode = op, calu_hi = 0,
      calu_a = a, calu_b = b, calu_c = c, calu_hi_record = default_write_record,
      calu_hi_record_is_real = False\<rparr>"

definition comp_alu_event_new_with_hi :: "u32 \<Rightarrow> opcode \<Rightarrow> u32 \<Rightarrow> u32 \<Rightarrow> u32 \<Rightarrow> u32 \<Rightarrow> comp_alu_event" where
  "comp_alu_event_new_with_hi pc op a b c hi =
     \<lparr>calu_shard = 0, calu_clk = 0, calu_pc = pc, calu_next_pc = pc + 4, calu_opcode = op, calu_hi = hi,
      calu_a = a, calu_b = b, calu_c = c, calu_hi_record = default_write_record,
      calu_hi_record_is_real = False\<rparr>"

record mem_instr_event =
  mem_shard :: u32
  mem_clk :: u32
  mem_pc :: u32
  mem_next_pc :: u32
  mem_opcode :: opcode
  mem_a :: u32
  mem_b :: u32
  mem_c :: u32
  mem_mem_access :: memory_record_enum
  mem_prev_a_val :: u32

record branch_event =
  br_pc :: u32
  br_next_pc :: u32
  br_next_next_pc :: u32
  br_opcode :: opcode
  br_a :: u32
  br_b :: u32
  br_c :: u32

record jump_event =
  jmp_pc :: u32
  jmp_next_pc :: u32
  jmp_next_next_pc :: u32
  jmp_opcode :: opcode
  jmp_a :: u32
  jmp_b :: u32
  jmp_c :: u32

record misc_event =
  misc_shard :: u32
  misc_clk :: u32
  misc_pc :: u32
  misc_next_pc :: u32
  misc_opcode :: opcode
  misc_a :: u32
  misc_b :: u32
  misc_c :: u32
  misc_prev_a :: u32
  misc_hi_record :: memory_write_record

record mov_cond_event =
  mov_pc :: u32
  mov_next_pc :: u32
  mov_opcode :: opcode
  mov_a :: u32
  mov_b :: u32
  mov_c :: u32
  mov_prev_a :: u32

record syscall_event_record =
  sys_pc :: u32
  sys_next_pc :: u32
  sys_shard :: u32
  sys_clk :: u32
  sys_a_record :: memory_write_record
  sys_a_record_is_real :: bool
  sys_syscall_id :: u32
  sys_arg1 :: u32
  sys_arg2 :: u32

end
