(* ===== verification/Syscall_Code.thy ===== *)
theory Syscall_Code
  imports Prelude
begin

text \<open>
  System call numbers (\<^verbatim>\<open>crates/core/executor/src/syscalls/code.rs\<close>): the enum with its 32-bit
  representation, decoding of the value of register V0, the fields packed in the number, and the
  map that coalesces counts.
\<close>

unbundle bit_operations_syntax

datatype (plugins only: code size) syscall_code =
    SC_SYSHINTLEN | SC_SYSHINTREAD | SC_SYSVERIFY | SC_HALT | SC_WRITE
    | SC_ENTER_UNCONSTRAINED | SC_EXIT_UNCONSTRAINED | SC_SHA_EXTEND | SC_SHA_COMPRESS
    | SC_ED_ADD | SC_ED_DECOMPRESS | SC_KECCAK_SPONGE | SC_SECP256K1_ADD
    | SC_SECP256K1_DOUBLE | SC_SECP256K1_DECOMPRESS | SC_BN254_ADD | SC_BN254_DOUBLE
    | SC_COMMIT | SC_COMMIT_DEFERRED_PROOFS | SC_VERIFY_ZKM_PROOF | SC_BLS12381_DECOMPRESS
    | SC_UINT256_MUL | SC_BLS12381_ADD | SC_BLS12381_DOUBLE | SC_BLS12381_FP_ADD
    | SC_BLS12381_FP_SUB | SC_BLS12381_FP_MUL | SC_BLS12381_FP2_ADD | SC_BLS12381_FP2_SUB
    | SC_BLS12381_FP2_MUL | SC_BN254_FP_ADD | SC_BN254_FP_SUB | SC_BN254_FP_MUL
    | SC_BN254_FP2_ADD | SC_BN254_FP2_SUB | SC_BN254_FP2_MUL | SC_SECP256R1_ADD
    | SC_SECP256R1_DOUBLE | SC_SECP256R1_DECOMPRESS | SC_U256XU2048_MUL | SC_SYS_MMAP
    | SC_SYS_MMAP2 | SC_SYS_BRK | SC_SYS_CLONE | SC_SYS_EXT_GROUP | SC_SYS_READ
    | SC_SYS_WRITE | SC_SYS_FCNTL | SC_SYS_OPEN | SC_SYS_CLOSE | SC_SYS_MUNMAP
    | SC_SYS_RT_SIGACTION | SC_SYS_RT_SIGPROCMASK | SC_SYS_SIGALTSTACK | SC_SYS_FSTAT64
    | SC_SYS_MADVISE | SC_SYS_GETTID | SC_SYS_SCHED_GETAFFINITY | SC_SYS_CLOCK_GETTIME
    | SC_SYS_NANOSLEEP | SC_SYS_OPENAT | SC_SYS_PRLIMIT64 | SC_POSEIDON2_PERMUTE
    | SC_SYS_LINUX | SC_UNIMPLEMENTED

primrec syscall_repr :: "syscall_code \<Rightarrow> u32" where
  "syscall_repr SC_SYSHINTLEN = 0xF0"
| "syscall_repr SC_SYSHINTREAD = 0xF1"
| "syscall_repr SC_SYSVERIFY = 0xF2"
| "syscall_repr SC_HALT = 0x0"
| "syscall_repr SC_WRITE = 0x2"
| "syscall_repr SC_ENTER_UNCONSTRAINED = 0x3"
| "syscall_repr SC_EXIT_UNCONSTRAINED = 0x4"
| "syscall_repr SC_SHA_EXTEND = 0x30010005"
| "syscall_repr SC_SHA_COMPRESS = 0x1010006"
| "syscall_repr SC_ED_ADD = 0x1010007"
| "syscall_repr SC_ED_DECOMPRESS = 0x10008"
| "syscall_repr SC_KECCAK_SPONGE = 0x1010009"
| "syscall_repr SC_SECP256K1_ADD = 0x101000A"
| "syscall_repr SC_SECP256K1_DOUBLE = 0x1000B"
| "syscall_repr SC_SECP256K1_DECOMPRESS = 0x1000C"
| "syscall_repr SC_BN254_ADD = 0x101000E"
| "syscall_repr SC_BN254_DOUBLE = 0x1000F"
| "syscall_repr SC_COMMIT = 0x10"
| "syscall_repr SC_COMMIT_DEFERRED_PROOFS = 0x1A"
| "syscall_repr SC_VERIFY_ZKM_PROOF = 0x1B"
| "syscall_repr SC_BLS12381_DECOMPRESS = 0x1001C"
| "syscall_repr SC_UINT256_MUL = 0x101001D"
| "syscall_repr SC_BLS12381_ADD = 0x101001E"
| "syscall_repr SC_BLS12381_DOUBLE = 0x1001F"
| "syscall_repr SC_BLS12381_FP_ADD = 0x1010020"
| "syscall_repr SC_BLS12381_FP_SUB = 0x1010021"
| "syscall_repr SC_BLS12381_FP_MUL = 0x1010022"
| "syscall_repr SC_BLS12381_FP2_ADD = 0x1010023"
| "syscall_repr SC_BLS12381_FP2_SUB = 0x1010024"
| "syscall_repr SC_BLS12381_FP2_MUL = 0x1010025"
| "syscall_repr SC_BN254_FP_ADD = 0x1010026"
| "syscall_repr SC_BN254_FP_SUB = 0x1010027"
| "syscall_repr SC_BN254_FP_MUL = 0x1010028"
| "syscall_repr SC_BN254_FP2_ADD = 0x1010029"
| "syscall_repr SC_BN254_FP2_SUB = 0x101002A"
| "syscall_repr SC_BN254_FP2_MUL = 0x101002B"
| "syscall_repr SC_SECP256R1_ADD = 0x101002C"
| "syscall_repr SC_SECP256R1_DOUBLE = 0x1002D"
| "syscall_repr SC_SECP256R1_DECOMPRESS = 0x1002E"
| "syscall_repr SC_U256XU2048_MUL = 0x101002F"
| "syscall_repr SC_SYS_MMAP = 4210"
| "syscall_repr SC_SYS_MMAP2 = 4090"
| "syscall_repr SC_SYS_BRK = 4045"
| "syscall_repr SC_SYS_CLONE = 4120"
| "syscall_repr SC_SYS_EXT_GROUP = 4246"
| "syscall_repr SC_SYS_READ = 4003"
| "syscall_repr SC_SYS_WRITE = 4004"
| "syscall_repr SC_SYS_FCNTL = 4055"
| "syscall_repr SC_SYS_OPEN = 4005"
| "syscall_repr SC_SYS_CLOSE = 4006"
| "syscall_repr SC_SYS_MUNMAP = 4091"
| "syscall_repr SC_SYS_RT_SIGACTION = 4194"
| "syscall_repr SC_SYS_RT_SIGPROCMASK = 4195"
| "syscall_repr SC_SYS_SIGALTSTACK = 4206"
| "syscall_repr SC_SYS_FSTAT64 = 4215"
| "syscall_repr SC_SYS_MADVISE = 4218"
| "syscall_repr SC_SYS_GETTID = 4222"
| "syscall_repr SC_SYS_SCHED_GETAFFINITY = 4240"
| "syscall_repr SC_SYS_CLOCK_GETTIME = 4263"
| "syscall_repr SC_SYS_NANOSLEEP = 4166"
| "syscall_repr SC_SYS_OPENAT = 4288"
| "syscall_repr SC_SYS_PRLIMIT64 = 4338"
| "syscall_repr SC_POSEIDON2_PERMUTE = 0x10030"
| "syscall_repr SC_SYS_LINUX = 4000"
| "syscall_repr SC_UNIMPLEMENTED = 0xFFFFFFFF"

definition from_u32_table :: "(u32 \<times> syscall_code) list" where
  "from_u32_table =
     [(0xF0, SC_SYSHINTLEN), (0xF1, SC_SYSHINTREAD), (0xF2, SC_SYSVERIFY), (0x0, SC_HALT)
     , (0x2, SC_WRITE), (0x3, SC_ENTER_UNCONSTRAINED), (0x4, SC_EXIT_UNCONSTRAINED)
     , (0x30010005, SC_SHA_EXTEND), (0x1010006, SC_SHA_COMPRESS), (0x1010007, SC_ED_ADD)
     , (0x10008, SC_ED_DECOMPRESS), (0x1010009, SC_KECCAK_SPONGE)
     , (0x101000A, SC_SECP256K1_ADD), (0x1000B, SC_SECP256K1_DOUBLE)
     , (0x1000C, SC_SECP256K1_DECOMPRESS), (0x101000E, SC_BN254_ADD)
     , (0x1000F, SC_BN254_DOUBLE), (0x10, SC_COMMIT), (0x1A, SC_COMMIT_DEFERRED_PROOFS)
     , (0x1B, SC_VERIFY_ZKM_PROOF), (0x10030, SC_POSEIDON2_PERMUTE)
     , (0x1001C, SC_BLS12381_DECOMPRESS), (0x101001D, SC_UINT256_MUL)
     , (0x101001E, SC_BLS12381_ADD), (0x1001F, SC_BLS12381_DOUBLE)
     , (0x1010020, SC_BLS12381_FP_ADD), (0x1010021, SC_BLS12381_FP_SUB)
     , (0x1010022, SC_BLS12381_FP_MUL), (0x1010023, SC_BLS12381_FP2_ADD)
     , (0x1010024, SC_BLS12381_FP2_SUB), (0x1010025, SC_BLS12381_FP2_MUL)
     , (0x1010026, SC_BN254_FP_ADD), (0x1010027, SC_BN254_FP_SUB)
     , (0x1010028, SC_BN254_FP_MUL), (0x1010029, SC_BN254_FP2_ADD)
     , (0x101002A, SC_BN254_FP2_SUB), (0x101002B, SC_BN254_FP2_MUL)
     , (0x101002C, SC_SECP256R1_ADD), (0x1002D, SC_SECP256R1_DOUBLE)
     , (0x1002E, SC_SECP256R1_DECOMPRESS), (0x101002F, SC_U256XU2048_MUL)
     , (4000, SC_SYS_LINUX), (4003, SC_SYS_READ), (4004, SC_SYS_WRITE), (4005, SC_SYS_OPEN)
     , (4006, SC_SYS_CLOSE), (4055, SC_SYS_FCNTL), (4045, SC_SYS_BRK), (4090, SC_SYS_MMAP2)
     , (4091, SC_SYS_MUNMAP), (4120, SC_SYS_CLONE), (4194, SC_SYS_RT_SIGACTION)
     , (4195, SC_SYS_RT_SIGPROCMASK), (4206, SC_SYS_SIGALTSTACK), (4210, SC_SYS_MMAP)
     , (4215, SC_SYS_FSTAT64), (4218, SC_SYS_MADVISE), (4222, SC_SYS_GETTID)
     , (4240, SC_SYS_SCHED_GETAFFINITY), (4246, SC_SYS_EXT_GROUP), (4166, SC_SYS_NANOSLEEP)
     , (4263, SC_SYS_CLOCK_GETTIME), (4288, SC_SYS_OPENAT), (4338, SC_SYS_PRLIMIT64)]"

definition from_u32 :: "u32 \<Rightarrow> syscall_code" where
  "from_u32 value = (case map_of from_u32_table value of Some c \<Rightarrow> c | None \<Rightarrow> SC_UNIMPLEMENTED)"

definition le_byte :: "nat \<Rightarrow> u32 \<Rightarrow> u32" where
  "le_byte i w = drop_bit (8 * i) w AND 0xFF"

definition syscall_id :: "syscall_code \<Rightarrow> u32" where
  "syscall_id c = syscall_repr c AND 0x0FFFF"

definition should_send :: "syscall_code \<Rightarrow> u32" where
  "should_send c = le_byte 2 (syscall_repr c)"

definition linux_sys :: "syscall_code \<Rightarrow> u32" where
  "linux_sys c = le_byte 1 (syscall_repr c)"

definition num_cycles :: "syscall_code \<Rightarrow> u32" where
  "num_cycles c = le_byte 3 (syscall_repr c)"

definition count_map :: "syscall_code \<Rightarrow> syscall_code" where
  "count_map c =
     (case c of
        SC_BN254_FP_SUB \<Rightarrow> SC_BN254_FP_ADD
      | SC_BN254_FP_MUL \<Rightarrow> SC_BN254_FP_ADD
      | SC_BN254_FP2_SUB \<Rightarrow> SC_BN254_FP2_ADD
      | SC_BLS12381_FP_SUB \<Rightarrow> SC_BLS12381_FP_ADD
      | SC_BLS12381_FP_MUL \<Rightarrow> SC_BLS12381_FP_ADD
      | SC_BLS12381_FP2_SUB \<Rightarrow> SC_BLS12381_FP2_ADD
      | SC_SYS_MMAP2 \<Rightarrow> SC_SYS_MMAP
      | _ \<Rightarrow> c)"

definition all_syscall_codes :: "syscall_code list" where
  "all_syscall_codes =
     [SC_SYSHINTLEN, SC_SYSHINTREAD, SC_SYSVERIFY, SC_HALT, SC_WRITE, SC_ENTER_UNCONSTRAINED
     , SC_EXIT_UNCONSTRAINED, SC_SHA_EXTEND, SC_SHA_COMPRESS, SC_ED_ADD, SC_ED_DECOMPRESS
     , SC_KECCAK_SPONGE, SC_SECP256K1_ADD, SC_SECP256K1_DOUBLE, SC_SECP256K1_DECOMPRESS
     , SC_BN254_ADD, SC_BN254_DOUBLE, SC_COMMIT, SC_COMMIT_DEFERRED_PROOFS
     , SC_VERIFY_ZKM_PROOF, SC_BLS12381_DECOMPRESS, SC_UINT256_MUL, SC_BLS12381_ADD
     , SC_BLS12381_DOUBLE, SC_BLS12381_FP_ADD, SC_BLS12381_FP_SUB, SC_BLS12381_FP_MUL
     , SC_BLS12381_FP2_ADD, SC_BLS12381_FP2_SUB, SC_BLS12381_FP2_MUL, SC_BN254_FP_ADD
     , SC_BN254_FP_SUB, SC_BN254_FP_MUL, SC_BN254_FP2_ADD, SC_BN254_FP2_SUB
     , SC_BN254_FP2_MUL, SC_SECP256R1_ADD, SC_SECP256R1_DOUBLE, SC_SECP256R1_DECOMPRESS
     , SC_U256XU2048_MUL, SC_SYS_MMAP, SC_SYS_MMAP2, SC_SYS_BRK, SC_SYS_CLONE
     , SC_SYS_EXT_GROUP, SC_SYS_READ, SC_SYS_WRITE, SC_SYS_FCNTL, SC_SYS_OPEN, SC_SYS_CLOSE
     , SC_SYS_MUNMAP, SC_SYS_RT_SIGACTION, SC_SYS_RT_SIGPROCMASK, SC_SYS_SIGALTSTACK
     , SC_SYS_FSTAT64, SC_SYS_MADVISE, SC_SYS_GETTID, SC_SYS_SCHED_GETAFFINITY
     , SC_SYS_CLOCK_GETTIME, SC_SYS_NANOSLEEP, SC_SYS_OPENAT, SC_SYS_PRLIMIT64
     , SC_POSEIDON2_PERMUTE, SC_SYS_LINUX, SC_UNIMPLEMENTED]"

lemma set_all_syscall_codes: "set all_syscall_codes = UNIV"
proof -
  have "c \<in> set all_syscall_codes" for c
    unfolding all_syscall_codes_def by (cases c) simp_all
  then show ?thesis by blast
qed

text \<open>The numbering as a table, for evaluation.\<close>

lemma syscall_numbers_distinct: "distinct (map syscall_repr all_syscall_codes)"
  by (simp add: all_syscall_codes_def)

lemma syscall_repr_inject: "syscall_repr a = syscall_repr b \<longleftrightarrow> a = b"
  using syscall_numbers_distinct set_all_syscall_codes
  by (metis UNIV_I distinct_map inj_onD)

lemma from_u32_table_sound: "list_all (\<lambda>(v, c). v = syscall_repr c) from_u32_table"
  by (simp add: from_u32_table_def)

lemma from_u32_table_complete: "c \<noteq> SC_UNIMPLEMENTED \<Longrightarrow> (syscall_repr c, c) \<in> set from_u32_table"
proof -
  assume "c \<noteq> SC_UNIMPLEMENTED"
  then have "c \<in> set (map snd from_u32_table)"
    unfolding from_u32_table_def by (cases c) simp_all
  with from_u32_table_sound show ?thesis
    by (auto simp: list_all_iff)
qed

lemma from_u32_SomeD: "map_of from_u32_table v = Some c \<Longrightarrow> v = syscall_repr c"
  using from_u32_table_sound by (auto simp: list_all_iff dest: map_of_SomeD)


end
