(* ===== verification/Precompile_Events.thy ===== *)
theory Precompile_Events
  imports Events Syscall_Code
begin

text \<open>
  Events of the precompiles and of the Linux system calls
  (\<^verbatim>\<open>crates/core/executor/src/events/precompiles/\<close>), and the container \<open>PrecompileEvents\<close> that groups
  them by system call. Fixed-size arrays are lists.
\<close>

record sha_extend_event =
  shae_shard :: u32
  shae_clk :: u32
  shae_w_ptr :: u32
  shae_w_i_minus_15_reads :: "memory_read_record list"
  shae_w_i_minus_2_reads :: "memory_read_record list"
  shae_w_i_minus_16_reads :: "memory_read_record list"
  shae_w_i_minus_7_reads :: "memory_read_record list"
  shae_w_i_writes :: "memory_write_record list"
  shae_local_mem_access :: "memory_local_event list"

record sha_compress_event =
  shac_shard :: u32
  shac_clk :: u32
  shac_w_ptr :: u32
  shac_h_ptr :: u32
  shac_w :: "u32 list"
  shac_h :: "u32 list"
  shac_h_read_records :: "memory_read_record list"
  shac_w_i_read_records :: "memory_read_record list"
  shac_h_write_records :: "memory_write_record list"
  shac_local_mem_access :: "memory_local_event list"

record keccak_sponge_event =
  kecc_shard :: u32
  kecc_clk :: u32
  kecc_input :: "u32 list"
  kecc_output :: "u32 list"
  kecc_input_len_u32s :: u32
  kecc_input_read_records :: "memory_read_record list"
  kecc_input_length_record :: memory_read_record
  kecc_output_write_records :: "memory_write_record list"
  kecc_xored_state_list :: "(u64 list) list"
  kecc_input_addr :: u32
  kecc_output_addr :: u32
  kecc_local_mem_access :: "memory_local_event list"

record ec_add_event =
  eca_shard :: u32
  eca_clk :: u32
  eca_p_ptr :: u32
  eca_p :: "u32 list"
  eca_q_ptr :: u32
  eca_q :: "u32 list"
  eca_p_memory_records :: "memory_write_record list"
  eca_q_memory_records :: "memory_read_record list"
  eca_local_mem_access :: "memory_local_event list"

record ec_double_event =
  ecd_shard :: u32
  ecd_clk :: u32
  ecd_p_ptr :: u32
  ecd_p :: "u32 list"
  ecd_p_memory_records :: "memory_write_record list"
  ecd_local_mem_access :: "memory_local_event list"

record ec_decompress_event =
  ecz_shard :: u32
  ecz_clk :: u32
  ecz_ptr :: u32
  ecz_sign_bit :: bool
  ecz_x_bytes :: "u8 list"
  ecz_decompressed_y_bytes :: "u8 list"
  ecz_x_memory_records :: "memory_read_record list"
  ecz_y_memory_records :: "memory_write_record list"
  ecz_local_mem_access :: "memory_local_event list"

record ed_decompress_event =
  edd_shard :: u32
  edd_clk :: u32
  edd_ptr :: u32
  edd_sign :: bool
  edd_y_bytes :: "u8 list"
  edd_decompressed_x_bytes :: "u8 list"
  edd_x_memory_records :: "memory_write_record list"
  edd_y_memory_records :: "memory_read_record list"
  edd_local_mem_access :: "memory_local_event list"

datatype field_operation = FieldAdd | FieldMul | FieldSub | FieldDiv

record fp_op_event =
  fp_shard :: u32
  fp_clk :: u32
  fp_x_ptr :: u32
  fp_x :: "u32 list"
  fp_y_ptr :: u32
  fp_y :: "u32 list"
  fp_op :: field_operation
  fp_x_memory_records :: "memory_write_record list"
  fp_y_memory_records :: "memory_read_record list"
  fp_local_mem_access :: "memory_local_event list"

record fp2_addsub_event =
  fpas_shard :: u32
  fpas_clk :: u32
  fpas_op :: field_operation
  fpas_x_ptr :: u32
  fpas_x :: "u32 list"
  fpas_y_ptr :: u32
  fpas_y :: "u32 list"
  fpas_x_memory_records :: "memory_write_record list"
  fpas_y_memory_records :: "memory_read_record list"
  fpas_local_mem_access :: "memory_local_event list"

record fp2_mul_event =
  fpm_shard :: u32
  fpm_clk :: u32
  fpm_x_ptr :: u32
  fpm_x :: "u32 list"
  fpm_y_ptr :: u32
  fpm_y :: "u32 list"
  fpm_x_memory_records :: "memory_write_record list"
  fpm_y_memory_records :: "memory_read_record list"
  fpm_local_mem_access :: "memory_local_event list"

record uint256_mul_event =
  u256_shard :: u32
  u256_clk :: u32
  u256_x_ptr :: u32
  u256_x :: "u32 list"
  u256_y_ptr :: u32
  u256_y :: "u32 list"
  u256_modulus :: "u32 list"
  u256_x_memory_records :: "memory_write_record list"
  u256_y_memory_records :: "memory_read_record list"
  u256_modulus_memory_records :: "memory_read_record list"
  u256_local_mem_access :: "memory_local_event list"

record u256xu2048_mul_event =
  u2048_shard :: u32
  u2048_clk :: u32
  u2048_a_ptr :: u32
  u2048_a :: "u32 list"
  u2048_b_ptr :: u32
  u2048_b :: "u32 list"
  u2048_lo_ptr :: u32
  u2048_lo_ptr_memory :: memory_read_record
  u2048_lo :: "u32 list"
  u2048_hi_ptr :: u32
  u2048_hi_ptr_memory :: memory_read_record
  u2048_hi :: "u32 list"
  u2048_a_memory_records :: "memory_read_record list"
  u2048_b_memory_records :: "memory_read_record list"
  u2048_lo_memory_records :: "memory_write_record list"
  u2048_hi_memory_records :: "memory_write_record list"
  u2048_local_mem_access :: "memory_local_event list"

record poseidon2_permute_event =
  pos_shard :: u32
  pos_clk :: u32
  pos_pre_state :: "u32 list"
  pos_post_state :: "u32 list"
  pos_state_records :: "memory_write_record list"
  pos_state_addr :: u32
  pos_local_mem_access :: "memory_local_event list"

record linux_event =
  lin_shard :: u32
  lin_clk :: u32
  lin_a0 :: u32
  lin_a1 :: u32
  lin_v0 :: u32
  lin_syscall_code :: u32
  lin_read_records :: "memory_read_record list"
  lin_write_records :: "memory_write_record list"
  lin_local_mem_access :: "memory_local_event list"

datatype (plugins only: code size) precompile_event =
    PE_ShaExtend sha_extend_event
  | PE_ShaCompress sha_compress_event
  | PE_KeccakSponge keccak_sponge_event
  | PE_EdAdd ec_add_event
  | PE_EdDecompress ed_decompress_event
  | PE_Secp256k1Add ec_add_event
  | PE_Secp256k1Double ec_double_event
  | PE_Secp256k1Decompress ec_decompress_event
  | PE_Secp256r1Add ec_add_event
  | PE_Secp256r1Double ec_double_event
  | PE_Secp256r1Decompress ec_decompress_event
  | PE_K256Decompress ec_decompress_event
  | PE_Bn254Add ec_add_event
  | PE_Bn254Double ec_double_event
  | PE_Bn254Fp fp_op_event
  | PE_Bn254Fp2AddSub fp2_addsub_event
  | PE_Bn254Fp2Mul fp2_mul_event
  | PE_Bls12381Add ec_add_event
  | PE_Bls12381Double ec_double_event
  | PE_Bls12381Decompress ec_decompress_event
  | PE_Bls12381Fp fp_op_event
  | PE_Bls12381Fp2AddSub fp2_addsub_event
  | PE_Bls12381Fp2Mul fp2_mul_event
  | PE_Uint256Mul uint256_mul_event
  | PE_U256xU2048Mul u256xu2048_mul_event
  | PE_Poseidon2Permute poseidon2_permute_event
  | PE_Linux linux_event

primrec event_local_mem :: "precompile_event \<Rightarrow> memory_local_event list" where
  "event_local_mem (PE_ShaExtend e) = shae_local_mem_access e"
| "event_local_mem (PE_ShaCompress e) = shac_local_mem_access e"
| "event_local_mem (PE_KeccakSponge e) = kecc_local_mem_access e"
| "event_local_mem (PE_EdAdd e) = eca_local_mem_access e"
| "event_local_mem (PE_EdDecompress e) = edd_local_mem_access e"
| "event_local_mem (PE_Secp256k1Add e) = eca_local_mem_access e"
| "event_local_mem (PE_Secp256k1Double e) = ecd_local_mem_access e"
| "event_local_mem (PE_Secp256k1Decompress e) = ecz_local_mem_access e"
| "event_local_mem (PE_Secp256r1Add e) = eca_local_mem_access e"
| "event_local_mem (PE_Secp256r1Double e) = ecd_local_mem_access e"
| "event_local_mem (PE_Secp256r1Decompress e) = ecz_local_mem_access e"
| "event_local_mem (PE_K256Decompress e) = ecz_local_mem_access e"
| "event_local_mem (PE_Bn254Add e) = eca_local_mem_access e"
| "event_local_mem (PE_Bn254Double e) = ecd_local_mem_access e"
| "event_local_mem (PE_Bn254Fp e) = fp_local_mem_access e"
| "event_local_mem (PE_Bn254Fp2AddSub e) = fpas_local_mem_access e"
| "event_local_mem (PE_Bn254Fp2Mul e) = fpm_local_mem_access e"
| "event_local_mem (PE_Bls12381Add e) = eca_local_mem_access e"
| "event_local_mem (PE_Bls12381Double e) = ecd_local_mem_access e"
| "event_local_mem (PE_Bls12381Decompress e) = ecz_local_mem_access e"
| "event_local_mem (PE_Bls12381Fp e) = fp_local_mem_access e"
| "event_local_mem (PE_Bls12381Fp2AddSub e) = fpas_local_mem_access e"
| "event_local_mem (PE_Bls12381Fp2Mul e) = fpm_local_mem_access e"
| "event_local_mem (PE_Uint256Mul e) = u256_local_mem_access e"
| "event_local_mem (PE_U256xU2048Mul e) = u2048_local_mem_access e"
| "event_local_mem (PE_Poseidon2Permute e) = pos_local_mem_access e"
| "event_local_mem (PE_Linux e) = lin_local_mem_access e"

type_synonym precompile_events = "syscall_code \<rightharpoonup> (syscall_event_record \<times> precompile_event) list"

definition precompile_code :: "syscall_code \<Rightarrow> bool" where
  "precompile_code c \<longleftrightarrow> should_send c = 1 \<or> linux_sys c \<noteq> 0"

definition default_precompile_events :: precompile_events where
  "default_precompile_events = (\<lambda>c. if precompile_code c then Some [] else None)"

text \<open>\<open>assert!\<close> of \<open>add_event\<close> and \<open>insert\<close>: a code without a table is a panic.\<close>

definition add_event ::
  "precompile_events \<Rightarrow> syscall_code \<Rightarrow> syscall_event_record \<Rightarrow> precompile_event \<Rightarrow> ('e, precompile_events) outcome" where
  "add_event es c se e =
     (if precompile_code c
      then Inr (es(c \<mapsto> (case es c of None \<Rightarrow> [] | Some xs \<Rightarrow> xs) @ [(se, e)]))
      else Inl (Panic ExplicitPanic))"

definition append_events :: "precompile_events \<Rightarrow> precompile_events \<Rightarrow> precompile_events" where
  "append_events es other =
     (\<lambda>c. case other c of
            None \<Rightarrow> es c
          | Some ys \<Rightarrow> if ys = [] then es c
                       else Some ((case es c of None \<Rightarrow> [] | Some xs \<Rightarrow> xs) @ ys))"

definition events_local_mem :: "(syscall_event_record \<times> precompile_event) list \<Rightarrow> memory_local_event list" where
  "events_local_mem es = concat (map (event_local_mem \<circ> snd) es)"

end
