(* ===== verification/Air_Cost.thy ===== *)
theory Air_Cost
  imports Opcodes
begin

text \<open>
  The chips of the prover as the executor knows them (\<^verbatim>\<open>crates/core/executor/src/air.rs\<close>) and the
  estimates it uses to decide when a shard is full (\<^verbatim>\<open>cost.rs\<close>). Counts are 64-bit and wrap; an
  \<open>EnumMap\<close> is a function.
\<close>

unbundle bit_operations_syntax

datatype (plugins only: code size) mips_air_id =
    Air_Cpu | Air_Program | Air_ShaExtend | Air_ShaCompress | Air_EdAddAssign
    | Air_EdDecompress | Air_Secp256k1Decompress | Air_Secp256k1AddAssign
    | Air_Secp256k1DoubleAssign | Air_Secp256r1Decompress | Air_Secp256r1AddAssign
    | Air_Secp256r1DoubleAssign | Air_Poseidon2Permute | Air_KeccakSponge
    | Air_Bn254AddAssign | Air_Bn254DoubleAssign | Air_Bls12381AddAssign
    | Air_Bls12381DoubleAssign | Air_Uint256MulMod | Air_U256XU2048Mul
    | Air_Bls12381FpOpAssign | Air_Bls12831Fp2AddSubAssign | Air_Bls12831Fp2MulAssign
    | Air_Bn254FpOpAssign | Air_Bn254Fp2AddSubAssign | Air_Bn254Fp2MulAssign
    | Air_Bls12381Decompress | Air_SyscallCore | Air_SyscallPrecompile | Air_DivRem
    | Air_AddSub | Air_Bitwise | Air_Mul | Air_ShiftRight | Air_ShiftLeft | Air_Lt
    | Air_CloClz | Air_Branch | Air_Jump | Air_SyscallInstrs | Air_MemoryInstrs
    | Air_MiscInstrs | Air_MemoryGlobalInit | Air_MemoryGlobalFinalize | Air_MemoryLocal
    | Air_Global | Air_Byte | Air_SysLinux | Air_MovCond

primrec air_as_str :: "mips_air_id \<Rightarrow> string" where
  "air_as_str Air_Cpu = ''Cpu''"
| "air_as_str Air_Program = ''Program''"
| "air_as_str Air_ShaExtend = ''ShaExtend''"
| "air_as_str Air_ShaCompress = ''ShaCompress''"
| "air_as_str Air_EdAddAssign = ''EdAddAssign''"
| "air_as_str Air_EdDecompress = ''EdDecompress''"
| "air_as_str Air_Secp256k1Decompress = ''Secp256k1Decompress''"
| "air_as_str Air_Secp256k1AddAssign = ''Secp256k1AddAssign''"
| "air_as_str Air_Secp256k1DoubleAssign = ''Secp256k1DoubleAssign''"
| "air_as_str Air_Secp256r1Decompress = ''Secp256r1Decompress''"
| "air_as_str Air_Secp256r1AddAssign = ''Secp256r1AddAssign''"
| "air_as_str Air_Secp256r1DoubleAssign = ''Secp256r1DoubleAssign''"
| "air_as_str Air_Poseidon2Permute = ''Poseidon2Permute''"
| "air_as_str Air_KeccakSponge = ''KeccakSponge''"
| "air_as_str Air_Bn254AddAssign = ''Bn254AddAssign''"
| "air_as_str Air_Bn254DoubleAssign = ''Bn254DoubleAssign''"
| "air_as_str Air_Bls12381AddAssign = ''Bls12381AddAssign''"
| "air_as_str Air_Bls12381DoubleAssign = ''Bls12381DoubleAssign''"
| "air_as_str Air_Uint256MulMod = ''Uint256MulMod''"
| "air_as_str Air_U256XU2048Mul = ''U256XU2048Mul''"
| "air_as_str Air_Bls12381FpOpAssign = ''Bls12381FpOpAssign''"
| "air_as_str Air_Bls12831Fp2AddSubAssign = ''Bls12831Fp2AddSubAssign''"
| "air_as_str Air_Bls12831Fp2MulAssign = ''Bls12831Fp2MulAssign''"
| "air_as_str Air_Bn254FpOpAssign = ''Bn254FpOpAssign''"
| "air_as_str Air_Bn254Fp2AddSubAssign = ''Bn254Fp2AddSubAssign''"
| "air_as_str Air_Bn254Fp2MulAssign = ''Bn254Fp2MulAssign''"
| "air_as_str Air_Bls12381Decompress = ''Bls12381Decompress''"
| "air_as_str Air_SyscallCore = ''SyscallCore''"
| "air_as_str Air_SyscallPrecompile = ''SyscallPrecompile''"
| "air_as_str Air_DivRem = ''DivRem''"
| "air_as_str Air_AddSub = ''AddSub''"
| "air_as_str Air_Bitwise = ''Bitwise''"
| "air_as_str Air_Mul = ''Mul''"
| "air_as_str Air_ShiftRight = ''ShiftRight''"
| "air_as_str Air_ShiftLeft = ''ShiftLeft''"
| "air_as_str Air_Lt = ''Lt''"
| "air_as_str Air_CloClz = ''CloClz''"
| "air_as_str Air_Branch = ''Branch''"
| "air_as_str Air_Jump = ''Jump''"
| "air_as_str Air_SyscallInstrs = ''SyscallInstrs''"
| "air_as_str Air_MemoryInstrs = ''MemoryInstrs''"
| "air_as_str Air_MiscInstrs = ''MiscInstrs''"
| "air_as_str Air_MemoryGlobalInit = ''MemoryGlobalInit''"
| "air_as_str Air_MemoryGlobalFinalize = ''MemoryGlobalFinalize''"
| "air_as_str Air_MemoryLocal = ''MemoryLocal''"
| "air_as_str Air_Global = ''Global''"
| "air_as_str Air_Byte = ''Byte''"
| "air_as_str Air_SysLinux = ''SysLinux''"
| "air_as_str Air_MovCond = ''MovCond''"

definition all_airs :: "mips_air_id list" where
  "all_airs =
     [Air_Cpu, Air_Program, Air_ShaExtend, Air_ShaCompress, Air_EdAddAssign
     , Air_EdDecompress, Air_Secp256k1Decompress, Air_Secp256k1AddAssign
     , Air_Secp256k1DoubleAssign, Air_Secp256r1Decompress, Air_Secp256r1AddAssign
     , Air_Secp256r1DoubleAssign, Air_Poseidon2Permute, Air_KeccakSponge, Air_Bn254AddAssign
     , Air_Bn254DoubleAssign, Air_Bls12381AddAssign, Air_Bls12381DoubleAssign
     , Air_Uint256MulMod, Air_U256XU2048Mul, Air_Bls12381FpOpAssign
     , Air_Bls12831Fp2AddSubAssign, Air_Bls12831Fp2MulAssign, Air_Bn254FpOpAssign
     , Air_Bn254Fp2AddSubAssign, Air_Bn254Fp2MulAssign, Air_Bls12381Decompress
     , Air_SyscallCore, Air_SyscallPrecompile, Air_DivRem, Air_AddSub, Air_Bitwise, Air_Mul
     , Air_ShiftRight, Air_ShiftLeft, Air_Lt, Air_CloClz, Air_Branch, Air_Jump
     , Air_SyscallInstrs, Air_MemoryInstrs, Air_MiscInstrs, Air_MemoryGlobalInit
     , Air_MemoryGlobalFinalize, Air_MemoryLocal, Air_Global, Air_Byte, Air_SysLinux
     , Air_MovCond]"

definition air_from_str :: "string \<Rightarrow> mips_air_id option" where
  "air_from_str s = find (\<lambda>a. air_as_str a = s) all_airs"

definition core_airs :: "mips_air_id list" where
  "core_airs =
     [Air_Cpu, Air_AddSub, Air_Mul, Air_Bitwise, Air_ShiftLeft, Air_ShiftRight, Air_DivRem
     , Air_MemoryLocal, Air_Branch, Air_Jump, Air_MemoryInstrs, Air_SyscallInstrs
     , Air_MovCond, Air_MiscInstrs, Air_SyscallCore, Air_Global]"

section \<open>Estimates\<close>

type_synonym opcode_counts = "opcode \<Rightarrow> u64"
type_synonym air_counts = "mips_air_id \<Rightarrow> u64"

definition BYTE_NUM_ROWS :: u64 where "BYTE_NUM_ROWS = push_bit 16 1"
definition COST_MAX_PROGRAM_SIZE :: u64 where "COST_MAX_PROGRAM_SIZE = push_bit 22 1"
definition NUM_LOCAL_MEMORY_ENTRIES_PER_ROW_EXEC :: u64 where "NUM_LOCAL_MEMORY_ENTRIES_PER_ROW_EXEC = 4"

definition next_power_of_two :: "u64 \<Rightarrow> u64" where
  "next_power_of_two x = (if x \<le> 1 then 1 else push_bit (64 - leading_zeros (x - 1)) 1)"

definition div_ceil :: "u64 \<Rightarrow> u64 \<Rightarrow> u64" where
  "div_ceil a b = (if a mod b > 0 then a div b + 1 else a div b)"

definition lde_airs :: "mips_air_id list" where
  "lde_airs =
     [Air_Cpu, Air_AddSub, Air_Mul, Air_Bitwise, Air_ShiftLeft, Air_ShiftRight, Air_DivRem
     , Air_Lt, Air_MemoryLocal, Air_Branch, Air_Jump, Air_SyscallInstrs, Air_MemoryInstrs
     , Air_MiscInstrs, Air_CloClz, Air_SyscallCore, Air_Global]"

text \<open>Indexing the cost table with a chip it does not list panics.\<close>

fun lde_cells :: "air_counts \<Rightarrow> (mips_air_id \<rightharpoonup> u64) \<Rightarrow> mips_air_id list \<Rightarrow> u64 \<Rightarrow> u64 option" where
  "lde_cells n cost [] cells = Some cells"
| "lde_cells n cost (air # airs) cells =
     (case cost air of
        None \<Rightarrow> None
      | Some k \<Rightarrow> lde_cells n cost airs (cells + next_power_of_two (n air) * k))"

definition estimate_mips_lde_size :: "air_counts \<Rightarrow> (mips_air_id \<rightharpoonup> u64) \<Rightarrow> u64 option" where
  "estimate_mips_lde_size n cost =
     (case (cost Air_Byte, cost Air_Program) of
        (Some byte, Some program) \<Rightarrow>
          (case lde_cells n cost lde_airs (BYTE_NUM_ROWS * byte + COST_MAX_PROGRAM_SIZE * program) of
             None \<Rightarrow> None
           | Some cells \<Rightarrow> Some (cells * 8))
      | _ \<Rightarrow> None)"

definition estimate_mips_event_counts :: "u64 \<Rightarrow> u64 \<Rightarrow> u64 \<Rightarrow> opcode_counts \<Rightarrow> air_counts" where
  "estimate_mips_event_counts cpu touched sent oc =
     (let ec = (\<lambda>_. 0)(
        Air_Cpu := cpu,
        Air_AddSub := oc Op_ADD + oc Op_SUB,
        Air_Mul := oc Op_MUL + oc Op_MULT + oc Op_MULTU,
        Air_Bitwise := oc Op_XOR + oc Op_OR + oc Op_AND + oc Op_NOR,
        Air_ShiftLeft := oc Op_SLL,
        Air_ShiftRight := oc Op_SRL + oc Op_SRA + oc Op_ROR,
        Air_DivRem := oc Op_DIV + oc Op_DIVU,
        Air_Lt := oc Op_SLT + oc Op_SLTU,
        Air_MemoryLocal := div_ceil touched NUM_LOCAL_MEMORY_ENTRIES_PER_ROW_EXEC,
        Air_Branch := oc Op_BEQ + oc Op_BNE + oc Op_BGTZ + oc Op_BGEZ + oc Op_BLTZ
        + oc Op_BLEZ,
        Air_Jump := oc Op_Jump + oc Op_Jumpi + oc Op_JumpDirect,
        Air_MemoryInstrs := oc Op_LB + oc Op_LH + oc Op_LW + oc Op_LBU + oc Op_LHU
        + oc Op_SB + oc Op_SH + oc Op_SW + oc Op_LWL + oc Op_LWR + oc Op_LL + oc Op_SWL
        + oc Op_SWR + oc Op_SC,
        Air_MiscInstrs := oc Op_INS + oc Op_EXT + oc Op_SEXT + oc Op_MADDU + oc Op_MSUBU
        + oc Op_MADD + oc Op_MSUB + oc Op_TEQ,
        Air_MovCond := oc Op_WSBH + oc Op_MNE + oc Op_MEQ,
        Air_CloClz := oc Op_CLO + oc Op_CLZ,
        Air_SyscallCore := sent,
        Air_Global := 2 * touched + sent);
          ec = ec(Air_Mul := ec Air_Mul + ec Air_DivRem)
      in ec(Air_Lt := ec Air_Lt + ec Air_DivRem))"

definition pad_mips_event_counts :: "air_counts \<Rightarrow> u64 \<Rightarrow> air_counts" where
  "pad_mips_event_counts ec n =
     (\<lambda>k. ec k + (case k of
        Air_Cpu \<Rightarrow> n
      | Air_AddSub \<Rightarrow> 5 * n
      | Air_Mul \<Rightarrow> 4 * n
      | Air_Bitwise \<Rightarrow> 3 * n
      | Air_ShiftLeft \<Rightarrow> n
      | Air_ShiftRight \<Rightarrow> n
      | Air_DivRem \<Rightarrow> 4 * n
      | Air_Lt \<Rightarrow> 2 * n
      | Air_MemoryLocal \<Rightarrow> 64 * n
      | Air_Branch \<Rightarrow> 8 * n
      | Air_Jump \<Rightarrow> 2 * n
      | Air_SyscallInstrs \<Rightarrow> n
      | Air_MemoryInstrs \<Rightarrow> 8 * n
      | Air_MiscInstrs \<Rightarrow> 8 * n
      | Air_CloClz \<Rightarrow> 3 * n
      | Air_SyscallCore \<Rightarrow> 2 * n
      | Air_Global \<Rightarrow> 64 * n
      | _ \<Rightarrow> 0))"

section \<open>Properties\<close>

lemma set_all_airs: "set all_airs = UNIV"
proof -
  have "a \<in> set all_airs" for a
    unfolding all_airs_def by (cases a) simp_all
  then show ?thesis by blast
qed

lemma air_as_str_distinct: "distinct (map air_as_str all_airs)"
  by (simp add: all_airs_def)

text \<open>C31: every chip name parses back to its chip, and a string that parses is the name of the chip it
  parses to.\<close>

theorem air_from_str_iff: "air_from_str s = Some a \<longleftrightarrow> s = air_as_str a"
proof -
  have inj: "air_as_str x = air_as_str y \<Longrightarrow> x = y" for x y
    using air_as_str_distinct set_all_airs by (metis UNIV_I distinct_map inj_onD)
  have sound: "air_from_str s = Some b \<Longrightarrow> s = air_as_str b" for b
    by (auto simp: air_from_str_def find_Some_iff)
  have "air_from_str (air_as_str a) \<noteq> None"
    using set_all_airs by (auto simp: air_from_str_def find_None_iff)
  then obtain b where "air_from_str (air_as_str a) = Some b" by blast
  moreover from this have "a = b" by (auto simp: air_from_str_def find_Some_iff intro: inj)
  ultimately show ?thesis using sound by blast
qed

end
