(* ===== verification/Execution_Record.thy ===== *)
theory Execution_Record
  imports Precompile_Events Air_Cost
begin

text \<open>
  Programs (\<^verbatim>\<open>program.rs\<close>), public values (\<^verbatim>\<open>crates/stark/src/air/public_values.rs\<close>) and the record
  of one shard of execution (\<^verbatim>\<open>record.rs\<close>) with the operations that move events between records.

  The memory image of a program is a \<open>BTreeMap\<close>: a list of pairs in ascending order of the address.
  The proof shape of a record is set by the prover and not read by the executor; it is not part of the
  model, nor are the byte lookups and global lookups, which the prover fills in.
\<close>

unbundle bit_operations_syntax

section \<open>Programs\<close>

definition MAX_CODE_MEMORY :: nat where "MAX_CODE_MEMORY = 0x3F000000"

record program =
  prog_instructions :: "instruction list"
  prog_pc_start :: u32
  prog_pc_base :: u32
  prog_next_pc :: u32
  prog_image :: "(u32 \<times> u32) list"

definition default_program :: program where
  "default_program = \<lparr>prog_instructions = [], prog_pc_start = 0, prog_pc_base = 0, prog_next_pc = 0, prog_image = []\<rparr>"

definition program_new :: "instruction list \<Rightarrow> u32 \<Rightarrow> u32 \<Rightarrow> program" where
  "program_new is start base =
     \<lparr>prog_instructions = is, prog_pc_start = start, prog_pc_base = base, prog_next_pc = start + 4, prog_image = []\<rparr>"

definition program_fetch :: "program \<Rightarrow> u32 \<Rightarrow> ('e, instruction) outcome" where
  "program_fetch p pc =
     (let idx = unat ((pc - prog_pc_base p) div 4) in
      if idx < length (prog_instructions p) then Inr (prog_instructions p ! idx)
      else Inl (Panic IndexOutOfBounds))"

section \<open>Public values\<close>

record public_values =
  pv_committed_value_digest :: "u32 list"
  pv_deferred_proofs_digest :: "u32 list"
  pv_start_pc :: u32
  pv_next_pc :: u32
  pv_exit_code :: u32
  pv_shard :: u32
  pv_execution_shard :: u32
  pv_previous_init_addr_bits :: "u32 list"
  pv_last_init_addr_bits :: "u32 list"
  pv_previous_finalize_addr_bits :: "u32 list"
  pv_last_finalize_addr_bits :: "u32 list"

definition PV_DIGEST_NUM_WORDS :: nat where "PV_DIGEST_NUM_WORDS = 8"
definition POSEIDON_NUM_WORDS :: nat where "POSEIDON_NUM_WORDS = 8"

definition default_public_values :: public_values where
  "default_public_values =
     \<lparr>pv_committed_value_digest = replicate PV_DIGEST_NUM_WORDS 0,
      pv_deferred_proofs_digest = replicate POSEIDON_NUM_WORDS 0,
      pv_start_pc = 0, pv_next_pc = 0, pv_exit_code = 0, pv_shard = 0, pv_execution_shard = 0,
      pv_previous_init_addr_bits = replicate 32 0, pv_last_init_addr_bits = replicate 32 0,
      pv_previous_finalize_addr_bits = replicate 32 0, pv_last_finalize_addr_bits = replicate 32 0\<rparr>"

definition pv_reset :: "public_values \<Rightarrow> public_values" where
  "pv_reset pv = pv\<lparr>pv_shard := 0, pv_execution_shard := 0, pv_start_pc := 0, pv_next_pc := 0,
     pv_previous_init_addr_bits := replicate 32 0, pv_last_init_addr_bits := replicate 32 0,
     pv_previous_finalize_addr_bits := replicate 32 0, pv_last_finalize_addr_bits := replicate 32 0\<rparr>"

section \<open>Execution records\<close>

record execution_record =
  er_program :: program
  er_cpu_events :: "cpu_event list"
  er_add_sub_events :: "alu_event list"
  er_mul_events :: "comp_alu_event list"
  er_bitwise_events :: "alu_event list"
  er_shift_left_events :: "alu_event list"
  er_shift_right_events :: "alu_event list"
  er_divrem_events :: "comp_alu_event list"
  er_lt_events :: "alu_event list"
  er_cloclz_events :: "alu_event list"
  er_memory_instr_events :: "mem_instr_event list"
  er_branch_events :: "branch_event list"
  er_jump_events :: "jump_event list"
  er_movcond_events :: "mov_cond_event list"
  er_misc_events :: "misc_event list"
  er_precompile_events :: precompile_events
  er_global_memory_initialize_events :: "memory_init_finalize_event list"
  er_global_memory_finalize_events :: "memory_init_finalize_event list"
  er_cpu_local_memory_access :: "memory_local_event list"
  er_syscall_events :: "syscall_event_record list"
  er_public_values :: public_values
  er_counts :: "air_counts option"

definition record_new :: "program \<Rightarrow> execution_record" where
  "record_new p =
     \<lparr>er_program = p, er_cpu_events = [], er_add_sub_events = [], er_mul_events = [],
      er_bitwise_events = [], er_shift_left_events = [], er_shift_right_events = [],
      er_divrem_events = [], er_lt_events = [], er_cloclz_events = [], er_memory_instr_events = [],
      er_branch_events = [], er_jump_events = [], er_movcond_events = [], er_misc_events = [],
      er_precompile_events = default_precompile_events,
      er_global_memory_initialize_events = [], er_global_memory_finalize_events = [],
      er_cpu_local_memory_access = [], er_syscall_events = [],
      er_public_values = default_public_values, er_counts = None\<rparr>"

definition default_record :: execution_record where
  "default_record = record_new default_program"

definition contains_cpu :: "execution_record \<Rightarrow> bool" where
  "contains_cpu r \<longleftrightarrow> er_cpu_events r \<noteq> []"

text \<open>\<open>defer\<close> moves the precompile events and the global memory events into a new record.\<close>

definition record_defer :: "execution_record \<Rightarrow> execution_record \<times> execution_record" where
  "record_defer r =
     ((record_new (er_program r))\<lparr>er_precompile_events := er_precompile_events r,
        er_global_memory_initialize_events := er_global_memory_initialize_events r,
        er_global_memory_finalize_events := er_global_memory_finalize_events r\<rparr>,
      r\<lparr>er_precompile_events := default_precompile_events,
        er_global_memory_initialize_events := [], er_global_memory_finalize_events := []\<rparr>)"

text \<open>\<open>append\<close> of \<open>MachineRecord\<close>: every event list of the other record, except the conditional-move
  events, which the code does not move.\<close>

definition record_append :: "execution_record \<Rightarrow> execution_record \<Rightarrow> execution_record" where
  "record_append r other =
     r\<lparr>er_cpu_events := er_cpu_events r @ er_cpu_events other,
       er_add_sub_events := er_add_sub_events r @ er_add_sub_events other,
       er_mul_events := er_mul_events r @ er_mul_events other,
       er_bitwise_events := er_bitwise_events r @ er_bitwise_events other,
       er_shift_left_events := er_shift_left_events r @ er_shift_left_events other,
       er_shift_right_events := er_shift_right_events r @ er_shift_right_events other,
       er_divrem_events := er_divrem_events r @ er_divrem_events other,
       er_lt_events := er_lt_events r @ er_lt_events other,
       er_cloclz_events := er_cloclz_events r @ er_cloclz_events other,
       er_memory_instr_events := er_memory_instr_events r @ er_memory_instr_events other,
       er_branch_events := er_branch_events r @ er_branch_events other,
       er_jump_events := er_jump_events r @ er_jump_events other,
       er_misc_events := er_misc_events r @ er_misc_events other,
       er_syscall_events := er_syscall_events r @ er_syscall_events other,
       er_precompile_events := append_events (er_precompile_events r) (er_precompile_events other),
       er_global_memory_initialize_events :=
         er_global_memory_initialize_events r @ er_global_memory_initialize_events other,
       er_global_memory_finalize_events :=
         er_global_memory_finalize_events r @ er_global_memory_finalize_events other,
       er_cpu_local_memory_access := er_cpu_local_memory_access r @ er_cpu_local_memory_access other\<rparr>"

end
