(* ===== verification/Word_Store.thy ===== *)
theory Word_Store
  imports Opcodes
begin

text \<open>
  Indexing of Rust vectors, and the interface between the executor and its stores of words
  (register file, paged memory): the operations \<open>get\<close>, \<open>insert\<close>, \<open>remove\<close> and
  \<open>entry(..).or_insert(..)\<close> of \<open>crates/core/executor/src/memory.rs\<close>, specified as a finite map.
\<close>

section \<open>Vectors\<close>

type_synonym 'a or_panic = "panic_kind + 'a"

definition vec_get :: "'a list \<Rightarrow> nat \<Rightarrow> 'a or_panic" where
  "vec_get xs i = (if i < length xs then Inr (xs ! i) else Inl IndexOutOfBounds)"

section \<open>Stores of words\<close>

text \<open>
  The interface the executor relies on: a store of words under an invariant, whose operations
  behave as a finite map on the keys of the addresses it accepts and panic on the others.
\<close>

datatype 'v store_op = OpGet u32 | OpInsert u32 'v | OpRemove u32 | OpOrInsert u32 'v

fun store_op_addr :: "'v store_op \<Rightarrow> u32" where
  "store_op_addr (OpGet a) = a"
| "store_op_addr (OpInsert a _) = a"
| "store_op_addr (OpRemove a) = a"
| "store_op_addr (OpOrInsert a _) = a"

fun map_op :: "('k \<rightharpoonup> 'v) \<Rightarrow> 'k \<Rightarrow> 'v store_op \<Rightarrow> 'v option \<times> ('k \<rightharpoonup> 'v)" where
  "map_op f k (OpGet _) = (f k, f)"
| "map_op f k (OpInsert _ v) = (f k, f(k \<mapsto> v))"
| "map_op f k (OpRemove _) = (f k, f(k := None))"
| "map_op f k (OpOrInsert _ d) = (let v = case_option d id (f k) in (Some v, f(k \<mapsto> v)))"

fun run_map :: "(u32 \<Rightarrow> bool) \<Rightarrow> (u32 \<Rightarrow> 'k) \<Rightarrow> ('k \<rightharpoonup> 'v) \<Rightarrow> 'v store_op list \<Rightarrow> ('v option list) or_panic" where
  "run_map valid key f [] = Inr []"
| "run_map valid key f (op # ops) =
     (if valid (store_op_addr op)
      then let (obs, f') = map_op f (key (store_op_addr op)) op in
           (case run_map valid key f' ops of Inl e \<Rightarrow> Inl e | Inr rest \<Rightarrow> Inr (obs # rest))
      else Inl IndexOutOfBounds)"

definition store_step ::
  "('m \<Rightarrow> u32 \<Rightarrow> ('v option) or_panic) \<Rightarrow> ('m \<Rightarrow> u32 \<Rightarrow> 'v \<Rightarrow> ('v option \<times> 'm) or_panic) \<Rightarrow>
   ('m \<Rightarrow> u32 \<Rightarrow> ('v option \<times> 'm) or_panic) \<Rightarrow> ('m \<Rightarrow> u32 \<Rightarrow> 'v \<Rightarrow> ('v \<times> 'm) or_panic) \<Rightarrow>
   'm \<Rightarrow> 'v store_op \<Rightarrow> ('v option \<times> 'm) or_panic" where
  "store_step get put remove or_insert m op =
     (case op of
        OpGet a \<Rightarrow> (case get m a of Inl e \<Rightarrow> Inl e | Inr r \<Rightarrow> Inr (r, m))
      | OpInsert a v \<Rightarrow> put m a v
      | OpRemove a \<Rightarrow> remove m a
      | OpOrInsert a d \<Rightarrow> (case or_insert m a d of Inl e \<Rightarrow> Inl e | Inr (r, m') \<Rightarrow> Inr (Some r, m')))"

fun run_store :: "('m \<Rightarrow> 'v store_op \<Rightarrow> ('v option \<times> 'm) or_panic) \<Rightarrow> 'm \<Rightarrow> 'v store_op list \<Rightarrow> ('v option list) or_panic" where
  "run_store step m [] = Inr []"
| "run_store step m (op # ops) =
     (case step m op of
        Inl e \<Rightarrow> Inl e
      | Inr (obs, m') \<Rightarrow>
          (case run_store step m' ops of Inl e \<Rightarrow> Inl e | Inr rest \<Rightarrow> Inr (obs # rest)))"

locale word_store =
  fixes inv :: "'m \<Rightarrow> bool"
    and valid :: "u32 \<Rightarrow> bool"
    and key :: "u32 \<Rightarrow> 'k"
    and lookup :: "'m \<Rightarrow> 'k \<rightharpoonup> 'v"
    and get :: "'m \<Rightarrow> u32 \<Rightarrow> ('v option) or_panic"
    and put :: "'m \<Rightarrow> u32 \<Rightarrow> 'v \<Rightarrow> ('v option \<times> 'm) or_panic"
    and remove :: "'m \<Rightarrow> u32 \<Rightarrow> ('v option \<times> 'm) or_panic"
    and or_insert :: "'m \<Rightarrow> u32 \<Rightarrow> 'v \<Rightarrow> ('v \<times> 'm) or_panic"
  assumes get_ok: "inv m \<Longrightarrow> valid a \<Longrightarrow> get m a = Inr (lookup m (key a))"
    and put_ok: "inv m \<Longrightarrow> valid a \<Longrightarrow>
      \<exists>m'. put m a v = Inr (lookup m (key a), m') \<and> inv m' \<and> lookup m' = (lookup m)(key a \<mapsto> v)"
    and remove_ok: "inv m \<Longrightarrow> valid a \<Longrightarrow>
      \<exists>m'. remove m a = Inr (lookup m (key a), m') \<and> inv m' \<and> lookup m' = (lookup m)(key a := None)"
    and or_insert_ok: "inv m \<Longrightarrow> valid a \<Longrightarrow>
      \<exists>m'. or_insert m a v = Inr (case_option v id (lookup m (key a)), m') \<and> inv m' \<and>
           lookup m' = (lookup m)(key a \<mapsto> case_option v id (lookup m (key a)))"
    and get_invalid: "inv m \<Longrightarrow> \<not> valid a \<Longrightarrow> get m a = Inl IndexOutOfBounds"
    and put_invalid: "inv m \<Longrightarrow> \<not> valid a \<Longrightarrow> put m a v = Inl IndexOutOfBounds"
    and remove_invalid: "inv m \<Longrightarrow> \<not> valid a \<Longrightarrow> remove m a = Inl IndexOutOfBounds"
    and or_insert_invalid: "inv m \<Longrightarrow> \<not> valid a \<Longrightarrow> or_insert m a v = Inl IndexOutOfBounds"
begin

lemma step_valid:
  assumes "inv m" "valid (store_op_addr op)"
  shows "\<exists>m'. store_step get put remove or_insert m op =
                Inr (fst (map_op (lookup m) (key (store_op_addr op)) op), m') \<and>
              inv m' \<and> lookup m' = snd (map_op (lookup m) (key (store_op_addr op)) op)"
proof (cases op)
  case (OpGet a)
  with assms get_ok show ?thesis by (simp add: store_step_def)
next
  case (OpInsert a v)
  with assms put_ok [of m a v] show ?thesis by (simp add: store_step_def)
next
  case (OpRemove a)
  with assms remove_ok [of m a] show ?thesis by (simp add: store_step_def)
next
  case (OpOrInsert a v)
  with assms or_insert_ok [of m a v] show ?thesis by (auto simp: store_step_def Let_def)
qed

lemma step_invalid:
  "inv m \<Longrightarrow> \<not> valid (store_op_addr op) \<Longrightarrow>
   store_step get put remove or_insert m op = Inl IndexOutOfBounds"
  by (cases op)
    (simp_all add: store_step_def get_invalid put_invalid remove_invalid or_insert_invalid)

lemma run_refines_map:
  "inv m \<Longrightarrow> run_store (store_step get put remove or_insert) m ops = run_map valid key (lookup m) ops"
proof (induction ops arbitrary: m)
  case (Cons op ops)
  show ?case
  proof (cases "valid (store_op_addr op)")
    case True
    from step_valid [OF Cons.prems True] obtain m' where
      m': "store_step get put remove or_insert m op =
             Inr (fst (map_op (lookup m) (key (store_op_addr op)) op), m')"
          "inv m'" "lookup m' = snd (map_op (lookup m) (key (store_op_addr op)) op)"
      by blast
    with True Cons.IH [OF m'(2)] show ?thesis
      by (auto simp: Let_def split: prod.split sum.split)
  next
    case False
    with step_invalid [OF Cons.prems] show ?thesis by simp
  qed
qed simp

end

end
