(* ===== verification/Paged_Memory.thy ===== *)
theory Paged_Memory
  imports Word_Store
begin

text \<open>
  The memory of the executor, \<open>crates/core/executor/src/memory.rs\<close>: \<open>PagedMemory\<close> (a vector of pages
  of 2^14 words behind an index of 16-bit page numbers), \<open>Registers\<close> (a vector of 36 slots) and
  \<open>Memory\<close>, which routes an address to one of them. Indexing out of range panics.

  \<open>pm_inv\<close> is the invariant of the page index (every used entry points to an allocated page, no two
  to the same, every page has full length). Under it the operations refine a finite map
  (\<open>pm_lookup\<close>, \<open>regs_lookup\<close>, \<open>mem_lookup\<close>), so all three are interpretations of \<open>word_store\<close>. The
  executor model works on the abstract \<open>memory\<close> record at the end of this theory.
\<close>

unbundle bit_operations_syntax

section \<open>Paged memory\<close>

definition MAX_MEMORY :: nat where "MAX_MEMORY = 0x7F000000"
definition LOG_PAGE_LEN :: nat where "LOG_PAGE_LEN = 14"
definition PAGE_LEN :: nat where "PAGE_LEN = push_bit LOG_PAGE_LEN 1"
definition MAX_PAGE_COUNT :: nat where "MAX_PAGE_COUNT = MAX_MEMORY div 4 div PAGE_LEN + 1"
definition NO_PAGE :: u16 where "NO_PAGE = 0xFFFF"
definition PAGE_MASK :: nat where "PAGE_MASK = PAGE_LEN - 1"

lemma page_consts:
  "PAGE_LEN = 16384" "MAX_PAGE_COUNT = 32513" "PAGE_MASK = 16383" "LOG_PAGE_LEN = 14"
  by (simp_all add: PAGE_LEN_def MAX_PAGE_COUNT_def MAX_MEMORY_def PAGE_MASK_def LOG_PAGE_LEN_def)

record 'v paged_memory =
  pm_pages :: "'v option list list"
  pm_index :: "u16 list"

definition new_page :: "'v option list" where
  "new_page = replicate PAGE_LEN None"

definition pm_new_preallocated :: "'v paged_memory" where
  "pm_new_preallocated = \<lparr>pm_pages = [], pm_index = replicate MAX_PAGE_COUNT NO_PAGE\<rparr>"

definition compress_addr :: "u32 \<Rightarrow> nat" where
  "compress_addr addr = drop_bit 2 (unat addr)"

definition decompress_addr :: "nat \<Rightarrow> u32" where
  "decompress_addr k = of_nat (push_bit 2 k)"

definition indices :: "u32 \<Rightarrow> nat \<times> nat" where
  "indices addr = (let k = compress_addr addr in (drop_bit LOG_PAGE_LEN k, k AND PAGE_MASK))"

definition pm_get :: "'v paged_memory \<Rightarrow> u32 \<Rightarrow> ('v option) or_panic" where
  "pm_get m addr =
     (let (upper, lower) = indices addr in
      case vec_get (pm_index m) upper of
        Inl e \<Rightarrow> Inl e
      | Inr ix \<Rightarrow>
          if ix = NO_PAGE then Inr None
          else case vec_get (pm_pages m) (unat ix) of
                 Inl e \<Rightarrow> Inl e
               | Inr page \<Rightarrow> vec_get page lower)"

definition pm_write_slot :: "'v paged_memory \<Rightarrow> nat \<Rightarrow> nat \<Rightarrow> 'v option \<Rightarrow> ('v option \<times> 'v paged_memory) or_panic" where
  "pm_write_slot m p l v =
     (case vec_get (pm_pages m) p of
        Inl e \<Rightarrow> Inl e
      | Inr page \<Rightarrow>
          case vec_get page l of
            Inl e \<Rightarrow> Inl e
          | Inr old \<Rightarrow> Inr (old, m\<lparr>pm_pages := (pm_pages m)[p := page[l := v]]\<rparr>))"

definition pm_alloc :: "'v paged_memory \<Rightarrow> nat \<Rightarrow> 'v paged_memory" where
  "pm_alloc m upper =
     m\<lparr>pm_index := (pm_index m)[upper := of_nat (length (pm_pages m))],
       pm_pages := pm_pages m @ [new_page]\<rparr>"

definition pm_insert :: "'v paged_memory \<Rightarrow> u32 \<Rightarrow> 'v \<Rightarrow> ('v option \<times> 'v paged_memory) or_panic" where
  "pm_insert m addr v =
     (let (upper, lower) = indices addr in
      case vec_get (pm_index m) upper of
        Inl e \<Rightarrow> Inl e
      | Inr ix \<Rightarrow>
          if ix = NO_PAGE then
            let ix = (of_nat (length (pm_pages m)) :: u16) in
            pm_write_slot (pm_alloc m upper) (unat ix) lower (Some v)
          else pm_write_slot m (unat ix) lower (Some v))"

definition pm_remove :: "'v paged_memory \<Rightarrow> u32 \<Rightarrow> ('v option \<times> 'v paged_memory) or_panic" where
  "pm_remove m addr =
     (let (upper, lower) = indices addr in
      case vec_get (pm_index m) upper of
        Inl e \<Rightarrow> Inl e
      | Inr ix \<Rightarrow> if ix = NO_PAGE then Inr (None, m) else pm_write_slot m (unat ix) lower None)"

datatype 'v entry = Vacant nat nat | Occupied nat nat 'v

definition pm_entry :: "'v paged_memory \<Rightarrow> u32 \<Rightarrow> ('v entry \<times> 'v paged_memory) or_panic" where
  "pm_entry m addr =
     (let (upper, lower) = indices addr in
      case vec_get (pm_index m) upper of
        Inl e \<Rightarrow> Inl e
      | Inr ix \<Rightarrow>
          if ix = NO_PAGE then
            Inr (Vacant (length (pm_pages m)) lower, pm_alloc m upper)
          else case vec_get (pm_pages m) (unat ix) of
                 Inl e \<Rightarrow> Inl e
               | Inr page \<Rightarrow>
                   (case vec_get page lower of
                      Inl e \<Rightarrow> Inl e
                    | Inr (Some v) \<Rightarrow> Inr (Occupied (unat ix) lower v, m)
                    | Inr None \<Rightarrow> Inr (Vacant (unat ix) lower, m)))"

definition entry_or_insert :: "'v paged_memory \<Rightarrow> 'v entry \<Rightarrow> 'v \<Rightarrow> ('v \<times> 'v paged_memory) or_panic" where
  "entry_or_insert m ent d =
     (case ent of
        Vacant p l \<Rightarrow> (case pm_write_slot m p l (Some d) of Inl e \<Rightarrow> Inl e | Inr (_, m') \<Rightarrow> Inr (d, m'))
      | Occupied p l v \<Rightarrow> Inr (v, m))"

fun filter_some :: "(nat \<times> 'v option) list \<Rightarrow> (nat \<times> 'v) list" where
  "filter_some [] = []"
| "filter_some ((l, None) # r) = filter_some r"
| "filter_some ((l, Some v) # r) = (l, v) # filter_some r"

definition page_items :: "nat \<Rightarrow> 'v option list \<Rightarrow> (u32 \<times> 'v) list" where
  "page_items i page =
     (let upper = push_bit LOG_PAGE_LEN i in
      map (\<lambda>(lower, v). (decompress_addr (upper + lower), v)) (filter_some (List.enumerate 0 page)))"

definition used_pages :: "'v paged_memory \<Rightarrow> (nat \<times> u16) list" where
  "used_pages m = filter (\<lambda>(_, ix). ix \<noteq> NO_PAGE) (List.enumerate 0 (pm_index m))"

fun drain_pages :: "'v option list list \<Rightarrow> (nat \<times> u16) list \<Rightarrow> ((u32 \<times> 'v) list) or_panic" where
  "drain_pages pages [] = Inr []"
| "drain_pages pages ((i, ix) # rest) =
     (case vec_get pages (unat ix) of
        Inl e \<Rightarrow> Inl e
      | Inr page \<Rightarrow>
          (case drain_pages (pages[unat ix := []]) rest of
             Inl e \<Rightarrow> Inl e
           | Inr items \<Rightarrow> Inr (page_items i page @ items)))"

definition pm_into_iter :: "'v paged_memory \<Rightarrow> ((u32 \<times> 'v) list) or_panic" where
  "pm_into_iter m = drain_pages (pm_pages m) (used_pages m)"

fun scan_keys :: "'v option list list \<Rightarrow> (nat \<times> u16) list \<Rightarrow> (u32 list) or_panic" where
  "scan_keys pages [] = Inr []"
| "scan_keys pages ((i, ix) # rest) =
     (case vec_get pages (unat ix) of
        Inl e \<Rightarrow> Inl e
      | Inr page \<Rightarrow>
          (case scan_keys pages rest of
             Inl e \<Rightarrow> Inl e
           | Inr ks \<Rightarrow> Inr (map fst (page_items i page) @ ks)))"

definition pm_keys :: "'v paged_memory \<Rightarrow> (u32 list) or_panic" where
  "pm_keys m = scan_keys (pm_pages m) (used_pages m)"

fun count_used :: "'v option list list \<Rightarrow> (nat \<times> u16) list \<Rightarrow> nat or_panic" where
  "count_used pages [] = Inr 0"
| "count_used pages ((_, ix) # rest) =
     (case vec_get pages (unat ix) of
        Inl e \<Rightarrow> Inl e
      | Inr page \<Rightarrow>
          (case count_used pages rest of
             Inl e \<Rightarrow> Inl e
           | Inr n \<Rightarrow> Inr (length (filter (\<lambda>v. v \<noteq> None) page) + n)))"

definition pm_exact_len :: "'v paged_memory \<Rightarrow> nat or_panic" where
  "pm_exact_len m = count_used (pm_pages m) (used_pages m)"

definition pm_estimate_len :: "'v paged_memory \<Rightarrow> nat" where
  "pm_estimate_len m = length (filter (\<lambda>ix. ix \<noteq> NO_PAGE) (pm_index m)) * PAGE_LEN"

fun pm_extend :: "'v paged_memory \<Rightarrow> (u32 \<times> 'v) list \<Rightarrow> ('v paged_memory) or_panic" where
  "pm_extend m [] = Inr m"
| "pm_extend m ((k, v) # rest) =
     (case pm_insert m k v of Inl e \<Rightarrow> Inl e | Inr (_, m') \<Rightarrow> pm_extend m' rest)"

definition pm_from_iter :: "(u32 \<times> 'v) list \<Rightarrow> ('v paged_memory) or_panic" where
  "pm_from_iter xs = pm_extend pm_new_preallocated xs"

definition pm_clear :: "'v paged_memory \<Rightarrow> 'v paged_memory" where
  "pm_clear m = m\<lparr>pm_pages := [], pm_index := replicate (length (pm_index m)) NO_PAGE\<rparr>"

section \<open>Invariant and abstraction\<close>

definition pm_inv :: "'v paged_memory \<Rightarrow> bool" where
  "pm_inv m \<longleftrightarrow>
     length (pm_index m) = MAX_PAGE_COUNT \<and>
     length (pm_pages m) = length (filter (\<lambda>ix. ix \<noteq> NO_PAGE) (pm_index m)) \<and>
     (\<forall>u < length (pm_index m). pm_index m ! u \<noteq> NO_PAGE \<longrightarrow> unat (pm_index m ! u) < length (pm_pages m)) \<and>
     (\<forall>u < length (pm_index m). \<forall>w < length (pm_index m).
        pm_index m ! u \<noteq> NO_PAGE \<longrightarrow> pm_index m ! u = pm_index m ! w \<longrightarrow> u = w) \<and>
     (\<forall>page \<in> set (pm_pages m). length page = PAGE_LEN)"

definition pm_lookup :: "'v paged_memory \<Rightarrow> nat \<Rightarrow> 'v option" where
  "pm_lookup m k =
     (let u = k div PAGE_LEN; l = k mod PAGE_LEN in
      if u < length (pm_index m) \<and> pm_index m ! u \<noteq> NO_PAGE
      then pm_pages m ! unat (pm_index m ! u) ! l else None)"

definition valid_page :: "u32 \<Rightarrow> bool" where
  "valid_page addr \<longleftrightarrow> compress_addr addr div PAGE_LEN < MAX_PAGE_COUNT"

lemma valid_page_iff: "valid_page addr \<longleftrightarrow> addr < 0x7F010000"
proof -
  have "unat addr div 4 div 16384 < 32513 \<longleftrightarrow> unat addr < 0x7F010000"
    by (simp add: div_mult2_eq[symmetric] div_less_iff_less_mult)
  then show ?thesis
    by (simp add: valid_page_def compress_addr_def page_consts drop_bit_eq_div word_less_nat_alt)
qed

lemma indices_eq: "indices addr = (compress_addr addr div PAGE_LEN, compress_addr addr mod PAGE_LEN)"
proof -
  have "x AND PAGE_MASK = x mod PAGE_LEN" for x
  proof -
    have "x AND mask 14 = x mod 2 ^ 14"
      by (simp only: take_bit_eq_mask[symmetric] take_bit_eq_mod)
    then show ?thesis
      by (simp add: page_consts mask_eq_exp_minus_1)
  qed
  then show ?thesis
    by (simp add: indices_def Let_def LOG_PAGE_LEN_def PAGE_LEN_def drop_bit_eq_div)
qed

lemma pm_inv_new: "pm_inv pm_new_preallocated"
  by (simp add: pm_inv_def pm_new_preallocated_def)

lemma pm_lookup_new: "pm_lookup pm_new_preallocated k = None"
  by (auto simp add: pm_lookup_def pm_new_preallocated_def Let_def)

lemma pm_lookup_new_empty: "pm_lookup pm_new_preallocated = Map.empty"
  by (simp add: pm_lookup_new fun_eq_iff)

lemma pm_inv_length: "pm_inv m \<Longrightarrow> length (pm_index m) = MAX_PAGE_COUNT"
  by (simp add: pm_inv_def)

lemma pm_inv_bound:
  "pm_inv m \<Longrightarrow> u < MAX_PAGE_COUNT \<Longrightarrow> pm_index m ! u \<noteq> NO_PAGE \<Longrightarrow>
   unat (pm_index m ! u) < length (pm_pages m)"
  by (auto simp only: pm_inv_def)

lemma pm_inv_inj:
  "pm_inv m \<Longrightarrow> u < MAX_PAGE_COUNT \<Longrightarrow> w < MAX_PAGE_COUNT \<Longrightarrow> pm_index m ! u \<noteq> NO_PAGE \<Longrightarrow>
   pm_index m ! u = pm_index m ! w \<Longrightarrow> u = w"
  unfolding pm_inv_def by (elim conjE) metis

lemma pm_inv_page: "pm_inv m \<Longrightarrow> p < length (pm_pages m) \<Longrightarrow> length (pm_pages m ! p) = PAGE_LEN"
  unfolding pm_inv_def using nth_mem by blast

lemma pm_pages_bound:
  assumes "pm_inv m"
  shows "length (pm_pages m) \<le> MAX_PAGE_COUNT"
  using assms length_filter_le [of "\<lambda>ix. ix \<noteq> NO_PAGE" "pm_index m"] by (simp add: pm_inv_def)

lemma pm_pages_bound_strict:
  assumes "pm_inv m" "u < MAX_PAGE_COUNT" "pm_index m ! u = NO_PAGE"
  shows "length (pm_pages m) < MAX_PAGE_COUNT"
proof -
  have "pm_index m ! u \<in> set (pm_index m)"
    using assms(1,2) by (intro nth_mem) (simp add: pm_inv_def)
  then have "length (filter (\<lambda>ix. ix \<noteq> NO_PAGE) (pm_index m)) < length (pm_index m)"
    using assms by (intro length_filter_less[where x = "pm_index m ! u"]) auto
  with assms show ?thesis by (simp add: pm_inv_def)
qed

lemma new_page_index_no_truncation:
  assumes "pm_inv m" "u < MAX_PAGE_COUNT" "pm_index m ! u = NO_PAGE"
  shows "unat (of_nat (length (pm_pages m)) :: u16) = length (pm_pages m)"
    and "(of_nat (length (pm_pages m)) :: u16) \<noteq> NO_PAGE"
proof -
  have lt: "length (pm_pages m) < 32513"
    using pm_pages_bound_strict [OF assms] by (simp add: page_consts)
  then show 1: "unat (of_nat (length (pm_pages m)) :: u16) = length (pm_pages m)"
    by (simp add: unat_of_nat take_bit_nat_eq_self)
  show "(of_nat (length (pm_pages m)) :: u16) \<noteq> NO_PAGE"
  proof
    assume "(of_nat (length (pm_pages m)) :: u16) = NO_PAGE"
    then have "length (pm_pages m) = unat NO_PAGE" using 1 by simp
    then show False using lt by (simp add: NO_PAGE_def)
  qed
qed

lemma length_filter_update:
  assumes "u < length xs" "\<not> P (xs ! u)" "P y"
  shows "length (filter P (xs[u := y])) = Suc (length (filter P xs))"
proof -
  have "filter P xs = filter P (take u xs) @ filter P (drop (Suc u) xs)"
    using assms(1,2) by (subst id_take_nth_drop [OF assms(1)]) simp
  then show ?thesis
    using assms by (simp add: upd_conv_take_nth_drop)
qed

lemma pm_alloc_index:
  "u < length (pm_index m) \<Longrightarrow>
   pm_index (pm_alloc m upper) ! u = (if u = upper then of_nat (length (pm_pages m)) else pm_index m ! u)"
  by (simp add: pm_alloc_def nth_list_update)

lemma pm_alloc_inv:
  assumes inv: "pm_inv m" and u: "upper < MAX_PAGE_COUNT" and no: "pm_index m ! upper = NO_PAGE"
  shows "pm_inv (pm_alloc m upper)"
proof -
  let ?ix = "of_nat (length (pm_pages m)) :: u16"
  note fresh = new_page_index_no_truncation [OF inv u no]
  note len = pm_inv_length [OF inv] and bound = pm_inv_bound [OF inv]
  have ne: "pm_index m ! w \<noteq> ?ix" if "w < MAX_PAGE_COUNT" for w
    using bound [OF that] fresh by (metis less_irrefl)
  have "length (pm_pages (pm_alloc m upper)) =
        length (filter (\<lambda>ix. ix \<noteq> NO_PAGE) (pm_index (pm_alloc m upper)))"
    using inv u no fresh(2) by (simp add: pm_alloc_def length_filter_update pm_inv_def)
  moreover have "unat (pm_index (pm_alloc m upper) ! w) < length (pm_pages (pm_alloc m upper))"
    if "w < MAX_PAGE_COUNT" "pm_index (pm_alloc m upper) ! w \<noteq> NO_PAGE" for w
    using that bound [of w] fresh(1) len
    by (cases "w = upper") (auto simp: pm_alloc_def)
  moreover have "w = w'"
    if "w < MAX_PAGE_COUNT" "w' < MAX_PAGE_COUNT" "pm_index (pm_alloc m upper) ! w \<noteq> NO_PAGE"
       "pm_index (pm_alloc m upper) ! w = pm_index (pm_alloc m upper) ! w'" for w w'
    using that pm_inv_inj [OF inv, of w w'] ne [of w] ne [of w'] len
    by (auto simp: pm_alloc_index split: if_splits)
  moreover have "\<forall>page \<in> set (pm_pages (pm_alloc m upper)). length page = PAGE_LEN"
    using inv by (auto simp: pm_alloc_def pm_inv_def new_page_def)
  moreover have "length (pm_index (pm_alloc m upper)) = MAX_PAGE_COUNT"
    using len by (simp add: pm_alloc_def)
  ultimately show ?thesis
    unfolding pm_inv_def by auto
qed

lemma pm_alloc_lookup:
  assumes inv: "pm_inv m" and u: "upper < MAX_PAGE_COUNT" and no: "pm_index m ! upper = NO_PAGE"
  shows "pm_lookup (pm_alloc m upper) = pm_lookup m"
proof
  fix k
  note fresh = new_page_index_no_truncation [OF inv u no]
  have len: "length (pm_index m) = MAX_PAGE_COUNT" using inv by (simp add: pm_inv_def)
  have "k mod PAGE_LEN < PAGE_LEN" by (simp add: page_consts)
  moreover note pm_inv_bound [OF inv]
  ultimately show "pm_lookup (pm_alloc m upper) k = pm_lookup m k"
    using fresh no u len
    by (auto simp: pm_lookup_def Let_def pm_alloc_def nth_list_update nth_append new_page_def)
qed

text \<open>The slot of a valid page, and what writing it does.\<close>

lemma pm_slot:
  assumes "pm_inv m" "u < MAX_PAGE_COUNT" "pm_index m ! u \<noteq> NO_PAGE" "l < PAGE_LEN"
  shows "unat (pm_index m ! u) < length (pm_pages m)"
    and "l < length (pm_pages m ! unat (pm_index m ! u))"
    and "pm_lookup m (u * PAGE_LEN + l) = pm_pages m ! unat (pm_index m ! u) ! l"
  using pm_inv_bound [OF assms(1-3)] pm_inv_page [OF assms(1)] pm_inv_length [OF assms(1)] assms(2-)
  by (simp_all add: pm_lookup_def Let_def)

lemma pm_write_slot:
  assumes inv: "pm_inv m" and u: "u < MAX_PAGE_COUNT" "pm_index m ! u \<noteq> NO_PAGE" and l: "l < PAGE_LEN"
  shows "\<exists>m'. pm_write_slot m (unat (pm_index m ! u)) l v = Inr (pm_lookup m (u * PAGE_LEN + l), m') \<and>
              pm_inv m' \<and> pm_lookup m' = (pm_lookup m)(u * PAGE_LEN + l := v)"
proof -
  let ?p = "unat (pm_index m ! u)"
  let ?page = "pm_pages m ! ?p"
  let ?m' = "m\<lparr>pm_pages := (pm_pages m)[?p := ?page[l := v]]\<rparr>"
  note slot = pm_slot [OF inv u l]
  note len = pm_inv_length [OF inv] and plen = pm_inv_page [OF inv slot(1)]
  have "pm_inv ?m'"
    using inv plen by (auto simp: pm_inv_def dest!: set_update_subset_insert [THEN subsetD])
  moreover have "pm_lookup ?m' k = ((pm_lookup m)(u * PAGE_LEN + l := v)) k" for k
  proof (cases "k div PAGE_LEN = u")
    case True
    then have "k = u * PAGE_LEN + k mod PAGE_LEN" by (metis div_mult_mod_eq)
    moreover have "k mod PAGE_LEN < PAGE_LEN" by (simp add: page_consts)
    ultimately show ?thesis
      using True u slot len l
      by (auto simp: pm_lookup_def Let_def nth_list_update)
  next
    case False
    then have "k \<noteq> u * PAGE_LEN + l" using l by auto
    moreover have "unat (pm_index m ! (k div PAGE_LEN)) \<noteq> ?p"
      if "k div PAGE_LEN < MAX_PAGE_COUNT" "pm_index m ! (k div PAGE_LEN) \<noteq> NO_PAGE"
      using pm_inv_inj [OF inv that(1) u(1) that(2)] False by (auto simp: word_unat_eq_iff)
    ultimately show ?thesis
      using len by (auto simp: pm_lookup_def Let_def nth_list_update)
  qed
  ultimately show ?thesis
    using slot by (auto simp: pm_write_slot_def vec_get_def)
qed

lemmas compress_split = div_mult_mod_eq [of "compress_addr addr" PAGE_LEN for addr]

lemma compress_mod_less: "compress_addr addr mod PAGE_LEN < PAGE_LEN"
  by (simp add: page_consts)

lemma pm_get_ok:
  assumes inv: "pm_inv m" and v: "valid_page addr"
  shows "pm_get m addr = Inr (pm_lookup m (compress_addr addr))"
  using v pm_inv_length [OF inv] pm_slot [OF inv v [unfolded valid_page_def] _ compress_mod_less]
  by (simp add: pm_get_def indices_eq vec_get_def valid_page_def)
    (simp add: pm_lookup_def Let_def)

lemma pm_insert_ok:
  assumes inv: "pm_inv m" and v: "valid_page addr"
  shows "\<exists>m'. pm_insert m addr x = Inr (pm_lookup m (compress_addr addr), m') \<and>
              pm_inv m' \<and> pm_lookup m' = (pm_lookup m)(compress_addr addr \<mapsto> x)"
proof -
  let ?u = "compress_addr addr div PAGE_LEN" and ?l = "compress_addr addr mod PAGE_LEN"
  have u: "?u < MAX_PAGE_COUNT" using v by (simp add: valid_page_def)
  note len = pm_inv_length [OF inv]
  show ?thesis
  proof (cases "pm_index m ! ?u = NO_PAGE")
    case True
    note fresh = new_page_index_no_truncation [OF inv u True]
    have "pm_index (pm_alloc m ?u) ! ?u = of_nat (length (pm_pages m))"
      using u len by (simp add: pm_alloc_index)
    with pm_write_slot [OF pm_alloc_inv [OF inv u True] u _ compress_mod_less, of addr "Some x"] fresh
    show ?thesis
      using True u len
      by (simp add: pm_insert_def indices_eq vec_get_def compress_split pm_alloc_lookup [OF inv u True])
  next
    case False
    with pm_write_slot [OF inv u _ compress_mod_less, of addr "Some x"] u len show ?thesis
      by (simp add: pm_insert_def indices_eq vec_get_def compress_split)
  qed
qed

lemma pm_remove_ok:
  assumes inv: "pm_inv m" and v: "valid_page addr"
  shows "\<exists>m'. pm_remove m addr = Inr (pm_lookup m (compress_addr addr), m') \<and>
              pm_inv m' \<and> pm_lookup m' = (pm_lookup m)(compress_addr addr := None)"
proof -
  let ?u = "compress_addr addr div PAGE_LEN"
  have u: "?u < MAX_PAGE_COUNT" using v by (simp add: valid_page_def)
  note len = pm_inv_length [OF inv]
  show ?thesis
  proof (cases "pm_index m ! ?u = NO_PAGE")
    case True
    then have "pm_lookup m (compress_addr addr) = None" by (simp add: pm_lookup_def)
    with True u len inv show ?thesis
      by (auto simp: pm_remove_def indices_eq vec_get_def)
  next
    case False
    with pm_write_slot [OF inv u _ compress_mod_less, of addr None] u len show ?thesis
      by (simp add: pm_remove_def indices_eq vec_get_def compress_split)
  qed
qed

definition pm_or_insert :: "'v paged_memory \<Rightarrow> u32 \<Rightarrow> 'v \<Rightarrow> ('v \<times> 'v paged_memory) or_panic" where
  "pm_or_insert m addr d =
     (case pm_entry m addr of Inl e \<Rightarrow> Inl e | Inr (ent, m') \<Rightarrow> entry_or_insert m' ent d)"

lemma pm_or_insert_ok:
  assumes inv: "pm_inv m" and v: "valid_page addr"
  shows "\<exists>m'. pm_or_insert m addr d = Inr (case_option d id (pm_lookup m (compress_addr addr)), m') \<and>
              pm_inv m' \<and>
              pm_lookup m' = (pm_lookup m)(compress_addr addr \<mapsto>
                                case_option d id (pm_lookup m (compress_addr addr)))"
proof -
  let ?u = "compress_addr addr div PAGE_LEN"
  have u: "?u < MAX_PAGE_COUNT" using v by (simp add: valid_page_def)
  note len = pm_inv_length [OF inv]
  show ?thesis
  proof (cases "pm_index m ! ?u = NO_PAGE")
    case True
    note fresh = new_page_index_no_truncation [OF inv u True]
    have 1: "pm_index (pm_alloc m ?u) ! ?u = of_nat (length (pm_pages m))"
      using u len by (simp add: pm_alloc_index)
    have "pm_lookup m (compress_addr addr) = None" using True by (simp add: pm_lookup_def)
    with 1 pm_write_slot [OF pm_alloc_inv [OF inv u True] u _ compress_mod_less, of addr "Some d"] fresh
    show ?thesis
      using True u len
      by (auto simp: pm_or_insert_def pm_entry_def entry_or_insert_def indices_eq vec_get_def
            compress_split pm_alloc_lookup [OF inv u True])
  next
    case False
    note slot = pm_slot [OF inv u False compress_mod_less [of addr], unfolded compress_split]
    show ?thesis
    proof (cases "pm_lookup m (compress_addr addr)")
      case None
      with False u len slot pm_write_slot [OF inv u False compress_mod_less, of addr "Some d"] show ?thesis
        by (auto simp: pm_or_insert_def pm_entry_def entry_or_insert_def indices_eq vec_get_def
              compress_split)
    next
      case (Some w)
      then have "pm_pages m ! unat (pm_index m ! ?u) ! (compress_addr addr mod PAGE_LEN) = Some w"
        using slot(3) by simp
      with Some False u len slot(1,2) inv show ?thesis
        by (auto simp: pm_or_insert_def pm_entry_def entry_or_insert_def indices_eq vec_get_def)
    qed
  qed
qed

lemma pm_invalid:
  assumes "pm_inv m" "\<not> valid_page addr"
  shows "pm_get m addr = Inl IndexOutOfBounds"
    and "pm_insert m addr x = Inl IndexOutOfBounds"
    and "pm_remove m addr = Inl IndexOutOfBounds"
    and "pm_or_insert m addr x = Inl IndexOutOfBounds"
  using assms pm_inv_length [OF assms(1)]
  by (simp_all add: pm_get_def pm_insert_def pm_remove_def pm_or_insert_def pm_entry_def
        indices_eq vec_get_def valid_page_def)

section \<open>Iteration\<close>

text \<open>What iteration should produce: the present words in ascending order of their number.\<close>

definition items_upto :: "(nat \<Rightarrow> 'v option) \<Rightarrow> nat \<Rightarrow> nat \<Rightarrow> (u32 \<times> 'v) list" where
  "items_upto f a b = map (\<lambda>(k, v). (decompress_addr k, v)) (filter_some (map (\<lambda>k. (k, f k)) [a..<b]))"

lemma filter_some_append [simp]: "filter_some (xs @ ys) = filter_some xs @ filter_some ys"
  by (induction xs rule: filter_some.induct) auto

lemma filter_some_map_fst:
  "filter_some (map (\<lambda>(l, v). (g l, v)) xs) = map (\<lambda>(l, v). (g l, v)) (filter_some xs)"
  by (induction xs rule: filter_some.induct) auto

lemma set_filter_some: "set (filter_some xs) = {(k, v). (k, Some v) \<in> set xs}"
  by (induction xs rule: filter_some.induct) auto

lemma length_filter_some: "length (filter_some xs) = length (filter (\<lambda>v. v \<noteq> None) (map snd xs))"
  by (induction xs rule: filter_some.induct) auto

lemma items_upto_append: "a \<le> b \<Longrightarrow> b \<le> c \<Longrightarrow> items_upto f a c = items_upto f a b @ items_upto f b c"
  using upt_add_eq_append [of a b "c - b"] by (simp add: items_upto_def)

lemma items_upto_None: "(\<And>k. a \<le> k \<Longrightarrow> k < b \<Longrightarrow> f k = None) \<Longrightarrow> items_upto f a b = []"
proof (induction b)
  case (Suc b)
  then show ?case
    by (cases "a \<le> b") (auto simp: items_upto_def)
qed (simp add: items_upto_def)

lemma page_items_eq:
  assumes "length page = PAGE_LEN" "\<And>l. l < PAGE_LEN \<Longrightarrow> f (i * PAGE_LEN + l) = page ! l"
  shows "page_items i page = items_upto f (i * PAGE_LEN) (Suc i * PAGE_LEN)"
proof -
  have "[i * PAGE_LEN..<Suc i * PAGE_LEN] = map (\<lambda>l. i * PAGE_LEN + l) [0..<PAGE_LEN]"
    by (simp add: map_add_upt add.commute)
  then have "map (\<lambda>k. (k, f k)) [i * PAGE_LEN..<Suc i * PAGE_LEN] =
      map (\<lambda>(l, v). (i * PAGE_LEN + l, v)) (List.enumerate 0 page)"
    using assms by (auto simp: enumerate_eq_zip intro!: nth_equalityI)
  then show ?thesis
    by (simp only: page_items_def items_upto_def Let_def filter_some_map_fst)
      (simp add: case_prod_unfold LOG_PAGE_LEN_def PAGE_LEN_def push_bit_eq_mult o_def mult.commute)
qed

lemma drain_pages_eq:
  assumes "distinct (map (unat \<circ> snd) us)" "\<forall>p\<in>set us. unat (snd p) < length pages"
  shows "drain_pages pages us = Inr (concat (map (\<lambda>(i, ix). page_items i (pages ! unat ix)) us))"
  using assms
proof (induction pages us rule: drain_pages.induct)
  case (2 pages i ix rest)
  have "map (\<lambda>(j, jx). page_items j (pages[unat ix := []] ! unat jx)) rest =
        map (\<lambda>(j, jx). page_items j (pages ! unat jx)) rest"
  proof (intro map_cong refl, clarify)
    fix j jx
    assume "(j, jx) \<in> set rest"
    then have "unat ix \<noteq> unat jx" using 2(2) by force
    then show "page_items j (pages[unat ix := []] ! unat jx) = page_items j (pages ! unat jx)" by simp
  qed
  then have "concat (map (\<lambda>(j, jx). page_items j (pages[unat ix := []] ! unat jx)) rest) =
             concat (map (\<lambda>(j, jx). page_items j (pages ! unat jx)) rest)"
    by (rule arg_cong)
  then show ?case
    using 2 by (simp add: vec_get_def)
qed simp

lemma scan_keys_eq:
  assumes "\<forall>p\<in>set us. unat (snd p) < length pages"
  shows "scan_keys pages us = Inr (map fst (concat (map (\<lambda>(i, ix). page_items i (pages ! unat ix)) us)))"
  using assms by (induction us) (auto simp: vec_get_def)

lemma length_page_items: "length (page_items i page) = length (filter (\<lambda>v. v \<noteq> None) page)"
  by (simp add: page_items_def Let_def length_filter_some)

lemma count_used_eq:
  assumes "\<forall>p\<in>set us. unat (snd p) < length pages"
  shows "count_used pages us = Inr (length (concat (map (\<lambda>(i, ix). page_items i (pages ! unat ix)) us)))"
  using assms by (induction us) (auto simp: vec_get_def length_page_items)

lemma used_pages_mem:
  "(i, ix) \<in> set (used_pages m) \<longleftrightarrow> i < length (pm_index m) \<and> ix = pm_index m ! i \<and> ix \<noteq> NO_PAGE"
  by (auto simp: used_pages_def in_set_enumerate_eq)

lemma used_pages_bound: "pm_inv m \<Longrightarrow> \<forall>p\<in>set (used_pages m). unat (snd p) < length (pm_pages m)"
  by (auto simp: used_pages_mem pm_inv_bound pm_inv_length)

lemma used_pages_distinct:
  assumes "pm_inv m"
  shows "distinct (map (unat \<circ> snd) (used_pages m))"
  unfolding distinct_map
proof
  show "distinct (used_pages m)"
    by (simp add: used_pages_def enumerate_eq_zip distinct_zipI1)
  show "inj_on (unat \<circ> snd) (set (used_pages m))"
    using pm_inv_inj [OF assms] pm_inv_length [OF assms]
    by (auto simp: inj_on_def used_pages_mem word_unat_eq_iff)
qed

lemma used_pages_items:
  assumes inv: "pm_inv m"
  shows "concat (map (\<lambda>(i, ix). page_items i (pm_pages m ! unat ix)) (used_pages m)) =
         items_upto (pm_lookup m) 0 (MAX_PAGE_COUNT * PAGE_LEN)"
proof -
  let ?f = "\<lambda>n. concat (map (\<lambda>(i, ix). page_items i (pm_pages m ! unat ix))
              (filter (\<lambda>(_, ix). ix \<noteq> NO_PAGE) (List.enumerate 0 (take n (pm_index m)))))"
  have "?f n = items_upto (pm_lookup m) 0 (n * PAGE_LEN)" if "n \<le> MAX_PAGE_COUNT" for n
    using that
  proof (induction n)
    case (Suc n)
    have n: "n < MAX_PAGE_COUNT" using Suc by simp
    have "items_upto (pm_lookup m) (n * PAGE_LEN) (Suc n * PAGE_LEN) =
          (if pm_index m ! n = NO_PAGE then []
           else page_items n (pm_pages m ! unat (pm_index m ! n)))"
    proof (cases "pm_index m ! n = NO_PAGE")
      case True
      have "k div PAGE_LEN = n" if "n * PAGE_LEN \<le> k" "k < Suc n * PAGE_LEN" for k
        using that by (intro div_nat_eqI) (simp_all add: algebra_simps)
      with True show ?thesis by (auto intro!: items_upto_None simp: pm_lookup_def)
    next
      case False
      have "length (pm_pages m ! unat (pm_index m ! n)) = PAGE_LEN"
        by (intro pm_inv_page pm_inv_bound inv n False)
      from page_items_eq [OF this, of "pm_lookup m" n] pm_slot(3) [OF inv n False] False show ?thesis
        by simp
    qed
    then show ?case
      using Suc pm_inv_length [OF inv]
      by (simp add: take_Suc_conv_app_nth enumerate_append_eq
          items_upto_append [of 0 "n * PAGE_LEN" "PAGE_LEN + n * PAGE_LEN"])
  qed (simp add: items_upto_def)
  from this [of MAX_PAGE_COUNT] show ?thesis
    using pm_inv_length [OF inv] by (simp add: used_pages_def)
qed

lemma pm_into_iter_ok:
  "pm_inv m \<Longrightarrow> pm_into_iter m = Inr (items_upto (pm_lookup m) 0 (MAX_PAGE_COUNT * PAGE_LEN))"
  by (simp add: pm_into_iter_def used_pages_items drain_pages_eq used_pages_distinct used_pages_bound)

lemma pm_keys_ok:
  "pm_inv m \<Longrightarrow> pm_keys m = Inr (map fst (items_upto (pm_lookup m) 0 (MAX_PAGE_COUNT * PAGE_LEN)))"
  by (simp add: pm_keys_def used_pages_items scan_keys_eq [OF used_pages_bound])

lemma pm_exact_len_ok:
  "pm_inv m \<Longrightarrow> pm_exact_len m = Inr (length (items_upto (pm_lookup m) 0 (MAX_PAGE_COUNT * PAGE_LEN)))"
  by (simp add: pm_exact_len_def used_pages_items count_used_eq [OF used_pages_bound])

lemma unat_decompress: "k < 2 ^ 30 \<Longrightarrow> unat (decompress_addr k) = 4 * k"
  by (simp add: decompress_addr_def push_bit_eq_mult unat_of_nat take_bit_nat_eq_self del: of_nat_mult)

lemma decompress_compress: "addr AND 3 = 0 \<Longrightarrow> decompress_addr (compress_addr addr) = addr"
proof -
  assume "addr AND 3 = 0"
  then have "take_bit 2 addr = 0" by (simp add: take_bit_eq_mask mask_eq_exp_minus_1)
  then have 1: "unat addr mod 4 = 0" by (metis take_bit_eq_mod unat_0 unsigned_take_bit_eq power2_eq_square numeral_Bit0 mult_2 numeral_times_numeral semiring_norm(12))
  then have "4 * (unat addr div 4) = unat addr" by auto
  then show ?thesis
    by (simp add: decompress_addr_def compress_addr_def push_bit_eq_mult drop_bit_eq_div mult.commute
        del: of_nat_mult)
qed

lemma set_items_upto: "set (items_upto f a b) = {(decompress_addr k, v) |k v. a \<le> k \<and> k < b \<and> f k = Some v}"
  by (force simp: items_upto_def set_filter_some)

lemma items_upto_sorted: "b \<le> 2 ^ 30 \<Longrightarrow> sorted_wrt (<) (map fst (items_upto f 0 b))"
proof (induction b)
  case (Suc b)
  have "x < decompress_addr b" if "x \<in> fst ` set (items_upto f 0 b)" for x
    using that Suc.prems by (auto simp: set_items_upto word_less_nat_alt unat_decompress)
  moreover have "items_upto f 0 (Suc b) = items_upto f 0 b @ items_upto f b (Suc b)"
    by (simp add: items_upto_append)
  moreover have "items_upto f b (Suc b) = (case f b of None \<Rightarrow> [] | Some v \<Rightarrow> [(decompress_addr b, v)])"
    by (simp add: items_upto_def split: option.split)
  ultimately show ?case
    using Suc by (auto simp: sorted_wrt_append split: option.split)
qed (simp add: items_upto_def)

section \<open>The register file\<close>

type_synonym 'v registers = "'v option list"

definition regs_default :: "'v registers" where
  "regs_default = replicate NUM_REGISTERS None"

definition regs_get :: "'v registers \<Rightarrow> u32 \<Rightarrow> ('v option) or_panic" where
  "regs_get rs addr = vec_get rs (unat addr)"

definition regs_replace :: "'v registers \<Rightarrow> u32 \<Rightarrow> 'v option \<Rightarrow> ('v option \<times> 'v registers) or_panic" where
  "regs_replace rs addr v =
     (case vec_get rs (unat addr) of Inl e \<Rightarrow> Inl e | Inr old \<Rightarrow> Inr (old, rs[unat addr := v]))"

definition regs_insert :: "'v registers \<Rightarrow> u32 \<Rightarrow> 'v \<Rightarrow> ('v option \<times> 'v registers) or_panic" where
  "regs_insert rs addr v = regs_replace rs addr (Some v)"

definition regs_remove :: "'v registers \<Rightarrow> u32 \<Rightarrow> ('v option \<times> 'v registers) or_panic" where
  "regs_remove rs addr = regs_replace rs addr None"

definition regs_or_insert :: "'v registers \<Rightarrow> u32 \<Rightarrow> 'v \<Rightarrow> ('v \<times> 'v registers) or_panic" where
  "regs_or_insert rs addr d =
     (case vec_get rs (unat addr) of
        Inl e \<Rightarrow> Inl e
      | Inr (Some v) \<Rightarrow> Inr (v, rs)
      | Inr None \<Rightarrow> Inr (d, rs[unat addr := Some d]))"

definition regs_clear :: "'v registers \<Rightarrow> 'v registers" where
  "regs_clear rs = replicate (length rs) None"

definition regs_into_iter :: "'v registers \<Rightarrow> (u32 \<times> 'v) list" where
  "regs_into_iter rs = map (\<lambda>(i, v). (of_nat i, v)) (filter_some (List.enumerate 0 rs))"

definition regs_inv :: "'v registers \<Rightarrow> bool" where
  "regs_inv rs \<longleftrightarrow> length rs = NUM_REGISTERS"

definition regs_lookup :: "'v registers \<Rightarrow> nat \<Rightarrow> 'v option" where
  "regs_lookup rs i = (if i < length rs then rs ! i else None)"

definition is_register_addr :: "u32 \<Rightarrow> bool" where
  "is_register_addr addr \<longleftrightarrow> addr < of_nat NUM_REGISTERS"

lemma is_register_addr_iff: "is_register_addr addr \<longleftrightarrow> unat addr < NUM_REGISTERS"
  by (simp add: is_register_addr_def NUM_REGISTERS_def word_less_nat_alt)

section \<open>The memory of the executor\<close>

record 'v memory_impl =
  mi_registers :: "'v registers"
  mi_page_table :: "'v paged_memory"

definition mem_new_preallocated :: "'v memory_impl" where
  "mem_new_preallocated = \<lparr>mi_registers = regs_default, mi_page_table = pm_new_preallocated\<rparr>"

definition with_registers :: "'v memory_impl \<Rightarrow> ('a \<times> 'v registers) or_panic \<Rightarrow> ('a \<times> 'v memory_impl) or_panic" where
  "with_registers m r = (case r of Inl e \<Rightarrow> Inl e | Inr (x, rs) \<Rightarrow> Inr (x, m\<lparr>mi_registers := rs\<rparr>))"

definition with_page_table :: "'v memory_impl \<Rightarrow> ('a \<times> 'v paged_memory) or_panic \<Rightarrow> ('a \<times> 'v memory_impl) or_panic" where
  "with_page_table m r = (case r of Inl e \<Rightarrow> Inl e | Inr (x, pt) \<Rightarrow> Inr (x, m\<lparr>mi_page_table := pt\<rparr>))"

definition mem_get :: "'v memory_impl \<Rightarrow> u32 \<Rightarrow> ('v option) or_panic" where
  "mem_get m addr =
     (if addr < of_nat NUM_REGISTERS then regs_get (mi_registers m) addr else pm_get (mi_page_table m) addr)"

definition mem_insert :: "'v memory_impl \<Rightarrow> u32 \<Rightarrow> 'v \<Rightarrow> ('v option \<times> 'v memory_impl) or_panic" where
  "mem_insert m addr v =
     (if addr < of_nat NUM_REGISTERS then with_registers m (regs_insert (mi_registers m) addr v)
      else with_page_table m (pm_insert (mi_page_table m) addr v))"

definition mem_remove :: "'v memory_impl \<Rightarrow> u32 \<Rightarrow> ('v option \<times> 'v memory_impl) or_panic" where
  "mem_remove m addr =
     (if addr < of_nat NUM_REGISTERS then with_registers m (regs_remove (mi_registers m) addr)
      else with_page_table m (pm_remove (mi_page_table m) addr))"

definition mem_or_insert :: "'v memory_impl \<Rightarrow> u32 \<Rightarrow> 'v \<Rightarrow> ('v \<times> 'v memory_impl) or_panic" where
  "mem_or_insert m addr d =
     (if addr < of_nat NUM_REGISTERS then with_registers m (regs_or_insert (mi_registers m) addr d)
      else with_page_table m (pm_or_insert (mi_page_table m) addr d))"

definition mem_clear :: "'v memory_impl \<Rightarrow> 'v memory_impl" where
  "mem_clear m = m\<lparr>mi_registers := regs_clear (mi_registers m), mi_page_table := pm_clear (mi_page_table m)\<rparr>"

definition mem_into_iter :: "'v memory_impl \<Rightarrow> ((u32 \<times> 'v) list) or_panic" where
  "mem_into_iter m =
     (case pm_into_iter (mi_page_table m) of
        Inl e \<Rightarrow> Inl e
      | Inr items \<Rightarrow> Inr (regs_into_iter (mi_registers m) @ items))"

fun mem_extend :: "'v memory_impl \<Rightarrow> (u32 \<times> 'v) list \<Rightarrow> ('v memory_impl) or_panic" where
  "mem_extend m [] = Inr m"
| "mem_extend m ((k, v) # rest) =
     (case mem_insert m k v of Inl e \<Rightarrow> Inl e | Inr (_, m') \<Rightarrow> mem_extend m' rest)"

definition mem_from_iter :: "(u32 \<times> 'v) list \<Rightarrow> ('v memory_impl) or_panic" where
  "mem_from_iter xs = mem_extend mem_new_preallocated xs"

definition mem_inv :: "'v memory_impl \<Rightarrow> bool" where
  "mem_inv m \<longleftrightarrow> regs_inv (mi_registers m) \<and> pm_inv (mi_page_table m)"

definition mem_key :: "u32 \<Rightarrow> nat + nat" where
  "mem_key addr = (if is_register_addr addr then Inl (unat addr) else Inr (compress_addr addr))"

definition mem_lookup :: "'v memory_impl \<Rightarrow> nat + nat \<Rightarrow> 'v option" where
  "mem_lookup m k =
     (case k of Inl r \<Rightarrow> regs_lookup (mi_registers m) r | Inr w \<Rightarrow> pm_lookup (mi_page_table m) w)"

definition mem_valid :: "u32 \<Rightarrow> bool" where
  "mem_valid addr \<longleftrightarrow> is_register_addr addr \<or> valid_page addr"

section \<open>Interpretations of the store interface\<close>

interpretation pms: word_store pm_inv valid_page compress_addr pm_lookup pm_get pm_insert pm_remove pm_or_insert
  by unfold_locales (simp_all add: pm_get_ok pm_insert_ok pm_remove_ok pm_or_insert_ok pm_invalid)

lemmas regs_defs = regs_get_def regs_insert_def regs_remove_def regs_replace_def regs_or_insert_def
  regs_inv_def regs_lookup_def is_register_addr_iff vec_get_def

interpretation rfs: word_store regs_inv is_register_addr unat regs_lookup regs_get regs_insert regs_remove regs_or_insert
  by unfold_locales (auto simp: regs_defs fun_eq_iff nth_list_update split: option.split)

lemmas mem_ops = mem_get_def mem_insert_def mem_remove_def mem_or_insert_def
  is_register_addr_def [symmetric] with_registers_def with_page_table_def mem_inv_def mem_key_def
  mem_valid_def

lemma mem_lookup_update:
  "mem_lookup (m\<lparr>mi_registers := rs\<rparr>) k =
   (case k of Inl r \<Rightarrow> regs_lookup rs r | Inr w \<Rightarrow> mem_lookup m k)"
  "mem_lookup (m\<lparr>mi_page_table := pt\<rparr>) k =
   (case k of Inl r \<Rightarrow> mem_lookup m k | Inr w \<Rightarrow> pm_lookup pt w)"
  "mem_lookup m (Inl r) = regs_lookup (mi_registers m) r"
  "mem_lookup m (Inr w) = pm_lookup (mi_page_table m) w"
  by (simp_all add: mem_lookup_def split: sum.split)

lemma mem_writes_ok:
  assumes inv: "mem_inv m" and v: "mem_valid a"
  shows "\<exists>m'. mem_insert m a x = Inr (mem_lookup m (mem_key a), m') \<and> mem_inv m' \<and>
              mem_lookup m' = (mem_lookup m)(mem_key a \<mapsto> x)"
    and "\<exists>m'. mem_remove m a = Inr (mem_lookup m (mem_key a), m') \<and> mem_inv m' \<and>
              mem_lookup m' = (mem_lookup m)(mem_key a := None)"
    and "\<exists>m'. mem_or_insert m a x = Inr (case_option x id (mem_lookup m (mem_key a)), m') \<and> mem_inv m' \<and>
              mem_lookup m' = (mem_lookup m)(mem_key a \<mapsto> case_option x id (mem_lookup m (mem_key a)))"
proof -
  have r: "regs_inv (mi_registers m)" and p: "pm_inv (mi_page_table m)"
    using inv by (simp_all add: mem_inv_def)
  have "\<not> is_register_addr a \<Longrightarrow> valid_page a" using v by (simp add: mem_valid_def)
  note prov = rfs.put_ok [OF r, of a x] rfs.remove_ok [OF r, of a] rfs.or_insert_ok [OF r, of a x]
    pms.put_ok [OF p this, of x] pms.remove_ok [OF p this] pms.or_insert_ok [OF p this, of x]
  show "\<exists>m'. mem_insert m a x = Inr (mem_lookup m (mem_key a), m') \<and> mem_inv m' \<and>
              mem_lookup m' = (mem_lookup m)(mem_key a \<mapsto> x)"
    using prov(1,4) r p
    by (cases "is_register_addr a") (fastforce simp: mem_ops mem_lookup_update fun_eq_iff split: sum.splits)+
  show "\<exists>m'. mem_remove m a = Inr (mem_lookup m (mem_key a), m') \<and> mem_inv m' \<and>
              mem_lookup m' = (mem_lookup m)(mem_key a := None)"
    using prov(2,5) r p
    by (cases "is_register_addr a") (fastforce simp: mem_ops mem_lookup_update fun_eq_iff split: sum.splits)+
  show "\<exists>m'. mem_or_insert m a x = Inr (case_option x id (mem_lookup m (mem_key a)), m') \<and> mem_inv m' \<and>
              mem_lookup m' = (mem_lookup m)(mem_key a \<mapsto> case_option x id (mem_lookup m (mem_key a)))"
    using prov(3,6) r p
    by (cases "is_register_addr a") (fastforce simp: mem_ops mem_lookup_update fun_eq_iff split: sum.splits)+
qed

interpretation mms: word_store mem_inv mem_valid mem_key mem_lookup mem_get mem_insert mem_remove mem_or_insert
  by unfold_locales
    (auto simp: mem_writes_ok, auto simp: mem_ops mem_lookup_update rfs.get_ok pms.get_ok pms.get_invalid
       pms.put_invalid pms.remove_invalid pms.or_insert_invalid)

section \<open>The abstract memory\<close>

record 'v memory =
  registers :: "nat \<rightharpoonup> 'v"
  page_table :: "nat \<rightharpoonup> 'v"

text \<open>The executor model works on finite maps: the panics of the implementation are kept, its pages
  are not.\<close>

definition memory_abs :: "'v memory_impl \<Rightarrow> 'v memory" where
  "memory_abs m = \<lparr>registers = regs_lookup (mi_registers m), page_table = pm_lookup (mi_page_table m)\<rparr>"

definition map_get :: "(u32 \<Rightarrow> bool) \<Rightarrow> (u32 \<Rightarrow> 'k) \<Rightarrow> ('k \<rightharpoonup> 'v) \<Rightarrow> u32 \<Rightarrow> ('v option) or_panic" where
  "map_get valid key f a = (if valid a then Inr (f (key a)) else Inl IndexOutOfBounds)"

definition map_put :: "(u32 \<Rightarrow> bool) \<Rightarrow> (u32 \<Rightarrow> 'k) \<Rightarrow> ('k \<rightharpoonup> 'v) \<Rightarrow> u32 \<Rightarrow> 'v \<Rightarrow> ('v option \<times> ('k \<rightharpoonup> 'v)) or_panic" where
  "map_put valid key f a v = (if valid a then Inr (f (key a), f(key a \<mapsto> v)) else Inl IndexOutOfBounds)"

definition map_remove :: "(u32 \<Rightarrow> bool) \<Rightarrow> (u32 \<Rightarrow> 'k) \<Rightarrow> ('k \<rightharpoonup> 'v) \<Rightarrow> u32 \<Rightarrow> ('v option \<times> ('k \<rightharpoonup> 'v)) or_panic" where
  "map_remove valid key f a = (if valid a then Inr (f (key a), f(key a := None)) else Inl IndexOutOfBounds)"

definition map_or_insert :: "(u32 \<Rightarrow> bool) \<Rightarrow> (u32 \<Rightarrow> 'k) \<Rightarrow> ('k \<rightharpoonup> 'v) \<Rightarrow> u32 \<Rightarrow> 'v \<Rightarrow> ('v \<times> ('k \<rightharpoonup> 'v)) or_panic" where
  "map_or_insert valid key f a d =
     (if valid a then let v = case_option d id (f (key a)) in Inr (v, f(key a \<mapsto> v)) else Inl IndexOutOfBounds)"

interpretation mps: word_store "\<lambda>_. True" valid key "\<lambda>f. f"
    "map_get valid key" "map_put valid key" "map_remove valid key" "map_or_insert valid key"
  for valid :: "u32 \<Rightarrow> bool" and key :: "u32 \<Rightarrow> 'k"
  by unfold_locales (simp_all add: map_get_def map_put_def map_remove_def map_or_insert_def Let_def)

lemma mem_new: "mem_inv mem_new_preallocated" "mem_lookup mem_new_preallocated = Map.empty"
  by (auto simp: mem_inv_def mem_new_preallocated_def pm_inv_new regs_inv_def regs_default_def
      mem_lookup_def pm_lookup_new regs_lookup_def fun_eq_iff split: sum.split)

text \<open>C15: on every sequence of gets, inserts, removes and entry insertions, the register file and the
  paged memory with its 16-bit page index return the same values, and panic at the same operation, as
  a finite map keyed by register number or by the word number of the address.\<close>

theorem memory_refines_map:
  "run_store (store_step mem_get mem_insert mem_remove mem_or_insert) mem_new_preallocated ops =
   run_store (store_step (map_get mem_valid mem_key) (map_put mem_valid mem_key)
     (map_remove mem_valid mem_key) (map_or_insert mem_valid mem_key)) Map.empty ops"
  by (simp add: mms.run_refines_map mps.run_refines_map mem_new)

lemma pm_extend_ok:
  assumes "pm_inv m" "list_all (valid_page \<circ> fst) xs"
  shows "\<exists>m'. pm_extend m xs = Inr m' \<and> pm_inv m' \<and>
              pm_lookup m' = pm_lookup m ++ map_of (rev (map (apfst compress_addr) xs))"
  using assms
proof (induction m xs rule: pm_extend.induct)
  case (2 m a v rest)
  from pm_insert_ok [OF 2(2), of a v] 2(3) obtain m' where
    m': "pm_insert m a v = Inr (pm_lookup m (compress_addr a), m')" "pm_inv m'"
        "pm_lookup m' = (pm_lookup m)(compress_addr a \<mapsto> v)"
    by auto
  from 2(1) [OF m'(1) refl m'(2)] 2(3) obtain m'' where
    "pm_extend m' rest = Inr m''" "pm_inv m''"
    "pm_lookup m'' = pm_lookup m' ++ map_of (rev (map (apfst compress_addr) rest))"
    by auto
  then show ?case
    using m' by (simp add: map_add_assoc)
qed simp

lemma map_of_rev_inj:
  assumes "inj_on f (Set.insert a (fst ` set xs))"
  shows "map_of (rev (map (apfst f) xs)) (f a) = map_of (rev xs) a"
  using assms by (induction xs rule: rev_induct) (auto simp: inj_on_def)

text \<open>C16: collecting word-aligned valid addresses into a paged memory and iterating over it yields
  every address once, in ascending order, with the last value collected for it.\<close>

theorem from_iter_into_iter:
  assumes "list_all (\<lambda>(a, _). valid_page a \<and> a AND 3 = 0) xs"
  shows "\<exists>m ys. pm_from_iter xs = Inr m \<and> pm_into_iter m = Inr ys \<and>
                sorted_wrt (<) (map fst ys) \<and> map_of ys = map_of (rev xs)"
proof -
  have al: "a AND 3 = 0" if "a \<in> fst ` set xs" for a
    using assms that by (auto simp: list_all_iff)
  have "list_all (valid_page \<circ> fst) xs" using assms by (auto simp: list_all_iff)
  from pm_extend_ok [OF pm_inv_new this] obtain m where
    m: "pm_from_iter xs = Inr m" "pm_inv m"
       "pm_lookup m = map_of (rev (map (apfst compress_addr) xs))"
    by (auto simp: pm_from_iter_def pm_lookup_new_empty)
  let ?N = "MAX_PAGE_COUNT * PAGE_LEN"
  let ?ys = "items_upto (pm_lookup m) 0 ?N"
  have sorted: "sorted_wrt (<) (map fst ?ys)"
    by (rule items_upto_sorted) (simp add: page_consts)
  have dist: "distinct (map fst ?ys)"
    using sorted by (simp add: strict_sorted_iff)
  have "map_of ?ys a = Some v \<longleftrightarrow> map_of (rev xs) a = Some v" for a v
  proof -
    have inj: "inj_on compress_addr (Set.insert a (fst ` set xs))" if "a AND 3 = 0"
      by (rule inj_on_inverseI [of _ decompress_addr]) (use al that decompress_compress in auto)
    have "map_of ?ys a = Some v \<longleftrightarrow> (\<exists>k. k < ?N \<and> a = decompress_addr k \<and> pm_lookup m k = Some v)"
      using dist by (auto simp: set_items_upto)
    also have "\<dots> \<longleftrightarrow> map_of (rev xs) a = Some v"
    proof
      assume "\<exists>k. k < ?N \<and> a = decompress_addr k \<and> pm_lookup m k = Some v"
      then obtain k where k: "a = decompress_addr k" "pm_lookup m k = Some v" by blast
      then obtain b where b: "(b, v) \<in> set xs" "k = compress_addr b"
        using m(3) by (auto dest!: map_of_SomeD)
      have "b AND 3 = 0" using b(1) by (intro al) (simp add: rev_image_eqI)
      then have "a = b" using k b(2) by (simp add: decompress_compress)
      then have "a AND 3 = 0" "k = compress_addr a" using b(2) \<open>b AND 3 = 0\<close> by simp_all
      then show "map_of (rev xs) a = Some v"
        using k(2) map_of_rev_inj [OF inj] unfolding m(3) by (simp only:)
    next
      assume r: "map_of (rev xs) a = Some v"
      then have mem: "(a, v) \<in> set xs" by (auto dest!: map_of_SomeD)
      then have a: "a AND 3 = 0" "valid_page a" using assms by (auto simp: list_all_iff)
      have "compress_addr a < ?N"
        using a(2) by (simp add: valid_page_def page_consts less_mult_imp_div_less div_less_iff_less_mult)
      then show "\<exists>k. k < ?N \<and> a = decompress_addr k \<and> pm_lookup m k = Some v"
        using decompress_compress [OF a(1)] r map_of_rev_inj [OF inj [OF a(1)]]
        unfolding m(3) by (intro exI [of _ "compress_addr a"]) (simp only: simp_thms)
    qed
    finally show ?thesis .
  qed
  then have "map_of ?ys = map_of (rev xs)"
    by (metis option.exhaust ext)
  with m sorted show ?thesis by (auto simp: pm_into_iter_ok)
qed

theorem from_iter_into_iter_witness:
  "\<exists>m ys. pm_from_iter [(0x1000, 7), (0x20, 5), (0x1000, 9::nat)] = Inr m \<and> pm_into_iter m = Inr ys \<and>
     sorted_wrt (<) (map fst ys) \<and> map_of ys = map_of [(0x1000, 9), (0x20, 5), (0x1000, 7)]"
  using from_iter_into_iter [of "[(0x1000, 7), (0x20, 5), (0x1000, 9::nat)]"]
  by (simp add: valid_page_iff)

end
