(* ===== verification/Executor_State.thy ===== *)
theory Executor_State
  imports Execution_Record Paged_Memory
begin

text \<open>
  State of the executor (\<^verbatim>\<open>state.rs\<close>, \<^verbatim>\<open>executor.rs\<close>): \<open>ExecutionState\<close>, \<open>ForkState\<close>, the counters, the
  report, the \<open>Executor\<close> struct and its error type.

  Memories are the abstract \<open>memory\<close> of \<open>Paged_Memory\<close>. Hash maps are finite maps; where the code
  iterates over one (the order is unspecified in Rust) the model goes through the keys in ascending
  order. Not part of the model: the trace file, the proof-system options beyond the shard sizes, and
  the system-call table, which is a function of the \<open>Syscalls\<close> theory. Proofs of the proof stream are
  opaque handles: the executor only hands them to the verifier.
\<close>

datatype executor_mode = Simple | Checkpoint | Trace

datatype deferred_proof_verification = DPV_Enabled | DPV_Disabled

datatype execution_error =
    HaltWithNonZeroExitCode u32
  | InvalidMemoryAccess opcode u32
  | UnsupportedSyscall u32
  | UnsupportedInstruction u32
  | Breakpoint
  | ExceededCycleLimit u64
  | InvalidSyscallUsage u64
  | ExceptionOrTrap
  | MemoryOutOfBoundsAccess u64
  | InvalidSyscallArgs
  | Unimplemented
  | EndInUnconstrained
  | NullPointerReference
  | InvalidBufferLength nat nat
  | BufferLengthTooSmall nat nat
  | UnsupportedEcrecoverCurveId u8
  | IntoArrayError string
  | ElementNotCanonical string string
  | ElementZero string
  | NqrNotCanonical string string
  | NqrNotQuadratic string string string
  | CurveError string

type_synonym utf8 = "u8 list"
type_synonym proof_handle = nat

record execution_state =
  st_pc :: u32
  st_next_pc :: u32
  st_current_shard :: u32
  st_exited :: bool
  st_next_is_delayslot :: bool
  st_memory :: "memory_record memory"
  st_global_clk :: u64
  st_clk :: u32
  st_records_clk :: "u32 list"
  st_records_clk_index :: u32
  st_uninitialized_memory :: "u32 memory"
  st_input_stream :: "u8 list list"
  st_input_stream_ptr :: nat
  st_proof_stream :: "proof_handle list"
  st_proof_stream_ptr :: nat
  st_public_values_stream :: "u8 list"
  st_public_values_stream_ptr :: nat
  st_syscall_counts :: "syscall_code \<rightharpoonup> u64"

definition empty_memory :: "'v memory" where
  "empty_memory = \<lparr>registers = Map.empty, page_table = Map.empty\<rparr>"

definition state_new :: "u32 \<Rightarrow> u32 \<Rightarrow> execution_state" where
  "state_new pc_start next_pc =
     \<lparr>st_pc = pc_start, st_next_pc = next_pc, st_current_shard = 1, st_exited = False,
      st_next_is_delayslot = False, st_memory = empty_memory, st_global_clk = 0, st_clk = 0,
      st_records_clk = [], st_records_clk_index = 0, st_uninitialized_memory = empty_memory,
      st_input_stream = [], st_input_stream_ptr = 0, st_proof_stream = [], st_proof_stream_ptr = 0,
      st_public_values_stream = [], st_public_values_stream_ptr = 0, st_syscall_counts = Map.empty\<rparr>"

record fork_state =
  fk_global_clk :: u64
  fk_clk :: u32
  fk_pc :: u32
  fk_memory_diff :: "u32 \<rightharpoonup> memory_record option"
  fk_op_record :: memory_access_record
  fk_record :: execution_record
  fk_executor_mode :: executor_mode

definition default_fork_state :: fork_state where
  "default_fork_state =
     \<lparr>fk_global_clk = 0, fk_clk = 0, fk_pc = 0, fk_memory_diff = Map.empty,
      fk_op_record = default_access_record, fk_record = default_record, fk_executor_mode = Simple\<rparr>"

record local_counts =
  lc_event_counts :: opcode_counts
  lc_syscalls_sent :: u64
  lc_local_mem :: u64

definition default_local_counts :: local_counts where
  "default_local_counts = \<lparr>lc_event_counts = (\<lambda>_. 0), lc_syscalls_sent = 0, lc_local_mem = 0\<rparr>"

record execution_report =
  rp_opcode_counts :: opcode_counts
  rp_syscall_counts :: "syscall_code \<Rightarrow> u64"
  rp_cycle_tracker :: "utf8 \<rightharpoonup> u64"
  rp_touched_memory_addresses :: u64

definition default_report :: execution_report where
  "default_report = \<lparr>rp_opcode_counts = (\<lambda>_. 0), rp_syscall_counts = (\<lambda>_. 0),
     rp_cycle_tracker = Map.empty, rp_touched_memory_addresses = 0\<rparr>"

text \<open>Hooks and the verifier of sub-proofs are supplied by the caller of the executor.\<close>

type_synonym hook = "u8 list \<Rightarrow> execution_error + u8 list list"
type_synonym subproof_verifier = "proof_handle \<Rightarrow> u32 list \<Rightarrow> u32 list \<Rightarrow> bool"

record executor =
  ex_program :: program
  ex_executor_mode :: executor_mode
  ex_unconstrained :: bool
  ex_print_report :: bool
  ex_emit_global_memory_events :: bool
  ex_shard_size :: u32
  ex_shard_batch_size :: u32
  ex_max_syscall_cycles :: u32
  ex_memory_checkpoint :: "memory_record option memory"
  ex_uninitialized_memory_checkpoint :: "bool memory"
  ex_memory_accesses :: memory_access_record
  ex_max_cycles :: "u64 option"
  ex_deferred_proof_verification :: deferred_proof_verification
  ex_state :: execution_state
  ex_record :: execution_record
  ex_records :: "execution_record list"
  ex_local_memory_access :: "u32 \<rightharpoonup> memory_local_event"
  ex_cycle_tracker :: "(utf8 \<times> (u64 \<times> u32)) list"
  ex_io_buf :: "u32 \<rightharpoonup> utf8"
  ex_unconstrained_state :: fork_state
  ex_report :: execution_report
  ex_local_counts :: local_counts
  ex_subproof_verifier :: "subproof_verifier option"
  ex_hook_registry :: "u32 \<rightharpoonup> hook"
  ex_maximal_shapes :: "((mips_air_id \<Rightarrow> u32) list) option"
  ex_costs :: "mips_air_id \<rightharpoonup> u64"
  ex_shape_check_frequency :: u64
  ex_lde_size_check :: bool
  ex_lde_size_threshold :: u64

text \<open>\<open>Executor::with_context\<close>. The arguments after the program are the fields of \<open>ZKMCoreOpts\<close> and
  \<open>ZKMContext\<close> the executor reads, and the cost table.\<close>

definition executor_new ::
  "program \<Rightarrow> u32 \<Rightarrow> u32 \<Rightarrow> u64 \<Rightarrow> u32 \<Rightarrow> u64 option \<Rightarrow> bool \<Rightarrow> subproof_verifier option \<Rightarrow>
   (u32 \<rightharpoonup> hook) \<Rightarrow> (mips_air_id \<rightharpoonup> u64) \<Rightarrow> executor" where
  "executor_new program shard_size shard_batch_size freq max_syscall_cycles max_cycles skip_deferred
     verifier hooks costs =
     \<lparr>ex_program = program, ex_executor_mode = Trace, ex_unconstrained = False, ex_print_report = False,
      ex_emit_global_memory_events = True, ex_shard_size = shard_size * 4,
      ex_shard_batch_size = shard_batch_size, ex_max_syscall_cycles = max_syscall_cycles,
      ex_memory_checkpoint = empty_memory, ex_uninitialized_memory_checkpoint = empty_memory,
      ex_memory_accesses = default_access_record, ex_max_cycles = max_cycles,
      ex_deferred_proof_verification = (if skip_deferred then DPV_Disabled else DPV_Enabled),
      ex_state = state_new (prog_pc_start program) (prog_next_pc program),
      ex_record = record_new program, ex_records = [], ex_local_memory_access = Map.empty,
      ex_cycle_tracker = [], ex_io_buf = Map.empty, ex_unconstrained_state = default_fork_state,
      ex_report = default_report, ex_local_counts = default_local_counts,
      ex_subproof_verifier = verifier, ex_hook_registry = hooks, ex_maximal_shapes = None,
      ex_costs = costs, ex_shape_check_frequency = freq, ex_lde_size_check = False,
      ex_lde_size_threshold = 0\<rparr>"

definition executor_recover ::
  "program \<Rightarrow> execution_state \<Rightarrow> u32 \<Rightarrow> u32 \<Rightarrow> u64 \<Rightarrow> u32 \<Rightarrow> (u32 \<rightharpoonup> hook) \<Rightarrow> (mips_air_id \<rightharpoonup> u64) \<Rightarrow> executor" where
  "executor_recover program st shard_size shard_batch_size freq max_syscall_cycles hooks costs =
     (executor_new program shard_size shard_batch_size freq max_syscall_cycles None False None hooks costs)
       \<lparr>ex_state := st, ex_deferred_proof_verification := DPV_Disabled\<rparr>"

section \<open>The executor monad\<close>

type_synonym 'a rt = "(execution_error, executor, 'a) exec"

definition modState :: "(execution_state \<Rightarrow> execution_state) \<Rightarrow> unit rt" where
  "modState f = modM (\<lambda>s. s\<lparr>ex_state := f (ex_state s)\<rparr>)"

definition modRecord :: "(execution_record \<Rightarrow> execution_record) \<Rightarrow> unit rt" where
  "modRecord f = modM (\<lambda>s. s\<lparr>ex_record := f (ex_record s)\<rparr>)"

lemma modState_apply [simp, monad_defs]: "modState f s = Inr ((), s\<lparr>ex_state := f (ex_state s)\<rparr>)"
  by (simp add: modState_def)

lemma modRecord_apply [simp, monad_defs]: "modRecord f s = Inr ((), s\<lparr>ex_record := f (ex_record s)\<rparr>)"
  by (simp add: modRecord_def)

end
