(* ===== verification/Alu.thy ===== *)
theory Alu
  imports Executor_State "HOL-Library.Signed_Division"
begin

text \<open>
  The computation of the ALU instructions (\<^verbatim>\<open>executor.rs\<close>, the \<open>match\<close> of \<open>execute_alu\<close>) and the division
  helpers of \<^verbatim>\<open>utils.rs\<close>, with a reference semantics in terms of integers and bits and the proof that
  they agree.
\<close>

unbundle bit_operations_syntax

section \<open>Arithmetic and logic\<close>

definition shamt :: "u32 \<Rightarrow> nat" where
  "shamt c = unat (c AND 0x1F)"

definition sdiv_overflow :: "u32 \<Rightarrow> u32 \<Rightarrow> bool" where
  "sdiv_overflow b c \<longleftrightarrow> b = 0x80000000 \<and> c = 0xFFFFFFFF"

definition i32_div :: "u32 \<Rightarrow> u32 \<Rightarrow> u32" where
  "i32_div b c = word_of_int (sint b sdiv sint c)"

definition i32_rem :: "u32 \<Rightarrow> u32 \<Rightarrow> u32" where
  "i32_rem b c = word_of_int (sint b smod sint c)"

definition lo_word :: "u64 \<Rightarrow> u32" where "lo_word x = ucast x"
definition hi_word :: "u64 \<Rightarrow> u32" where "hi_word x = ucast (drop_bit 32 x)"

definition alu_result :: "opcode \<Rightarrow> u32 \<Rightarrow> u32 \<Rightarrow> (execution_error, u32 \<times> u32) outcome" where
  "alu_result op b c =
     (if op = Op_ADD then Inr (b + c, 0)
      else if op = Op_SUB then Inr (b - c, 0)
      else if op = Op_SLL then Inr (push_bit (shamt c) b, 0)
      else if op = Op_SRL then Inr (drop_bit (shamt c) b, 0)
      else if op = Op_SRA then Inr (signed_drop_bit (shamt c) b, 0)
      else if op = Op_ROR then
        let sin = (ucast b :: u64) + push_bit 32 (ucast b) in Inr (ucast (drop_bit (shamt c) sin), 0)
      else if op = Op_MUL then Inr (b * c, 0)
      else if op = Op_SLTU then Inr (if b < c then 1 else 0, 0)
      else if op = Op_SLT then Inr (if sint b < sint c then 1 else 0, 0)
      else if op = Op_MULT then
        let out = (scast b :: u64) * scast c in Inr (lo_word out, hi_word out)
      else if op = Op_MULTU then
        let out = (ucast b :: u64) * ucast c in Inr (lo_word out, hi_word out)
      else if op = Op_DIV then
        if sdiv_overflow b c then Inl (Panic DivisionOverflow) else Inr (i32_div b c, i32_rem b c)
      else if op = Op_DIVU then Inr (b div c, b mod c)
      else if op = Op_MOD then
        if sdiv_overflow b c then Inl (Panic DivisionOverflow) else Inr (i32_rem b c, 0)
      else if op = Op_MODU then Inr (b mod c, 0)
      else if op = Op_AND then Inr (b AND c, 0)
      else if op = Op_OR then Inr (b OR c, 0)
      else if op = Op_XOR then Inr (b XOR c, 0)
      else if op = Op_NOR then Inr (NOT (b OR c), 0)
      else if op = Op_CLZ then Inr (of_nat (leading_zeros b), 0)
      else if op = Op_CLO then Inr (of_nat (leading_ones b), 0)
      else Inl (Panic Unreachable))"

definition alu_op :: "opcode \<Rightarrow> u32 \<Rightarrow> u32 \<Rightarrow> (execution_error, u32 \<times> u32) outcome" where
  "alu_op op b c =
     (if op \<in> {Op_DIV, Op_DIVU, Op_MOD, Op_MODU} \<and> c = 0 then Inl (Err ExceptionOrTrap)
      else alu_result op b c)"

section \<open>Division helpers of the trace generator\<close>

definition is_signed_operation :: "opcode \<Rightarrow> bool" where
  "is_signed_operation op \<longleftrightarrow> op = Op_DIV \<or> op = Op_MOD"

definition get_quotient_and_remainder :: "u32 \<Rightarrow> u32 \<Rightarrow> opcode \<Rightarrow> u32 \<times> u32" where
  "get_quotient_and_remainder b c op =
     (if c = 0 then (0xFFFFFFFF, b)
      else if is_signed_operation op then (i32_div b c, i32_rem b c)
      else (b div c, b mod c))"

definition get_msb :: "u32 \<Rightarrow> u8" where
  "get_msb a = ucast (drop_bit 31 a AND 1)"

definition unsigned_abs :: "u32 \<Rightarrow> u32" where
  "unsigned_abs x = (if sint x < 0 then - x else x)"

section \<open>Reference semantics of the arithmetic instructions\<close>

text \<open>\<open>alu_spec op b c a hi\<close>: \<open>a\<close> and \<open>hi\<close> are the results the MIPS32 manual gives for operands \<open>b\<close> and
  \<open>c\<close>, in terms of integers and bits.\<close>

definition trunc_division :: "int \<Rightarrow> int \<Rightarrow> int \<Rightarrow> int \<Rightarrow> bool" where
  "trunc_division b c q r \<longleftrightarrow> b = q * c + r \<and> \<bar>r\<bar> < \<bar>c\<bar> \<and> (r \<noteq> 0 \<longrightarrow> sgn r = sgn b)"

definition pair_word :: "u32 \<Rightarrow> u32 \<Rightarrow> u64" where
  "pair_word hi lo = push_bit 32 (ucast hi) OR ucast lo"

definition alu_spec :: "opcode \<Rightarrow> u32 \<Rightarrow> u32 \<Rightarrow> u32 \<Rightarrow> u32 \<Rightarrow> bool" where
  "alu_spec op b c a hi \<longleftrightarrow>
     (let n = unat c mod 32 in
      (op = Op_ADD \<longrightarrow> uint a = (uint b + uint c) mod 2 ^ 32) \<and>
      (op = Op_SUB \<longrightarrow> uint a = (uint b - uint c) mod 2 ^ 32) \<and>
      (op = Op_MUL \<longrightarrow> uint a = (uint b * uint c) mod 2 ^ 32) \<and>
      (op = Op_SLL \<longrightarrow> uint a = (uint b * 2 ^ n) mod 2 ^ 32) \<and>
      (op = Op_SRL \<longrightarrow> uint a = uint b div 2 ^ n) \<and>
      (op = Op_SRA \<longrightarrow> sint a = sint b div 2 ^ n) \<and>
      (op = Op_ROR \<longrightarrow> (\<forall>i<32. bit a i \<longleftrightarrow> bit b ((i + n) mod 32))) \<and>
      (op = Op_SLT \<longrightarrow> a = of_bool (sint b < sint c)) \<and>
      (op = Op_SLTU \<longrightarrow> a = of_bool (uint b < uint c)) \<and>
      (op = Op_MULT \<longrightarrow> sint (pair_word hi a) = sint b * sint c) \<and>
      (op = Op_MULTU \<longrightarrow> uint (pair_word hi a) = uint b * uint c) \<and>
      (op = Op_DIV \<longrightarrow> trunc_division (sint b) (sint c) (sint a) (sint hi)) \<and>
      (op = Op_DIVU \<longrightarrow> uint b = uint a * uint c + uint hi \<and> uint hi < uint c) \<and>
      (op = Op_MOD \<longrightarrow> (\<exists>q. trunc_division (sint b) (sint c) q (sint a))) \<and>
      (op = Op_MODU \<longrightarrow> (\<exists>q. uint b = q * uint c + uint a) \<and> uint a < uint c) \<and>
      (op = Op_AND \<longrightarrow> (\<forall>i<32. bit a i \<longleftrightarrow> bit b i \<and> bit c i)) \<and>
      (op = Op_OR \<longrightarrow> (\<forall>i<32. bit a i \<longleftrightarrow> bit b i \<or> bit c i)) \<and>
      (op = Op_XOR \<longrightarrow> (\<forall>i<32. bit a i \<longleftrightarrow> bit b i \<noteq> bit c i)) \<and>
      (op = Op_NOR \<longrightarrow> (\<forall>i<32. bit a i \<longleftrightarrow> \<not> (bit b i \<or> bit c i))) \<and>
      (op = Op_CLZ \<longrightarrow> (if b = 0 then a = 32
                        else a < 32 \<and> 2 ^ (31 - unat a) \<le> unat b \<and> unat b < 2 ^ (32 - unat a))) \<and>
      (op = Op_CLO \<longrightarrow> (if NOT b = 0 then a = 32
                        else a < 32 \<and> 2 ^ (31 - unat a) \<le> unat (NOT b) \<and> unat (NOT b) < 2 ^ (32 - unat a))))"

subsection \<open>Shifts\<close>

lemma shamt_eq: "shamt c = unat c mod 32"
proof -
  have "c AND 0x1F = take_bit 5 c" by (rule and_0x1F)
  then have "shamt c = take_bit 5 (unat c)"
    by (simp only: shamt_def unsigned_take_bit_eq)
  then show ?thesis by (simp add: take_bit_eq_mod)
qed

lemma shamt_less: "shamt c < 32"
  by (simp add: shamt_eq)

lemma sll_correct: "uint (push_bit n (b::u32)) = (uint b * 2 ^ n) mod 2 ^ 32"
  by (simp only: unsigned_push_bit_eq) (simp add: push_bit_eq_mult take_bit_eq_mod)

lemma srl_correct: "uint (drop_bit n (b::u32)) = uint b div 2 ^ n"
proof -
  have "take_bit 32 (uint b) = uint b" using uint_lt2p [of b] by (simp add: take_bit_int_eq_self)
  then show ?thesis by (simp only: unsigned_drop_bit_eq) (simp add: drop_bit_eq_div)
qed

lemma sra_correct: "sint (signed_drop_bit n (b::u32)) = sint b div 2 ^ n"
  by (simp add: sint_signed_drop_bit_eq drop_bit_eq_div)

definition ror_u32 :: "u32 \<Rightarrow> nat \<Rightarrow> u32" where
  "ror_u32 b n = ucast (drop_bit n ((ucast b :: u64) + push_bit 32 (ucast b)))"

lemma double_word_or: "(ucast b :: u64) + push_bit 32 (ucast (b::u32)) = ucast b OR push_bit 32 (ucast b)"
  by (rule disjunctive_add) (auto simp: bit_simps dest: bit_imp_le_length)

lemma bit_ror_u32:
  assumes "n < 32" "i < 32"
  shows "bit (ror_u32 b n) i \<longleftrightarrow> bit b ((i + n) mod 32)"
proof (cases "i + n < 32")
  case True
  with assms show ?thesis by (simp add: ror_u32_def double_word_or bit_simps add.commute)
next
  case False
  with assms have "(i + n) mod 32 = i + n - 32" by (simp add: mod_if)
  moreover have "\<not> bit b (n + i)" using False by (auto dest: bit_imp_le_length)
  ultimately show ?thesis
    using False assms by (auto simp: ror_u32_def double_word_or bit_simps add.commute)
qed

subsection \<open>Products\<close>

lemma pair_word_split: "pair_word (hi_word x) (lo_word x) = x"
  by (rule bit_word_eqI) (auto simp: pair_word_def hi_word_def lo_word_def bit_simps)

lemma sint_mult_bound: "- (2 ^ 62) \<le> sint (b::u32) * sint (c::u32) \<and> sint b * sint c \<le> 2 ^ 62"
proof -
  have "\<bar>sint b\<bar> \<le> 2 ^ 31" "\<bar>sint c\<bar> \<le> 2 ^ 31"
    using sint_lt [of b] sint_ge [of b] sint_lt [of c] sint_ge [of c] by auto
  then have "\<bar>sint b\<bar> * \<bar>sint c\<bar> \<le> 2 ^ 31 * 2 ^ 31"
    by (intro mult_mono) auto
  then have "\<bar>sint b * sint c\<bar> \<le> 2 ^ 62" by (simp add: abs_mult)
  then show ?thesis by (simp add: abs_le_iff)
qed

lemma sint_word_of_int_i64: "- (2 ^ 63) \<le> k \<Longrightarrow> k < 2 ^ 63 \<Longrightarrow> sint (word_of_int k :: u64) = k"
  by (simp only: signed_of_int) (auto intro!: signed_take_bit_int_eq_self)

lemma mult_correct: "sint ((scast b :: u64) * scast c) = sint (b::u32) * sint (c::u32)"
proof -
  let ?k = "sint b * sint c"
  have eq: "(scast b :: u64) * scast c = word_of_int ?k"
    by (simp only: scast_eq of_int_mult)
  have "- (2 ^ 63) \<le> ?k" using sint_mult_bound [of b c] by (elim conjE) (rule order_trans, auto)
  moreover have "?k < 2 ^ 63" using sint_mult_bound [of b c] by (elim conjE) (rule le_less_trans, auto)
  ultimately show ?thesis unfolding eq by (rule sint_word_of_int_i64)
qed

lemma uint_ucast_u64: "uint (ucast (b::u32) :: u64) = uint b"
proof -
  have "uint b < 2 ^ 64" using uint_lt2p [of b] by simp
  then show ?thesis by (simp add: unsigned_ucast_eq take_bit_int_eq_self)
qed

lemma multu_correct: "uint ((ucast b :: u64) * ucast c) = uint (b::u32) * uint (c::u32)"
proof -
  have "uint b < 2 ^ 32" using uint_lt2p [of b] by simp
  moreover have "uint c < 2 ^ 32" using uint_lt2p [of c] by simp
  ultimately have "uint b * uint c < 2 ^ 32 * 2 ^ 32" by (intro mult_strict_mono) auto
  then show ?thesis
    by (simp only: uint_word_ariths uint_ucast_u64) simp
qed

subsection \<open>Division\<close>

lemma sdiv_range:
  assumes "c \<noteq> 0" "\<not> sdiv_overflow b c"
  shows "- (2 ^ 31) \<le> sint b sdiv sint c" "sint b sdiv sint c < 2 ^ 31"
proof -
  have b: "- (2 ^ 31) \<le> sint b" "sint b < 2 ^ 31" using sint_ge [of b] sint_lt [of b] by simp_all
  have r: "\<bar>sint b sdiv sint c\<bar> \<le> \<bar>sint b\<bar>"
    using sdiv_int_range [of "sint b" "sint c"] by auto
  show "- (2 ^ 31) \<le> sint b sdiv sint c" using r b by linarith
  show "sint b sdiv sint c < 2 ^ 31"
  proof (rule ccontr)
    assume "\<not> sint b sdiv sint c < 2 ^ 31"
    then have sb: "sint b = - (2 ^ 31)" and q: "sint b sdiv sint c = - sint b" using r b by linarith+
    have "sint b \<noteq> 0" using sb by simp
    from iffD1 [OF int_sdiv_negated_is_minus1 [OF this] q] have "sint c = -1" .
    with sb have "b = 0x80000000" "c = 0xFFFFFFFF"
      by (auto intro!: signed_word_eqI)
    with assms show False by (simp add: sdiv_overflow_def)
  qed
qed

lemma smod_facts:
  assumes "c \<noteq> (0::int)"
  shows "\<bar>b smod c\<bar> < \<bar>c\<bar>" "b smod c \<noteq> 0 \<longrightarrow> sgn (b smod c) = sgn b"
proof -
  have p: "0 < \<bar>c\<bar>" using assms by simp
  have m: "0 \<le> \<bar>b\<bar> mod \<bar>c\<bar>" "\<bar>b\<bar> mod \<bar>c\<bar> < \<bar>c\<bar>" using p by simp_all
  show "\<bar>b smod c\<bar> < \<bar>c\<bar>"
    using m p by (auto simp: smod_int_alt_def abs_mult sgn_if)
  show "b smod c \<noteq> 0 \<longrightarrow> sgn (b smod c) = sgn b"
    using m by (auto simp: smod_int_alt_def sgn_mult sgn_if)
qed

lemma sint_word_of_int_i32: "- (2 ^ 31) \<le> k \<Longrightarrow> k < 2 ^ 31 \<Longrightarrow> sint (word_of_int k :: u32) = k"
  by (simp only: signed_of_int) (auto intro!: signed_take_bit_int_eq_self)

lemma sint_i32_rem: "c \<noteq> 0 \<Longrightarrow> sint (i32_rem b c) = sint b smod sint c"
proof -
  assume "c \<noteq> 0"
  then have c: "sint c \<noteq> 0" by (simp add: signed_eq_0_iff)
  have "\<bar>sint c\<bar> \<le> 2 ^ 31" using sint_ge [of c] sint_lt [of c] by (simp add: abs_le_iff)
  with smod_facts(1) [OF c, of "sint b"] show ?thesis
    by (auto simp: i32_rem_def intro!: sint_word_of_int_i32)
qed

lemma div_correct:
  assumes "c \<noteq> 0" "\<not> sdiv_overflow b c"
  shows "trunc_division (sint b) (sint c) (sint (i32_div b c)) (sint (i32_rem b c))"
proof -
  have "sint (i32_div b c) = sint b sdiv sint c"
    unfolding i32_div_def using sdiv_range [OF assms] by (rule sint_word_of_int_i32)
  moreover have "sint c \<noteq> 0" using assms by (simp add: signed_eq_0_iff)
  ultimately show ?thesis
    using sint_i32_rem [OF assms(1)] smod_facts [of "sint c" "sint b"]
    by (simp add: trunc_division_def sdiv_mult_smod_eq)
qed

lemma divu_correct: "c \<noteq> 0 \<Longrightarrow> uint (b::u32) = uint (b div c) * uint c + uint (b mod c) \<and> uint (b mod c) < uint c"
proof -
  assume "c \<noteq> 0"
  then have "0 < uint c" using uint_ge_0 [of c] by (simp add: unsigned_eq_0_iff order_less_le)
  then show ?thesis by (simp add: uint_div uint_mod)
qed

subsection \<open>Counting\<close>

lemma clz_correct:
  "if b = 0 then (of_nat (leading_zeros (b::u32)) :: u32) = 32
   else (of_nat (leading_zeros b) :: u32) < 32 \<and>
        2 ^ (31 - unat (of_nat (leading_zeros b) :: u32)) \<le> unat b \<and>
        unat b < 2 ^ (32 - unat (of_nat (leading_zeros b) :: u32))"
proof (cases "b = 0")
  case True
  then show ?thesis by (simp add: leading_zeros_0)
next
  case False
  note l = leading_zeros_bounds [OF False]
  then have "unat (of_nat (leading_zeros b) :: u32) = leading_zeros b"
    by (simp add: unat_of_nat take_bit_nat_eq_self)
  with False l show ?thesis by (simp add: word_less_nat_alt)
qed

subsection \<open>The theorem\<close>

lemma alu_result_op: "alu_op op b c = Inr r \<Longrightarrow> alu_result op b c = Inr r \<and> (op \<in> {Op_DIV, Op_DIVU, Op_MOD, Op_MODU} \<longrightarrow> c \<noteq> 0)"
  unfolding alu_op_def by (metis Inl_Inr_False)

text \<open>C17: whatever an ALU instruction returns is the result the reference semantics prescribes.\<close>

theorem alu_op_correct:
  assumes "alu_op op b c = Inr (a, hi)"
  shows "alu_spec op b c a hi"
proof -
  have res: "alu_result op b c = Inr (a, hi)" and nz: "op \<in> {Op_DIV, Op_DIVU, Op_MOD, Op_MODU} \<longrightarrow> c \<noteq> 0"
    using alu_result_op [OF assms] by blast+
  show ?thesis
    unfolding alu_spec_def Let_def
  proof (intro conjI impI)
    assume "op = Op_ROR"
    then have "a = ror_u32 b (shamt c)" using res by (simp add: alu_result_def ror_u32_def Let_def)
    then show "\<forall>i<32. bit a i \<longleftrightarrow> bit b ((i + unat c mod 32) mod 32)"
      by (simp add: bit_ror_u32 shamt_less flip: shamt_eq)
  next
    assume "op = Op_DIV"
    then show "trunc_division (sint b) (sint c) (sint a) (sint hi)"
      using res nz div_correct [of c b] by (auto simp: alu_result_def split: if_splits)
  next
    assume "op = Op_MOD"
    then show "\<exists>q. trunc_division (sint b) (sint c) q (sint a)"
      using res nz div_correct [of c b] by (auto simp: alu_result_def split: if_splits)
  next
    assume "op = Op_MODU"
    then show "\<exists>q. uint b = q * uint c + uint a" and "uint a < uint c"
      using res nz divu_correct [of c b] by (auto simp: alu_result_def)
  next
    assume "op = Op_CLO"
    then have a: "a = of_nat (leading_zeros (NOT b))" using res by (simp add: alu_result_def leading_ones_not)
    show "if NOT b = 0 then a = 32
       else a < 32 \<and> 2 ^ (31 - unat a) \<le> unat (NOT b) \<and> unat (NOT b) < 2 ^ (32 - unat a)"
      unfolding a by (rule clz_correct)
  next
    assume "op = Op_CLZ"
    then have a: "a = of_nat (leading_zeros b)" using res by (simp add: alu_result_def)
    show "if b = 0 then a = 32
       else a < 32 \<and> 2 ^ (31 - unat a) \<le> unat b \<and> unat b < 2 ^ (32 - unat a)"
      unfolding a by (rule clz_correct)
  next
    assume "op = Op_DIVU"
    then show "uint b = uint a * uint c + uint hi" and "uint hi < uint c"
      using res nz divu_correct [of c b] by (simp_all add: alu_result_def)
  next
    assume "op = Op_MULT"
    then have "pair_word hi a = scast b * scast c" using res by (auto simp: alu_result_def Let_def pair_word_split)
    then show "sint (pair_word hi a) = sint b * sint c" by (simp only: mult_correct)
  next
    assume "op = Op_MULTU"
    then have "pair_word hi a = ucast b * ucast c" using res by (auto simp: alu_result_def Let_def pair_word_split)
    then show "uint (pair_word hi a) = uint b * uint c" by (simp only: multu_correct)
  next
    assume "op = Op_SLL"
    then have "a = push_bit (shamt c) b" using res by (simp add: alu_result_def)
    then show "uint a = uint b * 2 ^ (unat c mod 32) mod 2 ^ 32" by (simp only: sll_correct shamt_eq)
  next
    assume "op = Op_SRL"
    then have "a = drop_bit (shamt c) b" using res by (simp add: alu_result_def)
    then show "uint a = uint b div 2 ^ (unat c mod 32)" by (simp only: srl_correct shamt_eq)
  next
    assume "op = Op_SRA"
    then have "a = signed_drop_bit (shamt c) b" using res by (simp add: alu_result_def)
    then show "sint a = sint b div 2 ^ (unat c mod 32)" by (simp only: sra_correct shamt_eq)
  qed (use res in \<open>auto simp: alu_result_def uint_word_ariths bit_simps word_less_def\<close>)
qed

theorem alu_op_correct_witness:
  "alu_spec Op_DIV (- 7) 2 (- 3) (- 1)"
proof -
  have "sint (- 7 :: u32) = - 7" "sint (2 :: u32) = 2" by simp_all
  then have "alu_op Op_DIV (- 7) 2 = Inr (- 3, - 1)"
    by (simp add: alu_op_def alu_result_def sdiv_overflow_def i32_div_def i32_rem_def
        signed_divide_int_def signed_modulo_int_def)
  then show ?thesis by (rule alu_op_correct)
qed

end
