(* ===== verification/Load_Store.thy ===== *)
theory Load_Store
  imports Alu
begin

text \<open>
  The computational part of the remaining instructions (\<^verbatim>\<open>executor.rs\<close>, the \<open>match\<close> expressions of
  \<open>execute_load\<close>, \<open>execute_store\<close>, \<open>execute_ext\<close>, \<open>execute_ins\<close>, \<open>execute_sext\<close>, \<open>execute_wsbh\<close>,
  \<open>execute_madd\<close> and its variants, \<open>execute_branch\<close>), and what they do byte by byte and bit by bit.
\<close>

unbundle bit_operations_syntax

section \<open>Loads and stores\<close>

definition byte_shift :: "u32 \<Rightarrow> nat" where
  "byte_shift i = unat (i * 8)"

definition load_value :: "opcode \<Rightarrow> u32 \<Rightarrow> u32 \<Rightarrow> u32 \<Rightarrow> (execution_error, u32) outcome" where
  "load_value op addr mem rt =
     (if op = Op_LH then
        if addr AND 1 \<noteq> 0 then Inl (Err (InvalidMemoryAccess Op_LH addr))
        else Inr (sign_extend 16 (drop_bit (byte_shift (addr AND 2)) mem AND 0xffff))
      else if op = Op_LWL then
        let k = unat (24 - (addr AND 3) * 8); val = push_bit k mem; msk = push_bit k 0xFFFFFFFF
        in Inr ((rt AND NOT msk) OR val)
      else if op = Op_LW then
        if addr AND 3 \<noteq> 0 then Inl (Err (InvalidMemoryAccess Op_LW addr)) else Inr mem
      else if op = Op_LBU then Inr (drop_bit (byte_shift (addr AND 3)) mem AND 0xff)
      else if op = Op_LHU then
        if addr AND 1 \<noteq> 0 then Inl (Err (InvalidMemoryAccess Op_LHU addr))
        else Inr (drop_bit (byte_shift (addr AND 2)) mem AND 0xffff)
      else if op = Op_LWR then
        let k = byte_shift (addr AND 3); val = drop_bit k mem; msk = drop_bit k 0xFFFFFFFF
        in Inr ((rt AND NOT msk) OR val)
      else if op = Op_LL then
        if addr AND 3 \<noteq> 0 then Inl (Err (InvalidMemoryAccess Op_LL addr)) else Inr mem
      else if op = Op_LB then Inr (sign_extend 8 (drop_bit (byte_shift (addr AND 3)) mem AND 0xff))
      else Inl (Panic Unreachable))"

definition store_value :: "opcode \<Rightarrow> u32 \<Rightarrow> u32 \<Rightarrow> u32 \<Rightarrow> (execution_error, u32) outcome" where
  "store_value op addr mem rt =
     (if op = Op_SB then
        let k = byte_shift (addr AND 3); val = push_bit k (rt AND 0xff); msk = 0xFFFFFFFF XOR push_bit k 0xff
        in Inr ((mem AND msk) OR val)
      else if op = Op_SH then
        if addr AND 1 \<noteq> 0 then Inl (Err (InvalidMemoryAccess Op_SH addr))
        else let k = byte_shift (addr AND 2); val = push_bit k (rt AND 0xffff);
                 msk = 0xFFFFFFFF XOR push_bit k 0xffff
             in Inr ((mem AND msk) OR val)
      else if op = Op_SWL then
        let k = unat (24 - (addr AND 3) * 8); val = drop_bit k rt; msk = drop_bit k 0xFFFFFFFF
        in Inr ((mem AND NOT msk) OR val)
      else if op = Op_SW then
        if addr AND 3 \<noteq> 0 then Inl (Err (InvalidMemoryAccess Op_SW addr)) else Inr rt
      else if op = Op_SWR then
        let k = byte_shift (addr AND 3); val = push_bit k rt; msk = push_bit k 0xFFFFFFFF
        in Inr ((mem AND NOT msk) OR val)
      else if op = Op_SC then
        if addr AND 3 \<noteq> 0 then Inl (Err (InvalidMemoryAccess Op_SC addr)) else Inr rt
      else Inl (Panic Unreachable))"

section \<open>Bit-field and multiply-accumulate instructions\<close>

definition sext_value :: "u32 \<Rightarrow> u32 \<Rightarrow> u32" where
  "sext_value b c =
     (if c > 0 then scast (ucast (b AND 0xffff) :: u16) else scast (ucast (b AND 0xff) :: u8))"

definition wsbh_value :: "u32 \<Rightarrow> u32" where
  "wsbh_value b =
     push_bit 24 (drop_bit 16 b AND 0xFF) OR push_bit 16 (drop_bit 24 b AND 0xFF) OR
     push_bit 8 (b AND 0xFF) OR (drop_bit 8 b AND 0xFF)"

definition ext_value :: "u32 \<Rightarrow> u32 \<Rightarrow> (execution_error, u32) outcome" where
  "ext_value b c =
     (let msbd = drop_bit 5 c; lsb = c AND 0x1f in
      if msbd + lsb \<ge> 32 then Inl (Err ExceptionOrTrap)
      else let mask_msb = (if msbd + lsb + 1 = 32 then 0xFFFFFFFF else push_bit (unat (msbd + lsb + 1)) 1 - 1)
           in Inr (drop_bit (unat lsb) (b AND mask_msb)))"

text \<open>The shift amount of \<open>1u32 << (msb - lsb + 1)\<close> is taken modulo 32, as Rust's release profile does.\<close>

definition ins_value :: "u32 \<Rightarrow> u32 \<Rightarrow> u32 \<Rightarrow> (execution_error, u32) outcome" where
  "ins_value a b c =
     (let msb = drop_bit 5 c; lsb = c AND 0x1f in
      if msb < lsb then Inl (Err ExceptionOrTrap)
      else let msk = (if msb - lsb + 1 = 32 then 0xFFFFFFFF else push_bit (unat (msb - lsb + 1) mod 32) 1 - 1);
               mask_field = push_bit (unat lsb) msk
           in Inr ((a AND NOT mask_field) OR (push_bit (unat lsb) b AND mask_field)))"

definition acc_word :: "u32 \<Rightarrow> u32 \<Rightarrow> u64" where
  "acc_word hi lo = push_bit 32 (ucast hi) + ucast lo"

definition madd_value :: "opcode \<Rightarrow> u32 \<Rightarrow> u32 \<Rightarrow> u32 \<Rightarrow> u32 \<Rightarrow> u64" where
  "madd_value op hi lo b c =
     (if op = Op_MADDU then ucast b * ucast c + acc_word hi lo
      else if op = Op_MSUBU then acc_word hi lo - ucast b * ucast c
      else if op = Op_MADD then scast b * scast c + acc_word hi lo
      else acc_word hi lo - scast b * scast c)"

definition branch_taken :: "opcode \<Rightarrow> u32 \<Rightarrow> u32 \<Rightarrow> (execution_error, bool) outcome" where
  "branch_taken op src1 src2 =
     (if op = Op_BEQ then Inr (src1 = src2)
      else if op = Op_BNE then Inr (src1 \<noteq> src2)
      else if op = Op_BGEZ then Inr (sint src1 \<ge> 0)
      else if op = Op_BLEZ then Inr (sint src1 \<le> 0)
      else if op = Op_BGTZ then Inr (sint src1 > 0)
      else if op = Op_BLTZ then Inr (sint src1 < 0)
      else Inl (Panic Unreachable))"

section \<open>Bytes of a word\<close>

definition byte_at :: "u32 \<Rightarrow> nat \<Rightarrow> u8" where
  "byte_at w k = ucast (drop_bit (8 * k) w)"

lemma bit_byte_at: "bit (byte_at w k) i \<longleftrightarrow> i < 8 \<and> bit w (8 * k + i)"
  by (auto simp: byte_at_def bit_simps)

lemma word_eq_bytes: "v = w \<longleftrightarrow> (\<forall>k<4. byte_at v k = byte_at w k)"
proof
  assume *: "\<forall>k<4. byte_at v k = byte_at w k"
  show "v = w"
  proof (rule bit_word_eqI)
    fix n
    assume "n < LENGTH(32)"
    then have "n div 8 < 4" "n = 8 * (n div 8) + n mod 8" by simp_all
    with * have "bit (byte_at v (n div 8)) (n mod 8) = bit (byte_at w (n div 8)) (n mod 8)" by metis
    then show "bit v n = bit w n" using bit_byte_at by simp
  qed
qed simp

text \<open>The byte offset of an address within its word.\<close>

definition offset :: "u32 \<Rightarrow> nat" where
  "offset addr = unat (addr AND 3)"

lemma and_3_cases: "addr AND 3 = (0::u32) \<or> addr AND 3 = 1 \<or> addr AND 3 = 2 \<or> addr AND 3 = 3"
proof -
  have "addr AND 3 = take_bit 2 addr" by (simp add: take_bit_eq_mask mask_eq_exp_minus_1)
  also have "\<dots> < 4" using take_bit_nat_less_exp [of 2 "unat addr"]
    by (simp add: word_less_nat_alt unsigned_take_bit_eq)
  finally have "unat (addr AND 3) < 4" by (simp add: word_less_nat_alt)
  then have "unat (addr AND 3) \<in> {0, 1, 2, 3}" by auto
  then show ?thesis by (auto simp: word_unat_eq_iff)
qed

lemma and_1_2_of_and_3:
  "addr AND 1 = (addr AND 3) AND (1::u32)" "addr AND 2 = (addr AND 3) AND (2::u32)"
  by (simp_all add: and.assoc)

lemma offset_eq: "offset addr = unat addr mod 4"
proof -
  have "addr AND 3 = take_bit 2 addr" by (simp add: take_bit_eq_mask mask_eq_exp_minus_1)
  then have "offset addr = take_bit 2 (unat addr)" by (simp only: offset_def unsigned_take_bit_eq)
  then show ?thesis by (simp add: take_bit_eq_mod)
qed

lemma offset_less: "offset addr < 4"
  using and_3_cases [of addr] by (auto simp: offset_def)

section \<open>Loads\<close>

definition half_at :: "u32 \<Rightarrow> nat \<Rightarrow> u16" where
  "half_at w k = ucast (drop_bit (8 * k) w)"

definition load_spec :: "opcode \<Rightarrow> nat \<Rightarrow> u32 \<Rightarrow> u32 \<Rightarrow> u32 \<Rightarrow> bool" where
  "load_spec op off mem rt v \<longleftrightarrow>
     (op = Op_LB \<longrightarrow> v = scast (byte_at mem off)) \<and>
     (op = Op_LBU \<longrightarrow> v = ucast (byte_at mem off)) \<and>
     (op = Op_LH \<longrightarrow> even off \<and> v = scast (half_at mem off)) \<and>
     (op = Op_LHU \<longrightarrow> even off \<and> v = ucast (half_at mem off)) \<and>
     (op \<in> {Op_LW, Op_LL} \<longrightarrow> off = 0 \<and> v = mem) \<and>
     (op = Op_LWL \<longrightarrow> (\<forall>k<4. byte_at v k = (if k < 3 - off then byte_at rt k else byte_at mem (k - (3 - off))))) \<and>
     (op = Op_LWR \<longrightarrow> (\<forall>k<4. byte_at v k = (if k < 4 - off then byte_at mem (k + off) else byte_at rt k)))"

lemma all_ones: "(0xFFFFFFFF::u32) = - 1"
  by simp

lemma bit_merge_high:
  "bit ((rt AND NOT (push_bit k (0xFFFFFFFF::u32))) OR push_bit k mem) n \<longleftrightarrow>
   n < 32 \<and> (if n < k then bit rt n else bit mem (n - k))"
  unfolding all_ones by (auto simp: bit_simps dest: bit_imp_le_length)

lemma bit_merge_low:
  "bit ((rt AND NOT (drop_bit k (0xFFFFFFFF::u32))) OR drop_bit k mem) n \<longleftrightarrow>
   n < 32 \<and> (if n < 32 - k then bit mem (k + n) else bit rt n)"
  unfolding all_ones by (auto simp: bit_simps dest: bit_imp_le_length)

lemma byte_lt_iff: "i < 8 \<Longrightarrow> 8 * k + i < 8 * m \<longleftrightarrow> k < (m::nat)"
  by presburger

lemma byte_at_merge_high:
  assumes "j < 4"
  shows "byte_at ((rt AND NOT (push_bit (8 * m) (0xFFFFFFFF::u32))) OR push_bit (8 * m) mem) j =
         (if j < m then byte_at rt j else byte_at mem (j - m))"
proof (rule bit_word_eqI)
  fix i
  assume "i < LENGTH(8)"
  then have i: "i < 8" by simp
  with assms have "8 * j + i < 32" by presburger
  moreover have "8 * j + i - 8 * m = 8 * (j - m) + i" if "\<not> j < m" using that by presburger
  ultimately show "bit (byte_at ((rt AND NOT (push_bit (8 * m) (0xFFFFFFFF::u32))) OR push_bit (8 * m) mem) j) i =
    bit (if j < m then byte_at rt j else byte_at mem (j - m)) i"
    using i byte_lt_iff [OF i, of j m] by (simp only: bit_byte_at bit_merge_high) (auto simp: bit_byte_at)
qed

lemma byte_at_merge_low:
  assumes "j < 4" "m \<le> 4"
  shows "byte_at ((rt AND NOT (drop_bit (8 * m) (0xFFFFFFFF::u32))) OR drop_bit (8 * m) mem) j =
         (if j < 4 - m then byte_at mem (j + m) else byte_at rt j)"
proof (rule bit_word_eqI)
  fix i
  assume "i < LENGTH(8)"
  then have i: "i < 8" by simp
  with assms have "8 * j + i < 32" by presburger
  moreover have "8 * m + (8 * j + i) = 8 * (j + m) + i" by simp
  moreover have "8 * j + i < 32 - 8 * m \<longleftrightarrow> j < 4 - m" using i assms by presburger
  ultimately show "bit (byte_at ((rt AND NOT (drop_bit (8 * m) (0xFFFFFFFF::u32))) OR drop_bit (8 * m) mem) j) i =
    bit (if j < 4 - m then byte_at mem (j + m) else byte_at rt j) i"
    using i by (simp only: bit_byte_at bit_merge_low) (auto simp: bit_byte_at algebra_simps)
qed

lemma shift_amounts:
  "byte_shift (addr AND 3) = 8 * offset addr"
  "unat (24 - (addr AND 3) * 8) = 8 * (3 - offset addr)"
  using and_3_cases [of addr] by (auto simp: byte_shift_def offset_def)

lemma and_low_cases:
  fixes addr :: u32
  obtains "addr AND 3 = 0" "addr AND 1 = 0" "addr AND 2 = 0" | "addr AND 3 = 1" "addr AND 1 = 1" "addr AND 2 = 0"
    | "addr AND 3 = 2" "addr AND 1 = 0" "addr AND 2 = 2" | "addr AND 3 = 3" "addr AND 1 = 1" "addr AND 2 = 2"
proof -
  have a: "(0::u32) AND 1 = 0" "(0::u32) AND 2 = 0" "(1::u32) AND 1 = 1" "(1::u32) AND 2 = 0"
    "(2::u32) AND 1 = 0" "(2::u32) AND 2 = 2" "(3::u32) AND 1 = 1" "(3::u32) AND 2 = 2"
    by simp_all
  show thesis
    using and_3_cases [of addr] and_1_2_of_and_3 [of addr] a that by metis
qed

lemma half_amount: "addr AND 1 = 0 \<Longrightarrow> byte_shift (addr AND 2) = 8 * offset addr \<and> even (offset addr)"
  by (cases addr rule: and_low_cases) (simp_all add: byte_shift_def offset_def)

text \<open>C18: a load returns the bytes it names, extended as it says; \<open>LWL\<close> and \<open>LWR\<close> replace the high and
  the low bytes of the target register and keep the others.\<close>

theorem load_value_correct:
  assumes "load_value op addr mem rt = Inr v"
  shows "load_spec op (offset addr) mem rt v"
  unfolding load_spec_def
proof (intro conjI impI)
  assume "op = Op_LWL"
  then show "\<forall>k<4. byte_at v k = (if k < 3 - offset addr then byte_at rt k else byte_at mem (k - (3 - offset addr)))"
    using assms byte_at_merge_high [of _ rt "3 - offset addr" mem]
    by (auto simp: load_value_def Let_def shift_amounts)
next
  assume "op = Op_LWR"
  then show "\<forall>k<4. byte_at v k = (if k < 4 - offset addr then byte_at mem (k + offset addr) else byte_at rt k)"
    using assms byte_at_merge_low [of _ "offset addr" rt mem] offset_less [of addr]
    by (auto simp: load_value_def Let_def shift_amounts)
next
  assume "op = Op_LB"
  then show "v = scast (byte_at mem (offset addr))"
    using assms by (simp add: load_value_def shift_amounts sign_extend_8 byte_at_def)
next
  assume "op = Op_LBU"
  then show "v = ucast (byte_at mem (offset addr))"
    using assms by (auto simp: load_value_def shift_amounts byte_at_def and_0xff unsigned_ucast_eq)
next
  assume "op = Op_LH"
  then have "addr AND 1 = 0" "v = sign_extend 16 (drop_bit (byte_shift (addr AND 2)) mem AND 0xffff)"
    using assms by (auto simp: load_value_def split: if_splits)
  with half_amount [of addr] show "even (offset addr)" "v = scast (half_at mem (offset addr))"
    by (simp_all add: sign_extend_16 half_at_def)
next
  assume "op = Op_LHU"
  then have "addr AND 1 = 0" "v = drop_bit (byte_shift (addr AND 2)) mem AND 0xffff"
    using assms by (auto simp: load_value_def split: if_splits)
  with half_amount [of addr] show "even (offset addr)" "v = ucast (half_at mem (offset addr))"
    by (auto simp: half_at_def and_0xffff unsigned_ucast_eq)
next
  assume "op \<in> {Op_LW, Op_LL}"
  then show "offset addr = 0" "v = mem"
    using assms by (auto simp: load_value_def offset_def split: if_splits)
qed
theorem load_value_correct_witness:
  "load_spec Op_LWL (offset 0x1001) 0x44332211 0xDDCCBBAA 0x2211BBAA"
proof -
  have "load_value Op_LWL 0x1001 0x44332211 0xDDCCBBAA = Inr 0x2211BBAA"
    by (simp add: load_value_def Let_def)
  then show ?thesis by (rule load_value_correct)
qed

text \<open>C20: loading an unaligned word with \<open>LWR\<close> at its address and \<open>LWL\<close> at its last byte yields the four
  consecutive bytes, whatever the register held before.\<close>

theorem unaligned_load:
  assumes "load_value Op_LWR addr m0 rt = Inr x" and "load_value Op_LWL (addr + 3) m1 x = Inr v"
    and "offset addr = 0 \<longrightarrow> m0 = m1" and "k < 4"
  shows "byte_at v k = (if offset addr + k < 4 then byte_at m0 (offset addr + k)
                        else byte_at m1 (offset addr + k - 4))"
proof -
  let ?o = "offset addr"
  have o3: "offset (addr + 3) = (if ?o = 0 then 3 else ?o - 1)"
  proof -
    have "offset (addr + 3) = (unat addr + 3) mod 4"
      by (simp add: offset_eq unat_word_ariths mod_mod_cancel)
    then show ?thesis unfolding offset_eq by presburger
  qed
  have x: "byte_at x j = (if j < 4 - ?o then byte_at m0 (j + ?o) else byte_at rt j)" if "j < 4" for j
    using load_value_correct [OF assms(1)] that by (auto simp: load_spec_def)
  have v: "byte_at v k = (if k < 3 - offset (addr + 3) then byte_at x k
                          else byte_at m1 (k - (3 - offset (addr + 3))))"
    using load_value_correct [OF assms(2)] assms(4) by (auto simp: load_spec_def)
  show ?thesis
    using assms(3,4) x [OF assms(4)] v offset_less [of addr]
    by (cases "?o = 0") (auto simp: o3 add.commute)
qed

theorem unaligned_load_witness:
  "load_value Op_LWR 0x1001 0x44332211 0 = Inr 0x00443322 \<and>
   load_value Op_LWL 0x1004 0x88776655 0x00443322 = Inr 0x55443322 \<and> byte_at 0x55443322 3 = byte_at 0x88776655 0"
proof -
  have 1: "load_value Op_LWR 0x1001 0x44332211 0 = Inr 0x00443322"
    by (simp add: load_value_def Let_def byte_shift_def)
  have 2: "load_value Op_LWL 0x1004 0x88776655 0x00443322 = Inr 0x55443322"
    by (simp add: load_value_def Let_def)
  have o: "offset 0x1001 = 1" by (simp add: offset_def)
  from unaligned_load [OF 1, of "0x88776655" "0x55443322" 3] 1 2 o show ?thesis by simp
qed

section \<open>Stores\<close>

definition store_spec :: "opcode \<Rightarrow> nat \<Rightarrow> u32 \<Rightarrow> u32 \<Rightarrow> u32 \<Rightarrow> bool" where
  "store_spec op off mem rt v \<longleftrightarrow>
     (op = Op_SB \<longrightarrow> (\<forall>k<4. byte_at v k = (if k = off then byte_at rt 0 else byte_at mem k))) \<and>
     (op = Op_SH \<longrightarrow> even off \<and>
        (\<forall>k<4. byte_at v k = (if off \<le> k \<and> k < off + 2 then byte_at rt (k - off) else byte_at mem k))) \<and>
     (op \<in> {Op_SW, Op_SC} \<longrightarrow> off = 0 \<and> v = rt) \<and>
     (op = Op_SWL \<longrightarrow> (\<forall>k<4. byte_at v k = (if k \<le> off then byte_at rt (k + (3 - off)) else byte_at mem k))) \<and>
     (op = Op_SWR \<longrightarrow> (\<forall>k<4. byte_at v k = (if off \<le> k then byte_at rt (k - off) else byte_at mem k)))"

lemma bit_field_put:
  "bit ((mem AND (0xFFFFFFFF XOR push_bit k (mask w))) OR push_bit k (rt AND mask w)) n \<longleftrightarrow>
   n < 32 \<and> (if k \<le> n \<and> n < k + w then bit rt (n - k) else bit mem n)" for mem rt :: u32
  unfolding all_ones by (auto simp: bit_simps dest: bit_imp_le_length)

lemma byte_at_field_put:
  fixes mem rt :: u32
  assumes "j < 4"
  shows "byte_at ((mem AND (0xFFFFFFFF XOR push_bit (8 * m) (mask (8 * w)))) OR push_bit (8 * m) (rt AND mask (8 * w))) j =
         (if m \<le> j \<and> j < m + w then byte_at rt (j - m) else byte_at mem j)"
proof (rule bit_word_eqI)
  fix i
  assume "i < LENGTH(8)"
  then have i: "i < 8" by simp
  with assms have "8 * j + i < 32" by presburger
  moreover have "8 * j + i - 8 * m = 8 * (j - m) + i" if "m \<le> j" using that by presburger
  moreover have "8 * m \<le> 8 * j + i \<and> 8 * j + i < 8 * m + 8 * w \<longleftrightarrow> m \<le> j \<and> j < m + w"
    using i by presburger
  ultimately show "bit (byte_at ((mem AND (0xFFFFFFFF XOR push_bit (8 * m) (mask (8 * w)))) OR
      push_bit (8 * m) (rt AND mask (8 * w))) j) i =
    bit (if m \<le> j \<and> j < m + w then byte_at rt (j - m) else byte_at mem j) i"
    using i by (simp only: bit_byte_at bit_field_put) (auto simp: bit_byte_at)
qed

lemma field_masks: "(0xff::u32) = mask (8 * 1)" "(0xffff::u32) = mask (8 * 2)"
  by (simp_all add: mask_eq_exp_minus_1)

text \<open>C19: a store writes exactly the bytes it names and keeps the other bytes of the word.\<close>

theorem store_value_correct:
  assumes "store_value op addr mem rt = Inr v"
  shows "store_spec op (offset addr) mem rt v"
  unfolding store_spec_def
proof (intro conjI impI)
  assume "op = Op_SB"
  then have "v = (mem AND (0xFFFFFFFF XOR push_bit (8 * offset addr) 0xff)) OR push_bit (8 * offset addr) (rt AND 0xff)"
    using assms by (simp add: store_value_def Let_def shift_amounts)
  then have "byte_at v k = (if offset addr \<le> k \<and> k < offset addr + 1 then byte_at rt (k - offset addr)
      else byte_at mem k)" if "k < 4" for k
    using byte_at_field_put [OF that, of mem "offset addr" 1 rt] by (simp only: field_masks)
  then show "\<forall>k<4. byte_at v k = (if k = offset addr then byte_at rt 0 else byte_at mem k)" by auto
next
  assume "op = Op_SH"
  then have "addr AND 1 = 0" "v = (mem AND (0xFFFFFFFF XOR push_bit (byte_shift (addr AND 2)) 0xffff)) OR
      push_bit (byte_shift (addr AND 2)) (rt AND 0xffff)"
    using assms by (auto simp: store_value_def Let_def split: if_splits)
  then have ev: "even (offset addr)"
    and v: "v = (mem AND (0xFFFFFFFF XOR push_bit (8 * offset addr) 0xffff)) OR push_bit (8 * offset addr) (rt AND 0xffff)"
    using half_amount [of addr] by simp_all
  show "even (offset addr)" by (rule ev)
  show "\<forall>k<4. byte_at v k = (if offset addr \<le> k \<and> k < offset addr + 2 then byte_at rt (k - offset addr) else byte_at mem k)"
    using byte_at_field_put [of _ mem "offset addr" 2 rt] v by (simp only: field_masks) blast
next
  assume "op \<in> {Op_SW, Op_SC}"
  then show "offset addr = 0" "v = rt"
    using assms by (auto simp: store_value_def offset_def split: if_splits)
next
  assume "op = Op_SWL"
  then show "\<forall>k<4. byte_at v k = (if k \<le> offset addr then byte_at rt (k + (3 - offset addr)) else byte_at mem k)"
    using assms byte_at_merge_low [of _ "3 - offset addr" mem rt] offset_less [of addr]
    by (auto simp: store_value_def Let_def shift_amounts)
next
  assume "op = Op_SWR"
  then show "\<forall>k<4. byte_at v k = (if offset addr \<le> k then byte_at rt (k - offset addr) else byte_at mem k)"
    using assms byte_at_merge_high [of _ mem "offset addr" rt]
    by (auto simp: store_value_def Let_def shift_amounts)
qed

theorem store_value_correct_witness:
  "store_spec Op_SH (offset 0x1002) 0x44332211 0xDDCCBBAA 0xBBAA2211"
proof -
  have "store_value Op_SH 0x1002 0x44332211 0xDDCCBBAA = Inr 0xBBAA2211"
    by (simp add: store_value_def Let_def byte_shift_def)
  then show ?thesis by (rule store_value_correct)
qed

section \<open>Bit fields\<close>

lemma unat_u32_less: "unat (x::u32) < 2 ^ 32"
  by (rule order_less_le_trans [OF unsigned_less]) simp

lemma c_fields:
  "unat (drop_bit 5 c) = unat c div 32" "unat (c AND 0x1f) = unat c mod 32" for c :: u32
proof -
  have "unat (drop_bit 5 c) = drop_bit 5 (take_bit 32 (unat c))" by (simp only: unsigned_drop_bit_eq) simp
  moreover have "take_bit 32 (unat c) = unat c" using unat_u32_less [of c] by (simp add: take_bit_nat_eq_self)
  ultimately show "unat (drop_bit 5 c) = unat c div 32" by (simp add: drop_bit_eq_div)
  show "unat (c AND 0x1f) = unat c mod 32" using shamt_eq [of c] by (simp add: shamt_def)
qed

lemma width_mask: "n \<le> 32 \<Longrightarrow> (if n = 32 then 0xFFFFFFFF else push_bit n 1 - 1) = (mask n :: u32)"
  by (auto simp: mask_eq_exp_minus_1 push_bit_eq_mult)

lemma width_mask_word:
  assumes "unat (w::u32) = n" "n \<le> 32"
  shows "(if w = 32 then 0xFFFFFFFF else push_bit (unat w) 1 - 1) = (mask n :: u32)"
    and "(if w = 32 then 0xFFFFFFFF else push_bit (unat w mod 32) 1 - 1) = (mask n :: u32)"
proof -
  have "w = 32 \<longleftrightarrow> n = 32" using assms(1) by (auto simp: word_unat_eq_iff)
  then show 1: "(if w = 32 then 0xFFFFFFFF else push_bit (unat w) 1 - 1) = (mask n :: u32)"
    using width_mask [OF assms(2)] by (simp only: assms(1))
  have "w = 32 \<or> unat w mod 32 = unat w" using assms \<open>w = 32 \<longleftrightarrow> n = 32\<close> by auto
  then show "(if w = 32 then 0xFFFFFFFF else push_bit (unat w mod 32) 1 - 1) = (mask n :: u32)"
    using 1 by auto
qed

text \<open>C22: \<open>EXT\<close> extracts the field of \<open>msbd + 1\<close> bits at \<open>lsb\<close>, and traps exactly when the field does not
  fit in the word.\<close>

theorem ext_value_correct:
  "ext_value b c =
     (if unat c div 32 + unat c mod 32 \<ge> 32 then Inl (Err ExceptionOrTrap)
      else Inr (take_bit (unat c div 32 + 1) (drop_bit (unat c mod 32) b)))"
proof -
  let ?m = "drop_bit 5 c" and ?l = "c AND 0x1f" and ?s = "unat c div 32 + unat c mod 32"
  have "unat c div 32 < 2 ^ 27" using unat_u32_less [of c] by (simp add: less_mult_imp_div_less)
  then have "?s < 2 ^ 28" by simp
  then have u: "unat (?m + ?l) = ?s" and u1: "unat (?m + ?l + 1) = ?s + 1"
    by (simp_all add: unat_word_ariths c_fields)
  have ge: "?m + ?l \<ge> 32 \<longleftrightarrow> ?s \<ge> 32" using u by (simp add: word_le_nat_alt)
  show ?thesis
  proof (cases "?s \<ge> 32")
    case True
    then show ?thesis using ge by (simp add: ext_value_def Let_def)
  next
    case False
    have "(if ?m + ?l + 1 = 32 then 0xFFFFFFFF else push_bit (unat (?m + ?l + 1)) 1 - 1) = (mask (?s + 1) :: u32)"
      using False by (intro width_mask_word(1) u1) simp
    with False ge show ?thesis
      by (simp only: ext_value_def Let_def c_fields)
        (simp add: take_bit_eq_mask [symmetric] drop_bit_take_bit)
  qed
qed

text \<open>C21: \<open>INS\<close> replaces bits \<open>lsb\<close> to \<open>msb\<close> of the target by the low bits of the source and keeps the
  others, and traps exactly when \<open>msb < lsb\<close>; the encoded field has \<open>c < 1024\<close>.\<close>

theorem ins_value_correct:
  assumes "c < 1024"
  shows "if unat c div 32 < unat c mod 32 then ins_value a b c = Inl (Err ExceptionOrTrap)
         else \<exists>v. ins_value a b c = Inr v \<and>
                  (\<forall>i<32. bit v i \<longleftrightarrow>
                     (if unat c mod 32 \<le> i \<and> i \<le> unat c div 32 then bit b (i - unat c mod 32) else bit a i))"
proof -
  let ?m = "drop_bit 5 c" and ?l = "c AND 0x1f" and ?M = "unat c div 32" and ?L = "unat c mod 32"
  have M: "?M < 32" using assms by (simp add: word_less_nat_alt less_mult_imp_div_less)
  have lt: "?m < ?l \<longleftrightarrow> ?M < ?L" by (simp only: word_less_nat_alt c_fields)
  show ?thesis
  proof (cases "?M < ?L")
    case True
    then show ?thesis using lt by (simp add: ins_value_def Let_def)
  next
    case False
    then have le: "?l \<le> ?m" using lt by simp
    then have u: "unat (?m - ?l) = ?M - ?L" by (simp add: unat_sub c_fields)
    with M have u1: "unat (?m - ?l + 1) = ?M - ?L + 1" by (simp add: unat_word_ariths)
    let ?w = "?M - ?L + 1"
    have "(if ?m - ?l + 1 = 32 then 0xFFFFFFFF else push_bit (unat (?m - ?l + 1) mod 32) 1 - 1) = (mask ?w :: u32)"
      using M by (intro width_mask_word(2) u1) simp
    then have "ins_value a b c = Inr ((a AND NOT (push_bit ?L (mask ?w))) OR (push_bit ?L b AND push_bit ?L (mask ?w)))"
      using lt False by (simp only: ins_value_def Let_def c_fields if_False)
    then show ?thesis
      using False M by (auto simp: bit_simps)
  qed
qed

theorem ins_value_correct_witness:
  "\<exists>v. ins_value 0 0xFF 0x164 = Inr v \<and>
       (\<forall>i<32. bit v i \<longleftrightarrow>
          (if unat (0x164::u32) mod 32 \<le> i \<and> i \<le> unat (0x164::u32) div 32
           then bit (0xFF::u32) (i - unat (0x164::u32) mod 32) else bit (0::u32) i))"
proof -
  have "\<not> unat (0x164::u32) div 32 < unat (0x164::u32) mod 32" "(0x164::u32) < 1024" by simp_all
  from ins_value_correct [OF this(2), of 0 "0xFF"] this(1) show ?thesis by (simp only: if_False)
qed

section \<open>Sign extension, byte swap and multiply-accumulate\<close>

text \<open>C23: \<open>MADD\<close>, \<open>MADDU\<close>, \<open>MSUB\<close> and \<open>MSUBU\<close> add or subtract the full signed or unsigned product to the
  64-bit accumulator \<open>HI:LO\<close>, modulo 2^64.\<close>

theorem madd_value_correct:
  "uint (madd_value op hi lo b c) =
     (if op = Op_MADDU then (uint hi * 2 ^ 32 + uint lo + uint b * uint c) mod 2 ^ 64
      else if op = Op_MSUBU then (uint hi * 2 ^ 32 + uint lo - uint b * uint c) mod 2 ^ 64
      else if op = Op_MADD then (uint hi * 2 ^ 32 + uint lo + sint b * sint c) mod 2 ^ 64
      else (uint hi * 2 ^ 32 + uint lo - sint b * sint c) mod 2 ^ 64)"
proof -
  have acc: "acc_word hi lo = word_of_int (uint hi * 2 ^ 32 + uint lo)"
  proof -
    have "push_bit 32 (word_of_int (uint hi) :: u64) = word_of_int (uint hi * 2 ^ 32)"
      by (simp add: push_bit_eq_mult)
    then show ?thesis by (simp only: acc_word_def ucast_eq of_int_add)
  qed
  have u: "(ucast b * ucast c :: u64) = word_of_int (uint b * uint c)" by (simp only: ucast_eq of_int_mult)
  have s: "(scast b * scast c :: u64) = word_of_int (sint b * sint c)" by (simp only: scast_eq of_int_mult)
  have "uint (word_of_int k :: u64) = k mod 2 ^ 64" for k
    by (simp only: unsigned_of_int take_bit_eq_mod) simp
  then show ?thesis
    unfolding madd_value_def acc u s
    by (simp only: of_int_add [symmetric] of_int_diff [symmetric] if_distrib [of uint] add.commute)
qed

lemma sint_scast_up:
  "sint (scast (x :: u8) :: u32) = sint x" "sint (scast (y :: u16) :: u32) = sint y"
proof -
  have "signed_take_bit 31 (sint x) = sint x"
    using sint_ge [of x] sint_lt [of x] by (intro signed_take_bit_int_eq_self) auto
  then show "sint (scast x :: u32) = sint x" by (simp only: signed_scast_eq) simp
  have "signed_take_bit 31 (sint y) = sint y"
    using sint_ge [of y] sint_lt [of y] by (intro signed_take_bit_int_eq_self) auto
  then show "sint (scast y :: u32) = sint y" by (simp only: signed_scast_eq) simp
qed

lemma wsbh_bytes: "map (byte_at (wsbh_value b)) [0, 1, 2, 3] = map (byte_at b) [1, 0, 3, 2]"
  by (simp add: u8_eq_iff_bits byte_at_def wsbh_value_def and_0xff bit_simps bit_beyond)

text \<open>C24: \<open>SEB\<close> and \<open>SEH\<close> sign-extend the low byte and the low half-word, and \<open>WSBH\<close> swaps the bytes of each
  half-word.\<close>

theorem sext_wsbh_correct:
  "sint (sext_value b c) = (if c = 0 then sint (byte_at b 0) else sint (half_at b 0)) \<and>
   map (byte_at (wsbh_value b)) [0, 1, 2, 3] = map (byte_at b) [1, 0, 3, 2]"
proof
  have "(ucast (b AND 0xff) :: u8) = byte_at b 0" "(ucast (b AND 0xffff) :: u16) = half_at b 0"
    by (rule bit_word_eqI, simp add: byte_at_def half_at_def and_0xff and_0xffff bit_simps)+
  then show "sint (sext_value b c) = (if c = 0 then sint (byte_at b 0) else sint (half_at b 0))"
    by (simp_all add: sext_value_def sint_scast_up word_neq_0_conv)
qed (rule wsbh_bytes)

end
