(* ===== verification/Dependencies.thy ===== *)
theory Dependencies
  imports Load_Store
begin

text \<open>
  Events an instruction sends to other chips (\<^verbatim>\<open>crates/core/executor/src/dependencies.rs\<close>): a division
  sends its product and its comparison, a load the address computation, and so on. The functions append
  to the execution record; the \<open>assert_eq!\<close>s of \<open>EXT\<close> and \<open>INS\<close> are panics.

  The lemmas show that each emitted event is valid (its result is what the ALU computes from its operands)
  and that the assertions hold.
\<close>

unbundle bit_operations_syntax

definition DEFAULT_PC_INC :: u32 where "DEFAULT_PC_INC = 4"
definition UNUSED_PC :: u32 where "UNUSED_PC = 1"

definition dep_event :: "opcode \<Rightarrow> u32 \<Rightarrow> u32 \<Rightarrow> u32 \<Rightarrow> alu_event" where
  "dep_event op a b c =
     \<lparr>alu_pc = UNUSED_PC, alu_next_pc = UNUSED_PC + DEFAULT_PC_INC, alu_opcode = op, alu_hi = 0,
      alu_a = a, alu_b = b, alu_c = c\<rparr>"

definition dep_comp_event :: "opcode \<Rightarrow> u32 \<Rightarrow> u32 \<Rightarrow> u32 \<Rightarrow> u32 \<Rightarrow> comp_alu_event" where
  "dep_comp_event op hi a b c =
     \<lparr>calu_shard = 0, calu_clk = 0, calu_pc = UNUSED_PC, calu_next_pc = UNUSED_PC + DEFAULT_PC_INC,
      calu_opcode = op, calu_hi = hi, calu_a = a, calu_b = b, calu_c = c,
      calu_hi_record = default_write_record, calu_hi_record_is_real = False\<rparr>"

section \<open>Appending to the record\<close>

definition push_add_sub :: "alu_event \<Rightarrow> execution_record \<Rightarrow> execution_record" where
  "push_add_sub e r = r\<lparr>er_add_sub_events := er_add_sub_events r @ [e]\<rparr>"

definition push_mul :: "comp_alu_event \<Rightarrow> execution_record \<Rightarrow> execution_record" where
  "push_mul e r = r\<lparr>er_mul_events := er_mul_events r @ [e]\<rparr>"

definition push_bitwise :: "alu_event \<Rightarrow> execution_record \<Rightarrow> execution_record" where
  "push_bitwise e r = r\<lparr>er_bitwise_events := er_bitwise_events r @ [e]\<rparr>"

definition push_shift_left :: "alu_event \<Rightarrow> execution_record \<Rightarrow> execution_record" where
  "push_shift_left e r = r\<lparr>er_shift_left_events := er_shift_left_events r @ [e]\<rparr>"

definition push_shift_right :: "alu_event \<Rightarrow> execution_record \<Rightarrow> execution_record" where
  "push_shift_right e r = r\<lparr>er_shift_right_events := er_shift_right_events r @ [e]\<rparr>"

definition push_divrem :: "comp_alu_event \<Rightarrow> execution_record \<Rightarrow> execution_record" where
  "push_divrem e r = r\<lparr>er_divrem_events := er_divrem_events r @ [e]\<rparr>"

definition push_lt :: "alu_event \<Rightarrow> execution_record \<Rightarrow> execution_record" where
  "push_lt e r = r\<lparr>er_lt_events := er_lt_events r @ [e]\<rparr>"

definition push_cloclz :: "alu_event \<Rightarrow> execution_record \<Rightarrow> execution_record" where
  "push_cloclz e r = r\<lparr>er_cloclz_events := er_cloclz_events r @ [e]\<rparr>"

section \<open>Dependencies\<close>

type_synonym record_step = "execution_record \<Rightarrow> (execution_error, execution_record) outcome"

definition emit_divrem_dependencies :: "alu_event \<Rightarrow> execution_record \<Rightarrow> execution_record" where
  "emit_divrem_dependencies e r =
     (let b = alu_b e; c = alu_c e; op = alu_opcode e;
          (quotient, remainder) = get_quotient_and_remainder b c op;
          signed = is_signed_operation op;
          c_neg = (if signed then get_msb c else 0);
          rem_neg = (if signed then get_msb remainder else 0);
          r = (if c_neg = 1 then push_add_sub (dep_event Op_ADD 0 c (unsigned_abs c)) r else r);
          r = (if rem_neg = 1 then push_add_sub (dep_event Op_ADD 0 remainder (unsigned_abs remainder)) r else r);
          c_times_quotient = (if signed then (scast quotient :: u64) * scast c else ucast quotient * ucast c);
          r = push_mul (dep_comp_event (if signed then Op_MULT else Op_MULTU) (hi_word c_times_quotient)
                          (lo_word c_times_quotient) quotient c) r;
          lt_event = (if signed then dep_event Op_SLTU 1 (unsigned_abs remainder) (max 1 (unsigned_abs c))
                      else dep_event Op_SLTU 1 remainder (max 1 c))
      in if c \<noteq> 0 then push_lt lt_event r else r)"

definition emit_cloclz_dependencies :: "alu_event \<Rightarrow> execution_record \<Rightarrow> execution_record" where
  "emit_cloclz_dependencies e r =
     (let b = (if alu_opcode e = Op_CLZ then alu_b e else NOT (alu_b e)) in
      if b \<noteq> 0
      then push_shift_right (dep_event Op_SRL (drop_bit (shamt (31 - alu_a e)) b) b (31 - alu_a e)) r
      else r)"

definition emit_memory_dependencies :: "mem_instr_event \<Rightarrow> memory_record \<Rightarrow> execution_record \<Rightarrow> execution_record" where
  "emit_memory_dependencies e mrec r =
     (let memory_addr = mem_b e + mem_c e;
          r = push_add_sub (dep_event Op_ADD memory_addr (mem_b e) (mem_c e)) r;
          addr_offset = unat (memory_addr mod 4);
          mem_value = rec_value mrec
      in if mem_opcode e = Op_LB then
           let byte = byte_at mem_value addr_offset in
           if drop_bit 7 byte AND 1 = 1
           then push_add_sub (dep_event Op_SUB (mem_a e) (ucast byte) 256) r else r
         else if mem_opcode e = Op_LH then
           let half = (if (addr_offset div 2) mod 2 = 0 then mem_value AND 0x0000FFFF
                       else drop_bit 16 (mem_value AND 0xFFFF0000));
               byte = byte_at half 1
           in if drop_bit 7 byte AND 1 = 1
              then push_add_sub (dep_event Op_SUB (mem_a e) half 65536) r else r
         else r)"

definition emit_branch_dependencies :: "branch_event \<Rightarrow> record_step" where
  "emit_branch_dependencies e r =
     (let a_eq_b = (br_a e = br_b e); a_lt_b = (sint (br_a e) < sint (br_b e));
          a_gt_b = (sint (br_a e) > sint (br_b e));
          r = push_lt (dep_event Op_SLT (of_bool a_lt_b) (br_a e) (br_b e)) r;
          r = push_lt (dep_event Op_SLT (of_bool a_gt_b) (br_b e) (br_a e)) r;
          op = br_opcode e;
          jump = push_add_sub (dep_event Op_ADD (br_next_next_pc e) (br_next_pc e) (br_c e)) r;
          emit = (\<lambda>branching. Inr (if branching then jump else r))
      in if op = Op_BEQ then emit a_eq_b
         else if op = Op_BNE then emit (\<not> a_eq_b)
         else if op = Op_BLTZ then emit a_lt_b
         else if op = Op_BLEZ then emit (a_lt_b \<or> a_eq_b)
         else if op = Op_BGTZ then emit a_gt_b
         else if op = Op_BGEZ then emit (a_eq_b \<or> a_gt_b)
         else Inl (Panic Unreachable))"

definition emit_jump_dependencies :: "jump_event \<Rightarrow> record_step" where
  "emit_jump_dependencies e r =
     (if jmp_opcode e = Op_JumpDirect then
        Inr (push_add_sub (dep_event Op_ADD (jmp_next_pc e + jmp_b e) (jmp_next_pc e) (jmp_b e)) r)
      else if jmp_opcode e = Op_Jump \<or> jmp_opcode e = Op_Jumpi then Inr r
      else Inl (Panic Unreachable))"

text \<open>Shift amounts are masked to five bits, as in the release profile; \<open>EXT\<close> and \<open>INS\<close> events have their
  field positions checked by \<open>execute_ext\<close> and \<open>execute_ins\<close>.\<close>

definition rotate_right :: "u32 \<Rightarrow> u32 \<Rightarrow> u32" where
  "rotate_right x n = word_rotr (unat n) x"

definition emit_misc_dependencies :: "misc_event \<Rightarrow> record_step" where
  "emit_misc_dependencies e r =
     (let op = misc_opcode e; a = misc_a e; b = misc_b e; c = misc_c e; prev_a = misc_prev_a e in
      if op = Op_MADDU \<or> op = Op_MSUBU then
        let multiply = (ucast b :: u64) * ucast c in
        Inr (push_mul (dep_comp_event Op_MULTU (hi_word multiply) (lo_word multiply) b c) r)
      else if op = Op_MADD \<or> op = Op_MSUB then
        let multiply = (scast b :: u64) * scast c in
        Inr (push_mul (dep_comp_event Op_MULT (hi_word multiply) (lo_word multiply) b c) r)
      else if op = Op_EXT then
        let lsb = c AND 0x1f; msbd = drop_bit 5 c;
            sll_val = push_bit (shamt (31 - lsb - msbd)) b;
            r = push_shift_left (dep_event Op_SLL sll_val b (31 - lsb - msbd)) r
        in if a = drop_bit (shamt (31 - msbd)) sll_val
           then Inr (push_shift_right (dep_event Op_SRL a sll_val (31 - msbd)) r)
           else Inl (Panic ExplicitPanic)
      else if op = Op_INS then
        let lsb = c AND 0x1f; msb = drop_bit 5 c;
            ror_val = rotate_right prev_a lsb;
            r = push_shift_right (dep_event Op_ROR ror_val prev_a lsb) r;
            srl1_val = drop_bit 1 ror_val;
            r = push_shift_right (dep_event Op_SRL srl1_val ror_val 1) r;
            srl_val = drop_bit (shamt (msb - lsb)) srl1_val;
            r = push_shift_right (dep_event Op_SRL srl_val srl1_val (msb - lsb)) r;
            sll_val = push_bit (shamt (31 - msb + lsb)) b;
            r = push_shift_left (dep_event Op_SLL sll_val b (31 - msb + lsb)) r;
            extra_shift = srl_val + sll_val;
            r = push_add_sub (dep_event Op_ADD extra_shift srl_val sll_val) r
        in if a = rotate_right extra_shift (31 - msb)
           then Inr (push_shift_right (dep_event Op_ROR a extra_shift (31 - msb)) r)
           else Inl (Panic ExplicitPanic)
      else Inr r)"

section \<open>Valid events\<close>

definition valid_alu :: "alu_event \<Rightarrow> bool" where
  "valid_alu e \<longleftrightarrow> alu_op (alu_opcode e) (alu_b e) (alu_c e) = Inr (alu_a e, alu_hi e)"

definition valid_comp_alu :: "comp_alu_event \<Rightarrow> bool" where
  "valid_comp_alu e \<longleftrightarrow> alu_op (calu_opcode e) (calu_b e) (calu_c e) = Inr (calu_a e, calu_hi e)"

text \<open>The events each table may hold.\<close>

definition valid_record :: "execution_record \<Rightarrow> bool" where
  "valid_record r \<longleftrightarrow>
     (\<forall>e\<in>set (er_add_sub_events r). valid_alu e \<and> alu_opcode e \<in> {Op_ADD, Op_SUB}) \<and>
     (\<forall>e\<in>set (er_mul_events r). valid_comp_alu e \<and> calu_opcode e \<in> {Op_MUL, Op_MULT, Op_MULTU}) \<and>
     (\<forall>e\<in>set (er_bitwise_events r). valid_alu e \<and> alu_opcode e \<in> {Op_XOR, Op_OR, Op_AND, Op_NOR}) \<and>
     (\<forall>e\<in>set (er_shift_left_events r). valid_alu e \<and> alu_opcode e = Op_SLL) \<and>
     (\<forall>e\<in>set (er_shift_right_events r). valid_alu e \<and> alu_opcode e \<in> {Op_SRL, Op_SRA, Op_ROR}) \<and>
     (\<forall>e\<in>set (er_divrem_events r). valid_comp_alu e \<and> calu_opcode e \<in> {Op_DIV, Op_DIVU, Op_MOD, Op_MODU}) \<and>
     (\<forall>e\<in>set (er_lt_events r). valid_alu e \<and> alu_opcode e \<in> {Op_SLT, Op_SLTU}) \<and>
     (\<forall>e\<in>set (er_cloclz_events r). valid_alu e \<and> alu_opcode e \<in> {Op_CLZ, Op_CLO})"

lemmas push_defs = push_add_sub_def push_mul_def push_bitwise_def push_shift_left_def
  push_shift_right_def push_divrem_def push_lt_def push_cloclz_def

lemma valid_push [simp, intro]:
  "valid_record r \<Longrightarrow> valid_alu e \<Longrightarrow> alu_opcode e \<in> {Op_ADD, Op_SUB} \<Longrightarrow> valid_record (push_add_sub e r)"
  "valid_record r \<Longrightarrow> valid_comp_alu e' \<Longrightarrow> calu_opcode e' \<in> {Op_MUL, Op_MULT, Op_MULTU} \<Longrightarrow> valid_record (push_mul e' r)"
  "valid_record r \<Longrightarrow> valid_alu e \<Longrightarrow> alu_opcode e \<in> {Op_XOR, Op_OR, Op_AND, Op_NOR} \<Longrightarrow> valid_record (push_bitwise e r)"
  "valid_record r \<Longrightarrow> valid_alu e \<Longrightarrow> alu_opcode e = Op_SLL \<Longrightarrow> valid_record (push_shift_left e r)"
  "valid_record r \<Longrightarrow> valid_alu e \<Longrightarrow> alu_opcode e \<in> {Op_SRL, Op_SRA, Op_ROR} \<Longrightarrow> valid_record (push_shift_right e r)"
  "valid_record r \<Longrightarrow> valid_comp_alu e' \<Longrightarrow> calu_opcode e' \<in> {Op_DIV, Op_DIVU, Op_MOD, Op_MODU} \<Longrightarrow> valid_record (push_divrem e' r)"
  "valid_record r \<Longrightarrow> valid_alu e \<Longrightarrow> alu_opcode e \<in> {Op_SLT, Op_SLTU} \<Longrightarrow> valid_record (push_lt e r)"
  "valid_record r \<Longrightarrow> valid_alu e \<Longrightarrow> alu_opcode e \<in> {Op_CLZ, Op_CLO} \<Longrightarrow> valid_record (push_cloclz e r)"
  unfolding valid_record_def push_defs by simp_all

lemma valid_dep_event [simp]:
  "valid_alu (dep_event op a b c) \<longleftrightarrow> alu_op op b c = Inr (a, 0)"
  "valid_comp_alu (dep_comp_event op hi a b c) \<longleftrightarrow> alu_op op b c = Inr (a, hi)"
  "alu_opcode (dep_event op a b c) = op" "calu_opcode (dep_comp_event op hi a b c) = op"
  by (simp_all add: valid_alu_def valid_comp_alu_def dep_event_def dep_comp_event_def)

lemma alu_op_simps:
  "alu_op Op_ADD b c = Inr (b + c, 0)" "alu_op Op_SUB b c = Inr (b - c, 0)"
  "alu_op Op_SLL b c = Inr (push_bit (shamt c) b, 0)" "alu_op Op_SRL b c = Inr (drop_bit (shamt c) b, 0)"
  "alu_op Op_ROR b c = Inr (ror_u32 b (shamt c), 0)"
  "alu_op Op_SLT b c = Inr (of_bool (sint b < sint c), 0)"
  "alu_op Op_SLTU b c = Inr (of_bool (b < c), 0)"
  "alu_op Op_MULT b c = Inr (lo_word (scast b * scast c), hi_word (scast b * scast c))"
  "alu_op Op_MULTU b c = Inr (lo_word (ucast b * ucast c), hi_word (ucast b * ucast c))"
  by (simp_all add: alu_op_def alu_result_def ror_u32_def Let_def)


lemma sint_sign:
  "sint (x :: u32) = uint x - (if sint x < 0 then 2 ^ 32 else 0)"
  "sint (y :: u16) = uint y - (if bit y 15 then 2 ^ 16 else 0)"
  "sint (z :: u8) = uint z - (if bit z 7 then 2 ^ 8 else 0)"
proof -
  have "sint x < 0 \<longleftrightarrow> bit x 31" by (simp add: bit_last_iff [symmetric])
  then show "sint (x :: u32) = uint x - (if sint x < 0 then 2 ^ 32 else 0)"
    using signed_take_bit_eq_take_bit_minus [of 31 "uint x"] uint_lt2p [of x]
    by (simp add: sint_uint bit_uint_iff take_bit_int_eq_self)
  show "sint (y :: u16) = uint y - (if bit y 15 then 2 ^ 16 else 0)"
    using signed_take_bit_eq_take_bit_minus [of 15 "uint y"] uint_lt2p [of y]
    by (simp add: sint_uint bit_uint_iff take_bit_int_eq_self)
  show "sint (z :: u8) = uint z - (if bit z 7 then 2 ^ 8 else 0)"
    using signed_take_bit_eq_take_bit_minus [of 7 "uint z"] uint_lt2p [of z]
    by (simp add: sint_uint bit_uint_iff take_bit_int_eq_self)
qed

lemma msb_neg: "get_msb x = 1 \<longleftrightarrow> sint x < 0"
proof -
  have "get_msb x = (if bit x 31 then 1 else 0)"
    by (auto simp: get_msb_def u8_eq_iff_bits bit_simps)
  moreover have "sint x < 0 \<longleftrightarrow> bit x 31" by (simp add: bit_last_iff [symmetric])
  ultimately show ?thesis by simp
qed

lemma uint_unsigned_abs: "uint (unsigned_abs x) = \<bar>sint x\<bar>"
proof (cases "sint x < 0")
  case True
  have "take_bit 32 (- sint x) = - sint x"
    using True sint_ge [of x] by (intro take_bit_int_eq_self) simp_all
  then have "uint (word_of_int (- sint x) :: u32) = - sint x"
    using True by (simp only: unsigned_of_int) simp
  then show ?thesis using True by (simp add: unsigned_abs_def)
next
  case False
  then show ?thesis using sint_sign(1) [of x] by (simp add: unsigned_abs_def)
qed

lemma unsigned_abs_0 [simp]: "unsigned_abs 0 = 0"
  by (simp add: unsigned_abs_def)

lemma emit_divrem_valid: "valid_record r \<Longrightarrow> valid_record (emit_divrem_dependencies e r)"
proof -
  assume r: "valid_record r"
  obtain q m where qm: "get_quotient_and_remainder (alu_b e) (alu_c e) (alu_opcode e) = (q, m)" by fastforce
  let ?c = "alu_c e"
  have abs: "x + unsigned_abs x = 0" if "get_msb x = 1" for x
    using that by (simp add: msb_neg unsigned_abs_def)
  have lt: "m < max 1 ?c" if "?c \<noteq> 0" "\<not> is_signed_operation (alu_opcode e)"
  proof -
    have "m = alu_b e mod ?c" using qm that by (simp add: get_quotient_and_remainder_def)
    then have "m < ?c" using divu_correct [OF that(1), of "alu_b e"] by (simp add: word_less_def)
    then show ?thesis by (simp add: less_max_iff_disj)
  qed
  have slt: "unsigned_abs m < max 1 (unsigned_abs ?c)" if "?c \<noteq> 0" "is_signed_operation (alu_opcode e)"
  proof -
    have "m = i32_rem (alu_b e) ?c" using qm that by (simp add: get_quotient_and_remainder_def)
    moreover have "\<bar>sint (alu_b e) smod sint ?c\<bar> < \<bar>sint ?c\<bar>"
      using that by (intro smod_facts) (simp add: signed_eq_0_iff)
    ultimately have "unsigned_abs m < unsigned_abs ?c"
      using that by (simp add: word_less_def uint_unsigned_abs sint_i32_rem)
    then show ?thesis by (simp add: less_max_iff_disj)
  qed
  show ?thesis
    using r lt slt unfolding emit_divrem_dependencies_def Let_def qm prod.case
    by (auto simp: alu_op_simps abs intro!: valid_push)
qed

lemma emit_cloclz_valid: "valid_record r \<Longrightarrow> valid_record (emit_cloclz_dependencies e r)"
  by (auto simp: emit_cloclz_dependencies_def Let_def alu_op_simps)

lemma emit_jump_valid: "valid_record r \<Longrightarrow> emit_jump_dependencies e r = Inr r' \<Longrightarrow> valid_record r'"
  by (auto simp: emit_jump_dependencies_def alu_op_simps split: if_splits)

lemma emit_branch_valid:
  assumes "valid_record r" and "emit_branch_dependencies e r = Inr r'"
    and "branch_taken (br_opcode e) (br_a e) (br_b e) = Inr True \<Longrightarrow> br_next_next_pc e = br_next_pc e + br_c e"
    and "br_opcode e \<notin> {Op_BEQ, Op_BNE} \<Longrightarrow> br_b e = 0"
  shows "valid_record r'"
  using assms
  by (auto simp: emit_branch_dependencies_def Let_def branch_taken_def alu_op_simps split: if_splits)


subsection \<open>Signed loads\<close>

lemma msb_byte: "drop_bit 7 x AND 1 = 1 \<longleftrightarrow> bit x 7" for x :: u8
  by (simp add: u8_eq_iff_bits bit_simps)

lemma scast_neg_byte: "bit x 7 \<Longrightarrow> (scast (x :: u8) :: u32) = ucast x - 256"
proof -
  assume "bit x 7"
  then have "sint x = uint x - 256" using sint_sign(3) [of x] by simp
  then show ?thesis by (simp only: scast_eq ucast_eq of_int_diff) simp
qed

lemma scast_neg_half: "bit x 15 \<Longrightarrow> (scast (x :: u16) :: u32) = ucast x - 65536"
proof -
  assume "bit x 15"
  then have "sint x = uint x - 65536" using sint_sign(2) [of x] by simp
  then show ?thesis by (simp only: scast_eq ucast_eq of_int_diff) simp
qed

lemma unat_mod_4: "unat (addr mod 4) = offset addr" for addr :: u32
  by (simp add: offset_eq unat_mod)

lemma offset_cases: "offset addr = 0 \<or> offset addr = 1 \<or> offset addr = 2 \<or> offset addr = 3"
  using offset_less [of addr] by linarith

lemma half_select:
  fixes m :: u32
  assumes "even (offset addr)"
  shows "(if (offset addr div 2) mod 2 = 0 then m AND 0x0000FFFF else drop_bit 16 (m AND 0xFFFF0000)) =
         ucast (half_at m (offset addr))"
proof -
  have "offset addr = 0 \<or> offset addr = 2" using offset_cases [of addr] assms by auto
  then show ?thesis
    by (elim disjE; simp only: half_at_def u32_eq_iff_bits)
      (simp_all add: bit_simps numeral_2_eq_2)
qed

lemma emit_memory_valid:
  assumes "valid_record r"
    and "mem_opcode e \<in> {Op_LB, Op_LH} \<Longrightarrow> load_value (mem_opcode e) (mem_b e + mem_c e) (rec_value m) rt = Inr (mem_a e)"
  shows "valid_record (emit_memory_dependencies e m r)"
proof -
  let ?addr = "mem_b e + mem_c e" and ?v = "rec_value m"
  have spec: "load_spec (mem_opcode e) (offset ?addr) ?v rt (mem_a e)" if "mem_opcode e \<in> {Op_LB, Op_LH}"
    using load_value_correct [OF assms(2) [OF that]] .
  have lb: "mem_a e = ucast (byte_at ?v (offset ?addr)) - 256"
    if "mem_opcode e = Op_LB" "bit (byte_at ?v (offset ?addr)) 7"
    using spec that by (simp add: load_spec_def scast_neg_byte)
  have lh: "even (offset ?addr)" if "mem_opcode e = Op_LH"
    using spec that by (simp add: load_spec_def)
  have lh': "mem_a e = ucast (half_at ?v (offset ?addr)) - 65536"
    if "mem_opcode e = Op_LH" "bit (half_at ?v (offset ?addr)) 15"
    using spec that by (simp add: load_spec_def scast_neg_half)
  have msb: "bit (byte_at (ucast h) (Suc 0)) 7 \<longleftrightarrow> bit h 15" for h :: u16
    by (simp add: byte_at_def bit_simps)
  show ?thesis
    using assms(1) lb lh lh'
    by (simp add: emit_memory_dependencies_def Let_def unat_mod_4 half_select msb msb_byte alu_op_simps)
qed


subsection \<open>Bit fields\<close>

lemma shamt_small: "unat n < 32 \<Longrightarrow> shamt n = unat n"
  by (simp add: shamt_eq)

lemma rotate_right_ror: "unat n < 32 \<Longrightarrow> rotate_right x n = ror_u32 x (shamt n)"
  by (rule bit_word_eqI) (simp add: rotate_right_def bit_ror_u32 shamt_small bit_word_rotr_iff)

lemma ext_shifts:
  fixes c :: u32
  assumes "unat c div 32 + unat c mod 32 < 32"
  shows "shamt (31 - (c AND 0x1f) - drop_bit 5 c) = 31 - (unat c div 32 + unat c mod 32)"
    and "shamt (31 - drop_bit 5 c) = 31 - unat c div 32"
proof -
  have "unat (31 - (c AND 0x1f)) = 31 - unat c mod 32"
    by (subst unat_sub) (use assms in \<open>simp_all add: word_le_nat_alt c_fields\<close>)
  then have "unat (31 - (c AND 0x1f) - drop_bit 5 c) = 31 - (unat c div 32 + unat c mod 32)"
    by (subst unat_sub) (use assms in \<open>simp_all add: word_le_nat_alt c_fields add.commute\<close>)
  then show "shamt (31 - (c AND 0x1f) - drop_bit 5 c) = 31 - (unat c div 32 + unat c mod 32)"
    by (simp add: shamt_small)
  have "unat (31 - drop_bit 5 c) = 31 - unat c div 32"
    by (subst unat_sub) (use assms in \<open>simp_all add: word_le_nat_alt c_fields\<close>)
  then show "shamt (31 - drop_bit 5 c) = 31 - unat c div 32" by (simp add: shamt_small)
qed

lemma ext_field:
  fixes b :: u32
  assumes "M + L < 32"
  shows "take_bit (M + 1) (drop_bit L b) = drop_bit (31 - M) (push_bit (31 - (M + L)) b)"
proof (rule bit_word_eqI)
  fix i
  assume "i < LENGTH(32)"
  have "31 - M + i - (31 - (M + L)) = L + i" using assms by linarith
  moreover have "31 - (M + L) \<le> 31 - M + i" using assms by linarith
  moreover have "31 - M + i < 32 \<longleftrightarrow> i < M + 1" using assms by linarith
  ultimately show "bit (take_bit (M + 1) (drop_bit L b)) i = bit (drop_bit (31 - M) (push_bit (31 - (M + L)) b)) i"
    by (simp only: bit_take_bit_iff bit_drop_bit_eq bit_push_bit_iff o_apply) auto
qed

lemma ext_identity:
  assumes "ext_value b c = Inr a"
  shows "a = drop_bit (shamt (31 - drop_bit 5 c)) (push_bit (shamt (31 - (c AND 0x1f) - drop_bit 5 c)) b)"
proof -
  let ?M = "unat c div 32" and ?L = "unat c mod 32"
  have lt: "?M + ?L < 32" and a: "a = take_bit (?M + 1) (drop_bit ?L b)"
    using assms by (auto simp: ext_value_correct split: if_splits)
  show ?thesis
    unfolding a ext_shifts [OF lt] by (rule ext_field [OF lt])
qed

lemma ins_shifts:
  fixes c :: u32
  assumes "unat c mod 32 \<le> unat c div 32" "unat c div 32 < 32"
  shows "unat (drop_bit 5 c - (c AND 0x1f)) = unat c div 32 - unat c mod 32"
    and "unat (31 - drop_bit 5 c + (c AND 0x1f)) = 31 - unat c div 32 + unat c mod 32"
    and "unat (31 - drop_bit 5 c) = 31 - unat c div 32"
proof -
  show "unat (drop_bit 5 c - (c AND 0x1f)) = unat c div 32 - unat c mod 32"
    by (subst unat_sub) (use assms in \<open>simp_all add: word_le_nat_alt c_fields\<close>)
  show *: "unat (31 - drop_bit 5 c) = 31 - unat c div 32"
    by (subst unat_sub) (use assms in \<open>simp_all add: word_le_nat_alt c_fields\<close>)
  show "unat (31 - drop_bit 5 c + (c AND 0x1f)) = 31 - unat c div 32 + unat c mod 32"
    using assms by (simp add: unat_word_ariths * c_fields)
qed

definition ins_low :: "nat \<Rightarrow> nat \<Rightarrow> u32 \<Rightarrow> u32" where
  "ins_low M L x = drop_bit (M - L) (drop_bit 1 (ror_u32 x L))"

definition ins_high :: "nat \<Rightarrow> nat \<Rightarrow> u32 \<Rightarrow> u32" where
  "ins_high M L b = push_bit (31 - M + L) b"

lemma bit_ins_low:
  assumes "L \<le> M" "M < 32"
  shows "bit (ins_low M L x) j \<longleftrightarrow> j < 31 - M + L \<and> bit x ((j + M + 1) mod 32)"
proof (cases "j < 31 - M + L")
  case True
  with assms have "Suc (M - L + j) < 32" by linarith
  moreover have "(Suc (M - L + j) + L) mod 32 = (j + M + 1) mod 32"
    using assms by (intro arg_cong [of _ _ "\<lambda>n. n mod 32"]) linarith
  ultimately show ?thesis
    using True assms unfolding ins_low_def bit_drop_bit_eq o_apply
    by (subst bit_ror_u32) auto
next
  case False
  with assms have "32 \<le> Suc (M - L + j)" by linarith
  then show ?thesis using False by (simp add: ins_low_def bit_drop_bit_eq bit_beyond)
qed

lemma ins_sum: "L \<le> M \<Longrightarrow> M < 32 \<Longrightarrow> ins_low M L x + ins_high M L b = ins_low M L x OR ins_high M L b"
  by (rule disjunctive_add) (auto simp: bit_ins_low ins_high_def bit_push_bit_iff)

lemma bit_ins_high: "bit (ins_high M L b) j \<longleftrightarrow> 31 - M + L \<le> j \<and> j < 32 \<and> bit b (j - (31 - M + L))"
  by (auto simp: ins_high_def bit_push_bit_iff)

lemma ins_field:
  assumes "L \<le> M" "M < 32" "i < 32"
  shows "bit (ror_u32 (ins_low M L x + ins_high M L b) (31 - M)) i \<longleftrightarrow>
         (if L \<le> i \<and> i \<le> M then bit b (i - L) else bit x i)"
proof -
  let ?k = "(i + (31 - M)) mod 32"
  have k: "bit (ror_u32 (ins_low M L x + ins_high M L b) (31 - M)) i \<longleftrightarrow>
      ?k < 31 - M + L \<and> bit x ((?k + M + 1) mod 32) \<or> 31 - M + L \<le> ?k \<and> bit b (?k - (31 - M + L))"
    using assms
    by (subst bit_ror_u32; (simp only: ins_sum [OF assms(1,2)] bit_or_iff bit_ins_low [OF assms(1,2)] bit_ins_high)?) auto
  have idx: "?k = (if i \<le> M then i + (31 - M) else i - M - 1)"
    using assms by (cases "i \<le> M") (auto simp: mod_if)
  have "(?k + M + 1) mod 32 = i" using assms unfolding idx by (cases "i \<le> M") (auto simp: mod_if)
  moreover have "31 - M + L \<le> ?k \<longleftrightarrow> L \<le> i \<and> i \<le> M" using assms unfolding idx by auto
  moreover have "?k - (31 - M + L) = i - L" if "L \<le> i \<and> i \<le> M" using that assms unfolding idx by auto
  ultimately show ?thesis using k by auto
qed


text \<open>The rotations of \<open>INS\<close> in the event reassemble the result of the instruction.\<close>

lemma ins_identity:
  assumes "ins_value x b c = Inr a" "c < 1024"
  shows "unat c mod 32 \<le> unat c div 32 \<and> unat c div 32 < 32 \<and>
         a = ror_u32 (ins_low (unat c div 32) (unat c mod 32) x + ins_high (unat c div 32) (unat c mod 32) b)
               (31 - unat c div 32)"
proof -
  let ?M = "unat c div 32" and ?L = "unat c mod 32"
  have M: "?M < 32" using assms(2) by (simp add: word_less_nat_alt less_mult_imp_div_less)
  have le: "?L \<le> ?M" and bits: "\<forall>i<32. bit a i \<longleftrightarrow> (if ?L \<le> i \<and> i \<le> ?M then bit b (i - ?L) else bit x i)"
    using ins_value_correct [OF assms(2), of x b] assms(1) by (auto split: if_splits)
  have "a = ror_u32 (ins_low ?M ?L x + ins_high ?M ?L b) (31 - ?M)"
    using bits by (intro bit_word_eqI) (simp add: ins_field [OF le M])
  with le M show ?thesis by simp
qed

lemma emit_misc_valid:
  assumes "misc_opcode e = Op_EXT \<Longrightarrow> ext_value (misc_b e) (misc_c e) = Inr (misc_a e)"
    and "misc_opcode e = Op_INS \<Longrightarrow> ins_value (misc_prev_a e) (misc_b e) (misc_c e) = Inr (misc_a e) \<and> misc_c e < 1024"
  shows "\<exists>r'. emit_misc_dependencies e r = Inr r' \<and> (valid_record r \<longrightarrow> valid_record r')"
proof -
  consider (ext) "misc_opcode e = Op_EXT" | (ins) "misc_opcode e = Op_INS"
    | (other) "misc_opcode e \<noteq> Op_EXT" "misc_opcode e \<noteq> Op_INS" by blast
  then show ?thesis
  proof cases
    case ext
    show ?thesis
      using ext ext_identity [OF assms(1) [OF ext]]
      by (simp add: emit_misc_dependencies_def Let_def alu_op_simps)
  next
    case ins
    let ?c = "misc_c e"
    let ?M = "unat ?c div 32" and ?L = "unat ?c mod 32"
    have id: "?L \<le> ?M" "?M < 32"
        "misc_a e = ror_u32 (ins_low ?M ?L (misc_prev_a e) + ins_high ?M ?L (misc_b e)) (31 - ?M)"
      using ins_identity assms(2) [OF ins] by blast+
    note sh = ins_shifts [OF id(1,2)]
    have "rotate_right x (?c AND 0x1f) = ror_u32 x ?L" for x
      by (simp add: rotate_right_ror c_fields shamt_small)
    moreover have "rotate_right x (31 - drop_bit 5 ?c) = ror_u32 x (31 - ?M)" for x
      by (simp add: rotate_right_ror sh shamt_small)
    moreover have "shamt (31 - drop_bit 5 ?c + (?c AND 0x1f)) = 31 - ?M + ?L"
      using id by (simp add: shamt_small sh)
    moreover have "shamt (drop_bit 5 ?c - (?c AND 0x1f)) = ?M - ?L" "shamt (31 - drop_bit 5 ?c) = 31 - ?M"
      "shamt (?c AND 0x1f) = ?L" "shamt 1 = 1"
      using id by (simp_all add: shamt_small sh c_fields)
    ultimately show ?thesis
      using ins id(3)
      by (simp add: emit_misc_dependencies_def Let_def alu_op_simps ins_low_def ins_high_def)
  next
    case other
    then show ?thesis by (auto simp: emit_misc_dependencies_def Let_def alu_op_simps)
  qed
qed

end
