(* ===== verification/Memory_Access.thy ===== *)
theory Memory_Access
  imports Executor_State
begin

text \<open>
  Register and memory accesses of the executor (\<^verbatim>\<open>executor.rs\<close>, \<open>registers\<close> to \<open>rw_cpu\<close>). Every access
  updates the shard and timestamp of the cell; in addition it saves the previous state of the cell for
  the checkpoint and for the unconstrained block, initializes a vacant cell, and in trace mode records
  the first and last access of the shard.

  A location is a register number or a word number; \<open>page_access\<close> is the panic of the page index on an
  address beyond the table.
\<close>

unbundle bit_operations_syntax

section \<open>Locations\<close>

datatype mem_loc = LReg nat | LMem nat

primrec mem_at :: "'v memory \<Rightarrow> mem_loc \<Rightarrow> 'v option" where
  "mem_at m (LReg r) = registers m r"
| "mem_at m (LMem w) = page_table m w"

primrec mem_set :: "'v memory \<Rightarrow> mem_loc \<Rightarrow> 'v option \<Rightarrow> 'v memory" where
  "mem_set m (LReg r) v = m\<lparr>registers := (registers m)(r := v)\<rparr>"
| "mem_set m (LMem w) v = m\<lparr>page_table := (page_table m)(w := v)\<rparr>"

definition reg_loc :: "register \<Rightarrow> mem_loc" where
  "reg_loc r = LReg (unat (reg_index r))"

definition page_loc :: "u32 \<Rightarrow> mem_loc" where
  "page_loc addr = LMem (compress_addr addr)"

definition memory_loc :: "u32 \<Rightarrow> mem_loc" where
  "memory_loc addr = (if is_register_addr addr then LReg (unat addr) else page_loc addr)"

definition page_access :: "u32 \<Rightarrow> unit rt" where
  "page_access addr = (if valid_page addr then retM () else panicM IndexOutOfBounds)"

section \<open>Steps of an access\<close>

definition entry_or :: "'v memory \<Rightarrow> mem_loc \<Rightarrow> 'v \<Rightarrow> 'v memory" where
  "entry_or m loc v = (case mem_at m loc of Some _ \<Rightarrow> m | None \<Rightarrow> mem_set m loc (Some v))"

definition save_checkpoint :: "mem_loc \<Rightarrow> executor \<Rightarrow> executor" where
  "save_checkpoint loc s =
     s\<lparr>ex_memory_checkpoint := entry_or (ex_memory_checkpoint s) loc (mem_at (st_memory (ex_state s)) loc)\<rparr>"

definition save_diff :: "u32 \<Rightarrow> mem_loc \<Rightarrow> executor \<Rightarrow> executor" where
  "save_diff addr loc s =
     (case fk_memory_diff (ex_unconstrained_state s) addr of
        Some _ \<Rightarrow> s
      | None \<Rightarrow> s\<lparr>ex_unconstrained_state := (ex_unconstrained_state s)
                    \<lparr>fk_memory_diff := (fk_memory_diff (ex_unconstrained_state s))
                       (addr \<mapsto> mem_at (st_memory (ex_state s)) loc)\<rparr>\<rparr>)"

definition initial_value :: "mem_loc \<Rightarrow> executor \<Rightarrow> u32" where
  "initial_value loc s = (case mem_at (st_uninitialized_memory (ex_state s)) loc of None \<Rightarrow> 0 | Some v \<Rightarrow> v)"

definition put_cell :: "mem_loc \<Rightarrow> memory_record \<Rightarrow> executor \<Rightarrow> executor" where
  "put_cell loc r s = s\<lparr>ex_state := (ex_state s)\<lparr>st_memory := mem_set (st_memory (ex_state s)) loc (Some r)\<rparr>\<rparr>"

text \<open>Initialization of a vacant cell; \<open>uloc\<close> is where the code looks for its initial value.\<close>

definition open_cell :: "mem_loc \<Rightarrow> mem_loc \<Rightarrow> executor \<Rightarrow> memory_record \<times> executor" where
  "open_cell loc uloc s =
     (case mem_at (st_memory (ex_state s)) loc of
        Some r \<Rightarrow> (r, s)
      | None \<Rightarrow>
          (let v = initial_value uloc s;
               r = \<lparr>rec_shard = 0, rec_timestamp = 0, rec_value = v\<rparr>;
               s = s\<lparr>ex_uninitialized_memory_checkpoint :=
                       entry_or (ex_uninitialized_memory_checkpoint s) uloc (v \<noteq> 0)\<rparr>
           in (r, put_cell loc r s)))"

definition open_entry :: "bool \<Rightarrow> u32 \<Rightarrow> mem_loc \<Rightarrow> mem_loc \<Rightarrow> executor \<Rightarrow> memory_record \<times> executor" where
  "open_entry cp addr loc uloc s =
     (let s = (if cp then save_checkpoint loc s else s);
          s = (if ex_unconstrained s then save_diff addr loc s else s)
      in open_cell loc uloc s)"

definition checkpointing :: "executor \<Rightarrow> bool" where
  "checkpointing s \<longleftrightarrow> ex_executor_mode s = Checkpoint \<or> ex_unconstrained s"

type_synonym local_accesses = "u32 \<rightharpoonup> memory_local_event"

definition count_local_mem :: "bool \<Rightarrow> executor \<Rightarrow> executor" where
  "count_local_mem b s =
     (if \<not> ex_unconstrained s \<and> b
      then s\<lparr>ex_local_counts := (ex_local_counts s)\<lparr>lc_local_mem := lc_local_mem (ex_local_counts s) + 1\<rparr>\<rparr>
      else s)"

definition touch_local :: "u32 \<Rightarrow> memory_record \<Rightarrow> memory_record \<Rightarrow> local_accesses \<Rightarrow> local_accesses" where
  "touch_local addr prev cur m =
     m(addr \<mapsto> (case m addr of
                  Some e \<Rightarrow> e\<lparr>le_final_mem_access := cur\<rparr>
                | None \<Rightarrow> \<lparr>le_addr = addr, le_initial_mem_access = prev, le_final_mem_access = cur\<rparr>))"

text \<open>The optional map argument of the accesses is the local map of a system call; without it the
  executor's own map is updated.\<close>

definition trace_local ::
  "bool \<Rightarrow> u32 \<Rightarrow> memory_record \<Rightarrow> memory_record \<Rightarrow> local_accesses option \<Rightarrow> executor \<Rightarrow> local_accesses option \<times> executor" where
  "trace_local b addr prev cur lma s =
     (if \<not> b then (lma, s)
      else case lma of
             Some m \<Rightarrow> (Some (touch_local addr prev cur m), s)
           | None \<Rightarrow> (None, s\<lparr>ex_local_memory_access := touch_local addr prev cur (ex_local_memory_access s)\<rparr>))"

definition read_record_new :: "memory_record \<Rightarrow> memory_record \<Rightarrow> memory_read_record" where
  "read_record_new cur prev =
     \<lparr>rd_value = rec_value cur, rd_shard = rec_shard cur, rd_timestamp = rec_timestamp cur,
      rd_prev_shard = rec_shard prev, rd_prev_timestamp = rec_timestamp prev\<rparr>"

definition write_record_new :: "memory_record \<Rightarrow> memory_record \<Rightarrow> memory_write_record" where
  "write_record_new cur prev =
     \<lparr>wr_value = rec_value cur, wr_shard = rec_shard cur, wr_timestamp = rec_timestamp cur,
      wr_prev_value = rec_value prev, wr_prev_shard = rec_shard prev, wr_prev_timestamp = rec_timestamp prev\<rparr>"

section \<open>Peeks\<close>

definition peek :: "mem_loc \<Rightarrow> executor \<Rightarrow> u32 \<times> executor" where
  "peek loc s =
     (case mem_at (st_memory (ex_state s)) loc of None \<Rightarrow> 0 | Some r \<Rightarrow> rec_value r,
      if checkpointing s then save_checkpoint loc s else s)"

definition peek_register :: "register \<Rightarrow> u32 rt" where
  "peek_register r = (\<lambda>s. Inr (peek (reg_loc r) s))"

definition word :: "u32 \<Rightarrow> u32 rt" where
  "word addr = bindM (page_access addr) (\<lambda>_ s. Inr (peek (page_loc addr) s))"

definition byte :: "u32 \<Rightarrow> u8 rt" where
  "byte addr =
     bindM (word (addr - addr mod 4)) (\<lambda>w. retM (ucast (drop_bit (unat ((addr mod 4) * 8)) w)))"

fun peek_registers :: "nat list \<Rightarrow> (u32 list) rt" where
  "peek_registers [] = retM []"
| "peek_registers (i # is) =
     bindM (\<lambda>s. Inr (peek (LReg i) s)) (\<lambda>v. bindM (peek_registers is) (\<lambda>vs. retM (v # vs)))"

definition all_register_values :: "(u32 list) rt" where
  "all_register_values = peek_registers [0..<NUM_REGISTERS]"

section \<open>Traced accesses\<close>

definition timestamp :: "memory_access_position \<Rightarrow> u32 rt" where
  "timestamp p = getM (\<lambda>s. st_clk (ex_state s) + position_offset p)"

definition current_shard :: "u32 rt" where
  "current_shard = getM (\<lambda>s. st_current_shard (ex_state s))"

definition mr :: "u32 \<Rightarrow> u32 \<Rightarrow> u32 \<Rightarrow> local_accesses option \<Rightarrow> (memory_read_record \<times> local_accesses option) rt" where
  "mr addr shard ts lma =
     bindM (page_access addr) (\<lambda>_ s.
       let loc = page_loc addr;
           (prev, s) = open_entry (checkpointing s) addr loc loc s;
           s = count_local_mem (rec_shard prev \<noteq> shard \<or> lma \<noteq> None) s;
           cur = prev\<lparr>rec_shard := shard, rec_timestamp := ts\<rparr>;
           s = put_cell loc cur s;
           (lma, s) = trace_local (\<not> ex_unconstrained s \<and> ex_executor_mode s = Trace) addr prev cur lma s
       in Inr ((read_record_new cur prev, lma), s))"

definition rr :: "register \<Rightarrow> u32 \<Rightarrow> u32 \<Rightarrow> u32 rt" where
  "rr r shard ts = (\<lambda>s.
     let loc = reg_loc r;
         (prev, s) = open_entry (checkpointing s) (reg_index r) loc loc s;
         s = put_cell loc (prev\<lparr>rec_shard := shard, rec_timestamp := ts\<rparr>) s
     in Inr (rec_value prev, s))"

definition rr_traced ::
  "register \<Rightarrow> u32 \<Rightarrow> u32 \<Rightarrow> local_accesses option \<Rightarrow> (memory_read_record \<times> local_accesses option) rt" where
  "rr_traced r shard ts lma = (\<lambda>s.
     let loc = reg_loc r;
         (prev, s) = open_entry (checkpointing s) (reg_index r) loc loc s;
         cur = prev\<lparr>rec_shard := shard, rec_timestamp := ts\<rparr>;
         s = put_cell loc cur s;
         (lma, s) = trace_local (\<not> ex_unconstrained s \<and> ex_executor_mode s = Trace) (reg_index r) prev cur lma s
     in Inr ((read_record_new cur prev, lma), s))"

definition mw ::
  "u32 \<Rightarrow> u32 \<Rightarrow> u32 \<Rightarrow> u32 \<Rightarrow> local_accesses option \<Rightarrow> (memory_write_record \<times> local_accesses option) rt" where
  "mw addr value shard ts lma =
     bindM (page_access addr) (\<lambda>_ s.
       let loc = page_loc addr;
           (prev, s) = open_entry (checkpointing s) addr loc loc s;
           s = count_local_mem (rec_shard prev \<noteq> shard \<or> lma \<noteq> None) s;
           cur = \<lparr>rec_shard = shard, rec_timestamp = ts, rec_value = value\<rparr>;
           s = put_cell loc cur s;
           (lma, s) = trace_local (\<not> ex_unconstrained s \<and> ex_executor_mode s = Trace) addr prev cur lma s
       in Inr ((write_record_new cur prev, lma), s))"

text \<open>\<open>rw_cpu_traced\<close>, used by system calls, looks up the initial value of a vacant register in the page
  table of the uninitialized memory.\<close>

definition rw_cpu_traced ::
  "register \<Rightarrow> u32 \<Rightarrow> u32 \<Rightarrow> u32 \<Rightarrow> local_accesses option \<Rightarrow> (memory_write_record \<times> local_accesses option) rt" where
  "rw_cpu_traced r value shard ts lma = (\<lambda>s.
     let loc = reg_loc r; addr = reg_index r;
         (prev, s) = open_entry (checkpointing s) addr loc (page_loc addr) s;
         s = count_local_mem (rec_shard prev \<noteq> shard \<or> lma \<noteq> None) s;
         cur = \<lparr>rec_shard = shard, rec_timestamp = ts, rec_value = value\<rparr>;
         s = put_cell loc cur s;
         (lma, s) = trace_local (\<not> ex_unconstrained s \<and> ex_executor_mode s = Trace) addr prev cur lma s
     in Inr ((write_record_new cur prev, lma), s))"

definition rw_traced ::
  "register \<Rightarrow> u32 \<Rightarrow> u32 \<Rightarrow> u32 \<Rightarrow> local_accesses option \<Rightarrow> (memory_write_record \<times> local_accesses option) rt" where
  "rw_traced r value shard ts lma = (\<lambda>s.
     let loc = reg_loc r; addr = reg_index r;
         (prev, s) = open_entry (ex_unconstrained s) addr loc loc s;
         cur = \<lparr>rec_shard = shard, rec_timestamp = ts, rec_value = value\<rparr>;
         s = put_cell loc cur s;
         (lma, s) = trace_local (\<not> ex_unconstrained s) addr prev cur lma s
     in Inr ((write_record_new cur prev, lma), s))"

definition rw :: "register \<Rightarrow> u32 \<Rightarrow> u32 \<Rightarrow> u32 \<Rightarrow> unit rt" where
  "rw r value shard ts = (\<lambda>s.
     let loc = reg_loc r;
         (prev, s) = open_entry (checkpointing s) (reg_index r) loc loc s;
         s = put_cell loc \<lparr>rec_shard = shard, rec_timestamp = ts, rec_value = value\<rparr> s
     in Inr ((), s))"

section \<open>Accesses of an instruction\<close>

definition modAccesses :: "(memory_access_record \<Rightarrow> memory_access_record) \<Rightarrow> unit rt" where
  "modAccesses f = modM (\<lambda>s. s\<lparr>ex_memory_accesses := f (ex_memory_accesses s)\<rparr>)"

definition mr_cpu :: "u32 \<Rightarrow> u32 rt" where
  "mr_cpu addr =
     bindM current_shard (\<lambda>sh. bindM (timestamp PosMemory) (\<lambda>ts.
     bindM (mr addr sh ts None) (\<lambda>(r, _).
     bindM (getM ex_executor_mode) (\<lambda>mode.
     bindM (whenM (mode = Trace) (modAccesses (acc_memory_update (\<lambda>_. Some (Read r))))) (\<lambda>_.
     retM (rd_value r))))))"

definition rr_cpu :: "register \<Rightarrow> memory_access_position \<Rightarrow> u32 rt" where
  "rr_cpu r p =
     bindM (getM ex_executor_mode) (\<lambda>mode.
     bindM current_shard (\<lambda>sh. bindM (timestamp p) (\<lambda>ts.
     if mode = Trace then
       bindM (rr_traced r sh ts None) (\<lambda>(rc, _).
       bindM (getM ex_unconstrained) (\<lambda>u.
       bindM (if u then retM ()
              else case p of
                     PosA \<Rightarrow> modAccesses (acc_a_update (\<lambda>_. Some (Read rc)))
                   | PosB \<Rightarrow> modAccesses (acc_b_update (\<lambda>_. Some (Read rc)))
                   | PosC \<Rightarrow> modAccesses (acc_c_update (\<lambda>_. Some (Read rc)))
                   | _ \<Rightarrow> panicM Unreachable) (\<lambda>_.
       retM (rd_value rc))))
     else rr r sh ts)))"

definition mw_cpu :: "u32 \<Rightarrow> u32 \<Rightarrow> unit rt" where
  "mw_cpu addr value =
     bindM current_shard (\<lambda>sh. bindM (timestamp PosMemory) (\<lambda>ts.
     bindM (mw addr value sh ts None) (\<lambda>(r, _).
     bindM (getM ex_executor_mode) (\<lambda>mode.
     whenM (mode = Trace) (modAccesses (acc_memory_update (\<lambda>_. Some (Write r))))))))"

definition rw_cpu :: "register \<Rightarrow> u32 \<Rightarrow> memory_access_position \<Rightarrow> unit rt" where
  "rw_cpu r value p =
     (let value = (if r = R_ZERO then 0 else value) in
     bindM (getM ex_executor_mode) (\<lambda>mode.
     bindM current_shard (\<lambda>sh. bindM (timestamp p) (\<lambda>ts.
     if mode = Trace then
       bindM (rw_traced r value sh ts None) (\<lambda>(rc, _).
       bindM (getM ex_unconstrained) (\<lambda>u.
       if u then retM ()
       else case p of
              PosA \<Rightarrow> modAccesses (acc_a_update (\<lambda>_. Some (Write rc)))
            | PosHI \<Rightarrow> modAccesses (acc_hi_update (\<lambda>_. Some (Write rc)))
            | _ \<Rightarrow> panicM Unreachable))
     else rw r value sh ts))))"

end
