(* ===== verification/Syscall_Context.thy ===== *)
theory Syscall_Context
  imports Memory_Access
begin

text \<open>
  The context in which a system call runs (\<^verbatim>\<open>syscalls/context.rs\<close>) and the event it emits. The context
  owns the executor for the duration of the call; its accesses go to a map of their own, which
  \<open>postprocess\<close> turns into the local memory events of the precompile event.
\<close>

record syscall_context =
  sc_current_shard :: u32
  sc_clk :: u32
  sc_next_pc :: u32
  sc_exit_code :: u32
  sc_rt :: executor
  sc_local_memory_access :: local_accesses

type_synonym 'a sys = "(execution_error, syscall_context, 'a) exec"

definition context_new :: "executor \<Rightarrow> syscall_context" where
  "context_new s =
     \<lparr>sc_current_shard = st_current_shard (ex_state s), sc_clk = st_clk (ex_state s),
      sc_next_pc = st_pc (ex_state s) + 4, sc_exit_code = 0, sc_rt = s, sc_local_memory_access = Map.empty\<rparr>"

section \<open>Operations on the runtime\<close>

definition on_rt :: "'a rt \<Rightarrow> 'a sys" where
  "on_rt m = (\<lambda>c. case m (sc_rt c) of Inl e \<Rightarrow> Inl e | Inr (v, s) \<Rightarrow> Inr (v, c\<lparr>sc_rt := s\<rparr>))"

definition with_local ::
  "(u32 \<Rightarrow> u32 \<Rightarrow> local_accesses option \<Rightarrow> ('a \<times> local_accesses option) rt) \<Rightarrow> 'a sys" where
  "with_local m = (\<lambda>c.
     case m (sc_current_shard c) (sc_clk c) (Some (sc_local_memory_access c)) (sc_rt c) of
       Inl e \<Rightarrow> Inl e
     | Inr ((v, lma), s) \<Rightarrow>
         Inr (v, c\<lparr>sc_rt := s,
                   sc_local_memory_access := (case lma of None \<Rightarrow> sc_local_memory_access c | Some l \<Rightarrow> l)\<rparr>))"

definition ctx_mr :: "u32 \<Rightarrow> (memory_read_record \<times> u32) sys" where
  "ctx_mr addr = bindM (with_local (mr addr)) (\<lambda>r. retM (r, rd_value r))"

fun ctx_mr_words :: "u32 list \<Rightarrow> (memory_read_record list \<times> u32 list) sys" where
  "ctx_mr_words [] = retM ([], [])"
| "ctx_mr_words (a # as) =
     bindM (ctx_mr a) (\<lambda>(r, v). bindM (ctx_mr_words as) (\<lambda>(rs, vs). retM (r # rs, v # vs)))"

definition slice_addrs :: "u32 \<Rightarrow> nat \<Rightarrow> u32 list" where
  "slice_addrs addr len = map (\<lambda>i. addr + of_nat i * 4) [0..<len]"

definition ctx_mr_slice :: "u32 \<Rightarrow> nat \<Rightarrow> (memory_read_record list \<times> u32 list) sys" where
  "ctx_mr_slice addr len = ctx_mr_words (slice_addrs addr len)"

definition ctx_mw :: "u32 \<Rightarrow> u32 \<Rightarrow> memory_write_record sys" where
  "ctx_mw addr v = with_local (mw addr v)"

fun ctx_mw_words :: "(u32 \<times> u32) list \<Rightarrow> (memory_write_record list) sys" where
  "ctx_mw_words [] = retM []"
| "ctx_mw_words ((a, v) # avs) =
     bindM (ctx_mw a v) (\<lambda>r. bindM (ctx_mw_words avs) (\<lambda>rs. retM (r # rs)))"

definition ctx_mw_slice :: "u32 \<Rightarrow> u32 list \<Rightarrow> (memory_write_record list) sys" where
  "ctx_mw_slice addr vs = ctx_mw_words (zip (slice_addrs addr (length vs)) vs)"

definition ctx_rr_traced :: "register \<Rightarrow> (memory_read_record \<times> u32) sys" where
  "ctx_rr_traced r = bindM (with_local (rr_traced r)) (\<lambda>rc. retM (rc, rd_value rc))"

definition ctx_rw_traced :: "register \<Rightarrow> u32 \<Rightarrow> memory_write_record sys" where
  "ctx_rw_traced r v = with_local (rw_cpu_traced r v)"

definition register_unsafe :: "register \<Rightarrow> u32 sys" where
  "register_unsafe r = on_rt (peek_register r)"

definition byte_unsafe :: "u32 \<Rightarrow> u8 sys" where
  "byte_unsafe addr = on_rt (byte addr)"

definition word_unsafe :: "u32 \<Rightarrow> u32 sys" where
  "word_unsafe addr = on_rt (word addr)"

fun words_unsafe :: "u32 list \<Rightarrow> (u32 list) sys" where
  "words_unsafe [] = retM []"
| "words_unsafe (a # as) = bindM (word_unsafe a) (\<lambda>v. bindM (words_unsafe as) (\<lambda>vs. retM (v # vs)))"

definition slice_unsafe :: "u32 \<Rightarrow> nat \<Rightarrow> (u32 list) sys" where
  "slice_unsafe addr len = words_unsafe (slice_addrs addr len)"

fun bytes_unsafe :: "u32 list \<Rightarrow> (u8 list) sys" where
  "bytes_unsafe [] = retM []"
| "bytes_unsafe (a # as) = bindM (byte_unsafe a) (\<lambda>v. bindM (bytes_unsafe as) (\<lambda>vs. retM (v # vs)))"

definition set_next_pc :: "u32 \<Rightarrow> unit sys" where
  "set_next_pc pc = modM (\<lambda>c. c\<lparr>sc_next_pc := pc\<rparr>)"

definition set_exit_code :: "u32 \<Rightarrow> unit sys" where
  "set_exit_code ec = modM (\<lambda>c. c\<lparr>sc_exit_code := ec\<rparr>)"

section \<open>Local memory events\<close>

text \<open>Rust leaves the order of \<open>drain\<close> open; the model drains in ascending order of the addresses.\<close>

definition drain :: "(u32 \<rightharpoonup> 'v) \<Rightarrow> (u32 \<times> 'v) list" where
  "drain m = map (\<lambda>k. (k, the (m k))) (sorted_list_of_set (dom m))"

fun move_local :: "(u32 \<times> memory_local_event) list \<Rightarrow> executor \<Rightarrow> memory_local_event list \<times> executor" where
  "move_local [] s = ([], s)"
| "move_local ((addr, event) # es) s =
     (let s = (case ex_local_memory_access s addr of
                 None \<Rightarrow> s
               | Some e \<Rightarrow> s\<lparr>ex_local_memory_access := (ex_local_memory_access s)(addr := None),
                            ex_record := (ex_record s)\<lparr>er_cpu_local_memory_access :=
                              er_cpu_local_memory_access (ex_record s) @ [e]\<rparr>\<rparr>);
          (evs, s) = move_local es s
      in (event # evs, s))"

definition ctx_postprocess :: "(memory_local_event list) sys" where
  "ctx_postprocess = (\<lambda>c.
     if \<not> ex_unconstrained (sc_rt c) \<and> ex_executor_mode (sc_rt c) = Trace then
       let (evs, s) = move_local (drain (sc_local_memory_access c)) (sc_rt c)
       in Inr (evs, c\<lparr>sc_rt := s, sc_local_memory_access := Map.empty\<rparr>)
     else Inr ([], c))"

section \<open>Events\<close>

definition syscall_event ::
  "executor \<Rightarrow> u32 \<Rightarrow> memory_record_enum option \<Rightarrow> u32 \<Rightarrow> u32 \<Rightarrow> u32 \<Rightarrow> u32 \<Rightarrow> syscall_event_record" where
  "syscall_event s clk a_record next_pc sid arg1 arg2 =
     (let (wr, is_real) = (case a_record of Some (Write r) \<Rightarrow> (r, True) | _ \<Rightarrow> (default_write_record, False))
      in \<lparr>sys_pc = st_pc (ex_state s), sys_next_pc = next_pc, sys_shard = st_current_shard (ex_state s),
          sys_clk = clk, sys_a_record = wr, sys_a_record_is_real = is_real, sys_syscall_id = sid,
          sys_arg1 = arg1, sys_arg2 = arg2\<rparr>)"

definition add_precompile_event :: "syscall_code \<Rightarrow> syscall_event_record \<Rightarrow> precompile_event \<Rightarrow> unit sys" where
  "add_precompile_event code se e = (\<lambda>c.
     if ex_executor_mode (sc_rt c) = Trace then
       case add_event (er_precompile_events (ex_record (sc_rt c))) code se e of
         Inl f \<Rightarrow> Inl f
       | Inr es \<Rightarrow> Inr ((), c\<lparr>sc_rt := (sc_rt c)\<lparr>ex_record := (ex_record (sc_rt c))\<lparr>er_precompile_events := es\<rparr>\<rparr>\<rparr>)
     else Inr ((), c))"

section \<open>System calls\<close>

text \<open>An implementation of the trait \<open>Syscall\<close>.\<close>

record syscall_impl =
  si_execute :: "syscall_code \<Rightarrow> u32 \<Rightarrow> u32 \<Rightarrow> (u32 option) sys"
  si_num_extra_cycles :: u32

type_synonym syscall_table = "syscall_code \<rightharpoonup> syscall_impl"

end
