(* ===== verification/Execute.thy ===== *)
theory Execute
  imports Dependencies Syscall_Context
begin

text \<open>
  Execution of one instruction (\<^verbatim>\<open>executor.rs\<close>, \<open>emit_events\<close> to \<open>execute_jump_direct\<close>). The table of system
  calls is an argument of \<open>execute_operation\<close>. Each \<open>execute_\<close> method reads its operands, computes with
  the functions of \<open>Alu\<close> and \<open>Load_Store\<close> and writes its result; \<open>execute_operation\<close> counts, dispatches,
  emits the events and advances the program counter.
\<close>

unbundle bit_operations_syntax

section \<open>Emission of events\<close>

definition recM :: "record_step \<Rightarrow> unit rt" where
  "recM f = (\<lambda>s. case f (ex_record s) of Inl e \<Rightarrow> Inl e | Inr r \<Rightarrow> Inr ((), s\<lparr>ex_record := r\<rparr>))"

definition emit_cpu ::
  "u32 \<Rightarrow> u32 \<Rightarrow> u32 \<Rightarrow> u32 \<Rightarrow> u32 \<Rightarrow> u32 \<Rightarrow> u32 \<Rightarrow> u32 option \<Rightarrow> memory_access_record \<Rightarrow> u32 \<Rightarrow> unit rt" where
  "emit_cpu clk pc next_pc next_next_pc a b c hi_or_prev_a acc exit_code =
     modRecord (\<lambda>r. r\<lparr>er_cpu_events := er_cpu_events r @
       [\<lparr>cpu_clk = clk, cpu_pc = pc, cpu_next_pc = next_pc, cpu_next_next_pc = next_next_pc,
         cpu_a = a, cpu_a_record = acc_a acc, cpu_b = b, cpu_b_record = acc_b acc,
         cpu_c = c, cpu_c_record = acc_c acc, cpu_hi = hi_or_prev_a, cpu_hi_record = acc_hi acc,
         cpu_memory_record = acc_memory acc, cpu_exit_code = exit_code\<rparr>]\<rparr>)"

definition opt_or_0 :: "u32 option \<Rightarrow> u32" where
  "opt_or_0 x = (case x of None \<Rightarrow> 0 | Some v \<Rightarrow> v)"

definition push_alu :: "opcode \<Rightarrow> alu_event \<Rightarrow> comp_alu_event \<Rightarrow> execution_record \<Rightarrow> execution_record" where
  "push_alu op event event_comp =
     (if op \<in> {Op_ADD, Op_SUB} then push_add_sub event
      else if op \<in> {Op_XOR, Op_OR, Op_AND, Op_NOR} then push_bitwise event
      else if op = Op_SLL then push_shift_left event
      else if op \<in> {Op_SRL, Op_SRA, Op_ROR} then push_shift_right event
      else if op \<in> {Op_SLT, Op_SLTU} then push_lt event
      else if op \<in> {Op_MUL, Op_MULT, Op_MULTU} then push_mul event_comp
      else if op \<in> {Op_DIV, Op_DIVU, Op_MOD, Op_MODU}
      then emit_divrem_dependencies event \<circ> push_divrem event_comp
      else if op \<in> {Op_CLZ, Op_CLO} then emit_cloclz_dependencies event \<circ> push_cloclz event
      else id)"

definition emit_alu_event ::
  "u32 \<Rightarrow> opcode \<Rightarrow> u32 option \<Rightarrow> u32 \<Rightarrow> u32 \<Rightarrow> u32 \<Rightarrow> memory_record_enum option \<Rightarrow> unit rt" where
  "emit_alu_event clk op hi_or_prev_a a b c hi_record = (\<lambda>s.
     let st = ex_state s;
         event = \<lparr>alu_pc = st_pc st, alu_next_pc = st_next_pc st, alu_opcode = op, alu_hi = opt_or_0 hi_or_prev_a,
                  alu_a = a, alu_b = b, alu_c = c\<rparr>;
         (hi_access, is_real) = (case hi_record of Some (Write r) \<Rightarrow> (r, True) | _ \<Rightarrow> (default_write_record, False));
         event_comp = \<lparr>calu_shard = st_current_shard st, calu_clk = clk, calu_pc = st_pc st,
                       calu_next_pc = st_next_pc st, calu_opcode = op, calu_hi = opt_or_0 hi_or_prev_a,
                       calu_a = a, calu_b = b, calu_c = c, calu_hi_record = hi_access,
                       calu_hi_record_is_real = is_real\<rparr>
     in Inr ((), s\<lparr>ex_record := push_alu op event event_comp (ex_record s)\<rparr>))"

definition emit_mem_instr_event :: "opcode \<Rightarrow> u32 \<Rightarrow> u32 \<Rightarrow> u32 \<Rightarrow> u32 \<Rightarrow> unit rt" where
  "emit_mem_instr_event op a b c prev_a_val = (\<lambda>s.
     case acc_memory (ex_memory_accesses s) of
       None \<Rightarrow> Inl (Panic ExpectFailed)
     | Some acc \<Rightarrow>
         (let st = ex_state s;
              event = \<lparr>mem_shard = st_current_shard st, mem_clk = st_clk st, mem_pc = st_pc st,
                       mem_next_pc = st_next_pc st, mem_opcode = op, mem_a = a, mem_b = b, mem_c = c,
                       mem_mem_access = acc, mem_prev_a_val = prev_a_val\<rparr>;
              r = ex_record s;
              r = r\<lparr>er_memory_instr_events := er_memory_instr_events r @ [event]\<rparr>
          in Inr ((), s\<lparr>ex_record := emit_memory_dependencies event (current_record acc) r\<rparr>)))"

definition emit_branch_event :: "opcode \<Rightarrow> u32 \<Rightarrow> u32 \<Rightarrow> u32 \<Rightarrow> u32 \<Rightarrow> u32 \<Rightarrow> unit rt" where
  "emit_branch_event op a b c next_pc next_next_pc =
     bindM (getM (\<lambda>s. st_pc (ex_state s))) (\<lambda>pc.
     let event = \<lparr>br_pc = pc, br_next_pc = next_pc, br_next_next_pc = next_next_pc, br_opcode = op,
                  br_a = a, br_b = b, br_c = c\<rparr>
     in recM (\<lambda>r. emit_branch_dependencies event (r\<lparr>er_branch_events := er_branch_events r @ [event]\<rparr>)))"

definition emit_jump_event :: "opcode \<Rightarrow> u32 \<Rightarrow> u32 \<Rightarrow> u32 \<Rightarrow> u32 \<Rightarrow> u32 \<Rightarrow> unit rt" where
  "emit_jump_event op a b c next_pc next_next_pc =
     bindM (getM (\<lambda>s. st_pc (ex_state s))) (\<lambda>pc.
     let event = \<lparr>jmp_pc = pc, jmp_next_pc = next_pc, jmp_next_next_pc = next_next_pc, jmp_opcode = op,
                  jmp_a = a, jmp_b = b, jmp_c = c\<rparr>
     in recM (\<lambda>r. emit_jump_dependencies event (r\<lparr>er_jump_events := er_jump_events r @ [event]\<rparr>)))"

definition emit_misc_event ::
  "u32 \<Rightarrow> opcode \<Rightarrow> u32 \<Rightarrow> u32 \<Rightarrow> u32 \<Rightarrow> u32 \<Rightarrow> memory_record_enum option \<Rightarrow> unit rt" where
  "emit_misc_event clk op a b c prev_a hi_record =
     bindM (getM ex_state) (\<lambda>st.
     if op \<in> {Op_MNE, Op_MEQ, Op_WSBH} then
       modRecord (\<lambda>r. r\<lparr>er_movcond_events := er_movcond_events r @
         [\<lparr>mov_pc = st_pc st, mov_next_pc = st_next_pc st, mov_opcode = op, mov_a = a, mov_b = b, mov_c = c,
           mov_prev_a = prev_a\<rparr>]\<rparr>)
     else
       let hi_access = (case hi_record of Some (Write r) \<Rightarrow> r | _ \<Rightarrow> default_write_record);
           event = \<lparr>misc_shard = st_current_shard st, misc_clk = clk, misc_pc = st_pc st,
                    misc_next_pc = st_next_pc st, misc_opcode = op, misc_a = a, misc_b = b, misc_c = c,
                    misc_prev_a = prev_a, misc_hi_record = hi_access\<rparr>
       in recM (\<lambda>r. emit_misc_dependencies event (r\<lparr>er_misc_events := er_misc_events r @ [event]\<rparr>)))"

definition emit_syscall_event ::
  "u32 \<Rightarrow> memory_record_enum option \<Rightarrow> u32 \<Rightarrow> u32 \<Rightarrow> u32 \<Rightarrow> u32 \<Rightarrow> unit rt" where
  "emit_syscall_event clk a_record sid arg1 arg2 next_pc = (\<lambda>s.
     let r = ex_record s
     in Inr ((), s\<lparr>ex_record := r\<lparr>er_syscall_events := er_syscall_events r @
                    [syscall_event s clk a_record next_pc sid arg1 arg2]\<rparr>\<rparr>))"

definition emit_events ::
  "u32 \<Rightarrow> u32 \<Rightarrow> u32 \<Rightarrow> u32 \<Rightarrow> instruction \<Rightarrow> u32 \<Rightarrow> u32 \<Rightarrow> u32 \<Rightarrow> u32 option \<Rightarrow> memory_access_record \<Rightarrow>
   u32 \<Rightarrow> u32 \<Rightarrow> unit rt" where
  "emit_events clk pc next_pc next_next_pc i a b c hi_or_prev_a acc exit_code sid =
     bindM (emit_cpu clk pc next_pc next_next_pc a b c hi_or_prev_a acc exit_code) (\<lambda>_.
     if is_alu_instruction i then emit_alu_event clk (opcode i) hi_or_prev_a a b c (acc_hi acc)
     else if is_memory_load_instruction i \<or> is_memory_store_instruction i
     then emit_mem_instr_event (opcode i) a b c (opt_or_0 hi_or_prev_a)
     else if is_branch_instruction i then emit_branch_event (opcode i) a b c next_pc next_next_pc
     else if is_jump_instruction i then emit_jump_event (opcode i) a b c next_pc next_next_pc
     else if is_misc_instruction i
     then emit_misc_event clk (opcode i) a b c (opt_or_0 hi_or_prev_a) (acc_hi acc)
     else if is_syscall_instruction i then emit_syscall_event clk (acc_a acc) sid b c next_pc
     else panicM Unreachable)"

section \<open>Operands\<close>

definition reg_of :: "u8 \<Rightarrow> register rt" where
  "reg_of n = liftM (register_from n)"

definition reg_of_op :: "u32 \<Rightarrow> register rt" where
  "reg_of_op n = reg_of (ucast n)"

definition alu_rr :: "instruction \<Rightarrow> (register \<times> u32 \<times> u32) rt" where
  "alu_rr i =
     (if \<not> imm_c i then
        bindM (reg_of (op_a i)) (\<lambda>rd. bindM (reg_of_op (op_b i)) (\<lambda>rs1. bindM (reg_of_op (op_c i)) (\<lambda>rs2.
        bindM (rr_cpu rs2 PosC) (\<lambda>c. bindM (rr_cpu rs1 PosB) (\<lambda>b. retM (rd, b, c))))))
      else if \<not> imm_b i then
        bindM (reg_of (op_a i)) (\<lambda>rd. bindM (reg_of_op (op_b i)) (\<lambda>rs1.
        bindM (rr_cpu rs1 PosB) (\<lambda>b. retM (rd, b, op_c i))))
      else bindM (reg_of (op_a i)) (\<lambda>rd. retM (rd, op_b i, op_c i)))"

type_synonym operands = "u32 option \<times> u32 \<times> u32 \<times> u32"

definition alu_rw :: "instruction \<Rightarrow> register \<Rightarrow> u32 \<Rightarrow> u32 \<Rightarrow> u32 \<Rightarrow> u32 \<Rightarrow> operands rt" where
  "alu_rw i rd hi a b c =
     (if is_use_lo_hi_alu (opcode i) then
        bindM (rw_cpu R_LO a PosA) (\<lambda>_. bindM (rw_cpu R_HI hi PosHI) (\<lambda>_. retM (Some hi, a, b, c)))
      else bindM (rw_cpu rd a PosA) (\<lambda>_. retM (None, a, b, c)))"

definition branch_rr :: "instruction \<Rightarrow> (u32 \<times> u32 \<times> u32) rt" where
  "branch_rr i =
     bindM (reg_of (op_a i)) (\<lambda>src1. bindM (reg_of_op (op_b i)) (\<lambda>src2.
     bindM (if only_one_operand (opcode i) then retM 0 else rr_cpu src2 PosB) (\<lambda>b.
     bindM (rr_cpu src1 PosA) (\<lambda>a. retM (a, b, op_c i)))))"

section \<open>Instructions\<close>

definition execute_madd_sub :: "opcode \<Rightarrow> instruction \<Rightarrow> operands rt" where
  "execute_madd_sub op i =
     bindM (reg_of (op_a i)) (\<lambda>lo. bindM (reg_of_op (op_b i)) (\<lambda>rt. bindM (reg_of_op (op_c i)) (\<lambda>rs.
     bindM (rr_cpu rs PosC) (\<lambda>c. bindM (rr_cpu rt PosB) (\<lambda>b.
     bindM (peek_register R_LO) (\<lambda>lo_val. bindM (peek_register R_HI) (\<lambda>hi_val.
     let out = madd_value op hi_val lo_val b c; out_lo = lo_word out; out_hi = hi_word out in
     bindM (rw_cpu lo out_lo PosA) (\<lambda>_. bindM (rw_cpu R_HI out_hi PosHI) (\<lambda>_.
     retM (Some lo_val, out_lo, b, c))))))))))"

definition execute_maddu :: "instruction \<Rightarrow> operands rt" where
  "execute_maddu i = execute_madd_sub Op_MADDU i"

definition execute_msubu :: "instruction \<Rightarrow> operands rt" where
  "execute_msubu i = execute_madd_sub Op_MSUBU i"

definition execute_madd :: "instruction \<Rightarrow> operands rt" where
  "execute_madd i = execute_madd_sub Op_MADD i"

definition execute_msub :: "instruction \<Rightarrow> operands rt" where
  "execute_msub i = execute_madd_sub Op_MSUB i"

definition execute_sext :: "instruction \<Rightarrow> operands rt" where
  "execute_sext i =
     bindM (reg_of (op_a i)) (\<lambda>rd. bindM (reg_of_op (op_b i)) (\<lambda>rt.
     bindM (rr_cpu rt PosB) (\<lambda>b.
     let a = sext_value b (op_c i) in
     bindM (rw_cpu rd a PosA) (\<lambda>_. retM (None, a, b, op_c i)))))"

definition execute_wsbh :: "instruction \<Rightarrow> operands rt" where
  "execute_wsbh i =
     bindM (reg_of (op_a i)) (\<lambda>rd. bindM (reg_of_op (op_b i)) (\<lambda>rt.
     bindM (rr_cpu rt PosB) (\<lambda>b.
     let a = wsbh_value b in
     bindM (rw_cpu rd a PosA) (\<lambda>_. retM (None, a, b, 0)))))"

definition execute_ext :: "instruction \<Rightarrow> operands rt" where
  "execute_ext i =
     bindM (reg_of (op_a i)) (\<lambda>rd. bindM (reg_of_op (op_b i)) (\<lambda>rt.
     bindM (rr_cpu rt PosB) (\<lambda>b.
     bindM (liftM (ext_value b (op_c i))) (\<lambda>a.
     bindM (rw_cpu rd a PosA) (\<lambda>_. retM (None, a, b, op_c i))))))"

definition execute_ins :: "instruction \<Rightarrow> operands rt" where
  "execute_ins i =
     bindM (reg_of (op_a i)) (\<lambda>rd. bindM (reg_of_op (op_b i)) (\<lambda>rt.
     bindM (rr_cpu rt PosB) (\<lambda>b. bindM (peek_register rd) (\<lambda>prev_a.
     bindM (liftM (ins_value prev_a b (op_c i))) (\<lambda>a.
     bindM (rw_cpu rd a PosA) (\<lambda>_. retM (Some prev_a, a, b, op_c i)))))))"

definition execute_teq :: "instruction \<Rightarrow> operands rt" where
  "execute_teq i =
     bindM (reg_of (op_a i)) (\<lambda>rs. bindM (reg_of_op (op_b i)) (\<lambda>rt.
     bindM (rr_cpu rt PosB) (\<lambda>src2. bindM (rr_cpu rs PosA) (\<lambda>src1.
     if src1 = src2 then errM ExceptionOrTrap else retM (None, src1, src2, 0)))))"

definition execute_condmov :: "instruction \<Rightarrow> operands rt" where
  "execute_condmov i =
     bindM (reg_of (op_a i)) (\<lambda>rd. bindM (reg_of_op (op_b i)) (\<lambda>rs. bindM (reg_of_op (op_c i)) (\<lambda>rt.
     bindM (peek_register rd) (\<lambda>prev_a.
     bindM (rr_cpu rt PosC) (\<lambda>c. bindM (rr_cpu rs PosB) (\<lambda>b.
     bindM (if opcode i = Op_MEQ then retM (c = 0)
            else if opcode i = Op_MNE then retM (c \<noteq> 0)
            else panicM Unreachable) (\<lambda>mov.
     let a = (if mov then b else prev_a) in
     bindM (rw_cpu rd a PosA) (\<lambda>_. retM (Some prev_a, a, b, c)))))))))"

definition execute_alu :: "instruction \<Rightarrow> operands rt" where
  "execute_alu i =
     bindM (alu_rr i) (\<lambda>(rd, b, c).
     bindM (liftM (alu_op (opcode i) b c)) (\<lambda>(a, hi). alu_rw i rd hi a b c))"

definition aligned :: "u32 \<Rightarrow> u32" where
  "aligned addr = addr AND 0xFFFFFFFC"

definition out_of_bounds :: "u32 \<Rightarrow> bool" where
  "out_of_bounds addr \<longleftrightarrow> aligned addr + 3 > of_nat MAX_MEMORY"

definition execute_load :: "instruction \<Rightarrow> operands rt" where
  "execute_load i =
     bindM (reg_of (op_a i)) (\<lambda>rt_reg. bindM (reg_of_op (op_b i)) (\<lambda>rs_reg.
     bindM (rr_cpu rs_reg PosB) (\<lambda>rs_raw. bindM (peek_register rt_reg) (\<lambda>rt.
     let addr = rs_raw + op_c i in
     bindM (mr_cpu (aligned addr)) (\<lambda>mem.
     if out_of_bounds addr then errM (MemoryOutOfBoundsAccess (ucast addr))
     else bindM (liftM (load_value (opcode i) addr mem rt)) (\<lambda>val.
          bindM (rw_cpu rt_reg val PosA) (\<lambda>_. retM (Some rt, val, rs_raw, op_c i))))))))"

definition execute_store :: "instruction \<Rightarrow> operands rt" where
  "execute_store i =
     bindM (reg_of (op_a i)) (\<lambda>rt_reg. bindM (reg_of_op (op_b i)) (\<lambda>rs_reg.
     bindM (rr_cpu rs_reg PosB) (\<lambda>rs.
     bindM (if opcode i = Op_SC then peek_register rt_reg else rr_cpu rt_reg PosA) (\<lambda>rt.
     let addr = rs + op_c i in
     bindM (word (aligned addr)) (\<lambda>mem.
     bindM (liftM (store_value (opcode i) addr mem rt)) (\<lambda>val.
     if out_of_bounds addr then errM (MemoryOutOfBoundsAccess (ucast addr))
     else bindM (mw_cpu (aligned addr) val) (\<lambda>_.
          if opcode i = Op_SC
          then bindM (rw_cpu rt_reg 1 PosA) (\<lambda>_. retM (Some rt, 1, rs, op_c i))
          else retM (Some rt, rt, rs, op_c i))))))))"

definition execute_branch :: "instruction \<Rightarrow> u32 \<Rightarrow> u32 \<Rightarrow> (u32 \<times> u32 \<times> u32 \<times> u32) rt" where
  "execute_branch i next_pc next_next_pc =
     bindM (branch_rr i) (\<lambda>(src1, src2, off).
     bindM (liftM (branch_taken (opcode i) src1 src2)) (\<lambda>should_jump.
     retM (src1, src2, off, if should_jump then off + next_pc else next_next_pc)))"

definition return_pc :: "u32 rt" where
  "return_pc = getM (\<lambda>s. st_next_pc (ex_state s) + 4)"

definition execute_jump :: "instruction \<Rightarrow> (u32 \<times> u32 \<times> u32 \<times> u32) rt" where
  "execute_jump i =
     bindM (reg_of (op_a i)) (\<lambda>link. bindM (reg_of_op (op_b i)) (\<lambda>target.
     bindM (rr_cpu target PosB) (\<lambda>target_pc. bindM return_pc (\<lambda>ret.
     bindM (rw_cpu link ret PosA) (\<lambda>_. retM (ret, target_pc, 0, target_pc))))))"

definition execute_jumpi :: "instruction \<Rightarrow> (u32 \<times> u32 \<times> u32 \<times> u32) rt" where
  "execute_jumpi i =
     bindM (reg_of (op_a i)) (\<lambda>link. bindM return_pc (\<lambda>ret.
     bindM (rw_cpu link ret PosA) (\<lambda>_. retM (ret, op_b i, 0, op_b i))))"

definition execute_jump_direct :: "instruction \<Rightarrow> (u32 \<times> u32 \<times> u32 \<times> u32) rt" where
  "execute_jump_direct i =
     bindM (reg_of (op_a i)) (\<lambda>link. bindM (getM (\<lambda>s. op_b i + st_next_pc (ex_state s))) (\<lambda>target_pc.
     bindM return_pc (\<lambda>ret.
     bindM (rw_cpu link ret PosA) (\<lambda>_. retM (ret, op_b i, 0, target_pc)))))"

section \<open>Counting\<close>

definition bump_counts :: "(opcode \<times> u64) list \<Rightarrow> opcode_counts \<Rightarrow> opcode_counts" where
  "bump_counts ks cnt = fold (\<lambda>(op, k) f. f(op := f op + k)) ks cnt"

definition dependency_counts :: "instruction \<Rightarrow> (opcode \<times> u64) list" where
  "dependency_counts i =
     (if is_memory_load_instruction i then [(Op_ADD, 2)]
      else if is_branch_cmp_instruction i then [(Op_ADD, 1), (Op_SLT, 2)]
      else if is_mov_cond_instruction i then [(Op_ADD, 1)]
      else if opcode i = Op_EXT then [(Op_SLL, 1), (Op_SRL, 1)]
      else if is_cloclz_instruction i then [(Op_SRL, 1)]
      else if is_maddsubu_instruction i then [(Op_MULTU, 1)]
      else if opcode i = Op_INS then [(Op_ROR, 2), (Op_SLL, 1), (Op_SRL, 2), (Op_ADD, 1)]
      else if opcode i = Op_DIV then [(Op_MULT, 2), (Op_ADD, 2), (Op_SLTU, 1)]
      else if opcode i = Op_DIVU then [(Op_MULTU, 2), (Op_ADD, 2), (Op_SLTU, 1)]
      else if is_maddsub_instruction i then [(Op_MULT, 1)]
      else if opcode i = Op_JumpDirect then [(Op_ADD, 1)]
      else [])"

definition count_events :: "instruction \<Rightarrow> executor \<Rightarrow> executor" where
  "count_events i s =
     (if ex_unconstrained s then s
      else s\<lparr>ex_report := (ex_report s)\<lparr>rp_opcode_counts :=
                bump_counts [(opcode i, 1)] (rp_opcode_counts (ex_report s))\<rparr>,
             ex_local_counts := (ex_local_counts s)\<lparr>lc_event_counts :=
                bump_counts ((opcode i, 1) # dependency_counts i) (lc_event_counts (ex_local_counts s))\<rparr>\<rparr>)"

section \<open>System calls\<close>

text \<open>The local variables of \<open>execute_operation\<close>.\<close>

record step_vars =
  sv_pc :: u32
  sv_clk :: u32
  sv_exit_code :: u32
  sv_next_pc :: u32
  sv_next_next_pc :: u32
  sv_hi_or_prev_a :: "u32 option"
  sv_a :: u32
  sv_b :: u32
  sv_c :: u32
  sv_syscall_code :: u32

definition initial_vars :: "executor \<Rightarrow> step_vars" where
  "initial_vars s =
     \<lparr>sv_pc = st_pc (ex_state s), sv_clk = st_clk (ex_state s), sv_exit_code = 0,
      sv_next_pc = st_next_pc (ex_state s), sv_next_next_pc = st_next_pc (ex_state s) + 4,
      sv_hi_or_prev_a = None, sv_a = 0, sv_b = 0, sv_c = 0, sv_syscall_code = 0\<rparr>"

definition count_syscall :: "syscall_code \<Rightarrow> execution_state \<Rightarrow> execution_state" where
  "count_syscall code st =
     st\<lparr>st_syscall_counts := (st_syscall_counts st)(count_map code \<mapsto>
          (case st_syscall_counts st (count_map code) of None \<Rightarrow> 0 | Some n \<Rightarrow> n) + 1)\<rparr>"

text \<open>Call of the implementation: the value for \<open>V0\<close>, the next program counter, the extra cycles and the
  exit code.\<close>

definition call_syscall ::
  "syscall_table \<Rightarrow> syscall_code \<Rightarrow> u32 \<Rightarrow> u32 \<Rightarrow> u32 \<Rightarrow> (u32 \<times> u32 \<times> u32 \<times> u32) rt" where
  "call_syscall table code sid b c = (\<lambda>s.
     case table code of
       None \<Rightarrow> Inl (Err (UnsupportedSyscall sid))
     | Some impl \<Rightarrow>
         (case si_execute impl code b c (context_new s) of
            Inl e \<Rightarrow> Inl e
          | Inr (res, ctx) \<Rightarrow>
              if code = SC_HALT \<and> sc_exit_code ctx \<noteq> 0
              then Inl (Err (HaltWithNonZeroExitCode (sc_exit_code ctx)))
              else Inr ((case res of Some r0 \<Rightarrow> r0 | None \<Rightarrow> sid,
                         sc_next_pc ctx, si_num_extra_cycles impl, sc_exit_code ctx), sc_rt ctx)))"

text \<open>A \<open>SYSCALL\<close> instruction up to the call: the system call number and its two arguments.\<close>

definition enter_syscall :: "(u32 \<times> u32 \<times> u32) rt" where
  "enter_syscall =
     bindM (peek_register R_V0) (\<lambda>sid.
     bindM (rr_cpu R_A1 PosC) (\<lambda>c. bindM (rr_cpu R_A0 PosB) (\<lambda>b.
     let code = from_u32 sid in
     bindM (modM (\<lambda>s. if ex_print_report s \<and> \<not> ex_unconstrained s
                      then s\<lparr>ex_report := (ex_report s)\<lparr>rp_syscall_counts :=
                             (rp_syscall_counts (ex_report s))(code := rp_syscall_counts (ex_report s) code + 1)\<rparr>\<rparr>
                      else s)) (\<lambda>_.
     bindM (getM ex_unconstrained) (\<lambda>u.
     if u \<and> code \<noteq> SC_EXIT_UNCONSTRAINED \<and> code \<noteq> SC_WRITE
     then errM (InvalidSyscallUsage (ucast sid))
     else bindM (modState (count_syscall code)) (\<lambda>_. retM (sid, b, c)))))))"

text \<open>And after it.\<close>

definition leave_syscall :: "step_vars \<Rightarrow> u32 \<Rightarrow> u32 \<Rightarrow> u32 \<Rightarrow> u32 \<times> u32 \<times> u32 \<times> u32 \<Rightarrow> step_vars rt" where
  "leave_syscall v sid b c = (\<lambda>(a, next_pc, cycles, exit_code).
     let code = from_u32 sid in
     bindM (whenM (code = SC_HALT \<and> exit_code = 0) (modState (st_exited_update (\<lambda>_. True)))) (\<lambda>_.
     bindM (if code = SC_EXIT_UNCONSTRAINED
            then bindM (peek_register R_A0) (\<lambda>b. bindM (peek_register R_A1) (\<lambda>c.
                 bindM (peek_register R_V0) (\<lambda>prev_a. retM (b, c, prev_a))))
            else retM (b, c, sid)) (\<lambda>(b, c, prev_a).
     bindM (getM ex_state) (\<lambda>st.
     bindM (rw_cpu R_V0 a PosA) (\<lambda>_.
     bindM (modState (\<lambda>st. st\<lparr>st_clk := st_clk st + cycles\<rparr>)) (\<lambda>_.
     retM (v\<lparr>sv_clk := st_clk st, sv_pc := st_pc st, sv_next_pc := next_pc, sv_next_next_pc := next_pc + 4,
             sv_exit_code := exit_code, sv_hi_or_prev_a := Some prev_a, sv_a := a, sv_b := b, sv_c := c,
             sv_syscall_code := syscall_id code\<rparr>)))))))"

definition execute_syscall :: "syscall_table \<Rightarrow> step_vars \<Rightarrow> step_vars rt" where
  "execute_syscall table v =
     bindM enter_syscall (\<lambda>(sid, b, c).
     bindM (call_syscall table (from_u32 sid) sid b c) (leave_syscall v sid b c))"

section \<open>One instruction\<close>

definition set_operands :: "step_vars \<Rightarrow> operands \<Rightarrow> step_vars" where
  "set_operands v = (\<lambda>(hi, a, b, c). v\<lparr>sv_hi_or_prev_a := hi, sv_a := a, sv_b := b, sv_c := c\<rparr>)"

definition set_target :: "step_vars \<Rightarrow> u32 \<times> u32 \<times> u32 \<times> u32 \<Rightarrow> step_vars" where
  "set_target v = (\<lambda>(a, b, c, nn). v\<lparr>sv_a := a, sv_b := b, sv_c := c, sv_next_next_pc := nn\<rparr>)"

definition enter_delay_slot :: "unit rt" where
  "enter_delay_slot = modState (st_next_is_delayslot_update (\<lambda>_. True))"

definition execute_misc :: "instruction \<Rightarrow> operands rt" where
  "execute_misc i =
     (if opcode i = Op_WSBH then execute_wsbh i
      else if opcode i = Op_EXT then execute_ext i
      else if opcode i = Op_MADDU then execute_maddu i
      else if opcode i = Op_INS then execute_ins i
      else if opcode i = Op_SEXT then execute_sext i
      else if opcode i = Op_TEQ then execute_teq i
      else if opcode i = Op_MSUBU then execute_msubu i
      else if opcode i = Op_MADD then execute_madd i
      else if opcode i = Op_MSUB then execute_msub i
      else retM (None, 0, 0, 0))"

definition dispatch :: "syscall_table \<Rightarrow> instruction \<Rightarrow> step_vars \<Rightarrow> step_vars rt" where
  "dispatch table i v =
     (if is_alu_instruction i then bindM (execute_alu i) (\<lambda>r. retM (set_operands v r))
      else if is_memory_load_instruction i then bindM (execute_load i) (\<lambda>r. retM (set_operands v r))
      else if is_memory_store_instruction i then bindM (execute_store i) (\<lambda>r. retM (set_operands v r))
      else if is_branch_instruction i then
        bindM (execute_branch i (sv_next_pc v) (sv_next_next_pc v)) (\<lambda>r.
        bindM enter_delay_slot (\<lambda>_. retM (set_target v r)))
      else if is_jump_instruction i then
        bindM (if opcode i = Op_Jump then execute_jump i
               else if opcode i = Op_Jumpi then execute_jumpi i
               else execute_jump_direct i) (\<lambda>r.
        bindM enter_delay_slot (\<lambda>_. retM (set_target v r)))
      else if is_mov_cond_instruction i then bindM (execute_condmov i) (\<lambda>r. retM (set_operands v r))
      else if is_misc_instruction i then bindM (execute_misc i) (\<lambda>r. retM (set_operands v r))
      else if opcode i = Op_SYSCALL then execute_syscall table v
      else if opcode i = Op_UNIMPL then errM (UnsupportedInstruction (op_c i))
      else panicM Unreachable)"

definition reset_accesses :: "executor \<Rightarrow> executor" where
  "reset_accesses s =
     (if ex_executor_mode s = Trace then s\<lparr>ex_memory_accesses := default_access_record\<rparr> else s)"

definition emit_step :: "instruction \<Rightarrow> step_vars \<Rightarrow> unit rt" where
  "emit_step i v =
     bindM (getM ex_executor_mode) (\<lambda>mode. bindM (getM ex_memory_accesses) (\<lambda>acc.
     whenM (mode = Trace)
       (emit_events (sv_clk v) (sv_pc v) (sv_next_pc v) (sv_next_next_pc v) i (sv_a v) (sv_b v) (sv_c v)
          (sv_hi_or_prev_a v) acc (sv_exit_code v) (sv_syscall_code v))))"

definition finish_step :: "step_vars \<Rightarrow> execution_state \<Rightarrow> execution_state" where
  "finish_step v st = st\<lparr>st_pc := sv_next_pc v, st_next_pc := sv_next_next_pc v, st_clk := st_clk st + 5\<rparr>"

definition execute_operation :: "syscall_table \<Rightarrow> instruction \<Rightarrow> unit rt" where
  "execute_operation table i =
     bindM (getM initial_vars) (\<lambda>v0.
     bindM (modState (st_next_is_delayslot_update (\<lambda>_. False))) (\<lambda>_.
     bindM (modM reset_accesses) (\<lambda>_.
     bindM (modM (count_events i)) (\<lambda>_.
     bindM (dispatch table i v0) (\<lambda>v.
     if sv_next_next_pc v = 0 then errM NullPointerReference
     else bindM (emit_step i v) (\<lambda>_. modState (finish_step v)))))))"

end
