(* ===== verification/Shard_Estimate.thy ===== *)
theory Shard_Estimate
  imports Execute
begin

text \<open>
  The estimate that decides when a shard is full (\<^verbatim>\<open>cost.rs\<close>) is taken only every few cycles and padded for the
  cycles until the next one. Here the padding is compared with the events that the executor counts per instruction
  (\<open>count_events\<close>).
\<close>

section \<open>The estimate is additive\<close>

abbreviation instruction_counts :: "instruction \<Rightarrow> (opcode \<times> u64) list" where
  "instruction_counts i \<equiv> (opcode i, 1) # dependency_counts i"

definition cycle_events :: "instruction \<Rightarrow> air_counts" where
  "cycle_events i = estimate_mips_event_counts 1 0 0 (bump_counts (instruction_counts i) (\<lambda>_. 0))"

definition cycle_padding :: air_counts where
  "cycle_padding = pad_mips_event_counts (\<lambda>_. 0) 1"

lemma bump_counts_add: "bump_counts ks (\<lambda>op. f op + g op) = (\<lambda>op. f op + bump_counts ks g op)"
proof (induction ks arbitrary: g)
  case (Cons x ks)
  obtain op k where x: "x = (op, k)" by (cases x)
  have "(\<lambda>op. f op + g op)(op := f op + g op + k) = (\<lambda>o'. f o' + (g(op := g op + k)) o')" by (auto simp: fun_eq_iff)
  then show ?case using Cons.IH [of "g(op := g op + k)"] by (simp add: bump_counts_def x fun_upd_def)
qed (simp add: bump_counts_def)

lemma estimate_add:
  "estimate_mips_event_counts (cpu + n) touched sent (\<lambda>op. f op + g op) air =
   estimate_mips_event_counts cpu touched sent f air + estimate_mips_event_counts n 0 0 g air"
  by (cases air) (simp_all add: estimate_mips_event_counts_def Let_def div_ceil_def)

lemma estimate_cycle:
  "estimate_mips_event_counts (cpu + 1) touched sent (bump_counts (instruction_counts i) oc) air =
   estimate_mips_event_counts cpu touched sent oc air + cycle_events i air"
  using bump_counts_add [of "instruction_counts i" oc "\<lambda>_. 0"] by (simp add: cycle_events_def flip: estimate_add)

lemma pad_linear: "pad_mips_event_counts ec n air = ec air + n * cycle_padding air"
  by (cases air) (simp_all add: pad_mips_event_counts_def cycle_padding_def)

lemma cycle_padding_le: "unat (cycle_padding air) \<le> 64"
  by (cases air) (simp_all add: pad_mips_event_counts_def cycle_padding_def)

lemma cycle_events_le:
  assumes "opcode i \<noteq> Op_INS" "air \<in> set lde_airs"
  shows "cycle_events i air \<le> cycle_padding air"
proof -
  have "list_all (\<lambda>air. cycle_events i air \<le> cycle_padding air) lde_airs"
    using assms(1) by (cases "opcode i")
      (simp_all add: cycle_events_def cycle_padding_def dependency_counts_def instruction_class_defs bump_counts_def lde_airs_def
        pad_mips_event_counts_def estimate_mips_event_counts_def Let_def div_ceil_def)
  then show ?thesis using assms(2) by (simp add: list_all_iff)
qed

section \<open>The padding is enough\<close>

lemma count_events_counts:
  "\<not> ex_unconstrained s \<Longrightarrow> \<not> ex_unconstrained (count_events i s) \<and>
     lc_event_counts (ex_local_counts (count_events i s)) = bump_counts (instruction_counts i) (lc_event_counts (ex_local_counts s))"
  by (simp add: count_events_def)



end
