(* ===== verification/Write_Syscall.thy ===== *)
theory Write_Syscall
  imports Syscall_Context
begin

text \<open>
  The \<open>WRITE\<close> system call (\<^verbatim>\<open>syscalls/write.rs\<close>): UTF-8 validation and line buffering of the output, the
  cycle-tracker commands, the public values and hint streams, and the hooks. Strings are their UTF-8
  bytes; the lines handed to \<open>println!\<close> are the result of \<open>update_io_buf\<close> and leave no trace in the state.
\<close>

section \<open>Strings\<close>

definition utf8_cont :: "u8 \<Rightarrow> bool" where
  "utf8_cont b \<longleftrightarrow> 0x80 \<le> b \<and> b \<le> 0xBF"

definition utf8_two :: "u8 \<Rightarrow> u8 \<Rightarrow> bool" where
  "utf8_two a b \<longleftrightarrow> 0xC2 \<le> a \<and> a \<le> 0xDF \<and> utf8_cont b"

definition utf8_three :: "u8 \<Rightarrow> u8 \<Rightarrow> u8 \<Rightarrow> bool" where
  "utf8_three a b c \<longleftrightarrow> utf8_cont c \<and>
     (a = 0xE0 \<and> 0xA0 \<le> b \<and> b \<le> 0xBF \<or> 0xE1 \<le> a \<and> a \<le> 0xEC \<and> utf8_cont b \<or>
      a = 0xED \<and> 0x80 \<le> b \<and> b \<le> 0x9F \<or> 0xEE \<le> a \<and> a \<le> 0xEF \<and> utf8_cont b)"

definition utf8_four :: "u8 \<Rightarrow> u8 \<Rightarrow> u8 \<Rightarrow> u8 \<Rightarrow> bool" where
  "utf8_four a b c d \<longleftrightarrow> utf8_cont c \<and> utf8_cont d \<and>
     (a = 0xF0 \<and> 0x90 \<le> b \<and> b \<le> 0xBF \<or> 0xF1 \<le> a \<and> a \<le> 0xF3 \<and> utf8_cont b \<or>
      a = 0xF4 \<and> 0x80 \<le> b \<and> b \<le> 0x8F)"

text \<open>The characters of a byte string, each with its bytes; \<open>None\<close> where \<open>core::str::from_utf8\<close> fails.\<close>

fun utf8_chars :: "u8 list \<Rightarrow> u8 list list option" where
  "utf8_chars [] = Some []"
| "utf8_chars (a # bs) =
     (if a < 0x80 then map_option (Cons [a]) (utf8_chars bs)
      else case bs of
        [] \<Rightarrow> None
      | b # cs \<Rightarrow>
          if utf8_two a b then map_option (Cons [a, b]) (utf8_chars cs)
          else case cs of
            [] \<Rightarrow> None
          | c # ds \<Rightarrow>
              if utf8_three a b c then map_option (Cons [a, b, c]) (utf8_chars ds)
              else case ds of
                [] \<Rightarrow> None
              | d # es \<Rightarrow> if utf8_four a b c d then map_option (Cons [a, b, c, d]) (utf8_chars es) else None)"

definition white_space :: "u8 list \<Rightarrow> bool" where
  "white_space ch \<longleftrightarrow>
     (case ch of
        [a] \<Rightarrow> 9 \<le> a \<and> a \<le> 13 \<or> a = 32
      | [a, b] \<Rightarrow> a = 0xC2 \<and> (b = 0x85 \<or> b = 0xA0)
      | [a, b, c] \<Rightarrow>
          a = 0xE1 \<and> b = 0x9A \<and> c = 0x80 \<or>
          a = 0xE2 \<and> b = 0x80 \<and> (0x80 \<le> c \<and> c \<le> 0x8A \<or> c = 0xA8 \<or> c = 0xA9 \<or> c = 0xAF) \<or>
          a = 0xE2 \<and> b = 0x81 \<and> c = 0x9F \<or>
          a = 0xE3 \<and> b = 0x80 \<and> c = 0x80
      | _ \<Rightarrow> False)"

definition trim :: "u8 list \<Rightarrow> u8 list" where
  "trim bs = (case utf8_chars bs of
     None \<Rightarrow> bs
   | Some cs \<Rightarrow> concat (rev (dropWhile white_space (rev (dropWhile white_space cs)))))"

definition ascii :: "string \<Rightarrow> u8 list" where
  "ascii = map of_char"

definition split_once :: "u8 \<Rightarrow> u8 list \<Rightarrow> (u8 list \<times> u8 list) option" where
  "split_once sep bs =
     (if sep \<in> set bs then Some (takeWhile (\<lambda>b. b \<noteq> sep) bs, tl (dropWhile (\<lambda>b. b \<noteq> sep) bs)) else None)"

fun split_on :: "u8 \<Rightarrow> u8 list \<Rightarrow> u8 list list" where
  "split_on sep [] = [[]]"
| "split_on sep (b # bs) =
     (if b = sep then [] # split_on sep bs
      else case split_on sep bs of [] \<Rightarrow> [[b]] | l # ls \<Rightarrow> (b # l) # ls)"

section \<open>The cycle tracker\<close>

datatype cycle_tracker_command =
    Start utf8
  | End utf8
  | ReportStart utf8
  | ReportEnd utf8

definition parse_cycle_tracker_command :: "utf8 \<Rightarrow> cycle_tracker_command option" where
  "parse_cycle_tracker_command s =
     (case split_once 58 s of
        None \<Rightarrow> None
      | Some (command, fn_name) \<Rightarrow>
          (let trimmed_name = trim fn_name in
           if command = ascii ''cycle-tracker-start'' then Some (Start trimmed_name)
           else if command = ascii ''cycle-tracker-end'' then Some (End trimmed_name)
           else if command = ascii ''cycle-tracker-report-start'' then Some (ReportStart trimmed_name)
           else if command = ascii ''cycle-tracker-report-end'' then Some (ReportEnd trimmed_name)
           else None))"

text \<open>The tracker is an association list with one entry per name.\<close>

definition tracker_remove :: "utf8 \<Rightarrow> (utf8 \<times> 'v) list \<Rightarrow> (utf8 \<times> 'v) list" where
  "tracker_remove name = filter (\<lambda>(k, _). k \<noteq> name)"

definition start_cycle_tracker :: "utf8 \<Rightarrow> executor \<Rightarrow> executor" where
  "start_cycle_tracker name s =
     (let depth = of_nat (length (ex_cycle_tracker s))
      in s\<lparr>ex_cycle_tracker :=
             (name, st_global_clk (ex_state s), depth) # tracker_remove name (ex_cycle_tracker s)\<rparr>)"

definition end_cycle_tracker :: "utf8 \<Rightarrow> executor \<Rightarrow> u64 option \<times> executor" where
  "end_cycle_tracker name s =
     (case map_of (ex_cycle_tracker s) name of
        None \<Rightarrow> (None, s)
      | Some (start, depth) \<Rightarrow>
          (Some (st_global_clk (ex_state s) - start),
           s\<lparr>ex_cycle_tracker := tracker_remove name (ex_cycle_tracker s)\<rparr>))"

primrec handle_cycle_tracker_command :: "cycle_tracker_command \<Rightarrow> executor \<Rightarrow> executor" where
  "handle_cycle_tracker_command (Start name) s = start_cycle_tracker name s"
| "handle_cycle_tracker_command (ReportStart name) s = start_cycle_tracker name s"
| "handle_cycle_tracker_command (End name) s = snd (end_cycle_tracker name s)"
| "handle_cycle_tracker_command (ReportEnd name) s =
     (case end_cycle_tracker name s of
        (None, s) \<Rightarrow> s
      | (Some total_cycles, s) \<Rightarrow>
          s\<lparr>ex_report := (ex_report s)\<lparr>rp_cycle_tracker :=
              (rp_cycle_tracker (ex_report s))(name \<mapsto>
                 (case rp_cycle_tracker (ex_report s) name of None \<Rightarrow> total_cycles | Some n \<Rightarrow> n + total_cycles))\<rparr>\<rparr>)"

section \<open>Output\<close>

definition update_io_buf :: "u32 \<Rightarrow> utf8 \<Rightarrow> executor \<Rightarrow> utf8 list \<times> executor" where
  "update_io_buf fd txt s =
     (let entry = (case ex_io_buf s fd of None \<Rightarrow> [] | Some b \<Rightarrow> b) @ txt in
      if 10 \<in> set entry then
        let parts = split_on 10 entry
        in (butlast parts, s\<lparr>ex_io_buf := (ex_io_buf s)(fd \<mapsto> last parts)\<rparr>)
      else ([], s\<lparr>ex_io_buf := (ex_io_buf s)(fd \<mapsto> entry)\<rparr>))"

definition FD_STDIN :: u32 where "FD_STDIN = 0"
definition FD_STDOUT :: u32 where "FD_STDOUT = 1"
definition FD_STDERR :: u32 where "FD_STDERR = 2"
definition LOWEST_ALLOWED_FD :: u32 where "LOWEST_ALLOWED_FD = 10"
definition FD_PUBLIC_VALUES :: u32 where "FD_PUBLIC_VALUES = 3 + LOWEST_ALLOWED_FD"
definition FD_HINT :: u32 where "FD_HINT = 4 + LOWEST_ALLOWED_FD"

definition invoke_hook :: "hook \<Rightarrow> u8 list \<Rightarrow> unit rt" where
  "invoke_hook hook bytes =
     bindM (liftM (case hook bytes of Inl e \<Rightarrow> Inl (Err e) | Inr res \<Rightarrow> Inr res)) (\<lambda>res s.
     let st = ex_state s; ptr = st_input_stream_ptr st; ins = st_input_stream st in
     if ptr > length ins then Inl (Panic IndexOutOfBounds)
     else Inr ((), s\<lparr>ex_state := st\<lparr>st_input_stream := take ptr ins @ res @ drop ptr ins\<rparr>\<rparr>))"

definition write_fd :: "u32 \<Rightarrow> u8 list \<Rightarrow> unit rt" where
  "write_fd fd bytes =
     (if fd = FD_STDOUT then
        if utf8_chars bytes \<noteq> None then
          case parse_cycle_tracker_command bytes of
            Some command \<Rightarrow> modM (handle_cycle_tracker_command command)
          | None \<Rightarrow> modM (\<lambda>s. snd (update_io_buf fd bytes s))
        else retM ()
      else if fd = FD_STDERR then
        if utf8_chars bytes \<noteq> None then modM (\<lambda>s. snd (update_io_buf fd bytes s)) else retM ()
      else if fd = FD_PUBLIC_VALUES then
        modState (\<lambda>st. st\<lparr>st_public_values_stream := st_public_values_stream st @ bytes\<rparr>)
      else if fd = FD_HINT then
        modState (\<lambda>st. st\<lparr>st_input_stream := st_input_stream st @ [bytes]\<rparr>)
      else bindM (getM (\<lambda>s. ex_hook_registry s fd)) (\<lambda>h.
           case h of None \<Rightarrow> retM () | Some hook \<Rightarrow> invoke_hook hook bytes))"

definition byte_addrs :: "u32 \<Rightarrow> u32 \<Rightarrow> u32 list" where
  "byte_addrs addr nbytes = map (\<lambda>i. addr + of_nat i) [0..<unat nbytes]"

definition execute_write :: "syscall_code \<Rightarrow> u32 \<Rightarrow> u32 \<Rightarrow> (u32 option) sys" where
  "execute_write code fd write_buf =
     bindM (register_unsafe R_A2) (\<lambda>nbytes.
     bindM (bytes_unsafe (byte_addrs write_buf nbytes)) (\<lambda>bytes.
     bindM (on_rt (write_fd fd bytes)) (\<lambda>_. retM None)))"

section \<open>Properties\<close>

lemma split_on_nonempty [simp]: "split_on sep bs \<noteq> []"
  by (induction bs) (auto split: list.split)

lemma split_on_join: "concat (map (\<lambda>l. l @ [sep]) (butlast (split_on sep bs))) @ last (split_on sep bs) = bs"
proof (induction bs)
  case (Cons b bs)
  then show ?case by (cases "split_on sep bs") auto
qed simp

lemma split_on_no_sep: "l \<in> set (split_on sep bs) \<Longrightarrow> sep \<notin> set l"
  by (induction bs arbitrary: l) (auto split: if_splits list.splits)

text \<open>C28: line buffering loses nothing: the complete lines handed to the console, each with its line feed,
  followed by the new buffer are the old buffer followed by the text; neither the lines nor the buffer
  kept for the next write contain a line feed, and the other descriptors keep their buffers.\<close>

theorem update_io_buf_lines:
  "\<exists>lines new t. update_io_buf fd txt s = (lines, t) \<and> ex_io_buf t = (ex_io_buf s)(fd \<mapsto> new) \<and>
     concat (map (\<lambda>l. l @ [10]) lines) @ new = (case ex_io_buf s fd of None \<Rightarrow> [] | Some b \<Rightarrow> b) @ txt \<and>
     10 \<notin> set new \<and> list_all (\<lambda>l. 10 \<notin> set l) lines"
proof -
  define buf where "buf = (case ex_io_buf s fd of None \<Rightarrow> [] | Some b \<Rightarrow> b) @ txt"
  have "list_all (\<lambda>l. 10 \<notin> set l) (butlast (split_on 10 buf))" "10 \<notin> set (last (split_on 10 buf))"
    using split_on_no_sep [of _ 10 buf] by (auto simp: list_all_iff dest: in_set_butlastD)
  then show ?thesis
    using split_on_join [of 10 buf]
    by (cases "10 \<in> set buf") (auto simp: update_io_buf_def Let_def simp flip: buf_def)
qed

end
