(* ===== verification/Wp.thy ===== *)
theory Wp
  imports Prelude
begin

text \<open>
  Weakest preconditions of the executor monad: \<open>wp m Q E s\<close> holds when \<open>m\<close>, started in \<open>s\<close>, returns a value
  and a state that satisfy \<open>Q\<close>, or fails with a failure that satisfies \<open>E\<close>. The equations \<open>wp_simps\<close>
  run a program symbolically; operations that are not unfolded get a rule of the form
  \<open>(\<And>v t. post \<Longrightarrow> Q v t) \<Longrightarrow> wp m Q E s\<close>.
\<close>

definition wp :: "('e, 's, 'a) exec \<Rightarrow> ('a \<Rightarrow> 's \<Rightarrow> bool) \<Rightarrow> ('e fail \<Rightarrow> bool) \<Rightarrow> 's \<Rightarrow> bool" where
  "wp m Q E s \<longleftrightarrow> (case m s of Inl e \<Rightarrow> E e | Inr (v, t) \<Rightarrow> Q v t)"

named_theorems wp_simps \<open>symbolic execution\<close>

lemma wp_retM [wp_simps]: "wp (retM v) Q E s \<longleftrightarrow> Q v s"
  by (simp add: wp_def)

lemma wp_errM [wp_simps]: "wp (errM e) Q E s \<longleftrightarrow> E (Err e)"
  by (simp add: wp_def)

lemma wp_panicM [wp_simps]: "wp (panicM p) Q E s \<longleftrightarrow> E (Panic p)"
  by (simp add: wp_def)

lemma wp_getM [wp_simps]: "wp (getM f) Q E s \<longleftrightarrow> Q (f s) s"
  by (simp add: wp_def)

lemma wp_modM [wp_simps]: "wp (modM f) Q E s \<longleftrightarrow> Q () (f s)"
  by (simp add: wp_def)

lemma wp_whenM [wp_simps]: "wp (whenM b m) Q E s \<longleftrightarrow> (if b then wp m Q E s else Q () s)"
  by (simp add: wp_def)

lemma wp_liftM [wp_simps]: "wp (liftM r) Q E s \<longleftrightarrow> (case r of Inl e \<Rightarrow> E e | Inr v \<Rightarrow> Q v s)"
  by (simp add: wp_def split: sum.splits)

lemma wp_bindM [wp_simps]: "wp (bindM m f) Q E s \<longleftrightarrow> wp m (\<lambda>v t. wp (f v) Q E t) E s"
  by (simp add: wp_def bindM_def split: sum.splits prod.splits)

lemma wp_if [wp_simps]: "wp (if b then m else m') Q E s \<longleftrightarrow> (if b then wp m Q E s else wp m' Q E s)"
  by simp

lemma wp_Inr [wp_simps]: "wp (\<lambda>s. Inr (f s, g s)) Q E s \<longleftrightarrow> Q (f s) (g s)"
  by (simp add: wp_def)

lemma wp_mono:
  assumes "wp m Q E s" and "\<And>v t. Q v t \<Longrightarrow> Q' v t" and "\<And>e. E e \<Longrightarrow> E' e"
  shows "wp m Q' E' s"
  using assms by (auto simp: wp_def split: sum.splits)

lemma wp_conj: "wp m Q E s \<Longrightarrow> wp m Q' E' s \<Longrightarrow> wp m (\<lambda>v t. Q v t \<and> Q' v t) (\<lambda>e. E e \<and> E' e) s"
  by (auto simp: wp_def split: sum.splits)

lemma wp_InrD: "wp m Q E s \<Longrightarrow> m s = Inr (v, t) \<Longrightarrow> Q v t"
  by (simp add: wp_def)

lemma wp_InlD: "wp m Q E s \<Longrightarrow> m s = Inl e \<Longrightarrow> E e"
  by (simp add: wp_def)

lemma wp_total: "wp m Q (\<lambda>_. False) s \<Longrightarrow> \<exists>v t. m s = Inr (v, t) \<and> Q v t"
  by (auto simp: wp_def split: sum.splits)

lemma keeps_wp: "keeps R m \<longleftrightarrow> (\<forall>s. wp m (\<lambda>_ t. R s t) (\<lambda>_. True) s)"
  by (auto simp: keeps_def wp_def split: sum.splits)

end
