(* ===== verification/Access_Rules.thy ===== *)
theory Access_Rules
  imports Memory_Access Wp
begin

text \<open>
  Rules for the register and memory accesses. Every access, in every mode, changes one cell of the memory
  and the bookkeeping (checkpoints, the log of the unconstrained block, the local accesses, the records
  of the instruction), and nothing else: \<open>accessed\<close>. The \<open>wp\<close> rules give the value returned, the new cell
  and the access record in terms of the cell before.
\<close>

unbundle bit_operations_syntax

section \<open>Cells\<close>

text \<open>The cell an access finds: a vacant cell is created with its initial value, shard 0 and timestamp 0.\<close>

definition cell :: "mem_loc \<Rightarrow> mem_loc \<Rightarrow> executor \<Rightarrow> memory_record" where
  "cell loc uloc s = (case mem_at (st_memory (ex_state s)) loc of
     Some r \<Rightarrow> r
   | None \<Rightarrow> \<lparr>rec_shard = 0, rec_timestamp = 0, rec_value = initial_value uloc s\<rparr>)"

definition state_rest :: "execution_state \<Rightarrow> execution_state" where
  "state_rest st = st\<lparr>st_memory := empty_memory\<rparr>"

definition frame :: "executor \<Rightarrow> executor \<Rightarrow> bool" where
  "frame s t \<longleftrightarrow>
     state_rest (ex_state t) = state_rest (ex_state s) \<and>
     ex_program t = ex_program s \<and> ex_executor_mode t = ex_executor_mode s \<and>
     ex_unconstrained t = ex_unconstrained s \<and> ex_record t = ex_record s \<and> ex_records t = ex_records s \<and>
     ex_report t = ex_report s \<and> ex_print_report t = ex_print_report s"

definition accessed :: "mem_loc \<Rightarrow> memory_record \<Rightarrow> executor \<Rightarrow> executor \<Rightarrow> bool" where
  "accessed loc cur s t \<longleftrightarrow>
     frame s t \<and> st_memory (ex_state t) = mem_set (st_memory (ex_state s)) loc (Some cur)"

lemma cell_cong: "ex_state s = ex_state t \<Longrightarrow> cell loc uloc s = cell loc uloc t"
  by (simp add: cell_def initial_value_def split: option.split)

lemma mem_at_set [simp]: "mem_at (mem_set m loc v) loc' = (if loc' = loc then v else mem_at m loc')"
  by (cases loc; cases loc') auto

lemma memory_eqI: "(\<And>loc. mem_at m loc = mem_at m' loc) \<Longrightarrow> m = m'"
proof -
  assume *: "\<And>loc. mem_at m loc = mem_at m' loc"
  have "registers m = registers m'" using * [of "LReg _"] by (intro ext) simp
  moreover have "page_table m = page_table m'" using * [of "LMem _"] by (intro ext) simp
  ultimately show ?thesis by simp
qed

lemma mem_set_same: "mem_at m loc = v \<Longrightarrow> mem_set m loc v = m"
  by (rule memory_eqI) auto

lemma mem_set_set [simp]: "mem_set (mem_set m loc v) loc w = mem_set m loc w"
  by (rule memory_eqI) auto

lemma state_rest_eq:
  "state_rest st = state_rest st' \<longleftrightarrow> st = st'\<lparr>st_memory := st_memory st\<rparr>"
  by (cases st; cases st') (auto simp: state_rest_def)

lemma frame_state: "frame s t \<Longrightarrow> ex_state t = (ex_state s)\<lparr>st_memory := st_memory (ex_state t)\<rparr>"
  by (simp add: frame_def state_rest_eq)

lemma frame_eqs:
  assumes "frame s t"
  shows "st_pc (ex_state t) = st_pc (ex_state s)" "st_next_pc (ex_state t) = st_next_pc (ex_state s)"
    "st_clk (ex_state t) = st_clk (ex_state s)" "st_current_shard (ex_state t) = st_current_shard (ex_state s)"
    "st_uninitialized_memory (ex_state t) = st_uninitialized_memory (ex_state s)"
    "ex_executor_mode t = ex_executor_mode s" "ex_unconstrained t = ex_unconstrained s"
    "ex_record t = ex_record s" "ex_program t = ex_program s"
proof -
  obtain m where "ex_state t = (ex_state s)\<lparr>st_memory := m\<rparr>" using frame_state [OF assms] by blast
  then show "st_pc (ex_state t) = st_pc (ex_state s)" "st_next_pc (ex_state t) = st_next_pc (ex_state s)"
    "st_clk (ex_state t) = st_clk (ex_state s)" "st_current_shard (ex_state t) = st_current_shard (ex_state s)"
    "st_uninitialized_memory (ex_state t) = st_uninitialized_memory (ex_state s)"
    by simp_all
qed (use assms in \<open>simp_all add: frame_def\<close>)

lemma frame_refl [simp]: "frame s s"
  by (simp add: frame_def)

lemma frame_trans: "frame s t \<Longrightarrow> frame t u \<Longrightarrow> frame s u"
  by (simp add: frame_def)

section \<open>Steps of an access\<close>

lemma save_checkpoint_frame [simp]:
  "frame s (save_checkpoint loc s)" "ex_state (save_checkpoint loc s) = ex_state s"
  "ex_memory_accesses (save_checkpoint loc s) = ex_memory_accesses s"
  "ex_unconstrained (save_checkpoint loc s) = ex_unconstrained s"
  by (simp_all add: frame_def save_checkpoint_def)

lemma save_diff_frame [simp]:
  "frame s (save_diff addr loc s)" "ex_state (save_diff addr loc s) = ex_state s"
  "ex_memory_accesses (save_diff addr loc s) = ex_memory_accesses s"
  by (simp_all add: frame_def save_diff_def split: option.split)

lemma put_cell_frame:
  "frame s (put_cell loc r s)" "st_memory (ex_state (put_cell loc r s)) = mem_set (st_memory (ex_state s)) loc (Some r)"
  "ex_memory_accesses (put_cell loc r s) = ex_memory_accesses s"
  by (simp_all add: frame_def put_cell_def state_rest_def)

lemma count_local_mem_frame [simp]:
  "frame s (count_local_mem b s)" "ex_state (count_local_mem b s) = ex_state s"
  "ex_memory_accesses (count_local_mem b s) = ex_memory_accesses s"
  by (simp_all add: frame_def count_local_mem_def)

lemma trace_local_frame [simp]:
  "frame s (snd (trace_local b addr prev cur lma s))"
  "ex_state (snd (trace_local b addr prev cur lma s)) = ex_state s"
  "ex_memory_accesses (snd (trace_local b addr prev cur lma s)) = ex_memory_accesses s"
  by (simp_all add: frame_def trace_local_def split: option.split)

lemma fst_open_entry: "fst (open_entry cp addr loc uloc s) = cell loc uloc s"
  by (simp add: open_entry_def open_cell_def cell_def Let_def initial_value_def split: option.split)

lemma snd_open_entry:
  "frame s (snd (open_entry cp addr loc uloc s))"
  "st_memory (ex_state (snd (open_entry cp addr loc uloc s))) = mem_set (st_memory (ex_state s)) loc (Some (cell loc uloc s))"
  "ex_memory_accesses (snd (open_entry cp addr loc uloc s)) = ex_memory_accesses s"
proof -
  let ?s = "let s = (if cp then save_checkpoint loc s else s) in if ex_unconstrained s then save_diff addr loc s else s"
  have s: "frame s ?s" "ex_state ?s = ex_state s" "ex_memory_accesses ?s = ex_memory_accesses s"
    by (auto simp: Let_def intro: frame_trans [OF save_checkpoint_frame(1) save_diff_frame(1)])
  have o: "frame s' (snd (open_cell loc uloc s'))"
    "st_memory (ex_state (snd (open_cell loc uloc s'))) = mem_set (st_memory (ex_state s')) loc (Some (cell loc uloc s'))"
    "ex_memory_accesses (snd (open_cell loc uloc s')) = ex_memory_accesses s'" for s'
    by (auto simp: open_cell_def cell_def Let_def put_cell_def frame_def state_rest_def initial_value_def mem_set_same split: option.split)
  have c: "cell loc uloc ?s = cell loc uloc s" by (rule cell_cong [OF s(2)])
  have e: "open_entry cp addr loc uloc s = open_cell loc uloc ?s" by (simp add: open_entry_def Let_def)
  show "frame s (snd (open_entry cp addr loc uloc s))"
    unfolding e by (rule frame_trans [OF s(1) o(1)])
  show "st_memory (ex_state (snd (open_entry cp addr loc uloc s))) = mem_set (st_memory (ex_state s)) loc (Some (cell loc uloc s))"
    unfolding e o(2) c s(2) ..
  show "ex_memory_accesses (snd (open_entry cp addr loc uloc s)) = ex_memory_accesses s"
    unfolding e o(3) s(3) ..
qed

lemma open_entryE:
  obtains s' where "open_entry cp addr loc uloc s = (cell loc uloc s, s')" "frame s s'"
    "st_memory (ex_state s') = mem_set (st_memory (ex_state s)) loc (Some (cell loc uloc s))"
    "ex_memory_accesses s' = ex_memory_accesses s"
  using fst_open_entry snd_open_entry by (metis prod.collapse)

text \<open>The common tail of the accesses: write the cell, then record the local access.\<close>

lemma access_tail:
  assumes "frame s s'" "st_memory (ex_state s') = mem_set (st_memory (ex_state s)) loc (Some prev)"
    "ex_memory_accesses s' = ex_memory_accesses s"
    "t = snd (trace_local b addr prev cur lma (put_cell loc cur (count_local_mem b' s')))"
  shows "accessed loc cur s t" "ex_memory_accesses t = ex_memory_accesses s"
proof -
  let ?u = "put_cell loc cur (count_local_mem b' s')"
  have "frame s' t" unfolding assms(4)
    by (rule frame_trans [OF count_local_mem_frame(1) frame_trans [OF put_cell_frame(1) trace_local_frame(1)]])
  then have "frame s t" by (rule frame_trans [OF assms(1)])
  moreover have "st_memory (ex_state t) = mem_set (st_memory (ex_state s)) loc (Some cur)"
    by (simp add: assms(2,4) put_cell_frame(2))
  ultimately show "accessed loc cur s t" by (simp add: accessed_def)
  show "ex_memory_accesses t = ex_memory_accesses s" by (simp add: assms(3,4) put_cell_frame(3))
qed

lemma count_local_mem_False: "count_local_mem False s = s"
  by (simp add: count_local_mem_def)

lemma access_core:
  assumes "\<And>s'. open_entry cp addr loc uloc s = (cell loc uloc s, s') \<Longrightarrow>
     (\<And>b a cur lma b'. accessed loc cur s (snd (trace_local b a (cell loc uloc s) cur lma (put_cell loc cur (count_local_mem b' s')))) \<and>
       ex_memory_accesses (snd (trace_local b a (cell loc uloc s) cur lma (put_cell loc cur (count_local_mem b' s')))) = ex_memory_accesses s) \<Longrightarrow>
     (\<And>cur. accessed loc cur s (put_cell loc cur s') \<and> ex_memory_accesses (put_cell loc cur s') = ex_memory_accesses s) \<Longrightarrow>
     (\<And>b a cur lma. accessed loc cur s (snd (trace_local b a (cell loc uloc s) cur lma (put_cell loc cur s'))) \<and>
       ex_memory_accesses (snd (trace_local b a (cell loc uloc s) cur lma (put_cell loc cur s'))) = ex_memory_accesses s) \<Longrightarrow> P"
  shows P
proof -
  obtain s' where s': "open_entry cp addr loc uloc s = (cell loc uloc s, s')" "frame s s'"
    "st_memory (ex_state s') = mem_set (st_memory (ex_state s)) loc (Some (cell loc uloc s))"
    "ex_memory_accesses s' = ex_memory_accesses s" by (rule open_entryE)
  note tail = access_tail [OF s'(2-4) refl]
  show P
    using tail tail [where b' = False] tail [where b = False and b' = False]
    by (intro assms [OF s'(1)]) (simp_all add: count_local_mem_False trace_local_def)
qed

section \<open>Rules\<close>

definition at_time :: "u32 \<Rightarrow> u32 \<Rightarrow> memory_record \<Rightarrow> memory_record" where
  "at_time shard ts r = r\<lparr>rec_shard := shard, rec_timestamp := ts\<rparr>"

definition written :: "u32 \<Rightarrow> u32 \<Rightarrow> u32 \<Rightarrow> memory_record" where
  "written shard ts v = \<lparr>rec_shard = shard, rec_timestamp = ts, rec_value = v\<rparr>"

abbreviation keeps_accesses :: "executor \<Rightarrow> executor \<Rightarrow> bool" where
  "keeps_accesses s t \<equiv> ex_memory_accesses t = ex_memory_accesses s"

lemma rr_spec:
  "\<exists>t. rr r shard ts s = Inr (rec_value (cell (reg_loc r) (reg_loc r) s), t) \<and> keeps_accesses s t \<and>
       accessed (reg_loc r) (at_time shard ts (cell (reg_loc r) (reg_loc r) s)) s t"
  by (rule access_core [of "checkpointing s" "reg_index r" "reg_loc r" "reg_loc r" s])
    (simp add: rr_def at_time_def Let_def split_beta)

lemma rr_traced_spec:
  "\<exists>t lma'. rr_traced r shard ts lma s =
       Inr ((read_record_new (at_time shard ts (cell (reg_loc r) (reg_loc r) s)) (cell (reg_loc r) (reg_loc r) s), lma'), t) \<and>
       keeps_accesses s t \<and> accessed (reg_loc r) (at_time shard ts (cell (reg_loc r) (reg_loc r) s)) s t"
  by (rule access_core [of "checkpointing s" "reg_index r" "reg_loc r" "reg_loc r" s])
    (simp add: rr_traced_def at_time_def Let_def split_beta)

lemma mr_spec:
  "mr addr shard ts lma s = Inl (Panic IndexOutOfBounds) \<and> \<not> valid_page addr \<or>
   valid_page addr \<and> (\<exists>t lma'. mr addr shard ts lma s =
       Inr ((read_record_new (at_time shard ts (cell (page_loc addr) (page_loc addr) s)) (cell (page_loc addr) (page_loc addr) s), lma'), t) \<and>
       keeps_accesses s t \<and> accessed (page_loc addr) (at_time shard ts (cell (page_loc addr) (page_loc addr) s)) s t)"
  by (rule access_core [of "checkpointing s" "addr" "page_loc addr" "page_loc addr" s])
    (simp add: mr_def page_access_def at_time_def Let_def split_beta)

lemma mw_spec:
  "mw addr v shard ts lma s = Inl (Panic IndexOutOfBounds) \<and> \<not> valid_page addr \<or>
   valid_page addr \<and> (\<exists>t lma'. mw addr v shard ts lma s =
       Inr ((write_record_new (written shard ts v) (cell (page_loc addr) (page_loc addr) s), lma'), t) \<and>
       keeps_accesses s t \<and> accessed (page_loc addr) (written shard ts v) s t)"
  by (rule access_core [of "checkpointing s" "addr" "page_loc addr" "page_loc addr" s])
    (simp add: mw_def page_access_def written_def Let_def split_beta)

lemma rw_spec:
  "\<exists>t. rw r v shard ts s = Inr ((), t) \<and> keeps_accesses s t \<and> accessed (reg_loc r) (written shard ts v) s t"
  by (rule access_core [of "checkpointing s" "reg_index r" "reg_loc r" "reg_loc r" s])
    (simp add: rw_def written_def Let_def split_beta)

lemma rw_traced_spec:
  "\<exists>t lma'. rw_traced r v shard ts lma s =
       Inr ((write_record_new (written shard ts v) (cell (reg_loc r) (reg_loc r) s), lma'), t) \<and>
       keeps_accesses s t \<and> accessed (reg_loc r) (written shard ts v) s t"
  by (rule access_core [of "ex_unconstrained s" "reg_index r" "reg_loc r" "reg_loc r" s])
    (simp add: rw_traced_def written_def Let_def split_beta)

lemma rw_cpu_traced_spec:
  "\<exists>t lma'. rw_cpu_traced r v shard ts lma s =
       Inr ((write_record_new (written shard ts v) (cell (reg_loc r) (page_loc (reg_index r)) s), lma'), t) \<and>
       keeps_accesses s t \<and> accessed (reg_loc r) (written shard ts v) s t"
  by (rule access_core [of "checkpointing s" "reg_index r" "reg_loc r" "page_loc (reg_index r)" s])
    (simp add: rw_cpu_traced_def written_def Let_def split_beta)


section \<open>Rules for the accesses of an instruction\<close>

abbreviation reg_cell :: "register \<Rightarrow> executor \<Rightarrow> memory_record" where
  "reg_cell r s \<equiv> cell (reg_loc r) (reg_loc r) s"

abbreviation word_cell :: "u32 \<Rightarrow> executor \<Rightarrow> memory_record" where
  "word_cell addr s \<equiv> cell (page_loc addr) (page_loc addr) s"

definition traced :: "executor \<Rightarrow> bool" where
  "traced s \<longleftrightarrow> ex_executor_mode s = Trace \<and> \<not> ex_unconstrained s"

primrec set_access :: "memory_access_position \<Rightarrow> memory_record_enum \<Rightarrow> memory_access_record \<Rightarrow> memory_access_record" where
  "set_access PosA x acc = acc\<lparr>acc_a := Some x\<rparr>"
| "set_access PosB x acc = acc\<lparr>acc_b := Some x\<rparr>"
| "set_access PosC x acc = acc\<lparr>acc_c := Some x\<rparr>"
| "set_access PosHI x acc = acc\<lparr>acc_hi := Some x\<rparr>"
| "set_access PosMemory x acc = acc\<lparr>acc_memory := Some x\<rparr>"

text \<open>The cell as read, or as written with \<open>v\<close>, at a position of the current cycle.\<close>

definition touched :: "memory_access_position \<Rightarrow> executor \<Rightarrow> memory_record \<Rightarrow> memory_record" where
  "touched p s c = at_time (st_current_shard (ex_state s)) (st_clk (ex_state s) + position_offset p) c"

definition stored :: "memory_access_position \<Rightarrow> executor \<Rightarrow> u32 \<Rightarrow> memory_record" where
  "stored p s v = written (st_current_shard (ex_state s)) (st_clk (ex_state s) + position_offset p) v"

lemma accessed_accesses [simp]: "accessed loc cur s (t\<lparr>ex_memory_accesses := acc\<rparr>) \<longleftrightarrow> accessed loc cur s t"
  by (simp add: accessed_def frame_def)

lemma accessed_eqs:
  assumes "accessed loc cur s t"
  shows "ex_executor_mode t = ex_executor_mode s" "ex_unconstrained t = ex_unconstrained s" "traced t = traced s"
  using assms by (simp_all add: accessed_def frame_def traced_def)

lemma wp_rr_cpu:
  assumes "p \<in> {PosA, PosB, PosC}"
    and "\<And>t. accessed (reg_loc r) (touched p s (reg_cell r s)) s t \<Longrightarrow>
           ex_memory_accesses t = (if traced s
             then set_access p (Read (read_record_new (touched p s (reg_cell r s)) (reg_cell r s))) (ex_memory_accesses s)
             else ex_memory_accesses s) \<Longrightarrow> Q (rec_value (reg_cell r s)) t"
  shows "wp (rr_cpu r p) Q E s"
proof (cases "ex_executor_mode s = Trace")
  case True
  let ?sh = "st_current_shard (ex_state s)" and ?ts = "st_clk (ex_state s) + position_offset p"
  obtain t lma' where t: "rr_traced r ?sh ?ts None s =
      Inr ((read_record_new (touched p s (reg_cell r s)) (reg_cell r s), lma'), t)"
      "keeps_accesses s t" "accessed (reg_loc r) (touched p s (reg_cell r s)) s t"
    using rr_traced_spec [of r ?sh ?ts None s] by (auto simp: touched_def)
  have v: "rd_value (read_record_new (touched p s (reg_cell r s)) (reg_cell r s)) = rec_value (reg_cell r s)"
    by (simp add: read_record_new_def touched_def at_time_def)
  show ?thesis
    using True t(1) assms(2) [of t] assms(2) [of "t\<lparr>ex_memory_accesses := set_access p (Read (read_record_new (touched p s (reg_cell r s)) (reg_cell r s))) (ex_memory_accesses s)\<rparr>"] t(2,3) assms(1) accessed_eqs [OF t(3)] v
    by (auto simp: rr_cpu_def current_shard_def timestamp_def modAccesses_def wp_def traced_def)
next
  case False
  let ?sh = "st_current_shard (ex_state s)" and ?ts = "st_clk (ex_state s) + position_offset p"
  obtain t where "rr r ?sh ?ts s = Inr (rec_value (reg_cell r s), t)"
      "keeps_accesses s t" "accessed (reg_loc r) (touched p s (reg_cell r s)) s t"
    using rr_spec [of r ?sh ?ts s] by (auto simp: touched_def)
  then show ?thesis
    using False assms(2) [of t] by (simp add: rr_cpu_def current_shard_def timestamp_def wp_def traced_def)
qed

lemma wp_rw_cpu:
  assumes "p \<in> {PosA, PosHI}"
    and "\<And>t. accessed (reg_loc r) (stored p s (if r = R_ZERO then 0 else v)) s t \<Longrightarrow>
           ex_memory_accesses t = (if traced s
             then set_access p (Write (write_record_new (stored p s (if r = R_ZERO then 0 else v)) (reg_cell r s))) (ex_memory_accesses s)
             else ex_memory_accesses s) \<Longrightarrow> Q () t"
  shows "wp (rw_cpu r v p) Q E s"
proof (cases "ex_executor_mode s = Trace")
  case True
  let ?sh = "st_current_shard (ex_state s)" and ?ts = "st_clk (ex_state s) + position_offset p"
  let ?v = "if r = R_ZERO then 0 else v"
  obtain t lma' where t: "rw_traced r ?v ?sh ?ts None s = Inr ((write_record_new (stored p s ?v) (reg_cell r s), lma'), t)"
      "keeps_accesses s t" "accessed (reg_loc r) (stored p s ?v) s t"
    using rw_traced_spec [of r ?v ?sh ?ts None s] unfolding stored_def by blast
  show ?thesis
    using True t(1) assms(2) [of t] assms(2) [of "t\<lparr>ex_memory_accesses := set_access p (Write (write_record_new (stored p s ?v) (reg_cell r s))) (ex_memory_accesses s)\<rparr>"] t(2,3) assms(1) accessed_eqs [OF t(3)]
    by (auto simp: rw_cpu_def current_shard_def timestamp_def modAccesses_def wp_def traced_def Let_def)
next
  case False
  let ?sh = "st_current_shard (ex_state s)" and ?ts = "st_clk (ex_state s) + position_offset p"
  let ?v = "if r = R_ZERO then 0 else v"
  obtain t where "rw r ?v ?sh ?ts s = Inr ((), t)" "keeps_accesses s t" "accessed (reg_loc r) (stored p s ?v) s t"
    using rw_spec [of r ?v ?sh ?ts s] unfolding stored_def by blast
  then show ?thesis
    using False assms(2) [of t] by (simp add: rw_cpu_def current_shard_def timestamp_def wp_def traced_def Let_def)
qed

lemma wp_mr_cpu:
  assumes "\<not> valid_page addr \<Longrightarrow> E (Panic IndexOutOfBounds)"
    and "\<And>t. valid_page addr \<Longrightarrow> accessed (page_loc addr) (touched PosMemory s (word_cell addr s)) s t \<Longrightarrow>
           ex_memory_accesses t = (if ex_executor_mode s = Trace
             then set_access PosMemory (Read (read_record_new (touched PosMemory s (word_cell addr s)) (word_cell addr s))) (ex_memory_accesses s)
             else ex_memory_accesses s) \<Longrightarrow> Q (rec_value (word_cell addr s)) t"
  shows "wp (mr_cpu addr) Q E s"
proof (cases "valid_page addr")
  case True
  let ?sh = "st_current_shard (ex_state s)" and ?ts = "st_clk (ex_state s) + position_offset PosMemory"
  obtain t lma' where t: "mr addr ?sh ?ts None s =
      Inr ((read_record_new (touched PosMemory s (word_cell addr s)) (word_cell addr s), lma'), t)"
      "keeps_accesses s t" "accessed (page_loc addr) (touched PosMemory s (word_cell addr s)) s t"
    using mr_spec [of addr ?sh ?ts None s] True by (auto simp: touched_def)
  have v: "rd_value (read_record_new (touched PosMemory s (word_cell addr s)) (word_cell addr s)) = rec_value (word_cell addr s)"
    by (simp add: read_record_new_def touched_def at_time_def)
  show ?thesis
    using True t(1) assms(2) [of t] assms(2) [of "t\<lparr>ex_memory_accesses := set_access PosMemory (Read (read_record_new (touched PosMemory s (word_cell addr s)) (word_cell addr s))) (ex_memory_accesses s)\<rparr>"] t(2,3) accessed_eqs [OF t(3)] v
    by (cases "ex_executor_mode s = Trace") (simp_all add: mr_cpu_def current_shard_def timestamp_def modAccesses_def wp_def)
next
  case False
  then have "mr addr sh ts None s = Inl (Panic IndexOutOfBounds)" for sh ts
    using mr_spec [of addr sh ts None s] by blast
  with False assms(1) show ?thesis
    by (simp add: mr_cpu_def current_shard_def timestamp_def wp_def)
qed

lemma wp_mw_cpu:
  assumes "\<not> valid_page addr \<Longrightarrow> E (Panic IndexOutOfBounds)"
    and "\<And>t. valid_page addr \<Longrightarrow> accessed (page_loc addr) (stored PosMemory s v) s t \<Longrightarrow>
           ex_memory_accesses t = (if ex_executor_mode s = Trace
             then set_access PosMemory (Write (write_record_new (stored PosMemory s v) (word_cell addr s))) (ex_memory_accesses s)
             else ex_memory_accesses s) \<Longrightarrow> Q () t"
  shows "wp (mw_cpu addr v) Q E s"
proof (cases "valid_page addr")
  case True
  let ?sh = "st_current_shard (ex_state s)" and ?ts = "st_clk (ex_state s) + position_offset PosMemory"
  obtain t lma' where t: "mw addr v ?sh ?ts None s =
      Inr ((write_record_new (stored PosMemory s v) (word_cell addr s), lma'), t)"
      "keeps_accesses s t" "accessed (page_loc addr) (stored PosMemory s v) s t"
    using mw_spec [of addr v ?sh ?ts None s] True unfolding stored_def by blast
  show ?thesis
    using True t(1) assms(2) [of t] assms(2) [of "t\<lparr>ex_memory_accesses := set_access PosMemory (Write (write_record_new (stored PosMemory s v) (word_cell addr s))) (ex_memory_accesses s)\<rparr>"] t(2,3) accessed_eqs [OF t(3)]
    by (cases "ex_executor_mode s = Trace") (simp_all add: mw_cpu_def current_shard_def timestamp_def modAccesses_def wp_def)
next
  case False
  then have "mw addr v sh ts None s = Inl (Panic IndexOutOfBounds)" for sh ts
    using mw_spec [of addr v sh ts None s] by blast
  with False assms(1) show ?thesis
    by (simp add: mw_cpu_def current_shard_def timestamp_def wp_def)
qed

definition peeked :: "executor \<Rightarrow> executor \<Rightarrow> bool" where
  "peeked s t \<longleftrightarrow> frame s t \<and> ex_state t = ex_state s \<and> ex_memory_accesses t = ex_memory_accesses s"

definition peek_value :: "mem_loc \<Rightarrow> executor \<Rightarrow> u32" where
  "peek_value loc s = (case mem_at (st_memory (ex_state s)) loc of None \<Rightarrow> 0 | Some r \<Rightarrow> rec_value r)"

lemma peek_spec: "peek loc s = (peek_value loc s, snd (peek loc s)) \<and> peeked s (snd (peek loc s))"
  by (simp add: peek_def peek_value_def peeked_def)

lemma wp_peek_register:
  assumes "\<And>t. peeked s t \<Longrightarrow> Q (peek_value (reg_loc r) s) t"
  shows "wp (peek_register r) Q E s"
  using assms peek_spec [of "reg_loc r" s] by (simp add: peek_register_def wp_def split_beta) (metis fst_conv)

lemma wp_word:
  assumes "\<not> valid_page addr \<Longrightarrow> E (Panic IndexOutOfBounds)"
    and "\<And>t. valid_page addr \<Longrightarrow> peeked s t \<Longrightarrow> Q (peek_value (page_loc addr) s) t"
  shows "wp (word addr) Q E s"
  using assms peek_spec [of "page_loc addr" s]
  by (simp add: word_def page_access_def wp_def split_beta) (metis fst_conv)

end
