(* ===== verification/Isa.thy ===== *)
theory Isa
  imports Execute Access_Rules
begin

text \<open>
  Instruction-set semantics: an abstract machine whose state is the values of the registers, the words of
  memory, the program counter and the next program counter; the abstraction function from the executor,
  and the rules of the accesses in terms of the abstract machine.
\<close>

unbundle bit_operations_syntax

section \<open>The abstract machine\<close>

record arch =
  ar_reg :: "register \<Rightarrow> u32"
  ar_mem :: "nat \<Rightarrow> u32"
  ar_pc :: u32
  ar_next_pc :: u32

definition set_reg :: "register \<Rightarrow> u32 \<Rightarrow> arch \<Rightarrow> arch" where
  "set_reg r v m = m\<lparr>ar_reg := (ar_reg m)(r := (if r = R_ZERO then 0 else v))\<rparr>"

definition set_word :: "u32 \<Rightarrow> u32 \<Rightarrow> arch \<Rightarrow> arch" where
  "set_word addr v m = m\<lparr>ar_mem := (ar_mem m)(compress_addr addr := v)\<rparr>"

definition obind :: "('e, 'a) outcome \<Rightarrow> ('a \<Rightarrow> ('e, 'b) outcome) \<Rightarrow> ('e, 'b) outcome" where
  "obind x f = (case x of Inl e \<Rightarrow> Inl e | Inr v \<Rightarrow> f v)"

definition isa_operands :: "instruction \<Rightarrow> arch \<Rightarrow> (execution_error, register \<times> u32 \<times> u32) outcome" where
  "isa_operands i m =
     obind (register_from (op_a i)) (\<lambda>rd.
     if \<not> imm_c i then
       obind (register_from (ucast (op_b i))) (\<lambda>rs. obind (register_from (ucast (op_c i))) (\<lambda>rt.
       Inr (rd, ar_reg m rs, ar_reg m rt)))
     else if \<not> imm_b i then obind (register_from (ucast (op_b i))) (\<lambda>rs. Inr (rd, ar_reg m rs, op_c i))
     else Inr (rd, op_b i, op_c i))"

definition isa_alu :: "instruction \<Rightarrow> arch \<Rightarrow> (execution_error, arch) outcome" where
  "isa_alu i m =
     obind (isa_operands i m) (\<lambda>(rd, b, c).
     obind (alu_op (opcode i) b c) (\<lambda>(a, hi).
     Inr (if is_use_lo_hi_alu (opcode i) then set_reg R_HI hi (set_reg R_LO a m) else set_reg rd a m)))"

definition isa_load :: "instruction \<Rightarrow> arch \<Rightarrow> (execution_error, arch) outcome" where
  "isa_load i m =
     obind (register_from (op_a i)) (\<lambda>rt. obind (register_from (ucast (op_b i))) (\<lambda>rs.
     let addr = ar_reg m rs + op_c i in
     if \<not> valid_page (aligned addr) then Inl (Panic IndexOutOfBounds)
     else if out_of_bounds addr then Inl (Err (MemoryOutOfBoundsAccess (ucast addr)))
     else obind (load_value (opcode i) addr (ar_mem m (compress_addr (aligned addr))) (ar_reg m rt)) (\<lambda>v.
     Inr (set_reg rt v m))))"

text \<open>The store-conditional \<open>SC\<close> always stores and sets its register to 1, as \<open>execute_store\<close> does: the machine
  does not track the matching \<open>LL\<close>, on which the repository's documentation makes the store depend.\<close>

definition isa_store :: "instruction \<Rightarrow> arch \<Rightarrow> (execution_error, arch) outcome" where
  "isa_store i m =
     obind (register_from (op_a i)) (\<lambda>rt. obind (register_from (ucast (op_b i))) (\<lambda>rs.
     let addr = ar_reg m rs + op_c i in
     if \<not> valid_page (aligned addr) then Inl (Panic IndexOutOfBounds)
     else obind (store_value (opcode i) addr (ar_mem m (compress_addr (aligned addr))) (ar_reg m rt)) (\<lambda>v.
     if out_of_bounds addr then Inl (Err (MemoryOutOfBoundsAccess (ucast addr)))
     else Inr (let m = set_word (aligned addr) v m in if opcode i = Op_SC then set_reg rt 1 m else m))))"

definition isa_branch :: "instruction \<Rightarrow> arch \<Rightarrow> (execution_error, u32) outcome" where
  "isa_branch i m =
     obind (register_from (op_a i)) (\<lambda>rs. obind (register_from (ucast (op_b i))) (\<lambda>rt.
     obind (branch_taken (opcode i) (ar_reg m rs) (if only_one_operand (opcode i) then 0 else ar_reg m rt)) (\<lambda>taken.
     Inr (if taken then ar_next_pc m + op_c i else ar_next_pc m + 4))))"

definition isa_jump :: "instruction \<Rightarrow> arch \<Rightarrow> (execution_error, arch \<times> u32) outcome" where
  "isa_jump i m =
     obind (register_from (op_a i)) (\<lambda>link.
     obind (if opcode i = Op_Jump then obind (register_from (ucast (op_b i))) (\<lambda>r. Inr (ar_reg m r))
            else if opcode i = Op_Jumpi then Inr (op_b i)
            else Inr (ar_next_pc m + op_b i)) (\<lambda>target.
     Inr (set_reg link (ar_next_pc m + 4) m, target)))"

definition isa_madd :: "instruction \<Rightarrow> arch \<Rightarrow> (execution_error, arch) outcome" where
  "isa_madd i m =
     obind (register_from (op_a i)) (\<lambda>lo. obind (register_from (ucast (op_b i))) (\<lambda>rt.
     obind (register_from (ucast (op_c i))) (\<lambda>rs.
     let out = madd_value (opcode i) (ar_reg m R_HI) (ar_reg m R_LO) (ar_reg m rt) (ar_reg m rs)
     in Inr (set_reg R_HI (hi_word out) (set_reg lo (lo_word out) m)))))"

definition isa_misc :: "instruction \<Rightarrow> arch \<Rightarrow> (execution_error, arch) outcome" where
  "isa_misc i m =
     (if opcode i \<in> {Op_MADDU, Op_MSUBU, Op_MADD, Op_MSUB} then isa_madd i m
      else obind (register_from (op_a i)) (\<lambda>rd. obind (register_from (ucast (op_b i))) (\<lambda>rt.
        let b = ar_reg m rt in
        if opcode i = Op_WSBH then Inr (set_reg rd (wsbh_value b) m)
        else if opcode i = Op_EXT then obind (ext_value b (op_c i)) (\<lambda>v. Inr (set_reg rd v m))
        else if opcode i = Op_INS then obind (ins_value (ar_reg m rd) b (op_c i)) (\<lambda>v. Inr (set_reg rd v m))
        else if opcode i = Op_SEXT then Inr (set_reg rd (sext_value b (op_c i)) m)
        else if opcode i = Op_TEQ then if ar_reg m rd = b then Inl (Err ExceptionOrTrap) else Inr m
        else obind (register_from (ucast (op_c i))) (\<lambda>rc.
          Inr (set_reg rd (if (ar_reg m rc = 0) = (opcode i = Op_MEQ) then b else ar_reg m rd) m)))))"

text \<open>The new registers and memory, and the address after the delay slot.\<close>

definition isa_exec :: "instruction \<Rightarrow> arch \<Rightarrow> (execution_error, arch \<times> u32) outcome" where
  "isa_exec i m =
     (let next = (\<lambda>m'. Inr (m', ar_next_pc m + 4)) in
      if is_alu_instruction i then obind (isa_alu i m) next
      else if is_memory_load_instruction i then obind (isa_load i m) next
      else if is_memory_store_instruction i then obind (isa_store i m) next
      else if is_branch_instruction i then obind (isa_branch i m) (\<lambda>target. Inr (m, target))
      else if is_jump_instruction i then isa_jump i m
      else if is_misc_instruction i then obind (isa_misc i m) next
      else if opcode i = Op_UNIMPL then Inl (Err (UnsupportedInstruction (op_c i)))
      else Inl (Panic Unreachable))"

definition isa_step :: "instruction \<Rightarrow> arch \<Rightarrow> (execution_error, arch) outcome" where
  "isa_step i m =
     obind (isa_exec i m) (\<lambda>(m', target).
     if target = 0 then Inl (Err NullPointerReference)
     else Inr (m'\<lparr>ar_pc := ar_next_pc m, ar_next_pc := target\<rparr>))"

section \<open>Abstraction\<close>

definition arch :: "executor \<Rightarrow> arch" where
  "arch s = \<lparr>ar_reg = (\<lambda>r. peek_value (reg_loc r) s), ar_mem = (\<lambda>w. rec_value (cell (LMem w) (LMem w) s)),
             ar_pc = st_pc (ex_state s), ar_next_pc = st_next_pc (ex_state s)\<rparr>"

text \<open>No input word waits in a register cell.\<close>

definition no_register_hints :: "executor \<Rightarrow> bool" where
  "no_register_hints s \<longleftrightarrow> registers (st_uninitialized_memory (ex_state s)) = Map.empty"

text \<open>A sub-word store reads the rest of the word without looking at the waiting input: its word must not
  be an input word that was never accessed.\<close>

definition store_ready :: "instruction \<Rightarrow> executor \<Rightarrow> bool" where
  "store_ready i s \<longleftrightarrow> opcode i \<in> {Op_SB, Op_SH, Op_SWL, Op_SWR} \<longrightarrow>
     (\<forall>rs. register_from (ucast (op_b i)) = (Inr rs :: execution_error fail + register) \<longrightarrow>
       (let w = page_loc (aligned (ar_reg (arch s) rs + op_c i))
        in mem_at (st_memory (ex_state s)) w \<noteq> None \<or> mem_at (st_uninitialized_memory (ex_state s)) w = None))"

text \<open>What holds between the accesses of one instruction, started in \<open>s0\<close>.\<close>

definition during ::
  "executor \<Rightarrow> arch \<Rightarrow> (nat \<rightharpoonup> memory_record) \<Rightarrow> memory_record_enum option \<Rightarrow> executor \<Rightarrow> bool" where
  "during s0 m pt acc s \<longleftrightarrow>
     frame s0 s \<and> arch s = m \<and> acc_memory (ex_memory_accesses s) = acc \<and>
     page_table (st_memory (ex_state s)) = pt"

lemma reg_loc_inject [simp]: "reg_loc r = reg_loc r' \<longleftrightarrow> r = r'"
  by (simp add: reg_loc_def flip: word_unat_eq_iff)

lemma reg_page_loc [simp]: "reg_loc r \<noteq> LMem w" "LMem w \<noteq> reg_loc r" "reg_loc r \<noteq> page_loc a"
  by (simp_all add: reg_loc_def page_loc_def)

lemma cell_value:
  "rec_value (cell loc uloc s) = (case mem_at (st_memory (ex_state s)) loc of Some r \<Rightarrow> rec_value r | None \<Rightarrow> initial_value uloc s)"
  by (simp add: cell_def split: option.split)

lemma arch_eqI:
  assumes "\<And>r. peek_value (reg_loc r) t = f r" "\<And>w. rec_value (cell (LMem w) (LMem w) t) = g w"
    "st_pc (ex_state t) = p" "st_next_pc (ex_state t) = np"
  shows "arch t = \<lparr>ar_reg = f, ar_mem = g, ar_pc = p, ar_next_pc = np\<rparr>"
  using assms by (simp add: arch_def)

lemma arch_cong:
  "st_memory (ex_state t) = st_memory (ex_state s) \<Longrightarrow> st_uninitialized_memory (ex_state t) = st_uninitialized_memory (ex_state s) \<Longrightarrow>
   st_pc (ex_state t) = st_pc (ex_state s) \<Longrightarrow> st_next_pc (ex_state t) = st_next_pc (ex_state s) \<Longrightarrow> arch t = arch s"
  by (simp add: arch_def peek_value_def cell_value initial_value_def fun_eq_iff split: option.split)

lemma reg_cell_value: "no_register_hints s \<Longrightarrow> rec_value (reg_cell r s) = ar_reg (arch s) r"
  by (simp add: no_register_hints_def arch_def cell_value peek_value_def initial_value_def reg_loc_def split: option.split)

lemma word_cell_value: "rec_value (word_cell addr s) = ar_mem (arch s) (compress_addr addr)"
  by (simp add: arch_def page_loc_def)

lemma accessed_initial: "accessed loc cur s t \<Longrightarrow> initial_value u t = initial_value u s"
  using frame_eqs(5) by (auto simp: initial_value_def accessed_def)

lemma arch_accessed_reg:
  assumes "accessed (reg_loc r) cur s t"
  shows "arch t = (arch s)\<lparr>ar_reg := (ar_reg (arch s))(r := rec_value cur)\<rparr>"
    and "page_table (st_memory (ex_state t)) = page_table (st_memory (ex_state s))"
proof -
  have m: "st_memory (ex_state t) = mem_set (st_memory (ex_state s)) (reg_loc r) (Some cur)" and f: "frame s t"
    using assms by (simp_all add: accessed_def)
  show "arch t = (arch s)\<lparr>ar_reg := (ar_reg (arch s))(r := rec_value cur)\<rparr>"
    using frame_eqs(1,2) [OF f] accessed_initial [OF assms]
    by (auto simp: arch_def peek_value_def cell_value m fun_eq_iff simp del: mem_at.simps split: option.split)
  show "page_table (st_memory (ex_state t)) = page_table (st_memory (ex_state s))"
    by (simp add: m reg_loc_def)
qed

lemma arch_accessed_word:
  assumes "accessed (page_loc addr) cur s t"
  shows "arch t = set_word addr (rec_value cur) (arch s)"
proof -
  have m: "st_memory (ex_state t) = mem_set (st_memory (ex_state s)) (page_loc addr) (Some cur)" and f: "frame s t"
    using assms by (simp_all add: accessed_def)
  show ?thesis
    using frame_eqs(1,2) [OF f] accessed_initial [OF assms]
    by (auto simp: arch_def set_word_def peek_value_def cell_value m fun_eq_iff page_loc_def
        simp del: mem_at.simps mem_set.simps split: option.split)
qed

section \<open>Rules on the abstract machine\<close>

named_theorems isa_rules \<open>rules for the accesses in terms of the abstract machine\<close>

lemma during_frame: "during s0 m pt acc s \<Longrightarrow> frame s0 s"
  by (simp add: during_def)

lemma duringI:
  "during s0 m pt acc s \<Longrightarrow> accessed loc cur s t \<Longrightarrow> arch t = m' \<Longrightarrow>
   acc_memory (ex_memory_accesses t) = acc' \<Longrightarrow> page_table (st_memory (ex_state t)) = pt' \<Longrightarrow> during s0 m' pt' acc' t"
  unfolding during_def accessed_def using frame_trans by blast

lemma no_register_hints_frame: "frame s t \<Longrightarrow> no_register_hints t = no_register_hints s"
  by (simp add: no_register_hints_def frame_eqs)

lemma isa_rr_cpu [isa_rules]:
  assumes "during s0 m pt acc s" "no_register_hints s0" "p \<in> {PosA, PosB, PosC}"
    and "\<And>t. during s0 m pt acc t \<Longrightarrow> Q (ar_reg m r) t"
  shows "wp (rr_cpu r p) Q E s"
proof (rule wp_rr_cpu [OF assms(3)])
  fix t
  assume a: "accessed (reg_loc r) (touched p s (reg_cell r s)) s t"
    and acc: "ex_memory_accesses t = (if traced s
             then set_access p (Read (read_record_new (touched p s (reg_cell r s)) (reg_cell r s))) (ex_memory_accesses s)
             else ex_memory_accesses s)"
  have m: "arch s = m" and "no_register_hints s"
    using assms(1,2) no_register_hints_frame [of s0 s] by (simp_all add: during_def)
  then have v: "rec_value (reg_cell r s) = ar_reg m r" by (simp add: reg_cell_value)
  have "arch t = m" using arch_accessed_reg(1) [OF a] m v by (simp add: touched_def at_time_def)
  moreover have "acc_memory (ex_memory_accesses t) = acc"
    using acc assms(1,3) by (auto simp: during_def)
  moreover have "page_table (st_memory (ex_state t)) = pt"
    using arch_accessed_reg(2) [OF a] assms(1) by (simp add: during_def)
  ultimately have "during s0 m pt acc t" by (rule duringI [OF assms(1) a])
  then show "Q (rec_value (reg_cell r s)) t" unfolding v by (rule assms(4))
qed

lemma isa_rw_cpu [isa_rules]:
  assumes "during s0 m pt acc s" "p \<in> {PosA, PosHI}"
    and "\<And>t. during s0 (set_reg r v m) pt acc t \<Longrightarrow> Q () t"
  shows "wp (rw_cpu r v p) Q E s"
proof (rule wp_rw_cpu [OF assms(2)])
  fix t
  let ?v = "if r = R_ZERO then 0 else v"
  assume a: "accessed (reg_loc r) (stored p s ?v) s t"
    and acc: "ex_memory_accesses t = (if traced s
             then set_access p (Write (write_record_new (stored p s ?v) (reg_cell r s))) (ex_memory_accesses s)
             else ex_memory_accesses s)"
  have "arch t = set_reg r v m"
    using arch_accessed_reg(1) [OF a] assms(1) by (simp add: during_def stored_def written_def set_reg_def)
  moreover have "acc_memory (ex_memory_accesses t) = acc"
    using acc assms(1,2) by (auto simp: during_def)
  moreover have "page_table (st_memory (ex_state t)) = pt"
    using arch_accessed_reg(2) [OF a] assms(1) by (simp add: during_def)
  ultimately have "during s0 (set_reg r v m) pt acc t" by (rule duringI [OF assms(1) a])
  then show "Q () t" by (rule assms(3))
qed

lemma isa_mr_cpu [isa_rules]:
  assumes "during s0 m pt acc s" "\<not> valid_page addr \<Longrightarrow> E (Panic IndexOutOfBounds)"
    and "\<And>t pt' acc'. valid_page addr \<Longrightarrow> during s0 m pt' acc' t \<Longrightarrow>
           (ex_executor_mode s0 = Trace \<Longrightarrow> \<exists>x. acc' = Some x \<and> rec_value (current_record x) = ar_mem m (compress_addr addr)) \<Longrightarrow>
           Q (ar_mem m (compress_addr addr)) t"
  shows "wp (mr_cpu addr) Q E s"
proof (rule wp_mr_cpu)
  fix t
  let ?x = "Read (read_record_new (touched PosMemory s (word_cell addr s)) (word_cell addr s))"
  assume v: "valid_page addr" and a: "accessed (page_loc addr) (touched PosMemory s (word_cell addr s)) s t"
    and acc: "ex_memory_accesses t = (if ex_executor_mode s = Trace
             then set_access PosMemory ?x (ex_memory_accesses s) else ex_memory_accesses s)"
  have val: "rec_value (word_cell addr s) = ar_mem m (compress_addr addr)"
    using word_cell_value [of addr s] assms(1) by (simp add: during_def)
  have "arch t = m"
    using arch_accessed_word [OF a] assms(1) by (simp add: during_def set_word_def touched_def at_time_def val)
  from duringI [OF assms(1) a this refl refl]
  have d: "during s0 m (page_table (st_memory (ex_state t))) (acc_memory (ex_memory_accesses t)) t" .
  have "\<exists>x. acc_memory (ex_memory_accesses t) = Some x \<and> rec_value (current_record x) = ar_mem m (compress_addr addr)"
    if "ex_executor_mode s0 = Trace"
    using that acc frame_eqs(6) [OF during_frame [OF assms(1)]] val
    by (simp add: read_record_new_def touched_def at_time_def)
  from assms(3) [OF v d this] show "Q (rec_value (word_cell addr s)) t" by (simp add: val)
qed (fact assms(2))

lemma isa_mw_cpu [isa_rules]:
  assumes "during s0 m pt acc s" "\<not> valid_page addr \<Longrightarrow> E (Panic IndexOutOfBounds)"
    and "\<And>t pt' acc'. valid_page addr \<Longrightarrow> during s0 (set_word addr v m) pt' acc' t \<Longrightarrow>
           (ex_executor_mode s0 = Trace \<Longrightarrow> acc' \<noteq> None) \<Longrightarrow> Q () t"
  shows "wp (mw_cpu addr v) Q E s"
proof (rule wp_mw_cpu)
  fix t
  let ?x = "Write (write_record_new (stored PosMemory s v) (word_cell addr s))"
  assume va: "valid_page addr" and a: "accessed (page_loc addr) (stored PosMemory s v) s t"
    and acc: "ex_memory_accesses t = (if ex_executor_mode s = Trace
             then set_access PosMemory ?x (ex_memory_accesses s) else ex_memory_accesses s)"
  have "arch t = set_word addr v m"
    using arch_accessed_word [OF a] assms(1) by (simp add: during_def stored_def written_def)
  from duringI [OF assms(1) a this refl refl]
  have d: "during s0 (set_word addr v m) (page_table (st_memory (ex_state t))) (acc_memory (ex_memory_accesses t)) t" .
  have "acc_memory (ex_memory_accesses t) \<noteq> None" if "ex_executor_mode s0 = Trace"
    using that acc frame_eqs(6) [OF during_frame [OF assms(1)]] by simp
  from assms(3) [OF va d this] show "Q () t" .
qed (fact assms(2))

lemma during_peeked: "during s0 m pt acc s \<Longrightarrow> peeked s t \<Longrightarrow> during s0 m pt acc t"
  unfolding during_def peeked_def
  by (auto intro: frame_trans simp: arch_def peek_value_def cell_cong [of t s])

lemma isa_peek_register [isa_rules]:
  assumes "during s0 m pt acc s" and "\<And>t. during s0 m pt acc t \<Longrightarrow> Q (ar_reg m r) t"
  shows "wp (peek_register r) Q E s"
proof (rule wp_peek_register)
  fix t
  assume "peeked s t"
  with assms(2) [OF during_peeked [OF assms(1)]] show "Q (peek_value (reg_loc r) s) t"
    using assms(1) by (auto simp: during_def arch_def)
qed

lemma isa_word [isa_rules]:
  assumes "during s0 m pt acc s" "\<not> valid_page addr \<Longrightarrow> E (Panic IndexOutOfBounds)"
    and "\<And>t. valid_page addr \<Longrightarrow> during s0 m pt acc t \<Longrightarrow>
           Q (case pt (compress_addr addr) of None \<Rightarrow> 0 | Some r \<Rightarrow> rec_value r) t"
  shows "wp (word addr) Q E s"
proof (rule wp_word)
  fix t
  assume "valid_page addr" "peeked s t"
  with assms(3) [OF _ during_peeked [OF assms(1)]] show "Q (peek_value (page_loc addr) s) t"
    using assms(1) by (auto simp: during_def peek_value_def page_loc_def)
qed (fact assms(2))

end
