(* ===== verification/Linux_Syscalls.thy ===== *)
theory Linux_Syscalls
  imports Write_Syscall Isa
begin

text \<open>
  The Linux system calls (\<^verbatim>\<open>syscalls/precompiles/sys_linux\<close>). Each handler computes its result, writes the error
  number to A3, and records one \<open>LinuxEvent\<close> with its register accesses.
\<close>

unbundle bit_operations_syntax

section \<open>Handlers\<close>

definition emit_linux ::
  "u32 \<Rightarrow> syscall_code \<Rightarrow> u32 \<Rightarrow> u32 \<Rightarrow> u32 \<Rightarrow> memory_read_record list \<Rightarrow> memory_write_record list \<Rightarrow> (u32 option) sys" where
  "emit_linux start_clk code a0 a1 v0 reads writes =
     bindM (getM (\<lambda>c. st_current_shard (ex_state (sc_rt c)))) (\<lambda>shard.
     bindM ctx_postprocess (\<lambda>local_mem.
     bindM (getM (\<lambda>c. syscall_event (sc_rt c) start_clk None (sc_next_pc c) (syscall_id code) a0 a1)) (\<lambda>se.
     bindM (add_precompile_event SC_SYS_LINUX se
       (PE_Linux \<lparr>lin_shard = shard, lin_clk = start_clk, lin_a0 = a0, lin_a1 = a1, lin_v0 = v0,
                  lin_syscall_code = syscall_id code, lin_read_records = reads, lin_write_records = writes,
                  lin_local_mem_access = local_mem\<rparr>)) (\<lambda>_.
     retM (Some v0)))))"

definition MAX_HEAP_SIZE :: u32 where "MAX_HEAP_SIZE = 0x40000000"

definition checked_add :: "u32 \<Rightarrow> u32 \<Rightarrow> u32 option" where
  "checked_add x y = (if unat x + unat y < 2 ^ 32 then Some (x + y) else None)"

definition max_brk :: "u32 \<Rightarrow> (execution_error, u32) outcome" where
  "max_brk initial_brk =
     (case checked_add initial_brk MAX_HEAP_SIZE of
        None \<Rightarrow> Inl (Err InvalidSyscallArgs)
      | Some limit \<Rightarrow> Inr (min limit (of_nat MAX_MEMORY)))"

definition resolve_brk :: "u32 \<Rightarrow> u32 \<Rightarrow> u32 \<Rightarrow> (execution_error, u32) outcome" where
  "resolve_brk initial_brk current_brk requested_brk =
     (case max_brk initial_brk of
        Inl e \<Rightarrow> Inl e
      | Inr limit \<Rightarrow>
          (let v0 = max requested_brk current_brk
           in if v0 > limit then Inl (Err InvalidSyscallArgs) else Inr v0))"

definition execute_sys_brk :: "syscall_code \<Rightarrow> u32 \<Rightarrow> u32 \<Rightarrow> (u32 option) sys" where
  "execute_sys_brk code a0 a1 =
     bindM (getM sc_clk) (\<lambda>start_clk.
     bindM (ctx_rr_traced R_BRK) (\<lambda>(rec, brk).
     bindM (getM (\<lambda>c. case map_of (prog_image (ex_program (sc_rt c))) (reg_index R_BRK) of
                        None \<Rightarrow> brk | Some v \<Rightarrow> v)) (\<lambda>initial_brk.
     bindM (liftM (resolve_brk initial_brk brk a0)) (\<lambda>v0.
     bindM (ctx_rw_traced R_A3 0) (\<lambda>a3_record.
     emit_linux start_clk code a0 a1 v0 [rec] [a3_record])))))"

definition execute_sys_clone :: "syscall_code \<Rightarrow> u32 \<Rightarrow> u32 \<Rightarrow> (u32 option) sys" where
  "execute_sys_clone code a0 a1 =
     bindM (getM sc_clk) (\<lambda>start_clk.
     bindM (ctx_rw_traced R_A3 0) (\<lambda>a3_record.
     emit_linux start_clk code a0 a1 1 [] [a3_record]))"

definition execute_sys_exit_group :: "syscall_code \<Rightarrow> u32 \<Rightarrow> u32 \<Rightarrow> (u32 option) sys" where
  "execute_sys_exit_group code a0 a1 =
     bindM (getM sc_clk) (\<lambda>start_clk.
     bindM (set_next_pc 0) (\<lambda>_. bindM (set_exit_code a0) (\<lambda>_.
     bindM (ctx_rw_traced R_A3 0) (\<lambda>a3_record.
     emit_linux start_clk code a0 a1 0 [] [a3_record]))))"

definition MIPS_EBADF :: u32 where "MIPS_EBADF = 9"

text \<open>Result and error number of \<open>fcntl\<close>.\<close>

definition fcntl_result :: "u32 \<Rightarrow> u32 \<Rightarrow> u32 \<times> u32" where
  "fcntl_result a0 a1 =
     (if a1 = 3 then
        if a0 = FD_STDIN then (0, 0)
        else if a0 = FD_STDOUT \<or> a0 = FD_STDERR then (1, 0)
        else (0xFFFFFFFF, MIPS_EBADF)
      else if a1 = 1 then
        if a0 = FD_STDIN \<or> a0 = FD_STDOUT \<or> a0 = FD_STDERR then (a0, 0) else (0xFFFFFFFF, MIPS_EBADF)
      else (0xFFFFFFFF, MIPS_EBADF))"

definition execute_sys_fcntl :: "syscall_code \<Rightarrow> u32 \<Rightarrow> u32 \<Rightarrow> (u32 option) sys" where
  "execute_sys_fcntl code a0 a1 =
     bindM (getM sc_clk) (\<lambda>start_clk.
     let (v0, errno) = fcntl_result a0 a1 in
     bindM (ctx_rw_traced R_A3 errno) (\<lambda>a3_record.
     emit_linux start_clk code a0 a1 v0 [] [a3_record]))"

definition PAGE_ADDR_SIZE :: nat where "PAGE_ADDR_SIZE = 12"
definition PAGE_ADDR_MASK :: u32 where "PAGE_ADDR_MASK = push_bit PAGE_ADDR_SIZE 1 - 1"
definition PAGE_SIZE :: u32 where "PAGE_SIZE = push_bit PAGE_ADDR_SIZE 1"

definition align_size :: "u32 \<Rightarrow> (execution_error, u32) outcome" where
  "align_size sz =
     (if sz AND PAGE_ADDR_MASK = 0 then Inr sz
      else case checked_add sz (PAGE_SIZE - (sz AND PAGE_ADDR_MASK)) of
             None \<Rightarrow> Inl (Err InvalidSyscallArgs)
           | Some up \<Rightarrow> Inr up)"

definition execute_sys_mmap :: "syscall_code \<Rightarrow> u32 \<Rightarrow> u32 \<Rightarrow> (u32 option) sys" where
  "execute_sys_mmap code a0 a1 =
     bindM (getM sc_clk) (\<lambda>start_clk.
     bindM (liftM (align_size a1)) (\<lambda>sz.
     bindM (ctx_rw_traced R_A3 0) (\<lambda>a3_record.
     bindM (if a0 = 0 then
              bindM (register_unsafe R_HEAP) (\<lambda>v0.
              bindM (ctx_rw_traced R_HEAP (v0 + sz)) (\<lambda>w_record.
              retM (v0, [a3_record, w_record])))
            else retM (a0, [a3_record])) (\<lambda>(v0, write_records).
     emit_linux start_clk code a0 a1 v0 [] write_records))))"

definition execute_sys_nop :: "syscall_code \<Rightarrow> u32 \<Rightarrow> u32 \<Rightarrow> (u32 option) sys" where
  "execute_sys_nop code a0 a1 =
     bindM (getM sc_clk) (\<lambda>start_clk.
     bindM (ctx_rw_traced R_A3 0) (\<lambda>a3_record.
     emit_linux start_clk code a0 a1 0 [] [a3_record]))"

definition execute_sys_read :: "syscall_code \<Rightarrow> u32 \<Rightarrow> u32 \<Rightarrow> (u32 option) sys" where
  "execute_sys_read code a0 a1 =
     bindM (getM sc_clk) (\<lambda>start_clk.
     let (v0, errno) = (if a0 \<noteq> FD_STDIN then (0xFFFFFFFF, MIPS_EBADF) else (0, 0)) in
     bindM (ctx_rw_traced R_A3 errno) (\<lambda>a3_record.
     emit_linux start_clk code a0 a1 v0 [] [a3_record]))"

definition execute_sys_write :: "syscall_code \<Rightarrow> u32 \<Rightarrow> u32 \<Rightarrow> (u32 option) sys" where
  "execute_sys_write code a0 a1 =
     bindM (getM sc_clk) (\<lambda>start_clk.
     bindM (ctx_rr_traced R_A2) (\<lambda>(rec, v0).
     bindM (bytes_unsafe (byte_addrs a1 v0)) (\<lambda>bytes.
     bindM (on_rt (write_fd a0 bytes)) (\<lambda>_.
     bindM (ctx_rw_traced R_A3 0) (\<lambda>a3_record.
     emit_linux start_clk code a0 a1 v0 [rec] [a3_record])))))"

section \<open>Rules for the operations of the context\<close>

text \<open>The context during a call that started in \<open>c0\<close>: the abstract machine is \<open>m\<close>, and apart from the memory
  cells the execution state, the program, the mode and the local variables of the context are those of \<open>c0\<close>.\<close>

definition calling :: "syscall_context \<Rightarrow> arch \<Rightarrow> syscall_context \<Rightarrow> bool" where
  "calling c0 m c \<longleftrightarrow>
     arch (sc_rt c) = m \<and> state_rest (ex_state (sc_rt c)) = state_rest (ex_state (sc_rt c0)) \<and>
     ex_program (sc_rt c) = ex_program (sc_rt c0) \<and> ex_executor_mode (sc_rt c) = ex_executor_mode (sc_rt c0) \<and>
     ex_unconstrained (sc_rt c) = ex_unconstrained (sc_rt c0) \<and>
     sc_current_shard c = sc_current_shard c0 \<and> sc_clk c = sc_clk c0 \<and>
     sc_next_pc c = sc_next_pc c0 \<and> sc_exit_code c = sc_exit_code c0"

named_theorems call_rules \<open>rules for the operations of the system call context\<close>

lemma calling_refl: "calling c (arch (sc_rt c)) c"
  by (simp add: calling_def)

lemma calling_no_register_hints:
  assumes "calling c0 m c"
  shows "no_register_hints (sc_rt c) = no_register_hints (sc_rt c0)"
proof -
  have "ex_state (sc_rt c) = (ex_state (sc_rt c0))\<lparr>st_memory := st_memory (ex_state (sc_rt c))\<rparr>"
    using assms by (simp add: calling_def state_rest_eq)
  then obtain mem where "ex_state (sc_rt c) = (ex_state (sc_rt c0))\<lparr>st_memory := mem\<rparr>" by blast
  then show ?thesis by (simp add: no_register_hints_def)
qed

lemma calling_frame:
  assumes "calling c0 m c" "frame (sc_rt c) s" "arch s = m'"
  shows "calling c0 m' (c\<lparr>sc_rt := s\<rparr>)" "calling c0 m' (c\<lparr>sc_rt := s, sc_local_memory_access := l\<rparr>)"
  using assms by (simp_all add: calling_def frame_def)

lemma call_rr_traced [call_rules]:
  assumes "calling c0 m c" "no_register_hints (sc_rt c0)"
    and "\<And>rec d. calling c0 m d \<Longrightarrow> Q (rec, ar_reg m r) d"
  shows "wp (ctx_rr_traced r) Q E c"
proof -
  let ?s = "sc_rt c" and ?cur = "at_time (sc_current_shard c) (sc_clk c) (reg_cell r (sc_rt c))"
  have v: "rec_value (reg_cell r ?s) = ar_reg m r"
    using reg_cell_value [of ?s r] assms(1,2) calling_no_register_hints [OF assms(1)] by (simp add: calling_def)
  obtain t lma' where t: "rr_traced r (sc_current_shard c) (sc_clk c) (Some (sc_local_memory_access c)) ?s =
      Inr ((read_record_new ?cur (reg_cell r ?s), lma'), t)" "accessed (reg_loc r) ?cur ?s t"
    using rr_traced_spec by blast
  have "arch t = m" using arch_accessed_reg(1) [OF t(2)] v assms(1) by (simp add: at_time_def calling_def)
  from calling_frame(2) [OF assms(1) _ this] t(2)
  have "calling c0 m (c\<lparr>sc_rt := t, sc_local_memory_access := l\<rparr>)" for l by (simp add: accessed_def)
  from assms(3) [OF this] show ?thesis
    using t(1) v by (simp add: ctx_rr_traced_def with_local_def wp_def read_record_new_def at_time_def)
qed

lemma call_rw_traced [call_rules]:
  assumes "calling c0 m c"
    and "\<And>rec d. calling c0 (m\<lparr>ar_reg := (ar_reg m)(r := v)\<rparr>) d \<Longrightarrow> Q rec d"
  shows "wp (ctx_rw_traced r v) Q E c"
proof -
  let ?s = "sc_rt c" and ?cur = "written (sc_current_shard c) (sc_clk c) v"
  obtain t lma' x where t: "rw_cpu_traced r v (sc_current_shard c) (sc_clk c) (Some (sc_local_memory_access c)) ?s =
      Inr ((x, lma'), t)" "accessed (reg_loc r) ?cur ?s t"
    using rw_cpu_traced_spec by blast
  have "arch t = m\<lparr>ar_reg := (ar_reg m)(r := v)\<rparr>"
    using arch_accessed_reg(1) [OF t(2)] assms(1) by (simp add: written_def calling_def)
  from calling_frame(2) [OF assms(1) _ this] t(2)
  have "calling c0 (m\<lparr>ar_reg := (ar_reg m)(r := v)\<rparr>) (c\<lparr>sc_rt := t, sc_local_memory_access := l\<rparr>)" for l
    by (simp add: accessed_def)
  from assms(2) [OF this] show ?thesis
    using t(1) by (simp add: ctx_rw_traced_def with_local_def wp_def)
qed

lemma call_register_unsafe [call_rules]:
  assumes "calling c0 m c" and "\<And>d. calling c0 m d \<Longrightarrow> Q (ar_reg m r) d"
  shows "wp (register_unsafe r) Q E c"
proof -
  have "ar_reg m r = peek_value (reg_loc r) (sc_rt c)"
    using assms(1) by (auto simp: calling_def arch_def)
  then have p: "peeked (sc_rt c) (snd (peek (reg_loc r) (sc_rt c)))"
    and v: "peek (reg_loc r) (sc_rt c) = (ar_reg m r, snd (peek (reg_loc r) (sc_rt c)))"
    using peek_spec [of "reg_loc r" "sc_rt c"] by simp_all
  have "arch (snd (peek (reg_loc r) (sc_rt c))) = m"
    using p assms(1) by (auto simp: peeked_def calling_def intro: arch_cong)
  from calling_frame(1) [OF assms(1) _ this] p
  have "calling c0 m (c\<lparr>sc_rt := snd (peek (reg_loc r) (sc_rt c))\<rparr>)" by (simp add: peeked_def)
  from assms(2) [OF this] show ?thesis
    unfolding register_unsafe_def on_rt_def peek_register_def wp_def by (subst v) simp
qed

lemma move_local_state:
  "ex_state (snd (move_local es s)) = ex_state s" "ex_program (snd (move_local es s)) = ex_program s"
  "ex_executor_mode (snd (move_local es s)) = ex_executor_mode s"
  "ex_unconstrained (snd (move_local es s)) = ex_unconstrained s"
  by (induction es s rule: move_local.induct) (simp_all add: Let_def split_beta split: option.split)

lemma arch_state: "ex_state t = ex_state s \<Longrightarrow> arch t = arch s"
  by (rule arch_cong) simp_all

lemma precompile_code_linux: "precompile_code SC_SYS_LINUX"
  by code_simp

lemma call_emit_linux [call_rules]:
  assumes "calling c0 m c" and "\<And>d. calling c0 m d \<Longrightarrow> Q (Some v0) d"
  shows "wp (emit_linux start_clk code a0 a1 v0 reads writes) Q E c"
proof -
  have post: "wp ctx_postprocess (\<lambda>_ d. calling c0 m d) E c"
    using assms(1) by (auto simp: ctx_postprocess_def wp_def calling_def split_beta move_local_state arch_state [OF move_local_state(1)])
  have add: "wp (add_precompile_event SC_SYS_LINUX se e) (\<lambda>_ d. calling c0 m d) E d" if "calling c0 m d" for se e d
    using that by (auto simp: add_precompile_event_def wp_def add_event_def precompile_code_linux calling_def
        intro: arch_state)
  show ?thesis
    unfolding emit_linux_def wp_bindM wp_getM wp_retM
    by (rule wp_mono [OF post]) (auto intro: wp_mono [OF add] assms(2))
qed

section \<open>Properties\<close>

lemma and_page_mask: "unat (x AND PAGE_ADDR_MASK) = unat x mod 4096" for x :: u32
proof -
  have "PAGE_ADDR_MASK = mask 12" by (simp add: PAGE_ADDR_MASK_def PAGE_ADDR_SIZE_def mask_eq_exp_minus_1)
  then have "x AND PAGE_ADDR_MASK = take_bit 12 x" by (simp only: take_bit_eq_mask)
  then show ?thesis by (simp only: unsigned_take_bit_eq) (simp add: take_bit_eq_mod)
qed

lemma align_size_eq:
  "align_size x = (if unat x \<le> 2 ^ 32 - 4096 then Inr (word_of_nat (4096 * ((unat x + 4095) div 4096)))
                   else Inl (Err InvalidSyscallArgs))"
proof -
  define r where "r = unat x mod 4096"
  define q where "q = unat x div 4096"
  have x: "unat x = 4096 * q + r" "r < 4096" by (simp_all add: r_def q_def)
  have lt: "unat x < 2 ^ 32" using unsigned_less [of x] by simp
  have m: "unat (x AND PAGE_ADDR_MASK) = r" by (simp add: and_page_mask r_def)
  show ?thesis
  proof (cases "r = 0")
    case True
    then have "x AND PAGE_ADDR_MASK = 0" using m by (simp add: unat_eq_0)
    moreover have "unat x \<le> 2 ^ 32 - 4096" using x lt True by simp
    moreover have "(unat x + 4095) div 4096 = q" using x True by simp
    moreover have "word_of_nat (4096 * q) = x" unfolding x(1) [simplified True add_0_right, symmetric] by simp
    ultimately show ?thesis by (simp add: align_size_def)
  next
    case False
    then have nz: "x AND PAGE_ADDR_MASK \<noteq> 0" using m by (metis unat_0)
    have d: "unat (PAGE_SIZE - (x AND PAGE_ADDR_MASK)) = 4096 - r"
      using m x(2) by (simp add: PAGE_SIZE_def PAGE_ADDR_SIZE_def unat_sub word_le_nat_alt)
    have "(unat x + 4095) div 4096 = q + 1" using x False by linarith
    moreover have "x + (PAGE_SIZE - (x AND PAGE_ADDR_MASK)) = word_of_nat (unat x + (4096 - r))"
      unfolding d [symmetric] by simp
    moreover have "unat x + (4096 - r) = 4096 * (q + 1)" using x by simp
    moreover have "4096 * (q + 1) < 2 ^ 32 \<longleftrightarrow> unat x \<le> 2 ^ 32 - 4096"
    proof
      assume "4096 * (q + 1) < 2 ^ 32"
      with x show "unat x \<le> 2 ^ 32 - 4096" by simp
    next
      assume "unat x \<le> 2 ^ 32 - 4096"
      with x False show "4096 * (q + 1) < 2 ^ 32" by simp
    qed
    ultimately show ?thesis using nz by (simp add: align_size_def checked_add_def d)
  qed
qed

lemma resolve_brk_eq:
  "resolve_brk ini cur req =
     (if unat ini + 0x40000000 < 2 ^ 32 \<and> unat (max req cur) \<le> min (unat ini + 0x40000000) MAX_MEMORY
      then Inr (max req cur) else Inl (Err InvalidSyscallArgs))"
proof (cases "unat ini + 0x40000000 < 2 ^ 32")
  case True
  then have "unat (ini + MAX_HEAP_SIZE) = unat ini + 0x40000000"
    by (simp add: MAX_HEAP_SIZE_def unat_word_ariths)
  then have "max req cur > min (ini + MAX_HEAP_SIZE) (of_nat MAX_MEMORY) \<longleftrightarrow>
      \<not> unat (max req cur) \<le> min (unat ini + 0x40000000) MAX_MEMORY"
    by (auto simp: min_def word_less_nat_alt word_le_nat_alt MAX_MEMORY_def)
  then show ?thesis
    using True by (simp add: resolve_brk_def max_brk_def checked_add_def MAX_HEAP_SIZE_def Let_def)
qed (simp add: resolve_brk_def max_brk_def checked_add_def MAX_HEAP_SIZE_def)

definition initial_brk :: "executor \<Rightarrow> u32" where
  "initial_brk s = (case map_of (prog_image (ex_program s)) (reg_index R_BRK) of
     None \<Rightarrow> ar_reg (arch s) R_BRK | Some v \<Rightarrow> v)"

text \<open>C26: \<open>brk\<close> returns the larger of the requested and the current break as long as it stays within
  0x40000000 bytes of the initial break and within the memory, and fails with \<open>InvalidSyscallArgs\<close>
  otherwise. It clears A3 and changes no other register (the break register keeps its value) and no word of memory.\<close>

theorem sys_brk_correct:
  assumes "no_register_hints (sc_rt c)"
  shows "let s = sc_rt c; v = max a0 (ar_reg (arch s) R_BRK) in
         case execute_sys_brk code a0 a1 c of
           Inl f \<Rightarrow> f = Err InvalidSyscallArgs \<and>
             (unat (initial_brk s) + 0x40000000 \<ge> 2 ^ 32 \<or> unat v > min (unat (initial_brk s) + 0x40000000) MAX_MEMORY)
         | Inr (r, d) \<Rightarrow> r = Some v \<and> unat v \<le> min (unat (initial_brk s) + 0x40000000) MAX_MEMORY \<and>
             arch (sc_rt d) = (arch s)\<lparr>ar_reg := (ar_reg (arch s))(R_A3 := 0)\<rparr>"
proof -
  let ?m = "arch (sc_rt c)"
  have "wp (execute_sys_brk code a0 a1)
      (\<lambda>r d. resolve_brk (initial_brk (sc_rt c)) (ar_reg ?m R_BRK) a0 = Inr (max a0 (ar_reg ?m R_BRK)) \<and>
             r = Some (max a0 (ar_reg ?m R_BRK)) \<and> calling c (?m\<lparr>ar_reg := (ar_reg ?m)(R_A3 := 0)\<rparr>) d)
      (\<lambda>f. resolve_brk (initial_brk (sc_rt c)) (ar_reg ?m R_BRK) a0 = Inl f) c"
    unfolding execute_sys_brk_def wp_bindM wp_getM
  proof (rule call_rr_traced [OF calling_refl assms])
    fix rec d
    assume d: "calling c ?m d"
    then have i: "(case map_of (prog_image (ex_program (sc_rt d))) (reg_index R_BRK) of
        None \<Rightarrow> ar_reg ?m R_BRK | Some v \<Rightarrow> v) = initial_brk (sc_rt c)"
      by (simp add: calling_def initial_brk_def)
    show "wp (case (rec, ar_reg ?m R_BRK) of (rec, brk) \<Rightarrow>
       bindM (getM (\<lambda>c. case map_of (prog_image (ex_program (sc_rt c))) (reg_index R_BRK) of None \<Rightarrow> brk | Some v \<Rightarrow> v))
       (\<lambda>initial_brk. bindM (liftM (resolve_brk initial_brk brk a0)) (\<lambda>v0.
        bindM (ctx_rw_traced R_A3 0) (\<lambda>a3_record. emit_linux (sc_clk c) code a0 a1 v0 [rec] [a3_record]))))
      (\<lambda>r d. resolve_brk (initial_brk (sc_rt c)) (ar_reg ?m R_BRK) a0 = Inr (max a0 (ar_reg ?m R_BRK)) \<and>
             r = Some (max a0 (ar_reg ?m R_BRK)) \<and> calling c (?m\<lparr>ar_reg := (ar_reg ?m)(R_A3 := 0)\<rparr>) d)
      (\<lambda>f. resolve_brk (initial_brk (sc_rt c)) (ar_reg ?m R_BRK) a0 = Inl f) d"
      unfolding prod.case wp_bindM wp_getM wp_liftM i
      by (auto simp: resolve_brk_eq split: sum.splits if_splits intro!: call_rw_traced [OF d] call_emit_linux)
  qed
  then show ?thesis
    by (auto simp: wp_def Let_def resolve_brk_eq calling_def not_le split: sum.splits if_splits)
qed

definition blank_executor :: executor where
  "blank_executor = executor_new default_program 1 1 1 1 None False None Map.empty Map.empty"

lemma blank_no_register_hints: "no_register_hints blank_executor"
  by (simp add: blank_executor_def executor_new_def state_new_def empty_memory_def no_register_hints_def)

theorem sys_brk_correct_witness:
  "let s = blank_executor; v = max 0x1000 (ar_reg (arch s) R_BRK) in
   case execute_sys_brk SC_SYS_BRK 0x1000 0 (context_new s) of
     Inl f \<Rightarrow> f = Err InvalidSyscallArgs \<and>
       (unat (initial_brk s) + 0x40000000 \<ge> 2 ^ 32 \<or> unat v > min (unat (initial_brk s) + 0x40000000) MAX_MEMORY)
   | Inr (r, d) \<Rightarrow> r = Some v \<and> unat v \<le> min (unat (initial_brk s) + 0x40000000) MAX_MEMORY \<and>
       arch (sc_rt d) = (arch s)\<lparr>ar_reg := (ar_reg (arch s))(R_A3 := 0)\<rparr>"
  using sys_brk_correct [of "context_new blank_executor" "0x1000" SC_SYS_BRK 0] blank_no_register_hints
  by (simp add: context_new_def)

text \<open>C27: \<open>mmap\<close> rounds the length up to whole pages and fails with \<open>InvalidSyscallArgs\<close> exactly when the rounded
  length does not fit in 32 bits. Without an address hint it returns the heap pointer and advances it by
  the rounded length; with a hint it returns the hint. A3 is cleared; nothing else changes.\<close>

theorem sys_mmap_correct:
  "let s = sc_rt c; regs = (ar_reg (arch s))(R_A3 := 0); len = 4096 * ((unat a1 + 4095) div 4096) in
   case execute_sys_mmap code a0 a1 c of
     Inl f \<Rightarrow> f = Err InvalidSyscallArgs \<and> unat a1 > 2 ^ 32 - 4096
   | Inr (r, d) \<Rightarrow> unat a1 \<le> 2 ^ 32 - 4096 \<and>
       (if a0 = 0 then r = Some (ar_reg (arch s) R_HEAP) \<and>
          arch (sc_rt d) = (arch s)\<lparr>ar_reg := regs(R_HEAP := ar_reg (arch s) R_HEAP + word_of_nat len)\<rparr>
        else r = Some a0 \<and> arch (sc_rt d) = (arch s)\<lparr>ar_reg := regs\<rparr>)"
proof -
  let ?m = "arch (sc_rt c)"
  let ?len = "word_of_nat (4096 * ((unat a1 + 4095) div 4096)) :: u32"
  let ?m' = "?m\<lparr>ar_reg := (ar_reg ?m)(R_A3 := 0)\<rparr>"
  have "wp (execute_sys_mmap code a0 a1)
      (\<lambda>r d. unat a1 \<le> 2 ^ 32 - 4096 \<and>
         (if a0 = 0 then r = Some (ar_reg ?m R_HEAP) \<and>
            calling c (?m'\<lparr>ar_reg := (ar_reg ?m')(R_HEAP := ar_reg ?m R_HEAP + ?len)\<rparr>) d
          else r = Some a0 \<and> calling c ?m' d))
      (\<lambda>f. f = Err InvalidSyscallArgs \<and> unat a1 > 2 ^ 32 - 4096) c"
  proof (cases "unat a1 \<le> 2 ^ 32 - 4096")
    case True
    then have a: "align_size a1 = Inr ?len" by (simp only: align_size_eq if_True)
    show ?thesis
      unfolding execute_sys_mmap_def wp_bindM wp_getM wp_liftM a sum.case
      by (rule call_rw_traced [OF calling_refl])
        (use True in \<open>auto simp: wp_simps simp del: of_nat_mult intro!: call_register_unsafe call_rw_traced call_emit_linux\<close>)
  qed (simp add: execute_sys_mmap_def wp_simps align_size_eq)
  then show ?thesis
    by (auto simp: wp_def Let_def calling_def split: sum.splits if_splits)
qed

end
