(* ===== verification/Syscalls.thy ===== *)
theory Syscalls
  imports Linux_Syscalls
begin

text \<open>
  The remaining system calls of the runtime (\<^verbatim>\<open>syscalls/halt.rs\<close>, \<^verbatim>\<open>commit.rs\<close>, \<^verbatim>\<open>deferred.rs\<close>, \<^verbatim>\<open>hint.rs\<close>,
  \<^verbatim>\<open>unconstrained.rs\<close>, \<^verbatim>\<open>verify.rs\<close>) and the table of system calls (\<^verbatim>\<open>syscalls/mod.rs\<close>). The cryptographic
  precompiles are an argument of the table.
\<close>

unbundle bit_operations_syntax

section \<open>Halting and committing\<close>

definition execute_halt :: "syscall_code \<Rightarrow> u32 \<Rightarrow> u32 \<Rightarrow> (u32 option) sys" where
  "execute_halt code exit_code a1 =
     bindM (set_next_pc 0) (\<lambda>_. bindM (set_exit_code exit_code) (\<lambda>_. retM None))"

definition update_public_values :: "(public_values \<Rightarrow> public_values) \<Rightarrow> unit sys" where
  "update_public_values f =
     on_rt (modRecord (\<lambda>r. r\<lparr>er_public_values := f (er_public_values r)\<rparr>))"

definition execute_commit :: "syscall_code \<Rightarrow> u32 \<Rightarrow> u32 \<Rightarrow> (u32 option) sys" where
  "execute_commit code word_idx digest_word =
     bindM (getM (\<lambda>c. pv_committed_value_digest (er_public_values (ex_record (sc_rt c))))) (\<lambda>digest.
     if unat word_idx \<ge> length digest then errM InvalidSyscallArgs
     else bindM (update_public_values (pv_committed_value_digest_update (\<lambda>d. d[unat word_idx := digest_word])))
            (\<lambda>_. retM None))"

definition execute_commit_deferred :: "syscall_code \<Rightarrow> u32 \<Rightarrow> u32 \<Rightarrow> (u32 option) sys" where
  "execute_commit_deferred code word_idx digest_word =
     bindM (getM (\<lambda>c. pv_deferred_proofs_digest (er_public_values (ex_record (sc_rt c))))) (\<lambda>digest.
     if unat word_idx \<ge> length digest then errM InvalidSyscallArgs
     else bindM (update_public_values (pv_deferred_proofs_digest_update (\<lambda>d. d[unat word_idx := digest_word])))
            (\<lambda>_. retM None))"

section \<open>Hints\<close>

definition execute_hint_len :: "syscall_code \<Rightarrow> u32 \<Rightarrow> u32 \<Rightarrow> (u32 option) sys" where
  "execute_hint_len code a0 a1 =
     bindM (getM (\<lambda>c. ex_state (sc_rt c))) (\<lambda>st.
     if st_input_stream_ptr st \<ge> length (st_input_stream st) then errM InvalidSyscallArgs
     else retM (Some (word_of_nat (length (st_input_stream st ! st_input_stream_ptr st)))))"

text \<open>\<open>Memory::entry\<close>: a register address, or a page access that panics beyond the table.\<close>

definition memory_access :: "u32 \<Rightarrow> unit rt" where
  "memory_access addr = (if is_register_addr addr then retM () else page_access addr)"

definition from_le_bytes :: "u8 \<Rightarrow> u8 \<Rightarrow> u8 \<Rightarrow> u8 \<Rightarrow> u32" where
  "from_le_bytes b1 b2 b3 b4 =
     ucast b1 OR push_bit 8 (ucast b2) OR push_bit 16 (ucast b3) OR push_bit 24 (ucast b4)"

definition byte_or_0 :: "u8 list \<Rightarrow> nat \<Rightarrow> u8" where
  "byte_or_0 bs i = (if i < length bs then bs ! i else 0)"

definition put_hint :: "u32 \<Rightarrow> u32 \<Rightarrow> unit rt" where
  "put_hint addr w =
     bindM (memory_access addr) (\<lambda>_ s.
     let loc = memory_loc addr;
         s = s\<lparr>ex_uninitialized_memory_checkpoint := entry_or (ex_uninitialized_memory_checkpoint s) loc False\<rparr>
     in case mem_at (st_uninitialized_memory (ex_state s)) loc of
          Some _ \<Rightarrow> Inl (Err InvalidSyscallArgs)
        | None \<Rightarrow> Inr ((), s\<lparr>ex_state := (ex_state s)\<lparr>st_uninitialized_memory :=
                              mem_set (st_uninitialized_memory (ex_state s)) loc (Some w)\<rparr>\<rparr>))"

definition hint_word :: "u8 list \<Rightarrow> nat \<Rightarrow> u32" where
  "hint_word vec i = from_le_bytes (vec ! i) (byte_or_0 vec (i + 1)) (byte_or_0 vec (i + 2)) (byte_or_0 vec (i + 3))"

text \<open>The loop over the four-byte chunks; the list holds the remaining values of the index.\<close>

fun put_hints :: "u8 list \<Rightarrow> u32 \<Rightarrow> nat list \<Rightarrow> unit rt" where
  "put_hints vec ptr [] = retM ()"
| "put_hints vec ptr (i # is) =
     (if i \<ge> length vec then panicM IndexOutOfBounds
      else bindM (put_hint (ptr + word_of_nat i) (hint_word vec i)) (\<lambda>_. put_hints vec ptr is))"

definition hint_indices :: "u32 \<Rightarrow> nat list" where
  "hint_indices len = map (\<lambda>k. 4 * k) [0..<(unat len + 3) div 4]"

definition execute_hint_read :: "syscall_code \<Rightarrow> u32 \<Rightarrow> u32 \<Rightarrow> (u32 option) sys" where
  "execute_hint_read code ptr len =
     bindM (getM (\<lambda>c. ex_state (sc_rt c))) (\<lambda>st.
     if st_input_stream_ptr st \<ge> length (st_input_stream st) then errM InvalidSyscallArgs
     else let vec = st_input_stream st ! st_input_stream_ptr st in
       bindM (on_rt (modState (\<lambda>st. st\<lparr>st_input_stream_ptr := Suc (st_input_stream_ptr st)\<rparr>))) (\<lambda>_.
       bindM (getM (\<lambda>c. ex_unconstrained (sc_rt c))) (\<lambda>u.
       if u then errM ExceptionOrTrap
       else if word_of_nat (length vec) \<noteq> len \<or> ptr mod 4 \<noteq> 0 then errM InvalidSyscallArgs
       else bindM (on_rt (put_hints vec ptr (hint_indices len))) (\<lambda>_. retM None))))"

section \<open>Unconstrained blocks\<close>

definition execute_enter_unconstrained :: "syscall_code \<Rightarrow> u32 \<Rightarrow> u32 \<Rightarrow> (u32 option) sys" where
  "execute_enter_unconstrained code a0 a1 =
     on_rt (\<lambda>s.
       if ex_unconstrained s then Inl (Panic ExplicitPanic)
       else let st = ex_state s
            in Inr (Some 1, s\<lparr>ex_unconstrained := True,
                 ex_unconstrained_state :=
                   \<lparr>fk_global_clk = st_global_clk st, fk_clk = st_clk st, fk_pc = st_pc st,
                    fk_memory_diff = Map.empty, fk_op_record = ex_memory_accesses s,
                    fk_record = ex_record s, fk_executor_mode = ex_executor_mode s\<rparr>,
                 ex_record := default_record, ex_memory_accesses := default_access_record,
                 ex_executor_mode := Simple\<rparr>))"

text \<open>\<open>Memory::insert\<close> and \<open>Memory::remove\<close> for the entries of the undo log.\<close>

fun restore_memory :: "(u32 \<times> memory_record option) list \<Rightarrow> unit rt" where
  "restore_memory [] = retM ()"
| "restore_memory ((addr, v) # diffs) =
     bindM (memory_access addr) (\<lambda>_.
     bindM (modState (\<lambda>st. st\<lparr>st_memory := mem_set (st_memory st) (memory_loc addr) v\<rparr>)) (\<lambda>_.
     restore_memory diffs))"

definition leave_unconstrained :: "unit sys" where
  "leave_unconstrained =
     bindM (on_rt (modM (\<lambda>s. s\<lparr>ex_state := (ex_state s)
              \<lparr>st_global_clk := fk_global_clk (ex_unconstrained_state s),
               st_clk := fk_clk (ex_unconstrained_state s), st_pc := fk_pc (ex_unconstrained_state s)\<rparr>\<rparr>))) (\<lambda>_.
     bindM (modM (\<lambda>c. c\<lparr>sc_next_pc := st_pc (ex_state (sc_rt c)) + 4\<rparr>)) (\<lambda>_.
     bindM (getM (\<lambda>c. drain (fk_memory_diff (ex_unconstrained_state (sc_rt c))))) (\<lambda>diffs.
     bindM (on_rt (restore_memory diffs)) (\<lambda>_.
     on_rt (modM (\<lambda>s. s\<lparr>ex_record := fk_record (ex_unconstrained_state s),
                        ex_memory_accesses := fk_op_record (ex_unconstrained_state s),
                        ex_executor_mode := fk_executor_mode (ex_unconstrained_state s),
                        ex_unconstrained := False\<rparr>))))))"

definition execute_exit_unconstrained :: "syscall_code \<Rightarrow> u32 \<Rightarrow> u32 \<Rightarrow> (u32 option) sys" where
  "execute_exit_unconstrained code a0 a1 =
     bindM (getM (\<lambda>c. ex_unconstrained (sc_rt c))) (\<lambda>u.
     bindM (whenM u leave_unconstrained) (\<lambda>_.
     bindM (on_rt (modM (\<lambda>s. s\<lparr>ex_unconstrained_state := default_fork_state\<rparr>))) (\<lambda>_.
     retM (Some 0))))"

section \<open>Verification of sub-proofs\<close>

definition execute_verify :: "syscall_code \<Rightarrow> u32 \<Rightarrow> u32 \<Rightarrow> (u32 option) sys" where
  "execute_verify code vkey_ptr pv_digest_ptr =
     bindM (getM sc_rt) (\<lambda>rt.
     if ex_deferred_proof_verification rt = DPV_Disabled then retM None
     else if vkey_ptr mod 4 \<noteq> 0 \<or> pv_digest_ptr mod 4 \<noteq> 0 then errM InvalidSyscallArgs
     else if unat vkey_ptr + 32 > MAX_MEMORY \<or> unat pv_digest_ptr + 32 > MAX_MEMORY then errM InvalidSyscallArgs
     else
       bindM (slice_unsafe vkey_ptr 8) (\<lambda>vkey.
       bindM (slice_unsafe pv_digest_ptr 8) (\<lambda>pv_digest.
       bindM (getM (\<lambda>c. ex_state (sc_rt c))) (\<lambda>st.
       if st_proof_stream_ptr st \<ge> length (st_proof_stream st) then panicM ExplicitPanic
       else let prf = st_proof_stream st ! st_proof_stream_ptr st in
         bindM (on_rt (modState (\<lambda>st. st\<lparr>st_proof_stream_ptr := Suc (st_proof_stream_ptr st)\<rparr>))) (\<lambda>_.
         case ex_subproof_verifier rt of
           Some verifier \<Rightarrow> if verifier prf vkey pv_digest then retM None else errM ExceptionOrTrap
         | None \<Rightarrow> retM None)))))"

section \<open>The table\<close>

definition plain :: "(syscall_code \<Rightarrow> u32 \<Rightarrow> u32 \<Rightarrow> (u32 option) sys) \<Rightarrow> syscall_impl option" where
  "plain f = Some \<lparr>si_execute = f, si_num_extra_cycles = 0\<rparr>"

definition nop_syscalls :: "syscall_code set" where
  "nop_syscalls = {SC_SYS_OPEN, SC_SYS_CLOSE, SC_SYS_RT_SIGACTION, SC_SYS_RT_SIGPROCMASK, SC_SYS_MADVISE,
     SC_SYS_GETTID, SC_SYS_SCHED_GETAFFINITY, SC_SYS_CLOCK_GETTIME, SC_SYS_NANOSLEEP, SC_SYS_PRLIMIT64,
     SC_SYS_SIGALTSTACK, SC_SYS_OPENAT, SC_SYS_FSTAT64, SC_SYS_MUNMAP}"

text \<open>The codes of the table whose handlers are the cryptographic precompiles.\<close>

definition precompile_syscalls :: "syscall_code set" where
  "precompile_syscalls = {SC_SHA_EXTEND, SC_SHA_COMPRESS, SC_ED_ADD, SC_ED_DECOMPRESS, SC_POSEIDON2_PERMUTE,
     SC_KECCAK_SPONGE, SC_SECP256K1_ADD, SC_SECP256K1_DOUBLE, SC_SECP256K1_DECOMPRESS, SC_SECP256R1_ADD,
     SC_SECP256R1_DOUBLE, SC_SECP256R1_DECOMPRESS, SC_BN254_ADD, SC_BN254_DOUBLE, SC_BLS12381_ADD,
     SC_BLS12381_DOUBLE, SC_UINT256_MUL, SC_U256XU2048_MUL, SC_BLS12381_FP_ADD, SC_BLS12381_FP_SUB,
     SC_BLS12381_FP_MUL, SC_BLS12381_FP2_ADD, SC_BLS12381_FP2_SUB, SC_BLS12381_FP2_MUL, SC_BN254_FP_ADD,
     SC_BN254_FP_SUB, SC_BN254_FP_MUL, SC_BN254_FP2_ADD, SC_BN254_FP2_SUB, SC_BN254_FP2_MUL,
     SC_BLS12381_DECOMPRESS}"

definition default_syscall_map :: "(syscall_code \<Rightarrow> syscall_impl) \<Rightarrow> syscall_table" where
  "default_syscall_map precompiles code =
     (if code \<in> precompile_syscalls then Some (precompiles code)
      else if code \<in> nop_syscalls then plain execute_sys_nop
      else if code = SC_HALT then plain execute_halt
      else if code = SC_ENTER_UNCONSTRAINED then plain execute_enter_unconstrained
      else if code = SC_EXIT_UNCONSTRAINED then plain execute_exit_unconstrained
      else if code = SC_WRITE then plain execute_write
      else if code = SC_COMMIT then plain execute_commit
      else if code = SC_COMMIT_DEFERRED_PROOFS then plain execute_commit_deferred
      else if code \<in> {SC_VERIFY_ZKM_PROOF, SC_SYSVERIFY} then plain execute_verify
      else if code = SC_SYSHINTLEN then plain execute_hint_len
      else if code = SC_SYSHINTREAD then plain execute_hint_read
      else if code = SC_SYS_BRK then plain execute_sys_brk
      else if code = SC_SYS_READ then plain execute_sys_read
      else if code = SC_SYS_WRITE then plain execute_sys_write
      else if code = SC_SYS_EXT_GROUP then plain execute_sys_exit_group
      else if code \<in> {SC_SYS_MMAP, SC_SYS_MMAP2} then plain execute_sys_mmap
      else if code = SC_SYS_CLONE then plain execute_sys_clone
      else if code = SC_SYS_FCNTL then plain execute_sys_fcntl
      else None)"

section \<open>Hints are read back\<close>

lemma put_hintE:
  assumes "put_hint addr w s = Inr (u, t)"
  obtains "mem_at (st_uninitialized_memory (ex_state s)) (memory_loc addr) = None"
    "t = s\<lparr>ex_state := (ex_state s)\<lparr>st_uninitialized_memory := mem_set (st_uninitialized_memory (ex_state s)) (memory_loc addr) (Some w)\<rparr>,
       ex_uninitialized_memory_checkpoint := entry_or (ex_uninitialized_memory_checkpoint s) (memory_loc addr) False\<rparr>"
  using assms by (auto simp: put_hint_def bindM_Inr_iff memory_access_def page_access_def Let_def split: option.splits if_splits)

lemma mem_at_entry_or:
  "mem_at (entry_or m loc v) loc' = (if loc' = loc \<and> mem_at m loc = None then Some v else mem_at m loc')"
  by (auto simp: entry_or_def split: option.splits)

text \<open>What writing input words changes: the words at the locations, which were vacant, and the entries of their checkpoint.\<close>

definition hints_put :: "u8 list \<Rightarrow> u32 \<Rightarrow> nat list \<Rightarrow> executor \<Rightarrow> executor \<Rightarrow> bool" where
  "hints_put vec ptr is s t \<longleftrightarrow>
     (\<forall>i\<in>set is. mem_at (st_uninitialized_memory (ex_state s)) (memory_loc (ptr + word_of_nat i)) = None \<and>
        mem_at (st_uninitialized_memory (ex_state t)) (memory_loc (ptr + word_of_nat i)) = Some (hint_word vec i)) \<and>
     (\<forall>loc. loc \<notin> (\<lambda>i. memory_loc (ptr + word_of_nat i)) ` set is \<longrightarrow>
        mem_at (st_uninitialized_memory (ex_state t)) loc = mem_at (st_uninitialized_memory (ex_state s)) loc) \<and>
     (\<forall>loc. mem_at (ex_uninitialized_memory_checkpoint t) loc =
        (if loc \<in> (\<lambda>i. memory_loc (ptr + word_of_nat i)) ` set is \<and> mem_at (ex_uninitialized_memory_checkpoint s) loc = None
         then Some False else mem_at (ex_uninitialized_memory_checkpoint s) loc)) \<and>
     t = s\<lparr>ex_state := (ex_state s)\<lparr>st_uninitialized_memory := st_uninitialized_memory (ex_state t)\<rparr>,
           ex_uninitialized_memory_checkpoint := ex_uninitialized_memory_checkpoint t\<rparr>"

lemma hints_put_Cons:
  assumes v: "mem_at (st_uninitialized_memory (ex_state s)) (memory_loc (ptr + word_of_nat i)) = None"
    and s': "s' = s\<lparr>ex_state := (ex_state s)\<lparr>st_uninitialized_memory :=
        mem_set (st_uninitialized_memory (ex_state s)) (memory_loc (ptr + word_of_nat i)) (Some (hint_word vec i))\<rparr>,
       ex_uninitialized_memory_checkpoint := entry_or (ex_uninitialized_memory_checkpoint s) (memory_loc (ptr + word_of_nat i)) False\<rparr>"
    and r: "hints_put vec ptr is s' t"
  shows "hints_put vec ptr (i # is) s t"
proof -
  let ?l = "\<lambda>i. memory_loc (ptr + word_of_nat i)"
  note R = r [unfolded hints_put_def]
  have new: "mem_at (st_uninitialized_memory (ex_state s')) loc = (if loc = ?l i then Some (hint_word vec i) else mem_at (st_uninitialized_memory (ex_state s)) loc)" for loc
    by (simp add: s')
  have fresh: "?l i \<notin> ?l ` set is" using R new [of "?l i"] by auto
  have t: "t = s'\<lparr>ex_state := (ex_state s')\<lparr>st_uninitialized_memory := st_uninitialized_memory (ex_state t)\<rparr>,
           ex_uninitialized_memory_checkpoint := ex_uninitialized_memory_checkpoint t\<rparr>" using R by blast
  have 1: "mem_at (st_uninitialized_memory (ex_state s)) (?l j) = None \<and> mem_at (st_uninitialized_memory (ex_state t)) (?l j) = Some (hint_word vec j)"
    if "j \<in> set (i # is)" for j
  proof (cases "j \<in> set is")
    case True
    then have "?l j \<in> ?l ` set is" by (rule imageI)
    then have "?l j \<noteq> ?l i" using fresh by metis
    then show ?thesis using True R new [of "?l j"] by auto
  next
    case False
    then have "j = i" using that by simp
    moreover have "mem_at (st_uninitialized_memory (ex_state t)) (?l i) = mem_at (st_uninitialized_memory (ex_state s')) (?l i)"
      using R fresh by blast
    ultimately show ?thesis using v new by simp
  qed
  have 2: "mem_at (st_uninitialized_memory (ex_state t)) loc = mem_at (st_uninitialized_memory (ex_state s)) loc" if "loc \<notin> ?l ` set (i # is)" for loc
  proof -
    have "loc \<notin> ?l ` set is" "loc \<noteq> ?l i" using that by auto
    then show ?thesis using R new by metis
  qed
  have c: "ex_uninitialized_memory_checkpoint s' = entry_or (ex_uninitialized_memory_checkpoint s) (?l i) False" by (simp add: s')
  have ct: "mem_at (ex_uninitialized_memory_checkpoint t) loc =
      (if loc \<in> ?l ` set is \<and> mem_at (ex_uninitialized_memory_checkpoint s') loc = None then Some False
       else mem_at (ex_uninitialized_memory_checkpoint s') loc)" for loc using R by blast
  have 3: "mem_at (ex_uninitialized_memory_checkpoint t) loc =
      (if loc \<in> ?l ` set (i # is) \<and> mem_at (ex_uninitialized_memory_checkpoint s) loc = None then Some False
       else mem_at (ex_uninitialized_memory_checkpoint s) loc)" for loc
    by (cases "loc = ?l i") (auto simp: ct c mem_at_entry_or)
  have 4: "t = s\<lparr>ex_state := (ex_state s)\<lparr>st_uninitialized_memory := st_uninitialized_memory (ex_state t)\<rparr>,
           ex_uninitialized_memory_checkpoint := ex_uninitialized_memory_checkpoint t\<rparr>"
    using t unfolding s' by simp
  show ?thesis unfolding hints_put_def using 1 2 3 4 by blast
qed

lemma put_hints_spec: "put_hints vec ptr is s = Inr (u, t) \<Longrightarrow> hints_put vec ptr is s t"
proof (induction "is" arbitrary: s)
  case (Cons i "is")
  then obtain s' where s': "put_hint (ptr + word_of_nat i) (hint_word vec i) s = Inr ((), s')"
    and r: "put_hints vec ptr is s' = Inr (u, t)"
    by (auto simp: bindM_Inr_iff split: if_splits)
  show ?case by (rule put_hintE [OF s']) (rule hints_put_Cons [OF _ _ Cons.IH [OF r]])
qed (simp add: hints_put_def)

lemma byte_at_from_le_bytes:
  "byte_at (from_le_bytes b1 b2 b3 b4) 0 = b1" "byte_at (from_le_bytes b1 b2 b3 b4) 1 = b2"
  "byte_at (from_le_bytes b1 b2 b3 b4) 2 = b3" "byte_at (from_le_bytes b1 b2 b3 b4) 3 = b4"
  by (rule bit_word_eqI; auto simp: from_le_bytes_def byte_at_def bit_simps dest: bit_imp_le_length)+

lemma byte_at_hint_word:
  assumes "i + k < length vec" "k < 4"
  shows "byte_at (hint_word vec i) k = vec ! (i + k)"
proof -
  have "k = 0 \<or> k = 1 \<or> k = 2 \<or> k = 3" using assms(2) by auto
  with assms(1) show ?thesis by (auto simp: hint_word_def byte_at_from_le_bytes [unfolded One_nat_def] byte_or_0_def)
qed

text \<open>The locations of the words that hold an input of \<open>len\<close> bytes.\<close>

definition hint_locs :: "u32 \<Rightarrow> u32 \<Rightarrow> mem_loc set" where
  "hint_locs ptr len = {memory_loc (ptr + word_of_nat (4 * j)) | j. 4 * j < unat len}"

lemma hint_locs_indices: "(\<lambda>i. memory_loc (ptr + word_of_nat i)) ` set (hint_indices len) = hint_locs ptr len"
proof -
  have "j < (unat len + 3) div 4 \<longleftrightarrow> 4 * j < unat len" for j by auto
  then show ?thesis by (auto simp: hint_locs_def hint_indices_def image_image)
qed

text \<open>C25: a successful \<open>HINT_READ\<close> leaves every byte of the input vector at its address: byte \<open>k\<close> of the vector is
  byte \<open>k mod 4\<close> of the word waiting at \<open>ptr + 4 * (k div 4)\<close>. The words it fills had no input before, all other
  waiting words stay as they are, and the whole executor is the old one except that the stream pointer advances by one
  vector, the waiting input gains these words and the checkpoint of the waiting input gains an entry for each
  of these words that it does not have yet.\<close>

theorem hint_read_correct:
  assumes "execute_hint_read code ptr len c = Inr (r, d)"
  shows "let s = sc_rt c; t = sc_rt d; st = ex_state s; vec = st_input_stream st ! st_input_stream_ptr st in
     r = None \<and> word_of_nat (length vec) = len \<and>
     (\<forall>k<unat len. byte_at (initial_value (memory_loc (ptr + word_of_nat (4 * (k div 4)))) t) (k mod 4) = vec ! k) \<and>
     (\<forall>loc\<in>hint_locs ptr len. mem_at (st_uninitialized_memory st) loc = None) \<and>
     (\<forall>loc. loc \<notin> hint_locs ptr len \<longrightarrow> mem_at (st_uninitialized_memory (ex_state t)) loc = mem_at (st_uninitialized_memory st) loc) \<and>
     (\<forall>loc. mem_at (ex_uninitialized_memory_checkpoint t) loc =
        (if loc \<in> hint_locs ptr len \<and> mem_at (ex_uninitialized_memory_checkpoint s) loc = None then Some False
         else mem_at (ex_uninitialized_memory_checkpoint s) loc)) \<and>
     d = c\<lparr>sc_rt := t\<rparr> \<and>
     t = s\<lparr>ex_state := st\<lparr>st_input_stream_ptr := Suc (st_input_stream_ptr st),
                        st_uninitialized_memory := st_uninitialized_memory (ex_state t)\<rparr>,
           ex_uninitialized_memory_checkpoint := ex_uninitialized_memory_checkpoint t\<rparr>"
proof -
  define st where "st = ex_state (sc_rt c)"
  define vec where "vec = st_input_stream st ! st_input_stream_ptr st"
  define s where "s = (sc_rt c)\<lparr>ex_state := st\<lparr>st_input_stream_ptr := Suc (st_input_stream_ptr st)\<rparr>\<rparr>"
  from assms obtain t where r: "r = None" and l: "word_of_nat (length vec) = len" and d: "d = c\<lparr>sc_rt := t\<rparr>"
    and p: "put_hints vec ptr (hint_indices len) s = Inr ((), t)"
    by (auto simp: execute_hint_read_def bindM_Inr_iff on_rt_def Let_def s_def st_def vec_def split: if_splits sum.splits)
  note spec = put_hints_spec [OF p, unfolded hints_put_def hint_locs_indices]
  have U: "st_uninitialized_memory (ex_state s) = st_uninitialized_memory st"
    "ex_uninitialized_memory_checkpoint s = ex_uninitialized_memory_checkpoint (sc_rt c)" by (simp_all add: s_def)
  have 1: "byte_at (initial_value (memory_loc (ptr + word_of_nat (4 * (k div 4)))) t) (k mod 4) = vec ! k" if "k < unat len" for k
  proof -
    have "4 * (k div 4) \<in> set (hint_indices len)" using that by (auto simp: hint_indices_def)
    with spec have "mem_at (st_uninitialized_memory (ex_state t)) (memory_loc (ptr + word_of_nat (4 * (k div 4)))) =
        Some (hint_word vec (4 * (k div 4)))" by blast
    then have "initial_value (memory_loc (ptr + word_of_nat (4 * (k div 4)))) t = hint_word vec (4 * (k div 4))"
      by (simp only: initial_value_def option.case)
    moreover have "unat len \<le> length vec" using l by (auto simp: unsigned_of_nat take_bit_eq_mod)
    ultimately show ?thesis using that byte_at_hint_word [of "4 * (k div 4)" "k mod 4" vec] by simp
  qed
  have 2: "\<forall>loc\<in>hint_locs ptr len. mem_at (st_uninitialized_memory st) loc = None"
    unfolding hint_locs_indices [symmetric] by (rule ballI, elim imageE) (use spec U(1) in simp)
  have 3: "t = (sc_rt c)\<lparr>ex_state := st\<lparr>st_input_stream_ptr := Suc (st_input_stream_ptr st), st_uninitialized_memory := st_uninitialized_memory (ex_state t)\<rparr>,
      ex_uninitialized_memory_checkpoint := ex_uninitialized_memory_checkpoint t\<rparr>"
  proof -
    have "t = s\<lparr>ex_state := (ex_state s)\<lparr>st_uninitialized_memory := st_uninitialized_memory (ex_state t)\<rparr>,
           ex_uninitialized_memory_checkpoint := ex_uninitialized_memory_checkpoint t\<rparr>" using spec by blast
    then show ?thesis unfolding s_def by simp
  qed
  have t: "sc_rt d = t" by (simp add: d)
  show ?thesis unfolding Let_def t st_def [symmetric] vec_def [symmetric]
    using r l 1 2 3 d spec [unfolded U] by blast
qed

definition hinted_context :: syscall_context where
  "hinted_context = context_new (blank_executor\<lparr>ex_state := (ex_state blank_executor)
     \<lparr>st_input_stream := [[1, 2, 3, 4, 5]]\<rparr>\<rparr>)"

lemma hint_indices_5: "hint_indices 5 = [0, 4]"
  by code_simp

lemma hinted_context_runs: "\<exists>d. execute_hint_read SC_SYSHINTREAD 0x1000 5 hinted_context = Inr (None, d)"
  by (simp add: execute_hint_read_def hinted_context_def context_new_def blank_executor_def executor_new_def
      state_new_def empty_memory_def on_rt_def hint_indices_5 put_hint_def memory_access_def page_access_def
      is_register_addr_iff NUM_REGISTERS_def valid_page_iff memory_loc_def page_loc_def compress_addr_def Let_def bindM_def)

theorem hint_read_correct_witness:
  "\<exists>d. execute_hint_read SC_SYSHINTREAD 0x1000 5 hinted_context = Inr (None, d) \<and>
       byte_at (initial_value (memory_loc 0x1004) (sc_rt d)) 0 = 5"
proof -
  obtain d where d: "execute_hint_read SC_SYSHINTREAD 0x1000 5 hinted_context = Inr (None, d)"
    using hinted_context_runs by blast
  have "st_input_stream (ex_state (sc_rt hinted_context)) ! st_input_stream_ptr (ex_state (sc_rt hinted_context)) = [1, 2, 3, 4, 5]"
    by (simp add: hinted_context_def context_new_def blank_executor_def executor_new_def state_new_def)
  then have "\<forall>k<unat (5 :: u32). byte_at (initial_value (memory_loc (0x1000 + word_of_nat (4 * (k div 4)))) (sc_rt d)) (k mod 4) =
      [1, 2, 3, 4, 5] ! k"
    using hint_read_correct [OF d] by (simp add: Let_def)
  from this [rule_format, of 4] d show ?thesis by simp
qed

end
