(* ===== verification/Run_Loop.thy ===== *)
theory Run_Loop
  imports Syscalls
begin

text \<open>
  The run loop (\<^verbatim>\<open>executor.rs\<close>, \<open>execute_cycle\<close> to \<open>postprocess\<close>): one cycle, the decision to close a shard,
  the batch loop, the records with their public values, the memory events of the last record, and the
  entry points. The batch loop may run forever, so it is a partial function; \<open>None\<close> means that it does.
\<close>

unbundle bit_operations_syntax

section \<open>One cycle\<close>

definition fetch :: "instruction rt" where
  "fetch = bindM (getM (\<lambda>s. program_fetch (ex_program s) (st_pc (ex_state s)))) liftM"

definition finished :: "executor \<Rightarrow> bool" where
  "finished s \<longleftrightarrow>
     st_pc (ex_state s) = 0 \<or> st_exited (ex_state s) \<or>
     st_pc (ex_state s) - prog_pc_base (ex_program s) \<ge> word_of_nat (length (prog_instructions (ex_program s)) * 4)"

definition execute_cycle :: "syscall_table \<Rightarrow> bool rt" where
  "execute_cycle table =
     bindM fetch (\<lambda>i.
     bindM (execute_operation table i) (\<lambda>_.
     bindM (modState (\<lambda>st. st\<lparr>st_global_clk := st_global_clk st + 1\<rparr>)) (\<lambda>_.
     bindM (getM (\<lambda>s. (ex_max_cycles s, st_global_clk (ex_state s)))) (\<lambda>(limit, clk).
     bindM (case limit of
              Some max_cycles \<Rightarrow> if clk \<ge> max_cycles then errM (ExceededCycleLimit max_cycles) else retM ()
            | None \<Rightarrow> retM ()) (\<lambda>_.
     bindM (getM (\<lambda>s. (finished s, ex_unconstrained s))) (\<lambda>(done, u).
     if done \<and> u then errM EndInUnconstrained else retM done))))))"

section \<open>Shards\<close>

definition bump_record :: "executor \<Rightarrow> executor" where
  "bump_record s =
     (let s = s\<lparr>ex_local_counts := default_local_counts\<rparr>;
          s = (if ex_executor_mode s = Trace
               then s\<lparr>ex_record := (ex_record s)\<lparr>er_cpu_local_memory_access :=
                        er_cpu_local_memory_access (ex_record s) @ map snd (drain (ex_local_memory_access s))\<rparr>,
                      ex_local_memory_access := Map.empty\<rparr>
               else s)
      in s\<lparr>ex_record := (record_new (ex_program s))\<lparr>er_public_values := er_public_values (ex_record s)\<rparr>,
           ex_records := ex_records s @ [ex_record s]\<rparr>)"

text \<open>Shifts by the code's \<open>1 << n\<close>, which takes the amount modulo the width.\<close>

definition one_shl32 :: "u32 \<Rightarrow> u32" where
  "one_shl32 n = push_bit (unat n mod 32) 1"

definition one_shl64 :: "u32 \<Rightarrow> u64" where
  "one_shl64 n = push_bit (unat n mod 64) 1"

definition shape_distance :: "u64 \<Rightarrow> u64 \<Rightarrow> u64" where
  "shape_distance threshold count = (if count \<noteq> 0 then threshold - count else - 1)"

text \<open>The distance of the counts to a shape; \<open>None\<close> if some chip does not fit.\<close>

fun l_infinity :: "(mips_air_id \<Rightarrow> u32) \<Rightarrow> air_counts \<Rightarrow> mips_air_id list \<Rightarrow> u64 \<Rightarrow> u64 option" where
  "l_infinity shape counts [] l = Some l"
| "l_infinity shape counts (air # airs) l =
     (if air = Air_Cpu then l_infinity shape counts airs l
      else let threshold = one_shl64 (shape air); count = counts air in
        if count > threshold then None
        else l_infinity shape counts airs
               (if shape_distance threshold count < l then shape_distance threshold count else l))"

definition shape_fits :: "u32 \<Rightarrow> u64 \<Rightarrow> air_counts \<Rightarrow> (mips_air_id \<Rightarrow> u32) \<Rightarrow> bool" where
  "shape_fits clk freq counts shape \<longleftrightarrow>
     \<not> clk > push_bit 2 (one_shl32 (shape Air_Cpu)) \<and>
     (case l_infinity shape counts core_airs (- 1) of None \<Rightarrow> False | Some l \<Rightarrow> l \<ge> 32 * freq)"

definition is_multiple_of :: "u64 \<Rightarrow> u64 \<Rightarrow> bool" where
  "is_multiple_of x y \<longleftrightarrow> (if y = 0 then x = 0 else x mod y = 0)"

text \<open>Whether the shard may go on: the estimate of the trace against the limits.\<close>

definition shape_match :: "bool rt" where
  "shape_match = (\<lambda>s.
     let st = ex_state s; freq = ex_shape_check_frequency s; lc = ex_local_counts s in
     if is_multiple_of (st_global_clk st) freq then
       let counts = estimate_mips_event_counts (ucast (st_clk st div 5)) (lc_local_mem lc) (lc_syscalls_sent lc)
                      (lc_event_counts lc)
       in if ex_lde_size_check s then
            case estimate_mips_lde_size (pad_mips_event_counts counts freq) (ex_costs s) of
              None \<Rightarrow> Inl (Panic ExpectFailed)
            | Some lde \<Rightarrow> Inr (\<not> lde > ex_lde_size_threshold s, s)
          else case ex_maximal_shapes s of
            None \<Rightarrow> Inr (True, s)
          | Some shapes \<Rightarrow>
              if list_ex (shape_fits (st_clk st) freq counts) shapes then Inr (True, s)
              else Inr (False, s\<lparr>ex_record := (ex_record s)\<lparr>er_counts := Some counts\<rparr>\<rparr>)
     else Inr (True, s))"

definition next_shard :: "execution_state \<Rightarrow> execution_state" where
  "next_shard st = st\<lparr>st_current_shard := st_current_shard st + 1, st_clk := 0\<rparr>"

definition inc_shard_if_need :: "bool rt" where
  "inc_shard_if_need =
     bindM (getM id) (\<lambda>s.
     let st = ex_state s in
     if ex_executor_mode s = Trace \<and> st_records_clk st \<noteq> [] then
       let k = unat (st_records_clk_index st) in
       if k < length (st_records_clk st) \<and> st_clk st \<ge> st_records_clk st ! k
       then bindM (modState (\<lambda>st. (next_shard st)\<lparr>st_records_clk_index := st_records_clk_index st + 1\<rparr>)) (\<lambda>_. retM True)
       else retM False
     else
       let cpu_exit = (ex_max_syscall_cycles s + st_clk st \<ge> ex_shard_size s) in
       bindM shape_match (\<lambda>shape_match_found.
       if cpu_exit \<or> \<not> shape_match_found then
         bindM (whenM (ex_executor_mode s = Checkpoint)
                  (modState (\<lambda>st. st\<lparr>st_records_clk := st_records_clk st @ [st_clk st]\<rparr>))) (\<lambda>_.
         bindM (modState next_shard) (\<lambda>_. retM True))
       else retM False))"

section \<open>Memory events\<close>

text \<open>\<open>Memory::get\<close>, \<open>Memory::insert\<close> and the iteration over a memory.\<close>

definition memory_get :: "'v memory \<Rightarrow> u32 \<Rightarrow> 'v option" where
  "memory_get m addr = mem_at m (memory_loc addr)"

definition page_keys :: "'v memory \<Rightarrow> u32 list" where
  "page_keys m = map decompress_addr (sorted_list_of_set (dom (page_table m)))"

definition memory_items :: "'v memory \<Rightarrow> (u32 \<times> 'v) list" where
  "memory_items m =
     map (\<lambda>r. (word_of_nat r, the (registers m r))) (filter (\<lambda>r. registers m r \<noteq> None) [0..<NUM_REGISTERS]) @
     map (\<lambda>w. (decompress_addr w, the (page_table m w))) (sorted_list_of_set (dom (page_table m)))"

fun memory_puts :: "(u32 \<times> 'v option) list \<Rightarrow> 'v memory \<Rightarrow> 'v memory" where
  "memory_puts [] m = m"
| "memory_puts ((addr, v) # xs) m = memory_puts xs (mem_set m (memory_loc addr) v)"

definition has_image :: "executor \<Rightarrow> u32 \<Rightarrow> bool" where
  "has_image s addr \<longleftrightarrow> map_of (prog_image (er_program (ex_record s))) addr \<noteq> None"

definition push_init :: "u32 \<Rightarrow> u32 \<Rightarrow> executor \<Rightarrow> executor" where
  "push_init addr v s = s\<lparr>ex_record := (ex_record s)\<lparr>er_global_memory_initialize_events :=
     er_global_memory_initialize_events (ex_record s) @ [init_event addr v]\<rparr>\<rparr>"

definition push_finalize :: "u32 \<Rightarrow> memory_record \<Rightarrow> executor \<Rightarrow> executor" where
  "push_finalize addr r s = s\<lparr>ex_record := (ex_record s)\<lparr>er_global_memory_finalize_events :=
     er_global_memory_finalize_events (ex_record s) @ [finalize_from_record addr r]\<rparr>\<rparr>"

definition count_touched :: "executor \<Rightarrow> executor" where
  "count_touched s = s\<lparr>ex_report := (ex_report s)\<lparr>rp_touched_memory_addresses :=
     rp_touched_memory_addresses (ex_report s) + 1\<rparr>\<rparr>"

fun register_events :: "nat list \<Rightarrow> executor \<Rightarrow> executor" where
  "register_events [] s = s"
| "register_events (r # rs) s =
     (case registers (st_memory (ex_state s)) r of
        None \<Rightarrow> register_events rs s
      | Some rec \<Rightarrow>
          (let addr = word_of_nat r;
               s = (if ex_print_report s then count_touched s else s);
               s = (if has_image s addr then s
                    else push_init addr (case registers (st_uninitialized_memory (ex_state s)) r of
                                           None \<Rightarrow> 0 | Some v \<Rightarrow> v) s)
           in register_events rs (push_finalize addr rec s)))"

fun page_events :: "u32 list \<Rightarrow> unit rt" where
  "page_events [] s = Inr ((), s)"
| "page_events (addr # addrs) s =
     (let s = count_touched s in
      if addr = 0 then page_events addrs s
      else
        let s = (if has_image s addr then s
                 else push_init addr (case memory_get (st_uninitialized_memory (ex_state s)) addr of
                                        None \<Rightarrow> 0 | Some v \<Rightarrow> v) s)
        in case memory_get (st_memory (ex_state s)) addr of
             None \<Rightarrow> Inl (Panic ExpectFailed)
           | Some rec \<Rightarrow> page_events addrs (push_finalize addr rec s))"

definition postprocess :: "unit rt" where
  "postprocess = (\<lambda>s.
     if ex_emit_global_memory_events s \<and> (ex_executor_mode s = Trace \<or> ex_executor_mode s = Checkpoint) then
       let addr_0_final_record = (case memory_get (st_memory (ex_state s)) 0 of
             Some r \<Rightarrow> r | None \<Rightarrow> \<lparr>rec_shard = 0, rec_timestamp = 1, rec_value = 0\<rparr>);
           s = push_finalize 0 addr_0_final_record s;
           s = push_init 0 0 s;
           s = s\<lparr>ex_report := (ex_report s)\<lparr>rp_touched_memory_addresses := 0\<rparr>\<rparr>;
           s = register_events [1..<NUM_REGISTERS] s
       in page_events (page_keys (st_memory (ex_state s))) s
     else Inr ((), s))"

section \<open>A batch of shards\<close>

definition image_cells :: "program \<Rightarrow> (u32 \<times> memory_record option) list" where
  "image_cells p = map (\<lambda>(a, v). (a, Some \<lparr>rec_shard = 0, rec_timestamp = 0, rec_value = v\<rparr>)) (prog_image p)"

definition initialize :: "unit rt" where
  "initialize =
     bindM (modState (\<lambda>st. st\<lparr>st_clk := 0, st_records_clk_index := 0\<rparr>)) (\<lambda>_.
     bindM (getM (\<lambda>s. image_cells (ex_program s))) restore_memory)"

text \<open>The end of an iteration of the loop: close the shard if needed. Returns whether to leave the loop and the
  number of shards closed.\<close>

definition close_shard :: "u32 \<Rightarrow> (bool \<times> u32) rt" where
  "close_shard n =
     bindM (getM id) (\<lambda>s.
     if ex_shard_batch_size s > 0 \<and> \<not> ex_unconstrained s \<and> \<not> st_next_is_delayslot (ex_state s) then
       bindM inc_shard_if_need (\<lambda>inc.
       if inc then
         bindM (modM bump_record) (\<lambda>_.
         bindM (getM ex_shard_batch_size) (\<lambda>batch. retM (n + 1 \<ge> batch, n + 1)))
       else retM (False, n))
     else retM (False, n))"

partial_function (option) execute_loop ::
  "syscall_table \<Rightarrow> u32 \<Rightarrow> executor \<Rightarrow> (execution_error fail + (bool \<times> executor)) option" where
  "execute_loop table n s =
     (case execute_cycle table s of
        Inl e \<Rightarrow> Some (Inl e)
      | Inr (done, s) \<Rightarrow>
          if done then Some (Inr (True, s))
          else case close_shard n s of
            Inl e \<Rightarrow> Some (Inl e)
          | Inr ((stop, n), s) \<Rightarrow> if stop then Some (Inr (False, s)) else execute_loop table n s)"

fun publish :: "program \<Rightarrow> public_values \<Rightarrow> u32 \<Rightarrow> u32 \<Rightarrow> u32 \<Rightarrow> execution_record list \<Rightarrow> execution_record list" where
  "publish prog pv shard last_next_pc last_exit_code [] = []"
| "publish prog pv shard last_next_pc last_exit_code (r # rs) =
     (let (start_pc, next_pc, exit_code) =
            (if er_cpu_events r = [] then (last_next_pc, last_next_pc, last_exit_code)
             else (cpu_pc (hd (er_cpu_events r)), cpu_next_pc (last (er_cpu_events r)),
                   cpu_exit_code (last (er_cpu_events r))))
      in r\<lparr>er_program := prog,
           er_public_values := pv\<lparr>pv_execution_shard := shard, pv_start_pc := start_pc, pv_next_pc := next_pc,
                                  pv_exit_code := exit_code\<rparr>\<rparr> #
         publish prog pv (shard + 1) next_pc exit_code rs)"

definition finish_batch :: "u32 \<Rightarrow> bool \<Rightarrow> bool rt" where
  "finish_batch start_shard done =
     bindM (getM (\<lambda>s. er_public_values (ex_record s))) (\<lambda>pv.
     bindM (whenM done (bindM postprocess (\<lambda>_. modM bump_record))) (\<lambda>_.
     bindM (modM (\<lambda>s. if er_cpu_events (ex_record s) \<noteq> [] then bump_record s else s)) (\<lambda>_.
     bindM (modM (\<lambda>s. s\<lparr>ex_records := publish (ex_program s) pv start_shard 0 0 (ex_records s)\<rparr>)) (\<lambda>_.
     retM done))))"

definition execute :: "syscall_table \<Rightarrow> executor \<Rightarrow> (execution_error fail + (bool \<times> executor)) option" where
  "execute table s =
     (let start_shard = st_current_shard (ex_state s) in
      case (if st_global_clk (ex_state s) = 0 then initialize s else Inr ((), s)) of
        Inl e \<Rightarrow> Some (Inl e)
      | Inr (_, s) \<Rightarrow>
          (case execute_loop table 0 s of
             None \<Rightarrow> None
           | Some (Inl e) \<Rightarrow> Some (Inl e)
           | Some (Inr (done, s)) \<Rightarrow> Some (finish_batch start_shard done s)))"

section \<open>Entry points\<close>

definition execute_record ::
  "syscall_table \<Rightarrow> bool \<Rightarrow> executor \<Rightarrow> (execution_error fail + ((execution_record list \<times> bool) \<times> executor)) option" where
  "execute_record table emit s =
     (case execute table (s\<lparr>ex_executor_mode := Trace, ex_emit_global_memory_events := emit, ex_print_report := True\<rparr>) of
        None \<Rightarrow> None
      | Some (Inl e) \<Rightarrow> Some (Inl e)
      | Some (Inr (done, s)) \<Rightarrow> Some (Inr ((ex_records s, done), s\<lparr>ex_records := []\<rparr>)))"

text \<open>The memory of a checkpoint: everything, reset to the state before the batch, or only what the batch touched.\<close>

definition checkpoint_all :: "executor \<Rightarrow> execution_state \<Rightarrow> execution_state" where
  "checkpoint_all s cp =
     cp\<lparr>st_memory := memory_puts (memory_items (ex_memory_checkpoint s)) (st_memory (ex_state s)),
        st_uninitialized_memory :=
          memory_puts (map (\<lambda>(a, _). (a, None)) (filter (\<lambda>(_, is_old). \<not> is_old) (memory_items (ex_uninitialized_memory_checkpoint s))))
            (st_uninitialized_memory (ex_state s))\<rparr>"

definition checkpoint_touched :: "executor \<Rightarrow> execution_state \<Rightarrow> (execution_error, execution_state) outcome" where
  "checkpoint_touched s cp =
     (let old = map fst (filter (\<lambda>(_, has_value). has_value) (memory_items (ex_uninitialized_memory_checkpoint s)));
          um = st_uninitialized_memory (ex_state s)
      in if list_ex (\<lambda>a. memory_get um a = None) old then Inl (Panic ExpectFailed)
         else Inr (cp\<lparr>st_memory := memory_puts (filter (\<lambda>(_, r). r \<noteq> None) (memory_items (ex_memory_checkpoint s))) empty_memory,
                      st_uninitialized_memory := memory_puts (map (\<lambda>a. (a, memory_get um a)) old) empty_memory\<rparr>))"

definition execute_state ::
  "syscall_table \<Rightarrow> bool \<Rightarrow> executor \<Rightarrow> (execution_error fail + ((execution_state \<times> bool) \<times> executor)) option" where
  "execute_state table emit s =
     (let s = s\<lparr>ex_memory_checkpoint := empty_memory, ex_executor_mode := Checkpoint,
                ex_emit_global_memory_events := emit\<rparr>;
          cp = (ex_state s)\<lparr>st_memory := empty_memory, st_uninitialized_memory := empty_memory, st_proof_stream := []\<rparr>
      in case execute table s of
           None \<Rightarrow> None
         | Some (Inl e) \<Rightarrow> Some (Inl e)
         | Some (Inr (done, s)) \<Rightarrow>
             Some (case (if done \<and> \<not> ex_emit_global_memory_events s then Inr (checkpoint_all s cp)
                         else checkpoint_touched s cp) of
                     Inl e \<Rightarrow> Inl e
                   | Inr cp \<Rightarrow>
                       (let s = s\<lparr>ex_memory_checkpoint := empty_memory, ex_uninitialized_memory_checkpoint := empty_memory,
                                  ex_records := (if done then ex_records s else [])\<rparr>
                        in Inr ((cp\<lparr>st_records_clk := st_records_clk (ex_state s)\<rparr>, done),
                                s\<lparr>ex_state := (ex_state s)\<lparr>st_records_clk := []\<rparr>\<rparr>))))"

text \<open>\<open>while !self.execute()? {}\<close>\<close>

partial_function (option) execute_all ::
  "syscall_table \<Rightarrow> executor \<Rightarrow> (execution_error fail + (unit \<times> executor)) option" where
  "execute_all table s =
     (case execute table s of
        None \<Rightarrow> None
      | Some r \<Rightarrow>
          (case r of
             Inl e \<Rightarrow> Some (Inl e)
           | Inr (done, s) \<Rightarrow> if done then Some (Inr ((), s)) else execute_all table s))"

definition run_very_fast :: "syscall_table \<Rightarrow> executor \<Rightarrow> (execution_error fail + (unit \<times> executor)) option" where
  "run_very_fast table s = execute_all table (s\<lparr>ex_executor_mode := Simple, ex_print_report := False\<rparr>)"

definition run_fast :: "syscall_table \<Rightarrow> executor \<Rightarrow> (execution_error fail + (unit \<times> executor)) option" where
  "run_fast table s = execute_all table (s\<lparr>ex_executor_mode := Simple, ex_print_report := True\<rparr>)"

definition run :: "syscall_table \<Rightarrow> executor \<Rightarrow> (execution_error fail + (unit \<times> executor)) option" where
  "run table s = execute_all table (s\<lparr>ex_executor_mode := Trace, ex_print_report := True\<rparr>)"

end
