(* ===== verification/Step_Frame.thy ===== *)
theory Step_Frame
  imports Run_Loop
begin

text \<open>
  What one instruction leaves alone, in every mode: the global clock, the limits, the program and the saved
  state of an unconstrained block; and, inside such a block, the invariant of the undo log. The relation
  \<open>steady\<close> is a preorder, so it is proved for the accesses and carried through the instructions by the
  rules of \<open>step_preorder\<close>.
\<close>

unbundle bit_operations_syntax

section \<open>The undo log\<close>

text \<open>A key of the log names one location: a register number or a word-aligned address beyond the registers.\<close>

definition log_key :: "u32 \<Rightarrow> bool" where
  "log_key k \<longleftrightarrow> is_register_addr k \<or> k AND 3 = 0 \<and> valid_page k"

definition undoable :: "memory_record memory \<Rightarrow> executor \<Rightarrow> bool" where
  "undoable m0 s \<longleftrightarrow>
     (let m = st_memory (ex_state s); diff = fk_memory_diff (ex_unconstrained_state s) in
      finite (dom diff) \<and>
      (\<forall>k v. diff k = Some v \<longrightarrow> log_key k \<and> v = mem_at m0 (memory_loc k)) \<and>
      (\<forall>loc. mem_at m loc = mem_at m0 loc \<or> (\<exists>k. k \<in> dom diff \<and> memory_loc k = loc)))"

definition low_words_vacant :: "executor \<Rightarrow> bool" where
  "low_words_vacant s \<longleftrightarrow> (\<forall>w<9. page_table (st_memory (ex_state s)) w = None)"

definition fork_rest :: "fork_state \<Rightarrow> fork_state" where
  "fork_rest fk = fk\<lparr>fk_memory_diff := Map.empty\<rparr>"

definition settings :: "executor \<Rightarrow> u64 \<times> bool \<times> u64 option \<times> fork_state \<times> program \<times> executor_mode" where
  "settings s = (st_global_clk (ex_state s), ex_unconstrained s, ex_max_cycles s,
     fork_rest (ex_unconstrained_state s), ex_program s, ex_executor_mode s)"

definition steady :: "memory_record memory \<Rightarrow> executor \<Rightarrow> executor \<Rightarrow> bool" where
  "steady m0 s t \<longleftrightarrow> settings t = settings s \<and> (low_words_vacant t \<longrightarrow> low_words_vacant s) \<and>
     (ex_unconstrained s \<and> low_words_vacant t \<and> undoable m0 s \<longrightarrow> undoable m0 t)"

lemma settings_unconstrained: "settings t = settings s \<Longrightarrow> ex_unconstrained t = ex_unconstrained s"
  by (simp add: settings_def)

interpretation steady: step_preorder "steady m0" for m0
  by unfold_locales (auto simp: steady_def dest: settings_unconstrained)

lemma page_loc_key:
  assumes "k AND 3 = 0" and "\<not> is_register_addr k"
  shows "k = decompress_addr (compress_addr k)" "memory_loc k = LMem (compress_addr k)"
proof -
  have "4 dvd unat k"
  proof -
    have "k AND mask 2 = 0" using assms(1) by (simp add: mask_eq_exp_minus_1)
    then have "take_bit 2 k = 0" by (simp add: take_bit_eq_mask)
    then have "unat (take_bit 2 k) = 0" by simp
    then show ?thesis by (simp only: unsigned_take_bit_eq) (simp add: take_bit_eq_mod dvd_eq_mod_eq_0)
  qed
  then have "push_bit 2 (drop_bit 2 (unat k)) = unat k"
    by (simp add: push_bit_eq_mult drop_bit_eq_div)
  then show "k = decompress_addr (compress_addr k)"
    by (simp add: decompress_addr_def compress_addr_def)
qed (use assms in \<open>simp add: memory_loc_def page_loc_def\<close>)

lemma memory_loc_inject: "log_key k \<Longrightarrow> log_key k' \<Longrightarrow> memory_loc k = memory_loc k' \<Longrightarrow> k = k'"
  using page_loc_key [of k] page_loc_key [of k']
  by (cases "is_register_addr k"; cases "is_register_addr k'")
     (auto simp: log_key_def memory_loc_def page_loc_def word_unat_eq_iff)

section \<open>Accesses\<close>

definition logged :: "u32 \<Rightarrow> memory_record option \<Rightarrow> fork_state \<Rightarrow> fork_state" where
  "logged addr v fk = (case fk_memory_diff fk addr of
     Some _ \<Rightarrow> fk | None \<Rightarrow> fk\<lparr>fk_memory_diff := (fk_memory_diff fk)(addr \<mapsto> v)\<rparr>)"

definition access_at :: "u32 \<Rightarrow> mem_loc \<Rightarrow> executor \<Rightarrow> executor \<Rightarrow> bool" where
  "access_at addr loc s t \<longleftrightarrow> (\<exists>cur. accessed loc cur s t) \<and> ex_max_cycles t = ex_max_cycles s \<and>
     ex_unconstrained_state t =
       (if ex_unconstrained s then logged addr (mem_at (st_memory (ex_state s)) loc) (ex_unconstrained_state s)
        else ex_unconstrained_state s)"

lemma fork_rest_logged [simp]: "fork_rest (logged addr v fk) = fork_rest fk"
  by (simp add: fork_rest_def logged_def split: option.split)

lemma access_steady:
  assumes "access_at addr loc s t"
    and "log_key addr \<and> loc = memory_loc addr \<or> (\<exists>w<9. loc = LMem w)"
  shows "steady m0 s t"
proof -
  obtain cur where a: "frame s t" "st_memory (ex_state t) = mem_set (st_memory (ex_state s)) loc (Some cur)"
    using assms(1) by (auto simp: access_at_def accessed_def)
  have "st_global_clk (ex_state t) = st_global_clk (ex_state s)"
  proof -
    obtain m where "ex_state t = (ex_state s)\<lparr>st_memory := m\<rparr>" using frame_state [OF a(1)] by blast
    then show ?thesis by simp
  qed
  then have set: "settings t = settings s"
    using assms(1) frame_eqs [OF a(1)] by (auto simp: settings_def access_at_def)
  have low: "page_table (st_memory (ex_state s)) w = None" if "page_table (st_memory (ex_state t)) w = None" for w
    using that a(2) by (cases loc) (auto split: if_splits)
  have "undoable m0 t" if u: "ex_unconstrained s" and lo: "low_words_vacant t" and i: "undoable m0 s"
  proof -
    have l: "log_key addr" "loc = memory_loc addr"
    proof -
      have "\<not> (\<exists>w<9. loc = LMem w)" using lo a(2) by (auto simp: low_words_vacant_def)
      with assms(2) show "log_key addr" "loc = memory_loc addr" by auto
    qed
    let ?m = "st_memory (ex_state s)" and ?d = "fk_memory_diff (ex_unconstrained_state s)"
    let ?d' = "fk_memory_diff (ex_unconstrained_state t)"
    have i': "finite (dom ?d)" "\<And>k v. ?d k = Some v \<Longrightarrow> log_key k \<and> v = mem_at m0 (memory_loc k)"
      "\<And>loc. mem_at ?m loc = mem_at m0 loc \<or> (\<exists>k. k \<in> dom ?d \<and> memory_loc k = loc)"
      using i by (auto simp: undoable_def Let_def)
    have d': "?d' = (if addr \<in> dom ?d then ?d else ?d(addr \<mapsto> mem_at ?m loc))"
      using assms(1) u by (auto simp: access_at_def logged_def dom_def split: option.split)
    have new: "mem_at ?m loc = mem_at m0 loc" if "addr \<notin> dom ?d"
    proof (rule ccontr)
      assume "mem_at ?m loc \<noteq> mem_at m0 loc"
      then obtain k where "k \<in> dom ?d" "memory_loc k = memory_loc addr" using i'(3) l(2) by blast
      moreover from this have "log_key k" using i'(2) by blast
      ultimately show False using that memory_loc_inject l(1) by blast
    qed
    have "finite (dom ?d')" using i'(1) d' by simp
    moreover have "log_key k \<and> v = mem_at m0 (memory_loc k)" if "?d' k = Some v" for k v
      using that i'(2) d' new l by (auto split: if_splits)
    moreover have "mem_at (st_memory (ex_state t)) x = mem_at m0 x \<or> (\<exists>k. k \<in> dom ?d' \<and> memory_loc k = x)" for x
    proof (cases "x = loc")
      case True
      moreover have "addr \<in> dom ?d'" using d' by (cases "addr \<in> dom ?d") auto
      ultimately show ?thesis using l(2) by blast
    next
      case False
      have "dom ?d \<subseteq> dom ?d'" using d' by auto
      with False i'(3) [of x] a(2) show ?thesis by auto
    qed
    ultimately show ?thesis by (auto simp: undoable_def Let_def)
  qed
  with set low show ?thesis by (auto simp: steady_def low_words_vacant_def)
qed

lemma save_diff_logged:
  "ex_unconstrained_state (save_diff addr loc s) =
   logged addr (mem_at (st_memory (ex_state s)) loc) (ex_unconstrained_state s)"
  by (simp add: save_diff_def logged_def split: option.split)

lemma open_entry_fork:
  "ex_unconstrained_state (snd (open_entry cp addr loc uloc s)) =
     (if ex_unconstrained s then logged addr (mem_at (st_memory (ex_state s)) loc) (ex_unconstrained_state s)
      else ex_unconstrained_state s)"
  "ex_max_cycles (snd (open_entry cp addr loc uloc s)) = ex_max_cycles s"
  by (simp_all add: open_entry_def open_cell_def Let_def put_cell_def save_checkpoint_def
      save_diff_logged split: option.split)
    (simp_all add: save_diff_def split: option.split)

lemma tail_fork [simp]:
  "ex_unconstrained_state (snd (trace_local b addr prev cur lma s)) = ex_unconstrained_state s"
  "ex_max_cycles (snd (trace_local b addr prev cur lma s)) = ex_max_cycles s"
  "ex_unconstrained_state (put_cell loc r s) = ex_unconstrained_state s"
  "ex_max_cycles (put_cell loc r s) = ex_max_cycles s"
  "ex_unconstrained_state (count_local_mem b' s) = ex_unconstrained_state s"
  "ex_max_cycles (count_local_mem b' s) = ex_max_cycles s"
  by (simp_all add: trace_local_def put_cell_def count_local_mem_def split: option.split)

lemma access_at_open:
  assumes "accessed loc cur s t"
    and "ex_unconstrained_state t = ex_unconstrained_state (snd (open_entry cp addr loc uloc s))"
    and "ex_max_cycles t = ex_max_cycles (snd (open_entry cp addr loc uloc s))"
  shows "access_at addr loc s t"
  using assms by (auto simp: access_at_def open_entry_fork)

lemma mr_access:
  assumes "mr addr shard ts lma s = Inr (v, t)"
  shows "access_at addr (page_loc addr) s t" "valid_page addr"
  using assms mr_spec [of addr shard ts lma s]
  by (auto intro!: access_at_open [where cp = "checkpointing s" and uloc = "page_loc addr"]
      simp: mr_def page_access_def bindM_def Let_def split_beta)

lemma mw_access:
  assumes "mw addr x shard ts lma s = Inr (v, t)"
  shows "access_at addr (page_loc addr) s t" "valid_page addr"
  using assms mw_spec [of addr x shard ts lma s]
  by (auto intro!: access_at_open [where cp = "checkpointing s" and uloc = "page_loc addr"]
      simp: mw_def page_access_def bindM_def Let_def split_beta)

lemma rr_access: "rr r shard ts s = Inr (v, t) \<Longrightarrow> access_at (reg_index r) (reg_loc r) s t"
  using rr_spec [of r shard ts s]
  by (auto intro!: access_at_open [where cp = "checkpointing s" and uloc = "reg_loc r"] simp: rr_def Let_def split_beta)

lemma rr_traced_access: "rr_traced r shard ts lma s = Inr (v, t) \<Longrightarrow> access_at (reg_index r) (reg_loc r) s t"
  using rr_traced_spec [of r shard ts lma s]
  by (auto intro!: access_at_open [where cp = "checkpointing s" and uloc = "reg_loc r"] simp: rr_traced_def Let_def split_beta)

lemma rw_access: "rw r x shard ts s = Inr (v, t) \<Longrightarrow> access_at (reg_index r) (reg_loc r) s t"
  using rw_spec [of r x shard ts s]
  by (auto intro!: access_at_open [where cp = "checkpointing s" and uloc = "reg_loc r"] simp: rw_def Let_def split_beta)

lemma rw_traced_access: "rw_traced r x shard ts lma s = Inr (v, t) \<Longrightarrow> access_at (reg_index r) (reg_loc r) s t"
  using rw_traced_spec [of r x shard ts lma s]
  by (auto intro!: access_at_open [where cp = "ex_unconstrained s" and uloc = "reg_loc r"] simp: rw_traced_def Let_def split_beta)

lemma rw_cpu_traced_access:
  "rw_cpu_traced r x shard ts lma s = Inr (v, t) \<Longrightarrow> access_at (reg_index r) (reg_loc r) s t"
  using rw_cpu_traced_spec [of r x shard ts lma s]
  by (auto intro!: access_at_open [where cp = "checkpointing s" and uloc = "page_loc (reg_index r)"]
      simp: rw_cpu_traced_def Let_def split_beta)

section \<open>Instructions\<close>

named_theorems steady_rules \<open>operations that are steady\<close>

lemma steady_cong:
  assumes "settings t = settings s" "st_memory (ex_state t) = st_memory (ex_state s)"
    "fk_memory_diff (ex_unconstrained_state t) = fk_memory_diff (ex_unconstrained_state s)"
  shows "steady m0 s t"
  using assms by (simp add: steady_def undoable_def low_words_vacant_def)

lemma reg_log_key: "log_key (reg_index r)" "reg_loc r = memory_loc (reg_index r)"
proof -
  have "is_register_addr (reg_index r)"
    by (cases r) (simp_all add: is_register_addr_iff NUM_REGISTERS_def)
  then show "log_key (reg_index r)" "reg_loc r = memory_loc (reg_index r)"
    by (simp_all add: log_key_def memory_loc_def reg_loc_def)
qed

lemma reg_access_steady: "access_at (reg_index r) (reg_loc r) s t \<Longrightarrow> steady m0 s t"
  using reg_log_key [of r] by (blast intro: access_steady)

lemma aligned_and_3: "aligned addr AND 3 = 0"
  by (simp add: aligned_def and.assoc)

lemma word_access_steady:
  assumes "access_at (aligned addr) (page_loc (aligned addr)) s t" "valid_page (aligned addr)"
  shows "steady m0 s t"
proof (rule access_steady [OF assms(1)])
  let ?a = "aligned addr"
  show "log_key ?a \<and> page_loc ?a = memory_loc ?a \<or> (\<exists>w<9. page_loc ?a = LMem w)"
  proof (cases "is_register_addr ?a")
    case True
    then have "compress_addr ?a < 9"
      by (simp add: is_register_addr_iff NUM_REGISTERS_def compress_addr_def drop_bit_eq_div)
    then show ?thesis by (auto simp: page_loc_def)
  qed (simp add: assms(2) log_key_def memory_loc_def aligned_and_3)
qed

lemma keeps_case_prod: "(\<And>a b. keeps R (f a b)) \<Longrightarrow> keeps R (case p of (a, b) \<Rightarrow> f a b)"
  by (simp add: split_beta)

lemma keeps_case_option:
  "keeps R f \<Longrightarrow> (\<And>x. keeps R (g x)) \<Longrightarrow> keeps R (case p of None \<Rightarrow> f | Some x \<Rightarrow> g x)"
  by (cases p) auto

lemma keeps_Let: "(\<And>x. keeps R (f x)) \<Longrightarrow> keeps R (let x = e in f x)"
  by simp

lemma keeps_position:
  "keeps R a \<Longrightarrow> keeps R b \<Longrightarrow> keeps R c \<Longrightarrow> keeps R d \<Longrightarrow> keeps R e \<Longrightarrow>
   keeps R (case p of PosMemory \<Rightarrow> a | PosC \<Rightarrow> b | PosB \<Rightarrow> c | PosA \<Rightarrow> d | PosHI \<Rightarrow> e)"
  by (cases p) simp_all

lemmas [steady_rules] = steady.keeps_basic keeps_case_prod keeps_case_option keeps_Let keeps_position

lemma steady_modRecord [steady_rules]: "keeps (steady m0) (modRecord f)"
  by (rule keepsI) (auto simp: settings_def intro!: steady_cong)

lemma steady_modAccesses [steady_rules]: "keeps (steady m0) (modAccesses f)"
  by (rule keepsI) (auto simp: modAccesses_def settings_def intro!: steady_cong)

lemma steady_recM [steady_rules]: "keeps (steady m0) (recM f)"
  by (rule keepsI) (auto simp: recM_def settings_def intro!: steady_cong split: sum.splits)

lemma steady_modState:
  "(\<And>st. st_global_clk (f st) = st_global_clk st \<and> st_memory (f st) = st_memory st) \<Longrightarrow> keeps (steady m0) (modState f)"
  by (rule keepsI) (auto simp: settings_def intro!: steady_cong)

lemma steady_peek:
  "peek loc s = (v, t) \<Longrightarrow> steady m0 s t"
  by (auto simp: peek_def settings_def save_checkpoint_def split: if_splits intro!: steady_cong)

lemma steady_peek_register [steady_rules]: "keeps (steady m0) (peek_register r)"
  by (rule keepsI) (auto simp: peek_register_def intro: steady_peek)

lemma steady_word [steady_rules]: "keeps (steady m0) (word addr)"
  by (rule keepsI) (auto simp: word_def page_access_def bindM_Inr_iff intro: steady_peek split: if_splits)

lemma steady_byte [steady_rules]: "keeps (steady m0) (byte addr)"
  unfolding byte_def by (intro steady_rules)

lemma steady_regs [steady_rules]:
  "keeps (steady m0) (rr r shard ts)" "keeps (steady m0) (rr_traced r shard ts lma)"
  "keeps (steady m0) (rw r x shard ts)" "keeps (steady m0) (rw_traced r x shard ts lma)"
  "keeps (steady m0) (rw_cpu_traced r x shard ts lma)"
  by (rule keepsI, rule reg_access_steady, erule rr_access rr_traced_access rw_access rw_traced_access rw_cpu_traced_access)+

lemma steady_words [steady_rules]:
  "keeps (steady m0) (mr (aligned addr) shard ts lma)" "keeps (steady m0) (mw (aligned addr) x shard ts lma)"
  by (rule keepsI, blast intro: word_access_steady mr_access mw_access)+

lemma steady_basic [steady_rules]:
  "keeps (steady m0) current_shard" "keeps (steady m0) (timestamp p)" "keeps (steady m0) (reg_of n)" "keeps (steady m0) (reg_of_op n')"
  unfolding current_shard_def timestamp_def reg_of_def reg_of_op_def by (intro steady_rules)+

lemma steady_cpu [steady_rules]:
  "keeps (steady m0) (rr_cpu r p)" "keeps (steady m0) (rw_cpu r x p)"
  "keeps (steady m0) (mr_cpu (aligned addr))" "keeps (steady m0) (mw_cpu (aligned addr) x)"
  unfolding rr_cpu_def rw_cpu_def mr_cpu_def mw_cpu_def by (intro steady_rules)+

lemma steady_operands [steady_rules]:
  "keeps (steady m0) (alu_rr i)" "keeps (steady m0) (alu_rw i rd hi a b c)" "keeps (steady m0) (branch_rr i)"
  unfolding alu_rr_def alu_rw_def branch_rr_def by (intro steady_rules)+

lemma steady_instructions [steady_rules]:
  "keeps (steady m0) (execute_alu i)" "keeps (steady m0) (execute_load i)" "keeps (steady m0) (execute_store i)"
  "keeps (steady m0) (execute_branch i np nnp)" "keeps (steady m0) (execute_jump i)" "keeps (steady m0) (execute_jumpi i)"
  "keeps (steady m0) (execute_jump_direct i)" "keeps (steady m0) (execute_condmov i)"
  unfolding execute_alu_def execute_load_def execute_store_def execute_branch_def execute_jump_def execute_jumpi_def
    execute_jump_direct_def execute_condmov_def return_pc_def
  by (intro steady_rules)+

lemma steady_execute_misc [steady_rules]: "keeps (steady m0) (execute_misc i)"
  unfolding execute_misc_def execute_wsbh_def execute_ext_def execute_maddu_def execute_ins_def execute_sext_def
    execute_teq_def execute_msubu_def execute_madd_def execute_msub_def execute_madd_sub_def
  by (intro steady_rules)+

text \<open>The emission of events changes the record and nothing else.\<close>

definition only_record :: "executor \<Rightarrow> executor \<Rightarrow> bool" where
  "only_record s t \<longleftrightarrow> (\<exists>r. t = s\<lparr>ex_record := r\<rparr>)"

interpretation only_record: step_preorder only_record
proof
  show "only_record s s" for s unfolding only_record_def by (rule exI [of _ "ex_record s"]) simp
qed (auto simp: only_record_def)

lemma only_record_emit: "keeps only_record (emit_step i v)"
proof -
  have rec: "keeps only_record (recM f)" "keeps only_record (modRecord g)" for f g
    by (auto simp: keeps_def only_record_def recM_def split: sum.splits)
  note rules = only_record.keeps_basic keeps_case_prod keeps_case_option keeps_Let rec
  have "keeps only_record (emit_cpu clk pc np nnp a b c hi acc ec)" for clk pc np nnp a b c hi acc ec
    unfolding emit_cpu_def by (intro rules)
  moreover have "keeps only_record (emit_alu_event clk opc hi a b c h)"
    "keeps only_record (emit_mem_instr_event opc a b c pa)" "keeps only_record (emit_syscall_event clk ar sid x y np)"
    for clk opc hi a b c h pa ar sid x y np
    by (rule keepsI, auto simp: emit_alu_event_def emit_mem_instr_event_def emit_syscall_event_def Let_def split_beta
        only_record_def split: option.splits)+
  moreover have "keeps only_record (emit_branch_event opc a b c np nnp)" "keeps only_record (emit_jump_event opc a b c np nnp)"
    "keeps only_record (emit_misc_event clk opc a b c pa h)" for opc a b c np nnp clk pa h
    unfolding emit_branch_event_def emit_jump_event_def emit_misc_event_def by (intro rules)+
  ultimately show ?thesis unfolding emit_step_def emit_events_def by (intro rules)
qed

lemma only_record_steady: "only_record s t \<Longrightarrow> steady m0 s t"
  by (rule steady_cong) (auto simp: only_record_def settings_def)

lemma steady_dispatch: "opcode i \<noteq> Op_SYSCALL \<Longrightarrow> keeps (steady m0) (dispatch table i v)"
  unfolding dispatch_def enter_delay_slot_def by (simp only: if_False, intro steady_rules steady_modState) simp_all

text \<open>The parts of \<open>execute_operation\<close> around the dispatch.\<close>

lemma execute_operationE:
  assumes "execute_operation table i s = Inr (u, t)"
  obtains s1 v s2 where "\<And>m0. steady m0 s s1" "dispatch table i (initial_vars s) s1 = Inr (v, s2)" "\<And>m0. steady m0 s2 t"
    "ex_state s1 = (ex_state s)\<lparr>st_next_is_delayslot := False\<rparr>" "ex_state t = finish_step v (ex_state s2)"
proof -
  from assms obtain s1 v s2 s3 where s1: "s1 = count_events i (reset_accesses (s\<lparr>ex_state := (ex_state s)\<lparr>st_next_is_delayslot := False\<rparr>\<rparr>))"
    and d: "dispatch table i (initial_vars s) s1 = Inr (v, s2)" and e: "emit_step i v s2 = Inr ((), s3)"
    and t: "t = s3\<lparr>ex_state := finish_step v (ex_state s3)\<rparr>"
    unfolding execute_operation_def by (auto simp: bindM_Inr_iff split: if_splits)
  note e' = keepsD [OF only_record_emit e]
  have 1: "steady m0 s s1" for m0 unfolding s1 by (rule steady_cong) (simp_all add: count_events_def reset_accesses_def settings_def)
  have "steady m0 s3 t" for m0 unfolding t by (rule steady_cong) (simp_all add: settings_def finish_step_def)
  then have 2: "steady m0 s2 t" for m0 using only_record_steady [OF e'] steady.R_trans by blast
  have 3: "ex_state s1 = (ex_state s)\<lparr>st_next_is_delayslot := False\<rparr>"
    by (simp add: s1 count_events_def reset_accesses_def)
  have 4: "ex_state t = finish_step v (ex_state s2)" using e' by (auto simp: t only_record_def)
  show thesis by (rule that [OF 1 d 2 3 4])
qed

lemma steady_operation:
  assumes "opcode i \<noteq> Op_SYSCALL" shows "keeps (steady m0) (execute_operation table i)"
proof (rule keepsI)
  fix s u t assume "execute_operation table i s = Inr (u, t)"
  then show "steady m0 s t"
    by (rule execute_operationE) (blast intro: steady.R_trans keepsD [OF steady_dispatch [OF assms]])
qed

end
