(* ===== verification/Syscall_Frame.thy ===== *)
theory Syscall_Frame
  imports Step_Frame
begin

text \<open>
  System calls and the frame: every handler of the runtime except the two that open and close an unconstrained
  block is steady, and a \<open>SYSCALL\<close> instruction is steady around the call of its handler.
\<close>

section \<open>Handlers\<close>

definition ctx_steady :: "memory_record memory \<Rightarrow> syscall_context \<Rightarrow> syscall_context \<Rightarrow> bool" where
  "ctx_steady m0 c d \<longleftrightarrow> steady m0 (sc_rt c) (sc_rt d)"

interpretation ctx: step_preorder "ctx_steady m0" for m0
  by unfold_locales (auto simp: ctx_steady_def intro: steady.R_refl steady.R_trans)

named_theorems call_steady \<open>operations of the context that are steady\<close>

lemmas [call_steady] = ctx.keeps_basic keeps_case_prod keeps_case_option keeps_Let

lemma call_on_rt [call_steady]: "keeps (steady m0) m \<Longrightarrow> keeps (ctx_steady m0) (on_rt m)"
  by (auto simp: keeps_def ctx_steady_def on_rt_def split: sum.splits prod.splits)

lemma call_with_local:
  "(\<And>sh ts l. keeps (steady m0) (m sh ts l)) \<Longrightarrow> keeps (ctx_steady m0) (with_local m)"
  by (fastforce simp: keeps_def ctx_steady_def with_local_def split: sum.splits prod.splits)

lemma call_modM: "(\<And>c. sc_rt (f c) = sc_rt c) \<Longrightarrow> keeps (ctx_steady m0) (modM f)"
  by (rule keepsI) (auto simp: ctx_steady_def intro: steady.R_refl)

lemma call_registers [call_steady]:
  "keeps (ctx_steady m0) (ctx_rr_traced r)" "keeps (ctx_steady m0) (ctx_rw_traced r v)"
  "keeps (ctx_steady m0) (register_unsafe r)" "keeps (ctx_steady m0) (byte_unsafe addr)" "keeps (ctx_steady m0) (word_unsafe addr)"
  "keeps (ctx_steady m0) (set_next_pc v)" "keeps (ctx_steady m0) (set_exit_code v)"
  unfolding ctx_rr_traced_def ctx_rw_traced_def register_unsafe_def byte_unsafe_def word_unsafe_def
    set_next_pc_def set_exit_code_def
  by (intro call_steady call_with_local call_modM steady_rules; simp)+

lemma call_slices [call_steady]:
  "keeps (ctx_steady m0) (bytes_unsafe as)" "keeps (ctx_steady m0) (words_unsafe as)" "keeps (ctx_steady m0) (slice_unsafe a n)"
proof -
  show w: "keeps (ctx_steady m0) (words_unsafe as)" for as
    by (induction as) (simp_all only: words_unsafe.simps, (intro call_steady; assumption)+)
  show "keeps (ctx_steady m0) (bytes_unsafe as)"
    by (induction as) (simp_all only: bytes_unsafe.simps, (intro call_steady; assumption)+)
  show "keeps (ctx_steady m0) (slice_unsafe a n)" unfolding slice_unsafe_def by (rule w)
qed

lemma steady_record: "ex_state t = ex_state s \<Longrightarrow> settings t = settings s \<Longrightarrow>
    ex_unconstrained_state t = ex_unconstrained_state s \<Longrightarrow> steady m0 s t"
  by (rule steady_cong) simp_all

lemma move_local_rest:
  "settings (snd (move_local es s)) = settings s"
  "ex_unconstrained_state (snd (move_local es s)) = ex_unconstrained_state s"
  by (induction es s rule: move_local.induct) (simp_all add: Let_def split_beta settings_def split: option.split)

lemma call_emit_linux_steady [call_steady]: "keeps (ctx_steady m0) (emit_linux clk code a0 a1 v0 rs ws)"
proof -
  have "keeps (ctx_steady m0) ctx_postprocess"
    by (rule keepsI) (auto simp: ctx_postprocess_def ctx_steady_def split_beta move_local_state move_local_rest
        intro!: steady_record split: if_splits)
  moreover have "keeps (ctx_steady m0) (add_precompile_event k se e)" for k se e
    by (rule keepsI) (auto simp: add_precompile_event_def ctx_steady_def settings_def
        intro!: steady_record split: if_splits sum.splits)
  ultimately show ?thesis unfolding emit_linux_def by (intro call_steady)
qed

lemma steady_write_fd [steady_rules]: "keeps (steady m0) (write_fd fd bytes)"
proof -
  have h: "keeps (steady m0) (modM (handle_cycle_tracker_command cmd))" for cmd
    by (rule keepsI; cases cmd) (auto simp: start_cycle_tracker_def end_cycle_tracker_def settings_def Let_def
        intro!: steady_record split: option.splits)
  have b: "keeps (steady m0) (modM (\<lambda>s. snd (update_io_buf fd bytes s)))"
    by (rule keepsI) (auto simp: update_io_buf_def Let_def settings_def intro!: steady_record)
  have i: "keeps (steady m0) (invoke_hook hk bytes)" for hk
    unfolding invoke_hook_def
    by (intro steady_rules) (auto simp: keeps_def Let_def settings_def intro!: steady_cong split: if_splits)
  show ?thesis
    unfolding write_fd_def by (intro steady_rules h b i steady_modState) simp_all
qed

lemma call_write [call_steady]: "keeps (ctx_steady m0) (execute_write code a0 a1)"
  unfolding execute_write_def by (intro call_steady steady_rules)

lemma call_linux [call_steady]:
  "keeps (ctx_steady m0) (execute_sys_brk code a0 a1)" "keeps (ctx_steady m0) (execute_sys_clone code a0 a1)"
  "keeps (ctx_steady m0) (execute_sys_exit_group code a0 a1)" "keeps (ctx_steady m0) (execute_sys_fcntl code a0 a1)"
  "keeps (ctx_steady m0) (execute_sys_mmap code a0 a1)" "keeps (ctx_steady m0) (execute_sys_nop code a0 a1)"
  "keeps (ctx_steady m0) (execute_sys_read code a0 a1)" "keeps (ctx_steady m0) (execute_sys_write code a0 a1)"
  unfolding execute_sys_brk_def execute_sys_clone_def execute_sys_exit_group_def execute_sys_fcntl_def
    execute_sys_mmap_def execute_sys_nop_def execute_sys_read_def execute_sys_write_def
  by (intro call_steady steady_rules)+

lemma steady_put_hints [steady_rules]: "keeps (steady m0) (put_hints vec ptr is)"
proof -
  have "keeps (steady m0) (put_hint addr w)" for addr w
    unfolding put_hint_def
    by (rule keepsI) (auto simp: memory_access_def page_access_def bindM_Inr_iff Let_def settings_def
        intro!: steady_cong split: if_splits option.splits)
  then show ?thesis by (induction "is") (auto intro!: steady_rules)
qed

lemma call_runtime [call_steady]:
  "keeps (ctx_steady m0) (execute_halt code a0 a1)" "keeps (ctx_steady m0) (execute_commit code a0 a1)"
  "keeps (ctx_steady m0) (execute_commit_deferred code a0 a1)" "keeps (ctx_steady m0) (execute_hint_len code a0 a1)"
  "keeps (ctx_steady m0) (execute_hint_read code a0 a1)" "keeps (ctx_steady m0) (execute_verify code a0 a1)"
  unfolding execute_halt_def execute_commit_def execute_commit_deferred_def execute_hint_len_def
    execute_hint_read_def execute_verify_def update_public_values_def
  by (intro call_steady steady_rules steady_modState; simp)+

end
