(* ===== verification/Unconstrained.thy ===== *)
theory Unconstrained
  imports Syscall_Frame
begin

text \<open>
  Unconstrained blocks: whatever a block does, leaving it restores the memory, the clocks, the program counter, the
  record and the mode of its start. Inside a block only \<open>WRITE\<close> and \<open>EXIT_UNCONSTRAINED\<close> may be called; all
  other instructions maintain the undo log.
\<close>

section \<open>System call instructions\<close>

lemma steady_enter_syscall: "keeps (steady m0) enter_syscall"
proof -
  have "keeps (steady m0) (modM (\<lambda>s. if ex_print_report s \<and> \<not> ex_unconstrained s
      then s\<lparr>ex_report := (ex_report s)\<lparr>rp_syscall_counts := f s\<rparr>\<rparr> else s))" for f :: "executor \<Rightarrow> syscall_code \<Rightarrow> u64"
    by (rule keepsI) (auto simp: settings_def intro!: steady_record)
  then show ?thesis
    unfolding enter_syscall_def by (intro steady_rules steady_modState) (auto simp: count_syscall_def)
qed

lemma wp_modState_apply [wp_simps]: "wp (modState f) Q E s \<longleftrightarrow> Q () (s\<lparr>ex_state := f (ex_state s)\<rparr>)"
  by (simp add: wp_def)

definition keeps_rest :: "executor \<Rightarrow> executor \<Rightarrow> bool" where
  "keeps_rest s t \<longleftrightarrow>
     (\<forall>loc. loc \<noteq> reg_loc R_A0 \<longrightarrow> loc \<noteq> reg_loc R_A1 \<longrightarrow>
        mem_at (st_memory (ex_state t)) loc = mem_at (st_memory (ex_state s)) loc) \<and>
     st_pc (ex_state t) = st_pc (ex_state s) \<and> st_clk (ex_state t) = st_clk (ex_state s)"

definition holds_value :: "register \<Rightarrow> u32 \<Rightarrow> executor \<Rightarrow> bool" where
  "holds_value r v s \<longleftrightarrow> (\<exists>c. mem_at (st_memory (ex_state s)) (reg_loc r) = Some c \<and> rec_value c = v)"

text \<open>A system call reads its two arguments: their registers get new timestamps and keep their values.\<close>

definition reads_args :: "executor \<Rightarrow> executor \<Rightarrow> bool" where
  "reads_args s t \<longleftrightarrow> keeps_rest s t \<and> holds_value R_A0 (rec_value (reg_cell R_A0 s)) t \<and> holds_value R_A1 (rec_value (reg_cell R_A1 s)) t"

lemma cell_eqI:
  "mem_at (st_memory (ex_state t)) loc = mem_at (st_memory (ex_state s)) loc \<Longrightarrow>
   st_uninitialized_memory (ex_state t) = st_uninitialized_memory (ex_state s) \<Longrightarrow> cell loc uloc t = cell loc uloc s"
  by (simp add: cell_def initial_value_def split: option.split)

lemma holds_value_cell: "holds_value r v s \<Longrightarrow> rec_value (reg_cell r s) = v"
  by (auto simp: holds_value_def cell_def)

lemma wp_enter_syscall:
  "wp enter_syscall
     (\<lambda>(sid, b, c) t. (ex_unconstrained s \<longrightarrow> from_u32 sid = SC_EXIT_UNCONSTRAINED \<or> from_u32 sid = SC_WRITE) \<and>
        reads_args s t) (\<lambda>_. True) s"
proof -
  have acc: "keeps_rest s0 t" if "accessed (reg_loc r) cur s1 t" "keeps_rest s0 s1" "r = R_A0 \<or> r = R_A1" for r cur s0 s1 t
    using that frame_eqs [of s1 t] by (auto simp: accessed_def keeps_rest_def)
  have p: "keeps_rest s t" if "peeked s t" for t
    using that by (auto simp: peeked_def keeps_rest_def)
  have f: "reads_args s (t\<lparr>ex_report := rep\<rparr>) = reads_args s t"
    "reads_args s (t\<lparr>ex_state := count_syscall k (ex_state t)\<rparr>) = reads_args s t" 
    "reads_args s (t\<lparr>ex_report := rep, ex_state := count_syscall k (ex_state t)\<rparr>) = reads_args s t" for t rep k
    by (simp_all add: reads_args_def keeps_rest_def holds_value_def count_syscall_def)
  show ?thesis
    unfolding enter_syscall_def wp_bindM Let_def
  proof (rule wp_peek_register, rule wp_rr_cpu, simp, rule wp_rr_cpu, simp)
    fix t1 t2 t3 :: executor
    assume "peeked s t1" and a2: "accessed (reg_loc R_A1) (touched PosC t1 (reg_cell R_A1 t1)) t1 t2"
      and a3: "accessed (reg_loc R_A0) (touched PosB t2 (reg_cell R_A0 t2)) t2 t3"
    then have k: "keeps_rest s t3" and u: "ex_unconstrained t3 = ex_unconstrained s" and st: "ex_state t1 = ex_state s"
      using acc [OF a3 acc [OF a2 p]] accessed_eqs(2) [OF a2] accessed_eqs(2) [OF a3] by (auto simp: peeked_def frame_def)
    have m: "st_memory (ex_state t3) = mem_set (st_memory (ex_state t2)) (reg_loc R_A0) (Some (touched PosB t2 (reg_cell R_A0 t2)))"
      "st_memory (ex_state t2) = mem_set (st_memory (ex_state s)) (reg_loc R_A1) (Some (touched PosC t1 (reg_cell R_A1 t1)))"
      using a2 a3 st by (simp_all add: accessed_def)
    have "st_uninitialized_memory (ex_state t2) = st_uninitialized_memory (ex_state s)"
      using a2 frame_eqs(5) [of t1 t2] st by (simp add: accessed_def)
    then have "reg_cell R_A0 t2 = reg_cell R_A0 s" by (rule cell_eqI [rotated]) (simp add: m(2) del: mem_at.simps mem_set.simps)
    then have "reads_args s t3" using k cell_cong [OF st]
      by (simp add: reads_args_def holds_value_def m touched_def at_time_def del: mem_at.simps mem_set.simps)
    with u have "reads_args s t3" "ex_unconstrained t3 = ex_unconstrained s" by simp_all
    then show "wp (modM (\<lambda>sa. if ex_print_report sa \<and> \<not> ex_unconstrained sa
           then sa\<lparr>ex_report := (ex_report sa)\<lparr>rp_syscall_counts := (rp_syscall_counts (ex_report sa))
             (from_u32 (peek_value (reg_loc R_V0) s) := rp_syscall_counts (ex_report sa) (from_u32 (peek_value (reg_loc R_V0) s)) + 1)\<rparr>\<rparr>
           else sa))
      (\<lambda>v t. wp (getM ex_unconstrained)
         (\<lambda>v t. wp (if v \<and> from_u32 (peek_value (reg_loc R_V0) s) \<noteq> SC_EXIT_UNCONSTRAINED \<and> from_u32 (peek_value (reg_loc R_V0) s) \<noteq> SC_WRITE
             then errM (InvalidSyscallUsage (ucast (peek_value (reg_loc R_V0) s)))
             else bindM (modState (count_syscall (from_u32 (peek_value (reg_loc R_V0) s))))
                    (\<lambda>_. retM (peek_value (reg_loc R_V0) s, rec_value (reg_cell R_A0 t2), rec_value (reg_cell R_A1 t1))))
           (\<lambda>(sid, b, c) t. (ex_unconstrained s \<longrightarrow> from_u32 sid = SC_EXIT_UNCONSTRAINED \<or> from_u32 sid = SC_WRITE) \<and> reads_args s t)
           (\<lambda>_. True) t) (\<lambda>_. True) t) (\<lambda>_. True) t3"
      by (simp add: wp_simps f)
  qed
qed

lemma steady_leave_syscall: "keeps (steady m0) (leave_syscall v sid b c r)"
  unfolding leave_syscall_def by (intro steady_rules steady_modState) auto

definition writes_result :: "u32 \<Rightarrow> u32 \<Rightarrow> executor \<Rightarrow> executor \<Rightarrow> bool" where
  "writes_result v cycles s t \<longleftrightarrow>
     (\<exists>cur. rec_value cur = v \<and> st_memory (ex_state t) = mem_set (st_memory (ex_state s)) (reg_loc R_V0) (Some cur)) \<and>
     st_clk (ex_state t) = st_clk (ex_state s) + cycles"

lemma wp_leave_syscall:
  "wp (leave_syscall v sid b c (a, np, cycles, ec))
     (\<lambda>v' t. sv_next_pc v' = np \<and> writes_result a cycles s t) (\<lambda>_. True) s"
proof -
  have *: "wp (rw_cpu R_V0 a PosA) (\<lambda>_ t. writes_result a cycles s (t\<lparr>ex_state := (ex_state t)\<lparr>st_clk := st_clk (ex_state t) + cycles\<rparr>\<rparr>)) (\<lambda>_. True) s'"
    if "st_memory (ex_state s') = st_memory (ex_state s)" "st_clk (ex_state s') = st_clk (ex_state s)" for s'
  proof (rule wp_rw_cpu)
    fix t
    assume "accessed (reg_loc R_V0) (stored PosA s' (if R_V0 = R_ZERO then 0 else a)) s' t"
    then have "st_memory (ex_state t) = mem_set (st_memory (ex_state s)) (reg_loc R_V0) (Some (stored PosA s' a))" "st_clk (ex_state t) = st_clk (ex_state s)"
      using that frame_eqs(3) [of s' t] by (simp_all add: accessed_def)
    moreover have "rec_value (stored PosA s' a) = a" by (simp add: stored_def written_def)
    ultimately show "writes_result a cycles s (t\<lparr>ex_state := (ex_state t)\<lparr>st_clk := st_clk (ex_state t) + cycles\<rparr>\<rparr>)"
      unfolding writes_result_def by auto
  qed simp
  show ?thesis
    unfolding leave_syscall_def Let_def prod.case wp_bindM wp_whenM
    by (auto simp: wp_simps peeked_def intro!: wp_peek_register *)
qed

text \<open>A \<open>SYSCALL\<close> instruction, taken apart.\<close>

lemma operation_syscallE:
  assumes "execute_operation table i s = Inr (u, t)" "opcode i = Op_SYSCALL"
  obtains sid b c s1 res d impl s2 where "\<And>m0. steady m0 s s1" "reads_args s s1"
    "ex_unconstrained s \<Longrightarrow> from_u32 sid = SC_EXIT_UNCONSTRAINED \<or> from_u32 sid = SC_WRITE"
    "table (from_u32 sid) = Some impl"
    "si_execute impl (from_u32 sid) b c (context_new s1) = Inr (res, d)" "\<And>m0. steady m0 (sc_rt d) t"
    "writes_result (case res of Some v \<Rightarrow> v | None \<Rightarrow> sid) (si_num_extra_cycles impl + 5) (sc_rt d) t" "st_pc (ex_state t) = sc_next_pc d"
proof -
  obtain s1 v s2 where o1: "\<And>m0. steady m0 s s1"
    and d: "dispatch table i (initial_vars s) s1 = Inr (v, s2)" and o2: "\<And>m0. steady m0 s2 t"
    and st: "ex_state s1 = (ex_state s)\<lparr>st_next_is_delayslot := False\<rparr>" "ex_state t = finish_step v (ex_state s2)"
    by (rule execute_operationE [OF assms(1)]) (rule that)
  from d assms(2) have "execute_syscall table (initial_vars s) s1 = Inr (v, s2)"
    by (simp add: dispatch_def is_alu_instruction_def is_memory_load_instruction_def is_memory_store_instruction_def
        is_branch_instruction_def is_jump_instruction_def is_mov_cond_instruction_def is_misc_instruction_def)
  then obtain sid b c s3 a np cycles ec s4 where e: "enter_syscall s1 = Inr ((sid, b, c), s3)"
    and call: "call_syscall table (from_u32 sid) sid b c s3 = Inr ((a, np, cycles, ec), s4)"
    and l: "leave_syscall (initial_vars s) sid b c (a, np, cycles, ec) s4 = Inr (v, s2)"
    unfolding execute_syscall_def by (auto simp: bindM_Inr_iff)
  from call obtain impl res d where impl: "table (from_u32 sid) = Some impl"
    "si_execute impl (from_u32 sid) b c (context_new s3) = Inr (res, d)" "sc_rt d = s4" "sc_next_pc d = np"
    "si_num_extra_cycles impl = cycles" "a = (case res of Some v \<Rightarrow> v | None \<Rightarrow> sid)"
    by (auto simp: call_syscall_def split: option.splits sum.splits if_splits)
  have u: "ex_unconstrained s1 = ex_unconstrained s" using o1 by (simp add: steady_def settings_def)
  have "cell loc uloc s1 = cell loc uloc s" for loc uloc by (rule cell_eqI) (simp_all add: st(1))
  then have 1: "reads_args s s3" using wp_InrD [OF wp_enter_syscall e] st(1) by (simp add: reads_args_def keeps_rest_def)
  have 2: "ex_unconstrained s \<Longrightarrow> from_u32 sid = SC_EXIT_UNCONSTRAINED \<or> from_u32 sid = SC_WRITE"
    using wp_InrD [OF wp_enter_syscall e] u by simp
  have 3: "steady m0 s s3" "steady m0 (sc_rt d) t" for m0
    using steady.R_trans o1 o2 keepsD [OF steady_enter_syscall e] keepsD [OF steady_leave_syscall l] impl(3) by blast+
  have 4: "writes_result (case res of Some v \<Rightarrow> v | None \<Rightarrow> sid) (si_num_extra_cycles impl + 5) (sc_rt d) t" "st_pc (ex_state t) = sc_next_pc d"
    using wp_InrD [OF wp_leave_syscall l] st(2) impl(3-6) by (auto simp: writes_result_def finish_step_def)
  show thesis by (rule that [OF 3(1) 1 2 impl(1,2) 3(2) 4])
qed

section \<open>Inside a block\<close>

text \<open>Steps of a block: instructions that leave the executor unconstrained, and the counting of cycles.\<close>

inductive block :: "(syscall_code \<Rightarrow> syscall_impl) \<Rightarrow> executor \<Rightarrow> executor \<Rightarrow> bool" for precompiles s0 where
  start: "block precompiles s0 s0"
| cycle: "block precompiles s0 s \<Longrightarrow> execute_cycle (default_syscall_map precompiles) s = Inr (False, t) \<Longrightarrow>
    ex_unconstrained t \<Longrightarrow> block precompiles s0 t"

lemma exit_handler_constrained:
  assumes "execute_exit_unconstrained code a0 a1 c = Inr (r, d)"
  shows "\<not> ex_unconstrained (sc_rt d)"
proof -
  have "ex_unconstrained s' = ex_unconstrained s" if "restore_memory diffs s = Inr (u, s')" for diffs s s' u
    using that by (induction diffs arbitrary: s rule: restore_memory.induct)
      (fastforce simp: bindM_Inr_iff memory_access_def page_access_def split: if_splits)+
  then show ?thesis
    using assms by (auto simp: execute_exit_unconstrained_def leave_unconstrained_def bindM_Inr_iff on_rt_def
        split: if_splits sum.splits prod.splits)
qed

lemma block_step_steady:
  assumes "execute_operation (default_syscall_map precompiles) i s = Inr (u, t)"
    and "ex_unconstrained s" "ex_unconstrained t"
  shows "steady m0 s t"
proof (cases "opcode i = Op_SYSCALL")
  case True
  from assms(1) True show ?thesis
  proof (rule operation_syscallE)
    fix sid b c s1 res d impl
    assume st: "\<And>m0. steady m0 s s1" "\<And>m0. steady m0 (sc_rt d) t"
      and w: "ex_unconstrained s \<Longrightarrow> from_u32 sid = SC_EXIT_UNCONSTRAINED \<or> from_u32 sid = SC_WRITE"
      and impl: "default_syscall_map precompiles (from_u32 sid) = Some impl"
        "si_execute impl (from_u32 sid) b c (context_new s1) = Inr (res, d)"
    have "ex_unconstrained (sc_rt d)" using st(2) assms(3) by (simp add: steady_def settings_def)
    moreover have "\<not> ex_unconstrained (sc_rt d)" if "from_u32 sid = SC_EXIT_UNCONSTRAINED"
      using impl that exit_handler_constrained by (auto simp: default_syscall_map_def plain_def precompile_syscalls_def nop_syscalls_def)
    ultimately have "from_u32 sid = SC_WRITE" using w assms(2) by blast
    with impl have "execute_write (from_u32 sid) b c (context_new s1) = Inr (res, d)"
      by (auto simp: default_syscall_map_def plain_def precompile_syscalls_def nop_syscalls_def)
    from keepsD [OF call_write this] have "steady m0 s1 (sc_rt d)" by (simp add: ctx_steady_def context_new_def)
    with st show ?thesis using steady.R_trans by blast
  qed
qed (rule keepsD [OF steady_operation assms(1)])

section \<open>Which instructions enter and leave a block\<close>

text \<open>The cryptographic precompiles read and write memory and registers; they do not touch the settings.\<close>

definition precompiles_steady :: "(syscall_code \<Rightarrow> syscall_impl) \<Rightarrow> bool" where
  "precompiles_steady p \<longleftrightarrow>
     (\<forall>code k a b c r d. code \<in> precompile_syscalls \<longrightarrow> si_execute (p code) k a b c = Inr (r, d) \<longrightarrow>
        settings (sc_rt d) = settings (sc_rt c))"

lemma ctx_steady_settings: "ctx_steady m0 c d \<Longrightarrow> settings (sc_rt d) = settings (sc_rt c)"
  by (simp add: ctx_steady_def steady_def)

lemma handler_settings:
  assumes "precompiles_steady precompiles" "default_syscall_map precompiles code = Some impl"
    and "code \<noteq> SC_ENTER_UNCONSTRAINED" "code \<noteq> SC_EXIT_UNCONSTRAINED"
    and "si_execute impl k a b c = Inr (r, d)"
  shows "settings (sc_rt d) = settings (sc_rt c)"
proof (cases "code \<in> precompile_syscalls")
  case True
  with assms(2) have "impl = precompiles code" by (simp add: default_syscall_map_def)
  with assms(1,5) True show ?thesis unfolding precompiles_steady_def by blast
next
  case False
  have "keeps (ctx_steady m0) (si_execute impl k a b)" for m0
    using assms(2-4) False
    by (auto simp: default_syscall_map_def plain_def split: if_splits intro: call_steady)
  from keepsD [OF this assms(5)] show ?thesis by (rule ctx_steady_settings)
qed

lemma block_change:
  assumes "execute_operation (default_syscall_map precompiles) i s = Inr (u, t)"
    and "precompiles_steady precompiles" and "settings t \<noteq> settings s"
  obtains (enter) s1 d b c where "\<And>m0. steady m0 s s1" "reads_args s s1"
      "execute_enter_unconstrained SC_ENTER_UNCONSTRAINED b c (context_new s1) = Inr (Some 1, d)"
      "\<And>m0. steady m0 (sc_rt d) t" "writes_result 1 5 (sc_rt d) t" "st_pc (ex_state t) = sc_next_pc d"
  | (leave) s1 d b c where "\<And>m0. steady m0 s s1" "reads_args s s1"
      "execute_exit_unconstrained SC_EXIT_UNCONSTRAINED b c (context_new s1) = Inr (Some 0, d)"
      "\<And>m0. steady m0 (sc_rt d) t" "writes_result 0 5 (sc_rt d) t" "st_pc (ex_state t) = sc_next_pc d"
proof -
  have sys: "opcode i = Op_SYSCALL"
    using keepsD [OF steady_operation assms(1)] assms(3) by (auto simp: steady_def)
  from assms(1) sys show thesis
  proof (rule operation_syscallE)
    fix sid b c s1 res d impl
    assume s1: "\<And>m0. steady m0 s s1" "reads_args s s1" and impl: "default_syscall_map precompiles (from_u32 sid) = Some impl"
      and e: "si_execute impl (from_u32 sid) b c (context_new s1) = Inr (res, d)" and t: "\<And>m0. steady m0 (sc_rt d) t"
      and w: "writes_result (case res of Some v \<Rightarrow> v | None \<Rightarrow> sid) (si_num_extra_cycles impl + 5) (sc_rt d) t" and pc: "st_pc (ex_state t) = sc_next_pc d"
    have "settings (sc_rt d) \<noteq> settings s1" using s1(1) t assms(3) by (simp add: steady_def)
    then have "from_u32 sid = SC_ENTER_UNCONSTRAINED \<or> from_u32 sid = SC_EXIT_UNCONSTRAINED"
      using handler_settings [OF assms(2) impl _ _ e] by (auto simp: context_new_def)
    then show thesis
    proof
      assume k: "from_u32 sid = SC_ENTER_UNCONSTRAINED"
      with impl e have "execute_enter_unconstrained SC_ENTER_UNCONSTRAINED b c (context_new s1) = Inr (res, d)"
        by (auto simp: default_syscall_map_def plain_def precompile_syscalls_def nop_syscalls_def)
      moreover from this have "res = Some 1"
        by (auto simp: execute_enter_unconstrained_def on_rt_def Let_def split: if_splits)
      moreover have "si_num_extra_cycles impl = 0" using impl k
        by (auto simp: default_syscall_map_def plain_def precompile_syscalls_def nop_syscalls_def)
      ultimately show thesis using enter [OF s1 _ t _ pc] w by simp
    next
      assume k: "from_u32 sid = SC_EXIT_UNCONSTRAINED"
      with impl e have "execute_exit_unconstrained SC_EXIT_UNCONSTRAINED b c (context_new s1) = Inr (res, d)"
        by (auto simp: default_syscall_map_def plain_def precompile_syscalls_def nop_syscalls_def)
      moreover from this have "res = Some 0"
        by (auto simp: execute_exit_unconstrained_def bindM_Inr_iff)
      moreover have "si_num_extra_cycles impl = 0" using impl k
        by (auto simp: default_syscall_map_def plain_def precompile_syscalls_def nop_syscalls_def)
      ultimately show thesis using leave [OF s1 _ t _ pc] w by simp
    qed
  qed
qed

section \<open>Restoring the memory\<close>

lemma restore_memory_spec:
  assumes "restore_memory diffs s = Inr (u, t)" "\<forall>(k, v)\<in>set diffs. v = mem_at m0 (memory_loc k)"
    and "\<And>loc. mem_at (st_memory (ex_state s)) loc = mem_at m0 loc \<or> loc \<in> memory_loc ` fst ` set diffs"
  shows "t = s\<lparr>ex_state := (ex_state s)\<lparr>st_memory := m0\<rparr>\<rparr>"
  using assms
proof (induction diffs arbitrary: s)
  case Nil
  then have "st_memory (ex_state s) = m0" by (intro memory_eqI) simp
  with Nil(1) show ?case by auto
next
  case (Cons kv diffs)
  obtain k v where kv: "kv = (k, v)" by (cases kv)
  let ?s = "s\<lparr>ex_state := (ex_state s)\<lparr>st_memory := mem_set (st_memory (ex_state s)) (memory_loc k) v\<rparr>\<rparr>"
  have "restore_memory diffs ?s = Inr (u, t)"
    using Cons.prems(1) by (auto simp: kv bindM_Inr_iff memory_access_def page_access_def split: if_splits)
  moreover have "mem_at (st_memory (ex_state ?s)) loc = mem_at m0 loc \<or> loc \<in> memory_loc ` fst ` set diffs" for loc
    using Cons.prems(2) Cons.prems(3) [of loc] by (auto simp: kv)
  ultimately have "t = ?s\<lparr>ex_state := (ex_state ?s)\<lparr>st_memory := m0\<rparr>\<rparr>"
    using Cons.prems(2) by (intro Cons.IH) simp_all
  then show ?case by simp
qed

lemma set_drain: "finite (dom m) \<Longrightarrow> set (drain m) = (\<lambda>k. (k, the (m k))) ` dom m"
  by (simp add: drain_def)

lemma exit_restores:
  assumes "execute_exit_unconstrained code b c ctx = Inr (r, d)" "ex_unconstrained (sc_rt ctx)" "undoable m0 (sc_rt ctx)"
  defines "fk \<equiv> ex_unconstrained_state (sc_rt ctx)"
  shows "st_memory (ex_state (sc_rt d)) = m0" "st_pc (ex_state (sc_rt d)) = fk_pc fk" "st_clk (ex_state (sc_rt d)) = fk_clk fk"
    "st_global_clk (ex_state (sc_rt d)) = fk_global_clk fk" "ex_executor_mode (sc_rt d) = fk_executor_mode fk"
    "ex_record (sc_rt d) = fk_record fk" "sc_next_pc d = fk_pc fk + 4" "\<not> ex_unconstrained (sc_rt d)"
proof -
  define s where "s = (sc_rt ctx)\<lparr>ex_state := (ex_state (sc_rt ctx))
    \<lparr>st_global_clk := fk_global_clk fk, st_clk := fk_clk fk, st_pc := fk_pc fk\<rparr>\<rparr>"
  have diff: "finite (dom (fk_memory_diff fk))" "\<And>k v. fk_memory_diff fk k = Some v \<Longrightarrow> v = mem_at m0 (memory_loc k)"
    "\<And>loc. mem_at (st_memory (ex_state s)) loc = mem_at m0 loc \<or> (\<exists>k. k \<in> dom (fk_memory_diff fk) \<and> memory_loc k = loc)"
    using assms(3) by (auto simp: undoable_def Let_def fk_def s_def)
  have a: "\<forall>(k, v)\<in>set (drain (fk_memory_diff fk)). v = mem_at m0 (memory_loc k)"
    using diff(2) by (auto simp: set_drain [OF diff(1)])
  have b: "mem_at (st_memory (ex_state s)) loc = mem_at m0 loc \<or> loc \<in> memory_loc ` fst ` set (drain (fk_memory_diff fk))" for loc
    using diff(3) [of loc] by (auto simp: set_drain [OF diff(1)] image_image)
  have r: "restore_memory (drain (fk_memory_diff fk)) s = Inr (u, t) \<Longrightarrow> t = s\<lparr>ex_state := (ex_state s)\<lparr>st_memory := m0\<rparr>\<rparr>" for u t
    using restore_memory_spec [OF _ a b] .
  from assms(1,2) obtain t where t: "restore_memory (drain (fk_memory_diff fk)) s = Inr ((), t)"
    and d: "sc_rt d = t\<lparr>ex_record := fk_record (ex_unconstrained_state t), ex_memory_accesses := fk_op_record (ex_unconstrained_state t),
        ex_executor_mode := fk_executor_mode (ex_unconstrained_state t), ex_unconstrained := False, ex_unconstrained_state := default_fork_state\<rparr>"
      "sc_next_pc d = fk_pc fk + 4"
    by (auto simp: execute_exit_unconstrained_def leave_unconstrained_def bindM_Inr_iff on_rt_def s_def fk_def
        split: sum.splits)
  show "st_memory (ex_state (sc_rt d)) = m0" "st_pc (ex_state (sc_rt d)) = fk_pc fk" "st_clk (ex_state (sc_rt d)) = fk_clk fk"
    "st_global_clk (ex_state (sc_rt d)) = fk_global_clk fk" "ex_executor_mode (sc_rt d) = fk_executor_mode fk"
    "ex_record (sc_rt d) = fk_record fk" "sc_next_pc d = fk_pc fk + 4" "\<not> ex_unconstrained (sc_rt d)"
    unfolding d r [OF t] by (simp_all add: s_def fk_def)
qed

lemma execute_cycleE:
  assumes "execute_cycle table s = Inr (x, t)"
  obtains i s' where "execute_operation table i s = Inr ((), s')"
    "t = s'\<lparr>ex_state := (ex_state s')\<lparr>st_global_clk := st_global_clk (ex_state s') + 1\<rparr>\<rparr>"
    "\<And>M. ex_max_cycles t = Some M \<Longrightarrow> st_global_clk (ex_state t) < M" "\<not> (x \<and> ex_unconstrained t)"
  using assms unfolding execute_cycle_def fetch_def
  by (fastforce simp: bindM_Inr_iff liftM_Inr_iff not_le split: option.splits if_splits)

text \<open>The invariant of a block that started in \<open>s1\<close>.\<close>

lemma block_invariant:
  assumes "block precompiles s1 s" "ex_unconstrained s1"
  shows "ex_unconstrained s \<and> fork_rest (ex_unconstrained_state s) = fork_rest (ex_unconstrained_state s1) \<and>
         (low_words_vacant s \<longrightarrow> low_words_vacant s1 \<and> (undoable m0 s1 \<longrightarrow> undoable m0 s))"
  using assms(1)
proof induction
  case (cycle s t)
  from cycle(2) obtain i s' where o: "execute_operation (default_syscall_map precompiles) i s = Inr ((), s')"
    and t: "t = s'\<lparr>ex_state := (ex_state s')\<lparr>st_global_clk := st_global_clk (ex_state s') + 1\<rparr>\<rparr>"
    by (rule execute_cycleE)
  have "steady m0 s s'" using block_step_steady [OF o] cycle(3) cycle.IH t by simp
  then show ?case using cycle.IH cycle(3) unfolding t by (auto simp: steady_def settings_def low_words_vacant_def undoable_def)
qed (simp add: assms(2))

lemma enter_saves:
  assumes "execute_enter_unconstrained code b c (context_new s) = Inr (r, d)"
  shows "undoable (st_memory (ex_state s)) (sc_rt d)" "ex_unconstrained (sc_rt d)" "\<not> ex_unconstrained s"
    "ex_state (sc_rt d) = ex_state s"
    "ex_unconstrained_state (sc_rt d) = \<lparr>fk_global_clk = st_global_clk (ex_state s), fk_clk = st_clk (ex_state s),
       fk_pc = st_pc (ex_state s), fk_memory_diff = Map.empty, fk_op_record = ex_memory_accesses s, fk_record = ex_record s,
       fk_executor_mode = ex_executor_mode s\<rparr>"
  using assms by (auto simp: execute_enter_unconstrained_def on_rt_def context_new_def Let_def undoable_def split: if_splits)

lemma fork_rest_fields:
  "fork_rest fk = fork_rest fk' \<Longrightarrow> fk_global_clk fk = fk_global_clk fk' \<and> fk_clk fk = fk_clk fk' \<and> fk_pc fk = fk_pc fk' \<and>
     fk_executor_mode fk = fk_executor_mode fk' \<and> fk_record fk = fk_record fk'"
  by (cases fk; cases fk') (simp add: fork_rest_def)

lemma reads_args_low: "reads_args s t \<Longrightarrow> low_words_vacant t = low_words_vacant s"
  unfolding reads_args_def keeps_rest_def low_words_vacant_def by (metis mem_at.simps(2) reg_page_loc(2))

lemma entering:
  assumes "execute_operation (default_syscall_map precompiles) i s = Inr (u, t)" "precompiles_steady precompiles"
    and "\<not> ex_unconstrained s" "ex_unconstrained t"
  obtains s1 d b c where "\<And>m0. steady m0 s s1" "reads_args s s1"
    "execute_enter_unconstrained SC_ENTER_UNCONSTRAINED b c (context_new s1) = Inr (Some 1, d)" "\<And>m0. steady m0 (sc_rt d) t"
proof (rule block_change [OF assms(1,2)])
  show "settings t \<noteq> settings s" using assms(3,4) by (auto simp: settings_def)
next
  fix s1 d b c
  assume "execute_exit_unconstrained SC_EXIT_UNCONSTRAINED b c (context_new s1) = Inr (Some 0, d)" "\<And>m0. steady m0 (sc_rt d) t"
  then show thesis using exit_handler_constrained assms(4) by (auto simp: steady_def settings_def)
qed (rule that)

lemma leaving:
  assumes "execute_operation (default_syscall_map precompiles) i s = Inr (u, t)" "precompiles_steady precompiles"
    and "ex_unconstrained s" "\<not> ex_unconstrained t"
  obtains s1 d b c where "\<And>m0. steady m0 s s1" "reads_args s s1"
    "execute_exit_unconstrained SC_EXIT_UNCONSTRAINED b c (context_new s1) = Inr (Some 0, d)" "\<And>m0. steady m0 (sc_rt d) t"
    "writes_result 0 5 (sc_rt d) t" "st_pc (ex_state t) = sc_next_pc d"
proof (rule block_change [OF assms(1,2)])
  show "settings t \<noteq> settings s" using assms(3,4) by (auto simp: settings_def)
next
  fix s1 d b c
  assume "execute_enter_unconstrained SC_ENTER_UNCONSTRAINED b c (context_new s1) = Inr (Some 1, d)" "\<And>m0. steady m0 (sc_rt d) t"
  then show thesis using enter_saves(2) assms(4) by (auto simp: steady_def settings_def)
qed (rule that)

text \<open>C2: leaving an unconstrained block undoes it. When an instruction enters a block, any number of cycles run
  inside it and an instruction leaves it, the program continues after the first instruction as if only that
  instruction had been executed, with result 0: every memory word and every register other than \<open>V0\<close>, \<open>A0\<close> and
  \<open>A1\<close> holds the same value with the same shard and timestamp as before, \<open>A0\<close> and \<open>A1\<close>, which the entering system call
  reads, hold their old values, \<open>V0\<close> holds 0, and the program counter, the clocks and the mode are those of a
  single executed instruction. The hypotheses: the precompiles do not touch the executor's settings, and the memory has no
  record for a word below address 36 when the block is left. Those words share the keys of the registers in the
  undo log, and the log does not restore them correctly.\<close>

theorem unconstrained_block_restores:
  assumes "precompiles_steady precompiles"
    and "\<not> ex_unconstrained s" "execute_cycle (default_syscall_map precompiles) s = Inr (x, s1)" "ex_unconstrained s1"
    and "block precompiles s1 s2" "low_words_vacant s2"
    and "execute_cycle (default_syscall_map precompiles) s2 = Inr (y, t)" "\<not> ex_unconstrained t"
  shows "(\<forall>loc. loc \<notin> {reg_loc R_V0, reg_loc R_A0, reg_loc R_A1} \<longrightarrow>
            mem_at (st_memory (ex_state t)) loc = mem_at (st_memory (ex_state s)) loc) \<and>
         rec_value (reg_cell R_A0 t) = rec_value (reg_cell R_A0 s) \<and> rec_value (reg_cell R_A1 t) = rec_value (reg_cell R_A1 s) \<and>
         rec_value (reg_cell R_V0 t) = 0 \<and>
         st_pc (ex_state t) = st_pc (ex_state s) + 4 \<and> st_clk (ex_state t) = st_clk (ex_state s) + 5 \<and>
         st_global_clk (ex_state t) = st_global_clk (ex_state s) + 1 \<and> ex_executor_mode t = ex_executor_mode s"
proof -
  obtain i e1 where e: "execute_operation (default_syscall_map precompiles) i s = Inr ((), e1)"
    and s1: "s1 = e1\<lparr>ex_state := (ex_state e1)\<lparr>st_global_clk := st_global_clk (ex_state e1) + 1\<rparr>\<rparr>"
    using assms(3) by (rule execute_cycleE)
  obtain j l1 where l: "execute_operation (default_syscall_map precompiles) j s2 = Inr ((), l1)"
    and t: "t = l1\<lparr>ex_state := (ex_state l1)\<lparr>st_global_clk := st_global_clk (ex_state l1) + 1\<rparr>\<rparr>"
    using assms(7) by (rule execute_cycleE)
  have ue: "ex_unconstrained e1" and ul: "\<not> ex_unconstrained l1" using assms(4,8) by (simp_all add: s1 t)
  note inv = block_invariant [OF assms(5,4)]
  obtain e2 d b c where e2: "\<And>m0. steady m0 s e2" "reads_args s e2"
    and h: "execute_enter_unconstrained SC_ENTER_UNCONSTRAINED b c (context_new e2) = Inr (Some 1, d)"
    and e1: "\<And>m0. steady m0 (sc_rt d) e1"
    by (rule entering [OF e assms(1,2) ue]) (rule that)
  obtain l2 d' b' c' where l2: "\<And>m0. steady m0 s2 l2" "reads_args s2 l2"
    and h': "execute_exit_unconstrained SC_EXIT_UNCONSTRAINED b' c' (context_new l2) = Inr (Some 0, d')"
    and l1: "\<And>m0. steady m0 (sc_rt d') l1" "writes_result 0 5 (sc_rt d') l1" "st_pc (ex_state l1) = sc_next_pc d'"
    by (rule leaving [OF l assms(1) _ ul]) (use inv in blast, rule that)
  define m0 where "m0 = st_memory (ex_state e2)"
  note enter = enter_saves [OF h, folded m0_def]
  have low: "low_words_vacant l2" "low_words_vacant s1"
    using reads_args_low [OF l2(2)] assms(6) inv by auto
  then have "undoable m0 s1"
    using e1 [of m0] enter(1,2) unfolding s1 by (simp add: steady_def undoable_def low_words_vacant_def)
  then have und: "undoable m0 l2" "ex_unconstrained l2"
    using inv assms(6) l2(1) [of m0] low by (auto simp: steady_def settings_def)
  have "fork_rest (ex_unconstrained_state l2) = fork_rest (ex_unconstrained_state (sc_rt d))"
    using inv l2(1) [of m0] e1 [of m0] unfolding s1 by (simp add: steady_def settings_def)
  note fork = fork_rest_fields [OF this, unfolded enter(5)]
  note exit = exit_restores [OF h', unfolded context_new_def syscall_context.simps, OF und(2,1)]
  have clk: "st_global_clk (ex_state e2) = st_global_clk (ex_state s)" "ex_executor_mode e2 = ex_executor_mode s"
    using e2(1) [of m0] by (auto simp: steady_def settings_def)
  have "mem_at (st_memory (ex_state t)) loc = mem_at (st_memory (ex_state s)) loc"
    if "loc \<notin> {reg_loc R_V0, reg_loc R_A0, reg_loc R_A1}" for loc
    using that l1(2) exit(1) e2(2) unfolding t by (auto simp: writes_result_def m0_def reads_args_def keeps_rest_def)
  moreover have "holds_value R_A0 (rec_value (reg_cell R_A0 s)) t" "holds_value R_A1 (rec_value (reg_cell R_A1 s)) t" "holds_value R_V0 0 t"
    using l1(2) exit(1) e2(2) unfolding t by (auto simp: writes_result_def m0_def reads_args_def holds_value_def)
  note this [THEN holds_value_cell]
  moreover have "st_pc (ex_state t) = st_pc (ex_state s) + 4" "st_clk (ex_state t) = st_clk (ex_state s) + 5"
    using l1(2,3) exit(3,7) fork e2(2) unfolding t by (auto simp: writes_result_def reads_args_def keeps_rest_def)
  moreover have "st_global_clk (ex_state t) = st_global_clk (ex_state s) + 1" "ex_executor_mode t = ex_executor_mode s"
    using l1(1) [of m0] exit(4,5) fork clk unfolding t by (auto simp: steady_def settings_def)
  ultimately show ?thesis by blast
qed

section \<open>A block\<close>

text \<open>A program that enters a block, changes \<open>V0\<close> in it and leaves it.\<close>

definition demo_program :: program where
  "demo_program = program_new [instruction_new Op_SYSCALL 2 0 0 True True, instruction_new Op_ADD 2 4 0 True True,
     instruction_new Op_SYSCALL 2 0 0 True True, instruction_new Op_ADD 0 0 0 True True] 0x1000 0x1000"

definition demo_executor :: executor where
  "demo_executor = (let s = executor_new demo_program 8 1 16 8 None False None Map.empty Map.empty
     in s\<lparr>ex_executor_mode := Simple, ex_state := (ex_state s)\<lparr>st_memory :=
          \<lparr>registers = [2 \<mapsto> \<lparr>rec_shard = 0, rec_timestamp = 0, rec_value = 3\<rparr>], page_table = Map.empty\<rparr>\<rparr>\<rparr>)"

lemma demo_codes: "from_u32 3 = SC_ENTER_UNCONSTRAINED" "from_u32 4 = SC_EXIT_UNCONSTRAINED"
  by code_simp+

lemma demo_register: "register_from 2 = Inr R_V0" by (simp add: register_from_def all_registers_def NUM_REGISTERS_def)

lemmas exec_defs = execute_cycle_def fetch_def program_fetch_def execute_operation_def initial_vars_def reset_accesses_def count_events_def
  dispatch_def is_alu_instruction_def is_memory_load_instruction_def is_memory_store_instruction_def
        is_branch_instruction_def is_jump_instruction_def is_mov_cond_instruction_def is_misc_instruction_def
  execute_syscall_def enter_syscall_def leave_syscall_def peek_register_def peek_def checkpointing_def rr_cpu_def rw_cpu_def
  current_shard_def timestamp_def rr_def rw_def open_entry_def open_cell_def save_checkpoint_def save_diff_def put_cell_def
  call_syscall_def emit_step_def finish_step_def finished_def reg_loc_def entry_or_def count_syscall_def

lemma demo_table: "default_syscall_map p SC_ENTER_UNCONSTRAINED = plain execute_enter_unconstrained"
  "default_syscall_map p SC_EXIT_UNCONSTRAINED = plain execute_exit_unconstrained"
  by (simp_all add: default_syscall_map_def precompile_syscalls_def nop_syscalls_def)

definition cell_at :: "u32 \<Rightarrow> u32 \<Rightarrow> memory_record" where
  "cell_at ts v = \<lparr>rec_shard = (if ts = 0 then 0 else 1), rec_timestamp = ts, rec_value = v\<rparr>"

definition demo_entered :: executor where
  "demo_entered = demo_executor\<lparr>ex_unconstrained := True,
     ex_memory_checkpoint := \<lparr>registers = [2 \<mapsto> Some (cell_at 0 3)], page_table = Map.empty\<rparr>,
     ex_uninitialized_memory_checkpoint := \<lparr>registers = [5 \<mapsto> False, 4 \<mapsto> False], page_table = Map.empty\<rparr>,
     ex_state := (ex_state demo_executor)\<lparr>st_pc := 0x1004, st_next_pc := 0x1008,
       st_memory := \<lparr>registers = [5 \<mapsto> cell_at 1 0, 4 \<mapsto> cell_at 2 0, 2 \<mapsto> cell_at 3 1], page_table = Map.empty\<rparr>,
       st_global_clk := 1, st_clk := 5, st_syscall_counts := [count_map SC_ENTER_UNCONSTRAINED \<mapsto> 1]\<rparr>,
     ex_record := default_record,
     ex_unconstrained_state := \<lparr>fk_global_clk = 0, fk_clk = 0, fk_pc = 0x1000, fk_memory_diff = [2 \<mapsto> Some (cell_at 0 3)],
       fk_op_record = default_access_record, fk_record = record_new demo_program, fk_executor_mode = Simple\<rparr>,
     ex_report := default_report\<lparr>rp_opcode_counts := bump_counts [(Op_SYSCALL, 1)] (rp_opcode_counts default_report)\<rparr>,
     ex_local_counts := default_local_counts\<lparr>lc_event_counts := bump_counts
       ((Op_SYSCALL, 1) # dependency_counts (prog_instructions demo_program ! 0)) (lc_event_counts default_local_counts)\<rparr>\<rparr>"

lemmas demo_defs = demo_executor_def demo_program_def executor_new_def state_new_def program_new_def instruction_new_def
  empty_memory_def cell_at_def

lemma demo_enter: "execute_cycle (default_syscall_map p) demo_executor = Inr (False, demo_entered)"
  by (simp add: demo_entered_def exec_defs bindM_def Let_def demo_defs
     demo_codes demo_table plain_def execute_enter_unconstrained_def on_rt_def context_new_def initial_value_def default_fork_state_def)

definition demo_worked :: executor where
  "demo_worked = demo_entered\<lparr>ex_state := (ex_state demo_entered)\<lparr>st_pc := 0x1008, st_next_pc := 0x100C,
     st_memory := \<lparr>registers = [5 \<mapsto> cell_at 1 0, 4 \<mapsto> cell_at 2 0, 2 \<mapsto> cell_at 8 4], page_table = Map.empty\<rparr>,
     st_global_clk := 2, st_clk := 10\<rparr>\<rparr>"

lemma demo_inside: "execute_cycle (default_syscall_map p) demo_entered = Inr (False, demo_worked)"
  by (simp add: demo_worked_def demo_entered_def exec_defs bindM_def Let_def demo_defs demo_register execute_alu_def alu_rr_def alu_rw_def alu_op_def alu_result_def
      is_use_lo_hi_alu_def reg_of_def set_operands_def)

lemma demo_leave: "\<exists>t. execute_cycle (default_syscall_map p) demo_worked = Inr (False, t) \<and> \<not> ex_unconstrained t"
  by (simp add: demo_worked_def demo_entered_def exec_defs bindM_def Let_def demo_defs demo_codes demo_table plain_def on_rt_def context_new_def
     execute_exit_unconstrained_def leave_unconstrained_def drain_def memory_access_def is_register_addr_iff NUM_REGISTERS_def memory_loc_def
     default_fork_state_def)

definition nop_precompiles :: "syscall_code \<Rightarrow> syscall_impl" where
  "nop_precompiles code = \<lparr>si_execute = execute_sys_nop, si_num_extra_cycles = 0\<rparr>"

lemma nop_precompiles_steady: "precompiles_steady nop_precompiles"
  unfolding precompiles_steady_def nop_precompiles_def
  using keepsD [OF call_linux(6)] ctx_steady_settings by fastforce

theorem unconstrained_block_restores_witness:
  "\<exists>t. execute_cycle (default_syscall_map nop_precompiles) demo_worked = Inr (False, t) \<and>
       mem_at (st_memory (ex_state t)) (reg_loc R_SP) = None \<and> st_pc (ex_state t) = 0x1004 \<and> st_global_clk (ex_state t) = 1"
proof -
  obtain t where t: "execute_cycle (default_syscall_map nop_precompiles) demo_worked = Inr (False, t)" "\<not> ex_unconstrained t"
    using demo_leave by blast
  have u: "\<not> ex_unconstrained demo_executor" "ex_unconstrained demo_entered" "ex_unconstrained demo_worked"
    "low_words_vacant demo_worked" "mem_at (st_memory (ex_state demo_executor)) (reg_loc R_SP) = None"
    "st_pc (ex_state demo_executor) = 0x1000" "st_global_clk (ex_state demo_executor) = 0"
    by (simp_all add: demo_worked_def demo_entered_def demo_defs Let_def low_words_vacant_def reg_loc_def)
  have "block nop_precompiles demo_entered demo_worked"
    by (rule block.cycle [OF block.start demo_inside u(3)])
  from unconstrained_block_restores [OF nop_precompiles_steady u(1) demo_enter u(2) this u(4) t] u(5-7)
  have "mem_at (st_memory (ex_state t)) (reg_loc R_SP) = None \<and> st_pc (ex_state t) = 0x1004 \<and> st_global_clk (ex_state t) = 1"
    by auto
  with t(1) show ?thesis by blast
qed

end
