(* ===== verification/Termination.thy ===== *)
theory Termination
  imports Unconstrained
begin

text \<open>
  With a cycle limit every run ends. The global clock counts the cycles but goes back when an unconstrained
  block is left, so the measure pairs it with the clock at the start of the block.
\<close>

definition gclk :: "executor \<Rightarrow> u64" where
  "gclk s = st_global_clk (ex_state s)"

definition epoch :: "executor \<Rightarrow> u64" where
  "epoch s = (if ex_unconstrained s then fk_global_clk (ex_unconstrained_state s) else gclk s)"

definition in_limit :: "u64 \<Rightarrow> executor \<Rightarrow> bool" where
  "in_limit M s \<longleftrightarrow> ex_max_cycles s = Some M \<and> gclk s < M \<and> epoch s < M"

definition advanced :: "executor \<Rightarrow> executor \<Rightarrow> bool" where
  "advanced s t \<longleftrightarrow> epoch s < epoch t \<or> epoch t = epoch s \<and> gclk s < gclk t"

lemma advanced_trans: "advanced s t \<Longrightarrow> advanced t u \<Longrightarrow> advanced s u"
  by (auto simp: advanced_def dest: less_trans)

section \<open>A cycle makes progress\<close>

lemma settings_clocks:
  "settings t = settings s \<Longrightarrow> gclk t = gclk s \<and> epoch t = epoch s \<and> ex_max_cycles t = ex_max_cycles s \<and>
     ex_unconstrained t = ex_unconstrained s"
  using fork_rest_fields [of "ex_unconstrained_state t" "ex_unconstrained_state s"]
  by (auto simp: settings_def gclk_def epoch_def)

lemma restore_memory_settings:
  "restore_memory diffs s = Inr (u, t) \<Longrightarrow> settings t = settings s \<and> ex_unconstrained_state t = ex_unconstrained_state s"
proof (induction diffs arbitrary: s)
  case (Cons kv diffs)
  then show ?case
    by (cases kv) (fastforce simp: bindM_Inr_iff memory_access_def page_access_def settings_def split: if_splits)
qed simp

lemma exit_clocks:
  assumes "execute_exit_unconstrained code b c (context_new s) = Inr (r, d)"
  shows "gclk (sc_rt d) = epoch s" "ex_max_cycles (sc_rt d) = ex_max_cycles s" "\<not> ex_unconstrained (sc_rt d)"
proof -
  define s' where "s' = s\<lparr>ex_state := (ex_state s)\<lparr>st_global_clk := fk_global_clk (ex_unconstrained_state s),
    st_clk := fk_clk (ex_unconstrained_state s), st_pc := fk_pc (ex_unconstrained_state s)\<rparr>\<rparr>"
  have *: "gclk t = fk_global_clk (ex_unconstrained_state s) \<and> ex_max_cycles t = ex_max_cycles s"
    if "restore_memory (drain (fk_memory_diff (ex_unconstrained_state s))) s' = Inr (u, t)" for t u
    using restore_memory_settings [OF that] by (simp add: settings_def s'_def gclk_def)
  show "gclk (sc_rt d) = epoch s" "ex_max_cycles (sc_rt d) = ex_max_cycles s"
    using assms *
    by (auto simp: execute_exit_unconstrained_def leave_unconstrained_def bindM_Inr_iff on_rt_def context_new_def
        gclk_def epoch_def s'_def split: sum.splits if_splits)
qed (rule exit_handler_constrained [OF assms])

lemma clock_step: "x < M \<Longrightarrow> x < x + 1" for x M :: u64
proof -
  assume "x < M"
  moreover have "unat M < 2 ^ 64" using unsigned_less [of M] by simp
  ultimately have "unat x + 1 < 2 ^ 64" by (simp add: word_less_nat_alt)
  then show ?thesis by (simp add: word_less_nat_alt unat_word_ariths)
qed

lemma cycle_progress:
  assumes "in_limit M s" "precompiles_steady precompiles" "execute_cycle (default_syscall_map precompiles) s = Inr (x, t)"
  shows "in_limit M t \<and> (advanced s t)"
proof -
  obtain i s' where o: "execute_operation (default_syscall_map precompiles) i s = Inr ((), s')"
    and t: "t = s'\<lparr>ex_state := (ex_state s')\<lparr>st_global_clk := st_global_clk (ex_state s') + 1\<rparr>\<rparr>"
    and M: "\<And>M. ex_max_cycles t = Some M \<Longrightarrow> st_global_clk (ex_state t) < M"
    by (rule execute_cycleE [OF assms(3)]) (rule that)
  have lim: "ex_max_cycles s = Some M" "gclk s < M" "epoch s < M" using assms(1) by (auto simp: in_limit_def)
  have tc: "gclk t = gclk s' + 1" "ex_unconstrained t = ex_unconstrained s'" "ex_unconstrained_state t = ex_unconstrained_state s'"
    "ex_max_cycles t = ex_max_cycles s'" by (simp_all add: t gclk_def)
  have "ex_max_cycles s' = Some M \<and> (ex_unconstrained s' \<and> epoch t = epoch s \<and> gclk t = gclk s + 1 \<or>
      \<not> ex_unconstrained s' \<and> epoch t = epoch s + 1)"
  proof (cases "settings s' = settings s")
    case True
    from settings_clocks [OF this] show ?thesis using lim tc by (auto simp: epoch_def)
  next
    case False
    show ?thesis
    proof (rule block_change [OF o assms(2) False])
      fix s1 d b c
      assume s1: "\<And>m0. steady m0 s s1" and e: "execute_enter_unconstrained SC_ENTER_UNCONSTRAINED b c (context_new s1) = Inr (Some 1, d)"
        and d: "\<And>m0. steady m0 (sc_rt d) s'"
      have 1: "settings s1 = settings s" "settings s' = settings (sc_rt d)" using s1 d by (simp_all add: steady_def)
      have "epoch (sc_rt d) = gclk s1" "gclk (sc_rt d) = gclk s1" "ex_unconstrained (sc_rt d)" "\<not> ex_unconstrained s1"
        using enter_saves [OF e] by (simp_all add: epoch_def gclk_def)
      moreover have "ex_max_cycles (sc_rt d) = ex_max_cycles s1"
        using e by (auto simp: execute_enter_unconstrained_def on_rt_def context_new_def Let_def split: if_splits)
      ultimately show ?thesis
        using settings_clocks [OF 1(1)] settings_clocks [OF 1(2)] lim tc by (auto simp: epoch_def)
    next
      fix s1 d b c
      assume s1: "\<And>m0. steady m0 s s1" and e: "execute_exit_unconstrained SC_EXIT_UNCONSTRAINED b c (context_new s1) = Inr (Some 0, d)"
        and d: "\<And>m0. steady m0 (sc_rt d) s'"
      have 1: "settings s1 = settings s" "settings s' = settings (sc_rt d)" using s1 d by (simp_all add: steady_def)
      show ?thesis
        using exit_clocks [OF e] settings_clocks [OF 1(1)] settings_clocks [OF 1(2)] lim tc by (auto simp: epoch_def)
    qed
  qed
  then show ?thesis
    using M [of M] tc lim clock_step [of "gclk s" M] clock_step [of "epoch s" M]
    by (auto simp: in_limit_def gclk_def [of t] epoch_def advanced_def)
qed

section \<open>The end of a batch\<close>

definition same_settings :: "executor \<Rightarrow> executor \<Rightarrow> bool" where
  "same_settings s t \<longleftrightarrow> settings t = settings s"

interpretation same: step_preorder same_settings
  by unfold_locales (simp_all add: same_settings_def)

lemmas same_rules = same.keeps_basic keeps_case_prod keeps_case_option keeps_Let

lemma same_modState: "(\<And>st. st_global_clk (f st) = st_global_clk st) \<Longrightarrow> keeps same_settings (modState f)"
  by (rule keepsI) (auto simp: same_settings_def settings_def)

lemma same_bump: "keeps same_settings (modM bump_record)"
  by (rule keepsI) (auto simp: same_settings_def settings_def bump_record_def Let_def)

lemma same_close_shard: "keeps same_settings (close_shard n)"
proof -
  have "keeps same_settings shape_match"
    by (rule keepsI) (auto simp: same_settings_def settings_def shape_match_def Let_def split: if_splits option.splits)
  then have "keeps same_settings inc_shard_if_need"
    unfolding inc_shard_if_need_def by (intro same_rules same_modState) (simp_all add: next_shard_def)
  then show ?thesis unfolding close_shard_def by (intro same_rules same_bump)
qed

lemma close_shard_stop: "close_shard n s = Inr ((True, k), t) \<Longrightarrow> \<not> ex_unconstrained s"
  by (auto simp: close_shard_def bindM_Inr_iff split: if_splits)

lemma settings_push [simp]:
  "settings (count_touched s) = settings s" "settings (push_init addr v s) = settings s"
  "settings (push_finalize addr r s) = settings s"
  by (simp_all add: settings_def count_touched_def push_init_def push_finalize_def)

lemma same_register_events: "settings (register_events rs s) = settings s"
  by (induction rs arbitrary: s) (simp_all add: Let_def split: option.split)

lemma same_page_events: "page_events as s = Inr (u, t) \<Longrightarrow> settings t = settings s"
  by (induction as arbitrary: s) (fastforce simp: Let_def split: option.splits if_splits)+

lemma same_postprocess: "keeps same_settings postprocess"
proof (rule keepsI)
  fix s u t assume "postprocess s = Inr (u, t)"
  then show "same_settings s t"
    unfolding postprocess_def Let_def same_settings_def
    by (auto split: if_splits dest!: same_page_events simp: same_register_events)
      (auto simp: settings_def push_init_def push_finalize_def)
qed

lemma same_finish_batch: "keeps same_settings (finish_batch shard done)"
proof -
  have "keeps same_settings (modM (\<lambda>s. if er_cpu_events (ex_record s) \<noteq> [] then bump_record s else s))"
    using same_bump by (auto simp: keeps_def same_settings_def)
  moreover have "keeps same_settings (modM (\<lambda>s. s\<lparr>ex_records := f s\<rparr>))" for f
    by (rule keepsI) (auto simp: same_settings_def settings_def)
  ultimately show ?thesis unfolding finish_batch_def by (intro same_rules same_bump same_postprocess)
qed

lemma same_initialize: "keeps same_settings initialize"
proof -
  have "keeps same_settings (restore_memory diffs)" for diffs
    using restore_memory_settings by (auto simp: keeps_def same_settings_def)
  then show ?thesis unfolding initialize_def by (intro same_rules same_modState) simp_all
qed

section \<open>Termination\<close>

definition fuel :: "u64 \<Rightarrow> executor \<Rightarrow> nat \<times> nat" where
  "fuel M s = (unat M - unat (epoch s), unat M - unat (gclk s))"

lemma fuel_decreases:
  assumes "in_limit M s" "in_limit M t" "advanced s t"
  shows "(fuel M t, fuel M s) \<in> less_than <*lex*> less_than"
  using assms by (auto simp: in_limit_def fuel_def advanced_def word_less_nat_alt)

lemma execute_loop_terminates:
  assumes "in_limit M s" "precompiles_steady precompiles"
  shows "\<exists>r. execute_loop (default_syscall_map precompiles) n s = Some r \<and>
    (\<forall>x t. r = Inr (x, t) \<longrightarrow> in_limit M t \<and> \<not> ex_unconstrained t \<and> (advanced s t))"
  using assms(1)
proof (induction "fuel M s" arbitrary: s n rule: wf_induct_rule [OF wf_lex_prod [OF wf_less_than wf_less_than]])
  case (1 s n)
  let ?T = "default_syscall_map precompiles"
  show ?case
  proof (cases "execute_cycle ?T s")
    case (Inl e)
    then show ?thesis by (subst execute_loop.simps) simp
  next
    case (Inr r)
    then obtain x t where c: "execute_cycle ?T s = Inr (x, t)" by (cases r) simp
    note p = cycle_progress [OF "1"(2) assms(2) c]
    have nu: "x \<Longrightarrow> \<not> ex_unconstrained t" by (rule execute_cycleE [OF c]) blast
    show ?thesis
    proof (cases x)
      case True
      then show ?thesis using c p nu by (subst execute_loop.simps) simp
    next
      case False
      show ?thesis
      proof (cases "close_shard n t")
        case (Inl e)
        then show ?thesis using c False by (subst execute_loop.simps) simp
      next
        case (Inr r')
        then obtain stop k u where k: "close_shard n t = Inr ((stop, k), u)" by (cases r') auto
        from keepsD [OF same_close_shard this] have e: "settings u = settings t" by (simp add: same_settings_def)
        note sc = settings_clocks [OF e]
        have u: "in_limit M u" "advanced s u"
          using p sc by (auto simp: in_limit_def advanced_def)
        show ?thesis
        proof (cases stop)
          case True
          then have "\<not> ex_unconstrained u" using close_shard_stop k sc by auto
          then show ?thesis using True c False k u by (subst execute_loop.simps) simp
        next
          case nostop: False
          from "1"(1) [OF fuel_decreases [OF "1"(2) u] u(1), of k] u(2)
          show ?thesis using c False k nostop by (subst execute_loop.simps) (auto intro: advanced_trans)
        qed
      qed
    qed
  qed
qed

lemma execute_terminates:
  assumes "in_limit M s" "precompiles_steady precompiles" "\<not> ex_unconstrained s"
  shows "\<exists>r. execute (default_syscall_map precompiles) s = Some r \<and>
    (\<forall>x t. r = Inr (x, t) \<longrightarrow> in_limit M t \<and> \<not> ex_unconstrained t \<and> advanced s t)"
proof -
  let ?T = "default_syscall_map precompiles"
  define i where "i = (if st_global_clk (ex_state s) = 0 then initialize s else Inr ((), s))"
  show ?thesis
  proof (cases i)
    case (Inl e)
    then show ?thesis by (simp add: execute_def flip: i_def)
  next
    case (Inr r)
    then obtain s' where i: "i = Inr ((), s')" by (cases r) simp
    then have "settings s' = settings s"
      using keepsD [OF same_initialize, of s "()" s'] by (auto simp: i_def same_settings_def split: if_splits)
    note sc = settings_clocks [OF this]
    from sc assms(1) have "in_limit M s'" by (simp add: in_limit_def)
    from execute_loop_terminates [OF this assms(2), of 0] obtain r where r: "execute_loop ?T 0 s' = Some r"
      "\<And>x t. r = Inr (x, t) \<Longrightarrow> in_limit M t \<and> \<not> ex_unconstrained t \<and> advanced s' t" by auto
    show ?thesis
    proof (cases r)
      case (Inl e)
      then show ?thesis using r i by (simp add: execute_def flip: i_def)
    next
      case (Inr xt)
      then obtain x t where xt: "r = Inr (x, t)" by (cases xt) simp
      have e: "execute ?T s = Some (finish_batch (st_current_shard (ex_state s)) x t)"
        using r(1) i xt by (simp add: execute_def flip: i_def)
      have "in_limit M u \<and> \<not> ex_unconstrained u \<and> advanced s u"
        if "finish_batch (st_current_shard (ex_state s)) x t = Inr (y, u)" for y u
      proof -
        have "settings u = settings t" using keepsD [OF same_finish_batch that] by (simp add: same_settings_def)
        from settings_clocks [OF this] r(2) [OF xt] sc show ?thesis by (auto simp: in_limit_def advanced_def)
      qed
      then show ?thesis unfolding e by blast
    qed
  qed
qed

lemma execute_all_terminates:
  assumes "in_limit M s" "precompiles_steady precompiles" "\<not> ex_unconstrained s"
  shows "\<exists>r. execute_all (default_syscall_map precompiles) s = Some r"
  using assms(1,3)
proof (induction "fuel M s" arbitrary: s rule: wf_induct_rule [OF wf_lex_prod [OF wf_less_than wf_less_than]])
  case (1 s)
  obtain r where r: "execute (default_syscall_map precompiles) s = Some r"
    "\<And>x t. r = Inr (x, t) \<Longrightarrow> in_limit M t \<and> \<not> ex_unconstrained t \<and> advanced s t"
    using execute_terminates [OF "1"(2) assms(2) "1"(3)] by blast
  show ?case
  proof (cases r)
    case (Inl e)
    then show ?thesis using r(1) by (subst execute_all.simps) simp
  next
    case (Inr xt)
    then obtain x t where xt: "r = Inr (x, t)" by (cases xt) simp
    note t = r(2) [OF xt]
    have "\<exists>r. execute_all (default_syscall_map precompiles) t = Some r"
      using "1"(1) [OF fuel_decreases] "1"(2) t by blast
    then show ?thesis using r(1) xt by (subst execute_all.simps) auto
  qed
qed

text \<open>C3: with a limit on the number of cycles every run of a program ends, with a result or an error, in each of the
  three modes of running, although the global clock goes back at the end of every unconstrained block. The
  hypotheses: the run starts outside an unconstrained block with the clock below the limit, and the precompiles do
  not touch the executor's settings.\<close>

theorem run_terminates:
  assumes "precompiles_steady precompiles" "\<not> ex_unconstrained s" "ex_max_cycles s = Some M"
    and "st_global_clk (ex_state s) < M"
  shows "\<exists>r1 r2 r3. run (default_syscall_map precompiles) s = Some r1 \<and> run_fast (default_syscall_map precompiles) s = Some r2 \<and>
           run_very_fast (default_syscall_map precompiles) s = Some r3"
proof -
  have "\<exists>r. execute_all (default_syscall_map precompiles) (s\<lparr>ex_executor_mode := mode, ex_print_report := p\<rparr>) = Some r" for mode p
    using assms by (intro execute_all_terminates [where M = M]) (auto simp: in_limit_def gclk_def epoch_def)
  then show ?thesis by (simp add: run_def run_fast_def run_very_fast_def)
qed

theorem run_terminates_witness:
  "\<exists>r1 r2 r3. run (default_syscall_map nop_precompiles) (demo_executor\<lparr>ex_max_cycles := Some 10\<rparr>) = Some r1 \<and>
     run_fast (default_syscall_map nop_precompiles) (demo_executor\<lparr>ex_max_cycles := Some 10\<rparr>) = Some r2 \<and>
     run_very_fast (default_syscall_map nop_precompiles) (demo_executor\<lparr>ex_max_cycles := Some 10\<rparr>) = Some r3"
  by (rule run_terminates [OF nop_precompiles_steady, where M = 10]) (simp_all add: demo_defs Let_def)

end
