(* ===== verification/Refinement.thy ===== *)
theory Refinement
  imports Isa
begin

text \<open>
  \<open>execute_operation\<close> implements the abstract machine of \<open>Isa\<close> in every mode of the executor, on success and
  on every failure; the emitted ALU events are valid, and no assertion of the event emission fails.
\<close>

unbundle bit_operations_syntax

section \<open>Each instruction implements the abstract machine\<close>

lemma wp_reg_of [wp_simps]:
  "wp (reg_of n) Q E s \<longleftrightarrow> (case register_from n of Inl e \<Rightarrow> E e | Inr r \<Rightarrow> Q r s)"
  "wp (reg_of_op w) Q E s \<longleftrightarrow> (case register_from (ucast w) of Inl e \<Rightarrow> E e | Inr r \<Rightarrow> Q r s)"
  by (simp_all add: reg_of_op_def reg_of_def wp_liftM)

lemma obind_simps [simp]: "obind (Inl e) f = Inl e" "obind (Inr v) f = f v"
  by (simp_all add: obind_def)

lemma alu_op_hi: "alu_op op b c = Inr (a, hi) \<Longrightarrow> \<not> is_use_lo_hi_alu op \<Longrightarrow> hi = 0"
  by (auto simp: alu_op_def alu_result_def is_use_lo_hi_alu_def Let_def split: if_splits)

text \<open>\<open>implements s0 P x t\<close>: the abstract machine returns \<open>x\<close>, and \<open>t\<close> is a state of the executor for it whose
  memory access record satisfies \<open>P\<close>.\<close>

definition implements ::
  "executor \<Rightarrow> (memory_record_enum option \<Rightarrow> bool) \<Rightarrow> (execution_error, arch) outcome \<Rightarrow> executor \<Rightarrow> bool" where
  "implements s0 P x t \<longleftrightarrow> (\<exists>m pt acc. x = Inr m \<and> during s0 m pt acc t \<and> P acc)"

lemma implementsI: "during s0 m pt acc t \<Longrightarrow> P acc \<Longrightarrow> implements s0 P (Inr m) t"
  by (auto simp: implements_def)

lemma execute_alu_isa:
  assumes "during s0 m pt acc s" "no_register_hints s0"
  shows "wp (execute_alu i)
           (\<lambda>(hi, a, b, c) t. implements s0 (\<lambda>_. True) (isa_alu i m) t \<and> alu_op (opcode i) b c = Inr (a, opt_or_0 hi))
           (\<lambda>e. isa_alu i m = Inl e) s"
  using assms unfolding execute_alu_def alu_rr_def alu_rw_def isa_alu_def isa_operands_def
  by (auto simp: wp_simps opt_or_0_def split: sum.split prod.split intro!: isa_rules implementsI dest: alu_op_hi)

lemma execute_load_isa:
  assumes "during s0 m pt acc s" "no_register_hints s0"
  shows "wp (execute_load i)
           (\<lambda>(hi, a, b, c) t. implements s0 (\<lambda>acc. ex_executor_mode s0 = Trace \<longrightarrow>
                (\<exists>x rt. acc = Some x \<and> load_value (opcode i) (b + c) (rec_value (current_record x)) rt = Inr a)) (isa_load i m) t)
           (\<lambda>e. isa_load i m = Inl e) s"
  using assms unfolding execute_load_def isa_load_def Let_def
  by (fastforce simp: wp_simps split: sum.split prod.split intro!: isa_rules implementsI)


lemma sub_word_store:
  "opcode i \<notin> {Op_SB, Op_SH, Op_SWL, Op_SWR} \<Longrightarrow> store_value (opcode i) addr mem rt = store_value (opcode i) addr mem' rt"
  by (simp add: store_value_def Let_def)

lemma store_value_SC:
  "store_value Op_SC addr mem rt = (if addr AND 3 \<noteq> 0 then Inl (Err (InvalidMemoryAccess Op_SC addr)) else Inr rt)"
  by (simp add: store_value_def)

lemma store_ready_value:
  assumes "during s0 m (page_table (st_memory (ex_state s0))) acc s" "store_ready i s0" "m = arch s0"
    "register_from (ucast (op_b i)) = (Inr rs :: execution_error fail + register)" "addr = ar_reg m rs + op_c i"
  shows "store_value (opcode i) addr
           (case page_table (st_memory (ex_state s0)) (compress_addr (aligned addr)) of None \<Rightarrow> 0 | Some r \<Rightarrow> rec_value r) rt =
         store_value (opcode i) addr (ar_mem m (compress_addr (aligned addr))) rt"
proof (cases "opcode i \<in> {Op_SB, Op_SH, Op_SWL, Op_SWR}")
  case True
  with assms have "page_table (st_memory (ex_state s0)) (compress_addr (aligned addr)) \<noteq> None \<or>
      page_table (st_uninitialized_memory (ex_state s0)) (compress_addr (aligned addr)) = None"
    by (auto simp: store_ready_def Let_def page_loc_def)
  then have "(case page_table (st_memory (ex_state s0)) (compress_addr (aligned addr)) of None \<Rightarrow> 0 | Some r \<Rightarrow> rec_value r) =
      ar_mem m (compress_addr (aligned addr))"
    by (auto simp: assms(3) arch_def cell_value initial_value_def split: option.split)
  then show ?thesis by simp
next
  case False
  then show ?thesis by (rule sub_word_store)
qed

lemma execute_store_isa:
  assumes "during s0 (arch s0) (page_table (st_memory (ex_state s0))) acc s" "no_register_hints s0" "store_ready i s0"
  shows "wp (execute_store i)
           (\<lambda>(hi, a, b, c) t. implements s0 (\<lambda>acc. ex_executor_mode s0 = Trace \<longrightarrow> acc \<noteq> None) (isa_store i (arch s0)) t)
           (\<lambda>e. isa_store i (arch s0) = Inl e) s"
proof -
  note val = store_ready_value [OF assms(1,3) refl _ refl]
  show ?thesis
    using assms(1,2) unfolding execute_store_def isa_store_def Let_def
    by (auto simp: wp_simps val store_value_SC split: sum.split prod.split if_splits intro!: isa_rules implementsI)
qed

lemma execute_branch_isa:
  assumes "during s0 m pt acc s" "no_register_hints s0"
  shows "wp (execute_branch i (ar_next_pc m) (ar_next_pc m + 4))
           (\<lambda>(a, b, c, nn) t. isa_branch i m = Inr nn \<and> during s0 m pt acc t \<and>
              (branch_taken (opcode i) a b = Inr True \<longrightarrow> nn = ar_next_pc m + c) \<and> (only_one_operand (opcode i) \<longrightarrow> b = 0))
           (\<lambda>e. isa_branch i m = Inl e) s"
  using assms unfolding execute_branch_def branch_rr_def isa_branch_def
  by (auto simp: wp_simps add.commute split: sum.split prod.split intro!: isa_rules)

lemma during_next_pc: "during s0 m pt acc s \<Longrightarrow> st_next_pc (ex_state s) = ar_next_pc m"
  by (auto simp: during_def arch_def)

lemma execute_jump_isa:
  assumes "during s0 m pt acc s" "no_register_hints s0" "is_jump_instruction i"
  shows "wp (if opcode i = Op_Jump then execute_jump i
             else if opcode i = Op_Jumpi then execute_jumpi i else execute_jump_direct i)
           (\<lambda>(a, b, c, nn) t. \<exists>m'. isa_jump i m = Inr (m', nn) \<and> during s0 m' pt acc t)
           (\<lambda>e. isa_jump i m = Inl e) s"
  using assms unfolding execute_jump_def execute_jumpi_def execute_jump_direct_def isa_jump_def return_pc_def
  by (auto simp: wp_simps add.commute during_next_pc split: sum.split prod.split intro!: isa_rules)

lemma execute_madd_sub_isa:
  assumes "during s0 m pt acc s" "no_register_hints s0"
  shows "wp (execute_madd_sub (opcode i) i) (\<lambda>_ t. implements s0 (\<lambda>_. True) (isa_madd i m) t)
           (\<lambda>e. isa_madd i m = Inl e) s"
  using assms unfolding execute_madd_sub_def isa_madd_def Let_def
  by (auto simp: wp_simps split: sum.split prod.split intro!: isa_rules implementsI)

definition misc_ready :: "instruction \<Rightarrow> u32 option \<Rightarrow> u32 \<Rightarrow> u32 \<Rightarrow> u32 \<Rightarrow> bool" where
  "misc_ready i hi a b c \<longleftrightarrow>
     (opcode i = Op_EXT \<longrightarrow> ext_value b c = Inr a) \<and>
     (opcode i = Op_INS \<longrightarrow> ins_value (opt_or_0 hi) b c = Inr a \<and> c = op_c i)"

lemma execute_misc_isa:
  assumes "during s0 m pt acc s" "no_register_hints s0" "is_misc_instruction i" "\<not> is_mov_cond_instruction i"
  shows "wp (execute_misc i)
           (\<lambda>(hi, a, b, c) t. implements s0 (\<lambda>_. True) (isa_misc i m) t \<and> misc_ready i hi a b c)
           (\<lambda>e. isa_misc i m = Inl e) s"
proof (cases "opcode i \<in> {Op_MADDU, Op_MSUBU, Op_MADD, Op_MSUB}")
  case True
  then have "execute_misc i = execute_madd_sub (opcode i) i" "isa_misc i m = isa_madd i m" "\<And>hi a b c. misc_ready i hi a b c"
    by (auto simp: execute_misc_def execute_maddu_def execute_msubu_def execute_madd_def execute_msub_def
        isa_misc_def misc_ready_def)
  then show ?thesis using wp_mono [OF execute_madd_sub_isa [OF assms(1,2), of i]] by auto
next
  case False
  then show ?thesis
    using assms unfolding execute_misc_def isa_misc_def misc_ready_def is_misc_instruction_def is_mov_cond_instruction_def
      execute_wsbh_def execute_ext_def execute_ins_def execute_sext_def execute_teq_def Let_def
    by (auto simp: wp_simps opt_or_0_def split: sum.split prod.split intro!: isa_rules implementsI)
qed

lemma execute_condmov_isa:
  assumes "during s0 m pt acc s" "no_register_hints s0" "is_mov_cond_instruction i"
  shows "wp (execute_condmov i) (\<lambda>_ t. implements s0 (\<lambda>_. True) (isa_misc i m) t) (\<lambda>e. isa_misc i m = Inl e) s"
  using assms unfolding execute_condmov_def isa_misc_def is_mov_cond_instruction_def Let_def
  by (auto simp: wp_simps split: sum.split prod.split intro!: isa_rules implementsI)


section \<open>Emission of the events\<close>

text \<open>What the operands of an executed instruction satisfy; \<open>acc\<close> is its memory access record.\<close>

definition emit_ready :: "instruction \<Rightarrow> step_vars \<Rightarrow> memory_record_enum option \<Rightarrow> bool" where
  "emit_ready i v acc \<longleftrightarrow>
     (is_alu_instruction i \<longrightarrow> alu_op (opcode i) (sv_b v) (sv_c v) = Inr (sv_a v, opt_or_0 (sv_hi_or_prev_a v))) \<and>
     (is_memory_load_instruction i \<longrightarrow> (\<exists>x rt. acc = Some x \<and>
        load_value (opcode i) (sv_b v + sv_c v) (rec_value (current_record x)) rt = Inr (sv_a v))) \<and>
     (is_memory_store_instruction i \<longrightarrow> acc \<noteq> None) \<and>
     (is_branch_instruction i \<longrightarrow>
        (branch_taken (opcode i) (sv_a v) (sv_b v) = Inr True \<longrightarrow> sv_next_next_pc v = sv_next_pc v + sv_c v) \<and>
        (only_one_operand (opcode i) \<longrightarrow> sv_b v = 0)) \<and>
     (is_misc_instruction i \<longrightarrow> misc_ready i (sv_hi_or_prev_a v) (sv_a v) (sv_b v) (sv_c v))"

definition executable :: "instruction \<Rightarrow> bool" where
  "executable i \<longleftrightarrow> is_alu_instruction i \<or> is_memory_load_instruction i \<or> is_memory_store_instruction i \<or>
     is_branch_instruction i \<or> is_jump_instruction i \<or> is_misc_instruction i"

text \<open>The field of an encoded \<open>INS\<close> has ten bits.\<close>

definition encodable :: "instruction \<Rightarrow> bool" where
  "encodable i \<longleftrightarrow> (opcode i = Op_INS \<longrightarrow> op_c i < 1024)"

definition records :: "executor \<Rightarrow> executor \<Rightarrow> bool" where
  "records s t \<longleftrightarrow> (\<exists>r. t = s\<lparr>ex_record := r\<rparr> \<and> (valid_record (ex_record s) \<longrightarrow> valid_record r))"

lemma valid_record_other_events [simp]:
  "valid_record (r\<lparr>er_cpu_events := x1\<rparr>) = valid_record r"
  "valid_record (r\<lparr>er_memory_instr_events := x2\<rparr>) = valid_record r"
  "valid_record (r\<lparr>er_branch_events := x3\<rparr>) = valid_record r"
  "valid_record (r\<lparr>er_jump_events := x4\<rparr>) = valid_record r"
  "valid_record (r\<lparr>er_movcond_events := x5\<rparr>) = valid_record r"
  "valid_record (r\<lparr>er_misc_events := x6\<rparr>) = valid_record r"
  "valid_record (r\<lparr>er_syscall_events := x7\<rparr>) = valid_record r"
  "valid_record (r\<lparr>er_cpu_local_memory_access := x8\<rparr>) = valid_record r"
  "valid_record (r\<lparr>er_precompile_events := x9\<rparr>) = valid_record r"
  "valid_record (r\<lparr>er_public_values := x10\<rparr>) = valid_record r"
  by (simp_all add: valid_record_def)

lemma recordsI: "(valid_record (ex_record s) \<Longrightarrow> valid_record r) \<Longrightarrow> records s (s\<lparr>ex_record := r\<rparr>)"
  by (auto simp: records_def)

lemma records_trans: "records s t \<Longrightarrow> records t u \<Longrightarrow> records s u"
  by (auto simp: records_def)

lemma push_alu_valid:
  assumes "valid_record r" "valid_alu e" "valid_comp_alu e'" "alu_opcode e = op" "calu_opcode e' = op"
  shows "valid_record (push_alu op e e' r)"
  using assms unfolding push_alu_def by (auto intro: emit_divrem_valid emit_cloclz_valid)

lemma emit_alu_event_valid:
  assumes "alu_op op b c = Inr (a, opt_or_0 hi)"
  shows "wp (emit_alu_event clk op hi a b c hr) (\<lambda>_ t. records s t) E s"
  unfolding wp_def emit_alu_event_def Let_def split_beta sum.case snd_conv
  by (intro recordsI push_alu_valid) (simp_all add: valid_alu_def valid_comp_alu_def assms)

lemma emit_mem_instr_event_valid:
  assumes "acc_memory (ex_memory_accesses s) = Some x"
    and "op \<in> {Op_LB, Op_LH} \<Longrightarrow> load_value op (b + c) (rec_value (current_record x)) rt = Inr a"
  shows "wp (emit_mem_instr_event op a b c prev) (\<lambda>_ t. records s t) E s"
  unfolding wp_def emit_mem_instr_event_def Let_def
  using assms by (auto intro!: recordsI emit_memory_valid [where rt = rt])

definition good_step :: "record_step \<Rightarrow> bool" where
  "good_step f \<longleftrightarrow> (\<forall>r. \<exists>r'. f r = Inr r' \<and> (valid_record r \<longrightarrow> valid_record r'))"

lemma wp_recM:
  assumes "good_step f"
  shows "wp (recM f) (\<lambda>_ t. records s t) E s"
proof -
  obtain r' where "f (ex_record s) = Inr r'" "valid_record (ex_record s) \<longrightarrow> valid_record r'"
    using assms by (auto simp: good_step_def)
  then show ?thesis by (auto simp: wp_def recM_def intro!: recordsI)
qed

lemma wp_modRecord [wp_simps]: "wp (modRecord f) Q E s \<longleftrightarrow> Q () (s\<lparr>ex_record := f (ex_record s)\<rparr>)"
  by (simp add: wp_def)

lemma wp_modState [wp_simps]: "wp (modState f) Q E s \<longleftrightarrow> Q () (s\<lparr>ex_state := f (ex_state s)\<rparr>)"
  by (simp add: wp_def)

lemma emit_branch_event_valid:
  assumes "op \<in> {Op_BEQ, Op_BNE, Op_BLTZ, Op_BGEZ, Op_BLEZ, Op_BGTZ}"
    and "branch_taken op a b = Inr True \<longrightarrow> nn = next_pc + c" and "op \<notin> {Op_BEQ, Op_BNE} \<longrightarrow> b = 0"
  shows "wp (emit_branch_event op a b c next_pc nn) (\<lambda>_ t. records s t) E s"
proof -
  have "good_step (\<lambda>r. emit_branch_dependencies e (r\<lparr>er_branch_events := er_branch_events r @ [e]\<rparr>))"
    if e: "br_opcode e = op" "br_a e = a" "br_b e = b" "br_c e = c" "br_next_pc e = next_pc" "br_next_next_pc e = nn" for e
    unfolding good_step_def
  proof
    fix r :: execution_record
    let ?r = "r\<lparr>er_branch_events := er_branch_events r @ [e]\<rparr>"
    obtain r' where r': "emit_branch_dependencies e ?r = Inr r'"
      using assms(1) e(1) by (auto simp: emit_branch_dependencies_def Let_def)
    moreover have "valid_record r'" if "valid_record r"
      using emit_branch_valid [OF _ r'] that assms(2,3) e by auto
    ultimately show "\<exists>r'. emit_branch_dependencies e ?r = Inr r' \<and> (valid_record r \<longrightarrow> valid_record r')" by blast
  qed
  then show ?thesis by (auto simp: emit_branch_event_def Let_def wp_simps intro!: wp_recM)
qed

lemma emit_jump_event_valid:
  assumes "op \<in> {Op_Jump, Op_Jumpi, Op_JumpDirect}"
  shows "wp (emit_jump_event op a b c next_pc nn) (\<lambda>_ t. records s t) E s"
  using assms
  by (auto simp: emit_jump_event_def Let_def wp_simps good_step_def emit_jump_dependencies_def alu_op_simps intro!: wp_recM)

lemma emit_misc_event_valid:
  assumes "op = Op_EXT \<longrightarrow> ext_value b c = Inr a" "op = Op_INS \<longrightarrow> ins_value prev b c = Inr a \<and> c < 1024"
  shows "wp (emit_misc_event clk op a b c prev hr) (\<lambda>_ t. records s t) E s"
proof -
  have "good_step (\<lambda>r. emit_misc_dependencies e (r\<lparr>er_misc_events := er_misc_events r @ [e]\<rparr>))"
    if e: "misc_opcode e = op" "misc_a e = a" "misc_b e = b" "misc_c e = c" "misc_prev_a e = prev" for e
    unfolding good_step_def
  proof
    fix r :: execution_record
    show "\<exists>r'. emit_misc_dependencies e (r\<lparr>er_misc_events := er_misc_events r @ [e]\<rparr>) = Inr r' \<and>
        (valid_record r \<longrightarrow> valid_record r')"
      using emit_misc_valid [of e "r\<lparr>er_misc_events := er_misc_events r @ [e]\<rparr>"] assms e by simp
  qed
  then show ?thesis by (auto simp: emit_misc_event_def Let_def wp_simps intro!: wp_recM recordsI)
qed

lemma branch_operands:
  "is_branch_instruction i \<Longrightarrow> opcode i \<notin> {Op_BEQ, Op_BNE} \<Longrightarrow> only_one_operand (opcode i)"
  by (auto simp: is_branch_instruction_def only_one_operand_def)

lemma records_refl: "records s s"
  using recordsI [of s "ex_record s"] by simp

lemma wp_ifI: "(b \<Longrightarrow> wp m Q E s) \<Longrightarrow> (\<not> b \<Longrightarrow> wp m' Q E s) \<Longrightarrow> wp (if b then m else m') Q E s"
  by simp

lemma emit_events_valid:
  assumes "executable i" "encodable i" "emit_ready i v (acc_memory (ex_memory_accesses s))" "acc = ex_memory_accesses s"
  shows "wp (emit_events (sv_clk v) (sv_pc v) (sv_next_pc v) (sv_next_next_pc v) i (sv_a v) (sv_b v) (sv_c v)
          (sv_hi_or_prev_a v) acc (sv_exit_code v) (sv_syscall_code v)) (\<lambda>_ t. records s t) E s"
proof -
  let ?emit_cpu = "emit_cpu (sv_clk v) (sv_pc v) (sv_next_pc v) (sv_next_next_pc v) (sv_a v) (sv_b v) (sv_c v)
          (sv_hi_or_prev_a v) acc (sv_exit_code v)"
  obtain ev where ev: "?emit_cpu = modRecord (\<lambda>r. r\<lparr>er_cpu_events := er_cpu_events r @ [ev]\<rparr>)"
    unfolding emit_cpu_def by blast
  define u where "u = s\<lparr>ex_record := (ex_record s)\<lparr>er_cpu_events := er_cpu_events (ex_record s) @ [ev]\<rparr>\<rparr>"
  have e: "wp ?emit_cpu Q E s \<longleftrightarrow> Q () u" for Q by (simp add: ev wp_simps u_def)
  have u: "records s u" "ex_memory_accesses u = ex_memory_accesses s" by (simp_all add: u_def recordsI)
  have "wp (emit_mem_instr_event (opcode i) (sv_a v) (sv_b v) (sv_c v) (opt_or_0 (sv_hi_or_prev_a v))) (\<lambda>_ t. records u t) E u"
    if "is_memory_load_instruction i \<or> is_memory_store_instruction i"
  proof -
    have "acc_memory (ex_memory_accesses s) \<noteq> None" using assms(3) that unfolding emit_ready_def by blast
    then obtain x where x: "acc_memory (ex_memory_accesses s) = Some x" by blast
    have "is_memory_load_instruction i \<Longrightarrow> \<exists>rt. load_value (opcode i) (sv_b v + sv_c v) (rec_value (current_record x)) rt = Inr (sv_a v)"
      using assms(3) x unfolding emit_ready_def by auto
    then obtain rt where "opcode i \<in> {Op_LB, Op_LH} \<Longrightarrow>
        load_value (opcode i) (sv_b v + sv_c v) (rec_value (current_record x)) rt = Inr (sv_a v)"
      unfolding is_memory_load_instruction_def by blast
    with x u(2) show ?thesis by (auto intro!: emit_mem_instr_event_valid [where rt = rt])
  qed
  moreover have "wp (emit_alu_event (sv_clk v) (opcode i) (sv_hi_or_prev_a v) (sv_a v) (sv_b v) (sv_c v) (acc_hi acc)) (\<lambda>_ t. records u t) E u"
    if "is_alu_instruction i"
    using assms(3) that unfolding emit_ready_def by (intro emit_alu_event_valid) blast
  moreover have "wp (emit_branch_event (opcode i) (sv_a v) (sv_b v) (sv_c v) (sv_next_pc v) (sv_next_next_pc v)) (\<lambda>_ t. records u t) E u"
    if "is_branch_instruction i"
  proof (rule emit_branch_event_valid)
    show "opcode i \<in> {Op_BEQ, Op_BNE, Op_BLTZ, Op_BGEZ, Op_BLEZ, Op_BGTZ}"
      using that by (simp only: is_branch_instruction_def)
  qed (use assms(3) that branch_operands [OF that] in \<open>unfold emit_ready_def, blast+\<close>)
  moreover have "wp (emit_jump_event (opcode i) (sv_a v) (sv_b v) (sv_c v) (sv_next_pc v) (sv_next_next_pc v)) (\<lambda>_ t. records u t) E u"
    if "is_jump_instruction i"
    using that by (intro emit_jump_event_valid) (simp add: is_jump_instruction_def)
  moreover have "wp (emit_misc_event (sv_clk v) (opcode i) (sv_a v) (sv_b v) (sv_c v) (opt_or_0 (sv_hi_or_prev_a v)) (acc_hi acc)) (\<lambda>_ t. records u t) E u"
    if "is_misc_instruction i"
  proof -
    have "misc_ready i (sv_hi_or_prev_a v) (sv_a v) (sv_b v) (sv_c v)"
      using assms(3) that unfolding emit_ready_def by blast
    then show ?thesis using assms(2) by (intro emit_misc_event_valid) (auto simp: misc_ready_def encodable_def)
  qed
  ultimately have "wp (if is_alu_instruction i then emit_alu_event (sv_clk v) (opcode i) (sv_hi_or_prev_a v) (sv_a v) (sv_b v) (sv_c v) (acc_hi acc)
     else if is_memory_load_instruction i \<or> is_memory_store_instruction i
     then emit_mem_instr_event (opcode i) (sv_a v) (sv_b v) (sv_c v) (opt_or_0 (sv_hi_or_prev_a v))
     else if is_branch_instruction i then emit_branch_event (opcode i) (sv_a v) (sv_b v) (sv_c v) (sv_next_pc v) (sv_next_next_pc v)
     else if is_jump_instruction i then emit_jump_event (opcode i) (sv_a v) (sv_b v) (sv_c v) (sv_next_pc v) (sv_next_next_pc v)
     else if is_misc_instruction i
     then emit_misc_event (sv_clk v) (opcode i) (sv_a v) (sv_b v) (sv_c v) (opt_or_0 (sv_hi_or_prev_a v)) (acc_hi acc)
     else if is_syscall_instruction i then emit_syscall_event (sv_clk v) (acc_a acc) (sv_syscall_code v) (sv_b v) (sv_c v) (sv_next_pc v)
     else panicM Unreachable) (\<lambda>_ t. records u t) E u"
    using assms(1) unfolding executable_def by (intro wp_ifI) simp_all
  then show ?thesis
    unfolding emit_events_def wp_bindM e by (rule wp_mono) (rule records_trans [OF u(1)])
qed

lemma emit_step_valid:
  assumes "executable i" "encodable i" "ex_executor_mode s = Trace \<Longrightarrow> emit_ready i v (acc_memory (ex_memory_accesses s))"
  shows "wp (emit_step i v) (\<lambda>_ t. records s t) E s"
  using emit_events_valid [OF assms(1,2) _ refl] assms(3) records_refl
  by (simp add: emit_step_def wp_simps)


section \<open>The refinement theorem\<close>

text \<open>What \<open>dispatch\<close> leaves behind: the abstract machine has taken the same step.\<close>

definition dispatched :: "instruction \<Rightarrow> executor \<Rightarrow> step_vars \<Rightarrow> executor \<Rightarrow> bool" where
  "dispatched i s0 v t \<longleftrightarrow>
     (\<exists>m. isa_exec i (arch s0) = Inr (m, sv_next_next_pc v) \<and> arch t = m) \<and> executable i \<and>
     sv_next_pc v = ar_next_pc (arch s0) \<and> ex_record t = ex_record s0 \<and> ex_executor_mode t = ex_executor_mode s0 \<and>
     (ex_executor_mode s0 = Trace \<longrightarrow> emit_ready i v (acc_memory (ex_memory_accesses t)))"

lemma disjoint_classes:
  "is_alu_instruction i \<Longrightarrow> \<not> is_memory_load_instruction i \<and> \<not> is_memory_store_instruction i \<and> \<not> is_branch_instruction i \<and>
     \<not> is_jump_instruction i \<and> \<not> is_misc_instruction i"
  "is_memory_load_instruction i \<Longrightarrow> \<not> is_memory_store_instruction i \<and> \<not> is_branch_instruction i \<and> \<not> is_misc_instruction i"
  "is_memory_store_instruction i \<Longrightarrow> \<not> is_branch_instruction i \<and> \<not> is_misc_instruction i"
  "is_branch_instruction i \<Longrightarrow> \<not> is_misc_instruction i" "is_jump_instruction i \<Longrightarrow> \<not> is_misc_instruction i"
  "is_mov_cond_instruction i \<Longrightarrow> is_misc_instruction i"
  unfolding instruction_class_defs by (elim insertE emptyE; simp)+

lemma during_state: "during s0 m pt acc t \<Longrightarrow> arch t = m \<and> ex_record t = ex_record s0 \<and> ex_executor_mode t = ex_executor_mode s0 \<and>
   acc_memory (ex_memory_accesses t) = acc"
  by (simp add: during_def frame_eqs)

lemma initial_vars_pc:
  "sv_next_pc (initial_vars s) = ar_next_pc (arch s)" "sv_next_next_pc (initial_vars s) = ar_next_pc (arch s) + 4"
  by (simp_all add: initial_vars_def arch_def)

lemma set_operands_simps [simp]:
  "sv_next_pc (set_operands v (hi, a, b, c)) = sv_next_pc v" "sv_next_next_pc (set_operands v (hi, a, b, c)) = sv_next_next_pc v"
  "sv_hi_or_prev_a (set_operands v (hi, a, b, c)) = hi" "sv_a (set_operands v (hi, a, b, c)) = a"
  "sv_b (set_operands v (hi, a, b, c)) = b" "sv_c (set_operands v (hi, a, b, c)) = c"
  by (simp_all add: set_operands_def)

lemma set_target_simps [simp]:
  "sv_next_pc (set_target v (a, b, c, nn)) = sv_next_pc v" "sv_next_next_pc (set_target v (a, b, c, nn)) = nn"
  "sv_a (set_target v (a, b, c, nn)) = a" "sv_b (set_target v (a, b, c, nn)) = b" "sv_c (set_target v (a, b, c, nn)) = c"
  by (simp_all add: set_target_def)

text \<open>A straight-line instruction.\<close>

lemma dispatched_operands:
  assumes "wp m (\<lambda>(hi, a, b, c) t. implements s (P hi a b c) x t) (\<lambda>e. x = Inl e) s" "executable i"
    and "isa_exec i (arch s) = obind x (\<lambda>m. Inr (m, ar_next_pc (arch s) + 4))"
    and "\<And>hi a b c acc. P hi a b c acc \<Longrightarrow> ex_executor_mode s = Trace \<Longrightarrow>
            emit_ready i (set_operands (initial_vars s) (hi, a, b, c)) acc"
  shows "wp (bindM m (\<lambda>r. retM (set_operands (initial_vars s) r))) (dispatched i s) (\<lambda>e. isa_exec i (arch s) = Inl e) s"
  unfolding wp_bindM wp_retM
proof (rule wp_mono [OF assms(1)])
  fix r :: operands and t
  obtain hi a b c where r: "r = (hi, a, b, c)" by (cases r)
  assume "(case r of (hi, a, b, c) \<Rightarrow> \<lambda>t. implements s (P hi a b c) x t) t"
  then obtain m' pt acc where x: "x = Inr m'" and d: "during s m' pt acc t" and P: "P hi a b c acc"
    by (auto simp: r implements_def)
  have "isa_exec i (arch s) = Inr (m', ar_next_pc (arch s) + 4)" by (simp add: assms(3) x)
  then show "dispatched i s (set_operands (initial_vars s) r) t"
    using assms(2) during_state [OF d] assms(4) [OF P] by (simp add: r dispatched_def initial_vars_pc)
qed (simp add: assms(3))

lemma enter_delay_slot_arch:
  "wp enter_delay_slot Q E s \<longleftrightarrow> Q () (s\<lparr>ex_state := (ex_state s)\<lparr>st_next_is_delayslot := True\<rparr>\<rparr>)"
  "arch (s\<lparr>ex_state := (ex_state s)\<lparr>st_next_is_delayslot := d\<rparr>\<rparr>) = arch s"
  by (simp add: enter_delay_slot_def wp_simps, rule arch_cong) simp_all

lemma dispatched_target:
  assumes "wp m (\<lambda>(a, b, c, nn) t. \<exists>m'. isa_exec i (arch s) = Inr (m', nn) \<and> during s m' pt acc t \<and> P a b c nn)
             (\<lambda>e. isa_exec i (arch s) = Inl e) s" "executable i"
    and "\<And>a b c nn. P a b c nn \<Longrightarrow> emit_ready i (set_target (initial_vars s) (a, b, c, nn)) acc"
  shows "wp (bindM m (\<lambda>r. bindM enter_delay_slot (\<lambda>_. retM (set_target (initial_vars s) r)))) (dispatched i s)
           (\<lambda>e. isa_exec i (arch s) = Inl e) s"
  unfolding wp_bindM wp_retM enter_delay_slot_arch(1)
proof (rule wp_mono [OF assms(1)])
  fix r :: "u32 \<times> u32 \<times> u32 \<times> u32" and t
  obtain a b c nn where r: "r = (a, b, c, nn)" by (cases r)
  assume "(case r of (a, b, c, nn) \<Rightarrow> \<lambda>t. \<exists>m'. isa_exec i (arch s) = Inr (m', nn) \<and> during s m' pt acc t \<and> P a b c nn) t"
  then obtain m' where x: "isa_exec i (arch s) = Inr (m', nn)" and d: "during s m' pt acc t" and P: "P a b c nn"
    by (auto simp: r)
  show "dispatched i s (set_target (initial_vars s) r) (t\<lparr>ex_state := (ex_state t)\<lparr>st_next_is_delayslot := True\<rparr>\<rparr>)"
    using assms(2) during_state [OF d] assms(3) [OF P] x
    by (simp add: r dispatched_def initial_vars_pc enter_delay_slot_arch(2))
qed


lemma disjoint_jump: "is_jump_instruction i \<Longrightarrow> \<not> is_memory_load_instruction i \<and> \<not> is_memory_store_instruction i \<and> \<not> is_branch_instruction i"
  unfolding instruction_class_defs by (elim insertE emptyE; simp)+

lemma emit_ready_classes:
  "is_alu_instruction i \<Longrightarrow> alu_op (opcode i) (sv_b v) (sv_c v) = Inr (sv_a v, opt_or_0 (sv_hi_or_prev_a v)) \<Longrightarrow> emit_ready i v acc"
  "is_memory_load_instruction i \<Longrightarrow> \<exists>x rt. acc = Some x \<and>
     load_value (opcode i) (sv_b v + sv_c v) (rec_value (current_record x)) rt = Inr (sv_a v) \<Longrightarrow> emit_ready i v acc"
  "is_memory_store_instruction i \<Longrightarrow> acc \<noteq> None \<Longrightarrow> emit_ready i v acc"
  "is_branch_instruction i \<Longrightarrow> branch_taken (opcode i) (sv_a v) (sv_b v) = Inr True \<longrightarrow> sv_next_next_pc v = sv_next_pc v + sv_c v \<Longrightarrow>
     only_one_operand (opcode i) \<longrightarrow> sv_b v = 0 \<Longrightarrow> emit_ready i v acc"
  "is_jump_instruction i \<Longrightarrow> emit_ready i v acc"
  "is_misc_instruction i \<Longrightarrow> misc_ready i (sv_hi_or_prev_a v) (sv_a v) (sv_b v) (sv_c v) \<Longrightarrow> emit_ready i v acc"
proof -
  note d = disjoint_classes [of i] disjoint_jump [of i]
  show "is_alu_instruction i \<Longrightarrow> alu_op (opcode i) (sv_b v) (sv_c v) = Inr (sv_a v, opt_or_0 (sv_hi_or_prev_a v)) \<Longrightarrow> emit_ready i v acc"
    using d(1) by (simp add: emit_ready_def)
  show "is_memory_load_instruction i \<Longrightarrow> \<exists>x rt. acc = Some x \<and>
     load_value (opcode i) (sv_b v + sv_c v) (rec_value (current_record x)) rt = Inr (sv_a v) \<Longrightarrow> emit_ready i v acc"
    using d(1,2) by (auto simp: emit_ready_def)
  show "is_memory_store_instruction i \<Longrightarrow> acc \<noteq> None \<Longrightarrow> emit_ready i v acc"
    using d(1-3) by (auto simp: emit_ready_def)
  show "is_branch_instruction i \<Longrightarrow> branch_taken (opcode i) (sv_a v) (sv_b v) = Inr True \<longrightarrow> sv_next_next_pc v = sv_next_pc v + sv_c v \<Longrightarrow>
     only_one_operand (opcode i) \<longrightarrow> sv_b v = 0 \<Longrightarrow> emit_ready i v acc"
    using d(1-4) by (auto simp: emit_ready_def)
  show "is_jump_instruction i \<Longrightarrow> emit_ready i v acc"
    using d(1,5,7) by (auto simp: emit_ready_def)
  show "is_misc_instruction i \<Longrightarrow> misc_ready i (sv_hi_or_prev_a v) (sv_a v) (sv_b v) (sv_c v) \<Longrightarrow> emit_ready i v acc"
    using d(1-5) by (auto simp: emit_ready_def)
qed

lemma isa_exec_classes:
  "is_alu_instruction i \<Longrightarrow> isa_exec i m = obind (isa_alu i m) (\<lambda>m'. Inr (m', ar_next_pc m + 4))"
  "is_memory_load_instruction i \<Longrightarrow> isa_exec i m = obind (isa_load i m) (\<lambda>m'. Inr (m', ar_next_pc m + 4))"
  "is_memory_store_instruction i \<Longrightarrow> isa_exec i m = obind (isa_store i m) (\<lambda>m'. Inr (m', ar_next_pc m + 4))"
  "is_branch_instruction i \<Longrightarrow> isa_exec i m = obind (isa_branch i m) (\<lambda>target. Inr (m, target))"
  "is_jump_instruction i \<Longrightarrow> isa_exec i m = isa_jump i m"
  "is_misc_instruction i \<Longrightarrow> isa_exec i m = obind (isa_misc i m) (\<lambda>m'. Inr (m', ar_next_pc m + 4))"
  using disjoint_classes [of i] disjoint_jump [of i] unfolding isa_exec_def Let_def by auto

lemma dispatch_straight:
  assumes "no_register_hints s" "store_ready i s"
  defines "v \<equiv> initial_vars s" and "E \<equiv> \<lambda>e. isa_exec i (arch s) = Inl e"
  shows "is_alu_instruction i \<Longrightarrow> wp (bindM (execute_alu i) (\<lambda>r. retM (set_operands v r))) (dispatched i s) E s"
    and "is_memory_load_instruction i \<Longrightarrow> wp (bindM (execute_load i) (\<lambda>r. retM (set_operands v r))) (dispatched i s) E s"
    and "is_memory_store_instruction i \<Longrightarrow> wp (bindM (execute_store i) (\<lambda>r. retM (set_operands v r))) (dispatched i s) E s"
    and "is_mov_cond_instruction i \<Longrightarrow> wp (bindM (execute_condmov i) (\<lambda>r. retM (set_operands v r))) (dispatched i s) E s"
    and "is_misc_instruction i \<Longrightarrow> \<not> is_mov_cond_instruction i \<Longrightarrow>
           wp (bindM (execute_misc i) (\<lambda>r. retM (set_operands v r))) (dispatched i s) E s"
proof -
  have d: "during s (arch s) (page_table (st_memory (ex_state s))) (acc_memory (ex_memory_accesses s)) s"
    by (simp add: during_def)
  have impl: "implements s P x t \<and> R \<Longrightarrow> implements s (\<lambda>acc. P acc \<and> R) x t" for P R x t
    by (auto simp: implements_def)
  show "wp (bindM (execute_alu i) (\<lambda>r. retM (set_operands v r))) (dispatched i s) E s" if i: "is_alu_instruction i"
    unfolding v_def E_def
    by (rule dispatched_operands [OF wp_mono [OF execute_alu_isa [OF d assms(1)]] _ isa_exec_classes(1) [OF i],
          where P = "\<lambda>hi a b c acc. True \<and> alu_op (opcode i) b c = Inr (a, opt_or_0 hi)"])
      (use i in \<open>auto simp: executable_def intro!: impl emit_ready_classes(1)\<close>)
  show "wp (bindM (execute_load i) (\<lambda>r. retM (set_operands v r))) (dispatched i s) E s" if i: "is_memory_load_instruction i"
    unfolding v_def E_def
    by (rule dispatched_operands [OF execute_load_isa [OF d assms(1)] _ isa_exec_classes(2) [OF i]])
      (use i in \<open>auto simp: executable_def intro!: emit_ready_classes(2)\<close>)
  show "wp (bindM (execute_store i) (\<lambda>r. retM (set_operands v r))) (dispatched i s) E s" if i: "is_memory_store_instruction i"
    unfolding v_def E_def
    by (rule dispatched_operands [OF execute_store_isa [OF d assms(1,2)] _ isa_exec_classes(3) [OF i]])
      (use i in \<open>auto simp: executable_def intro!: emit_ready_classes(3)\<close>)
  show "wp (bindM (execute_condmov i) (\<lambda>r. retM (set_operands v r))) (dispatched i s) E s" if i: "is_mov_cond_instruction i"
    unfolding v_def E_def
    by (rule dispatched_operands [OF wp_mono [OF execute_condmov_isa [OF d assms(1) i]] _ isa_exec_classes(6) [OF disjoint_classes(6) [OF i]],
          where P = "\<lambda>hi a b c acc. True"])
      (use i disjoint_classes(6) [OF i] in \<open>auto simp: executable_def misc_ready_def is_mov_cond_instruction_def intro!: emit_ready_classes(6)\<close>)
  show "wp (bindM (execute_misc i) (\<lambda>r. retM (set_operands v r))) (dispatched i s) E s"
    if i: "is_misc_instruction i" "\<not> is_mov_cond_instruction i"
    unfolding v_def E_def
    by (rule dispatched_operands [OF wp_mono [OF execute_misc_isa [OF d assms(1) i]] _ isa_exec_classes(6) [OF i(1)],
          where P = "\<lambda>hi a b c acc. True \<and> misc_ready i hi a b c"])
      (use i in \<open>auto simp: executable_def intro!: impl emit_ready_classes(6)\<close>)
qed


lemma dispatch_isa:
  assumes "no_register_hints s" "store_ready i s" "opcode i \<noteq> Op_SYSCALL"
  shows "wp (dispatch table i (initial_vars s)) (dispatched i s) (\<lambda>e. isa_exec i (arch s) = Inl e) s"
proof -
  have d: "during s (arch s) (page_table (st_memory (ex_state s))) (acc_memory (ex_memory_accesses s)) s"
    by (simp add: during_def)
  have branch: "wp (bindM (execute_branch i (sv_next_pc (initial_vars s)) (sv_next_next_pc (initial_vars s))) (\<lambda>r.
      bindM enter_delay_slot (\<lambda>_. retM (set_target (initial_vars s) r)))) (dispatched i s) (\<lambda>e. isa_exec i (arch s) = Inl e) s"
    if i: "is_branch_instruction i"
    unfolding initial_vars_pc
    by (rule dispatched_target [OF wp_mono [OF execute_branch_isa [OF d assms(1)]],
          where P = "\<lambda>a b c nn. (branch_taken (opcode i) a b = Inr True \<longrightarrow> nn = ar_next_pc (arch s) + c) \<and> (only_one_operand (opcode i) \<longrightarrow> b = 0)"])
      (use i in \<open>auto simp: executable_def isa_exec_classes(4) initial_vars_pc intro!: emit_ready_classes(4)\<close>)
  have jump: "wp (bindM (if opcode i = Op_Jump then execute_jump i else if opcode i = Op_Jumpi then execute_jumpi i
      else execute_jump_direct i) (\<lambda>r. bindM enter_delay_slot (\<lambda>_. retM (set_target (initial_vars s) r))))
      (dispatched i s) (\<lambda>e. isa_exec i (arch s) = Inl e) s"
    if i: "is_jump_instruction i"
    by (rule dispatched_target [OF wp_mono [OF execute_jump_isa [OF d assms(1) i]], where P = "\<lambda>a b c nn. True"])
      (use i in \<open>auto simp: executable_def isa_exec_classes(5) intro!: emit_ready_classes(5)\<close>)
  have "isa_exec i (arch s) = (if opcode i = Op_UNIMPL then Inl (Err (UnsupportedInstruction (op_c i))) else Inl (Panic Unreachable))"
    if "\<not> executable i" using that by (simp add: isa_exec_def executable_def Let_def)
  then show ?thesis
    using branch jump dispatch_straight [OF assms(1,2)] assms(3) disjoint_classes(6) [of i] unfolding dispatch_def executable_def
    by (intro wp_ifI) (simp_all add: wp_simps)
qed

lemma arch_update: "arch (s\<lparr>ex_record := r\<rparr>) = arch s"
  by (rule arch_cong) simp_all

lemma arch_finish: "arch (s\<lparr>ex_state := finish_step v (ex_state s)\<rparr>) = (arch s)\<lparr>ar_pc := sv_next_pc v, ar_next_pc := sv_next_next_pc v\<rparr>"
  by (simp add: finish_step_def arch_def peek_value_def cell_value initial_value_def fun_eq_iff split: option.split)

definition prepared :: "instruction \<Rightarrow> executor \<Rightarrow> executor" where
  "prepared i s = count_events i (reset_accesses (s\<lparr>ex_state := (ex_state s)\<lparr>st_next_is_delayslot := False\<rparr>\<rparr>))"

lemma prepared_eqs:
  "arch (prepared i s) = arch s" "initial_vars (prepared i s) = initial_vars s" "ex_record (prepared i s) = ex_record s"
  "no_register_hints (prepared i s) = no_register_hints s" "store_ready j (prepared i s) = store_ready j s"
  "ex_executor_mode (prepared i s) = ex_executor_mode s"
proof -
  have st: "ex_state (prepared i s) = (ex_state s)\<lparr>st_next_is_delayslot := False\<rparr>"
    by (simp add: prepared_def count_events_def reset_accesses_def)
  show a: "arch (prepared i s) = arch s" by (rule arch_cong) (simp_all add: st)
  show "initial_vars (prepared i s) = initial_vars s" "no_register_hints (prepared i s) = no_register_hints s"
    by (simp_all add: initial_vars_def no_register_hints_def st)
  show "store_ready j (prepared i s) = store_ready j s" by (simp add: store_ready_def a st)
  show "ex_record (prepared i s) = ex_record s" "ex_executor_mode (prepared i s) = ex_executor_mode s"
    by (simp_all add: prepared_def count_events_def reset_accesses_def)
qed

text \<open>One executed instruction: the abstract machine steps to the same state or fails in the same way, and
  a record of valid events stays one.\<close>

lemma execute_operation_isa:
  assumes "no_register_hints s" "store_ready i s" "encodable i" "opcode i \<noteq> Op_SYSCALL"
  shows "wp (execute_operation table i)
           (\<lambda>_ t. isa_step i (arch s) = Inr (arch t) \<and> (valid_record (ex_record s) \<longrightarrow> valid_record (ex_record t)))
           (\<lambda>e. isa_step i (arch s) = Inl e) s"
proof -
  let ?p = "prepared i s"
  have "wp (dispatch table i (initial_vars ?p)) (dispatched i ?p) (\<lambda>e. isa_exec i (arch ?p) = Inl e) ?p"
    using assms by (intro dispatch_isa) (simp_all add: prepared_eqs)
  then have dsp: "wp (dispatch table i (initial_vars s)) (dispatched i ?p) (\<lambda>e. isa_exec i (arch s) = Inl e) ?p"
    by (simp add: prepared_eqs)
  have step: "wp (bindM (emit_step i v) (\<lambda>_. modState (finish_step v)))
      (\<lambda>_ u. isa_step i (arch s) = Inr (arch u) \<and> (valid_record (ex_record s) \<longrightarrow> valid_record (ex_record u)))
      (\<lambda>e. isa_step i (arch s) = Inl e) t" if d: "dispatched i ?p v t" and nz: "sv_next_next_pc v \<noteq> 0" for v t
    unfolding wp_bindM wp_modState
  proof (rule wp_mono [OF emit_step_valid [of i t v]])
    fix u
    assume "records t u"
    then obtain r where u: "u = t\<lparr>ex_record := r\<rparr>" and r: "valid_record (ex_record t) \<longrightarrow> valid_record r"
      by (auto simp: records_def)
    have "arch u = arch t" by (simp add: u arch_update)
    then have "isa_step i (arch s) = Inr (arch (u\<lparr>ex_state := finish_step v (ex_state u)\<rparr>))"
      using d nz by (auto simp: dispatched_def prepared_eqs isa_step_def arch_finish)
    then show "isa_step i (arch s) = Inr (arch (u\<lparr>ex_state := finish_step v (ex_state u)\<rparr>)) \<and>
       (valid_record (ex_record s) \<longrightarrow> valid_record (ex_record (u\<lparr>ex_state := finish_step v (ex_state u)\<rparr>)))"
      using r d by (simp add: u dispatched_def prepared_eqs)
  qed (use d assms(3) in \<open>auto simp: dispatched_def\<close>)
  show ?thesis
    unfolding execute_operation_def wp_bindM wp_getM wp_modState wp_modM prepared_def [symmetric]
    by (rule wp_mono [OF dsp])
      (use step in \<open>auto simp: wp_errM dispatched_def isa_step_def prepared_eqs intro!: wp_ifI\<close>)
qed

section \<open>Properties\<close>


definition example_executor :: executor where
  "example_executor = executor_new default_program 8 1 16 8 None False None Map.empty Map.empty"

lemma example_executor_ready:
  "no_register_hints example_executor" "opcode i = Op_ADD \<Longrightarrow> store_ready i example_executor"
  by (simp_all add: example_executor_def executor_new_def no_register_hints_def state_new_def empty_memory_def store_ready_def)

lemma example_arch: "ar_reg (arch example_executor) r = 0" "ar_next_pc (arch example_executor) = 0"
  by (simp_all add: arch_def example_executor_def executor_new_def state_new_def empty_memory_def peek_value_def
      reg_loc_def default_program_def)


text \<open>C5: every ALU event that an instruction other than a system call adds to the record is valid (its result is what the ALU
  computes from its operands) and sits in the table of its opcode, under the hypotheses of the refinement: no input word
  waits in a register, a sub-word store does not hit an input word that was never accessed, and \<open>INS\<close> is encodable.\<close>

theorem execute_operation_events_valid:
  assumes "no_register_hints s" and "store_ready i s" and "encodable i" and "opcode i \<noteq> Op_SYSCALL"
    and "valid_record (ex_record s)" and "execute_operation table i s = Inr (u, t)"
  shows "valid_record (ex_record t)"
  using wp_InrD [OF execute_operation_isa [OF assms(1-4)] assms(6)] assms(5) by simp

theorem execute_operation_events_valid_witness:
  "\<exists>t. execute_operation Map.empty (instruction_new Op_ADD 8 0 5 False True) example_executor = Inr ((), t) \<and>
       valid_record (ex_record t)"
proof -
  let ?i = "instruction_new Op_ADD 8 0 5 False True"
  have i: "opcode ?i = Op_ADD" "encodable ?i" by (simp_all add: instruction_new_def encodable_def)
  note ready = example_executor_ready(1) example_executor_ready(2) [OF i(1)] i(2)
  have "valid_record (ex_record example_executor)"
    by (simp add: example_executor_def executor_new_def record_new_def valid_record_def)
  moreover have "isa_step ?i (arch example_executor) \<noteq> Inl f" for f
    by (simp add: isa_step_def isa_exec_def isa_alu_def isa_operands_def instruction_new_def is_alu_instruction_def
        register_from_def all_registers_def NUM_REGISTERS_def example_arch alu_op_def alu_result_def is_use_lo_hi_alu_def)
  then obtain t where "execute_operation Map.empty ?i example_executor = Inr ((), t)"
    using execute_operation_isa [OF ready, of Map.empty] i by (auto simp: wp_def split: sum.splits)
  ultimately show ?thesis
    using execute_operation_events_valid [OF ready, of Map.empty] i by auto
qed

end
