(* ===== verification/Koala_Bear.thy ===== *)
theory Koala_Bear
  imports Main
begin

text \<open>
  The KoalaBear field, the integers modulo the prime 2^31 - 2^24 + 1 (the order that
  \<^verbatim>\<open>crates/stark/src/septic_extension.rs\<close> asserts), over which the chips are constrained. Primality follows
  from Proth's criterion: 3^((p-1)/2) = -1 modulo p, so a prime factor has an element of order 2^24 and is
  larger than the square root of p.
\<close>

section \<open>The ring\<close>

abbreviation koala_p :: int where
  "koala_p \<equiv> 2130706433"

typedef koala = "{0..<koala_p}"
  morphisms as_canonical koala
  by (rule exI [of _ 0]) simp

setup_lifting type_definition_koala

instantiation koala :: comm_ring_1
begin

lift_definition zero_koala :: koala is 0
  by simp

lift_definition one_koala :: koala is 1
  by simp

lift_definition plus_koala :: "koala \<Rightarrow> koala \<Rightarrow> koala" is "\<lambda>x y. (x + y) mod koala_p"
  by simp

lift_definition minus_koala :: "koala \<Rightarrow> koala \<Rightarrow> koala" is "\<lambda>x y. (x - y) mod koala_p"
  by simp

lift_definition uminus_koala :: "koala \<Rightarrow> koala" is "\<lambda>x. (- x) mod koala_p"
  by simp

lift_definition times_koala :: "koala \<Rightarrow> koala \<Rightarrow> koala" is "\<lambda>x y. (x * y) mod koala_p"
  by simp

instance
  by standard (transfer, auto simp: mod_simps algebra_simps)+

end

lemma as_canonical_bounds: "0 \<le> as_canonical x" "as_canonical x < koala_p"
  using as_canonical [of x] by auto

lemma as_canonical_of_nat: "as_canonical (of_nat n) = int n mod koala_p"
proof (induction n)
  case 0
  then show ?case by (simp add: zero_koala.rep_eq)
next
  case (Suc n)
  then show ?case by (simp add: plus_koala.rep_eq one_koala.rep_eq mod_simps)
qed

lemma as_canonical_of_int: "as_canonical (of_int n) = n mod koala_p"
proof (cases n)
  case (nonneg k)
  then show ?thesis by (simp add: as_canonical_of_nat)
next
  case (neg k)
  then have "(of_int n :: koala) = - of_nat (Suc k)" by simp
  then show ?thesis
    using neg by (simp only: uminus_koala.rep_eq as_canonical_of_nat) (simp add: mod_simps)
qed

lemma of_int_koala_eq_iff: "(of_int a :: koala) = of_int b \<longleftrightarrow> a mod koala_p = b mod koala_p"
  by (metis as_canonical_inject as_canonical_of_int)

lemma of_nat_koala_eq_iff: "(of_nat a :: koala) = of_nat b \<longleftrightarrow> a mod nat koala_p = b mod nat koala_p"
proof -
  have "(of_nat a :: koala) = of_nat b \<longleftrightarrow> int a mod koala_p = int b mod koala_p"
    by (metis as_canonical_inject as_canonical_of_nat)
  also have "\<dots> \<longleftrightarrow> int (a mod nat koala_p) = int (b mod nat koala_p)"
    by (simp add: zmod_int)
  finally show ?thesis by simp
qed

lemma of_int_as_canonical [simp]: "of_int (as_canonical x) = x"
  using as_canonical_bounds [of x] by (metis as_canonical_inject as_canonical_of_int mod_pos_pos_trivial)

section \<open>Primality\<close>

fun iterated_square :: "nat \<Rightarrow> int \<Rightarrow> int" where
  "iterated_square 0 x = x"
| "iterated_square (Suc n) x = iterated_square n (x * x mod koala_p)"

lemma iterated_square: "iterated_square n (x mod koala_p) = x ^ 2 ^ n mod koala_p"
proof (induction n arbitrary: x)
  case (Suc n)
  have "iterated_square (Suc n) (x mod koala_p) = iterated_square n ((x * x) mod koala_p)"
    by (simp add: mod_simps)
  also have "\<dots> = (x * x) ^ 2 ^ n mod koala_p" by (rule Suc)
  finally show ?case by (simp add: power2_eq_square [symmetric] power_mult [symmetric])
qed simp

text \<open>The base b = 3^127 of Proth's criterion: b^(2^23) = -1.\<close>

abbreviation proth_base :: int where
  "proth_base \<equiv> 1791270792"

lemma proth_base_power: "proth_base ^ 2 ^ 23 mod koala_p = koala_p - 1"
proof -
  have "iterated_square 23 (proth_base mod koala_p) = koala_p - 1"
    by code_simp
  then show ?thesis by (simp only: iterated_square)
qed

lemma odd_part:
  assumes "0 < (d :: nat)" "d < 2 ^ n"
  obtains k m where "d = 2 ^ k * m" "odd m" "k < n"
proof -
  have "\<exists>k m. d = 2 ^ k * m \<and> odd m"
    using assms(1)
  proof (induction d rule: less_induct)
    case (less d)
    show ?case
    proof (cases "odd d")
      case True
      then show ?thesis by (intro exI [of _ 0] exI [of _ d]) simp
    next
      case False
      then obtain e where e: "d = 2 * e" by (auto elim: evenE)
      then obtain k m where "e = 2 ^ k * m" "odd m" using less.IH [of e] less.prems by auto
      then show ?thesis using e by (intro exI [of _ "Suc k"] exI [of _ m]) simp
    qed
  qed
  then obtain k m where d: "d = 2 ^ k * m" "odd m" by blast
  moreover have "k < n"
  proof (rule ccontr)
    assume "\<not> k < n"
    then have "(2 :: nat) ^ n \<le> 2 ^ k" by (simp add: power_increasing)
    also have "\<dots> \<le> d" using d by (cases m) auto
    finally show False using assms(2) by simp
  qed
  ultimately show ?thesis using that by blast
qed

lemma proth_order:
  fixes b r :: int
  assumes r: "2 < r" and half: "b ^ 2 ^ n mod r = (- 1) mod r"
    and eq: "b ^ i mod r = b ^ j mod r" and ij: "i < j" "j < 2 ^ Suc n"
  shows False
proof -
  have full: "b ^ 2 ^ Suc n mod r = 1 mod r"
  proof -
    have "b ^ 2 ^ Suc n = (b ^ 2 ^ n) ^ 2" by (simp add: power_mult [symmetric] mult.commute)
    also have "\<dots> mod r = ((- 1) ^ 2) mod r" by (metis half power_mod)
    finally show ?thesis by simp
  qed
  have one: "b ^ (j - i) mod r = 1 mod r"
  proof -
    have "b ^ (2 ^ Suc n - i) * b ^ j mod r = b ^ (2 ^ Suc n - i) * b ^ i mod r"
      by (metis eq mod_mult_right_eq)
    also have "b ^ (2 ^ Suc n - i) * b ^ i = b ^ 2 ^ Suc n"
      using ij by (simp add: power_add [symmetric] del: power_Suc)
    also have "b ^ (2 ^ Suc n - i) * b ^ j = b ^ (j - i) * b ^ 2 ^ Suc n"
      using ij by (simp add: power_add [symmetric] add.commute del: power_Suc)
    finally show ?thesis by (metis full mod_mult_right_eq mult.right_neutral)
  qed
  obtain k m where d: "j - i = 2 ^ k * m" "odd m" "k < Suc n"
    by (rule odd_part [of "j - i" "Suc n"]) (use ij in auto)
  have "(b ^ (j - i)) ^ 2 ^ (n - k) mod r = 1 mod r"
    by (metis one power_mod power_one)
  moreover have "(b ^ (j - i)) ^ 2 ^ (n - k) = (b ^ 2 ^ n) ^ m"
  proof -
    have "2 ^ n = (2 :: nat) ^ k * 2 ^ (n - k)" using d(3) by (simp add: power_add [symmetric])
    then have "2 ^ k * m * 2 ^ (n - k) = 2 ^ n * m" by (simp add: mult_ac)
    then show ?thesis by (simp only: d(1) power_mult [symmetric])
  qed
  moreover have "(b ^ 2 ^ n) ^ m mod r = (- 1) mod r"
    using d(2) by (metis half power_mod power_minus_odd power_one)
  ultimately have "1 mod r = (- 1) mod r" by simp
  then have "r dvd 2" by (simp add: mod_eq_dvd_iff)
  then show False using r zdvd_imp_le by fastforce
qed

lemma proth_factor_large:
  fixes b r :: int
  assumes r: "2 < r" and half: "b ^ 2 ^ n mod r = (- 1) mod r"
  shows "2 ^ Suc n \<le> r"
proof -
  let ?f = "\<lambda>i. b ^ i mod r"
  have "inj_on ?f {..<2 ^ Suc n}"
  proof (rule linorder_inj_onI)
    fix i j :: nat
    assume "i < j" "j \<in> {..<2 ^ Suc n}"
    then show "?f i \<noteq> ?f j" using proth_order [OF r half, of i j] by auto
  qed auto
  then have "card (?f ` {..<2 ^ Suc n}) = 2 ^ Suc n" by (simp only: card_image card_lessThan)
  moreover have "?f ` {..<2 ^ Suc n} \<subseteq> {0..<r}" using r by auto
  ultimately have "2 ^ Suc n \<le> card {0..<r}" by (metis card_mono finite_atLeastLessThan_int)
  then show ?thesis using r by (simp add: le_nat_iff)
qed

lemma koala_factor_large:
  assumes "r dvd koala_p" "1 < r"
  shows "2 ^ 24 \<le> r"
proof -
  have "r \<noteq> 2" using assms(1) by auto
  then have r: "2 < r" using assms(2) by simp
  have "proth_base ^ 2 ^ 23 mod koala_p = (- 1) mod koala_p"
    by (simp only: proth_base_power) simp
  then have "koala_p dvd proth_base ^ 2 ^ 23 - (- 1)" by (rule mod_eq_dvd_iff [THEN iffD1])
  then have "r dvd proth_base ^ 2 ^ 23 - (- 1)" by (rule dvd_trans [OF assms(1)])
  then have "proth_base ^ 2 ^ 23 mod r = (- 1) mod r" by (rule mod_eq_dvd_iff [THEN iffD2])
  then have "2 ^ Suc 23 \<le> r" by (rule proth_factor_large [OF r])
  then show ?thesis by simp
qed

lemma koala_prime:
  assumes "koala_p dvd a * b"
  shows "koala_p dvd a \<or> koala_p dvd b"
proof (rule ccontr)
  assume no: "\<not> (koala_p dvd a \<or> koala_p dvd b)"
  define g where "g = gcd koala_p a"
  have g_dvd: "g dvd koala_p" "g dvd a" unfolding g_def by (rule gcd_dvd1, rule gcd_dvd2)
  then obtain s where s: "koala_p = g * s" by (blast elim: dvdE)
  have "0 \<le> g" unfolding g_def by (rule gcd_ge_0_int)
  moreover have "g \<noteq> 0" using s by auto
  moreover have "g \<noteq> 1"
  proof
    assume "g = 1"
    then have "coprime koala_p a" unfolding g_def coprime_iff_gcd_eq_1 .
    then show False using assms no coprime_dvd_mult_right_iff by blast
  qed
  ultimately have g: "1 < g" by simp
  have "0 < g * s" using s by simp
  then have "0 < s" using g by (simp add: zero_less_mult_iff)
  moreover have "s \<noteq> 1" using no g_dvd(2) s by auto
  ultimately have "1 < s" by simp
  moreover have "s dvd koala_p" unfolding s by (rule dvd_triv_right)
  ultimately have "2 ^ 24 \<le> s" by (intro koala_factor_large)
  moreover have "2 ^ 24 \<le> g" by (rule koala_factor_large [OF g_dvd(1) g])
  ultimately have "2 ^ 24 * 2 ^ 24 \<le> g * s" by (intro mult_mono) auto
  then show False using s by simp
qed

instance koala :: idom
proof
  fix a b :: koala
  assume ab: "a \<noteq> 0" "b \<noteq> 0"
  show "a * b \<noteq> 0"
  proof
    assume "a * b = 0"
    then have "koala_p dvd as_canonical a * as_canonical b"
      by (metis times_koala.rep_eq zero_koala.rep_eq mod_0_imp_dvd)
    then have "koala_p dvd as_canonical a \<or> koala_p dvd as_canonical b" by (rule koala_prime)
    then show False
      using ab as_canonical_bounds [of a] as_canonical_bounds [of b]
      by (metis as_canonical_inject zero_koala.rep_eq mod_pos_pos_trivial dvd_imp_mod_0)
  qed
qed

section \<open>Inverses\<close>

instance koala :: finite
proof
  have "UNIV = koala ` {0..<koala_p}"
    by (metis type_definition.Abs_image type_definition_koala)
  then show "finite (UNIV :: koala set)" by (metis finite_atLeastLessThan_int finite_imageI)
qed

lemma card_koala: "card (UNIV :: koala set) = nat koala_p"
proof -
  have "bij_betw as_canonical UNIV {0..<koala_p}"
    by (rule bij_betw_byWitness [where f' = koala]) (auto simp: as_canonical_bounds as_canonical_inverse koala_inverse)
  then have "card (UNIV :: koala set) = card {0..<koala_p}" by (rule bij_betw_same_card)
  then show ?thesis by simp
qed

lemma koala_fermat:
  assumes "(x :: koala) \<noteq> 0"
  shows "x ^ 2130706432 = 1"
proof -
  let ?U = "UNIV - {0} :: koala set"
  have bij: "bij_betw ((*) x) ?U ?U"
  proof (rule bij_betwI')
    fix y z
    assume "y \<in> ?U" "z \<in> ?U"
    then show "(x * y = x * z) = (y = z)" using assms by simp
  next
    fix y
    assume "y \<in> ?U"
    then show "x * y \<in> ?U" using assms by simp
  next
    have "inj_on ((*) x) ?U" using assms by (auto intro: inj_onI)
    moreover have "(*) x ` ?U \<subseteq> ?U" using assms by auto
    ultimately have "(*) x ` ?U = ?U" by (metis endo_inj_surj finite)
    fix y
    assume "y \<in> ?U"
    then show "\<exists>z\<in>?U. y = x * z" using \<open>(*) x ` ?U = ?U\<close> by blast
  qed
  have "(\<Prod>y\<in>?U. x * y) = \<Prod>?U" by (rule prod.reindex_bij_betw [OF bij])
  then have "x ^ card ?U * \<Prod>?U = \<Prod>?U" by (simp add: prod.distrib)
  moreover have "\<Prod>?U \<noteq> 0" by simp
  ultimately have "x ^ card ?U = 1" by simp
  moreover have "card ?U = 2130706432" by (simp add: card_Diff_singleton card_koala)
  ultimately show ?thesis by simp
qed

instantiation koala :: field
begin

definition inverse_koala :: "koala \<Rightarrow> koala" where
  "inverse_koala x = x ^ 2130706431"

definition divide_koala :: "koala \<Rightarrow> koala \<Rightarrow> koala" where
  "divide_koala x y = x * inverse y"

instance
proof
  fix a :: koala
  assume "a \<noteq> 0"
  then have "a ^ Suc 2130706431 = 1" using koala_fermat [of a] by simp
  then show "inverse a * a = 1" by (simp only: inverse_koala_def power_Suc2)
qed (simp_all add: inverse_koala_def divide_koala_def)

end

end
