(* ===== verification/Air_Builder.thy ===== *)
theory Air_Builder
  imports Koala_Bear Dependencies
begin

text \<open>
  The builder through which a chip states its constraints (\<^verbatim>\<open>crates/stark/src/air/builder.rs\<close>, \<^verbatim>\<open>lookup.rs\<close>,
  \<^verbatim>\<open>crates/stark/src/word.rs\<close>, \<^verbatim>\<open>crates/core/machine/src/air/word.rs\<close>, \<^verbatim>\<open>air/memory.rs\<close>). The \<open>eval\<close> of a chip on a row is
  the list of what it hands to the builder: expressions that must be zero and the messages it sends and
  receives. The assertion methods of \<^verbatim>\<open>p3_air\<close> are the documented ones: \<open>assert_eq\<close> asserts that a difference is
  zero, \<open>when\<close> multiplies the assertions of the sub-builder by its condition and leaves messages alone.

  A row is accepted when every asserted expression is zero and every byte message it sends with a non-zero
  multiplicity is a row of the byte table. Fixed-size arrays are functions of the index, of which only the
  indices below the size are used; the field is any field in the definitions and \<^typ>\<open>koala\<close> in the theorems.
\<close>

unbundle bit_operations_syntax

section \<open>Messages and assertions\<close>

datatype lookup_kind =
    LK_Memory | LK_Program | LK_Instruction | LK_Byte | LK_Range | LK_Syscall | LK_Global | LK_SyscallResult

datatype lookup_scope = Scope_Global | Scope_Local

record 'f air_lookup =
  al_values :: "'f list"
  al_multiplicity :: 'f
  al_kind :: lookup_kind

definition air_lookup_new :: "'f list \<Rightarrow> 'f \<Rightarrow> lookup_kind \<Rightarrow> 'f air_lookup" where
  "air_lookup_new values multiplicity kind =
     \<lparr>al_values = values, al_multiplicity = multiplicity, al_kind = kind\<rparr>"

datatype 'f air_op =
    Assert_Zero 'f
  | Send_Lookup "'f air_lookup" lookup_scope
  | Receive_Lookup "'f air_lookup" lookup_scope

definition assert_zero :: "'f \<Rightarrow> 'f air_op list" where
  "assert_zero x = [Assert_Zero x]"

definition assert_eq :: "'f::field \<Rightarrow> 'f \<Rightarrow> 'f air_op list" where
  "assert_eq x y = assert_zero (x - y)"

definition assert_one :: "'f::field \<Rightarrow> 'f air_op list" where
  "assert_one x = assert_zero (x - 1)"

definition assert_bool :: "'f::field \<Rightarrow> 'f air_op list" where
  "assert_bool x = assert_zero (x * (x - 1))"

fun guard_op :: "'f::field \<Rightarrow> 'f air_op \<Rightarrow> 'f air_op" where
  "guard_op c (Assert_Zero x) = Assert_Zero (c * x)"
| "guard_op c op = op"

definition when_cond :: "'f::field \<Rightarrow> 'f air_op list \<Rightarrow> 'f air_op list" where
  "when_cond c ops = map (guard_op c) ops"

definition when_not :: "'f::field \<Rightarrow> 'f air_op list \<Rightarrow> 'f air_op list" where
  "when_not c ops = when_cond (c - 1) ops"

definition if_else :: "'f::field \<Rightarrow> 'f \<Rightarrow> 'f \<Rightarrow> 'f" where
  "if_else c a b = c * a + (1 - c) * b"

section \<open>Words of four limbs\<close>

type_synonym 'f limbs = "nat \<Rightarrow> 'f"

definition mk_word :: "'f \<Rightarrow> 'f \<Rightarrow> 'f \<Rightarrow> 'f \<Rightarrow> 'f limbs" where
  "mk_word x0 x1 x2 x3 i = (if i = 0 then x0 else if i = 1 then x1 else if i = 2 then x2 else x3)"

definition zero_word :: "'f::field limbs" where
  "zero_word = mk_word 0 0 0 0"

definition limb_list :: "'f limbs \<Rightarrow> 'f list" where
  "limb_list w = [w 0, w 1, w 2, w 3]"

definition from_canonical_u8 :: "u8 \<Rightarrow> 'f::field" where
  "from_canonical_u8 x = of_nat (unat x)"

definition from_canonical_u32 :: "u32 \<Rightarrow> 'f::field" where
  "from_canonical_u32 x = of_nat (unat x)"

definition from_bool :: "bool \<Rightarrow> 'f::field" where
  "from_bool b = (if b then 1 else 0)"

definition word_from :: "u32 \<Rightarrow> 'f::field limbs" where
  "word_from v i = from_canonical_u8 (byte_at v i)"

definition word_reduce :: "'f::field limbs \<Rightarrow> 'f" where
  "word_reduce w = w 0 + 2 ^ 8 * w 1 + 2 ^ 16 * w 2 + 2 ^ 24 * w 3"

definition assert_word_eq :: "'f::field limbs \<Rightarrow> 'f limbs \<Rightarrow> 'f air_op list" where
  "assert_word_eq l r = assert_eq (l 0) (r 0) @ assert_eq (l 1) (r 1) @ assert_eq (l 2) (r 2) @ assert_eq (l 3) (r 3)"

definition assert_word_zero :: "'f::field limbs \<Rightarrow> 'f air_op list" where
  "assert_word_zero w = assert_zero (w 0) @ assert_zero (w 1) @ assert_zero (w 2) @ assert_zero (w 3)"

section \<open>Byte messages\<close>

definition byte_opcode_as_field :: "byte_opcode \<Rightarrow> 'f::field" where
  "byte_opcode_as_field op = from_canonical_u8 (byte_opcode_repr op)"

definition opcode_as_field :: "opcode \<Rightarrow> 'f::field" where
  "opcode_as_field op = from_canonical_u8 (opcode_repr op)"

definition send_byte_pair :: "'f::field \<Rightarrow> 'f \<Rightarrow> 'f \<Rightarrow> 'f \<Rightarrow> 'f \<Rightarrow> 'f \<Rightarrow> 'f air_op list" where
  "send_byte_pair opc a1 a2 b c multiplicity =
     [Send_Lookup (air_lookup_new [opc, a1, a2, b, c] multiplicity LK_Byte) Scope_Local]"

definition send_byte :: "'f::field \<Rightarrow> 'f \<Rightarrow> 'f \<Rightarrow> 'f \<Rightarrow> 'f \<Rightarrow> 'f air_op list" where
  "send_byte opc a b c multiplicity = send_byte_pair opc a 0 b c multiplicity"

definition receive_byte_pair :: "'f::field \<Rightarrow> 'f \<Rightarrow> 'f \<Rightarrow> 'f \<Rightarrow> 'f \<Rightarrow> 'f \<Rightarrow> 'f air_op list" where
  "receive_byte_pair opc a1 a2 b c multiplicity =
     [Receive_Lookup (air_lookup_new [opc, a1, a2, b, c] multiplicity LK_Byte) Scope_Local]"

definition receive_byte :: "'f::field \<Rightarrow> 'f \<Rightarrow> 'f \<Rightarrow> 'f \<Rightarrow> 'f \<Rightarrow> 'f air_op list" where
  "receive_byte opc a b c multiplicity = receive_byte_pair opc a 0 b c multiplicity"

fun slice_range_check_u8 :: "'f::field list \<Rightarrow> 'f \<Rightarrow> 'f air_op list" where
  "slice_range_check_u8 (x # y # xs) m =
     send_byte (byte_opcode_as_field B_U8Range) 0 x y m @ slice_range_check_u8 xs m"
| "slice_range_check_u8 [x] m = send_byte (byte_opcode_as_field B_U8Range) 0 x 0 m"
| "slice_range_check_u8 [] m = []"

definition slice_range_check_u16 :: "'f::field list \<Rightarrow> 'f \<Rightarrow> 'f air_op list" where
  "slice_range_check_u16 xs m =
     concat (map (\<lambda>x. send_byte (byte_opcode_as_field B_U16Range) x 0 0 m) xs)"

section \<open>Instruction messages\<close>

definition instruction_values ::
    "'f \<Rightarrow> 'f \<Rightarrow> 'f \<Rightarrow> 'f \<Rightarrow> 'f \<Rightarrow> 'f \<Rightarrow> 'f \<Rightarrow> 'f limbs \<Rightarrow> 'f limbs \<Rightarrow> 'f limbs \<Rightarrow> 'f limbs \<Rightarrow>
     'f \<Rightarrow> 'f \<Rightarrow> 'f \<Rightarrow> 'f \<Rightarrow> 'f \<Rightarrow> 'f list" where
  "instruction_values shard clk pc next_pc next_next_pc num_extra_cycles opc a b c hi
       op_a_immutable is_rw_a is_check_memory is_halt is_sequential =
     [shard, clk, pc, next_pc, next_next_pc, num_extra_cycles, opc]
       @ limb_list a @ limb_list b @ limb_list c @ limb_list hi
       @ [op_a_immutable, is_rw_a, is_check_memory, is_halt, is_sequential]"

definition send_instruction :: "'f list \<Rightarrow> 'f \<Rightarrow> 'f air_op list" where
  "send_instruction values multiplicity =
     [Send_Lookup (air_lookup_new values multiplicity LK_Instruction) Scope_Local]"

definition receive_instruction :: "'f list \<Rightarrow> 'f \<Rightarrow> 'f air_op list" where
  "receive_instruction values multiplicity =
     [Receive_Lookup (air_lookup_new values multiplicity LK_Instruction) Scope_Local]"

definition BUILDER_UNUSED_PC :: u32 where "BUILDER_UNUSED_PC = 1"
definition BUILDER_DEFAULT_PC_INC :: u32 where "BUILDER_DEFAULT_PC_INC = 4"

definition send_alu_with_hi ::
    "'f::field \<Rightarrow> 'f limbs \<Rightarrow> 'f limbs \<Rightarrow> 'f limbs \<Rightarrow> 'f limbs \<Rightarrow> 'f \<Rightarrow> 'f air_op list" where
  "send_alu_with_hi opc a b c hi multiplicity =
     send_instruction
       (instruction_values 0 0 (from_canonical_u32 BUILDER_UNUSED_PC) (from_canonical_u32 (BUILDER_UNUSED_PC + BUILDER_DEFAULT_PC_INC))
          (from_canonical_u32 (BUILDER_UNUSED_PC + BUILDER_DEFAULT_PC_INC + BUILDER_DEFAULT_PC_INC)) 0 opc a b c hi 0 0 0 0 1)
       multiplicity"

definition send_alu ::
    "'f::field \<Rightarrow> 'f limbs \<Rightarrow> 'f limbs \<Rightarrow> 'f limbs \<Rightarrow> 'f \<Rightarrow> 'f air_op list" where
  "send_alu opc a b c multiplicity = send_alu_with_hi opc a b c zero_word multiplicity"

section \<open>Memory accesses\<close>

record 'f memory_access_cols =
  ma_value :: "'f limbs"
  ma_prev_shard :: 'f
  ma_prev_clk :: 'f
  ma_compare_clk :: 'f
  ma_diff_16bit_limb :: 'f
  ma_diff_8bit_limb :: 'f

text \<open>\<open>MemoryReadWriteCols\<close> and \<open>MemoryWriteCols\<close> have the same columns; the previous value of a \<open>MemoryReadCols\<close> is
  its value.\<close>

record 'f memory_rw_cols =
  mrw_prev_value :: "'f limbs"
  mrw_access :: "'f memory_access_cols"

definition memory_read_cols :: "'f memory_access_cols \<Rightarrow> 'f memory_rw_cols" where
  "memory_read_cols access = \<lparr>mrw_prev_value = ma_value access, mrw_access = access\<rparr>"

definition eval_range_check_24bits :: "'f::field \<Rightarrow> 'f \<Rightarrow> 'f \<Rightarrow> 'f \<Rightarrow> 'f air_op list" where
  "eval_range_check_24bits v limb_16 limb_8 do_check =
     when_cond do_check (assert_eq v (limb_16 + limb_8 * 2 ^ 16))
     @ send_byte (byte_opcode_as_field B_U16Range) limb_16 0 0 do_check
     @ send_byte (byte_opcode_as_field B_U8Range) 0 0 limb_8 do_check"

definition eval_memory_access_timestamp ::
    "'f::field memory_access_cols \<Rightarrow> 'f \<Rightarrow> 'f \<Rightarrow> 'f \<Rightarrow> 'f air_op list" where
  "eval_memory_access_timestamp mem_access do_check shard clk =
     (let compare_clk = ma_compare_clk mem_access;
          prev_comp_value = if_else compare_clk (ma_prev_clk mem_access) (ma_prev_shard mem_access);
          current_comp_val = if_else compare_clk clk shard;
          diff_minus_one = current_comp_val - prev_comp_value - 1 in
      when_cond do_check (assert_bool compare_clk)
      @ when_cond do_check (when_cond compare_clk (assert_eq shard (ma_prev_shard mem_access)))
      @ eval_range_check_24bits diff_minus_one (ma_diff_16bit_limb mem_access) (ma_diff_8bit_limb mem_access)
          do_check)"

definition eval_memory_access ::
    "'f::field \<Rightarrow> 'f \<Rightarrow> 'f \<Rightarrow> 'f memory_rw_cols \<Rightarrow> 'f \<Rightarrow> 'f air_op list" where
  "eval_memory_access shard clk addr memory_access do_check =
     (let mem_access = mrw_access memory_access;
          prev_values = [ma_prev_shard mem_access, ma_prev_clk mem_access, addr] @ limb_list (mrw_prev_value memory_access);
          current_values = [shard, clk, addr] @ limb_list (ma_value mem_access) in
      assert_bool do_check
      @ eval_memory_access_timestamp mem_access do_check shard clk
      @ slice_range_check_u8 (limb_list (mrw_prev_value memory_access)) do_check
      @ slice_range_check_u8 (limb_list (ma_value mem_access)) do_check
      @ [Send_Lookup (air_lookup_new prev_values do_check LK_Memory) Scope_Local,
         Receive_Lookup (air_lookup_new current_values do_check LK_Memory) Scope_Local])"

lemmas air_defs = assert_zero_def assert_eq_def assert_one_def assert_bool_def when_cond_def when_not_def
  assert_word_eq_def assert_word_zero_def send_byte_def send_byte_pair_def receive_byte_def
  receive_byte_pair_def slice_range_check_u16_def send_instruction_def receive_instruction_def
  send_alu_def send_alu_with_hi_def air_lookup_new_def

end
