(* ===== verification/Byte_Chip.thy ===== *)
theory Byte_Chip
  imports Air_Builder
begin

text \<open>
  The byte chip (\<^verbatim>\<open>crates/core/machine/src/bytes\<close>): its preprocessed table has a row for every pair of bytes, and
  \<open>eval\<close> receives the results of the ten byte operations on the pair. A byte message is answered exactly when it is
  one of these results; \<open>accepted\<close> is the acceptance of a list of builder operations.
\<close>

unbundle bit_operations_syntax

section \<open>The table\<close>

definition shr_carry :: "u8 \<Rightarrow> u8 \<Rightarrow> u8 \<times> u8" where
  "shr_carry input rotation =
     (let c_mod = unat (rotation AND 7) in
      if c_mod \<noteq> 0 then (drop_bit c_mod input, drop_bit (8 - c_mod) (push_bit (8 - c_mod) input))
      else (input, 0))"

record 'f byte_preprocessed_cols =
  bp_b :: 'f
  bp_c :: 'f
  bp_and :: 'f
  bp_or :: 'f
  bp_xor :: 'f
  bp_nor :: 'f
  bp_sll :: 'f
  bp_shr :: 'f
  bp_shr_carry :: 'f
  bp_ltu :: 'f
  bp_msb :: 'f
  bp_value_u16 :: 'f

definition byte_trace_row :: "u8 \<Rightarrow> u8 \<Rightarrow> 'f::field byte_preprocessed_cols" where
  "byte_trace_row b c =
     \<lparr>bp_b = from_canonical_u8 b, bp_c = from_canonical_u8 c,
      bp_and = from_canonical_u8 (b AND c), bp_or = from_canonical_u8 (b OR c),
      bp_xor = from_canonical_u8 (b XOR c), bp_nor = from_canonical_u8 (NOT (b OR c)),
      bp_sll = from_canonical_u8 (push_bit (unat (c AND 7)) b),
      bp_shr = from_canonical_u8 (fst (shr_carry b c)), bp_shr_carry = from_canonical_u8 (snd (shr_carry b c)),
      bp_ltu = from_bool (b < c), bp_msb = from_bool (b AND 0x80 \<noteq> 0),
      bp_value_u16 = from_canonical_u32 (push_bit 8 (ucast b) + ucast c)\<rparr>"

definition byte_eval :: "'f::field byte_preprocessed_cols \<Rightarrow> (byte_opcode \<Rightarrow> 'f) \<Rightarrow> 'f air_op list" where
  "byte_eval local mult =
     receive_byte (byte_opcode_as_field B_AND) (bp_and local) (bp_b local) (bp_c local) (mult B_AND)
     @ receive_byte (byte_opcode_as_field B_OR) (bp_or local) (bp_b local) (bp_c local) (mult B_OR)
     @ receive_byte (byte_opcode_as_field B_XOR) (bp_xor local) (bp_b local) (bp_c local) (mult B_XOR)
     @ receive_byte (byte_opcode_as_field B_SLL) (bp_sll local) (bp_b local) (bp_c local) (mult B_SLL)
     @ receive_byte (byte_opcode_as_field B_U8Range) 0 (bp_b local) (bp_c local) (mult B_U8Range)
     @ receive_byte_pair (byte_opcode_as_field B_ShrCarry) (bp_shr local) (bp_shr_carry local) (bp_b local) (bp_c local)
         (mult B_ShrCarry)
     @ receive_byte (byte_opcode_as_field B_LTU) (bp_ltu local) (bp_b local) (bp_c local) (mult B_LTU)
     @ receive_byte (byte_opcode_as_field B_MSB) (bp_msb local) (bp_b local) 0 (mult B_MSB)
     @ receive_byte (byte_opcode_as_field B_U16Range) (bp_value_u16 local) 0 0 (mult B_U16Range)
     @ receive_byte (byte_opcode_as_field B_NOR) (bp_nor local) (bp_b local) (bp_c local) (mult B_NOR)"

fun received_values :: "'f air_op \<Rightarrow> 'f list list" where
  "received_values (Receive_Lookup l _) = [al_values l]"
| "received_values _ = []"

definition in_byte_table :: "koala list \<Rightarrow> bool" where
  "in_byte_table vals \<longleftrightarrow> (\<exists>b c. vals \<in> set (concat (map received_values (byte_eval (byte_trace_row b c) (\<lambda>_. 1)))))"

section \<open>Acceptance\<close>

fun op_accepted :: "koala air_op \<Rightarrow> bool" where
  "op_accepted (Assert_Zero x) \<longleftrightarrow> x = 0"
| "op_accepted (Send_Lookup l _) \<longleftrightarrow> al_kind l = LK_Byte \<and> al_multiplicity l \<noteq> 0 \<longrightarrow> in_byte_table (al_values l)"
| "op_accepted (Receive_Lookup _ _) \<longleftrightarrow> True"

definition accepted :: "koala air_op list \<Rightarrow> bool" where
  "accepted ops \<longleftrightarrow> list_all op_accepted ops"

lemma accepted_append [simp]: "accepted (xs @ ys) \<longleftrightarrow> accepted xs \<and> accepted ys"
  by (simp add: accepted_def)

lemma accepted_simps [simp]:
  "accepted []" "accepted (assert_zero x) \<longleftrightarrow> x = 0" "accepted (assert_eq x y) \<longleftrightarrow> x = y"
  "accepted (assert_one x) \<longleftrightarrow> x = 1" "accepted (assert_bool x) \<longleftrightarrow> x = 0 \<or> x = 1"
  "accepted (send_instruction v m)" "accepted (receive_instruction v m)"
  "accepted (send_alu_with_hi q a b c hi m)" "accepted (send_alu q a b c m)"
  by (simp_all add: accepted_def air_defs)

lemma when_cond_simps [simp]:
  "when_cond c (assert_zero x) = assert_zero (c * x)" "when_cond c (xs @ ys) = when_cond c xs @ when_cond c ys"
  "when_cond c (assert_eq x y) = assert_zero (c * (x - y))" "when_cond c (assert_one x) = assert_zero (c * (x - 1))"
  "when_cond c (assert_bool x) = assert_zero (c * (x * (x - 1)))" "when_cond c [] = []"
  "when_cond c (send_byte q u v w m) = send_byte q u v w m"
  by (simp_all add: air_defs)

lemma when_not_simps [simp]: "when_not c ops = when_cond (c - 1) ops"
  by (simp add: when_not_def)

lemma accepted_word [simp]:
  "accepted (assert_word_eq l r) \<longleftrightarrow> (\<forall>i<4. l i = r i)" "accepted (assert_word_zero l) \<longleftrightarrow> (\<forall>i<4. l i = 0)"
  by (auto simp: assert_word_eq_def assert_word_zero_def All_less_Suc2 numeral_eq_Suc)

lemma accepted_when_word [simp]:
  "accepted (when_cond c (assert_word_eq l r)) \<longleftrightarrow> c = 0 \<or> (\<forall>i<4. l i = r i)"
  "accepted (when_cond c (assert_word_zero l)) \<longleftrightarrow> c = 0 \<or> (\<forall>i<4. l i = 0)"
  by (auto simp: assert_word_eq_def assert_word_zero_def All_less_Suc2 numeral_eq_Suc)

lemma accepted_send_byte [simp]:
  "accepted (send_byte q a b c m) \<longleftrightarrow> (m \<noteq> 0 \<longrightarrow> in_byte_table [q, a, 0, b, c])"
  "accepted (send_byte_pair q a a' b c m) \<longleftrightarrow> (m \<noteq> 0 \<longrightarrow> in_byte_table [q, a, a', b, c])"
  by (simp_all add: accepted_def air_defs)

lemma accepted_concat: "accepted (concat xss) \<longleftrightarrow> (\<forall>xs\<in>set xss. accepted xs)"
  by (induction xss) auto

section \<open>Field elements as numbers\<close>

definition canon :: "koala \<Rightarrow> nat" where
  "canon x = nat (as_canonical x)"

lemma of_nat_canon [simp]: "of_nat (canon x) = x"
  using as_canonical_bounds [of x] by (metis canon_def of_int_as_canonical of_int_of_nat_eq int_nat_eq)

lemma canon_less: "canon x < 2130706433"
  using as_canonical_bounds [of x] by (simp add: canon_def nat_less_iff)

lemma canon_of_nat: "n < 2130706433 \<Longrightarrow> canon (of_nat n) = n"
  by (simp add: canon_def as_canonical_of_nat)

lemma of_nat_koala_inj: "a < 2130706433 \<Longrightarrow> b < 2130706433 \<Longrightarrow> (of_nat a :: koala) = of_nat b \<longleftrightarrow> a = b"
  by (metis canon_of_nat)

lemma of_int_koala_inj: "(of_int a :: koala) = of_int b \<Longrightarrow> \<bar>a - b\<bar> < koala_p \<Longrightarrow> a = b"
proof -
  assume "(of_int a :: koala) = of_int b" "\<bar>a - b\<bar> < koala_p"
  then have "koala_p dvd a - b" by (simp add: of_int_koala_eq_iff mod_eq_dvd_iff)
  then show "a = b" using \<open>\<bar>a - b\<bar> < koala_p\<close> by (auto elim!: dvdE simp: abs_mult)
qed

lemma koala_numeral_eq [simp]:
  "(numeral a :: koala) = numeral b \<longleftrightarrow> (numeral a :: nat) mod 2130706433 = numeral b mod 2130706433"
  "(numeral a :: koala) = 0 \<longleftrightarrow> (numeral a :: nat) mod 2130706433 = 0"
  "(0 :: koala) = numeral a \<longleftrightarrow> (numeral a :: nat) mod 2130706433 = 0"
  "(numeral a :: koala) = 1 \<longleftrightarrow> (numeral a :: nat) mod 2130706433 = 1"
  "(1 :: koala) = numeral a \<longleftrightarrow> (numeral a :: nat) mod 2130706433 = 1"
proof -
  have p: "nat koala_p = 2130706433" by simp
  show "(numeral a :: koala) = numeral b \<longleftrightarrow> (numeral a :: nat) mod 2130706433 = numeral b mod 2130706433"
    using of_nat_koala_eq_iff [of "numeral a" "numeral b"] by (simp only: p of_nat_numeral)
  have "(numeral a :: koala) = 0 \<longleftrightarrow> (numeral a :: nat) mod 2130706433 = 0 mod 2130706433"
    using of_nat_koala_eq_iff [of "numeral a" 0, unfolded p] by (simp only: of_nat_numeral semiring_1_class.of_nat_simps(1))
  then show "(numeral a :: koala) = 0 \<longleftrightarrow> (numeral a :: nat) mod 2130706433 = 0"
    and "(0 :: koala) = numeral a \<longleftrightarrow> (numeral a :: nat) mod 2130706433 = 0"
    by (simp_all only: mod_0 eq_commute [of "0 :: koala"])
  have "(numeral a :: koala) = 1 \<longleftrightarrow> (numeral a :: nat) mod 2130706433 = 1 mod 2130706433"
    using of_nat_koala_eq_iff [of "numeral a" 1, unfolded p] by (simp only: of_nat_numeral of_nat_1)
  then show "(numeral a :: koala) = 1 \<longleftrightarrow> (numeral a :: nat) mod 2130706433 = 1"
    and "(1 :: koala) = numeral a \<longleftrightarrow> (numeral a :: nat) mod 2130706433 = 1"
    by (simp_all add: eq_commute [of "1 :: koala"])
qed

section \<open>Bytes\<close>

definition is_byte :: "koala \<Rightarrow> bool" where
  "is_byte x \<longleftrightarrow> canon x < 256"

lemma canon_u8 [simp]: "canon (from_canonical_u8 x) = unat x"
proof -
  have "unat x < 256" using unsigned_less [of x, where 'a = nat] by simp
  then show ?thesis unfolding from_canonical_u8_def by (intro canon_of_nat) simp
qed

lemma from_canonical_u8_inj [simp]: "(from_canonical_u8 x :: koala) = from_canonical_u8 y \<longleftrightarrow> x = y"
  by (metis canon_u8 unsigned_word_eqI)

lemma is_byte_u8 [simp]: "is_byte (from_canonical_u8 x)"
  using unsigned_less [of x, where 'a = nat] by (simp add: is_byte_def)

lemma is_byteE: assumes "is_byte x" obtains y :: u8 where "x = from_canonical_u8 y"
proof
  show "x = from_canonical_u8 (of_nat (canon x))"
    using assms by (simp add: is_byte_def from_canonical_u8_def unat_of_nat)
qed

lemma is_byte_iff: "is_byte x \<longleftrightarrow> (\<exists>y :: u8. x = from_canonical_u8 y)"
  using is_byteE is_byte_u8 by metis

lemma is_byte_0 [simp]: "is_byte 0" and is_byte_1 [simp]: "is_byte 1"
  using is_byte_u8 [of 0] is_byte_u8 [of 1] by (simp_all add: from_canonical_u8_def)

lemma from_canonical_u8_0 [simp]: "from_canonical_u8 0 = 0"
  by (simp add: from_canonical_u8_def)

lemma byte_opcode_as_field_simps:
  "byte_opcode_as_field B_AND = 0" "byte_opcode_as_field B_OR = 1" "byte_opcode_as_field B_XOR = 2"
  "byte_opcode_as_field B_SLL = 3" "byte_opcode_as_field B_U8Range = 4" "byte_opcode_as_field B_ShrCarry = 5"
  "byte_opcode_as_field B_LTU = 6" "byte_opcode_as_field B_MSB = 7" "byte_opcode_as_field B_U16Range = 8"
  "byte_opcode_as_field B_NOR = 9"
  by (simp_all add: byte_opcode_as_field_def from_canonical_u8_def)

lemma in_byte_table_iff:
  "in_byte_table vals \<longleftrightarrow>
     (\<exists>b c. vals \<in> {[0, from_canonical_u8 (b AND c), 0, from_canonical_u8 b, from_canonical_u8 c],
       [1, from_canonical_u8 (b OR c), 0, from_canonical_u8 b, from_canonical_u8 c],
       [2, from_canonical_u8 (b XOR c), 0, from_canonical_u8 b, from_canonical_u8 c],
       [3, from_canonical_u8 (push_bit (unat (c AND 7)) b), 0, from_canonical_u8 b, from_canonical_u8 c],
       [4, 0, 0, from_canonical_u8 b, from_canonical_u8 c],
       [5, from_canonical_u8 (fst (shr_carry b c)), from_canonical_u8 (snd (shr_carry b c)), from_canonical_u8 b,
        from_canonical_u8 c],
       [6, from_bool (b < c), 0, from_canonical_u8 b, from_canonical_u8 c],
       [7, from_bool (b AND 0x80 \<noteq> 0), 0, from_canonical_u8 b, 0],
       [8, from_canonical_u32 (push_bit 8 (ucast b) + ucast c), 0, 0, 0],
       [9, from_canonical_u8 (NOT (b OR c)), 0, from_canonical_u8 b, from_canonical_u8 c]})"
  by (simp add: in_byte_table_def byte_eval_def byte_trace_row_def air_defs byte_opcode_as_field_simps)

lemma byte_table_u8 [simp]:
  "in_byte_table [byte_opcode_as_field B_U8Range, 0, 0, x, y :: koala] \<longleftrightarrow> is_byte x \<and> is_byte y"
  by (auto simp: in_byte_table_iff byte_opcode_as_field_simps is_byte_iff)

lemma byte_table_and:
  "in_byte_table [byte_opcode_as_field B_AND, a, 0, b, c :: koala] \<longleftrightarrow>
     (\<exists>p q. b = from_canonical_u8 p \<and> c = from_canonical_u8 q \<and> a = from_canonical_u8 (p AND q))"
  by (auto simp: in_byte_table_iff byte_opcode_as_field_simps)

lemma byte_table_or:
  "in_byte_table [byte_opcode_as_field B_OR, a, 0, b, c :: koala] \<longleftrightarrow>
     (\<exists>p q. b = from_canonical_u8 p \<and> c = from_canonical_u8 q \<and> a = from_canonical_u8 (p OR q))"
  by (auto simp: in_byte_table_iff byte_opcode_as_field_simps)

lemma byte_table_xor:
  "in_byte_table [byte_opcode_as_field B_XOR, a, 0, b, c :: koala] \<longleftrightarrow>
     (\<exists>p q. b = from_canonical_u8 p \<and> c = from_canonical_u8 q \<and> a = from_canonical_u8 (p XOR q))"
  by (auto simp: in_byte_table_iff byte_opcode_as_field_simps)

lemma byte_table_nor:
  "in_byte_table [byte_opcode_as_field B_NOR, a, 0, b, c :: koala] \<longleftrightarrow>
     (\<exists>p q. b = from_canonical_u8 p \<and> c = from_canonical_u8 q \<and> a = from_canonical_u8 (NOT (p OR q)))"
  by (auto simp: in_byte_table_iff byte_opcode_as_field_simps)

lemma byte_table_shr_carry:
  "in_byte_table [byte_opcode_as_field B_ShrCarry, a, a', b, c :: koala] \<longleftrightarrow>
     (\<exists>p q. b = from_canonical_u8 p \<and> c = from_canonical_u8 q \<and> a = from_canonical_u8 (fst (shr_carry p q))
       \<and> a' = from_canonical_u8 (snd (shr_carry p q)))"
  by (auto simp: in_byte_table_iff byte_opcode_as_field_simps)

lemma byte_table_ltu:
  "in_byte_table [byte_opcode_as_field B_LTU, a, 0, b, c :: koala] \<longleftrightarrow>
     is_byte b \<and> is_byte c \<and> a = from_bool (canon b < canon c)"
  by (auto simp: in_byte_table_iff byte_opcode_as_field_simps is_byte_iff word_less_nat_alt)

lemma and_0x80: "x AND 0x80 \<noteq> (0 :: u8) \<longleftrightarrow> bit x 7"
  using and_exp_eq_0_iff_not_bit [of x 7] by simp

lemma byte_table_msb:
  "in_byte_table [byte_opcode_as_field B_MSB, a, 0, b, 0 :: koala] \<longleftrightarrow>
     (\<exists>p. b = from_canonical_u8 p \<and> a = from_bool (bit p 7))"
  by (auto simp: in_byte_table_iff byte_opcode_as_field_simps and_0x80)

lemma u16_of_bytes: "unat (push_bit 8 (ucast (b :: u8)) + ucast (c :: u8) :: u32) = 256 * unat b + unat c"
proof -
  have "unat b < 256" "unat c < 256" using unsigned_less [of b, where 'a = nat] unsigned_less [of c, where 'a = nat] by auto
  then show ?thesis
    by (simp add: push_bit_eq_mult unat_word_ariths unsigned_ucast_eq take_bit_eq_mod)
qed

lemma byte_table_u16:
  "in_byte_table [byte_opcode_as_field B_U16Range, a, 0, 0, 0 :: koala] \<longleftrightarrow> canon a < 65536"
proof
  assume "in_byte_table [byte_opcode_as_field B_U16Range, a, 0, 0, 0]"
  then obtain b c :: u8 where a: "a = of_nat (256 * unat b + unat c)"
    by (auto simp: in_byte_table_iff byte_opcode_as_field_simps from_canonical_u32_def u16_of_bytes simp del: of_nat_unat)
  have "256 * unat b + unat c < 65536"
    using unsigned_less [of b, where 'a = nat] unsigned_less [of c, where 'a = nat] by simp
  then show "canon a < 65536" unfolding a by (subst canon_of_nat) auto
next
  assume *: "canon a < 65536"
  define b c :: u8 where "b = of_nat (canon a div 256)" and "c = of_nat (canon a mod 256)"
  have "unat b = canon a div 256" "unat c = canon a mod 256"
    using * by (auto simp: b_def c_def unat_of_nat)
  then have "256 * unat b + unat c = canon a" by simp
  then have "a = from_canonical_u32 (push_bit 8 (ucast b) + ucast c)"
    by (metis from_canonical_u32_def u16_of_bytes of_nat_canon)
  then show "in_byte_table [byte_opcode_as_field B_U16Range, a, 0, 0, 0]"
    by (auto simp: in_byte_table_iff byte_opcode_as_field_simps)
qed

end
