(* ===== verification/Air_Words.thy ===== *)
theory Air_Words
  imports Byte_Chip
begin

text \<open>
  Words of byte limbs as 32-bit numbers, the byte lookups a trace generator records
  (\<^verbatim>\<open>crates/core/executor/src/events/byte.rs\<close>), and the messages of the arithmetic chips: \<open>alu_message_valid\<close> says that
  an instruction message carries a result the executor's ALU computes from its operands.
\<close>

unbundle bit_operations_syntax

section \<open>Byte words\<close>

definition byte_word :: "koala limbs \<Rightarrow> bool" where
  "byte_word w \<longleftrightarrow> list_all is_byte (limb_list w)"

definition limb_number :: "koala limbs \<Rightarrow> nat" where
  "limb_number w = canon (w 0) + 256 * canon (w 1) + 65536 * canon (w 2) + 16777216 * canon (w 3)"

definition to_u32 :: "koala limbs \<Rightarrow> u32" where
  "to_u32 w = of_nat (limb_number w)"

lemma byte_wordD: "byte_word w \<Longrightarrow> is_byte (w 0) \<and> is_byte (w 1) \<and> is_byte (w 2) \<and> is_byte (w 3)"
  by (simp add: byte_word_def limb_list_def)

lemma byte_word_canon: "byte_word w \<Longrightarrow> canon (w 0) < 256 \<and> canon (w 1) < 256 \<and> canon (w 2) < 256 \<and> canon (w 3) < 256"
  by (drule byte_wordD) (simp add: is_byte_def)

lemma limb_number_less: "byte_word w \<Longrightarrow> limb_number w < 4294967296"
  by (drule byte_word_canon) (simp add: limb_number_def)

lemma unat_to_u32: "byte_word w \<Longrightarrow> unat (to_u32 w) = limb_number w"
  using limb_number_less [of w] by (simp only: to_u32_def unsigned_of_nat take_bit_eq_mod) simp

lemma unat_byte_at: "unat (byte_at v k) = unat v div 256 ^ k mod 256"
proof -
  have "unat (byte_at v k) = take_bit 8 (unat (drop_bit (8 * k) v))"
    by (simp add: byte_at_def unsigned_ucast_eq del: unsigned_drop_bit_eq)
  also have "\<dots> = unat v div 2 ^ (8 * k) mod 256"
    by (subst unat_drop_bit_eq) (simp add: take_bit_eq_mod drop_bit_eq_div)
  finally show ?thesis by (simp add: power_mult)
qed

lemma unat_byte_less: "unat (x :: u8) < 256"
  using unsigned_less [of x, where 'a = nat] by simp

lemma nat_as_bytes:
  assumes "(n :: nat) < 4294967296"
  shows "n = n mod 256 + 256 * (n div 256 mod 256) + 65536 * (n div 65536 mod 256) + 16777216 * (n div 16777216 mod 256)"
proof -
  have d: "n div 65536 = n div 256 div 256" "n div 16777216 = n div 256 div 256 div 256"
    by (simp_all add: div_mult2_eq [symmetric])
  have "n div 256 div 256 div 256 mod 256 = n div 256 div 256 div 256"
    using assms by (simp add: div_mult2_eq [symmetric] less_mult_imp_div_less)
  then show ?thesis
    unfolding d using div_mult_mod_eq [of n 256] div_mult_mod_eq [of "n div 256" 256]
      div_mult_mod_eq [of "n div 256 div 256" 256] by linarith
qed

lemma limb_number_word_from [simp]: "limb_number (word_from v) = unat v"
proof -
  have "unat v < 4294967296" using unsigned_less [of v, where 'a = nat] by simp
  then show ?thesis
    using nat_as_bytes [of "unat v"] by (simp add: limb_number_def word_from_def unat_byte_at)
qed

lemma byte_word_from [simp]: "byte_word (word_from v)"
  by (simp add: byte_word_def limb_list_def word_from_def)

lemma to_u32_word_from [simp]: "to_u32 (word_from v) = v"
  by (simp add: to_u32_def)

lemma digit_unique:
  "(a :: nat) < 256 \<Longrightarrow> b < 256 \<Longrightarrow> a + 256 * x = b + 256 * y \<Longrightarrow> a = b \<and> x = y"
  by (metis add_left_cancel div_mult_self2 mod_less mod_mult_self2 mult_left_cancel div_less zero_neq_numeral)

lemma bytes_unique:
  fixes a0 a1 a2 a3 b0 b1 b2 b3 :: nat
  assumes eq: "a0 + 256 * a1 + 65536 * a2 + 16777216 * a3 = b0 + 256 * b1 + 65536 * b2 + 16777216 * b3"
    and "a0 < 256" "a1 < 256" "a2 < 256" "b0 < 256" "b1 < 256" "b2 < 256"
  shows "a0 = b0 \<and> a1 = b1 \<and> a2 = b2 \<and> a3 = b3"
proof -
  have 0: "a0 = b0 \<and> a1 + 256 * (a2 + 256 * a3) = b1 + 256 * (b2 + 256 * b3)"
    by (rule digit_unique) (use assms in simp_all)
  then have 1: "a1 = b1 \<and> a2 + 256 * a3 = b2 + 256 * b3"
    by (intro digit_unique) (use assms in simp_all)
  then have "a2 = b2 \<and> a3 = b3" by (intro digit_unique) (use assms in simp_all)
  with 0 1 show ?thesis by simp
qed

lemma limb_number_inj:
  assumes "byte_word v" "byte_word w" "limb_number v = limb_number w"
  shows "limb_list v = limb_list w"
proof -
  have "canon (v 0) = canon (w 0) \<and> canon (v 1) = canon (w 1) \<and> canon (v 2) = canon (w 2) \<and> canon (v 3) = canon (w 3)"
    by (rule bytes_unique)
      (use assms(3) byte_word_canon [OF assms(1)] byte_word_canon [OF assms(2)] in \<open>auto simp: limb_number_def\<close>)
  then show ?thesis by (metis limb_list_def of_nat_canon)
qed

lemma limb_list_to_u32: "byte_word w \<Longrightarrow> limb_list (word_from (to_u32 w)) = limb_list w"
  by (rule limb_number_inj) (simp_all add: unat_to_u32)

lemma byte_at_to_u32:
  assumes "byte_word w"
  shows "from_canonical_u8 (byte_at (to_u32 w) 0) = w 0" "from_canonical_u8 (byte_at (to_u32 w) 1) = w 1"
    "from_canonical_u8 (byte_at (to_u32 w) 2) = w 2" "from_canonical_u8 (byte_at (to_u32 w) 3) = w 3"
  using limb_list_to_u32 [OF assms] by (simp_all add: limb_list_def word_from_def)

lemma sint_top_bit: "sint (w :: u32) = int (unat w) - 4294967296 * of_bool (bit w 31)"
proof -
  have "sint w = take_bit 32 (uint w) - 2 ^ 32 * of_bool (bit (uint w) 31)"
    using signed_take_bit_eq_take_bit_minus [of 31 "uint w"] by (simp add: sint_uint)
  moreover have "take_bit 32 (uint w) = uint w"
    using uint_lt2p [of w] by (simp add: take_bit_eq_mod)
  ultimately show ?thesis by (simp add: bit_uint_iff)
qed

lemma word_from_limbs:
  assumes "limb_list w = map from_canonical_u8 [p0, p1, p2, p3]"
  shows "byte_word w" "byte_at (to_u32 w) 0 = p0" "byte_at (to_u32 w) 1 = p1" "byte_at (to_u32 w) 2 = p2"
    "byte_at (to_u32 w) 3 = p3"
proof -
  show "byte_word w" using assms by (simp add: byte_word_def)
  then have "limb_list (word_from (to_u32 w) :: koala limbs) = map from_canonical_u8 [p0, p1, p2, p3]"
    using assms by (simp add: limb_list_to_u32)
  then show "byte_at (to_u32 w) 0 = p0" "byte_at (to_u32 w) 1 = p1" "byte_at (to_u32 w) 2 = p2" "byte_at (to_u32 w) 3 = p3"
    by (simp_all add: limb_list_def word_from_def)
qed

lemma byte_word_iff: "byte_word w \<longleftrightarrow> (\<exists>v. limb_list w = limb_list (word_from v))"
  by (metis byte_word_def byte_word_from limb_list_to_u32)

lemma limb_list_eqD:
  "limb_list v = limb_list w \<Longrightarrow> v 0 = w 0 \<and> v 1 = w 1 \<and> v 2 = w 2 \<and> v 3 = w 3"
  by (simp add: limb_list_def)

lemma limb_list_mk_word [simp]: "limb_list (mk_word x0 x1 x2 x3) = [x0, x1, x2, x3]"
  by (simp add: limb_list_def mk_word_def)

lemma limb_list_zero_word [simp]: "limb_list zero_word = [0, 0, 0, 0]"
  by (simp add: zero_word_def)

lemma limb_list_word_from_0: "limb_list (word_from 0) = [0, 0, 0, 0 :: koala]"
  by (simp add: limb_list_def word_from_def byte_at_def)

lemma byte_word_zero [simp]: "byte_word zero_word" "to_u32 zero_word = 0"
  by (simp_all add: byte_word_def) (simp add: to_u32_def limb_number_def zero_word_def mk_word_def canon_def zero_koala.rep_eq)

lemma u32_modulus: "(4294967296 :: u32) = 0"
  by simp

lemma koala_nat_eqI:
  "(of_nat x :: koala) = of_nat y \<Longrightarrow> x < 2130706433 \<Longrightarrow> y < 2130706433 \<Longrightarrow> x = y"
  by (simp add: of_nat_koala_inj)

lemma top_bit_field: "from_canonical_u8 (drop_bit 7 x AND 1) = (from_bool (bit x 7) :: koala)"
proof -
  have "drop_bit 7 x AND 1 = (of_bool (bit x 7) :: u8)" by (simp add: bit_iff_odd_drop_bit and_one_eq odd_iff_mod_2_eq_one mod2_eq_if)
  then show ?thesis by (simp add: from_bool_def from_canonical_u8_def)
qed

section \<open>Recorded byte lookups\<close>

record byte_lookup_event =
  bl_opcode :: byte_opcode
  bl_a1 :: u16
  bl_a2 :: u8
  bl_b :: u8
  bl_c :: u8

definition byte_lookup_event_new :: "byte_opcode \<Rightarrow> u16 \<Rightarrow> u8 \<Rightarrow> u8 \<Rightarrow> u8 \<Rightarrow> byte_lookup_event" where
  "byte_lookup_event_new op a1 a2 b c = \<lparr>bl_opcode = op, bl_a1 = a1, bl_a2 = a2, bl_b = b, bl_c = c\<rparr>"

definition add_u8_range_check :: "u8 \<Rightarrow> u8 \<Rightarrow> byte_lookup_event" where
  "add_u8_range_check a b = byte_lookup_event_new B_U8Range 0 0 a b"

definition add_u16_range_check :: "u16 \<Rightarrow> byte_lookup_event" where
  "add_u16_range_check a = byte_lookup_event_new B_U16Range a 0 0 0"

fun add_u8_range_checks :: "u8 list \<Rightarrow> byte_lookup_event list" where
  "add_u8_range_checks (x # y # xs) = add_u8_range_check x y # add_u8_range_checks xs"
| "add_u8_range_checks [x] = [add_u8_range_check x 0]"
| "add_u8_range_checks [] = []"

definition add_u16_range_checks :: "u16 list \<Rightarrow> byte_lookup_event list" where
  "add_u16_range_checks xs = map add_u16_range_check xs"

definition le_bytes :: "u32 \<Rightarrow> u8 list" where
  "le_bytes v = map (byte_at v) [0..<4]"

lemma le_bytes_eq: "le_bytes v = [byte_at v 0, byte_at v 1, byte_at v 2, byte_at v 3]"
  by (simp add: le_bytes_def upt_rec eval_nat_numeral)

lemma map_le_bytes [simp]: "map from_canonical_u8 (le_bytes v) = limb_list (word_from v)"
  by (simp add: le_bytes_eq limb_list_def word_from_def)

text \<open>The message a recorded lookup stands for, and the byte messages that a row sends.\<close>

definition byte_event_values :: "byte_lookup_event \<Rightarrow> koala list" where
  "byte_event_values e = [byte_opcode_as_field (bl_opcode e), of_nat (unat (bl_a1 e)), from_canonical_u8 (bl_a2 e),
     from_canonical_u8 (bl_b e), from_canonical_u8 (bl_c e)]"

lemma byte_event_values_u8 [simp]:
  "byte_event_values (byte_lookup_event_new op (ucast (a :: u8)) a2 b c) =
     [byte_opcode_as_field op, from_canonical_u8 a, from_canonical_u8 a2, from_canonical_u8 b, from_canonical_u8 c]"
proof -
  have "unat (ucast a :: u16) = unat a"
    using unat_byte_less [of a] by (simp add: unsigned_ucast_eq take_bit_eq_mod)
  then show ?thesis by (simp only: byte_event_values_def byte_lookup_event_new_def from_canonical_u8_def) simp
qed

fun byte_sends :: "koala air_op list \<Rightarrow> koala list list" where
  "byte_sends [] = []"
| "byte_sends (Send_Lookup l s # ops) =
     (if al_kind l = LK_Byte \<and> al_multiplicity l \<noteq> 0 then [al_values l] else []) @ byte_sends ops"
| "byte_sends (_ # ops) = byte_sends ops"

lemma byte_sends_append [simp]: "byte_sends (xs @ ys) = byte_sends xs @ byte_sends ys"
  by (induction xs rule: byte_sends.induct) simp_all

lemma byte_sends_simps [simp]:
  "byte_sends (assert_zero x) = []" "byte_sends (assert_eq x y) = []" "byte_sends (assert_bool x) = []"
  "byte_sends (assert_one x) = []" "byte_sends (receive_instruction v m) = []" "byte_sends (send_instruction v m) = []"
  "byte_sends (assert_word_eq l r) = []" "byte_sends (assert_word_zero l) = []"
  "byte_sends (send_alu_with_hi q a b c hi m) = []" "byte_sends (send_alu q a b c m) = []"
  "byte_sends (send_byte q x y z m) = (if m = 0 then [] else [[q, x, 0, y, z]])"
  "byte_sends (send_byte_pair q x y z w m) = (if m = 0 then [] else [[q, x, y, z, w]])"
  by (simp_all add: air_defs)

lemma byte_sends_when [simp]: "byte_sends (when_cond c ops) = byte_sends ops"
  unfolding when_cond_def by (induction ops rule: byte_sends.induct) simp_all

lemma byte_sends_range_checks:
  "m \<noteq> 0 \<Longrightarrow> byte_sends (slice_range_check_u8 (map from_canonical_u8 xs) m) = map byte_event_values (add_u8_range_checks xs)"
  by (induction xs rule: add_u8_range_checks.induct)
    (simp_all add: add_u8_range_check_def byte_lookup_event_new_def byte_event_values_def)

lemma byte_sends_range_checks_0 [simp]: "byte_sends (slice_range_check_u8 xs 0) = []"
  by (induction xs "0 :: koala" rule: slice_range_check_u8.induct) simp_all

lemma accepted_range_check [simp]:
  "accepted (slice_range_check_u8 xs m) \<longleftrightarrow> (m \<noteq> 0 \<longrightarrow> list_all is_byte xs)"
  by (induction xs m rule: slice_range_check_u8.induct) auto

lemma accepted_range_check_u16 [simp]:
  "accepted (slice_range_check_u16 xs m) \<longleftrightarrow> (m \<noteq> 0 \<longrightarrow> list_all (\<lambda>x. canon x < 65536) xs)"
  by (auto simp: slice_range_check_u16_def accepted_concat byte_table_u16 list_all_iff)

section \<open>Instruction messages\<close>

fun instruction_receives :: "koala air_op list \<Rightarrow> koala list list" where
  "instruction_receives [] = []"
| "instruction_receives (Receive_Lookup l s # ops) =
     (if al_kind l = LK_Instruction \<and> al_multiplicity l \<noteq> 0 then [al_values l] else []) @ instruction_receives ops"
| "instruction_receives (_ # ops) = instruction_receives ops"

fun instruction_sends :: "koala air_op list \<Rightarrow> koala list list" where
  "instruction_sends [] = []"
| "instruction_sends (Send_Lookup l s # ops) =
     (if al_kind l = LK_Instruction \<and> al_multiplicity l \<noteq> 0 then [al_values l] else []) @ instruction_sends ops"
| "instruction_sends (_ # ops) = instruction_sends ops"

lemma instruction_receives_append [simp]:
  "instruction_receives (xs @ ys) = instruction_receives xs @ instruction_receives ys"
  by (induction xs rule: instruction_receives.induct) simp_all

lemma instruction_sends_append [simp]: "instruction_sends (xs @ ys) = instruction_sends xs @ instruction_sends ys"
  by (induction xs rule: instruction_sends.induct) simp_all

lemma instruction_receives_simps [simp]:
  "instruction_receives (assert_zero x) = []" "instruction_receives (assert_eq x y) = []" "instruction_receives (assert_bool x) = []"
  "instruction_receives (assert_one x) = []" "instruction_receives (send_instruction v m) = []"
  "instruction_receives (assert_word_eq l r) = []" "instruction_receives (assert_word_zero l) = []"
  "instruction_receives (send_alu_with_hi q a b c hi m) = []" "instruction_receives (send_alu q a b c m) = []"
  "instruction_receives (send_byte q x y z m) = []" "instruction_receives (send_byte_pair q x y z w m) = []"
  "instruction_receives (receive_instruction v m) = (if m = 0 then [] else [v])"
  by (simp_all add: air_defs)

lemma instruction_receives_when [simp]: "instruction_receives (when_cond c ops) = instruction_receives ops"
  unfolding when_cond_def by (induction ops rule: instruction_receives.induct) simp_all

lemma instruction_receives_range [simp]:
  "instruction_receives (slice_range_check_u8 xs m) = []" "instruction_receives (slice_range_check_u16 xs m) = []"
  by (induction xs m rule: slice_range_check_u8.induct) (simp_all, induction xs, simp_all add: slice_range_check_u16_def)

lemma instruction_sends_simps [simp]:
  "instruction_sends (assert_zero x) = []" "instruction_sends (assert_eq x y) = []" "instruction_sends (assert_bool x) = []"
  "instruction_sends (assert_one x) = []" "instruction_sends (receive_instruction v m) = []"
  "instruction_sends (assert_word_eq l r) = []" "instruction_sends (assert_word_zero l) = []"
  "instruction_sends (send_byte q x y z m) = []" "instruction_sends (send_byte_pair q x y z w m) = []"
  "instruction_sends (send_instruction v m) = (if m = 0 then [] else [v])"
  by (simp_all add: air_defs)

lemma instruction_sends_when [simp]: "instruction_sends (when_cond c ops) = instruction_sends ops"
  unfolding when_cond_def by (induction ops rule: instruction_sends.induct) simp_all

lemma instruction_sends_range [simp]:
  "instruction_sends (slice_range_check_u8 xs m) = []" "instruction_sends (slice_range_check_u16 xs m) = []"
  by (induction xs m rule: slice_range_check_u8.induct) (simp_all, induction xs, simp_all add: slice_range_check_u16_def)

definition message_opcode :: "koala list \<Rightarrow> koala" where "message_opcode vals = vals ! 6"
definition message_a :: "koala list \<Rightarrow> koala list" where "message_a vals = take 4 (drop 7 vals)"
definition message_b :: "koala list \<Rightarrow> koala list" where "message_b vals = take 4 (drop 11 vals)"
definition message_c :: "koala list \<Rightarrow> koala list" where "message_c vals = take 4 (drop 15 vals)"
definition message_hi :: "koala list \<Rightarrow> koala list" where "message_hi vals = take 4 (drop 19 vals)"

text \<open>What an arithmetic message may claim: the executor's result, or, for the one signed division the executor
  cannot perform, the wrapped quotient and remainder.\<close>

definition alu_computes :: "opcode \<Rightarrow> u32 \<Rightarrow> u32 \<Rightarrow> u32 \<Rightarrow> u32 \<Rightarrow> bool" where
  "alu_computes op b c a hi \<longleftrightarrow> alu_op op b c = Inr (a, hi) \<or>
     sdiv_overflow b c \<and> hi = 0 \<and> (op = Op_DIV \<and> a = b \<or> op = Op_MOD \<and> a = 0)"

definition alu_message_valid :: "koala list \<Rightarrow> bool" where
  "alu_message_valid vals \<longleftrightarrow>
     (\<exists>op a b c hi. message_opcode vals = opcode_as_field op \<and>
        message_a vals = limb_list (word_from a) \<and> message_b vals = limb_list (word_from b) \<and>
        message_c vals = limb_list (word_from c) \<and> message_hi vals = limb_list (word_from hi) \<and>
        alu_computes op b c a hi)"

definition byte_operands :: "koala list \<Rightarrow> bool" where
  "byte_operands vals \<longleftrightarrow> list_all is_byte (message_b vals) \<and> list_all is_byte (message_c vals)"

text \<open>
  The operands a chip may rely on. The bitwise and addition chips check the limbs they receive; the shift chips
  check the low limb of the shift amount; the others are sent bytes.
\<close>

definition operands_ok :: "koala list \<Rightarrow> bool" where
  "operands_ok vals \<longleftrightarrow>
     message_opcode vals \<in> opcode_as_field ` {Op_ADD, Op_SUB, Op_AND, Op_OR, Op_XOR, Op_NOR} \<or>
     list_all is_byte (message_b vals) \<and> list_all is_byte (tl (message_c vals)) \<and>
     (message_opcode vals \<in> opcode_as_field ` {Op_SLL, Op_SRL, Op_SRA, Op_ROR} \<or> is_byte (hd (message_c vals)))"

lemma message_simps [simp]:
  "message_opcode (instruction_values s k p q r x opc a b c hi f1 f2 f3 f4 f5) = opc"
  "message_a (instruction_values s k p q r x opc a b c hi f1 f2 f3 f4 f5) = limb_list a"
  "message_b (instruction_values s k p q r x opc a b c hi f1 f2 f3 f4 f5) = limb_list b"
  "message_c (instruction_values s k p q r x opc a b c hi f1 f2 f3 f4 f5) = limb_list c"
  "message_hi (instruction_values s k p q r x opc a b c hi f1 f2 f3 f4 f5) = limb_list hi"
  by (simp_all add: message_opcode_def message_a_def message_b_def message_c_def message_hi_def
      instruction_values_def limb_list_def)

lemma byte_operands_iff [simp]:
  "byte_operands (instruction_values s k p q r x opc a b c hi f1 f2 f3 f4 f5) \<longleftrightarrow> byte_word b \<and> byte_word c"
  by (simp add: byte_operands_def byte_word_def)

lemma opcode_as_field_inj [simp]: "(opcode_as_field op :: koala) = opcode_as_field op' \<longleftrightarrow> op = op'"
  by (simp add: opcode_as_field_def opcode_repr_inject)

lemma operands_ok_iff:
  "operands_ok (instruction_values s k p q r x (opcode_as_field op) a b c hi f1 f2 f3 f4 f5) \<longleftrightarrow>
     op \<in> {Op_ADD, Op_SUB, Op_AND, Op_OR, Op_XOR, Op_NOR} \<or>
     byte_word b \<and> is_byte (c 1) \<and> is_byte (c 2) \<and> is_byte (c 3) \<and> (op \<in> {Op_SLL, Op_SRL, Op_SRA, Op_ROR} \<or> is_byte (c 0))"
  by (auto simp: operands_ok_def byte_word_def limb_list_def)

lemma operands_okD:
  assumes "operands_ok (instruction_values s k p q r x opc a b c hi f1 f2 f3 f4 f5)" "opc = opcode_as_field op"
    "op \<notin> {Op_ADD, Op_SUB, Op_AND, Op_OR, Op_XOR, Op_NOR}" "op \<in> {Op_SLL, Op_SRL, Op_SRA, Op_ROR} \<Longrightarrow> is_byte (c 0)"
  shows "byte_word b" "byte_word c"
  using assms(1) [unfolded assms(2) operands_ok_iff] assms(3,4) by (auto simp: byte_word_def limb_list_def)

lemma alu_message_validI:
  assumes "opc = opcode_as_field op" "byte_word a" "byte_word b" "byte_word c" "byte_word hi"
    and "alu_computes op (to_u32 b) (to_u32 c) (to_u32 a) (to_u32 hi)"
  shows "alu_message_valid (instruction_values s k p q r x opc a b c hi f1 f2 f3 f4 f5)"
  unfolding alu_message_valid_def
  by (rule exI [of _ op], rule exI [of _ "to_u32 a"], rule exI [of _ "to_u32 b"], rule exI [of _ "to_u32 c"],
      rule exI [of _ "to_u32 hi"]) (use assms in \<open>simp add: limb_list_to_u32\<close>)

lemma alu_message_validD:
  assumes "alu_message_valid (instruction_values s k p q r x (opcode_as_field op) a b c hi f1 f2 f3 f4 f5)"
  shows "byte_word a" "byte_word b" "byte_word c" "byte_word hi" "alu_computes op (to_u32 b) (to_u32 c) (to_u32 a) (to_u32 hi)"
proof -
  obtain A B C H where m: "limb_list a = limb_list (word_from A)" "limb_list b = limb_list (word_from B)"
    "limb_list c = limb_list (word_from C)" "limb_list hi = limb_list (word_from H)" "alu_computes op B C A H"
    using assms by (auto simp: alu_message_valid_def)
  have *: "to_u32 w = W" if "limb_list w = limb_list (word_from W)" for w W
    using limb_list_eqD [OF that] limb_number_word_from [of W] by (simp add: to_u32_def limb_number_def)
  show "byte_word a" "byte_word b" "byte_word c" "byte_word hi" using m byte_word_iff by blast+
  show "alu_computes op (to_u32 b) (to_u32 c) (to_u32 a) (to_u32 hi)" using m(5) by (simp add: * m(1-4))
qed

lemma alu_computesI: "alu_op op b c = Inr (a, hi) \<Longrightarrow> alu_computes op b c a hi"
  by (simp add: alu_computes_def)

end
