(* ===== verification/Alu_Chip.thy ===== *)
theory Alu_Chip
  imports Air_Words "HOL-Library.Multiset"
begin

text \<open>
  The contract of a chip that receives instructions, as the locale \<open>instruction_chip\<close>: an accepted row receives only
  messages that are correct in the sense of \<open>good\<close>, given that the arithmetic messages the row sends itself are; the
  row generated for a valid event is accepted, receives the message of the event, sends the instruction messages the event depends
  on and exactly the byte messages that the trace generator recorded; the padding row is accepted and silent. The
  trace of a chip is the rows of its events followed by padding (\<open>generate_trace\<close> of the chips), and the recorded
  byte lookups are those of \<open>generate_dependencies\<close>. An arithmetic chip (\<open>alu_chip\<close>) receives messages that carry
  a result of the executor's ALU.
\<close>

definition alu_event_message :: "alu_event \<Rightarrow> koala list" where
  "alu_event_message e =
     instruction_values 0 0 (from_canonical_u32 (alu_pc e)) (from_canonical_u32 (alu_next_pc e))
       (from_canonical_u32 (alu_next_pc e) + 4) 0 (opcode_as_field (alu_opcode e)) (word_from (alu_a e))
       (word_from (alu_b e)) (word_from (alu_c e)) zero_word 0 0 0 0 1"

definition chip_trace :: "('e \<Rightarrow> 'r \<times> byte_lookup_event list) \<Rightarrow> 'r \<Rightarrow> 'e list \<Rightarrow> nat \<Rightarrow> 'r list" where
  "chip_trace to_row padding events padded_nb_rows =
     map (fst \<circ> to_row) events @ replicate (padded_nb_rows - length events) padding"

definition chip_dependencies :: "('e \<Rightarrow> 'r \<times> byte_lookup_event list) \<Rightarrow> 'e list \<Rightarrow> byte_lookup_event list" where
  "chip_dependencies to_row events = concat (map (snd \<circ> to_row) events)"

locale instruction_chip =
  fixes eval :: "'r \<Rightarrow> koala air_op list"
    and to_row :: "'e \<Rightarrow> 'r \<times> byte_lookup_event list"
    and padding :: 'r
    and valid :: "'e \<Rightarrow> bool"
    and message :: "'e \<Rightarrow> koala list"
    and deps :: "'e \<Rightarrow> koala list multiset"
    and good :: "koala list \<Rightarrow> bool"
  assumes sound: "accepted (eval r) \<Longrightarrow> list_all (\<lambda>s. operands_ok s \<longrightarrow> alu_message_valid s) (instruction_sends (eval r)) \<Longrightarrow>
      m \<in> set (instruction_receives (eval r)) \<Longrightarrow> operands_ok m \<Longrightarrow> good m"
    and complete: "valid e \<Longrightarrow> accepted (eval (fst (to_row e))) \<and>
      instruction_receives (eval (fst (to_row e))) = [message e] \<and>
      mset (instruction_sends (eval (fst (to_row e)))) = deps e \<and>
      mset (byte_sends (eval (fst (to_row e)))) = mset (map byte_event_values (snd (to_row e)))"
    and padding: "accepted (eval padding)" "instruction_receives (eval padding) = []"
      "instruction_sends (eval padding) = []" "byte_sends (eval padding) = []"
begin

lemma trace_accepted:
  assumes "list_all valid events"
  shows "list_all (\<lambda>r. accepted (eval r)) (chip_trace to_row padding events n)"
  using assms complete padding(1) by (auto simp: chip_trace_def list_all_iff)

lemma trace_receives:
  assumes "list_all valid events"
  shows "concat (map (instruction_receives \<circ> eval) (chip_trace to_row padding events n)) = map message events"
proof -
  have "concat (map (instruction_receives \<circ> eval \<circ> (fst \<circ> to_row)) es) = map message es" if "list_all valid es" for es
    using that by (induction es) (simp_all add: complete)
  then show ?thesis using assms by (simp add: chip_trace_def map_replicate padding)
qed

lemma trace_sends:
  assumes "list_all valid events"
  shows "mset (concat (map (instruction_sends \<circ> eval) (chip_trace to_row padding events n))) = sum_list (map deps events)"
proof -
  have "mset (concat (map (instruction_sends \<circ> eval \<circ> (fst \<circ> to_row)) es)) = sum_list (map deps es)"
    if "list_all valid es" for es
    using that by (induction es) (simp_all add: complete)
  then show ?thesis using assms by (simp add: chip_trace_def map_replicate padding)
qed

lemma trace_byte_lookups:
  assumes "list_all valid events"
  shows "mset (concat (map (byte_sends \<circ> eval) (chip_trace to_row padding events n))) =
    mset (map byte_event_values (chip_dependencies to_row events))"
proof -
  have "mset (concat (map (byte_sends \<circ> eval \<circ> (fst \<circ> to_row)) es)) =
      mset (map byte_event_values (concat (map (snd \<circ> to_row) es)))" if "list_all valid es" for es
    using that by (induction es) (simp_all add: complete)
  then show ?thesis using assms by (simp add: chip_trace_def chip_dependencies_def map_replicate padding)
qed

end

locale alu_chip = instruction_chip eval to_row padding valid message deps alu_message_valid
  for eval :: "'r \<Rightarrow> koala air_op list" and to_row :: "'e \<Rightarrow> 'r \<times> byte_lookup_event list" and padding :: 'r
    and valid :: "'e \<Rightarrow> bool" and message :: "'e \<Rightarrow> koala list" and deps :: "'e \<Rightarrow> koala list multiset"

end
