(* ===== verification/Add_Sub_Chip.thy ===== *)
theory Add_Sub_Chip
  imports Alu_Chip
begin

text \<open>
  The addition operation (\<^verbatim>\<open>crates/core/machine/src/operations/add.rs\<close>) and the chip for \<open>ADD\<close> and \<open>SUB\<close>
  (\<^verbatim>\<open>alu/add_sub/mod.rs\<close>). A subtraction a = b - c is proved as the addition b = a + c.
\<close>

unbundle bit_operations_syntax

section \<open>Addition\<close>

record 'f add_operation =
  ao_value :: "'f limbs"
  ao_carry :: "'f limbs"

definition add_operation_populate :: "u32 \<Rightarrow> u32 \<Rightarrow> 'f::field add_operation \<times> byte_lookup_event list" where
  "add_operation_populate a_u32 b_u32 =
     (let expected = a_u32 + b_u32;
          a = (\<lambda>i. unat (byte_at a_u32 i)); b = (\<lambda>i. unat (byte_at b_u32 i));
          carry0 = (if a 0 + b 0 > 255 then 1 else 0 :: nat);
          carry1 = (if a 1 + b 1 + carry0 > 255 then 1 else 0);
          carry2 = (if a 2 + b 2 + carry1 > 255 then 1 else 0) in
      (\<lparr>ao_value = word_from expected, ao_carry = (\<lambda>i. of_nat (if i = 0 then carry0 else if i = 1 then carry1 else carry2))\<rparr>,
       add_u8_range_checks (le_bytes a_u32) @ add_u8_range_checks (le_bytes b_u32)
         @ add_u8_range_checks (le_bytes expected)))"

definition add_operation_eval ::
    "'f::field limbs \<Rightarrow> 'f limbs \<Rightarrow> 'f add_operation \<Rightarrow> 'f \<Rightarrow> 'f air_op list" where
  "add_operation_eval a b cols is_real =
     (let value = ao_value cols; carry = ao_carry cols;
          overflow_0 = a 0 + b 0 - value 0;
          overflow_1 = a 1 + b 1 - value 1 + carry 0;
          overflow_2 = a 2 + b 2 - value 2 + carry 1;
          overflow_3 = a 3 + b 3 - value 3 + carry 2 in
      when_cond is_real
        (assert_zero (overflow_3 * (overflow_3 - 256))
         @ assert_zero (carry 0 * (overflow_0 - 256))
         @ assert_zero (carry 1 * (overflow_1 - 256))
         @ assert_zero (carry 2 * (overflow_2 - 256))
         @ assert_zero ((carry 0 - 1) * overflow_0)
         @ assert_zero ((carry 1 - 1) * overflow_1)
         @ assert_zero ((carry 2 - 1) * overflow_2)
         @ assert_bool (carry 0) @ assert_bool (carry 1) @ assert_bool (carry 2) @ assert_bool is_real)
      @ slice_range_check_u8 (limb_list a) is_real
      @ slice_range_check_u8 (limb_list b) is_real
      @ slice_range_check_u8 (limb_list value) is_real)"

section \<open>The chip\<close>

record 'f add_sub_cols =
  asc_pc :: 'f
  asc_next_pc :: 'f
  asc_add_operation :: "'f add_operation"
  asc_operand_1 :: "'f limbs"
  asc_operand_2 :: "'f limbs"
  asc_is_add :: 'f
  asc_is_sub :: 'f

definition add_sub_event_to_row :: "alu_event \<Rightarrow> 'f::field add_sub_cols \<times> byte_lookup_event list" where
  "add_sub_event_to_row event =
     (let is_add = (alu_opcode event = Op_ADD);
          operand_1 = (if is_add then alu_b event else alu_a event);
          operand_2 = alu_c event;
          (add_operation, blu) = add_operation_populate operand_1 operand_2 in
      (\<lparr>asc_pc = from_canonical_u32 (alu_pc event), asc_next_pc = from_canonical_u32 (alu_next_pc event),
        asc_add_operation = add_operation, asc_operand_1 = word_from operand_1, asc_operand_2 = word_from operand_2,
        asc_is_add = from_bool is_add, asc_is_sub = from_bool (alu_opcode event = Op_SUB)\<rparr>, blu))"

definition add_sub_padding :: "'f::field add_sub_cols" where
  "add_sub_padding = \<lparr>asc_pc = 0, asc_next_pc = 0, asc_add_operation = \<lparr>ao_value = zero_word, ao_carry = zero_word\<rparr>,
     asc_operand_1 = zero_word, asc_operand_2 = zero_word, asc_is_add = 0, asc_is_sub = 0\<rparr>"

definition add_sub_eval :: "'f::field add_sub_cols \<Rightarrow> 'f air_op list" where
  "add_sub_eval local =
     add_operation_eval (asc_operand_1 local) (asc_operand_2 local) (asc_add_operation local)
       (asc_is_add local + asc_is_sub local)
     @ receive_instruction
         (instruction_values 0 0 (asc_pc local) (asc_next_pc local) (asc_next_pc local + 4) 0 (opcode_as_field Op_ADD)
            (ao_value (asc_add_operation local)) (asc_operand_1 local) (asc_operand_2 local) zero_word 0 0 0 0 1)
         (asc_is_add local)
     @ receive_instruction
         (instruction_values 0 0 (asc_pc local) (asc_next_pc local) (asc_next_pc local + 4) 0 (opcode_as_field Op_SUB)
            (asc_operand_1 local) (ao_value (asc_add_operation local)) (asc_operand_2 local) zero_word 0 0 0 0 1)
         (asc_is_sub local)
     @ assert_bool (asc_is_add local) @ assert_bool (asc_is_sub local)
     @ assert_bool (asc_is_add local + asc_is_sub local)"

section \<open>Soundness\<close>

lemma carry_step:
  assumes "(carry :: koala) = 0 \<or> carry = 1" "carry = 0 \<or> overflow = 256" "carry = 1 \<or> overflow = 0"
  shows "overflow = 256 * carry"
  using assms by auto

lemma carry_canon: "(carry :: koala) = 0 \<or> carry = 1 \<Longrightarrow> canon carry \<le> 1"
  using canon_of_nat [of 0] canon_of_nat [of 1] by auto

lemma add_limb:
  assumes "is_byte a" "is_byte b" "is_byte v" "c = 0 \<or> c = 1" "c' = 0 \<or> c' = 1" and eq: "a + b - v + c = 256 * c'"
  shows "canon a + canon b + canon c = canon v + 256 * canon c'"
proof (rule koala_nat_eqI)
  show "(of_nat (canon a + canon b + canon c) :: koala) = of_nat (canon v + 256 * canon c')"
    using eq by (simp add: algebra_simps)
  show "canon a + canon b + canon c < 2130706433" "canon v + 256 * canon c' < 2130706433"
    using assms(1-3) carry_canon [OF assms(4)] carry_canon [OF assms(5)] by (simp_all add: is_byte_def)
qed

lemma add_operation_sound:
  assumes acc: "accepted (add_operation_eval a b cols is_real)" and real: "is_real = 1"
  shows "byte_word a \<and> byte_word b \<and> byte_word (ao_value cols) \<and> to_u32 (ao_value cols) = to_u32 a + to_u32 b"
proof -
  note acc = acc [unfolded add_operation_eval_def Let_def real, simplified]
  let ?v = "ao_value cols" and ?c = "ao_carry cols"
  have bytes: "byte_word a" "byte_word b" "byte_word ?v" using acc by (simp_all add: byte_word_def)
  have bool: "?c 0 = 0 \<or> ?c 0 = 1" "?c 1 = 0 \<or> ?c 1 = 1" "?c 2 = 0 \<or> ?c 2 = 1" using acc by auto
  let ?o3 = "a 3 + b 3 - ?v 3 + ?c 2"
  have o3: "?o3 = 0 \<or> ?o3 = 256" using acc by auto
  define c3 :: koala where "c3 = (if ?o3 = 0 then 0 else 1)"
  have step0: "a 0 + b 0 - ?v 0 + 0 = 256 * ?c 0"
    using carry_step [OF bool(1), of "a 0 + b 0 - ?v 0"] acc by auto
  have step1: "a 1 + b 1 - ?v 1 + ?c 0 = 256 * ?c 1"
    using carry_step [OF bool(2), of "a 1 + b 1 - ?v 1 + ?c 0"] acc by auto
  have step2: "a 2 + b 2 - ?v 2 + ?c 1 = 256 * ?c 2"
    using carry_step [OF bool(3), of "a 2 + b 2 - ?v 2 + ?c 1"] acc by auto
  have step3: "?o3 = 256 * c3" "c3 = 0 \<or> c3 = 1" using o3 by (auto simp: c3_def)
  note B = byte_wordD [OF bytes(1)] byte_wordD [OF bytes(2)] byte_wordD [OF bytes(3)]
  have "limb_number a + limb_number b = limb_number ?v + 4294967296 * canon c3"
    using add_limb [of "a 0" "b 0" "?v 0" 0 "?c 0"] add_limb [of "a 1" "b 1" "?v 1" "?c 0" "?c 1"]
      add_limb [of "a 2" "b 2" "?v 2" "?c 1" "?c 2"] add_limb [of "a 3" "b 3" "?v 3" "?c 2" c3]
      B bool step0 step1 step2 step3 canon_of_nat [of 0]
    by (simp add: limb_number_def)
  then have "(of_nat (limb_number a + limb_number b) :: u32) = of_nat (limb_number ?v + 4294967296 * canon c3)"
    by (simp only:)
  then have "to_u32 a + to_u32 b = to_u32 ?v" by (simp add: to_u32_def u32_modulus)
  then show ?thesis using bytes by simp
qed

lemma alu_op_add_sub: "alu_op Op_ADD b c = Inr (b + c, 0)" "alu_op Op_SUB b c = Inr (b - c, 0)"
  by (simp_all add: alu_op_def alu_result_def)

lemma add_operation_no_message:
  "instruction_receives (add_operation_eval a b cols r) = []" "instruction_sends (add_operation_eval a b cols r) = []"
  by (simp_all add: add_operation_eval_def Let_def)

lemma add_sub_sound:
  assumes "accepted (add_sub_eval row)" "m \<in> set (instruction_receives (add_sub_eval row))"
  shows "alu_message_valid m"
proof -
  note acc = assms(1) [unfolded add_sub_eval_def, simplified]
  have real: "asc_is_add row + asc_is_sub row = 0 \<or> asc_is_add row + asc_is_sub row = 1"
    and flags: "asc_is_add row = 0 \<or> asc_is_add row = 1" "asc_is_sub row = 0 \<or> asc_is_sub row = 1"
    using acc by auto
  have m: "(m = instruction_values 0 0 (asc_pc row) (asc_next_pc row) (asc_next_pc row + 4) 0 (opcode_as_field Op_ADD)
            (ao_value (asc_add_operation row)) (asc_operand_1 row) (asc_operand_2 row) zero_word 0 0 0 0 1 \<or>
      m = instruction_values 0 0 (asc_pc row) (asc_next_pc row) (asc_next_pc row + 4) 0 (opcode_as_field Op_SUB)
            (asc_operand_1 row) (ao_value (asc_add_operation row)) (asc_operand_2 row) zero_word 0 0 0 0 1)
      \<and> (asc_is_add row \<noteq> 0 \<or> asc_is_sub row \<noteq> 0)"
    using assms(2) by (auto simp: add_sub_eval_def add_operation_no_message split: if_splits)
  then have "asc_is_add row + asc_is_sub row = 1" using real flags by auto
  note sound = add_operation_sound [OF conjunct1 [OF acc] this]
  from m show ?thesis
  proof (elim conjE disjE)
    assume "m = instruction_values 0 0 (asc_pc row) (asc_next_pc row) (asc_next_pc row + 4) 0 (opcode_as_field Op_ADD)
            (ao_value (asc_add_operation row)) (asc_operand_1 row) (asc_operand_2 row) zero_word 0 0 0 0 1"
    then show ?thesis using sound
      by (auto intro!: alu_message_validI alu_computesI simp: alu_op_add_sub)
  qed (use sound in \<open>auto intro!: alu_message_validI alu_computesI simp: alu_op_add_sub\<close>)
qed

section \<open>Completeness\<close>

lemma carry_chain:
  fixes s0 s1 s2 s3 :: nat
  assumes "s1 \<equiv> x1 + s0 div 256" "s2 \<equiv> x2 + s1 div 256" "s3 \<equiv> x3 + s2 div 256"
  shows "s0 + 256 * x1 + 65536 * x2 + 16777216 * x3 =
     s0 mod 256 + 256 * (s1 mod 256) + 65536 * (s2 mod 256) + 16777216 * (s3 mod 256) + 4294967296 * (s3 div 256)"
proof -
  have "s1 = x1 + s0 div 256" "s2 = x2 + s1 div 256" "s3 = x3 + s2 div 256" using assms by simp_all
  then show ?thesis
    using div_mult_mod_eq [of s0 256] div_mult_mod_eq [of s1 256] div_mult_mod_eq [of s2 256]
      div_mult_mod_eq [of s3 256] by linarith
qed

lemma add_bytes:
  fixes x y :: u32
  defines "s0 \<equiv> unat (byte_at x 0) + unat (byte_at y 0)"
  defines "s1 \<equiv> unat (byte_at x 1) + unat (byte_at y 1) + s0 div 256"
  defines "s2 \<equiv> unat (byte_at x 2) + unat (byte_at y 2) + s1 div 256"
  defines "s3 \<equiv> unat (byte_at x 3) + unat (byte_at y 3) + s2 div 256"
  shows "unat (byte_at (x + y) 0) = s0 mod 256 \<and> unat (byte_at (x + y) 1) = s1 mod 256 \<and>
     unat (byte_at (x + y) 2) = s2 mod 256 \<and> unat (byte_at (x + y) 3) = s3 mod 256"
proof (rule bytes_unique)
  define v where "v = s0 mod 256 + 256 * (s1 mod 256) + 65536 * (s2 mod 256) + 16777216 * (s3 mod 256)"
  have v: "v < 4294967296" unfolding v_def
    using mod_less_divisor [of 256 s0] mod_less_divisor [of 256 s1] mod_less_divisor [of 256 s2]
      mod_less_divisor [of 256 s3] by simp
  have "unat x + unat y = s0 + 256 * (unat (byte_at x 1) + unat (byte_at y 1))
      + 65536 * (unat (byte_at x 2) + unat (byte_at y 2)) + 16777216 * (unat (byte_at x 3) + unat (byte_at y 3))"
    using limb_number_word_from [of x] limb_number_word_from [of y]
    by (simp add: limb_number_def word_from_def s0_def)
  also have "\<dots> = v + 4294967296 * (s3 div 256)"
    unfolding v_def by (rule carry_chain [OF s1_def s2_def s3_def])
  finally have "unat x + unat y = v + 4294967296 * (s3 div 256)" .
  then have "unat (x + y) = v" using v by (simp add: unat_word_ariths)
  then show "unat (byte_at (x + y) 0) + 256 * unat (byte_at (x + y) 1) + 65536 * unat (byte_at (x + y) 2)
      + 16777216 * unat (byte_at (x + y) 3)
    = s0 mod 256 + 256 * (s1 mod 256) + 65536 * (s2 mod 256) + 16777216 * (s3 mod 256)"
    using limb_number_word_from [of "x + y"] by (simp add: v_def limb_number_def word_from_def)
qed (use unat_byte_less in auto)

lemma add_limb_complete:
  assumes "v = s mod 256" "s < 512"
  shows "(of_nat s - of_nat v :: koala) = 256 * of_nat (if s > 255 then 1 else 0)"
proof -
  have "s = v + 256 * (if s > 255 then 1 else 0)" using assms by (cases "s > 255") (auto simp: mod_if)
  then have "(of_nat s :: koala) = of_nat (v + 256 * (if s > 255 then 1 else 0))" by simp
  then show ?thesis by simp
qed

lemma carry_eq_div: "s < 512 \<Longrightarrow> (if s > 255 then 1 else 0) = (s :: nat) div 256"
  by (auto simp: div_if)

lemma add_operation_complete:
  fixes cols :: "koala add_operation"
  assumes "add_operation_populate x y = (cols, blu)"
  shows "accepted (add_operation_eval (word_from x) (word_from y) cols 1)"
    and "byte_sends (add_operation_eval (word_from x) (word_from y) cols 1) = map byte_event_values blu"
    and "ao_value cols = word_from (x + y)"
proof -
  define X Y V where "X i = unat (byte_at x i)" and "Y i = unat (byte_at y i)" and "V i = unat (byte_at (x + y) i)" for i
  define s0 where "s0 = X 0 + Y 0"
  define s1 where "s1 = X 1 + Y 1 + s0 div 256"
  define s2 where "s2 = X 2 + Y 2 + s1 div 256"
  define s3 where "s3 = X 3 + Y 3 + s2 div 256"
  have less: "X i < 256" "Y i < 256" for i using unat_byte_less by (auto simp: X_def Y_def)
  have s0: "s0 < 512" using less [of 0] by (simp add: s0_def)
  have s1: "s1 < 512" using less [of 1] s0 by (simp add: s1_def)
  have s2: "s2 < 512" using less [of 2] s1 by (simp add: s2_def)
  have s3: "s3 < 512" using less [of 3] s2 by (simp add: s3_def)
  have V: "V 0 = s0 mod 256" "V 1 = s1 mod 256" "V 2 = s2 mod 256" "V 3 = s3 mod 256"
    using add_bytes [of x y] by (simp_all add: V_def s3_def s2_def s1_def s0_def X_def Y_def)
  have cols: "ao_value cols = word_from (x + y)"
    "ao_carry cols 0 = of_nat (s0 div 256)" "ao_carry cols 1 = of_nat (s1 div 256)" "ao_carry cols 2 = of_nat (s2 div 256)"
    "blu = add_u8_range_checks (le_bytes x) @ add_u8_range_checks (le_bytes y) @ add_u8_range_checks (le_bytes (x + y))"
    using assms carry_eq_div [OF s0, unfolded s0_def] carry_eq_div [OF s1, unfolded s1_def]
      carry_eq_div [OF s2, unfolded s2_def]
    unfolding add_operation_populate_def Let_def X_def [symmetric] Y_def [symmetric]
    by (auto simp: s0_def [symmetric] s1_def [symmetric] s2_def [symmetric] simp del: One_nat_def)
  show "ao_value cols = word_from (x + y)" by (rule cols)
  have w: "word_from x i = (of_nat (X i) :: koala)" "word_from y i = (of_nat (Y i) :: koala)"
    "word_from (x + y) i = (of_nat (V i) :: koala)" for i
    by (simp_all only: word_from_def from_canonical_u8_def X_def Y_def V_def)
  have o: "of_nat (X 0) + of_nat (Y 0) - of_nat (V 0) = (256 * of_nat (s0 div 256) :: koala)"
    "of_nat (X 1) + of_nat (Y 1) - of_nat (V 1) + of_nat (s0 div 256) = (256 * of_nat (s1 div 256) :: koala)"
    "of_nat (X 2) + of_nat (Y 2) - of_nat (V 2) + of_nat (s1 div 256) = (256 * of_nat (s2 div 256) :: koala)"
    "of_nat (X 3) + of_nat (Y 3) - of_nat (V 3) + of_nat (s2 div 256) = (256 * of_nat (s3 div 256) :: koala)"
    using add_limb_complete [OF V(1) s0] add_limb_complete [OF V(2) s1] add_limb_complete [OF V(3) s2]
      add_limb_complete [OF V(4) s3]
    unfolding carry_eq_div [OF s0] carry_eq_div [OF s1] carry_eq_div [OF s2] carry_eq_div [OF s3]
    by (simp_all add: s0_def s1_def s2_def s3_def diff_add_eq)
  have bool: "s0 div 256 = 0 \<or> s0 div 256 = 1" "s1 div 256 = 0 \<or> s1 div 256 = 1" "s2 div 256 = 0 \<or> s2 div 256 = 1"
    "s3 div 256 = 0 \<or> s3 div 256 = 1"
    using s0 s1 s2 s3 by auto
  have B: "is_byte (of_nat (X i))" "is_byte (of_nat (Y i))" "is_byte (of_nat (V i))" for i
    by (metis w is_byte_u8 word_from_def)+
  show "accepted (add_operation_eval (word_from x) (word_from y) cols 1)"
    unfolding add_operation_eval_def Let_def cols w o
    using bool B by (auto simp: limb_list_def)
  show "byte_sends (add_operation_eval (word_from x) (word_from y) cols 1) = map byte_event_values blu"
    unfolding add_operation_eval_def Let_def cols
    by (simp add: byte_sends_range_checks flip: map_le_bytes)
qed

lemma add_sub_complete:
  assumes "valid_alu e" "alu_opcode e \<in> {Op_ADD, Op_SUB}" "add_sub_event_to_row e = (row, blu)"
  shows "accepted (add_sub_eval row) \<and> instruction_receives (add_sub_eval row) = [alu_event_message e] \<and>
    byte_sends (add_sub_eval row) = map byte_event_values blu"
proof -
  define x where "x = (if alu_opcode e = Op_ADD then alu_b e else alu_a e)"
  obtain ao blu' where ao: "add_operation_populate x (alu_c e) = (ao :: koala add_operation, blu')" by fastforce
  note C = add_operation_complete [OF ao]
  have "row = \<lparr>asc_pc = from_canonical_u32 (alu_pc e), asc_next_pc = from_canonical_u32 (alu_next_pc e),
      asc_add_operation = ao, asc_operand_1 = word_from x, asc_operand_2 = word_from (alu_c e),
      asc_is_add = from_bool (alu_opcode e = Op_ADD), asc_is_sub = from_bool (alu_opcode e = Op_SUB)\<rparr>" "blu = blu'"
    using assms(3) ao by (auto simp: add_sub_event_to_row_def Let_def x_def [symmetric])
  moreover have "x + alu_c e = (if alu_opcode e = Op_ADD then alu_a e else alu_b e)"
    using assms(1,2) by (auto simp: valid_alu_def alu_op_add_sub x_def diff_eq_eq)
  moreover have "from_bool (alu_opcode e = Op_ADD) + from_bool (alu_opcode e = Op_SUB) = (1 :: koala)"
    using assms(2) by (auto simp: from_bool_def)
  ultimately show ?thesis
    using C assms(2)
    by (auto simp: add_sub_eval_def from_bool_def alu_event_message_def x_def add_operation_no_message)
qed

lemma add_sub_no_sends [simp]: "instruction_sends (add_sub_eval row) = []"
  by (simp add: add_sub_eval_def add_operation_no_message)

interpretation add_sub_chip: alu_chip add_sub_eval add_sub_event_to_row add_sub_padding
    "\<lambda>e. valid_alu e \<and> alu_opcode e \<in> {Op_ADD, Op_SUB}" alu_event_message "\<lambda>_. {#}"
proof
  show "accepted (add_sub_eval add_sub_padding)" "instruction_receives (add_sub_eval add_sub_padding) = []" "instruction_sends (add_sub_eval add_sub_padding) = []"
    "byte_sends (add_sub_eval add_sub_padding) = []"
    by (simp_all add: add_sub_eval_def add_operation_eval_def add_sub_padding_def Let_def)
  show "alu_message_valid m" if "accepted (add_sub_eval r)" "m \<in> set (instruction_receives (add_sub_eval r))" for r m
    using that by (rule add_sub_sound)
qed (elim conjE, simp add: add_sub_complete [OF _ _ surjective_pairing])

end
