(* ===== verification/Bitwise_Chip.thy ===== *)
theory Bitwise_Chip
  imports Alu_Chip
begin

text \<open>The chip for \<open>AND\<close>, \<open>OR\<close>, \<open>XOR\<close> and \<open>NOR\<close> (\<^verbatim>\<open>crates/core/machine/src/alu/bitwise/mod.rs\<close>): each byte of the result is
  looked up in the byte table.\<close>

unbundle bit_operations_syntax

record 'f bitwise_cols =
  bw_pc :: 'f
  bw_next_pc :: 'f
  bw_a :: "'f limbs"
  bw_b :: "'f limbs"
  bw_c :: "'f limbs"
  bw_is_nor :: 'f
  bw_is_xor :: 'f
  bw_is_or :: 'f
  bw_is_and :: 'f

text \<open>\<open>ByteOpcode::from\<close>; it panics for the other opcodes, which the chip never sees.\<close>

definition byte_opcode_from :: "opcode \<Rightarrow> byte_opcode option" where
  "byte_opcode_from op =
     (if op = Op_AND then Some B_AND else if op = Op_OR then Some B_OR else if op = Op_XOR then Some B_XOR
      else if op = Op_SLL then Some B_SLL else if op = Op_NOR then Some B_NOR else None)"

definition bitwise_event_to_row :: "alu_event \<Rightarrow> 'f::field bitwise_cols \<times> byte_lookup_event list" where
  "bitwise_event_to_row event =
     (\<lparr>bw_pc = from_canonical_u32 (alu_pc event), bw_next_pc = from_canonical_u32 (alu_next_pc event),
       bw_a = word_from (alu_a event), bw_b = word_from (alu_b event), bw_c = word_from (alu_c event),
       bw_is_nor = from_bool (alu_opcode event = Op_NOR), bw_is_xor = from_bool (alu_opcode event = Op_XOR),
       bw_is_or = from_bool (alu_opcode event = Op_OR), bw_is_and = from_bool (alu_opcode event = Op_AND)\<rparr>,
      map (\<lambda>i. byte_lookup_event_new (the (byte_opcode_from (alu_opcode event))) (ucast (byte_at (alu_a event) i)) 0
                 (byte_at (alu_b event) i) (byte_at (alu_c event) i)) [0, 1, 2, 3])"

definition bitwise_padding :: "'f::field bitwise_cols" where
  "bitwise_padding = \<lparr>bw_pc = 0, bw_next_pc = 0, bw_a = zero_word, bw_b = zero_word, bw_c = zero_word,
     bw_is_nor = 0, bw_is_xor = 0, bw_is_or = 0, bw_is_and = 0\<rparr>"

definition bitwise_eval :: "'f::field bitwise_cols \<Rightarrow> 'f air_op list" where
  "bitwise_eval local =
     (let opc = bw_is_xor local * byte_opcode_as_field B_XOR + bw_is_or local * byte_opcode_as_field B_OR
            + bw_is_and local * byte_opcode_as_field B_AND + bw_is_nor local * byte_opcode_as_field B_NOR;
          mult = bw_is_xor local + bw_is_or local + bw_is_and local + bw_is_nor local;
          cpu_opcode = bw_is_xor local * opcode_as_field Op_XOR + bw_is_or local * opcode_as_field Op_OR
            + bw_is_and local * opcode_as_field Op_AND + bw_is_nor local * opcode_as_field Op_NOR in
      concat (map (\<lambda>i. send_byte opc (bw_a local i) (bw_b local i) (bw_c local i) mult) [0, 1, 2, 3])
      @ receive_instruction
          (instruction_values 0 0 (bw_pc local) (bw_next_pc local) (bw_next_pc local + 4) 0 cpu_opcode
             (bw_a local) (bw_b local) (bw_c local) zero_word 0 0 0 0 1) mult
      @ assert_bool (bw_is_xor local) @ assert_bool (bw_is_or local) @ assert_bool (bw_is_and local)
      @ assert_bool (bw_is_nor local) @ assert_bool mult)"

section \<open>Correctness\<close>

definition bitwise_fun :: "opcode \<Rightarrow> 'a::len word \<Rightarrow> 'a word \<Rightarrow> 'a word" where
  "bitwise_fun op b c = (if op = Op_AND then b AND c else if op = Op_OR then b OR c
     else if op = Op_XOR then b XOR c else NOT (b OR c))"

abbreviation bitwise_ops :: "opcode set" where
  "bitwise_ops \<equiv> {Op_XOR, Op_OR, Op_AND, Op_NOR}"

lemma alu_op_bitwise: "op \<in> bitwise_ops \<Longrightarrow> alu_op op b c = Inr (bitwise_fun op b c, 0)"
  by (auto simp: alu_op_def alu_result_def bitwise_fun_def)

lemma byte_at_bitwise: "i < 4 \<Longrightarrow> byte_at (bitwise_fun op b c) i = bitwise_fun op (byte_at b i) (byte_at c i)"
  by (rule bit_word_eqI) (auto simp: bitwise_fun_def bit_simps bit_byte_at)

lemma byte_table_bitwise:
  "op \<in> bitwise_ops \<Longrightarrow> in_byte_table [byte_opcode_as_field (the (byte_opcode_from op)), a, 0, b, c :: koala] \<longleftrightarrow>
     (\<exists>p q. b = from_canonical_u8 p \<and> c = from_canonical_u8 q \<and> a = from_canonical_u8 (bitwise_fun op p q))"
  by (auto simp: byte_opcode_from_def bitwise_fun_def byte_table_and byte_table_or byte_table_xor byte_table_nor)

lemma bitwise_flags:
  fixes x r n d :: koala
  assumes "x = 0 \<or> x = 1" "r = 0 \<or> r = 1" "n = 0 \<or> n = 1" "d = 0 \<or> d = 1" "x + r + n + d = 0 \<or> x + r + n + d = 1"
    and "x + r + n + d \<noteq> 0"
  obtains op where "op \<in> bitwise_ops" "x + r + n + d = 1"
    "x * byte_opcode_as_field B_XOR + r * byte_opcode_as_field B_OR + n * byte_opcode_as_field B_AND
       + d * byte_opcode_as_field B_NOR = (byte_opcode_as_field (the (byte_opcode_from op)) :: koala)"
    "x * opcode_as_field Op_XOR + r * opcode_as_field Op_OR + n * opcode_as_field Op_AND
       + d * opcode_as_field Op_NOR = (opcode_as_field op :: koala)"
proof -
  have "(x = 1 \<and> r = 0 \<and> n = 0 \<and> d = 0) \<or> (x = 0 \<and> r = 1 \<and> n = 0 \<and> d = 0) \<or>
    (x = 0 \<and> r = 0 \<and> n = 1 \<and> d = 0) \<or> (x = 0 \<and> r = 0 \<and> n = 0 \<and> d = 1)"
    using assms by auto
  then show ?thesis
    by (elim disjE) (rule that; simp add: byte_opcode_from_def)+
qed

lemma bitwise_no_sends [simp]: "instruction_sends (bitwise_eval row) = []"
  by (simp add: bitwise_eval_def Let_def)

lemma bitwise_sound:
  assumes "accepted (bitwise_eval row)" "m \<in> set (instruction_receives (bitwise_eval row))"
  shows "alu_message_valid m"
proof -
  let ?mult = "bw_is_xor row + bw_is_or row + bw_is_and row + bw_is_nor row"
  note acc = assms(1) [unfolded bitwise_eval_def Let_def, simplified]
  have mult: "?mult \<noteq> 0" using assms(2) by (auto simp: bitwise_eval_def Let_def split: if_splits)
  obtain op where op: "op \<in> bitwise_ops" "?mult = 1"
    "bw_is_xor row * byte_opcode_as_field B_XOR + bw_is_or row * byte_opcode_as_field B_OR
       + bw_is_and row * byte_opcode_as_field B_AND + bw_is_nor row * byte_opcode_as_field B_NOR
       = (byte_opcode_as_field (the (byte_opcode_from op)) :: koala)"
    "bw_is_xor row * opcode_as_field Op_XOR + bw_is_or row * opcode_as_field Op_OR + bw_is_and row * opcode_as_field Op_AND
       + bw_is_nor row * opcode_as_field Op_NOR = (opcode_as_field op :: koala)"
    by (rule bitwise_flags [of "bw_is_xor row" "bw_is_or row" "bw_is_and row" "bw_is_nor row"])
      (use acc mult in \<open>auto simp: add.assoc\<close>)
  have "\<exists>p q. bw_b row i = from_canonical_u8 p \<and> bw_c row i = from_canonical_u8 q
      \<and> bw_a row i = from_canonical_u8 (bitwise_fun op p q)" if "i \<in> {0, 1, 2, 3}" for i
    using acc mult that by (auto simp: op(3) byte_table_bitwise [OF op(1)])
  then obtain p q where pq: "\<And>i. i \<in> {0, 1, 2, 3} \<Longrightarrow> bw_b row i = from_canonical_u8 (p i) \<and>
      bw_c row i = from_canonical_u8 (q i) \<and> bw_a row i = from_canonical_u8 (bitwise_fun op (p i) (q i))"
    by metis
  have B: "limb_list (bw_b row) = map from_canonical_u8 [p 0, p 1, p 2, p 3]"
    and C: "limb_list (bw_c row) = map from_canonical_u8 [q 0, q 1, q 2, q 3]"
    and A: "limb_list (bw_a row) = map from_canonical_u8 [bitwise_fun op (p 0) (q 0), bitwise_fun op (p 1) (q 1),
      bitwise_fun op (p 2) (q 2), bitwise_fun op (p 3) (q 3)]"
    using pq by (simp_all add: limb_list_def)
  have "to_u32 (bw_a row) = bitwise_fun op (to_u32 (bw_b row)) (to_u32 (bw_c row))"
    unfolding word_eq_bytes using word_from_limbs [OF A] word_from_limbs [OF B] word_from_limbs [OF C]
    by (auto simp: byte_at_bitwise All_less_Suc2 numeral_eq_Suc)
  then show ?thesis
    using assms(2) op(4) word_from_limbs(1) [OF A] word_from_limbs(1) [OF B] word_from_limbs(1) [OF C]
    by (auto simp: bitwise_eval_def Let_def alu_op_bitwise [OF op(1)] intro!: alu_message_validI alu_computesI split: if_splits)
qed

lemma bitwise_complete:
  assumes "valid_alu e" "alu_opcode e \<in> bitwise_ops"
  shows "accepted (bitwise_eval (fst (bitwise_event_to_row e))) \<and>
    instruction_receives (bitwise_eval (fst (bitwise_event_to_row e))) = [alu_event_message e] \<and>
    byte_sends (bitwise_eval (fst (bitwise_event_to_row e))) = map byte_event_values (snd (bitwise_event_to_row e :: koala bitwise_cols \<times> _))"
proof -
  have a: "alu_a e = bitwise_fun (alu_opcode e) (alu_b e) (alu_c e)"
    using assms by (simp add: valid_alu_def alu_op_bitwise)
  have *: "in_byte_table [byte_opcode_as_field (the (byte_opcode_from (alu_opcode e))), word_from (alu_a e) i, 0,
      word_from (alu_b e) i, word_from (alu_c e) i :: koala]" if "i < 4" for i
    using that assms(2) by (auto simp: byte_table_bitwise a word_from_def byte_at_bitwise)
  show ?thesis
    using assms(2) * [of 0] * [of 1] * [of 2] * [of 3]
    by (auto simp: bitwise_eval_def bitwise_event_to_row_def Let_def from_bool_def byte_opcode_from_def
        alu_event_message_def word_from_def)
qed

interpretation bitwise_chip: alu_chip bitwise_eval bitwise_event_to_row bitwise_padding
    "\<lambda>e. valid_alu e \<and> alu_opcode e \<in> bitwise_ops" alu_event_message "\<lambda>_. {#}"
proof
  show "accepted (bitwise_eval bitwise_padding)" "instruction_receives (bitwise_eval bitwise_padding) = []" "instruction_sends (bitwise_eval bitwise_padding) = []"
    "byte_sends (bitwise_eval bitwise_padding) = []"
    by (simp_all add: bitwise_eval_def bitwise_padding_def Let_def)
  show "alu_message_valid m" if "accepted (bitwise_eval r)" "m \<in> set (instruction_receives (bitwise_eval r))" for r m
    using that by (rule bitwise_sound)
qed (elim conjE, simp add: bitwise_complete)

end
