(* ===== verification/Lt_Chip.thy ===== *)
theory Lt_Chip
  imports Alu_Chip
begin

text \<open>
  The chip for \<open>SLT\<close> and \<open>SLTU\<close> (\<^verbatim>\<open>crates/core/machine/src/alu/lt/mod.rs\<close>). The operands are compared at their most
  significant differing byte, which the prover marks with a flag; for the signed comparison the sign bits are
  masked and compared separately.
\<close>

unbundle bit_operations_syntax

record 'f lt_cols =
  lt_pc :: 'f
  lt_next_pc :: 'f
  lt_is_slt :: 'f
  lt_is_sltu :: 'f
  lt_a :: "'f limbs"
  lt_b :: "'f limbs"
  lt_c :: "'f limbs"
  lt_byte_flags :: "nat \<Rightarrow> 'f"
  lt_b_masked :: 'f
  lt_c_masked :: 'f
  lt_not_eq_inv :: 'f
  lt_msb_b :: 'f
  lt_msb_c :: 'f
  lt_bit_b :: 'f
  lt_bit_c :: 'f
  lt_sltu :: 'f
  lt_is_comp_eq :: 'f
  lt_is_sign_eq :: 'f
  lt_comparison_bytes :: "nat \<Rightarrow> 'f"

text \<open>The index of the most significant byte at which two words differ; the search loop of \<open>event_to_row\<close>.\<close>

fun differing_byte :: "u8 list \<Rightarrow> u8 list \<Rightarrow> nat option" where
  "differing_byte (b # bs) (c # cs) = (if c \<noteq> b then Some (length bs) else differing_byte bs cs)"
| "differing_byte _ _ = None"

definition lt_comp_bytes :: "bool \<Rightarrow> u32 \<Rightarrow> nat \<Rightarrow> u8" where
  "lt_comp_bytes slt w = (if slt then (byte_at w)(3 := byte_at w 3 AND 0x7f) else byte_at w)"

text \<open>The \<open>assert_eq!\<close> at the end of the source's function compares the result of the event with the computed flag; it
  holds for every valid event and is left out.\<close>

definition lt_event_to_row :: "alu_event \<Rightarrow> 'f::field lt_cols \<times> byte_lookup_event list" where
  "lt_event_to_row event =
     (let b = byte_at (alu_b event); c = byte_at (alu_c event);
          masked_b = b 3 AND 0x7f; masked_c = c 3 AND 0x7f;
          slt = (alu_opcode event = Op_SLT);
          b_comp = lt_comp_bytes slt (alu_b event);
          c_comp = lt_comp_bytes slt (alu_c event);
          diff = differing_byte [b_comp 3, b_comp 2, b_comp 1, b_comp 0] [c_comp 3, c_comp 2, c_comp 1, c_comp 0];
          sltu = (case diff of None \<Rightarrow> False | Some i \<Rightarrow> b_comp i < c_comp i);
          comparison = (case diff of None \<Rightarrow> (0, 0) | Some i \<Rightarrow> (b_comp i, c_comp i));
          msb_b = from_canonical_u8 (drop_bit 7 (b 3) AND 1);
          msb_c = from_canonical_u8 (drop_bit 7 (c 3) AND 1);
          is_slt = from_bool slt in
      (\<lparr>lt_pc = from_canonical_u32 (alu_pc event), lt_next_pc = from_canonical_u32 (alu_next_pc event),
        lt_is_slt = is_slt, lt_is_sltu = from_bool (alu_opcode event = Op_SLTU),
        lt_a = word_from (alu_a event), lt_b = word_from (alu_b event), lt_c = word_from (alu_c event),
        lt_byte_flags = (\<lambda>i. from_bool (diff = Some i)),
        lt_b_masked = from_canonical_u8 masked_b, lt_c_masked = from_canonical_u8 masked_c,
        lt_not_eq_inv = (case diff of None \<Rightarrow> 0
           | Some i \<Rightarrow> inverse (from_canonical_u8 (b_comp i) - from_canonical_u8 (c_comp i))),
        lt_msb_b = msb_b, lt_msb_c = msb_c, lt_bit_b = msb_b * is_slt, lt_bit_c = msb_c * is_slt,
        lt_sltu = from_bool sltu, lt_is_comp_eq = from_bool (diff = None),
        lt_is_sign_eq = (if slt then from_bool (drop_bit 7 (b 3) = drop_bit 7 (c 3)) else 1),
        lt_comparison_bytes = (\<lambda>i. if i = 0 then from_canonical_u8 (fst comparison) else from_canonical_u8 (snd comparison))\<rparr>,
       [byte_lookup_event_new B_AND (ucast masked_b) 0 (b 3) 0x7f,
        byte_lookup_event_new B_AND (ucast masked_c) 0 (c 3) 0x7f,
        byte_lookup_event_new B_LTU (ucast (of_bool sltu :: u8)) 0 (fst comparison) (snd comparison)]))"

definition lt_padding :: "'f::field lt_cols" where
  "lt_padding = \<lparr>lt_pc = 0, lt_next_pc = 0, lt_is_slt = 0, lt_is_sltu = 0, lt_a = zero_word, lt_b = zero_word,
     lt_c = zero_word, lt_byte_flags = zero_word, lt_b_masked = 0, lt_c_masked = 0, lt_not_eq_inv = 0, lt_msb_b = 0,
     lt_msb_c = 0, lt_bit_b = 0, lt_bit_c = 0, lt_sltu = 0, lt_is_comp_eq = 0, lt_is_sign_eq = 0,
     lt_comparison_bytes = zero_word\<rparr>"

text \<open>The loop over the bytes, most significant first: it accumulates the sum of the flags and the two selected
  bytes.\<close>

fun lt_byte_loop :: "'f::field \<Rightarrow> ('f \<times> 'f \<times> 'f) list \<Rightarrow> 'f \<Rightarrow> 'f \<Rightarrow> 'f \<Rightarrow> 'f air_op list \<times> 'f \<times> 'f" where
  "lt_byte_loop is_comp_eq [] visited b_byte c_byte = ([], b_byte, c_byte)"
| "lt_byte_loop is_comp_eq ((b, c, flag) # rest) visited b_byte c_byte =
     (let visited' = visited + flag;
          (ops, b_byte', c_byte') = lt_byte_loop is_comp_eq rest visited' (b_byte + b * flag) (c_byte + c * flag) in
      (when_not visited' (assert_eq b c) @ when_cond is_comp_eq (assert_zero visited') @ ops, b_byte', c_byte'))"

definition lt_eval :: "'f::field lt_cols \<Rightarrow> 'f air_op list" where
  "lt_eval local =
     (let is_slt = lt_is_slt local; is_sltu = lt_is_sltu local; is_real = is_slt + is_sltu;
          a = lt_a local; b = lt_b local; c = lt_c local; flags = lt_byte_flags local;
          b_comp3 = b 3 * is_sltu + lt_b_masked local * is_slt;
          c_comp3 = c 3 * is_sltu + lt_c_masked local * is_slt;
          inv_128 = inverse 128;
          sum_flags = flags 0 + flags 1 + flags 2 + flags 3;
          (loop, b_comparison_byte, c_comparison_byte) =
            lt_byte_loop (lt_is_comp_eq local)
              [(b_comp3, c_comp3, flags 3), (b 2, c 2, flags 2), (b 1, c 1, flags 1), (b 0, c 0, flags 0)] 0 0 0;
          b_comp_byte = lt_comparison_bytes local 0; c_comp_byte = lt_comparison_bytes local 1 in
      send_byte (byte_opcode_as_field B_AND) (lt_b_masked local) (b 3) 127 is_real
      @ send_byte (byte_opcode_as_field B_AND) (lt_c_masked local) (c 3) 127 is_real
      @ assert_eq (lt_bit_b local) (lt_msb_b local * is_slt)
      @ assert_eq (lt_bit_c local) (lt_msb_c local * is_slt)
      @ assert_eq (lt_msb_b local) ((b 3 - lt_b_masked local) * inv_128)
      @ assert_eq (lt_msb_c local) ((c 3 - lt_c_masked local) * inv_128)
      @ assert_bool (lt_is_sign_eq local)
      @ when_cond (lt_is_sign_eq local) (assert_eq (lt_bit_b local) (lt_bit_c local))
      @ when_cond is_real (when_not (lt_is_sign_eq local) (assert_one (lt_bit_b local + lt_bit_c local)))
      @ assert_eq (a 0) (lt_bit_b local * (1 - lt_bit_c local) + lt_is_sign_eq local * lt_sltu local)
      @ assert_zero (a 1) @ assert_zero (a 2) @ assert_zero (a 3)
      @ assert_bool (flags 0) @ assert_bool (flags 1) @ assert_bool (flags 2) @ assert_bool (flags 3)
      @ assert_bool sum_flags
      @ when_cond is_real (assert_eq (1 - lt_is_comp_eq local) sum_flags)
      @ assert_bool (lt_is_comp_eq local)
      @ loop
      @ assert_eq b_comp_byte b_comparison_byte
      @ assert_eq c_comp_byte c_comparison_byte
      @ when_not (lt_is_comp_eq local) (assert_eq (lt_not_eq_inv local * (b_comp_byte - c_comp_byte)) is_real)
      @ send_byte (byte_opcode_as_field B_LTU) (lt_sltu local) b_comp_byte c_comp_byte is_real
      @ assert_bool is_slt @ assert_bool is_sltu @ assert_bool (is_slt + is_sltu)
      @ receive_instruction
          (instruction_values 0 0 (lt_pc local) (lt_next_pc local) (lt_next_pc local + 4) 0
             (is_slt * opcode_as_field Op_SLT + is_sltu * opcode_as_field Op_SLTU)
             a b c zero_word 0 0 0 0 1) is_real)"

section \<open>Soundness\<close>

lemma lt_byte_loop_eq:
  "lt_byte_loop e [(b3, c3, f3), (b2, c2, f2), (b1, c1, f1), (b0, c0, f0)] 0 0 0 =
    (when_not f3 (assert_eq b3 c3) @ when_cond e (assert_zero f3)
     @ when_not (f3 + f2) (assert_eq b2 c2) @ when_cond e (assert_zero (f3 + f2))
     @ when_not (f3 + f2 + f1) (assert_eq b1 c1) @ when_cond e (assert_zero (f3 + f2 + f1))
     @ when_not (f3 + f2 + f1 + f0) (assert_eq b0 c0) @ when_cond e (assert_zero (f3 + f2 + f1 + f0)),
     b3 * f3 + b2 * f2 + b1 * f1 + b0 * f0, c3 * f3 + c2 * f2 + c1 * f1 + c0 * f0)"
  by (simp add: Let_def)

lemma digit_less_iff: "(a :: nat) < 256 \<Longrightarrow> b < 256 \<Longrightarrow> a + 256 * x < b + 256 * y \<longleftrightarrow> x < y \<or> x = y \<and> a < b"
  by (cases x y rule: linorder_cases) auto

lemma digit_eq_iff: "(a :: nat) < 256 \<Longrightarrow> b < 256 \<Longrightarrow> a + 256 * x = b + 256 * y \<longleftrightarrow> a = b \<and> x = y"
  using digit_unique by blast

lemma number_less_iff:
  fixes b0 b1 b2 b3 c0 c1 c2 c3 :: nat
  assumes B: "b0 < 256" "b1 < 256" "b2 < 256" "c0 < 256" "c1 < 256" "c2 < 256"
  shows "b0 + 256 * b1 + 65536 * b2 + 16777216 * b3 < c0 + 256 * c1 + 65536 * c2 + 16777216 * c3 \<longleftrightarrow>
     b3 < c3 \<or> b3 = c3 \<and> (b2 < c2 \<or> b2 = c2 \<and> (b1 < c1 \<or> b1 = c1 \<and> b0 < c0))"
proof -
  have eq: "b0 + 256 * b1 + 65536 * b2 + 16777216 * b3 = b0 + 256 * (b1 + 256 * (b2 + 256 * b3))"
    "c0 + 256 * c1 + 65536 * c2 + 16777216 * c3 = c0 + 256 * (c1 + 256 * (c2 + 256 * c3))" by simp_all
  show ?thesis
    unfolding eq digit_less_iff [OF B(1,4)] digit_less_iff [OF B(2,5)] digit_less_iff [OF B(3,6)]
      digit_eq_iff [OF B(2,5)] digit_eq_iff [OF B(3,6)]
    by blast
qed

lemma lt_flags:
  fixes e f0 f1 f2 f3 :: koala
  assumes f: "f0 = 0 \<or> f0 = 1" "f1 = 0 \<or> f1 = 1" "f2 = 0 \<or> f2 = 1" "f3 = 0 \<or> f3 = 1"
    and sum: "f0 + f1 + f2 + f3 = 0 \<or> f0 + f1 + f2 + f3 = 1" and e: "1 - e = f0 + f1 + f2 + f3"
  shows "e = 1 \<and> f0 = 0 \<and> f1 = 0 \<and> f2 = 0 \<and> f3 = 0 \<or> e = 0 \<and> f0 = 1 \<and> f1 = 0 \<and> f2 = 0 \<and> f3 = 0
    \<or> e = 0 \<and> f0 = 0 \<and> f1 = 1 \<and> f2 = 0 \<and> f3 = 0 \<or> e = 0 \<and> f0 = 0 \<and> f1 = 0 \<and> f2 = 1 \<and> f3 = 0
    \<or> e = 0 \<and> f0 = 0 \<and> f1 = 0 \<and> f2 = 0 \<and> f3 = 1"
proof -
  have "e = 1 - (f0 + f1 + f2 + f3)" using e by (simp add: algebra_simps)
  then show ?thesis using f sum by (elim disjE) simp_all
qed

lemma canon_inj: "canon x = canon y \<longleftrightarrow> x = y"
  by (metis of_nat_canon)

lemma lt_select_sound:
  fixes b0 b1 b2 b3 c0 c1 c2 c3 :: koala
  assumes flags: "f0 = 0 \<or> f0 = 1" "f1 = 0 \<or> f1 = 1" "f2 = 0 \<or> f2 = 1" "f3 = 0 \<or> f3 = 1"
    "f0 + f1 + f2 + f3 = 0 \<or> f0 + f1 + f2 + f3 = 1" "1 - e = f0 + f1 + f2 + f3"
    and eqs: "f3 = 1 \<or> b3 = c3" "f3 + f2 = 1 \<or> b2 = c2" "f3 + f2 + f1 = 1 \<or> b1 = c1" "f3 + f2 + f1 + f0 = 1 \<or> b0 = c0"
    and bytes: "bb = b3 * f3 + b2 * f2 + b1 * f1 + b0 * f0" "cc = c3 * f3 + c2 * f2 + c1 * f1 + c0 * f0"
    and neq: "e = 1 \<or> bb \<noteq> cc" and sltu: "sltu = from_bool (canon bb < canon cc)"
    and B: "canon b0 < 256" "canon b1 < 256" "canon b2 < 256" "canon c0 < 256" "canon c1 < 256" "canon c2 < 256"
  shows "sltu = from_bool (canon b0 + 256 * canon b1 + 65536 * canon b2 + 16777216 * canon b3
     < canon c0 + 256 * canon c1 + 65536 * canon c2 + 16777216 * canon c3)"
  unfolding number_less_iff [OF B] using lt_flags [OF flags]
  by (elim disjE conjE) (use eqs bytes neq sltu in \<open>simp_all add: canon_inj\<close>)

text \<open>The masked top byte and the sign bit.\<close>

lemma mask_byte: "unat (p :: u8) = unat (p AND 0x7f) + 128 * of_bool (bit p 7)"
proof -
  have m: "p AND 0x7f = take_bit 7 p" by (simp add: take_bit_eq_mask mask_eq_exp_minus_1)
  have "unat p = take_bit 8 (unat p)" using unat_byte_less [of p] by (simp add: take_bit_nat_eq_self)
  also have "\<dots> = take_bit 7 (unat p) + 128 * of_bool (bit (unat p) 7)"
    using take_bit_Suc_from_most [of 7 "unat p"] by (simp add: numeral_eq_Suc)
  finally show ?thesis unfolding m by (simp add: unsigned_take_bit_eq bit_unsigned_iff)
qed

lemma mask_byte_less: "unat (p AND 0x7f :: u8) < 128"
proof -
  have "p AND 0x7f = take_bit 7 p" by (simp add: take_bit_eq_mask mask_eq_exp_minus_1)
  then show ?thesis using take_bit_nat_less_exp [of 7 "unat p"] by (simp add: unsigned_take_bit_eq)
qed

lemma inverse_128: "(128 * x) * inverse 128 = (x :: koala)"
proof -
  have "(128 :: koala) \<noteq> 0" by simp
  then show ?thesis by (simp add: field_simps)
qed

lemma top_msb: "(from_canonical_u8 p - from_canonical_u8 (p AND 0x7f)) * inverse 128 = (from_bool (bit p 7) :: koala)"
proof -
  have "(from_canonical_u8 p :: koala) = of_nat (unat (p AND 0x7f) + 128 * of_bool (bit p 7))"
    by (simp only: from_canonical_u8_def mask_byte [symmetric])
  then have "from_canonical_u8 p - from_canonical_u8 (p AND 0x7f) = (128 * from_bool (bit p 7) :: koala)"
    by (simp add: from_canonical_u8_def from_bool_def)
  then show ?thesis by (simp only: inverse_128)
qed

lemma byte_table_mask:
  "in_byte_table [byte_opcode_as_field B_AND, m, 0, b, 127 :: koala] \<longleftrightarrow>
     (\<exists>p. b = from_canonical_u8 p \<and> m = from_canonical_u8 (p AND 0x7f))"
proof -
  have *: "(127 :: koala) = from_canonical_u8 q \<longleftrightarrow> q = 0x7f" for q :: u8
    using from_canonical_u8_inj [of "0x7f" q] by (auto simp: from_canonical_u8_def simp del: from_canonical_u8_inj)
  show ?thesis unfolding byte_table_and * by blast
qed

lemma lt_msb:
  assumes "in_byte_table [byte_opcode_as_field B_AND, m, 0, b, 127 :: koala]"
  obtains p :: u8 where "b = from_canonical_u8 p" "m = from_canonical_u8 (p AND 0x7f)"
    "(b - m) * inverse 128 = from_bool (bit p 7)"
proof -
  obtain p where "b = from_canonical_u8 p" "m = from_canonical_u8 (p AND 0x7f)"
    using assms unfolding byte_table_mask by blast
  then show ?thesis using that [of p] top_msb [of p] by (simp only:)
qed

lemma lt_top:
  assumes "byte_word w" "w 3 = from_canonical_u8 p"
  shows "sint (to_u32 w) = int (canon (w 0) + 256 * canon (w 1) + 65536 * canon (w 2) + 16777216 * unat (p AND 0x7f))
      - 2147483648 * of_bool (bit p 7)"
proof -
  have "byte_at (to_u32 w) 3 = p" using byte_at_to_u32(4) [OF assms(1)] assms(2) by simp
  then have "bit (to_u32 w) 31 \<longleftrightarrow> bit p 7" using bit_byte_at [of "to_u32 w" 3 7] by simp
  then show ?thesis
    using assms(2) mask_byte [of p] unat_to_u32 [OF assms(1)] by (simp add: sint_top_bit limb_number_def)
qed

lemma lt_no_sends [simp]: "instruction_sends (lt_eval row) = []"
  by (simp add: lt_eval_def Let_def)

lemma lt_result_word:
  assumes "a 0 = from_bool r" "a 1 = 0" "a 2 = 0" "a 3 = (0 :: koala)"
  shows "byte_word a" "to_u32 a = (if r then 1 else 0)"
proof -
  have "limb_list a = map from_canonical_u8 [of_bool r, 0, 0, 0]"
    using assms by (simp add: limb_list_def from_bool_def from_canonical_u8_def)
  then show "byte_word a" using word_from_limbs(1) by blast
  have "canon 0 = 0" "canon 1 = 1" using canon_of_nat [of 0] canon_of_nat [of 1] by simp_all
  then show "to_u32 a = (if r then 1 else 0)" using assms by (simp add: to_u32_def limb_number_def from_bool_def)
qed

lemma lt_compare_sound:
  fixes row :: "koala lt_cols"
  assumes acc: "accepted (lt_eval row)" and real: "lt_is_slt row + lt_is_sltu row = 1"
    and B: "byte_word (lt_b row)" "byte_word (lt_c row)"
  shows "lt_sltu row = from_bool
     (canon (lt_b row 0) + 256 * canon (lt_b row 1) + 65536 * canon (lt_b row 2)
        + 16777216 * canon (lt_b row 3 * lt_is_sltu row + lt_b_masked row * lt_is_slt row)
      < canon (lt_c row 0) + 256 * canon (lt_c row 1) + 65536 * canon (lt_c row 2)
        + 16777216 * canon (lt_c row 3 * lt_is_sltu row + lt_c_masked row * lt_is_slt row))"
proof -
  note acc = acc [unfolded lt_eval_def lt_byte_loop_eq Let_def prod.case real, simplified accepted_append]
  have ltu: "lt_sltu row = from_bool (canon (lt_comparison_bytes row 0) < canon (lt_comparison_bytes row 1))"
    using acc by (simp add: byte_table_ltu)
  have "accepted (when_not (lt_is_comp_eq row)
      (assert_eq (lt_not_eq_inv row * (lt_comparison_bytes row 0 - lt_comparison_bytes row 1)) 1))"
    using acc by (elim conjE)
  then have neq: "lt_is_comp_eq row = 1 \<or> lt_comparison_bytes row 0 \<noteq> lt_comparison_bytes row 1"
    by auto
  show ?thesis
    by (rule lt_select_sound [OF _ _ _ _ _ _ _ _ _ _ _ _ neq ltu,
          where ?f0.0 = "lt_byte_flags row 0" and ?f1.0 = "lt_byte_flags row 1" and ?f2.0 = "lt_byte_flags row 2"
            and ?f3.0 = "lt_byte_flags row 3"])
      (use acc byte_word_canon [OF B(1)] byte_word_canon [OF B(2)] in simp_all)
qed

lemma lt_sign_cases:
  fixes sb sc :: bool and sign_eq sltu :: koala
  assumes "sign_eq = 0 \<or> sign_eq = 1" "sign_eq = 0 \<or> from_bool sb = (from_bool sc :: koala)"
    "sign_eq = 1 \<or> from_bool sb + from_bool sc = (1 :: koala)" "sltu = from_bool l"
  shows "from_bool sb * (1 - from_bool sc) + sign_eq * sltu = from_bool (if sb = sc then l else sb)"
  using assms by (cases sb; cases sc; cases l) (auto simp: from_bool_def)

lemma signed_compare:
  assumes "x < 2147483648" "y < 2147483648"
  shows "(if s = t then x < y else s) \<longleftrightarrow> int x - 2147483648 * of_bool s < int y - 2147483648 * of_bool t"
  using assms by (cases s; cases t) auto

lemma lt_sound:
  assumes acc: "accepted (lt_eval row)" and m: "m \<in> set (instruction_receives (lt_eval row))" and ok: "operands_ok m"
  shows "alu_message_valid m"
proof -
  let ?slt = "lt_is_slt row" and ?sltu = "lt_is_sltu row"
  have m_eq: "m = instruction_values 0 0 (lt_pc row) (lt_next_pc row) (lt_next_pc row + 4) 0
       (?slt * opcode_as_field Op_SLT + ?sltu * opcode_as_field Op_SLTU)
       (lt_a row) (lt_b row) (lt_c row) zero_word 0 0 0 0 1" and nz: "?slt + ?sltu \<noteq> 0"
    using m by (auto simp: lt_eval_def Let_def split: if_splits)
  note acc' = acc [unfolded lt_eval_def lt_byte_loop_eq Let_def prod.case, simplified accepted_append]
  have flags: "?slt = 0 \<or> ?slt = 1" "?sltu = 0 \<or> ?sltu = 1" "?slt + ?sltu = 0 \<or> ?slt + ?sltu = 1"
    using acc' by simp_all
  then have real: "?slt + ?sltu = 1" using nz by auto
  have "?slt * opcode_as_field Op_SLT + ?sltu * opcode_as_field Op_SLTU = opcode_as_field (if ?slt = 1 then Op_SLT else Op_SLTU)"
    using flags real by auto
  note B = operands_okD [OF ok [unfolded m_eq] this]
  have B: "byte_word (lt_b row)" "byte_word (lt_c row)" by (rule B; simp split: if_splits)+
  note cmp = lt_compare_sound [OF acc real B]
  obtain p where p: "lt_b row 3 = from_canonical_u8 p" "lt_b_masked row = from_canonical_u8 (p AND 0x7f)"
    "(lt_b row 3 - lt_b_masked row) * inverse 128 = from_bool (bit p 7)"
    by (rule lt_msb [of "lt_b_masked row" "lt_b row 3"]) (use acc' real in simp)
  obtain q where q: "lt_c row 3 = from_canonical_u8 q" "lt_c_masked row = from_canonical_u8 (q AND 0x7f)"
    "(lt_c row 3 - lt_c_masked row) * inverse 128 = from_bool (bit q 7)"
    by (rule lt_msb [of "lt_c_masked row" "lt_c row 3"]) (use acc' real in simp)
  have msb: "lt_msb_b row = from_bool (bit p 7)" "lt_msb_c row = from_bool (bit q 7)"
    using acc' by (elim conjE, simp only: accepted_simps p(3) q(3))+
  have bits: "lt_bit_b row = lt_msb_b row * ?slt" "lt_bit_c row = lt_msb_c row * ?slt"
    using acc' by (elim conjE, simp only: accepted_simps)+
  have "accepted (when_cond (lt_is_sign_eq row) (assert_eq (lt_bit_b row) (lt_bit_c row)))"
    "accepted (when_cond (?slt + ?sltu) (when_not (lt_is_sign_eq row) (assert_one (lt_bit_b row + lt_bit_c row))))"
    "accepted (assert_bool (lt_is_sign_eq row))"
    using acc' by blast+
  then have sign: "lt_is_sign_eq row = 0 \<or> lt_is_sign_eq row = 1" "lt_is_sign_eq row = 0 \<or> lt_bit_b row = lt_bit_c row"
      "lt_is_sign_eq row = 1 \<or> lt_bit_b row + lt_bit_c row = 1"
    using real by simp_all
  have a: "lt_a row 0 = lt_bit_b row * (1 - lt_bit_c row) + lt_is_sign_eq row * lt_sltu row"
      "lt_a row 1 = 0" "lt_a row 2 = 0" "lt_a row 3 = 0"
    using acc' by (elim conjE, simp only: accepted_simps)+
  show ?thesis
  proof (cases "?slt = 1")
    case True
    then have sltu: "?sltu = 0" using flags by auto
    note top = lt_top [OF B(1) p(1)] lt_top [OF B(2) q(1)]
    define l where "l \<longleftrightarrow> canon (lt_b row 0) + 256 * canon (lt_b row 1) + 65536 * canon (lt_b row 2) + 16777216 * unat (p AND 0x7f)
      < canon (lt_c row 0) + 256 * canon (lt_c row 1) + 65536 * canon (lt_c row 2) + 16777216 * unat (q AND 0x7f)"
    have "lt_sltu row = from_bool l" using cmp by (simp add: True sltu p(2) q(2) l_def)
    moreover have "lt_bit_b row = from_bool (bit p 7)" "lt_bit_c row = from_bool (bit q 7)"
      using bits msb True by simp_all
    ultimately have "lt_a row 0 = from_bool (if bit p 7 = bit q 7 then l else bit p 7)"
      using lt_sign_cases [of "lt_is_sign_eq row" "bit p 7" "bit q 7"] sign a(1) by simp
    moreover have "(if bit p 7 = bit q 7 then l else bit p 7) \<longleftrightarrow> sint (to_u32 (lt_b row)) < sint (to_u32 (lt_c row))"
      using byte_word_canon [OF B(1)] byte_word_canon [OF B(2)] mask_byte_less [of p] mask_byte_less [of q]
      unfolding top l_def by (intro signed_compare) auto
    ultimately have "lt_a row 0 = from_bool (sint (to_u32 (lt_b row)) < sint (to_u32 (lt_c row)))" by simp
    note res = lt_result_word [OF this a(2-4)]
    show ?thesis unfolding m_eq
      by (rule alu_message_validI [where op = Op_SLT])
        (use res B in \<open>simp_all add: True sltu alu_computes_def alu_op_def alu_result_def\<close>)
  next
    case False
    then have slt: "?slt = 0" "?sltu = 1" using flags real by auto
    then have z: "lt_bit_b row = 0" "lt_bit_c row = 0" using bits by simp_all
    then have "lt_is_sign_eq row = 1" using sign by auto
    then have "lt_a row 0 = from_bool (limb_number (lt_b row) < limb_number (lt_c row))"
      using a(1) z cmp by (simp add: slt limb_number_def)
    note res = lt_result_word [OF this a(2-4)]
    show ?thesis unfolding m_eq
      by (rule alu_message_validI [where op = Op_SLTU])
        (use res B in \<open>simp_all add: slt alu_computes_def alu_op_def alu_result_def word_less_nat_alt unat_to_u32\<close>)
  qed
qed

section \<open>Completeness\<close>

lemma differing_byte_cases:
  fixes b c :: "nat \<Rightarrow> u8"
  defines "diff \<equiv> differing_byte [b 3, b 2, b 1, b 0] [c 3, c 2, c 1, c 0]"
  shows "diff = None \<and> b 3 = c 3 \<and> b 2 = c 2 \<and> b 1 = c 1 \<and> b 0 = c 0 \<or> diff = Some 3 \<and> b 3 \<noteq> c 3
    \<or> diff = Some 2 \<and> b 3 = c 3 \<and> b 2 \<noteq> c 2 \<or> diff = Some 1 \<and> b 3 = c 3 \<and> b 2 = c 2 \<and> b 1 \<noteq> c 1
    \<or> diff = Some 0 \<and> b 3 = c 3 \<and> b 2 = c 2 \<and> b 1 = c 1 \<and> b 0 \<noteq> c 0"
  by (auto simp: diff_def numeral_eq_Suc)

lemma differing_byte_less:
  fixes b c :: "nat \<Rightarrow> u8"
  shows "(case differing_byte [b 3, b 2, b 1, b 0] [c 3, c 2, c 1, c 0] of None \<Rightarrow> False | Some i \<Rightarrow> b i < c i) \<longleftrightarrow>
    unat (b 0) + 256 * unat (b 1) + 65536 * unat (b 2) + 16777216 * unat (b 3)
      < unat (c 0) + 256 * unat (c 1) + 65536 * unat (c 2) + 16777216 * unat (c 3)"
  unfolding number_less_iff [OF unat_byte_less unat_byte_less unat_byte_less unat_byte_less unat_byte_less unat_byte_less]
  using differing_byte_cases [of b c] by (elim disjE conjE) (simp_all add: word_less_nat_alt word_unat_eq_iff numeral_2_eq_2 numeral_3_eq_3)

lemma lt_loop_complete:
  fixes b c :: "nat \<Rightarrow> u8"
  defines "diff \<equiv> differing_byte [b 3, b 2, b 1, b 0] [c 3, c 2, c 1, c 0]"
  defines "f \<equiv> (\<lambda>i. from_bool (diff = Some i) :: koala)"
  defines "e \<equiv> (from_bool (diff = None) :: koala)"
  defines "cmp \<equiv> (case diff of None \<Rightarrow> (0, 0) | Some i \<Rightarrow> (b i, c i))"
  defines "B \<equiv> (\<lambda>i. from_canonical_u8 (b i) :: koala)" and "C \<equiv> (\<lambda>i. from_canonical_u8 (c i) :: koala)"
  shows "accepted (when_not (f 3) (assert_eq (B 3) (C 3)) @ when_cond e (assert_zero (f 3))
     @ when_not (f 3 + f 2) (assert_eq (B 2) (C 2)) @ when_cond e (assert_zero (f 3 + f 2))
     @ when_not (f 3 + f 2 + f 1) (assert_eq (B 1) (C 1)) @ when_cond e (assert_zero (f 3 + f 2 + f 1))
     @ when_not (f 3 + f 2 + f 1 + f 0) (assert_eq (B 0) (C 0)) @ when_cond e (assert_zero (f 3 + f 2 + f 1 + f 0)))"
    and "B 3 * f 3 + B 2 * f 2 + B 1 * f 1 + B 0 * f 0 = from_canonical_u8 (fst cmp)"
    and "C 3 * f 3 + C 2 * f 2 + C 1 * f 1 + C 0 * f 0 = from_canonical_u8 (snd cmp)"
    and "1 - e = f 0 + f 1 + f 2 + f 3" and "f 0 + f 1 + f 2 + f 3 = 0 \<or> f 0 + f 1 + f 2 + f 3 = 1"
    and "e = 1 \<or> (case diff of None \<Rightarrow> 0 | Some i \<Rightarrow> inverse (B i - C i)) * (from_canonical_u8 (fst cmp) - from_canonical_u8 (snd cmp)) = 1"
  using differing_byte_cases [of b c, folded diff_def]
  by (elim disjE conjE; simp add: f_def e_def cmp_def B_def C_def from_bool_def)+

lemma drop_7_eq_iff: "drop_bit 7 x = drop_bit 7 (y :: u8) \<longleftrightarrow> bit x 7 = bit y 7"
proof -
  have "drop_bit 7 z = (of_bool (bit z 7) :: u8)" for z :: u8
  proof (rule bit_word_eqI)
    fix n
    show "bit (drop_bit 7 z) n = bit (of_bool (bit z 7) :: u8) n"
      by (cases n) (auto simp: bit_simps dest: bit_imp_le_length)
  qed
  then show ?thesis by auto
qed

lemma lt_compare_complete:
  fixes x y :: u32 and slt :: bool
  defines "b \<equiv> lt_comp_bytes slt x" and "c \<equiv> lt_comp_bytes slt y"
  defines "l \<equiv> (case differing_byte [b 3, b 2, b 1, b 0] [c 3, c 2, c 1, c 0] of None \<Rightarrow> False | Some i \<Rightarrow> b i < c i)"
  shows "(if slt then sint x < sint y else x < y) =
    (if slt then (if bit (byte_at x 3) 7 = bit (byte_at y 3) 7 then l else bit (byte_at x 3) 7) else l)"
proof (cases slt)
  case True
  define N where "N z = unat (byte_at z 0) + 256 * unat (byte_at z 1) + 65536 * unat (byte_at z 2)
      + 16777216 * unat (byte_at z 3 AND 0x7f)" for z :: u32
  have top: "sint z = int (N z) - 2147483648 * of_bool (bit (byte_at z 3) 7)" for z
    using lt_top [of "word_from z" "byte_at z 3"] by (simp add: word_from_def N_def)
  have less: "N z < 2147483648" for z
    using unat_byte_less [of "byte_at z 0"] unat_byte_less [of "byte_at z 1"] unat_byte_less [of "byte_at z 2"]
      mask_byte_less [of "byte_at z 3"] by (simp add: N_def)
  have "l \<longleftrightarrow> N x < N y"
    unfolding l_def differing_byte_less by (simp add: b_def c_def lt_comp_bytes_def True N_def)
  then show ?thesis unfolding top using True less [of x] less [of y] by auto
next
  case False
  have "l \<longleftrightarrow> unat x < unat y"
    unfolding l_def differing_byte_less using limb_number_word_from [of x] limb_number_word_from [of y]
    by (simp add: b_def c_def lt_comp_bytes_def False limb_number_def word_from_def)
  then show ?thesis using False by (simp add: word_less_nat_alt)
qed

lemma word_from_bool:
  fixes r :: bool
  shows "word_from (if r then 1 else 0) 0 = (from_bool r :: koala)" "word_from (if r then 1 else 0) 1 = (0 :: koala)"
    "word_from (if r then 1 else 0) 2 = (0 :: koala)" "word_from (if r then 1 else 0) 3 = (0 :: koala)"
  by (simp_all add: word_from_def from_canonical_u8_def unat_byte_at from_bool_def del: of_nat_unat)

lemma lt_complete:
  assumes "valid_alu e" "alu_opcode e \<in> {Op_SLT, Op_SLTU}"
  shows "accepted (lt_eval (fst (lt_event_to_row e))) \<and>
    instruction_receives (lt_eval (fst (lt_event_to_row e))) = [alu_event_message e] \<and>
    byte_sends (lt_eval (fst (lt_event_to_row e))) = map byte_event_values (snd (lt_event_to_row e :: koala lt_cols \<times> _))"
proof -
  define slt where "slt \<longleftrightarrow> alu_opcode e = Op_SLT"
  define b c where "b = lt_comp_bytes slt (alu_b e)" and "c = lt_comp_bytes slt (alu_c e)"
  define diff where "diff = differing_byte [b 3, b 2, b 1, b 0] [c 3, c 2, c 1, c 0]"
  define l where "l \<longleftrightarrow> (case diff of None \<Rightarrow> False | Some i \<Rightarrow> b i < c i)"
  define cmp where "cmp = (case diff of None \<Rightarrow> (0, 0) | Some i \<Rightarrow> (b i, c i))"
  define p q where "p = byte_at (alu_b e) 3" and "q = byte_at (alu_c e) 3"
  define row where "row = (fst (lt_event_to_row e) :: koala lt_cols)"
  note loop = lt_loop_complete [where b = b and c = c, folded diff_def cmp_def]
  have R: "lt_pc row = from_canonical_u32 (alu_pc e)" "lt_next_pc row = from_canonical_u32 (alu_next_pc e)"
    "lt_is_slt row = from_bool slt" "lt_is_sltu row = from_bool (alu_opcode e = Op_SLTU)"
    "lt_a row = word_from (alu_a e)" "lt_b row = word_from (alu_b e)" "lt_c row = word_from (alu_c e)"
    "lt_byte_flags row = (\<lambda>i. from_bool (diff = Some i))"
    "lt_b_masked row = from_canonical_u8 (p AND 0x7f)" "lt_c_masked row = from_canonical_u8 (q AND 0x7f)"
    "lt_not_eq_inv row = (case diff of None \<Rightarrow> 0 | Some i \<Rightarrow> inverse (from_canonical_u8 (b i) - from_canonical_u8 (c i)))"
    "lt_msb_b row = from_bool (bit p 7)" "lt_msb_c row = from_bool (bit q 7)"
    "lt_bit_b row = from_bool (bit p 7) * from_bool slt" "lt_bit_c row = from_bool (bit q 7) * from_bool slt"
    "lt_sltu row = from_bool l" "lt_is_comp_eq row = from_bool (diff = None)"
    "lt_is_sign_eq row = (if slt then from_bool (bit p 7 = bit q 7) else 1)"
    "lt_comparison_bytes row 0 = from_canonical_u8 (fst cmp)" "lt_comparison_bytes row 1 = from_canonical_u8 (snd cmp)"
    unfolding row_def lt_event_to_row_def Let_def fst_conv slt_def [symmetric] b_def [symmetric] c_def [symmetric]
      diff_def [symmetric] l_def [symmetric] cmp_def [symmetric] top_bit_field drop_7_eq_iff p_def q_def
    by simp_all
  have slt_cases: "slt \<and> alu_opcode e = Op_SLT \<or> \<not> slt \<and> alu_opcode e = Op_SLTU" using assms(2) by (auto simp: slt_def)
  have W: "word_from (alu_b e) 0 = (from_canonical_u8 (b 0) :: koala)" "word_from (alu_c e) 0 = (from_canonical_u8 (c 0) :: koala)"
    "word_from (alu_b e) 1 = (from_canonical_u8 (b 1) :: koala)" "word_from (alu_c e) 1 = (from_canonical_u8 (c 1) :: koala)"
    "word_from (alu_b e) 2 = (from_canonical_u8 (b 2) :: koala)" "word_from (alu_c e) 2 = (from_canonical_u8 (c 2) :: koala)"
    by (simp_all add: word_from_def b_def c_def lt_comp_bytes_def)
  have W3: "word_from (alu_b e) 3 = (from_canonical_u8 p :: koala)" "word_from (alu_c e) 3 = (from_canonical_u8 q :: koala)"
    by (simp_all add: word_from_def p_def q_def)
  have comp3: "word_from (alu_b e) 3 * from_bool (alu_opcode e = Op_SLTU) + from_canonical_u8 (p AND 0x7f) * from_bool slt
      = (from_canonical_u8 (b 3) :: koala)"
    "word_from (alu_c e) 3 * from_bool (alu_opcode e = Op_SLTU) + from_canonical_u8 (q AND 0x7f) * from_bool slt
      = (from_canonical_u8 (c 3) :: koala)"
    using slt_cases by (auto simp: word_from_def from_bool_def b_def c_def p_def q_def lt_comp_bytes_def)
  have real: "from_bool slt + from_bool (alu_opcode e = Op_SLTU) = (1 :: koala)"
    using slt_cases by (auto simp: from_bool_def)
  have res: "alu_a e = (if (if slt then sint (alu_b e) < sint (alu_c e) else alu_b e < alu_c e) then 1 else 0)"
    using assms slt_cases by (auto simp: valid_alu_def alu_op_def alu_result_def split: if_splits)
  have l: "(if slt then sint (alu_b e) < sint (alu_c e) else alu_b e < alu_c e) =
      (if slt then (if bit p 7 = bit q 7 then l else bit p 7) else l)"
    using lt_compare_complete [where x = "alu_b e" and y = "alu_c e" and slt = slt] unfolding l_def diff_def b_def c_def p_def q_def by simp
  have a: "word_from (alu_a e) 0 = (from_bool (bit p 7) * from_bool slt * (1 - from_bool (bit q 7) * from_bool slt)
      + (if slt then from_bool (bit p 7 = bit q 7) else 1) * from_bool l :: koala)"
    "word_from (alu_a e) 1 = (0 :: koala)" "word_from (alu_a e) 2 = (0 :: koala)" "word_from (alu_a e) 3 = (0 :: koala)"
    using word_from_bool [of "if slt then sint (alu_b e) < sint (alu_c e) else alu_b e < alu_c e"] res l
    by (auto simp: from_bool_def)
  have ltu: "in_byte_table [byte_opcode_as_field B_LTU, from_bool l, 0, from_canonical_u8 (fst cmp), from_canonical_u8 (snd cmp)]"
    by (auto simp: byte_table_ltu l_def cmp_def word_less_nat_alt split: option.splits)
  have mask: "in_byte_table [byte_opcode_as_field B_AND, from_canonical_u8 (r AND 0x7f), 0, from_canonical_u8 r, 127]" for r
    by (auto simp: byte_table_mask)
  have flag_sum: "from_bool slt = (0 :: koala) \<or> from_bool slt = (1 :: koala)" for slt by (simp add: from_bool_def)
  have sign: "(if slt then from_bool (bit p 7 = bit q 7) else 1) = (0 :: koala) \<or>
      from_bool (bit p 7) * from_bool slt = (from_bool (bit q 7) * from_bool slt :: koala)"
    "(if slt then from_bool (bit p 7 = bit q 7) else 1) = (1 :: koala) \<or>
      from_bool (bit p 7) * from_bool slt + from_bool (bit q 7) * from_bool slt = (1 :: koala)"
    "(if slt then from_bool (bit p 7 = bit q 7) else 1) = (0 :: koala) \<or>
     (if slt then from_bool (bit p 7 = bit q 7) else 1) = (1 :: koala)"
    by (cases slt; cases "bit p 7"; cases "bit q 7"; simp add: from_bool_def)+
  have "accepted (lt_eval row)"
    unfolding lt_eval_def lt_byte_loop_eq Let_def prod.case R real comp3 W loop(2,3) a accepted_append
    by (intro conjI;
        ((insert loop(1) [unfolded accepted_append], elim conjE, assumption)
         | (simp only: W3 top_msb accepted_simps; fail)
         | (simp add: W3 ltu mask flag_sum loop(4,5) del: One_nat_def; fail)
         | (insert sign loop(6), simp del: One_nat_def; fail)
         | (cases slt; cases "bit p 7"; cases "bit q 7"; simp add: from_bool_def; fail)))
  moreover have "instruction_receives (lt_eval row) = [alu_event_message e]"
    using slt_cases by (auto simp: lt_eval_def Let_def R alu_event_message_def from_bool_def)
  moreover have "byte_sends (lt_eval row) = map byte_event_values (snd (lt_event_to_row e :: koala lt_cols \<times> _))"
  proof -
    have blu: "snd (lt_event_to_row e :: koala lt_cols \<times> byte_lookup_event list) =
        [byte_lookup_event_new B_AND (ucast (p AND 0x7f)) 0 p 0x7f, byte_lookup_event_new B_AND (ucast (q AND 0x7f)) 0 q 0x7f,
         byte_lookup_event_new B_LTU (ucast (of_bool l :: u8)) 0 (fst cmp) (snd cmp)]"
      unfolding lt_event_to_row_def Let_def snd_conv slt_def [symmetric] b_def [symmetric] c_def [symmetric]
        diff_def [symmetric] l_def [symmetric] cmp_def [symmetric] p_def q_def ..
    have "from_canonical_u8 (of_bool l) = (from_bool l :: koala)" "from_canonical_u8 0x7f = (127 :: koala)"
      by (simp_all add: from_canonical_u8_def from_bool_def)
    then show ?thesis
      unfolding blu list.map byte_event_values_u8 lt_eval_def lt_byte_loop_eq Let_def prod.case R real byte_sends_append
      by (simp add: W3 del: One_nat_def)
  qed
  ultimately show ?thesis unfolding row_def by blast
qed

interpretation lt_chip: alu_chip lt_eval lt_event_to_row lt_padding
    "\<lambda>e. valid_alu e \<and> alu_opcode e \<in> {Op_SLT, Op_SLTU}" alu_event_message "\<lambda>_. {#}"
proof
  show "accepted (lt_eval lt_padding)" "instruction_receives (lt_eval lt_padding) = []" "instruction_sends (lt_eval lt_padding) = []"
    "byte_sends (lt_eval lt_padding) = []"
    by (simp_all add: lt_eval_def lt_byte_loop_eq lt_padding_def Let_def zero_word_def mk_word_def)
  show "alu_message_valid m" if "accepted (lt_eval r)" "m \<in> set (instruction_receives (lt_eval r))" "operands_ok m" for r m
    using that by (rule lt_sound)
qed (elim conjE, simp add: lt_complete)

end
