(* ===== verification/Air_Gadgets.thy ===== *)
theory Air_Gadgets
  imports Alu_Chip
begin

text \<open>
  Facts shared by the chips that select one of several cases by flags: loops of assertions over an index, bit
  decompositions of a byte, and one-hot arrays of flags.
\<close>

unbundle bit_operations_syntax

section \<open>Bytes of a 64-bit word\<close>

definition byte_at_u64 :: "u64 \<Rightarrow> nat \<Rightarrow> u8" where
  "byte_at_u64 w i = ucast (drop_bit (8 * i) w)"

lemma bit_byte_at_u64: "bit (byte_at_u64 w k) i \<longleftrightarrow> i < 8 \<and> bit w (8 * k + i)"
  by (auto simp: byte_at_u64_def bit_simps)

section \<open>Loops of builder operations\<close>

lemma when_cond_concat [simp]: "when_cond c (concat xss) = concat (map (when_cond c) xss)"
  by (induction xss) (simp_all add: when_cond_def)

lemma accepted_loop [simp]: "accepted (concat (map f [0..<n])) \<longleftrightarrow> (\<forall>i<n. accepted (f i))"
  by (auto simp: accepted_concat)

lemma byte_sends_concat [simp]: "byte_sends (concat xss) = concat (map byte_sends xss)"
  by (induction xss) simp_all

lemma instruction_receives_concat [simp]: "instruction_receives (concat xss) = concat (map instruction_receives xss)"
  by (induction xss) simp_all

lemma instruction_sends_concat [simp]: "instruction_sends (concat xss) = concat (map instruction_sends xss)"
  by (induction xss) simp_all

lemma concat_map_Nil [simp]: "(\<And>x. x \<in> set xs \<Longrightarrow> f x = []) \<Longrightarrow> concat (map f xs) = []"
  by simp

lemma byte_sends_range_checks_map:
  "m \<noteq> 0 \<Longrightarrow> byte_sends (slice_range_check_u8 (map (from_canonical_u8 \<circ> f) xs) m) =
     map byte_event_values (add_u8_range_checks (map f xs))"
  using byte_sends_range_checks [of m "map f xs"] by simp

section \<open>Bits of a byte\<close>

lemma from_bool_simps [simp]:
  "from_bool True = 1" "from_bool False = 0" "(from_bool p :: 'f::field) = 0 \<longleftrightarrow> \<not> p" "(from_bool p :: 'f::field) = 1 \<longleftrightarrow> p"
  by (auto simp: from_bool_def)

lemma from_bool_cases: "from_bool p = (0 :: 'f::field) \<or> from_bool p = (1 :: 'f::field)"
  by (simp add: from_bool_def)

lemma of_bool_bit: "of_bool (bit n k) = (n :: nat) div 2 ^ k mod 2"
  by (simp add: bit_iff_odd mod_2_eq_odd)

lemma nat_mod_8: "(n :: nat) mod 8 = of_bool (bit n 0) + 2 * of_bool (bit n 1) + 4 * of_bool (bit n 2)"
proof -
  have "n mod 8 = 2 * (n div 2 mod 4) + n mod 2" using mod_mult2_eq [of n 2 4] by simp
  moreover have "n div 2 mod 4 = 2 * (n div 2 div 2 mod 2) + n div 2 mod 2" using mod_mult2_eq [of "n div 2" 2 2] by simp
  ultimately show ?thesis unfolding of_bool_bit by (simp add: div_mult2_eq [symmetric])
qed

lemma nat_div_8_mod_4: "(n :: nat) div 8 mod 4 = of_bool (bit n 3) + 2 * of_bool (bit n 4)"
proof -
  have "n div 8 mod 4 = 2 * (n div 8 div 2 mod 2) + n div 8 mod 2" using mod_mult2_eq [of "n div 8" 2 2] by simp
  then show ?thesis unfolding of_bool_bit by (simp add: div_mult2_eq [symmetric])
qed

lemma byte_as_bits: "of_nat (unat (p :: u8)) = sum_list (map (\<lambda>i. of_nat (2 ^ i) * (from_bool (bit p i) :: 'f::field)) [0..<8])"
proof -
  have "unat p = take_bit 8 (unat p)" using unat_byte_less [of p] by (simp add: take_bit_nat_eq_self)
  also have "\<dots> = (\<Sum>i = 0..<8. 2 ^ i * of_bool (bit p i))"
    by (simp add: take_bit_sum push_bit_eq_mult mult.commute bit_unsigned_iff cong: sum.cong)
  finally have "of_nat (unat p) = (of_nat (\<Sum>i = 0..<8. 2 ^ i * of_bool (bit p i)) :: 'f)" by (rule arg_cong)
  also have "\<dots> = (\<Sum>i = 0..<8. of_nat (2 ^ i) * from_bool (bit p i))"
    by (auto simp: from_bool_def of_bool_def simp del: of_nat_power intro: sum.cong)
  finally show ?thesis by (simp only: interv_sum_list_conv_sum_set_nat set_upt)
qed

lemma bits_of_byte:
  fixes s :: "nat \<Rightarrow> koala"
  assumes "\<And>i. i < 8 \<Longrightarrow> s i = 0 \<or> s i = 1" and "sum_list (map (\<lambda>i. of_nat (2 ^ i) * s i) [0..<8]) = c"
  obtains p :: u8 where "c = from_canonical_u8 p" "\<And>i. i < 8 \<Longrightarrow> s i = from_bool (bit p i)"
proof
  define p :: u8 where "p = horner_sum of_bool 2 (map (\<lambda>i. s i = 1) [0..<8])"
  have bit: "bit p i \<longleftrightarrow> s i = 1" if "i < 8" for i
    using that by (simp add: p_def bit_horner_sum_bit_iff)
  show s: "s i = from_bool (bit p i)" if "i < 8" for i
    using assms(1) [OF that] bit [OF that] by (auto simp: from_bool_def)
  have "map (\<lambda>i. of_nat (2 ^ i) * s i) [0..<8] = map (\<lambda>i. of_nat (2 ^ i) * from_bool (bit p i)) [0..<8]"
    by (rule map_cong) (simp_all add: s)
  then show "c = from_canonical_u8 p" using assms(2) by (simp only: byte_as_bits from_canonical_u8_def)
qed

section \<open>One-hot flags\<close>

lemma one_hot_sum: "sum_list (map (\<lambda>i. from_bool (k = i) :: 'f::field) [0..<n]) = from_bool (k < n)"
  by (induction n) (auto simp: from_bool_def)

lemma one_hot:
  assumes "sum_list (map s [0..<n]) = (1 :: koala)" "\<And>i. i < n \<Longrightarrow> s i = 0 \<or> s i = 1"
  obtains k where "k < n" "s k = 1"
proof -
  have "\<not> (\<forall>k<n. s k = 0)"
  proof
    assume "\<forall>k<n. s k = 0"
    then have "sum_list (map s [0..<n]) = 0" by (induction n) auto
    then show False using assms(1) by simp
  qed
  then show ?thesis using assms(2) that by blast
qed

section \<open>The shift amount\<close>

lemma byte_word_nth: "byte_word w \<Longrightarrow> i < 4 \<Longrightarrow> is_byte (w i)"
  by (auto simp: byte_word_def limb_list_def less_Suc_eq numeral_eq_Suc)

lemma byte_at_0_to_u32: "byte_word w \<Longrightarrow> w 0 = from_canonical_u8 p \<Longrightarrow> byte_at (to_u32 w) 0 = p"
  using byte_at_to_u32(1) [of w] by simp

lemma shamt_low_byte: "shamt c = 8 * (unat (byte_at c 0) div 8 mod 4) + unat (byte_at c 0) mod 8"
proof -
  have b: "unat (byte_at c 0) = unat c mod 256" by (simp add: unat_byte_at)
  have "unat c mod 256 = 8 * (unat c div 8 mod 32) + unat c mod 8" using mod_mult2_eq [of "unat c" 8 32] by simp
  then have "unat c mod 256 div 8 = unat c div 8 mod 32" "unat c mod 256 mod 8 = unat c mod 8" by simp_all
  moreover have "unat c div 8 mod 32 mod 4 = unat c div 8 mod 4" by (rule mod_mod_cancel) simp
  moreover have "unat c mod 32 = 8 * (unat c div 8 mod 4) + unat c mod 8" using mod_mult2_eq [of "unat c" 8 4] by simp
  ultimately show ?thesis by (simp only: shamt_eq b)
qed

lemma canon_0 [simp]: "canon 0 = 0"
  using canon_of_nat [of 0] by simp

lemma small_index: "(of_nat m :: koala) = of_nat n \<Longrightarrow> m < 256 \<Longrightarrow> n < 256 \<Longrightarrow> m = n"
  by (simp add: of_nat_koala_inj)

lemma shift_bits_amount:
  fixes p :: u8
  assumes "\<And>i. i < 8 \<Longrightarrow> s i = (from_bool (bit p i) :: koala)"
  shows "sum_list (map (\<lambda>i. s i * of_nat (2 ^ i)) [0..<3]) = of_nat (unat p mod 8)"
    and "s 3 + s 4 * 2 = of_nat (unat p div 8 mod 4)"
proof -
  have u: "[0..<3] = [0, 1, 2 :: nat]" by (simp add: upt_rec numeral_2_eq_2)
  show "sum_list (map (\<lambda>i. s i * of_nat (2 ^ i)) [0..<3]) = of_nat (unat p mod 8)"
    unfolding u nat_mod_8 by (simp add: assms bit_unsigned_iff from_bool_def)
  show "s 3 + s 4 * 2 = of_nat (unat p div 8 mod 4)"
    unfolding nat_div_8_mod_4 by (simp add: assms bit_unsigned_iff from_bool_def)
qed

lemma bit_as_field: "from_canonical_u32 (drop_bit i c AND 1) = (from_bool (bit c i) :: 'f::field)"
proof -
  have "drop_bit i c AND 1 = (of_bool (bit c i) :: u32)" by (simp add: bit_iff_odd_drop_bit and_one_eq odd_iff_mod_2_eq_one mod2_eq_if)
  then show ?thesis by (simp add: from_bool_def from_canonical_u32_def)
qed

lemma bit_low_byte: "i < 8 \<Longrightarrow> bit c i = bit (byte_at c 0) i"
  by (simp add: bit_byte_at)

lemma le_bytes_nth [simp]: "length (le_bytes v) = 4" "i < 4 \<Longrightarrow> le_bytes v ! i = byte_at v i"
  by (simp_all add: le_bytes_def)

lemma map_nth_4: "length xs = 4 \<Longrightarrow> [xs ! 0, xs ! 1, xs ! 2, xs ! 3] = xs"
  by (auto simp: length_Suc_conv numeral_eq_Suc)

lemma unat_ucast_u8_u32 [simp]: "unat (ucast (b :: u8) :: u32) = unat b"
  using unat_byte_less [of b] by (simp add: unsigned_ucast_eq take_bit_eq_mod)

lemma unat_ucast_u32_u8: "unat (v :: u32) < 256 \<Longrightarrow> unat (ucast v :: u8) = unat v"
  by (simp add: unsigned_ucast_eq take_bit_eq_mod)

lemma shift_amount_complete:
  "sum_list (map (\<lambda>i. of_nat (2 ^ i) * from_bool (bit c i)) [0..<8]) = (word_from c 0 :: koala)"
  "sum_list (map (\<lambda>i. from_bool (bit c i) * of_nat (2 ^ i)) [0..<3]) = (of_nat (unat (byte_at c 0) mod 8) :: koala)"
  "from_bool (bit c 3) + from_bool (bit c 4) * 2 = (of_nat (unat (byte_at c 0) div 8 mod 4) :: koala)"
proof -
  have "map (\<lambda>i. of_nat (2 ^ i) * (from_bool (bit c i) :: koala)) [0..<8] =
      map (\<lambda>i. of_nat (2 ^ i) * from_bool (bit (byte_at c 0) i)) [0..<8]"
    by (rule map_cong) (simp_all add: bit_low_byte)
  then show "sum_list (map (\<lambda>i. of_nat (2 ^ i) * from_bool (bit c i)) [0..<8]) = (word_from c 0 :: koala)"
    by (simp only: byte_as_bits [symmetric] word_from_def from_canonical_u8_def)
qed (rule shift_bits_amount, simp add: bit_low_byte)+

lemma shift_amount_cases:
  fixes c :: u32
  defines "k \<equiv> unat (byte_at c 0) mod 8" and "n \<equiv> unat (byte_at c 0) div 8 mod 4"
  shows "unat c mod 8 = k" "unat (c AND 0x1F) div 8 = n" "k < 8" "n < 4" "shamt c = 8 * n + k"
proof -
  show "k < 8" "n < 4" by (simp_all add: k_def n_def)
  show s: "shamt c = 8 * n + k" by (simp add: k_def n_def shamt_low_byte)
  show "unat (c AND 0x1F) div 8 = n" using s \<open>k < 8\<close> by (simp add: shamt_def)
  have "unat c mod 32 mod 8 = unat c mod 8" by (rule mod_mod_cancel) simp
  then show "unat c mod 8 = k" using s \<open>k < 8\<close> by (simp add: shamt_eq)
qed

lemma byte_at_to_u32_nth: "byte_word w \<Longrightarrow> i < 4 \<Longrightarrow> from_canonical_u8 (byte_at (to_u32 w) i) = w i"
  using byte_at_to_u32 [of w] by (auto simp: less_Suc_eq numeral_eq_Suc)

lemma one_hot_weighted:
  "sum_list (map (\<lambda>i. f i * (from_bool (k = i) :: 'f::field)) [0..<n]) = (if k < n then f k else 0)"
  by (induction n) (auto simp: from_bool_def less_Suc_eq)

lemma weighted_cong:
  assumes "\<And>i. i < n \<Longrightarrow> s i = from_bool (k = i)" "k < n"
  shows "sum_list (map (\<lambda>i. f i * (s i :: 'f::field)) [0..<n]) = f k"
proof -
  have "map (\<lambda>i. f i * s i) [0..<n] = map (\<lambda>i. f i * from_bool (k = i)) [0..<n]" by (rule map_cong) (simp_all add: assms(1))
  then show ?thesis by (simp only: one_hot_weighted assms(2) if_True)
qed

lemma accepted_rev_loop [simp]: "accepted (concat (map f (rev [0..<n]))) \<longleftrightarrow> (\<forall>i<n. accepted (f i))"
  by (auto simp: accepted_concat)

lemma of_nat_byte: "k < 256 \<Longrightarrow> (of_nat k :: koala) = from_canonical_u8 (of_nat k)"
  by (simp only: from_canonical_u8_def unsigned_of_nat take_bit_eq_mod) simp

end
