(* ===== verification/Shift_Left_Chip.thy ===== *)
theory Shift_Left_Chip
  imports Air_Gadgets
begin

text \<open>
  The chip for \<open>SLL\<close> (\<^verbatim>\<open>crates/core/machine/src/alu/sll/mod.rs\<close>): the operand is multiplied by two to the number of
  bits with byte carries, then moved by whole bytes.
\<close>

unbundle bit_operations_syntax

record 'f shift_left_cols =
  sl_pc :: 'f
  sl_next_pc :: 'f
  sl_a :: "'f limbs"
  sl_b :: "'f limbs"
  sl_c :: "'f limbs"
  sl_c_least_sig_byte :: "nat \<Rightarrow> 'f"
  sl_shift_by_n_bits :: "nat \<Rightarrow> 'f"
  sl_bit_shift_multiplier :: 'f
  sl_bit_shift_result :: "nat \<Rightarrow> 'f"
  sl_bit_shift_result_carry :: "nat \<Rightarrow> 'f"
  sl_shift_by_n_bytes :: "nat \<Rightarrow> 'f"
  sl_is_real :: 'f

text \<open>The carry loop: the result byte and the outgoing carry for every byte of the operand.\<close>

fun bit_shift_loop :: "u32 \<Rightarrow> u32 \<Rightarrow> u8 list \<Rightarrow> (u8 \<times> u8) list" where
  "bit_shift_loop multiplier carry [] = []"
| "bit_shift_loop multiplier carry (b # bs) =
     (let v = ucast b * multiplier + carry; carry' = v div 256 in
      (ucast (v mod 256), ucast carry') # bit_shift_loop multiplier carry' bs)"

definition shift_left_event_to_row :: "alu_event \<Rightarrow> 'f::field shift_left_cols \<times> byte_lookup_event list" where
  "shift_left_event_to_row event =
     (let num_bits_to_shift = unat (alu_c event) mod 8;
          bit_shift_multiplier = push_bit num_bits_to_shift 1 :: u32;
          shifted = bit_shift_loop bit_shift_multiplier 0 (le_bytes (alu_b event));
          bit_shift_result = map fst shifted; bit_shift_result_carry = map snd shifted;
          num_bytes_to_shift = unat (alu_c event AND 0x1F) div 8 in
      (\<lparr>sl_pc = from_canonical_u32 (alu_pc event), sl_next_pc = from_canonical_u32 (alu_next_pc event),
        sl_a = word_from (alu_a event), sl_b = word_from (alu_b event), sl_c = word_from (alu_c event),
        sl_c_least_sig_byte = (\<lambda>i. from_canonical_u32 (drop_bit i (alu_c event) AND 1)),
        sl_shift_by_n_bits = (\<lambda>i. from_bool (num_bits_to_shift = i)),
        sl_bit_shift_multiplier = from_canonical_u32 bit_shift_multiplier,
        sl_bit_shift_result = (\<lambda>i. from_canonical_u8 (bit_shift_result ! i)),
        sl_bit_shift_result_carry = (\<lambda>i. from_canonical_u8 (bit_shift_result_carry ! i)),
        sl_shift_by_n_bytes = (\<lambda>i. from_bool (num_bytes_to_shift = i)),
        sl_is_real = 1\<rparr>,
       add_u8_range_checks bit_shift_result @ add_u8_range_checks bit_shift_result_carry))"

definition shift_left_padding :: "'f::field shift_left_cols" where
  "shift_left_padding = \<lparr>sl_pc = 0, sl_next_pc = 0, sl_a = zero_word, sl_b = zero_word, sl_c = zero_word,
     sl_c_least_sig_byte = (\<lambda>_. 0), sl_shift_by_n_bits = (\<lambda>i. from_bool (i = 0)), sl_bit_shift_multiplier = 1,
     sl_bit_shift_result = (\<lambda>_. 0), sl_bit_shift_result_carry = (\<lambda>_. 0),
     sl_shift_by_n_bytes = (\<lambda>i. from_bool (i = 0)), sl_is_real = 0\<rparr>"

definition shift_left_eval :: "'f::field shift_left_cols \<Rightarrow> 'f air_op list" where
  "shift_left_eval local =
     (let a = sl_a local; b = sl_b local; c = sl_c local; c_bits = sl_c_least_sig_byte local;
          by_bits = sl_shift_by_n_bits local; by_bytes = sl_shift_by_n_bytes local;
          multiplier = sl_bit_shift_multiplier local; result = sl_bit_shift_result local;
          carry = sl_bit_shift_result_carry local; is_real = sl_is_real local;
          c_byte_sum = sum_list (map (\<lambda>i. of_nat (2 ^ i) * c_bits i) [0..<8]);
          num_bits_to_shift = sum_list (map (\<lambda>i. c_bits i * of_nat (2 ^ i)) [0..<3]);
          num_bytes_to_shift = c_bits 3 + c_bits 4 * 2 in
      assert_eq c_byte_sum (c 0)
      @ concat (map (\<lambda>i. when_cond (by_bits i) (assert_eq num_bits_to_shift (of_nat i))) [0..<8])
      @ concat (map (\<lambda>i. when_cond (by_bits i) (assert_eq multiplier (of_nat (2 ^ i)))) [0..<8])
      @ concat (map (\<lambda>i. assert_eq (result i)
          (let v = b i * multiplier - carry i * 256 in if i > 0 then v + carry (i - 1) else v)) [0..<4])
      @ concat (map (\<lambda>i. when_cond (by_bytes i) (assert_eq num_bytes_to_shift (of_nat i))) [0..<4])
      @ concat (map (\<lambda>n. when_cond (by_bytes n)
          (concat (map (\<lambda>i. assert_eq (a i) (if i < n then 0 else result (i - n))) [0..<4]))) [0..<4])
      @ concat (map (\<lambda>i. assert_bool (c_bits i)) [0..<8])
      @ concat (map (\<lambda>i. assert_bool (by_bits i)) [0..<8])
      @ assert_eq (sum_list (map by_bits [0..<8])) 1
      @ slice_range_check_u8 (limb_list result) is_real
      @ slice_range_check_u8 (limb_list carry) is_real
      @ concat (map (\<lambda>i. assert_bool (by_bytes i)) [0..<4])
      @ assert_eq (sum_list (map by_bytes [0..<4])) 1
      @ assert_bool is_real
      @ receive_instruction
          (instruction_values 0 0 (sl_pc local) (sl_next_pc local) (sl_next_pc local + 4) 0 (opcode_as_field Op_SLL)
             a b c zero_word 0 0 0 0 1) is_real)"

section \<open>Soundness\<close>

lemma u32_multiples [simp]: "(1099511627776 :: u32) = 0" "(281474976710656 :: u32) = 0"
  by simp_all

lemma shl_limb:
  assumes "is_byte b" "is_byte r" "is_byte c" "is_byte c'" "m \<le> 128" "r = b * of_nat m - c * 256 + c'"
  shows "canon b * m + canon c' = canon r + 256 * canon c"
proof (rule koala_nat_eqI)
  show "(of_nat (canon b * m + canon c') :: koala) = of_nat (canon r + 256 * canon c)"
    using assms(6) by (simp add: algebra_simps)
  have "canon b * m \<le> 255 * 128" using assms(1,5) by (intro mult_mono) (simp_all add: is_byte_def)
  then show "canon b * m + canon c' < 2130706433" using assms(4) by (simp add: is_byte_def)
  show "canon r + 256 * canon c < 2130706433" using assms(2,3) by (simp add: is_byte_def)
qed

lemma shl_limbs:
  assumes B: "byte_word b" "byte_word r" "byte_word c" and "m \<le> 128"
    and eq: "\<And>i. i < 4 \<Longrightarrow> r i = (if i > 0 then b i * of_nat m - c i * 256 + c (i - 1) else b i * of_nat m - c i * 256)"
  shows "to_u32 r = to_u32 b * of_nat m"
proof -
  note B = byte_wordD [OF B(1)] byte_wordD [OF B(2)] byte_wordD [OF B(3)]
  have "canon (b 0) * m + canon 0 = canon (r 0) + 256 * canon (c 0)"
    by (rule shl_limb) (use B assms(4) eq [of 0] in simp_all)
  moreover have "canon (b 1) * m + canon (c 0) = canon (r 1) + 256 * canon (c 1)"
    by (rule shl_limb) (use B assms(4) eq [of 1] in simp_all)
  moreover have "canon (b 2) * m + canon (c 1) = canon (r 2) + 256 * canon (c 2)"
    by (rule shl_limb) (use B assms(4) eq [of 2] in simp_all)
  moreover have "canon (b 3) * m + canon (c 2) = canon (r 3) + 256 * canon (c 3)"
    by (rule shl_limb) (use B assms(4) eq [of 3] in simp_all)
  ultimately have "limb_number b * m = limb_number r + 4294967296 * canon (c 3)"
    by (simp add: limb_number_def distrib_right)
  then have "(of_nat (limb_number b * m) :: u32) = of_nat (limb_number r + 4294967296 * canon (c 3))" by (simp only:)
  then show ?thesis by (simp add: to_u32_def u32_modulus)
qed

lemma move_bytes:
  assumes B: "byte_word r" and "n < 4" and a: "\<And>i. i < 4 \<Longrightarrow> a i = (if i < n then 0 else r (i - n))"
  shows "byte_word a \<and> to_u32 a = to_u32 r * 2 ^ (8 * n)"
proof -
  have "is_byte (a i)" if "i < 4" for i
    using a [OF that] B that by (auto intro!: byte_word_nth)
  then have "byte_word a" by (simp add: byte_word_def limb_list_def)
  moreover have "n = 0 \<or> n = 1 \<or> n = 2 \<or> n = 3" using assms(2) by auto
  then have "to_u32 a = to_u32 r * 2 ^ (8 * n)"
    using a [of 0] a [of 1] a [of 2] a [of 3]
    by (elim disjE) (simp_all add: to_u32_def limb_number_def algebra_simps u32_modulus numeral_2_eq_2 numeral_3_eq_3)
  ultimately show ?thesis by simp
qed

lemma shift_left_sound:
  assumes acc: "accepted (shift_left_eval row)" and m: "m \<in> set (instruction_receives (shift_left_eval row))"
    and ok: "operands_ok m"
  shows "alu_message_valid m"
proof -
  let ?a = "sl_a row" and ?b = "sl_b row" and ?c = "sl_c row" and ?s = "sl_c_least_sig_byte row"
  have m_eq: "m = instruction_values 0 0 (sl_pc row) (sl_next_pc row) (sl_next_pc row + 4) 0 (opcode_as_field Op_SLL)
       ?a ?b ?c zero_word 0 0 0 0 1" and real: "sl_is_real row \<noteq> 0"
    using m by (auto simp: shift_left_eval_def Let_def split: if_splits)
  note acc = acc [unfolded shift_left_eval_def Let_def accepted_append accepted_loop when_cond_simps when_cond_concat
      accepted_simps map_map]
  obtain p where p: "?c 0 = from_canonical_u8 p" "\<And>i. i < 8 \<Longrightarrow> ?s i = from_bool (bit p i)"
    by (rule bits_of_byte [of ?s "?c 0"]) (use acc in blast)+
  note B = operands_okD [OF ok [unfolded m_eq] refl]
  have B: "byte_word ?b" "byte_word ?c" by (rule B; simp add: p(1))+
  note amount = shift_bits_amount [of ?s p, OF p(2)]
  obtain k where k: "k < 8" "sl_shift_by_n_bits row k = 1"
    by (rule one_hot [of "sl_shift_by_n_bits row" 8]) (use acc in blast)+
  obtain n where n: "n < 4" "sl_shift_by_n_bytes row n = 1"
    by (rule one_hot [of "sl_shift_by_n_bytes row" 4]) (use acc in blast)+
  have "sum_list (map (\<lambda>i. ?s i * of_nat (2 ^ i)) [0..<3]) = of_nat k" "sl_bit_shift_multiplier row = of_nat (2 ^ k)"
    using acc k by auto
  then have k_eq: "unat p mod 8 = k" and mult: "sl_bit_shift_multiplier row = of_nat (2 ^ k)"
    using amount(1) k(1) by (auto intro: small_index)
  have "?s 3 + ?s 4 * 2 = of_nat n" using acc n by auto
  then have n_eq: "unat p div 8 mod 4 = n" using amount(2) n(1) by (auto intro: small_index)
  have R: "byte_word (sl_bit_shift_result row)" "byte_word (sl_bit_shift_result_carry row)"
    using acc real by (auto simp: byte_word_def)
  have "(2 :: nat) ^ k \<le> 2 ^ 7" using k(1) by (intro power_increasing) auto
  then have "to_u32 (sl_bit_shift_result row) = to_u32 ?b * of_nat (2 ^ k)"
    by (intro shl_limbs [OF B(1) R]) (use acc in \<open>auto simp: mult\<close>)
  moreover have "byte_word ?a \<and> to_u32 ?a = to_u32 (sl_bit_shift_result row) * 2 ^ (8 * n)"
    by (rule move_bytes [OF R(1) n(1)]) (use acc n in auto)
  moreover have "shamt (to_u32 ?c) = 8 * n + k"
    using byte_at_0_to_u32 [OF B(2) p(1)] k_eq n_eq by (simp add: shamt_low_byte)
  ultimately have "byte_word ?a" "to_u32 ?a = push_bit (shamt (to_u32 ?c)) (to_u32 ?b)"
    by (simp_all add: push_bit_eq_mult power_add mult.assoc mult.commute)
  then show ?thesis unfolding m_eq
    by (intro alu_message_validI [where op = Op_SLL]) (use B in \<open>simp_all add: alu_computes_def alu_op_def alu_result_def\<close>)
qed

section \<open>Completeness\<close>

lemma unat_push_bit_1: "k < 8 \<Longrightarrow> unat (push_bit k 1 :: u32) = 2 ^ k"
proof -
  assume "k < 8"
  then have "(2 :: nat) ^ k \<le> 2 ^ 7" by (intro power_increasing) auto
  moreover have "(push_bit k 1 :: u32) = of_nat (2 ^ k)" by simp
  ultimately show ?thesis by (simp only: unsigned_of_nat take_bit_eq_mod) simp
qed

lemma bit_shift_step:
  fixes b :: u8 and carry :: u32
  assumes "k < 8" "unat carry < 128"
  defines "v \<equiv> ucast b * push_bit k 1 + carry"
  shows "unat b * 2 ^ k + unat carry = unat (ucast (v mod 256) :: u8) + 256 * unat (ucast (v div 256) :: u8)"
    and "unat (v div 256) < 128" and "unat (ucast (v div 256) :: u8) = unat (v div 256)"
proof -
  have "(2 :: nat) ^ k \<le> 2 ^ 7" using assms(1) by (intro power_increasing) auto
  then have "unat b * 2 ^ k \<le> 255 * 128" using unat_byte_less [of b] by (intro mult_mono) auto
  then have small: "unat b * 2 ^ k + unat carry < 32768" using assms(2) by simp
  moreover have "unat (push_bit k 1 :: u32) = 2 ^ k" by (rule unat_push_bit_1 [OF assms(1)])
  ultimately have v: "unat v = unat b * 2 ^ k + unat carry"
    unfolding v_def by (simp add: unat_word_ariths del: push_bit_of_1)
  show d: "unat (v div 256) < 128" using v small by (simp add: unat_div)
  show e: "unat (ucast (v div 256) :: u8) = unat (v div 256)" using d by (simp add: unat_ucast_u32_u8)
  have "unat (ucast (v mod 256) :: u8) = unat v mod 256" by (simp add: unat_ucast_u32_u8 unat_mod)
  then show "unat b * 2 ^ k + unat carry = unat (ucast (v mod 256) :: u8) + 256 * unat (ucast (v div 256) :: u8)"
    unfolding e by (simp add: v unat_div)
qed

lemma length_bit_shift_loop [simp]: "length (bit_shift_loop m carry bs) = length bs"
  by (induction bs arbitrary: carry) (simp_all add: Let_def)

lemma bit_shift_loop_carries:
  assumes "k < 8" "unat carry < 128" "i < length bs"
  shows "unat (bs ! i) * 2 ^ k +
      (if i > 0 then unat (snd (bit_shift_loop (push_bit k 1) carry bs ! (i - 1))) else unat carry) =
    unat (fst (bit_shift_loop (push_bit k 1) carry bs ! i)) + 256 * unat (snd (bit_shift_loop (push_bit k 1) carry bs ! i))"
  using assms(2,3)
proof (induction bs arbitrary: carry i)
  case (Cons b bs)
  note step = bit_shift_step [OF assms(1) Cons.prems(1), of b]
  show ?case
  proof (cases i)
    case 0
    then show ?thesis using step(1) by (simp add: Let_def)
  next
    case (Suc j)
    then show ?thesis using Cons.IH [OF step(2), of j] Cons.prems step(3) by (cases j) (simp_all add: Let_def)
  qed
qed simp

lemma byte_at_push: "byte_at (push_bit (8 * n) w) i = (if i < 4 then if i < n then 0 else byte_at w (i - n) else 0)"
  by (rule bit_word_eqI) (auto simp: bit_byte_at bit_simps diff_mult_distrib2)

lemma shift_left_result:
  fixes b :: u32
  assumes "k < 8" "i < 4"
  shows "fst (bit_shift_loop (push_bit k 1) 0 (le_bytes b) ! i) = byte_at (push_bit k b) i"
proof -
  define xs where "xs = bit_shift_loop (push_bit k 1) 0 (le_bytes b)"
  define r c where "r i = unat (fst (xs ! i))" and "c i = unat (snd (xs ! i))" for i
  note step = bit_shift_loop_carries [OF assms(1), of 0 _ "le_bytes b", folded xs_def, simplified]
  have bs: "length (le_bytes b) = 4" "le_bytes b ! 0 = byte_at b 0" "le_bytes b ! 1 = byte_at b 1"
    "le_bytes b ! 2 = byte_at b 2" "le_bytes b ! 3 = byte_at b 3" by (simp_all add: le_bytes_eq)
  have s: "unat (byte_at b 0) * 2 ^ k = r 0 + 256 * c 0" "unat (byte_at b 1) * 2 ^ k + c 0 = r 1 + 256 * c 1"
    "unat (byte_at b 2) * 2 ^ k + c 1 = r 2 + 256 * c 2" "unat (byte_at b 3) * 2 ^ k + c 2 = r 3 + 256 * c 3"
    using step [of 0] step [of 1] step [of 2] step [of 3] by (simp_all add: bs [unfolded One_nat_def] r_def c_def)
  define R where "R = r 0 + 256 * r 1 + 65536 * r 2 + 16777216 * r 3"
  have less: "r i < 256" for i by (simp add: r_def unat_byte_less)
  have b: "unat b = unat (byte_at b 0) + 256 * unat (byte_at b 1) + 65536 * unat (byte_at b 2) + 16777216 * unat (byte_at b 3)"
    using limb_number_word_from [of b] by (simp add: limb_number_def word_from_def)
  have "unat b * 2 ^ k = unat (byte_at b 0) * 2 ^ k + 256 * (unat (byte_at b 1) * 2 ^ k)
      + 65536 * (unat (byte_at b 2) * 2 ^ k) + 16777216 * (unat (byte_at b 3) * 2 ^ k)"
    by (subst b) (simp only: distrib_right mult.assoc)
  then have "unat b * 2 ^ k = R + 4294967296 * c 3" using s by (simp add: R_def)
  moreover have "R < 4294967296" using less [of 0] less [of 1] less [of 2] less [of 3] by (simp add: R_def)
  moreover have "push_bit k b = of_nat (unat b * 2 ^ k)" by (simp add: push_bit_eq_mult)
  ultimately have "unat (push_bit k b) = R" by (simp only: unsigned_of_nat take_bit_eq_mod) simp
  then have "unat (byte_at (push_bit k b) 0) = r 0 \<and> unat (byte_at (push_bit k b) 1) = r 1 \<and>
      unat (byte_at (push_bit k b) 2) = r 2 \<and> unat (byte_at (push_bit k b) 3) = r 3"
    using limb_number_word_from [of "push_bit k b"] less unat_byte_less
    by (intro bytes_unique) (simp_all add: R_def limb_number_def word_from_def)
  then have "unat (fst (xs ! i)) = unat (byte_at (push_bit k b) i)"
    using assms(2) by (auto simp: r_def less_Suc_eq numeral_eq_Suc)
  then show ?thesis by (simp add: xs_def unsigned_word_eqI)
qed

lemma shift_left_complete:
  assumes "valid_alu e" "alu_opcode e = Op_SLL" "shift_left_event_to_row e = (row, blu)"
  shows "accepted (shift_left_eval row) \<and> instruction_receives (shift_left_eval row) = [alu_event_message e] \<and>
    byte_sends (shift_left_eval row) = map byte_event_values blu"
proof -
  let ?b = "alu_b e" and ?c = "alu_c e" and ?p = "byte_at (alu_c e) 0"
  define k n where "k = unat ?p mod 8" and "n = unat ?p div 8 mod 4"
  define xs where "xs = bit_shift_loop (push_bit k 1) 0 (le_bytes ?b)"
  note kn = shift_amount_cases [of ?c, folded k_def n_def]
  have row: "row = \<lparr>sl_pc = from_canonical_u32 (alu_pc e), sl_next_pc = from_canonical_u32 (alu_next_pc e),
        sl_a = word_from (alu_a e), sl_b = word_from ?b, sl_c = word_from ?c,
        sl_c_least_sig_byte = (\<lambda>i. from_bool (bit ?c i)), sl_shift_by_n_bits = (\<lambda>i. from_bool (k = i)),
        sl_bit_shift_multiplier = from_canonical_u32 (push_bit k 1),
        sl_bit_shift_result = (\<lambda>i. from_canonical_u8 (map fst xs ! i)),
        sl_bit_shift_result_carry = (\<lambda>i. from_canonical_u8 (map snd xs ! i)),
        sl_shift_by_n_bytes = (\<lambda>i. from_bool (n = i)), sl_is_real = 1\<rparr>"
    and blu: "blu = add_u8_range_checks (map fst xs) @ add_u8_range_checks (map snd xs)"
    using assms(3) unfolding shift_left_event_to_row_def Let_def kn bit_as_field xs_def [symmetric] by simp_all
  have len: "length xs = 4" by (simp add: xs_def le_bytes_def)
  have mult: "from_canonical_u32 (push_bit k 1) = (of_nat (2 ^ k) :: koala)"
    using kn(3) by (simp only: from_canonical_u32_def unat_push_bit_1)
  note amount = shift_amount_complete [of ?c, folded k_def n_def]
  have limbs: "limb_list (\<lambda>i. from_canonical_u8 (map f xs ! i)) = map from_canonical_u8 (map f xs)" for f :: "u8 \<times> u8 \<Rightarrow> u8"
    using map_nth_4 [of "map (from_canonical_u8 \<circ> f) xs"] len by (simp add: limb_list_def)
  have step: "(from_canonical_u8 (map fst xs ! i) :: koala) =
      (let v = word_from ?b i * of_nat (2 ^ k) - from_canonical_u8 (map snd xs ! i) * 256 in
       if i > 0 then v + from_canonical_u8 (map snd xs ! (i - 1)) else v)" if "i < 4" for i
  proof -
    let ?carry = "if i > 0 then unat (snd (xs ! (i - 1))) else 0"
    have "unat (byte_at ?b i) * 2 ^ k + ?carry = unat (fst (xs ! i)) + 256 * unat (snd (xs ! i))"
      using bit_shift_loop_carries [OF kn(3), of 0 i "le_bytes ?b", folded xs_def] that by auto
    then have "(of_nat (unat (byte_at ?b i) * 2 ^ k + ?carry) :: koala) = of_nat (unat (fst (xs ! i)) + 256 * unat (snd (xs ! i)))"
      by (rule arg_cong)
    then show ?thesis using that len
      by (auto simp: Let_def word_from_def from_canonical_u8_def algebra_simps simp del: of_nat_unat)
  qed
  have move: "word_from (alu_a e) i = (if i < n then 0 else from_canonical_u8 (map fst xs ! (i - n)) :: koala)" if "i < 4" for i
  proof -
    have "alu_a e = push_bit (8 * n) (push_bit k ?b)"
      using assms(1,2) kn(5) by (simp add: valid_alu_def alu_op_def alu_result_def)
    then have "byte_at (alu_a e) i = (if i < n then 0 else byte_at (push_bit k ?b) (i - n))"
      using that by (simp only: byte_at_push if_True)
    then show ?thesis using that len shift_left_result [OF kn(3), of "i - n" ?b, folded xs_def]
      by (simp add: word_from_def)
  qed
  have "accepted (shift_left_eval row)"
    unfolding shift_left_eval_def Let_def row shift_left_cols.simps mult amount one_hot_sum limbs accepted_append accepted_loop
    by (intro conjI; simp add: kn(3,4) step [unfolded Let_def] move list_all_iff)
  moreover have "instruction_receives (shift_left_eval row) = [alu_event_message e]"
    by (simp add: shift_left_eval_def Let_def row alu_event_message_def assms(2))
  moreover have "byte_sends (shift_left_eval row) = map byte_event_values blu"
    unfolding shift_left_eval_def Let_def row shift_left_cols.simps limbs blu by (simp add: byte_sends_range_checks_map)
  ultimately show ?thesis by blast
qed

lemma shift_left_no_sends [simp]: "instruction_sends (shift_left_eval row) = []"
  by (simp add: shift_left_eval_def Let_def)

interpretation shift_left_chip: alu_chip shift_left_eval shift_left_event_to_row shift_left_padding
    "\<lambda>e. valid_alu e \<and> alu_opcode e = Op_SLL" alu_event_message "\<lambda>_. {#}"
proof
  show "accepted (shift_left_eval shift_left_padding)"
    by (simp add: shift_left_eval_def shift_left_padding_def Let_def zero_word_def mk_word_def upt_rec)
  show "instruction_receives (shift_left_eval shift_left_padding) = []" "instruction_sends (shift_left_eval shift_left_padding) = []" "byte_sends (shift_left_eval shift_left_padding) = []"
    by (simp_all add: shift_left_eval_def shift_left_padding_def Let_def)
  show "alu_message_valid m" if "accepted (shift_left_eval r)" "m \<in> set (instruction_receives (shift_left_eval r))" "operands_ok m" for r m
    using that by (rule shift_left_sound)
qed (elim conjE, simp add: shift_left_complete [OF _ _ surjective_pairing])

end
