(* ===== verification/Shift_Right_Chip.thy ===== *)
theory Shift_Right_Chip
  imports Air_Gadgets
begin

text \<open>
  The chip for \<open>SRL\<close>, \<open>SRA\<close> and \<open>ROR\<close> (\<^verbatim>\<open>crates/core/machine/src/alu/sr/mod.rs\<close>, \<^verbatim>\<open>sr/utils.rs\<close>): the operand is
  extended to 64 bits, moved by whole bytes and then shifted byte by byte with the \<open>ShrCarry\<close> lookup.
\<close>

unbundle bit_operations_syntax

record 'f shift_right_cols =
  sr_pc :: 'f
  sr_next_pc :: 'f
  sr_b :: "'f limbs"
  sr_c :: "'f limbs"
  sr_shift_by_n_bits :: "nat \<Rightarrow> 'f"
  sr_shift_by_n_bytes :: "nat \<Rightarrow> 'f"
  sr_byte_shift_result :: "nat \<Rightarrow> 'f"
  sr_bit_shift_result :: "nat \<Rightarrow> 'f"
  sr_shr_carry_output_carry :: "nat \<Rightarrow> 'f"
  sr_shr_carry_output_shifted_byte :: "nat \<Rightarrow> 'f"
  sr_b_msb :: 'f
  sr_c_least_sig_byte :: "nat \<Rightarrow> 'f"
  sr_is_srl :: 'f
  sr_is_ror :: 'f
  sr_is_sra :: 'f
  sr_is_real :: 'f

definition nb_bytes_to_shift :: "u32 \<Rightarrow> nat" where
  "nb_bytes_to_shift shift_amount = unat (shift_amount mod 32) div 8"

definition nb_bits_to_shift :: "u32 \<Rightarrow> nat" where
  "nb_bits_to_shift shift_amount = unat (shift_amount mod 32) mod 8"

definition sr_extend :: "opcode \<Rightarrow> u32 \<Rightarrow> u64" where
  "sr_extend op b =
     (if op = Op_SRA then scast b
      else if op = Op_ROR then push_bit 32 (ucast b) OR ucast b
      else ucast b)"

text \<open>The two loops of \<open>event_to_row\<close>: the bytes moved by \<open>num_bytes_to_shift\<close>, and the bytes shifted by \<open>num_bits_to_shift\<close>,
  most significant first, with the carry of the previous byte.\<close>

definition sr_byte_shift :: "u64 \<Rightarrow> nat \<Rightarrow> nat \<Rightarrow> u8" where
  "sr_byte_shift sign_extended_b num_bytes_to_shift i =
     (if i + num_bytes_to_shift < 8 then byte_at_u64 sign_extended_b (i + num_bytes_to_shift) else 0)"

definition sr_bit_shift :: "(nat \<Rightarrow> u8) \<Rightarrow> nat \<Rightarrow> nat \<Rightarrow> u8" where
  "sr_bit_shift byte_shift_result num_bits_to_shift i =
     (let carry_multiplier = push_bit (8 - num_bits_to_shift) 1 :: u32;
          shift = fst (shr_carry (byte_shift_result i) (of_nat num_bits_to_shift));
          last_carry = (if i + 1 < 8 then ucast (snd (shr_carry (byte_shift_result (i + 1)) (of_nat num_bits_to_shift))) else 0) in
      ucast ((ucast shift + last_carry * carry_multiplier) AND 0xff))"

definition shift_right_event_to_row :: "alu_event \<Rightarrow> 'f::field shift_right_cols \<times> byte_lookup_event list" where
  "shift_right_event_to_row event =
     (let op = alu_opcode event; b = alu_b event; c = alu_c event;
          most_significant_byte = byte_at b 3;
          num_bytes_to_shift = nb_bytes_to_shift c; num_bits_to_shift = nb_bits_to_shift c;
          byte_shift_result = sr_byte_shift (sr_extend op b) num_bytes_to_shift;
          bit_shift_result = sr_bit_shift byte_shift_result num_bits_to_shift;
          shifted = (\<lambda>i. fst (shr_carry (byte_shift_result i) (of_nat num_bits_to_shift)));
          carry = (\<lambda>i. snd (shr_carry (byte_shift_result i) (of_nat num_bits_to_shift))) in
      (\<lparr>sr_pc = from_canonical_u32 (alu_pc event), sr_next_pc = from_canonical_u32 (alu_next_pc event),
        sr_b = word_from b, sr_c = word_from c,
        sr_shift_by_n_bits = (\<lambda>i. from_bool (num_bits_to_shift = i)),
        sr_shift_by_n_bytes = (\<lambda>i. from_bool (num_bytes_to_shift = i)),
        sr_byte_shift_result = (\<lambda>i. from_canonical_u8 (byte_shift_result i)),
        sr_bit_shift_result = (\<lambda>i. from_canonical_u8 (bit_shift_result i)),
        sr_shr_carry_output_carry = (\<lambda>i. from_canonical_u8 (carry i)),
        sr_shr_carry_output_shifted_byte = (\<lambda>i. from_canonical_u8 (shifted i)),
        sr_b_msb = from_canonical_u32 (drop_bit 31 b AND 1),
        sr_c_least_sig_byte = (\<lambda>i. from_canonical_u32 (drop_bit i c AND 1)),
        sr_is_srl = from_bool (op = Op_SRL), sr_is_ror = from_bool (op = Op_ROR), sr_is_sra = from_bool (op = Op_SRA),
        sr_is_real = 1\<rparr>,
       [byte_lookup_event_new B_MSB (ucast (drop_bit 7 most_significant_byte AND 1)) 0 most_significant_byte 0]
       @ map (\<lambda>i. byte_lookup_event_new B_ShrCarry (ucast (shifted i)) (carry i) (byte_shift_result i)
             (of_nat num_bits_to_shift)) (rev [0..<8])
       @ add_u8_range_checks (map byte_shift_result [0..<8])
       @ add_u8_range_checks (map bit_shift_result [0..<8])
       @ add_u8_range_checks (map carry [0..<8])
       @ add_u8_range_checks (map shifted [0..<8])))"

definition shift_right_padding :: "'f::field shift_right_cols" where
  "shift_right_padding = \<lparr>sr_pc = 0, sr_next_pc = 0, sr_b = zero_word, sr_c = zero_word,
     sr_shift_by_n_bits = (\<lambda>i. from_bool (i = 0)), sr_shift_by_n_bytes = (\<lambda>i. from_bool (i = 0)),
     sr_byte_shift_result = (\<lambda>_. 0), sr_bit_shift_result = (\<lambda>_. 0), sr_shr_carry_output_carry = (\<lambda>_. 0),
     sr_shr_carry_output_shifted_byte = (\<lambda>_. 0), sr_b_msb = 0, sr_c_least_sig_byte = (\<lambda>_. 0),
     sr_is_srl = 0, sr_is_ror = 0, sr_is_sra = 0, sr_is_real = 0\<rparr>"

definition shift_right_eval :: "'f::field shift_right_cols \<Rightarrow> 'f air_op list" where
  "shift_right_eval local =
     (let b = sr_b local; c = sr_c local; c_bits = sr_c_least_sig_byte local; is_real = sr_is_real local;
          by_bits = sr_shift_by_n_bits local; by_bytes = sr_shift_by_n_bytes local;
          byte_shift = sr_byte_shift_result local; bit_shift = sr_bit_shift_result local;
          carry = sr_shr_carry_output_carry local; shifted = sr_shr_carry_output_shifted_byte local;
          c_byte_sum = sum_list (map (\<lambda>i. of_nat (2 ^ i) * c_bits i) [0..<8]);
          num_bits_to_shift = sum_list (map (\<lambda>i. c_bits i * of_nat (2 ^ i)) [0..<3]);
          num_bytes_to_shift = c_bits 3 + c_bits 4 * 2;
          sign_extended_b = (\<lambda>i. if i < 4 then b i
             else sr_is_sra local * sr_b_msb local * 255 + sr_is_ror local * b (i - 4));
          carry_multiplier = sum_list (map (\<lambda>i. of_nat (2 ^ (8 - i)) * by_bits i) [0..<8]) in
      send_byte (byte_opcode_as_field B_MSB) (sr_b_msb local) (b 3) 0 is_real
      @ assert_eq c_byte_sum (c 0)
      @ concat (map (\<lambda>i. when_cond (by_bits i) (assert_eq num_bits_to_shift (of_nat i))) [0..<8])
      @ assert_eq (sum_list (map by_bits [0..<8])) 1
      @ concat (map (\<lambda>i. when_cond (by_bytes i) (assert_eq num_bytes_to_shift (of_nat i))) [0..<4])
      @ assert_eq (sum_list (map by_bytes [0..<4])) 1
      @ concat (map (\<lambda>n. concat (map (\<lambda>i. when_cond (by_bytes n) (assert_eq (byte_shift i) (sign_extended_b (i + n))))
          [0..<8 - n])) [0..<4])
      @ concat (map (\<lambda>i. send_byte_pair (byte_opcode_as_field B_ShrCarry) (shifted i) (carry i) (byte_shift i)
          num_bits_to_shift is_real) (rev [0..<8]))
      @ concat (map (\<lambda>i. assert_eq (if i + 1 < 8 then shifted i + carry (i + 1) * carry_multiplier else shifted i)
          (bit_shift i)) (rev [0..<8]))
      @ assert_bool (sr_is_srl local) @ assert_bool (sr_is_sra local) @ assert_bool (sr_is_ror local)
      @ assert_bool is_real @ assert_bool (sr_b_msb local)
      @ concat (map (\<lambda>i. assert_bool (by_bytes i)) [0..<4])
      @ concat (map (\<lambda>i. assert_bool (by_bits i)) [0..<8])
      @ concat (map (\<lambda>i. assert_bool (c_bits i)) [0..<8])
      @ slice_range_check_u8 (map byte_shift [0..<8]) is_real
      @ slice_range_check_u8 (map bit_shift [0..<8]) is_real
      @ slice_range_check_u8 (map carry [0..<8]) is_real
      @ slice_range_check_u8 (map shifted [0..<8]) is_real
      @ assert_eq (sr_is_srl local + sr_is_sra local + sr_is_ror local) is_real
      @ receive_instruction
          (instruction_values 0 0 (sr_pc local) (sr_next_pc local) (sr_next_pc local + 4) 0
             (sr_is_srl local * opcode_as_field Op_SRL + sr_is_sra local * opcode_as_field Op_SRA
              + sr_is_ror local * opcode_as_field Op_ROR)
             (mk_word (bit_shift 0) (bit_shift 1) (bit_shift 2) (bit_shift 3)) b c zero_word 0 0 0 0 1) is_real)"

section \<open>Shifting bytes\<close>

lemma and_7: "(of_nat k :: u8) AND 7 = take_bit 3 (of_nat k)"
  by (simp add: take_bit_eq_mask mask_eq_exp_minus_1)

lemma shr_carry_eq:
  assumes "k < 8"
  shows "fst (shr_carry p (of_nat k)) = drop_bit k p" "snd (shr_carry p (of_nat k)) = take_bit k p"
proof -
  have k: "unat ((of_nat k :: u8) AND 7) = k"
    using assms unfolding and_7 by (subst unsigned_take_bit_eq, subst unsigned_of_nat) (simp add: take_bit_nat_eq_self)
  have "drop_bit (8 - k) (push_bit (8 - k) p) = take_bit k p" if "k \<noteq> 0"
    using assms that by (intro bit_word_eqI) (auto simp: bit_simps)
  then show "fst (shr_carry p (of_nat k)) = drop_bit k p" "snd (shr_carry p (of_nat k)) = take_bit k p"
    by (simp_all add: shr_carry_def k Let_def)
qed

text \<open>Two adjacent bytes shifted right by less than eight bits.\<close>

definition shifted_byte :: "nat \<Rightarrow> u8 \<Rightarrow> u8 \<Rightarrow> u8" where
  "shifted_byte k p q = drop_bit k p OR push_bit (8 - k) q"

lemma shifted_byte_number:
  assumes "k < 8"
  shows "unat (drop_bit k p) + unat (take_bit k q) * 2 ^ (8 - k) = unat (shifted_byte k p q)"
proof -
  have q: "push_bit (8 - k) q = push_bit (8 - k) (take_bit k q)"
    using assms by (intro bit_word_eqI) (auto simp: bit_simps)
  have pow: "(2 :: nat) ^ k * 2 ^ (8 - k) = 256" using assms by (simp flip: power_add)
  have "unat (take_bit k q) < 2 ^ k" by (simp add: unsigned_take_bit_eq)
  then have "(unat (take_bit k q) + 1) * 2 ^ (8 - k) \<le> 2 ^ k * 2 ^ (8 - k)" by (intro mult_right_mono) simp_all
  then have less: "unat (take_bit k q) * 2 ^ (8 - k) + 2 ^ (8 - k) \<le> 256" by (simp add: pow)
  then have "unat (take_bit k q) * 2 ^ (8 - k) < 256" using zero_less_power [of "2 :: nat" "8 - k"] by linarith
  then have p: "unat (push_bit (8 - k) (take_bit k q)) = unat (take_bit k q) * 2 ^ (8 - k)"
    by (subst unsigned_push_bit_eq) (simp add: push_bit_eq_mult take_bit_nat_eq_self mult.commute)
  have "unat (drop_bit k p) = unat p div 2 ^ k" by (subst unat_drop_bit_eq) (simp add: drop_bit_eq_div)
  also have "\<dots> < 2 ^ (8 - k)"
    using unat_byte_less [of p] pow by (intro less_mult_imp_div_less) (simp add: mult.commute)
  finally have "unat (drop_bit k p) + unat (push_bit (8 - k) (take_bit k q)) < 256" using less p by simp
  then have "unat (drop_bit k p + push_bit (8 - k) (take_bit k q)) = unat (drop_bit k p) + unat (push_bit (8 - k) (take_bit k q))"
    by (simp add: unat_word_ariths del: unsigned_drop_bit_eq unsigned_push_bit_eq unsigned_take_bit_eq)
  moreover have "shifted_byte k p q = drop_bit k p + push_bit (8 - k) (take_bit k q)"
    unfolding shifted_byte_def q using assms
    by (intro disjunctive_add [symmetric]) (auto simp: bit_simps dest: bit_imp_le_length)
  ultimately show ?thesis by (simp only: p)
qed

text \<open>The operand of the executor's shift, and its bytes.\<close>

lemma byte_at_drop:
  assumes "i < 4" "k < 8" "n < 4"
  shows "byte_at (ucast (drop_bit (8 * n + k) w)) i = shifted_byte k (byte_at_u64 w (i + n)) (byte_at_u64 w (i + n + 1))"
proof (rule bit_word_eqI)
  fix j
  assume "j < LENGTH(8)"
  then show "bit (byte_at (ucast (drop_bit (8 * n + k) w)) i) j =
      bit (shifted_byte k (byte_at_u64 w (i + n)) (byte_at_u64 w (i + n + 1))) j"
    using assms by (cases "k + j < 8") (auto simp: shifted_byte_def bit_byte_at bit_byte_at_u64 bit_simps algebra_simps)
qed

lemma sr_result:
  assumes "op \<in> {Op_SRL, Op_SRA, Op_ROR}"
  shows "alu_op op b c = Inr (ucast (drop_bit (shamt c) (sr_extend op b)), 0)"
proof -
  have "drop_bit (shamt c) b = ucast (drop_bit (shamt c) (ucast b :: u64))"
    by (rule bit_word_eqI) (auto simp: bit_simps dest: bit_imp_le_length)
  moreover have "signed_drop_bit (shamt c) b = ucast (drop_bit (shamt c) (scast b :: u64))"
    using shamt_less [of c] by (intro bit_word_eqI) (auto simp: bit_simps)
  moreover have "(ucast b :: u64) + push_bit 32 (ucast b) = push_bit 32 (ucast b) OR ucast b"
    by (simp add: double_word_or or.commute)
  ultimately show ?thesis using assms by (auto simp: alu_op_def alu_result_def sr_extend_def Let_def)
qed

lemma sr_extend_bytes:
  assumes "i < 4" "op \<in> {Op_SRL, Op_SRA, Op_ROR}"
  shows "byte_at_u64 (sr_extend op b) i = byte_at b i"
    "byte_at_u64 (sr_extend op b) (i + 4) =
       (if op = Op_SRA then if bit b 31 then 0xff else 0 else if op = Op_ROR then byte_at b i else 0)"
proof -
  have ff: "(0xff :: u8) = - 1" by simp
  show "byte_at_u64 (sr_extend op b) i = byte_at b i"
    using assms by (intro bit_word_eqI) (auto simp: sr_extend_def bit_byte_at bit_byte_at_u64 bit_simps dest: bit_imp_le_length)
  show "byte_at_u64 (sr_extend op b) (i + 4) =
       (if op = Op_SRA then if bit b 31 then 0xff else 0 else if op = Op_ROR then byte_at b i else 0)"
    unfolding ff using assms
    by (intro bit_word_eqI) (auto simp: sr_extend_def bit_byte_at bit_byte_at_u64 bit_simps dest: bit_imp_le_length)
qed

section \<open>Soundness\<close>

lemma sr_extended_limb:
  fixes b :: "koala limbs"
  assumes B: "byte_word b" and msb: "msb = from_bool (bit (to_u32 b) 31)"
    and op: "op \<in> {Op_SRL, Op_SRA, Op_ROR}" "sra = from_bool (op = Op_SRA)" "ror = from_bool (op = Op_ROR)"
    and "j < 8"
  shows "(if j < 4 then b j else sra * msb * 255 + ror * b (j - 4)) = from_canonical_u8 (byte_at_u64 (sr_extend op (to_u32 b)) j)"
proof (cases "j < 4")
  case True
  then show ?thesis by (simp add: sr_extend_bytes(1) [OF True op(1)] byte_at_to_u32_nth [OF B])
next
  case False
  define i where "i = j - 4"
  have i: "j = i + 4" "i < 4" using False assms(6) by (simp_all add: i_def)
  have "from_canonical_u8 0xff = (255 :: koala)" by (simp add: from_canonical_u8_def)
  then show ?thesis
    using op False i msb byte_at_to_u32_nth [OF B, of i] by (auto simp: sr_extend_bytes(2) [OF i(2) op(1)])
qed

lemma shr_carry_lookup:
  assumes "in_byte_table [byte_opcode_as_field B_ShrCarry, s, r, from_canonical_u8 p, of_nat k]" "k < 8"
  shows "s = from_canonical_u8 (drop_bit k p) \<and> r = from_canonical_u8 (take_bit k p)"
  using assms by (auto simp: byte_table_shr_carry of_nat_byte shr_carry_eq)

lemma shift_right_bits:
  fixes k :: nat and p q :: u8
  assumes "k < 8"
  shows "from_canonical_u8 (drop_bit k p) + from_canonical_u8 (take_bit k q) * of_nat (2 ^ (8 - k)) =
    (from_canonical_u8 (shifted_byte k p q) :: 'f::field)"
  unfolding from_canonical_u8_def by (simp only: shifted_byte_number [OF assms, symmetric] of_nat_add of_nat_mult)

lemma shift_right_result:
  assumes "k < 8" "n < 4" "\<And>i. i < 4 \<Longrightarrow> r i = from_canonical_u8 (shifted_byte k (byte_at_u64 w (i + n)) (byte_at_u64 w (i + n + 1)))"
  shows "byte_word (mk_word (r 0) (r 1) (r 2) (r 3)) \<and> to_u32 (mk_word (r 0) (r 1) (r 2) (r 3)) = ucast (drop_bit (8 * n + k) w)"
proof -
  let ?s = "\<lambda>i. shifted_byte k (byte_at_u64 w (i + n)) (byte_at_u64 w (i + n + 1))"
  have "limb_list (mk_word (r 0) (r 1) (r 2) (r 3)) = map from_canonical_u8 [?s 0, ?s 1, ?s 2, ?s 3]"
    using assms(3) by (simp del: One_nat_def)
  note limbs = word_from_limbs [OF this]
  have "byte_at (to_u32 (mk_word (r 0) (r 1) (r 2) (r 3))) i = ?s i" if "i < 4" for i
  proof -
    have "i = 0 \<or> i = 1 \<or> i = 2 \<or> i = 3" using that by auto
    then show ?thesis using limbs(2-5) by (elim disjE) (simp_all only:)
  qed
  then have "to_u32 (mk_word (r 0) (r 1) (r 2) (r 3)) = ucast (drop_bit (8 * n + k) w)"
    by (simp add: word_eq_bytes byte_at_drop assms)
  then show ?thesis using limbs(1) by simp
qed

lemma shift_right_flags:
  fixes srl sra ror real :: koala
  assumes "srl = 0 \<or> srl = 1" "sra = 0 \<or> sra = 1" "ror = 0 \<or> ror = 1" "real = 0 \<or> real = 1" "srl + sra + ror = real" "real \<noteq> 0"
  obtains op where "op \<in> {Op_SRL, Op_SRA, Op_ROR}" "srl = from_bool (op = Op_SRL)" "sra = from_bool (op = Op_SRA)"
    "ror = from_bool (op = Op_ROR)"
  using assms that [of Op_SRL] that [of Op_SRA] that [of Op_ROR] by (elim disjE) simp_all

lemma shift_right_sound:
  assumes acc: "accepted (shift_right_eval row)" and m: "m \<in> set (instruction_receives (shift_right_eval row))"
    and ok: "operands_ok m"
  shows "alu_message_valid m"
proof -
  let ?b = "sr_b row" and ?c = "sr_c row" and ?s = "sr_c_least_sig_byte row" and ?r = "sr_bit_shift_result row"
  have m_eq: "m = instruction_values 0 0 (sr_pc row) (sr_next_pc row) (sr_next_pc row + 4) 0
      (sr_is_srl row * opcode_as_field Op_SRL + sr_is_sra row * opcode_as_field Op_SRA + sr_is_ror row * opcode_as_field Op_ROR)
       (mk_word (?r 0) (?r 1) (?r 2) (?r 3)) ?b ?c zero_word 0 0 0 0 1" and real: "sr_is_real row \<noteq> 0"
    using m by (auto simp: shift_right_eval_def Let_def split: if_splits)
  note acc = acc [unfolded shift_right_eval_def Let_def accepted_append accepted_loop accepted_rev_loop when_cond_simps
      when_cond_concat accepted_simps accepted_send_byte map_map]
  have flags: "sr_is_srl row = 0 \<or> sr_is_srl row = 1" "sr_is_sra row = 0 \<or> sr_is_sra row = 1"
    "sr_is_ror row = 0 \<or> sr_is_ror row = 1" "sr_is_real row = 0 \<or> sr_is_real row = 1"
    "sr_is_srl row + sr_is_sra row + sr_is_ror row = sr_is_real row"
    by (insert acc, (elim conjE, assumption)+)
  obtain op where op: "op \<in> {Op_SRL, Op_SRA, Op_ROR}" "sr_is_srl row = from_bool (op = Op_SRL)"
    "sr_is_sra row = from_bool (op = Op_SRA)" "sr_is_ror row = from_bool (op = Op_ROR)"
    by (rule shift_right_flags [OF flags real])
  have bits: "\<forall>i<8. ?s i = 0 \<or> ?s i = 1" "sum_list (map (\<lambda>i. of_nat (2 ^ i) * ?s i) [0..<8]) = ?c 0"
    and sel: "\<forall>i<8. sr_shift_by_n_bits row i = 0 \<or> sr_shift_by_n_bits row i = 1"
      "\<forall>i<8. sr_shift_by_n_bits row i * (sum_list (map (\<lambda>i. ?s i * of_nat (2 ^ i)) [0..<3]) - of_nat i) = 0"
      "sum_list (map (sr_shift_by_n_bits row) [0..<8]) = 1"
    and selB: "\<forall>i<4. sr_shift_by_n_bytes row i = 0 \<or> sr_shift_by_n_bytes row i = 1"
      "\<forall>i<4. sr_shift_by_n_bytes row i * (?s 3 + ?s 4 * 2 - of_nat i) = 0"
      "sum_list (map (sr_shift_by_n_bytes row) [0..<4]) = 1"
    and msb: "sr_is_real row \<noteq> 0 \<longrightarrow> in_byte_table [byte_opcode_as_field B_MSB, sr_b_msb row, 0, ?b 3, 0]"
    and move: "\<forall>i<4. \<forall>ia<8 - i. sr_shift_by_n_bytes row i * (sr_byte_shift_result row ia -
             (if ia + i < 4 then ?b (ia + i) else sr_is_sra row * sr_b_msb row * 255 + sr_is_ror row * ?b (ia + i - 4))) = 0"
    and carry: "\<forall>i<8. sr_is_real row \<noteq> 0 \<longrightarrow> in_byte_table [byte_opcode_as_field B_ShrCarry,
           sr_shr_carry_output_shifted_byte row i, sr_shr_carry_output_carry row i, sr_byte_shift_result row i,
           sum_list (map (\<lambda>i. ?s i * of_nat (2 ^ i)) [0..<3])]"
    and result: "\<forall>i<8. (if i + 1 < 8 then sr_shr_carry_output_shifted_byte row i + sr_shr_carry_output_carry row (i + 1) *
               sum_list (map (\<lambda>i. of_nat (2 ^ (8 - i)) * sr_shift_by_n_bits row i) [0..<8])
          else sr_shr_carry_output_shifted_byte row i) = ?r i"
    by (insert acc, (elim conjE, assumption)+)
  obtain p where p: "?c 0 = from_canonical_u8 p" "\<And>i. i < 8 \<Longrightarrow> ?s i = from_bool (bit p i)"
    by (rule bits_of_byte [of ?s "?c 0"]) (use bits in simp_all)
  have "sr_is_srl row * opcode_as_field Op_SRL + sr_is_sra row * opcode_as_field Op_SRA + sr_is_ror row * opcode_as_field Op_ROR = opcode_as_field op"
    using op by auto
  note B = operands_okD [OF ok [unfolded m_eq] this]
  have B: "byte_word ?b" "byte_word ?c" by (rule B; use op(1) p(1) in auto)+
  note amount = shift_bits_amount [of ?s p, OF p(2)]
  define k n where "k = unat p mod 8" and "n = unat p div 8 mod 4"
  have kn: "k < 8" "n < 4" "shamt (to_u32 ?c) = 8 * n + k"
    using byte_at_0_to_u32 [OF B(2) p(1)] by (simp_all add: k_def n_def shamt_low_byte)
  have bits_amount: "sum_list (map (\<lambda>i. ?s i * of_nat (2 ^ i)) [0..<3]) = of_nat k"
    unfolding k_def by (rule amount(1))
  have "i = k" if "i < 8" "sr_shift_by_n_bits row i = 1" for i
    using sel(2) [rule_format, OF that(1)] that amount(1) kn(1) by (auto simp: k_def dest!: small_index)
  then have by_bits: "sr_shift_by_n_bits row i = from_bool (k = i)" if "i < 8" for i
    using one_hot [OF sel(3)] sel(1) that by (metis from_bool_simps)
  have "i = n" if "i < 4" "sr_shift_by_n_bytes row i = 1" for i
    using selB(2) [rule_format, OF that(1)] that amount(2) kn(2) by (auto simp: n_def dest!: small_index)
  then have by_bytes: "sr_shift_by_n_bytes row n = 1"
    using one_hot [OF selB(3)] selB(1) by metis
  have mult: "sum_list (map (\<lambda>i. of_nat (2 ^ (8 - i)) * sr_shift_by_n_bits row i) [0..<8]) = of_nat (2 ^ (8 - k))"
    by (rule weighted_cong) (use by_bits kn(1) in simp_all)
  define e where "e = byte_at_u64 (sr_extend op (to_u32 ?b))"
  have msb: "sr_b_msb row = from_bool (bit (to_u32 ?b) 31)"
    using msb real byte_at_to_u32_nth [OF B(1), of 3] by (auto simp: byte_table_msb bit_byte_at)
  have shift: "sr_byte_shift_result row i = from_canonical_u8 (e (i + n))" if "i < 5" for i
    using move [rule_format, of n i] by_bytes kn(2) that sr_extended_limb [OF B(1) msb op(1,3,4), of "i + n"]
    by (simp add: e_def)
  have sc: "sr_shr_carry_output_shifted_byte row i = from_canonical_u8 (drop_bit k (e (i + n))) \<and>
      sr_shr_carry_output_carry row i = from_canonical_u8 (take_bit k (e (i + n)))" if "i < 5" for i
    using carry [rule_format, of i] real that kn(1) unfolding shift [OF that] bits_amount
    by (intro shr_carry_lookup) simp_all
  have "?r i = from_canonical_u8 (shifted_byte k (e (i + n)) (e (i + n + 1)))" if "i < 4" for i
    using result [rule_format, of i, unfolded mult] that sc [of i] sc [of "i + 1"] shift_right_bits [OF kn(1), of "e (i + n)" "e (i + n + 1)", where 'f = koala]
    by simp
  note a = shift_right_result [OF kn(1,2), where w = "sr_extend op (to_u32 ?b)", folded e_def, OF this]
  show ?thesis unfolding m_eq
    by (rule alu_message_validI [where op = op])
      (use op(1) a B in \<open>auto intro!: alu_computesI simp: op(2-4) sr_result kn(3) simp del: One_nat_def\<close>)
qed

section \<open>Completeness\<close>

lemma shifted_byte_u32:
  assumes "k < 8"
  shows "ucast ((ucast (drop_bit k p) + ucast (take_bit k q) * push_bit (8 - k) 1 :: u32) AND 0xff) = shifted_byte k p q"
proof -
  have "unat (push_bit (8 - k) 1 :: u32) = 2 ^ (8 - k)"
  proof -
    have "(2 :: nat) ^ (8 - k) \<le> 2 ^ 8" by (intro power_increasing) auto
    moreover have "(push_bit (8 - k) 1 :: u32) = of_nat (2 ^ (8 - k))" by simp
    ultimately show ?thesis by (simp only: unsigned_of_nat take_bit_eq_mod) simp
  qed
  moreover have "unat (drop_bit k p) + unat (take_bit k q) * 2 ^ (8 - k) < 256"
    using shifted_byte_number [OF assms, of p q] unat_byte_less [of "shifted_byte k p q"] by simp
  ultimately have w: "unat (ucast (drop_bit k p) + ucast (take_bit k q) * push_bit (8 - k) 1 :: u32) = unat (shifted_byte k p q)"
    using shifted_byte_number [OF assms, of p q]
    by (simp add: unat_word_ariths del: push_bit_of_1 unsigned_drop_bit_eq unsigned_take_bit_eq)
  have "ucast (w AND 0xff) = (ucast w :: u8)" for w :: u32
    by (rule bit_word_eqI) (simp add: bit_simps and_0xff)
  then show ?thesis using w unat_byte_less [of "shifted_byte k p q"]
    by (intro unsigned_word_eqI [where 'a = nat]) (simp only: unat_ucast_u32_u8)
qed

lemma nb_to_shift:
  "nb_bytes_to_shift c = unat (byte_at c 0) div 8 mod 4" "nb_bits_to_shift c = unat (byte_at c 0) mod 8"
proof -
  have "unat (c mod 32) = shamt c" by (simp add: shamt_eq unat_mod)
  then show "nb_bytes_to_shift c = unat (byte_at c 0) div 8 mod 4" "nb_bits_to_shift c = unat (byte_at c 0) mod 8"
    using shift_amount_cases(3,5) [of c] by (simp_all add: nb_bytes_to_shift_def nb_bits_to_shift_def)
qed

lemma sr_bit_shift_eq:
  "k < 8 \<Longrightarrow> sr_bit_shift s k i = shifted_byte k (s i) (if i + 1 < 8 then s (i + 1) else 0)"
  using shifted_byte_u32 [of k "s i"] shifted_byte_u32 [of k "s i" 0]
  by (simp add: sr_bit_shift_def Let_def shr_carry_eq del: push_bit_of_1)

lemma sr_bit_shift_field:
  assumes "k < 8"
  shows "(if i + 1 < 8 then from_canonical_u8 (drop_bit k (s i)) + from_canonical_u8 (take_bit k (s (i + 1))) * of_nat (2 ^ (8 - k))
      else from_canonical_u8 (drop_bit k (s i))) = (from_canonical_u8 (sr_bit_shift s k i) :: koala)"
  using shift_right_bits [OF assms, of "s i" "s (i + 1)", where 'f = koala] shift_right_bits [OF assms, of "s i" 0, where 'f = koala]
  by (simp add: sr_bit_shift_eq [OF assms])

lemma shift_right_complete:
  assumes "valid_alu e" "alu_opcode e \<in> {Op_SRL, Op_SRA, Op_ROR}" "shift_right_event_to_row e = (row, blu)"
  shows "accepted (shift_right_eval row) \<and> instruction_receives (shift_right_eval row) = [alu_event_message e] \<and>
    byte_sends (shift_right_eval row) = map byte_event_values blu"
proof -
  let ?b = "alu_b e" and ?c = "alu_c e" and ?op = "alu_opcode e"
  define k n where "k = unat (byte_at ?c 0) mod 8" and "n = unat (byte_at ?c 0) div 8 mod 4"
  define s where "s = sr_byte_shift (sr_extend ?op ?b) n"
  define r where "r = sr_bit_shift s k"
  note kn = shift_amount_cases [of ?c, folded k_def n_def]
  note amount = shift_amount_complete [of ?c, folded k_def n_def]
  note def = assms(3) [unfolded shift_right_event_to_row_def Let_def nb_to_shift bit_as_field, folded k_def n_def, folded s_def,
      folded r_def, unfolded shr_carry_eq [OF kn(3)]]
  have row: "row = \<lparr>sr_pc = from_canonical_u32 (alu_pc e), sr_next_pc = from_canonical_u32 (alu_next_pc e),
        sr_b = word_from ?b, sr_c = word_from ?c, sr_shift_by_n_bits = (\<lambda>i. from_bool (k = i)),
        sr_shift_by_n_bytes = (\<lambda>i. from_bool (n = i)), sr_byte_shift_result = (\<lambda>i. from_canonical_u8 (s i)),
        sr_bit_shift_result = (\<lambda>i. from_canonical_u8 (r i)),
        sr_shr_carry_output_carry = (\<lambda>i. from_canonical_u8 (take_bit k (s i))),
        sr_shr_carry_output_shifted_byte = (\<lambda>i. from_canonical_u8 (drop_bit k (s i))),
        sr_b_msb = from_bool (bit ?b 31), sr_c_least_sig_byte = (\<lambda>i. from_bool (bit ?c i)),
        sr_is_srl = from_bool (?op = Op_SRL), sr_is_ror = from_bool (?op = Op_ROR),
        sr_is_sra = from_bool (?op = Op_SRA), sr_is_real = 1\<rparr>"
    using def by simp
  have mult: "sum_list (map (\<lambda>i. of_nat (2 ^ (8 - i)) * (from_bool (k = i) :: koala)) [0..<8]) = of_nat (2 ^ (8 - k))"
    by (rule weighted_cong) (use kn in simp_all)
  have limb: "(from_canonical_u8 (s i) :: koala) = (if i + n < 4 then word_from ?b (i + n) else
      from_bool (?op = Op_SRA) * from_bool (bit ?b 31) * 255 + from_bool (?op = Op_ROR) * word_from ?b (i + n - 4))"
    if "i < 8 - n" for i
    using sr_extended_limb [of "word_from ?b" "from_bool (bit ?b 31)" ?op, OF _ _ assms(2) refl refl, of "i + n"] less_diff_conv [THEN iffD1, OF that]
    by (simp add: s_def sr_byte_shift_def)
  have shr: "in_byte_table [byte_opcode_as_field B_ShrCarry, from_canonical_u8 (drop_bit k (s i)), from_canonical_u8 (take_bit k (s i)),
      from_canonical_u8 (s i), of_nat k]" for i
    using kn(3) by (auto simp: byte_table_shr_carry of_nat_byte shr_carry_eq)
  have msb: "in_byte_table [byte_opcode_as_field B_MSB, from_bool (bit ?b 31), 0, word_from ?b 3, 0]"
    by (auto simp: byte_table_msb word_from_def bit_byte_at)
  have real: "from_bool (?op = Op_SRL) + from_bool (?op = Op_SRA) + from_bool (?op = Op_ROR) = (1 :: koala)"
    using assms(2) by auto
  have "accepted (shift_right_eval row)"
    unfolding shift_right_eval_def Let_def row shift_right_cols.simps amount mult one_hot_sum real accepted_append accepted_loop
      accepted_rev_loop sr_bit_shift_field [OF kn(3), of _ s, folded r_def]
    by (intro conjI; ((simp add: kn(3,4) shr msb from_bool_cases list_all_iff; fail) | (simp add: limb; fail)))
  moreover have "instruction_receives (shift_right_eval row) = [alu_event_message e]"
  proof -
    have "alu_a e = ucast (drop_bit (8 * n + k) (sr_extend ?op ?b))"
      using assms(1) sr_result [OF assms(2), of ?b ?c] by (simp add: valid_alu_def kn(5))
    moreover have "from_canonical_u8 (r i) = (word_from (alu_a e) i :: koala)" if "i < 4" for i
    proof -
      have "i + n < 7" using that kn(4) by linarith
      then show ?thesis using that \<open>alu_a e = _\<close>
        by (simp add: word_from_def byte_at_drop kn r_def sr_bit_shift_eq s_def sr_byte_shift_def)
    qed
    ultimately have "limb_list (mk_word (from_canonical_u8 (r 0)) (from_canonical_u8 (r 1)) (from_canonical_u8 (r 2)) (from_canonical_u8 (r 3))) =
        (limb_list (word_from (alu_a e)) :: koala list)" by (simp add: limb_list_def [of "word_from _"])
    then show ?thesis
      unfolding shift_right_eval_def Let_def row shift_right_cols.simps alu_event_message_def instruction_values_def
      using assms(2) by auto
  qed
  moreover have "byte_sends (shift_right_eval row) = map byte_event_values blu"
  proof -
    have blu: "blu = [byte_lookup_event_new B_MSB (ucast (drop_bit 7 (byte_at ?b 3) AND 1)) 0 (byte_at ?b 3) 0]
       @ map (\<lambda>i. byte_lookup_event_new B_ShrCarry (ucast (drop_bit k (s i))) (take_bit k (s i)) (s i) (of_nat k)) (rev [0..<8])
       @ add_u8_range_checks (map s [0..<8]) @ add_u8_range_checks (map r [0..<8])
       @ add_u8_range_checks (map (\<lambda>i. take_bit k (s i)) [0..<8]) @ add_u8_range_checks (map (\<lambda>i. drop_bit k (s i)) [0..<8])"
      using def by simp
    have "from_canonical_u8 (drop_bit 7 (byte_at ?b 3) AND 1) = (from_bool (bit ?b 31) :: koala)"
      by (simp add: top_bit_field bit_byte_at)
    then show ?thesis
      unfolding shift_right_eval_def Let_def row shift_right_cols.simps blu amount
      by (simp add: byte_sends_range_checks_map [unfolded comp_def] word_from_def of_nat_byte less_trans [OF kn(3)] comp_def
          concat_map_singleton)
  qed
  ultimately show ?thesis by blast
qed

lemma shift_right_no_sends [simp]: "instruction_sends (shift_right_eval row) = []"
  by (simp add: shift_right_eval_def Let_def)

interpretation shift_right_chip: alu_chip shift_right_eval shift_right_event_to_row shift_right_padding
    "\<lambda>e. valid_alu e \<and> alu_opcode e \<in> {Op_SRL, Op_SRA, Op_ROR}" alu_event_message "\<lambda>_. {#}"
proof
  show "accepted (shift_right_eval shift_right_padding)"
    by (simp add: shift_right_eval_def shift_right_padding_def Let_def zero_word_def mk_word_def upt_rec)
  show "instruction_receives (shift_right_eval shift_right_padding) = []" "instruction_sends (shift_right_eval shift_right_padding) = []" "byte_sends (shift_right_eval shift_right_padding) = []"
    by (simp_all add: shift_right_eval_def shift_right_padding_def Let_def)
  show "alu_message_valid m" if "accepted (shift_right_eval r)" "m \<in> set (instruction_receives (shift_right_eval r))" "operands_ok m" for r m
    using that by (rule shift_right_sound)
qed (elim conjE, simp add: shift_right_complete [OF _ _ surjective_pairing])

end
