(* ===== verification/Memory_Air.thy ===== *)
theory Memory_Air
  imports Air_Gadgets
begin

text \<open>
  The columns of a memory access (\<^verbatim>\<open>crates/core/machine/src/memory/consistency/trace.rs\<close>, \<^verbatim>\<open>air/memory.rs\<close>): how they
  are filled from the record of an access, that an accepted access comes strictly after the previous access to
  its address and has byte limbs, and that the columns of every ordered record are accepted.
\<close>

unbundle bit_operations_syntax

section \<open>Trace generation\<close>

definition populate_access ::
    "memory_record \<Rightarrow> memory_record \<Rightarrow> 'f::field memory_access_cols \<times> byte_lookup_event list" where
  "populate_access cur_record prev_record =
     (let use_clk_comparison = (rec_shard prev_record = rec_shard cur_record);
          prev_time_value = (if use_clk_comparison then rec_timestamp prev_record else rec_shard prev_record);
          current_time_value = (if use_clk_comparison then rec_timestamp cur_record else rec_shard cur_record);
          diff_minus_one = current_time_value - prev_time_value - 1;
          diff_16bit_limb = ucast (diff_minus_one AND 0xffff) :: u16;
          diff_8bit_limb = drop_bit 16 diff_minus_one AND 0xff in
      (\<lparr>ma_value = word_from (rec_value cur_record), ma_prev_shard = from_canonical_u32 (rec_shard prev_record),
        ma_prev_clk = from_canonical_u32 (rec_timestamp prev_record), ma_compare_clk = from_bool use_clk_comparison,
        ma_diff_16bit_limb = of_nat (unat diff_16bit_limb), ma_diff_8bit_limb = from_canonical_u32 diff_8bit_limb\<rparr>,
       add_u8_range_checks (le_bytes (rec_value prev_record)) @ add_u8_range_checks (le_bytes (rec_value cur_record))
         @ [add_u16_range_check diff_16bit_limb, add_u8_range_check 0 (ucast diff_8bit_limb)]))"

definition memory_write_populate ::
    "memory_write_record \<Rightarrow> 'f::field memory_rw_cols \<times> byte_lookup_event list" where
  "memory_write_populate record =
     (let cur_record = \<lparr>rec_shard = wr_shard record, rec_timestamp = wr_timestamp record, rec_value = wr_value record\<rparr>;
          prev_record = \<lparr>rec_shard = wr_prev_shard record, rec_timestamp = wr_prev_timestamp record,
            rec_value = wr_prev_value record\<rparr>;
          (access, blu) = populate_access cur_record prev_record in
      (\<lparr>mrw_prev_value = word_from (rec_value prev_record), mrw_access = access\<rparr>, blu))"

definition memory_read_populate ::
    "memory_read_record \<Rightarrow> 'f::field memory_rw_cols \<times> byte_lookup_event list" where
  "memory_read_populate record =
     (let cur_record = \<lparr>rec_shard = rd_shard record, rec_timestamp = rd_timestamp record, rec_value = rd_value record\<rparr>;
          prev_record = \<lparr>rec_shard = rd_prev_shard record, rec_timestamp = rd_prev_timestamp record,
            rec_value = rd_value record\<rparr>;
          (access, blu) = populate_access cur_record prev_record in
      (\<lparr>mrw_prev_value = word_from (rec_value prev_record), mrw_access = access\<rparr>, blu))"

fun memory_populate :: "memory_record_enum \<Rightarrow> 'f::field memory_rw_cols \<times> byte_lookup_event list" where
  "memory_populate (Read read_record) = memory_read_populate read_record"
| "memory_populate (Write write_record) = memory_write_populate write_record"

section \<open>Order of accesses\<close>

lemma air_lookup_new_simps [simp]:
  "al_kind (air_lookup_new v m k) = k" "al_multiplicity (air_lookup_new v m k) = m" "al_values (air_lookup_new v m k) = v"
  by (simp_all add: air_lookup_new_def)

lemma memory_messages [simp]:
  "accepted [Send_Lookup (air_lookup_new v m LK_Memory) s, Receive_Lookup (air_lookup_new w m LK_Memory) t]"
  by (simp add: accepted_def)

lemma memory_access_silent [simp]:
  "instruction_receives (eval_memory_access shard clk addr cols do_check) = []"
  "instruction_sends (eval_memory_access shard clk addr cols do_check) = []"
  "byte_sends (eval_memory_access shard clk addr cols 0) = []"
  by (simp_all add: eval_memory_access_def eval_memory_access_timestamp_def eval_range_check_24bits_def Let_def)

text \<open>Accesses are ordered by shard, then by clock.\<close>

definition earlier :: "nat \<times> nat \<Rightarrow> nat \<times> nat \<Rightarrow> bool" where
  "earlier s t \<longleftrightarrow> fst s < fst t \<or> fst s = fst t \<and> snd s < snd t"

lemma range_check_24_sound:
  assumes "accepted (eval_range_check_24bits v limb_16 limb_8 1)"
  shows "canon v < 2 ^ 24"
proof -
  have v: "v = limb_16 + limb_8 * 2 ^ 16" and l: "canon limb_16 < 65536" "canon limb_8 < 256"
    using assms by (simp_all add: eval_range_check_24bits_def byte_table_u16 is_byte_def)
  have "v = of_nat (canon limb_16 + canon limb_8 * 2 ^ 16)" using v by simp
  moreover have "canon limb_16 + canon limb_8 * 2 ^ 16 < 2130706433" using l by simp
  ultimately have "canon v = canon limb_16 + canon limb_8 * 2 ^ 16" by (simp only: canon_of_nat)
  then show ?thesis using l by simp
qed

lemma diff_small:
  assumes "canon (x - y - 1) < 2 ^ 24" "canon x < 2 ^ 25" "canon y < 2 ^ 25"
  shows "canon y < canon x"
proof -
  have "(of_nat (canon x) :: koala) = of_nat (canon y + canon (x - y - 1) + 1)" by simp
  then have "canon x = canon y + canon (x - y - 1) + 1" using assms by (subst (asm) of_nat_koala_inj) simp_all
  then show ?thesis by simp
qed

lemma timestamp_sound:
  assumes acc: "accepted (eval_memory_access_timestamp cols 1 shard clk)"
    and small: "canon shard < 2 ^ 25" "canon clk < 2 ^ 25" "canon (ma_prev_shard cols) < 2 ^ 25" "canon (ma_prev_clk cols) < 2 ^ 25"
  shows "earlier (canon (ma_prev_shard cols), canon (ma_prev_clk cols)) (canon shard, canon clk)"
proof -
  note acc = acc [unfolded eval_memory_access_timestamp_def Let_def accepted_append]
  have "ma_compare_clk cols = 0 \<or> ma_compare_clk cols = 1" using acc by simp
  moreover have "canon (if_else (ma_compare_clk cols) clk shard -
      if_else (ma_compare_clk cols) (ma_prev_clk cols) (ma_prev_shard cols) - 1) < 2 ^ 24"
    using acc range_check_24_sound by blast
  moreover have "ma_compare_clk cols = 1 \<Longrightarrow> shard = ma_prev_shard cols" using acc by simp
  ultimately show ?thesis
    using diff_small [of clk "ma_prev_clk cols"] diff_small [of shard "ma_prev_shard cols"] small
    by (auto simp: if_else_def earlier_def)
qed

lemma memory_access_sound:
  assumes acc: "accepted (eval_memory_access shard clk addr cols do_check)" and "do_check \<noteq> 0"
  shows "do_check = 1 \<and> byte_word (mrw_prev_value cols) \<and> byte_word (ma_value (mrw_access cols)) \<and>
    accepted (eval_memory_access_timestamp (mrw_access cols) 1 shard clk)"
proof -
  note acc = acc [unfolded eval_memory_access_def Let_def accepted_append]
  then have "do_check = 1" using assms(2) by simp
  then show ?thesis using acc by (simp add: byte_word_def)
qed

section \<open>Completeness\<close>

text \<open>A record whose access comes after the previous one, by at most what the 24-bit comparison covers.\<close>

definition ordered_record :: "memory_record \<Rightarrow> memory_record \<Rightarrow> bool" where
  "ordered_record cur_record prev_record \<longleftrightarrow>
     (if rec_shard prev_record = rec_shard cur_record
      then rec_timestamp prev_record < rec_timestamp cur_record \<and>
        unat (rec_timestamp cur_record) - unat (rec_timestamp prev_record) \<le> 2 ^ 24
      else rec_shard prev_record < rec_shard cur_record \<and>
        unat (rec_shard cur_record) - unat (rec_shard prev_record) \<le> 2 ^ 24)"

lemma diff_limbs:
  fixes x y :: u32
  assumes "y < x" "unat x - unat y \<le> 2 ^ 24"
  defines "d \<equiv> x - y - 1"
  shows "of_nat (unat (ucast (d AND 0xffff) :: u16)) + from_canonical_u32 (drop_bit 16 d AND 0xff) * 2 ^ 16 =
      (from_canonical_u32 x - from_canonical_u32 y - 1 :: koala)"
    and "unat (ucast (d AND 0xffff) :: u16) < 65536" and "unat (drop_bit 16 d AND 0xff) < 256"
    and "unat (drop_bit 16 d AND 0xff) = unat (ucast (drop_bit 16 d AND 0xff) :: u8)"
proof -
  have le: "unat y < unat x" using assms(1) by (simp add: word_less_nat_alt)
  have "x - y = of_nat (unat x - unat y)" using le by (simp add: of_nat_diff)
  then have "d = of_nat (unat x - unat y - 1)" using le by (simp add: d_def of_nat_diff)
  then have d: "unat d = unat x - unat y - 1"
    using unsigned_less [of x, where 'a = nat] by (simp only: unsigned_of_nat take_bit_eq_mod) simp
  have lo: "unat (ucast (d AND 0xffff) :: u16) = unat d mod 65536"
    unfolding and_0xffff by (subst unsigned_ucast_eq, subst unsigned_take_bit_eq) (simp add: take_bit_eq_mod)
  have hi: "unat (drop_bit 16 d AND 0xff) = unat d div 65536 mod 256"
    unfolding and_0xff by (subst unsigned_take_bit_eq, subst unat_drop_bit_eq) (simp add: take_bit_eq_mod drop_bit_eq_div)
  show "unat (ucast (d AND 0xffff) :: u16) < 65536" "unat (drop_bit 16 d AND 0xff) < 256" by (simp_all only: lo hi mod_less_divisor zero_less_numeral)
  then show "unat (drop_bit 16 d AND 0xff) = unat (ucast (drop_bit 16 d AND 0xff) :: u8)" by (simp add: unat_ucast_u32_u8)
  have "unat d div 65536 mod 256 = unat d div 65536" using d assms(2) by (simp add: div_less_iff_less_mult)
  then have "unat d mod 65536 + unat d div 65536 mod 256 * 2 ^ 16 = unat d" by simp
  then have "(of_nat (unat d mod 65536 + unat d div 65536 mod 256 * 2 ^ 16) :: koala) = of_nat (unat d)" by (rule arg_cong)
  also have "\<dots> = of_nat (unat x) - of_nat (unat y) - 1" unfolding d using le by (simp add: of_nat_diff)
  finally show "of_nat (unat (ucast (d AND 0xffff) :: u16)) + from_canonical_u32 (drop_bit 16 d AND 0xff) * 2 ^ 16 =
      (from_canonical_u32 x - from_canonical_u32 y - 1 :: koala)"
    by (simp only: from_canonical_u32_def lo hi of_nat_add of_nat_mult of_nat_power of_nat_numeral)
qed

lemma memory_access_complete:
  fixes access :: "koala memory_access_cols" and addr :: koala
  assumes ord: "ordered_record cur prev" and pop: "populate_access cur prev = (access, blu)"
  defines "ops \<equiv> eval_memory_access (from_canonical_u32 (rec_shard cur)) (from_canonical_u32 (rec_timestamp cur)) addr
    \<lparr>mrw_prev_value = word_from (rec_value prev), mrw_access = access\<rparr> 1"
  shows "accepted ops" and "mset (byte_sends ops) = mset (map byte_event_values blu)"
proof -
  let ?same = "rec_shard prev = rec_shard cur"
  define x y where "x = (if ?same then rec_timestamp cur else rec_shard cur)"
    and "y = (if ?same then rec_timestamp prev else rec_shard prev)"
  define d where "d = x - y - 1"
  have xy: "y < x" "unat x - unat y \<le> 2 ^ 24" using ord by (auto simp: x_def y_def ordered_record_def)
  note D = diff_limbs [OF xy, folded d_def]
  have access: "access = \<lparr>ma_value = word_from (rec_value cur), ma_prev_shard = from_canonical_u32 (rec_shard prev),
        ma_prev_clk = from_canonical_u32 (rec_timestamp prev), ma_compare_clk = from_bool ?same,
        ma_diff_16bit_limb = of_nat (unat (ucast (d AND 0xffff) :: u16)),
        ma_diff_8bit_limb = from_canonical_u32 (drop_bit 16 d AND 0xff)\<rparr>"
    and blu: "blu = add_u8_range_checks (le_bytes (rec_value prev)) @ add_u8_range_checks (le_bytes (rec_value cur))
         @ [add_u16_range_check (ucast (d AND 0xffff)), add_u8_range_check 0 (ucast (drop_bit 16 d AND 0xff))]"
    using pop unfolding populate_access_def Let_def d_def x_def y_def by simp_all
  have hi: "from_canonical_u32 (drop_bit 16 d AND 0xff) = (from_canonical_u8 (ucast (drop_bit 16 d AND 0xff)) :: koala)"
    by (simp only: from_canonical_u32_def from_canonical_u8_def D(4))
  have val: "if_else (from_bool ?same) (from_canonical_u32 (rec_timestamp cur)) (from_canonical_u32 (rec_shard cur)) -
      if_else (from_bool ?same) (from_canonical_u32 (rec_timestamp prev)) (from_canonical_u32 (rec_shard prev)) - 1 =
      of_nat (unat (ucast (d AND 0xffff) :: u16)) + from_canonical_u32 (drop_bit 16 d AND 0xff) * (2 ^ 16 :: koala)"
    unfolding D(1) by (simp add: if_else_def x_def y_def)
  have u16: "canon (of_nat (unat (ucast (d AND 0xffff) :: u16))) < 65536"
    using D(2) by (subst canon_of_nat) auto
  show "accepted ops"
    unfolding ops_def eval_memory_access_def eval_memory_access_timestamp_def eval_range_check_24bits_def Let_def access
      memory_access_cols.simps memory_rw_cols.simps val unfolding hi
    by (simp add: byte_table_u16 u16 from_bool_cases limb_list_def word_from_def del: of_nat_unat)
  have u16_sends: "byte_event_values (add_u16_range_check v) = [byte_opcode_as_field B_U16Range, of_nat (unat v), 0, 0, 0]" for v
    by (simp add: add_u16_range_check_def byte_event_values_def byte_lookup_event_new_def)
  have u8_sends: "byte_event_values (add_u8_range_check v w) = [byte_opcode_as_field B_U8Range, 0, 0, from_canonical_u8 v, from_canonical_u8 w]" for v w
    by (simp add: add_u8_range_check_def byte_event_values_def byte_lookup_event_new_def)
  show "mset (byte_sends ops) = mset (map byte_event_values blu)"
    unfolding ops_def eval_memory_access_def eval_memory_access_timestamp_def eval_range_check_24bits_def Let_def access blu
      memory_access_cols.simps memory_rw_cols.simps hi map_append list.map u16_sends u8_sends
    by (simp add: byte_sends_range_checks flip: map_le_bytes)
qed

end
