(* ===== verification/Mul_Chip.thy ===== *)
theory Mul_Chip
  imports Memory_Air
begin

text \<open>
  The chip for \<open>MUL\<close>, \<open>MULT\<close> and \<open>MULTU\<close> (\<^verbatim>\<open>crates/core/machine/src/alu/mul/mod.rs\<close>, \<^verbatim>\<open>mul/utils.rs\<close>): schoolbook
  multiplication of byte limbs to eight digits with carries. A row of a hardware \<open>MULT\<close> or \<open>MULTU\<close> also writes the
  \<open>HI\<close> register.
\<close>

unbundle bit_operations_syntax

record 'f mul_cols =
  mul_pc :: 'f
  mul_next_pc :: 'f
  mul_hi :: "'f limbs"
  mul_a :: "'f limbs"
  mul_b :: "'f limbs"
  mul_c :: "'f limbs"
  mul_carry :: "nat \<Rightarrow> 'f"
  mul_product :: "nat \<Rightarrow> 'f"
  mul_b_msb :: 'f
  mul_c_msb :: 'f
  mul_b_sign_extend :: 'f
  mul_c_sign_extend :: 'f
  mul_is_mul :: 'f
  mul_is_mult :: 'f
  mul_is_multu :: 'f
  mul_is_real :: 'f
  mul_op_hi_access :: "'f memory_rw_cols"
  mul_hi_record_is_real :: 'f
  mul_shard :: 'f
  mul_clk :: 'f

definition PRODUCT_SIZE :: nat where "PRODUCT_SIZE = 8"

definition get_msb_of_bytes :: "u32 \<Rightarrow> u8" where
  "get_msb_of_bytes a = drop_bit 7 (byte_at a 3) AND 1"

text \<open>The double loop that accumulates the products of limbs by the sum of their positions.\<close>

definition limb_products :: "nat \<Rightarrow> nat \<Rightarrow> (nat \<Rightarrow> 'a::comm_semiring_1) \<Rightarrow> (nat \<Rightarrow> 'a) \<Rightarrow> nat \<Rightarrow> 'a" where
  "limb_products nb nc b c =
     fold (\<lambda>(i, j) m. if i + j < PRODUCT_SIZE then m(i + j := m (i + j) + b i * c j) else m)
       (List.product [0..<nb] [0..<nc]) (\<lambda>_. 0)"

text \<open>The carry loop: every digit takes the carry of the previous one.\<close>

fun mul_carry_loop :: "u32 \<Rightarrow> u32 list \<Rightarrow> (u32 \<times> u32) list" where
  "mul_carry_loop carry [] = []"
| "mul_carry_loop carry (p # ps) =
     (let v = p + carry; carry' = v div 256 in (v mod 256, carry') # mul_carry_loop carry' ps)"

text \<open>The bytes of an operand, followed by \<open>BYTE_MASK\<close> up to \<open>PRODUCT_SIZE\<close> when it is a negative operand of \<open>MULT\<close>.\<close>

definition mul_operand :: "bool \<Rightarrow> u32 \<Rightarrow> u8 list" where
  "mul_operand negative w = le_bytes w @ (if negative then replicate 4 0xff else [])"

definition mul_default_access :: "'f::field memory_rw_cols" where
  "mul_default_access = \<lparr>mrw_prev_value = zero_word,
     mrw_access = \<lparr>ma_value = zero_word, ma_prev_shard = 0, ma_prev_clk = 0, ma_compare_clk = 0, ma_diff_16bit_limb = 0,
       ma_diff_8bit_limb = 0\<rparr>\<rparr>"

definition mul_event_to_row :: "comp_alu_event \<Rightarrow> 'f::field mul_cols \<times> byte_lookup_event list" where
  "mul_event_to_row event =
     (let hi_is_real = calu_hi_record_is_real event; op = calu_opcode event;
          (hi_access, hi_blu) = (if hi_is_real then memory_populate (Write (calu_hi_record event)) else (mul_default_access, []));
          b_msb = get_msb_of_bytes (calu_b event); c_msb = get_msb_of_bytes (calu_c event);
          b_sign_extend = (op = Op_MULT \<and> b_msb = 1); c_sign_extend = (op = Op_MULT \<and> c_msb = 1);
          b = mul_operand b_sign_extend (calu_b event); c = mul_operand c_sign_extend (calu_c event);
          uncarried = limb_products (length b) (length c) (\<lambda>i. ucast (b ! i)) (\<lambda>j. ucast (c ! j));
          digits = mul_carry_loop 0 (map uncarried [0..<PRODUCT_SIZE]);
          product = map fst digits; carry = map snd digits in
      (\<lparr>mul_pc = from_canonical_u32 (calu_pc event), mul_next_pc = from_canonical_u32 (calu_next_pc event),
        mul_hi = word_from (calu_hi event), mul_a = word_from (calu_a event), mul_b = word_from (calu_b event),
        mul_c = word_from (calu_c event),
        mul_carry = (\<lambda>i. from_canonical_u32 (carry ! i)), mul_product = (\<lambda>i. from_canonical_u32 (product ! i)),
        mul_b_msb = from_canonical_u8 b_msb, mul_c_msb = from_canonical_u8 c_msb,
        mul_b_sign_extend = from_bool b_sign_extend, mul_c_sign_extend = from_bool c_sign_extend,
        mul_is_mul = from_bool (op = Op_MUL), mul_is_mult = from_bool (op = Op_MULT), mul_is_multu = from_bool (op = Op_MULTU),
        mul_is_real = 1, mul_op_hi_access = hi_access, mul_hi_record_is_real = from_bool hi_is_real,
        mul_shard = (if hi_is_real then from_canonical_u32 (calu_shard event) else 0),
        mul_clk = (if hi_is_real then from_canonical_u32 (calu_clk event) else 0)\<rparr>,
       hi_blu
       @ [byte_lookup_event_new B_MSB (ucast b_msb) 0 (byte_at (calu_b event) 3) 0,
          byte_lookup_event_new B_MSB (ucast c_msb) 0 (byte_at (calu_c event) 3) 0]
       @ add_u16_range_checks (map ucast carry) @ add_u8_range_checks (map ucast product)))"

definition mul_padding :: "'f::field mul_cols" where
  "mul_padding = \<lparr>mul_pc = 0, mul_next_pc = 0, mul_hi = zero_word, mul_a = zero_word, mul_b = zero_word, mul_c = zero_word,
     mul_carry = (\<lambda>_. 0), mul_product = (\<lambda>_. 0), mul_b_msb = 0, mul_c_msb = 0, mul_b_sign_extend = 0, mul_c_sign_extend = 0,
     mul_is_mul = 0, mul_is_mult = 0, mul_is_multu = 0, mul_is_real = 0, mul_op_hi_access = mul_default_access,
     mul_hi_record_is_real = 0, mul_shard = 0, mul_clk = 0\<rparr>"

definition mul_eval :: "'f::field mul_cols \<Rightarrow> 'f air_op list" where
  "mul_eval local =
     (let is_real = mul_is_real local; is_mul = mul_is_mul local; is_mult = mul_is_mult local; is_multu = mul_is_multu local;
          b = (\<lambda>i. if i < 4 then mul_b local i else mul_b_sign_extend local * 255);
          c = (\<lambda>i. if i < 4 then mul_c local i else mul_c_sign_extend local * 255);
          m = limb_products PRODUCT_SIZE PRODUCT_SIZE b c;
          carry = mul_carry local; product = mul_product local;
          has_hi = is_mult + is_multu; hi_is_real = mul_hi_record_is_real local in
      send_byte (byte_opcode_as_field B_MSB) (mul_b_msb local) (mul_b local 3) 0 is_real
      @ send_byte (byte_opcode_as_field B_MSB) (mul_c_msb local) (mul_c local 3) 0 is_real
      @ assert_eq (mul_b_sign_extend local) (is_mult * mul_b_msb local)
      @ assert_eq (mul_c_sign_extend local) (is_mult * mul_c_msb local)
      @ concat (map (\<lambda>i. if i = 0 then assert_eq (m i) (carry i * 256 + product i)
          else assert_eq (product i - carry (i - 1) + carry i * 256) (m i)) [0..<PRODUCT_SIZE])
      @ concat (map (\<lambda>i. assert_eq (product i) (mul_a local i)
          @ when_cond has_hi (assert_eq (product (i + 4)) (mul_hi local i))) [0..<4])
      @ assert_bool (mul_b_msb local) @ assert_bool (mul_c_msb local)
      @ assert_bool (mul_b_sign_extend local) @ assert_bool (mul_c_sign_extend local)
      @ assert_bool is_mul @ assert_bool is_mult @ assert_bool is_multu @ assert_bool is_real @ assert_bool hi_is_real
      @ when_cond (mul_b_sign_extend local) (assert_eq (mul_b_msb local) 1)
      @ when_cond (mul_c_sign_extend local) (assert_eq (mul_c_msb local) 1)
      @ when_cond is_real (assert_one (is_mul + is_mult + is_multu))
      @ slice_range_check_u16 (map carry [0..<PRODUCT_SIZE]) is_real
      @ slice_range_check_u8 (map product [0..<PRODUCT_SIZE]) is_real
      @ receive_instruction
          (instruction_values (mul_shard local) (mul_clk local) (mul_pc local) (mul_next_pc local) (mul_next_pc local + 4) 0
             (is_mul * opcode_as_field Op_MUL + is_mult * opcode_as_field Op_MULT + is_multu * opcode_as_field Op_MULTU)
             (mul_a local) (mul_b local) (mul_c local) (mul_hi local) 0 0 hi_is_real 0 1) is_real
      @ eval_memory_access (mul_shard local) (mul_clk local + from_canonical_u32 (position_offset PosHI)) 33
          (mul_op_hi_access local) hi_is_real
      @ when_not is_real (assert_zero hi_is_real)
      @ when_cond hi_is_real (assert_one (is_mult + is_multu))
      @ when_cond (is_mult + is_multu) (assert_zero ((mul_pc local - from_canonical_u32 UNUSED_PC) * (1 - hi_is_real)))
      @ when_cond hi_is_real (assert_word_eq (mul_hi local) (ma_value (mrw_access (mul_op_hi_access local))))
      @ when_not hi_is_real (assert_zero (mul_clk local))
      @ when_not hi_is_real (assert_zero (mul_shard local))
      @ when_cond is_mul (assert_word_zero (mul_hi local)))"

section \<open>Products of limbs\<close>

lemma fold_products:
  "fold (\<lambda>(i, j) m. if i + j < PRODUCT_SIZE then m(i + j := m (i + j) + b i * c j) else m) ps m k =
     m k + (if k < PRODUCT_SIZE then sum_list (map (\<lambda>(i, j). b i * c j) (filter (\<lambda>(i, j). i + j = k) ps)) else (0 :: 'a::comm_semiring_1))"
  by (induction ps arbitrary: m) (auto simp: add.assoc)

lemma limb_products_eq:
  assumes "k < 8" "nb \<le> 8" "nc \<le> 8" "\<And>i. nb \<le> i \<Longrightarrow> i < 8 \<Longrightarrow> b i = 0" "\<And>i. nc \<le> i \<Longrightarrow> i < 8 \<Longrightarrow> c i = 0"
  shows "limb_products nb nc b c k = (\<Sum>i\<le>k. b i * c (k - i))"
proof -
  let ?ps = "filter (\<lambda>(i, j). i + j = k) (List.product [0..<nb] [0..<nc])"
  have d: "distinct ?ps" by (simp add: distinct_product)
  have "limb_products nb nc b c k = (\<Sum>(i, j)\<in>set ?ps. b i * c j)"
    unfolding limb_products_def fold_products using assms(1)
    by (simp add: PRODUCT_SIZE_def sum_list_distinct_conv_sum_set [OF d])
  also have "\<dots> = (\<Sum>i | i \<le> k \<and> i < nb \<and> k - i < nc. b i * c (k - i))"
    by (rule sum.reindex_bij_witness [of _ "\<lambda>i. (i, k - i)" fst]) auto
  also have "\<dots> = (\<Sum>i\<le>k. b i * c (k - i))"
  proof (rule sum.mono_neutral_left)
    show "\<forall>i\<in>{..k} - {i. i \<le> k \<and> i < nb \<and> k - i < nc}. b i * c (k - i) = 0"
    proof
      fix i assume "i \<in> {..k} - {i. i \<le> k \<and> i < nb \<and> k - i < nc}"
      then have "nb \<le> i \<or> nc \<le> k - i" "i < 8" "k - i < 8" using assms(1) by auto
      then show "b i * c (k - i) = 0" using assms(4) [of i] assms(5) [of "k - i"] by auto
    qed
  qed auto
  finally show ?thesis .
qed

lemma u64_modulus: "(256 :: u64) ^ 8 * x = 0"
proof -
  have "(256 :: u64) ^ 8 = 0" by simp
  then show ?thesis by (simp only: mult_zero_left)
qed

text \<open>The product of two numbers of eight base-256 digits, modulo 2 to the 64.\<close>

lemma digits_product:
  fixes b c :: "nat \<Rightarrow> nat"
  shows "(of_nat (\<Sum>i<8. b i * 256 ^ i) * of_nat (\<Sum>j<8. c j * 256 ^ j) :: u64) = of_nat (\<Sum>k<8. (\<Sum>i\<le>k. b i * c (k - i)) * 256 ^ k)"
proof -
  let ?f = "\<lambda>i j. of_nat (b i * c j * 256 ^ (i + j)) :: u64"
  have zero: "?f i j = 0" if "8 \<le> i + j" for i j
  proof -
    have "(256 :: u64) ^ (i + j) = 256 ^ (8 + (i + j - 8))" using that by simp
    then have "(256 :: u64) ^ (i + j) = 0" by (simp only: power_add u64_modulus)
    then show ?thesis by simp
  qed
  have "(of_nat (\<Sum>i<8. b i * 256 ^ i) * of_nat (\<Sum>j<8. c j * 256 ^ j) :: u64) = (\<Sum>i<8. \<Sum>j<8. ?f i j)"
    by (simp add: sum_product power_add ac_simps)
  also have "\<dots> = (\<Sum>(i, j)\<in>{..<8} \<times> {..<8}. ?f i j)" by (simp add: sum.cartesian_product)
  also have "\<dots> = (\<Sum>(i, j)\<in>{(i, j). i + j < 8}. ?f i j)"
    by (rule sum.mono_neutral_right) (auto simp del: of_nat_mult of_nat_power, metis zero not_less)
  also have "\<dots> = (\<Sum>k<8. \<Sum>i\<le>k. ?f i (k - i))" by (rule sum.triangle_reindex)
  also have "\<dots> = of_nat (\<Sum>k<8. (\<Sum>i\<le>k. b i * c (k - i)) * 256 ^ k)"
    by (simp add: sum_distrib_right)
  finally show ?thesis .
qed

lemma carry_sum:
  fixes m p c :: "nat \<Rightarrow> nat"
  assumes "\<And>k. k < n \<Longrightarrow> m k + c k = p k + x * c (Suc k)"
  shows "(\<Sum>k<n. m k * x ^ k) + c 0 = (\<Sum>k<n. p k * x ^ k) + c n * x ^ n"
  using assms
proof (induction n)
  case (Suc n)
  then have "(m n + c n) * x ^ n = (p n + x * c (Suc n)) * x ^ n" by simp
  then show ?case using Suc by (simp add: algebra_simps)
qed simp

lemma digits_unique:
  fixes f g :: "nat \<Rightarrow> nat"
  assumes "(\<Sum>i<n. f i * 256 ^ i) = (\<Sum>i<n. g i * 256 ^ i)" "\<And>i. i < n \<Longrightarrow> f i < 256" "\<And>i. i < n \<Longrightarrow> g i < 256" "i < n"
  shows "f i = g i"
  using assms
proof (induction n arbitrary: f g i)
  case (Suc n)
  have s: "(\<Sum>i<Suc n. h i * 256 ^ i) = h 0 + 256 * (\<Sum>i<n. h (Suc i) * 256 ^ i)" for h :: "nat \<Rightarrow> nat"
    by (simp only: sum.lessThan_Suc_shift) (simp add: sum_distrib_left ac_simps)
  have "f 0 = g 0 \<and> (\<Sum>i<n. f (Suc i) * 256 ^ i) = (\<Sum>i<n. g (Suc i) * 256 ^ i)"
    using Suc.prems(1) unfolding s by (rule digit_unique [rotated 2]) (use Suc.prems in auto)
  then show ?case using Suc.IH [of "\<lambda>i. f (Suc i)" "\<lambda>i. g (Suc i)"] Suc.prems by (cases i) auto
qed simp

lemma digits_bound:
  fixes p :: "nat \<Rightarrow> nat"
  assumes "\<And>k. k < n \<Longrightarrow> p k < 256"
  shows "(\<Sum>k<n. p k * 256 ^ k) < 256 ^ n"
  using assms
proof (induction n)
  case (Suc n)
  have "p n * 256 ^ n \<le> 255 * 256 ^ n" using Suc.prems [of n] by (intro mult_right_mono) auto
  moreover have "(\<Sum>k<n. p k * 256 ^ k) < 256 ^ n" using Suc by simp
  ultimately show ?case unfolding sum.lessThan_Suc power_Suc by linarith
qed simp

lemma nat_digits: "n mod 256 ^ k = (\<Sum>i<k. (n div 256 ^ i mod 256) * 256 ^ i)" for n :: nat
proof (induction k)
  case (Suc k)
  have "n mod 256 ^ Suc k = 256 ^ k * (n div 256 ^ k mod 256) + n mod 256 ^ k"
    using mod_mult2_eq [of n "256 ^ k" 256] by (simp add: mult.commute)
  then show ?case using Suc by (simp add: mult.commute)
qed simp

lemma unat_byte_at_u64: "unat (byte_at_u64 w i) = unat w div 256 ^ i mod 256"
proof -
  have "unat (byte_at_u64 w i) = take_bit 8 (unat (drop_bit (8 * i) w))"
    by (simp add: byte_at_u64_def unsigned_ucast_eq del: unsigned_drop_bit_eq)
  also have "\<dots> = unat w div 2 ^ (8 * i) mod 256"
    by (subst unat_drop_bit_eq) (simp add: take_bit_eq_mod drop_bit_eq_div)
  finally show ?thesis by (simp add: power_mult)
qed

lemma u64_digits: "unat (w :: u64) = (\<Sum>i<8. unat (byte_at_u64 w i) * 256 ^ i)"
  using nat_digits [of "unat w" 8] unsigned_less [of w, where 'a = nat] by (simp add: unat_byte_at_u64)

text \<open>Digits with carries represent the 64-bit product.\<close>

lemma digits_of_product:
  fixes x y :: u64
  assumes eq: "\<And>k. k < 8 \<Longrightarrow>
      (\<Sum>i\<le>k. unat (byte_at_u64 x i) * unat (byte_at_u64 y (k - i))) + c k = p k + 256 * c (Suc k)"
    and "c 0 = 0" "\<And>k. k < 8 \<Longrightarrow> p k < 256" "i < 8"
  shows "p i = unat (byte_at_u64 (x * y) i)"
proof -
  let ?m = "\<lambda>k. \<Sum>i\<le>k. unat (byte_at_u64 x i) * unat (byte_at_u64 y (k - i))"
  have u64: "w = of_nat (\<Sum>i<8. unat (byte_at_u64 w i) * 256 ^ i)" for w :: u64
    by (simp only: u64_digits [symmetric] of_nat_unat ucast_id)
  have "x * y = of_nat (\<Sum>k<8. ?m k * 256 ^ k)" by (subst u64 [of x], subst u64 [of y]) (rule digits_product)
  also have "(\<Sum>k<8. ?m k * 256 ^ k) = (\<Sum>k<8. p k * 256 ^ k) + c 8 * 256 ^ 8"
    using carry_sum [of 8 ?m c p 256, OF eq] assms(2) by simp
  finally have "x * y = of_nat (\<Sum>k<8. p k * 256 ^ k)" using u64_modulus [of "of_nat (c 8)"] by (simp add: mult.commute)
  moreover have "(\<Sum>k<8. p k * 256 ^ k) < 256 ^ 8"
    by (rule digits_bound) (rule assms(3))
  ultimately have "unat (x * y) = (\<Sum>k<8. p k * 256 ^ k)" by (simp only: unsigned_of_nat take_bit_eq_mod) simp
  then show ?thesis
    using digits_unique [of p 8 "\<lambda>i. unat (byte_at_u64 (x * y) i)" i] u64_digits [of "x * y"] assms(3,4) unat_byte_less by simp
qed

section \<open>Soundness\<close>

definition mul_extend :: "opcode \<Rightarrow> u32 \<Rightarrow> u64" where
  "mul_extend op b = (if op = Op_MULT then scast b else ucast b)"

lemma mul_extend_bytes:
  assumes "i < 4"
  shows "byte_at_u64 (mul_extend op b) i = byte_at b i"
    "byte_at_u64 (mul_extend op b) (i + 4) = (if op = Op_MULT \<and> bit b 31 then 0xff else 0)"
proof -
  have ff: "(0xff :: u8) = - 1" by simp
  show "byte_at_u64 (mul_extend op b) i = byte_at b i"
    using assms by (intro bit_word_eqI) (auto simp: mul_extend_def bit_byte_at bit_byte_at_u64 bit_simps dest: bit_imp_le_length)
  show "byte_at_u64 (mul_extend op b) (i + 4) = (if op = Op_MULT \<and> bit b 31 then 0xff else 0)"
    unfolding ff using assms
    by (intro bit_word_eqI) (auto simp: mul_extend_def bit_byte_at_u64 bit_simps dest: bit_imp_le_length)
qed

lemma mul_extended_limb:
  fixes b :: "koala limbs"
  assumes B: "byte_word b" and ext: "sign = from_bool (op = Op_MULT \<and> bit (to_u32 b) 31)" and "j < 8"
  shows "(if j < 4 then b j else sign * 255) = from_canonical_u8 (byte_at_u64 (mul_extend op (to_u32 b)) j)"
proof (cases "j < 4")
  case True
  then show ?thesis by (simp add: mul_extend_bytes(1) byte_at_to_u32_nth [OF B])
next
  case False
  define i where "i = j - 4"
  have i: "j = i + 4" "i < 4" using False assms(3) by (simp_all add: i_def)
  have "from_canonical_u8 0xff = (255 :: koala)" by (simp add: from_canonical_u8_def)
  then show ?thesis using False by (simp add: i(1) mul_extend_bytes(2) [OF i(2)] ext)
qed

lemma alu_op_mul:
  assumes "op \<in> {Op_MUL, Op_MULT, Op_MULTU}"
  shows "alu_op op b c = Inr (ucast (mul_extend op b * mul_extend op c),
    if op = Op_MUL then 0 else ucast (drop_bit 32 (mul_extend op b * mul_extend op c)))"
proof -
  have "b * c = ucast ((ucast b :: u64) * ucast c)"
  proof (rule unsigned_word_eqI [where 'a = nat])
    have "take_bit 64 (unat z) = unat z" for z :: u32
      using unsigned_less [of z, where 'a = nat] by (simp add: take_bit_nat_eq_self)
    then have "unat ((ucast b :: u64) * ucast c) mod 4294967296 = unat b * unat c mod 4294967296"
      by (simp add: unat_word_ariths unsigned_ucast_eq mod_mod_cancel)
    then show "unat (b * c) = unat (ucast ((ucast b :: u64) * ucast c) :: u32)"
      by (simp add: unat_word_ariths unsigned_ucast_eq take_bit_eq_mod)
  qed
  then show ?thesis using assms by (auto simp: alu_op_def alu_result_def mul_extend_def lo_word_def hi_word_def Let_def)
qed

lemma limb_products_field:
  fixes b c :: "nat \<Rightarrow> koala" and x y :: u64
  assumes B: "\<And>i. i < 8 \<Longrightarrow> b i = from_canonical_u8 (byte_at_u64 x i)" "\<And>i. i < 8 \<Longrightarrow> c i = from_canonical_u8 (byte_at_u64 y i)"
    and "k < 8"
  shows "limb_products 8 8 b c k = of_nat (\<Sum>i\<le>k. unat (byte_at_u64 x i) * unat (byte_at_u64 y (k - i)))"
proof -
  have "limb_products 8 8 b c k = (\<Sum>i\<le>k. b i * c (k - i))" by (rule limb_products_eq) (use assms(3) in auto)
  also have "\<dots> = of_nat (\<Sum>i\<le>k. unat (byte_at_u64 x i) * unat (byte_at_u64 y (k - i)))"
    using assms(3) by (simp add: B from_canonical_u8_def del: of_nat_unat)
  finally show ?thesis .
qed

lemma mul_limb:
  fixes b c carry p :: "nat \<Rightarrow> koala" and x y :: u64
  assumes B: "\<And>i. i < 8 \<Longrightarrow> b i = from_canonical_u8 (byte_at_u64 x i)" "\<And>i. i < 8 \<Longrightarrow> c i = from_canonical_u8 (byte_at_u64 y i)"
    and eq: "limb_products 8 8 b c k + cin = p k + carry k * 256" and "k < 8"
    and small: "canon cin < 65536" "canon (carry k) < 65536" "canon (p k) < 256"
  shows "(\<Sum>i\<le>k. unat (byte_at_u64 x i) * unat (byte_at_u64 y (k - i))) + canon cin = canon (p k) + 256 * canon (carry k)"
proof (rule koala_nat_eqI)
  let ?m = "\<Sum>i\<le>k. unat (byte_at_u64 x i) * unat (byte_at_u64 y (k - i))"
  have "limb_products 8 8 b c k = of_nat ?m" by (rule limb_products_field [OF B assms(4)])
  then show "(of_nat (?m + canon cin) :: koala) = of_nat (canon (p k) + 256 * canon (carry k))"
    using eq by (simp add: ac_simps del: of_nat_sum)
  have "?m \<le> (\<Sum>i\<le>k. 255 * 255)"
    using unat_byte_less by (intro sum_mono mult_mono) (auto simp: less_Suc_eq_le [symmetric])
  also have "\<dots> \<le> 8 * 65025" using assms(4) by simp
  finally show "?m + canon cin < 2130706433" using small(1) by simp
  show "canon (p k) + 256 * canon (carry k) < 2130706433" using small by simp
qed

lemma byte_at_low: "i < 4 \<Longrightarrow> byte_at (ucast (w :: u64)) i = byte_at_u64 w i"
  by (rule bit_word_eqI) (auto simp: bit_byte_at bit_byte_at_u64 bit_simps)

lemma byte_at_high: "i < 4 \<Longrightarrow> byte_at (ucast (drop_bit 32 (w :: u64))) i = byte_at_u64 w (i + 4)"
  by (rule bit_word_eqI) (auto simp: bit_byte_at bit_byte_at_u64 bit_simps algebra_simps)

lemma limbs_word:
  assumes "\<And>i. i < 4 \<Longrightarrow> a i = from_canonical_u8 (byte_at w i)"
  shows "byte_word a \<and> to_u32 a = w"
proof -
  have "limb_list a = map from_canonical_u8 [byte_at w 0, byte_at w 1, byte_at w 2, byte_at w 3]"
    using assms by (simp add: limb_list_def)
  then have "limb_list a = limb_list (word_from w)" by (simp add: limb_list_def word_from_def)
  then have "byte_word a" "limb_number a = limb_number (word_from w)"
    by (simp_all add: byte_word_def limb_list_def limb_number_def word_from_def)
  then show ?thesis by (simp add: to_u32_def)
qed

lemma mul_product_sound:
  fixes row :: "koala mul_cols"
  assumes acc: "accepted (mul_eval row)" and real: "mul_is_real row = 1" and B: "byte_word (mul_b row)" "byte_word (mul_c row)"
    and op: "mul_is_mult row = from_bool (op = Op_MULT)" and "i < 8"
  shows "mul_product row i = from_canonical_u8 (byte_at_u64 (mul_extend op (to_u32 (mul_b row)) * mul_extend op (to_u32 (mul_c row))) i)"
proof -
  let ?b = "\<lambda>i. if i < 4 then mul_b row i else mul_b_sign_extend row * 255"
  let ?c = "\<lambda>i. if i < 4 then mul_c row i else mul_c_sign_extend row * 255"
  note acc = acc [unfolded mul_eval_def Let_def accepted_append accepted_loop PRODUCT_SIZE_def real]
  have msb: "accepted (send_byte (byte_opcode_as_field B_MSB) (mul_b_msb row) (mul_b row 3) 0 1)"
    "accepted (send_byte (byte_opcode_as_field B_MSB) (mul_c_msb row) (mul_c row 3) 0 1)"
    and ext: "accepted (assert_eq (mul_b_sign_extend row) (mul_is_mult row * mul_b_msb row))"
      "accepted (assert_eq (mul_c_sign_extend row) (mul_is_mult row * mul_c_msb row))"
    and eqs: "\<forall>i<8. accepted (if i = 0 then assert_eq (limb_products 8 8 ?b ?c i) (mul_carry row i * 256 + mul_product row i)
          else assert_eq (mul_product row i - mul_carry row (i - 1) + mul_carry row i * 256) (limb_products 8 8 ?b ?c i))"
    and range: "accepted (slice_range_check_u16 (map (mul_carry row) [0..<8]) 1)"
      "accepted (slice_range_check_u8 (map (mul_product row) [0..<8]) 1)"
    by (insert acc, (elim conjE, assumption)+)
  have "mul_b_msb row = from_bool (bit (to_u32 (mul_b row)) 31)" "mul_c_msb row = from_bool (bit (to_u32 (mul_c row)) 31)"
    using msb byte_at_to_u32_nth [OF B(1), of 3] byte_at_to_u32_nth [OF B(2), of 3] by (auto simp: byte_table_msb bit_byte_at)
  then have sign: "mul_b_sign_extend row = from_bool (op = Op_MULT \<and> bit (to_u32 (mul_b row)) 31)"
    "mul_c_sign_extend row = from_bool (op = Op_MULT \<and> bit (to_u32 (mul_c row)) 31)"
    using ext by (simp_all add: op from_bool_def)
  note limb = mul_extended_limb [OF B(1) sign(1)] mul_extended_limb [OF B(2) sign(2)]
  have small: "canon (mul_carry row k) < 65536" "canon (mul_product row k) < 256" if "k < 8" for k
    using range that by (auto simp: list_all_iff is_byte_def)
  define c where "c k = (case k of 0 \<Rightarrow> 0 | Suc j \<Rightarrow> canon (mul_carry row j))" for k
  have "canon (mul_product row i) =
      unat (byte_at_u64 (mul_extend op (to_u32 (mul_b row)) * mul_extend op (to_u32 (mul_c row))) i)"
  proof (rule digits_of_product [where c = c])
    fix k :: nat assume k: "k < 8"
    show "(\<Sum>i\<le>k. unat (byte_at_u64 (mul_extend op (to_u32 (mul_b row))) i) * unat (byte_at_u64 (mul_extend op (to_u32 (mul_c row))) (k - i)))
        + c k = canon (mul_product row k) + 256 * c (Suc k)"
    proof (cases k)
      case 0
      then show ?thesis
        using mul_limb [OF limb, where k = 0 and cin = 0 and p = "mul_product row" and carry = "mul_carry row"] eqs [rule_format, of 0] small [of 0]
        by (simp add: c_def add.commute)
    next
      case (Suc j)
      then show ?thesis
        using mul_limb [OF limb, where k = k and cin = "mul_carry row j" and p = "mul_product row" and carry = "mul_carry row"] eqs [rule_format, of k] small [of k] small [of j] k
        by (simp add: c_def algebra_simps)
    qed
  qed (use small assms(6) in \<open>simp_all add: c_def\<close>)
  then show ?thesis by (metis canon_u8 of_nat_canon)
qed

lemma mul_flags:
  fixes mul mult multu :: koala
  assumes "mul = 0 \<or> mul = 1" "mult = 0 \<or> mult = 1" "multu = 0 \<or> multu = 1" "mul + mult + multu = 1"
  obtains op where "op \<in> {Op_MUL, Op_MULT, Op_MULTU}" "mul = from_bool (op = Op_MUL)" "mult = from_bool (op = Op_MULT)"
    "multu = from_bool (op = Op_MULTU)"
  using assms that [of Op_MUL] that [of Op_MULT] that [of Op_MULTU] by (elim disjE) simp_all

lemma mul_sound:
  assumes acc: "accepted (mul_eval row)" and m: "m \<in> set (instruction_receives (mul_eval row))" and ok: "operands_ok m"
  shows "alu_message_valid m"
proof -
  have m_eq: "m = instruction_values (mul_shard row) (mul_clk row) (mul_pc row) (mul_next_pc row) (mul_next_pc row + 4) 0
             (mul_is_mul row * opcode_as_field Op_MUL + mul_is_mult row * opcode_as_field Op_MULT + mul_is_multu row * opcode_as_field Op_MULTU)
             (mul_a row) (mul_b row) (mul_c row) (mul_hi row) 0 0 (mul_hi_record_is_real row) 0 1" and nz: "mul_is_real row \<noteq> 0"
    using m by (auto simp: mul_eval_def Let_def split: if_splits)
  note acc' = acc [unfolded mul_eval_def Let_def accepted_append accepted_loop PRODUCT_SIZE_def]
  have flags: "accepted (assert_bool (mul_is_mul row))" "accepted (assert_bool (mul_is_mult row))"
      "accepted (assert_bool (mul_is_multu row))" "accepted (assert_bool (mul_is_real row))"
      "accepted (when_cond (mul_is_real row) (assert_one (mul_is_mul row + mul_is_mult row + mul_is_multu row)))"
    and copy: "\<forall>i<4. accepted (assert_eq (mul_product row i) (mul_a row i)) \<and>
      accepted (when_cond (mul_is_mult row + mul_is_multu row) (assert_eq (mul_product row (i + 4)) (mul_hi row i)))"
    and zero: "accepted (when_cond (mul_is_mul row) (assert_word_zero (mul_hi row)))"
    by (insert acc', (elim conjE, assumption)+)
  have real: "mul_is_real row = 1" using flags(4) nz by simp
  obtain op where op: "op \<in> {Op_MUL, Op_MULT, Op_MULTU}" "mul_is_mul row = from_bool (op = Op_MUL)"
    "mul_is_mult row = from_bool (op = Op_MULT)" "mul_is_multu row = from_bool (op = Op_MULTU)"
    by (rule mul_flags [of "mul_is_mul row" "mul_is_mult row" "mul_is_multu row"]) (use flags real in simp_all)
  have "mul_is_mul row * opcode_as_field Op_MUL + mul_is_mult row * opcode_as_field Op_MULT + mul_is_multu row * opcode_as_field Op_MULTU = opcode_as_field op"
    using op by auto
  note B = operands_okD [OF ok [unfolded m_eq] this]
  have B: "byte_word (mul_b row)" "byte_word (mul_c row)" by (rule B; use op(1) in auto)+
  define w where "w = mul_extend op (to_u32 (mul_b row)) * mul_extend op (to_u32 (mul_c row))"
  note prod = mul_product_sound [OF acc real B op(3), folded w_def]
  have a: "byte_word (mul_a row) \<and> to_u32 (mul_a row) = ucast w"
    using copy prod by (intro limbs_word) (auto simp: byte_at_low)
  have hi: "byte_word (mul_hi row) \<and> to_u32 (mul_hi row) = (if op = Op_MUL then 0 else ucast (drop_bit 32 w))"
  proof (cases "op = Op_MUL")
    case True
    then show ?thesis using zero by (intro limbs_word) (auto simp: op(2) byte_at_def)
  next
    case False
    then have "mul_is_mult row + mul_is_multu row = 1" using op by auto
    then show ?thesis using False copy prod by (intro limbs_word) (auto simp: byte_at_high)
  qed
  show ?thesis unfolding m_eq
    by (rule alu_message_validI [where op = op])
      (use op(1) a hi B in \<open>auto intro!: alu_computesI simp: op(2-4) alu_op_mul w_def\<close>)
qed

lemma mul_no_sends [simp]: "instruction_sends (mul_eval row) = []"
  by (simp add: mul_eval_def Let_def if_distrib [of instruction_sends] cong: if_cong)

section \<open>Completeness\<close>

text \<open>The events the executor records: the result is the executor's, and a hardware \<open>MULT\<close> or \<open>MULTU\<close> carries the ordered
  write of \<open>HI\<close> that the instruction performed.\<close>

definition valid_hi_write :: "comp_alu_event \<Rightarrow> bool" where
  "valid_hi_write e \<longleftrightarrow> wr_value (calu_hi_record e) = calu_hi e \<and> wr_shard (calu_hi_record e) = calu_shard e \<and>
     wr_timestamp (calu_hi_record e) = calu_clk e + position_offset PosHI \<and> unat (calu_clk e) + 4 < 2 ^ 32 \<and>
     ordered_record (current_record (Write (calu_hi_record e))) (previous_record (Write (calu_hi_record e)))"

definition valid_mul_event :: "comp_alu_event \<Rightarrow> bool" where
  "valid_mul_event e \<longleftrightarrow> valid_comp_alu e \<and> calu_opcode e \<in> {Op_MUL, Op_MULT, Op_MULTU} \<and>
     (if calu_hi_record_is_real e then calu_opcode e \<noteq> Op_MUL \<and> valid_hi_write e
      else calu_opcode e \<noteq> Op_MUL \<longrightarrow> calu_pc e = UNUSED_PC)"

definition comp_alu_message :: "comp_alu_event \<Rightarrow> koala list" where
  "comp_alu_message e =
     instruction_values (if calu_hi_record_is_real e then from_canonical_u32 (calu_shard e) else 0)
       (if calu_hi_record_is_real e then from_canonical_u32 (calu_clk e) else 0)
       (from_canonical_u32 (calu_pc e)) (from_canonical_u32 (calu_next_pc e)) (from_canonical_u32 (calu_next_pc e) + 4) 0
       (opcode_as_field (calu_opcode e)) (word_from (calu_a e)) (word_from (calu_b e)) (word_from (calu_c e)) (word_from (calu_hi e))
       0 0 (from_bool (calu_hi_record_is_real e)) 0 1"

text \<open>The digits of the carry loop.\<close>

lemma length_mul_carry_loop [simp]: "length (mul_carry_loop c ps) = length ps"
  by (induction ps arbitrary: c) (simp_all add: Let_def)

lemma mul_carry_loop_digits:
  assumes "\<And>p. p \<in> set ps \<Longrightarrow> unat p \<le> 520200" "unat c < 65536" "i < length ps"
  shows "unat (ps ! i) + (if i > 0 then unat (snd (mul_carry_loop c ps ! (i - 1))) else unat c) =
      unat (fst (mul_carry_loop c ps ! i)) + 256 * unat (snd (mul_carry_loop c ps ! i)) \<and>
    unat (fst (mul_carry_loop c ps ! i)) < 256 \<and> unat (snd (mul_carry_loop c ps ! i)) < 65536"
  using assms
proof (induction ps arbitrary: c i)
  case (Cons p ps)
  have v: "unat (p + c) = unat p + unat c" using Cons.prems(1) [of p] Cons.prems(2) by (simp add: unat_word_ariths)
  have less: "unat ((p + c) div 256) < 65536" using Cons.prems(1) [of p] Cons.prems(2) by (simp add: unat_div v)
  show ?case
  proof (cases i)
    case 0
    then show ?thesis using less by (simp add: Let_def unat_mod unat_div v)
  next
    case (Suc j)
    then show ?thesis using Cons.IH [OF _ less, of j] Cons.prems by (cases j) (simp_all add: Let_def)
  qed
qed simp

lemma limb_products_cong:
  assumes "\<And>i. i < nb \<Longrightarrow> b i = b' i" "\<And>j. j < nc \<Longrightarrow> c j = c' j"
  shows "limb_products nb nc b c k = limb_products nb nc b' c' k"
proof -
  have "map (\<lambda>(i, j). b i * c j) (filter (\<lambda>(i, j). i + j = k) (List.product [0..<nb] [0..<nc])) =
      map (\<lambda>(i, j). b' i * c' j) (filter (\<lambda>(i, j). i + j = k) (List.product [0..<nb] [0..<nc]))"
    using assms by (intro map_cong) auto
  then show ?thesis unfolding limb_products_def fold_products by (simp only:)
qed

lemma mul_operand_bytes:
  fixes w :: u32 and op :: opcode
  defines "b \<equiv> mul_operand (op = Op_MULT \<and> bit w 31) w"
  shows "length b \<le> 8" "i < length b \<Longrightarrow> b ! i = byte_at_u64 (mul_extend op w) i"
    "length b \<le> i \<Longrightarrow> i < 8 \<Longrightarrow> byte_at_u64 (mul_extend op w) i = 0"
proof -
  have hi: "byte_at_u64 (mul_extend op w) i = (if op = Op_MULT \<and> bit w 31 then 0xff else 0)" if "4 \<le> i" "i < 8"
    using mul_extend_bytes(2) [of "i - 4" op w] that by simp
  show "length b \<le> 8" by (simp add: b_def mul_operand_def)
  show "i < length b \<Longrightarrow> b ! i = byte_at_u64 (mul_extend op w) i"
    using hi mul_extend_bytes(1) [of i op w]
    by (cases "i < 4") (auto simp: b_def mul_operand_def nth_append split: if_splits)
  show "length b \<le> i \<Longrightarrow> i < 8 \<Longrightarrow> byte_at_u64 (mul_extend op w) i = 0"
    using hi by (auto simp: b_def mul_operand_def split: if_splits)
qed

lemma mul_uncarried:
  fixes v w :: u32 and op :: opcode
  defines "b \<equiv> mul_operand (op = Op_MULT \<and> bit v 31) v" and "c \<equiv> mul_operand (op = Op_MULT \<and> bit w 31) w"
  assumes "k < 8"
  shows "unat (limb_products (length b) (length c) (\<lambda>i. ucast (b ! i)) (\<lambda>j. ucast (c ! j)) k :: u32) =
      (\<Sum>i\<le>k. unat (byte_at_u64 (mul_extend op v) i) * unat (byte_at_u64 (mul_extend op w) (k - i)))"
    and "(\<Sum>i\<le>k. unat (byte_at_u64 (mul_extend op v) i) * unat (byte_at_u64 (mul_extend op w) (k - i))) \<le> 520200"
proof -
  let ?x = "byte_at_u64 (mul_extend op v)" and ?y = "byte_at_u64 (mul_extend op w)"
  let ?m = "\<Sum>i\<le>k. unat (?x i) * unat (?y (k - i))"
  have "?m \<le> (\<Sum>i\<le>k. 255 * 255)"
    using unat_byte_less by (intro sum_mono mult_mono) (auto simp: less_Suc_eq_le [symmetric])
  also have "\<dots> \<le> 520200" using assms(3) by simp
  finally show m: "?m \<le> 520200" .
  have "(limb_products (length b) (length c) (\<lambda>i. ucast (b ! i)) (\<lambda>j. ucast (c ! j)) k :: u32) =
      limb_products (length b) (length c) (\<lambda>i. ucast (?x i)) (\<lambda>j. ucast (?y j)) k"
    unfolding b_def c_def by (rule limb_products_cong) (simp_all add: mul_operand_bytes)
  also have "\<dots> = (\<Sum>i\<le>k. ucast (?x i) * ucast (?y (k - i)))"
    unfolding b_def c_def by (rule limb_products_eq) (use assms(3) mul_operand_bytes in auto)
  also have "\<dots> = of_nat ?m" by simp
  finally show "unat (limb_products (length b) (length c) (\<lambda>i. ucast (b ! i)) (\<lambda>j. ucast (c ! j)) k :: u32) = ?m"
    using m by (simp only: unsigned_of_nat take_bit_eq_mod) simp
qed

lemma byte_sends_u16:
  "m \<noteq> 0 \<Longrightarrow> byte_sends (slice_range_check_u16 xs m) = map (\<lambda>x. [byte_opcode_as_field B_U16Range, x, 0, 0, 0]) xs"
  by (induction xs) (simp_all add: slice_range_check_u16_def)

lemma byte_sends_u16_0 [simp]: "byte_sends (slice_range_check_u16 xs 0) = []"
  by (induction xs) (simp_all add: slice_range_check_u16_def)

lemma memory_access_off [simp]: "accepted (eval_memory_access shard clk addr cols 0)"
  by (simp add: eval_memory_access_def eval_memory_access_timestamp_def eval_range_check_24bits_def Let_def)

lemma get_msb_iff: "get_msb_of_bytes w = 1 \<longleftrightarrow> bit w 31" and get_msb_field: "from_canonical_u8 (get_msb_of_bytes w) = (from_bool (bit w 31) :: koala)"
proof -
  show f: "from_canonical_u8 (get_msb_of_bytes w) = (from_bool (bit w 31) :: koala)"
    by (simp add: get_msb_of_bytes_def top_bit_field bit_byte_at)
  have "from_canonical_u8 (get_msb_of_bytes w) = (from_canonical_u8 1 :: koala) \<longleftrightarrow> bit w 31"
    unfolding f by (simp add: from_canonical_u8_def)
  then show "get_msb_of_bytes w = 1 \<longleftrightarrow> bit w 31" by simp
qed

lemma mul_digits:
  fixes v w :: u32 and op :: opcode
  defines "b \<equiv> mul_operand (op = Op_MULT \<and> bit v 31) v" and "c \<equiv> mul_operand (op = Op_MULT \<and> bit w 31) w"
  defines "m \<equiv> (\<lambda>k. \<Sum>i\<le>k. unat (byte_at_u64 (mul_extend op v) i) * unat (byte_at_u64 (mul_extend op w) (k - i)))"
  defines "xs \<equiv> mul_carry_loop 0 (map (limb_products (length b) (length c) (\<lambda>i. ucast (b ! i)) (\<lambda>j. ucast (c ! j))) [0..<PRODUCT_SIZE])"
  assumes "k < 8"
  shows "m k + (if k > 0 then unat (snd (xs ! (k - 1))) else 0) = unat (fst (xs ! k)) + 256 * unat (snd (xs ! k))"
    and "unat (snd (xs ! k)) < 65536" and "unat (fst (xs ! k)) = unat (byte_at_u64 (mul_extend op v * mul_extend op w) k)"
proof -
  let ?ps = "map (limb_products (length b) (length c) (\<lambda>i. ucast (b ! i)) (\<lambda>j. ucast (c ! j))) [0..<8] :: u32 list"
  note un = mul_uncarried [where v = v and w = w and op = op, folded b_def c_def, folded m_def]
  have "unat p \<le> 520200" if "p \<in> set ?ps" for p using that un by auto
  note digits = mul_carry_loop_digits [of ?ps 0, OF this, folded PRODUCT_SIZE_def, folded xs_def]
  have D: "m i + (if i > 0 then unat (snd (xs ! (i - 1))) else 0) = unat (fst (xs ! i)) + 256 * unat (snd (xs ! i))"
    "unat (fst (xs ! i)) < 256" "unat (snd (xs ! i)) < 65536" if "i < 8" for i
    using digits [of i] un(1) [OF that] that by (cases i; simp add: PRODUCT_SIZE_def m_def)+
  show "m k + (if k > 0 then unat (snd (xs ! (k - 1))) else 0) = unat (fst (xs ! k)) + 256 * unat (snd (xs ! k))"
    "unat (snd (xs ! k)) < 65536" using D assms(5) by blast+
  show "unat (fst (xs ! k)) = unat (byte_at_u64 (mul_extend op v * mul_extend op w) k)"
  proof (rule digits_of_product [where p = "\<lambda>i. unat (fst (xs ! i))" and c = "\<lambda>i. if i > 0 then unat (snd (xs ! (i - 1))) else 0"])
  qed (use D assms(5) in \<open>simp_all add: m_def\<close>)
qed

lemma u32_small_field: "unat (v :: u32) < 256 \<Longrightarrow> from_canonical_u32 v = (from_canonical_u8 (ucast v) :: koala)"
  by (simp only: from_canonical_u32_def from_canonical_u8_def unat_ucast_u32_u8)

lemma mul_byte_sends:
  assumes "mul_is_real row = 1"
  shows "byte_sends (mul_eval row) =
    [[byte_opcode_as_field B_MSB, mul_b_msb row, 0, mul_b row 3, 0], [byte_opcode_as_field B_MSB, mul_c_msb row, 0, mul_c row 3, 0]]
    @ map (\<lambda>i. [byte_opcode_as_field B_U16Range, mul_carry row i, 0, 0, 0]) [0..<8]
    @ byte_sends (slice_range_check_u8 (map (mul_product row) [0..<8]) 1)
    @ byte_sends (eval_memory_access (mul_shard row) (mul_clk row + from_canonical_u32 (position_offset PosHI)) 33
        (mul_op_hi_access row) (mul_hi_record_is_real row))"
  by (simp add: mul_eval_def Let_def assms PRODUCT_SIZE_def byte_sends_u16 comp_def if_distrib [of byte_sends] cong: if_cong)

lemma mul_hi_access:
  assumes valid: "calu_hi_record_is_real e \<Longrightarrow> valid_hi_write e"
    and pop: "(if calu_hi_record_is_real e then memory_populate (Write (calu_hi_record e)) else (mul_default_access, [])) = (acc, hblu)"
  defines "ops \<equiv> eval_memory_access (if calu_hi_record_is_real e then from_canonical_u32 (calu_shard e) else 0)
    ((if calu_hi_record_is_real e then from_canonical_u32 (calu_clk e) else 0) + from_canonical_u32 (position_offset PosHI)) 33 acc
    (from_bool (calu_hi_record_is_real e))"
  shows "accepted ops" "mset (byte_sends ops) = mset (map byte_event_values hblu)"
    "calu_hi_record_is_real e \<Longrightarrow> ma_value (mrw_access acc) = word_from (calu_hi e)"
proof -
  let ?r = "Write (calu_hi_record e)"
  have *: "accepted ops \<and> mset (byte_sends ops) = mset (map byte_event_values hblu) \<and>
      (calu_hi_record_is_real e \<longrightarrow> ma_value (mrw_access acc) = word_from (calu_hi e))"
  proof (cases "calu_hi_record_is_real e")
    case True
    obtain access where pa: "populate_access (current_record ?r) (previous_record ?r) = (access, hblu)"
      and acc: "acc = \<lparr>mrw_prev_value = word_from (rec_value (previous_record ?r)), mrw_access = access\<rparr>"
      using pop True by (auto simp: memory_write_populate_def Let_def split: prod.splits)
    have v: "ordered_record (current_record ?r) (previous_record ?r)" "wr_shard (calu_hi_record e) = calu_shard e"
      "wr_value (calu_hi_record e) = calu_hi e" "wr_timestamp (calu_hi_record e) = calu_clk e + 4" "unat (calu_clk e) + 4 < 2 ^ 32"
      using valid [OF True, unfolded valid_hi_write_def position_offset.simps] by presburger+
    have "unat (calu_clk e + 4) = unat (calu_clk e) + 4" using v(5) by (simp add: unat_word_ariths)
    then have clk: "from_canonical_u32 (calu_clk e) + from_canonical_u32 (position_offset PosHI) =
        (from_canonical_u32 (rec_timestamp (current_record ?r)) :: koala)"
      by (simp add: from_canonical_u32_def v(4) del: of_nat_unat)
    have "ma_value access = word_from (calu_hi e)"
      using arg_cong [OF pa, of fst] v(3) by (auto simp: populate_access_def Let_def)
    then show ?thesis
      using memory_access_complete [OF v(1) pa] True by (simp add: ops_def acc clk [simplified] v(2))
  qed (use pop in \<open>auto simp: ops_def\<close>)
  then show "accepted ops" "mset (byte_sends ops) = mset (map byte_event_values hblu)"
    "calu_hi_record_is_real e \<Longrightarrow> ma_value (mrw_access acc) = word_from (calu_hi e)" by blast+
qed

lemma mul_complete:
  assumes valid: "valid_mul_event e" and row: "mul_event_to_row e = (row, blu)"
  shows "accepted (mul_eval row)" "instruction_receives (mul_eval row) = [comp_alu_message e]"
    "mset (byte_sends (mul_eval row)) = mset (map byte_event_values blu)"
proof -
  let ?b = "calu_b e" and ?c = "calu_c e" and ?op = "calu_opcode e" and ?hi = "calu_hi_record_is_real e"
  define x y where "x = mul_extend ?op ?b" and "y = mul_extend ?op ?c"
  define b c where "b = mul_operand (?op = Op_MULT \<and> bit ?b 31) ?b" and "c = mul_operand (?op = Op_MULT \<and> bit ?c 31) ?c"
  define m where "m = (\<lambda>k. \<Sum>i\<le>k. unat (byte_at_u64 x i) * unat (byte_at_u64 y (k - i)))"
  define xs where "xs = mul_carry_loop 0 (map (limb_products (length b) (length c) (\<lambda>i. ucast (b ! i)) (\<lambda>j. ucast (c ! j))) [0..<PRODUCT_SIZE])"
  note D = mul_digits [where v = ?b and w = ?c and op = ?op, folded x_def y_def, folded b_def c_def, folded m_def xs_def]
  have len: "length xs = 8" by (simp add: xs_def PRODUCT_SIZE_def)
  obtain acc hblu where hi: "(if ?hi then memory_populate (Write (calu_hi_record e)) else (mul_default_access, [])) = (acc :: koala memory_rw_cols, hblu)"
    by fastforce
  note def = row [unfolded mul_event_to_row_def Let_def get_msb_iff get_msb_field, folded b_def c_def, folded xs_def,
      unfolded hi prod.case]
  have product: "from_canonical_u32 (map fst xs ! i) = (from_canonical_u8 (byte_at_u64 (x * y) i) :: koala)" if "i < 8" for i
    using D(3) [OF that] that len by (simp add: from_canonical_u32_def from_canonical_u8_def del: of_nat_unat)
  have R: "row = \<lparr>mul_pc = from_canonical_u32 (calu_pc e), mul_next_pc = from_canonical_u32 (calu_next_pc e),
        mul_hi = word_from (calu_hi e), mul_a = word_from (calu_a e), mul_b = word_from ?b, mul_c = word_from ?c,
        mul_carry = (\<lambda>i. from_canonical_u32 (map snd xs ! i)), mul_product = (\<lambda>i. from_canonical_u32 (map fst xs ! i)),
        mul_b_msb = from_bool (bit ?b 31), mul_c_msb = from_bool (bit ?c 31),
        mul_b_sign_extend = from_bool (?op = Op_MULT \<and> bit ?b 31), mul_c_sign_extend = from_bool (?op = Op_MULT \<and> bit ?c 31),
        mul_is_mul = from_bool (?op = Op_MUL), mul_is_mult = from_bool (?op = Op_MULT), mul_is_multu = from_bool (?op = Op_MULTU),
        mul_is_real = 1, mul_op_hi_access = acc, mul_hi_record_is_real = from_bool ?hi,
        mul_shard = (if ?hi then from_canonical_u32 (calu_shard e) else 0),
        mul_clk = (if ?hi then from_canonical_u32 (calu_clk e) else 0)\<rparr>"
    and blu: "blu = hblu @ [byte_lookup_event_new B_MSB (ucast (get_msb_of_bytes ?b)) 0 (byte_at ?b 3) 0,
          byte_lookup_event_new B_MSB (ucast (get_msb_of_bytes ?c)) 0 (byte_at ?c 3) 0]
       @ add_u16_range_checks (map ucast (map snd xs)) @ add_u8_range_checks (map ucast (map fst xs))"
    using def by simp_all
  have limb: "(if j < 4 then word_from ?b j else from_bool (?op = Op_MULT \<and> bit ?b 31) * 255) = (from_canonical_u8 (byte_at_u64 x j) :: koala)"
    "(if j < 4 then word_from ?c j else from_bool (?op = Op_MULT \<and> bit ?c 31) * 255) = (from_canonical_u8 (byte_at_u64 y j) :: koala)" if "j < 8" for j
    unfolding x_def y_def
    using mul_extended_limb [of "word_from ?b" _ ?op, OF _ refl that, unfolded to_u32_word_from]
      mul_extended_limb [of "word_from ?c" _ ?op, OF _ refl that, unfolded to_u32_word_from] by (simp_all only: byte_word_from)
  have op: "?op \<in> {Op_MUL, Op_MULT, Op_MULTU}" and res: "alu_op ?op ?b ?c = Inr (calu_a e, calu_hi e)"
    using valid by (auto simp: valid_mul_event_def valid_comp_alu_def)
  have a: "from_canonical_u8 (byte_at_u64 (x * y) i) = (word_from (calu_a e) i :: koala)"
    "?op \<noteq> Op_MUL \<Longrightarrow> from_canonical_u8 (byte_at_u64 (x * y) (i + 4)) = (word_from (calu_hi e) i :: koala)"
    "?op = Op_MUL \<Longrightarrow> word_from (calu_hi e) i = (0 :: koala)" if "i < 4" for i
    using alu_op_mul [OF op, of ?b ?c] res that byte_at_high [OF that, of "x * y", symmetric]
    by (simp_all add: x_def [symmetric] y_def [symmetric] word_from_def byte_at_low [symmetric] byte_at_def [of 0])
  have prods: "limb_products 8 8 (\<lambda>j. if j < 4 then word_from ?b j else from_bool (?op = Op_MULT \<and> bit ?b 31) * 255)
      (\<lambda>j. if j < 4 then word_from ?c j else from_bool (?op = Op_MULT \<and> bit ?c 31) * 255) k = (of_nat (m k) :: koala)" if "k < 8" for k
    unfolding m_def by (rule limb_products_field) (use limb that in auto)
  have eq: "(of_nat (m k) :: koala) + (if k > 0 then from_canonical_u32 (map snd xs ! (k - 1)) else 0) =
      from_canonical_u32 (map fst xs ! k) + from_canonical_u32 (map snd xs ! k) * 256" if "k < 8" for k
  proof -
    have "(of_nat (m k + (if k > 0 then unat (snd (xs ! (k - 1))) else 0)) :: koala) = of_nat (unat (fst (xs ! k)) + 256 * unat (snd (xs ! k)))"
      unfolding m_def using D(1) [OF that] by (rule arg_cong)
    then show ?thesis using that len by (simp add: from_canonical_u32_def mult.commute del: of_nat_unat split: if_splits)
  qed
  have step: "accepted (if k = 0 then assert_eq L (from_canonical_u32 (map snd xs ! k) * 256 + from_canonical_u32 (map fst xs ! k))
      else assert_eq (from_canonical_u32 (map fst xs ! k) - from_canonical_u32 (map snd xs ! (k - 1)) + from_canonical_u32 (map snd xs ! k) * 256) L)"
    if "L = (of_nat (m k) :: koala)" "k < 8" for L k
    using eq [OF that(2)] that(1) by (cases k) (simp_all add: algebra_simps)
  have "?hi \<Longrightarrow> valid_hi_write e" using valid by (simp add: valid_mul_event_def)
  note hi_acc = mul_hi_access [OF this hi]
  have u16: "canon (from_canonical_u32 (map snd xs ! k)) < 65536" if "k < 8" for k
    using D(2) [OF that] that len unfolding from_canonical_u32_def by (subst canon_of_nat) simp_all
  have flags: "from_bool (?op = Op_MUL) + from_bool (?op = Op_MULT) + from_bool (?op = Op_MULTU) = (1 :: koala)" using op by auto
  have msb: "in_byte_table [byte_opcode_as_field B_MSB, from_bool (bit w 31), 0, word_from w 3, 0]" for w
    by (auto simp: byte_table_msb word_from_def bit_byte_at)
  have hi_ok: "?hi \<Longrightarrow> ?op \<noteq> Op_MUL" "\<not> ?hi \<Longrightarrow> ?op \<noteq> Op_MUL \<Longrightarrow> calu_pc e = UNUSED_PC"
    using valid by (auto simp: valid_mul_event_def)
  show "accepted (mul_eval row)"
    unfolding mul_eval_def Let_def R mul_cols.simps accepted_append accepted_loop PRODUCT_SIZE_def flags
    by (intro conjI; ((rule hi_acc(1)) | (simp add: msb from_bool_cases list_all_iff u16; fail)
      | (use op in \<open>auto simp: prods product a list_all_iff hi_acc(3) dest: hi_ok\<close>; fail)
      | (intro allI impI, rule step [OF prods]; assumption)))
  show "instruction_receives (mul_eval row) = [comp_alu_message e]"
    using op unfolding mul_eval_def Let_def R mul_cols.simps comp_alu_message_def
    by (auto simp: if_distrib [of instruction_receives] cong: if_cong)
  have u8: "map (\<lambda>i. from_canonical_u32 (map fst xs ! i)) [0..<8] = (map from_canonical_u8 (map ucast (map fst xs)) :: koala list)"
    using D(3) len by (intro nth_equalityI) (simp_all add: u32_small_field unat_byte_less)
  have u16v: "map (\<lambda>i. [byte_opcode_as_field B_U16Range, from_canonical_u32 (map snd xs ! i), 0, 0, 0 :: koala]) [0..<8] =
      map byte_event_values (add_u16_range_checks (map ucast (map snd xs)))"
    using D(2) len by (intro nth_equalityI)
      (simp_all add: add_u16_range_checks_def add_u16_range_check_def byte_event_values_def byte_lookup_event_new_def
        from_canonical_u32_def unsigned_ucast_eq take_bit_nat_eq_self del: of_nat_unat)
  show "mset (byte_sends (mul_eval row)) = mset (map byte_event_values blu)"
    using mul_byte_sends [of row] unfolding R mul_cols.simps blu u16v u8 byte_sends_range_checks [OF one_neq_zero]
    by (simp add: hi_acc(2) [simplified] get_msb_field word_from_def)
qed

interpretation mul_chip: alu_chip mul_eval mul_event_to_row mul_padding valid_mul_event comp_alu_message "\<lambda>_. {#}"
proof
  show "accepted (mul_eval mul_padding)"
  proof -
    have "limb_products 8 8 (\<lambda>i. if i < 4 then (0 :: koala) else 0) (\<lambda>i. if i < 4 then 0 else 0) k = 0" if "k < 8" for k
      using limb_products_eq [of k 8 8 "\<lambda>_. 0 :: koala" "\<lambda>_. 0"] that by simp
    then show ?thesis
      by (simp add: mul_eval_def mul_padding_def Let_def PRODUCT_SIZE_def zero_word_def mk_word_def if_distrib [of accepted] cong: if_cong)
  qed
  show "instruction_receives (mul_eval mul_padding) = []" "instruction_sends (mul_eval mul_padding) = []" "byte_sends (mul_eval mul_padding) = []"
    by (simp_all add: mul_eval_def mul_padding_def Let_def if_distrib [of byte_sends] if_distrib [of instruction_receives] cong: if_cong)
  show "alu_message_valid m" if "accepted (mul_eval r)" "m \<in> set (instruction_receives (mul_eval r))" "operands_ok m" for r m
    using that by (rule mul_sound)
qed (simp add: mul_complete [OF _ surjective_pairing])

end
