(* ===== verification/Div_Words.thy ===== *)
theory Div_Words
  imports Mul_Chip
begin

text \<open>
  Uniqueness of quotient and remainder, for integers that fit a word: the equations the division chip checks on
  64-bit sums determine the results of the executor.
\<close>

unbundle bit_operations_syntax

lemma trunc_division_unique:
  assumes "trunc_division b c q r" "trunc_division b c q' r'"
  shows "q = q' \<and> r = r'"
proof -
  have eq: "(q - q') * c = r' - r" using assms by (simp add: trunc_division_def algebra_simps)
  have "\<bar>r' - r\<bar> < \<bar>c\<bar>"
    using assms by (cases "b = 0"; auto simp: trunc_division_def sgn_if abs_if split: if_splits)
  then have "\<bar>q - q'\<bar> * \<bar>c\<bar> < 1 * \<bar>c\<bar>" unfolding eq [symmetric] abs_mult by simp
  then have "\<bar>q - q'\<bar> < 1" by (rule mult_right_less_imp_less) simp
  then show ?thesis using eq by simp
qed

lemma trunc_division_words:
  assumes "c \<noteq> 0" "\<not> sdiv_overflow b c" "trunc_division (sint b) (sint c) (sint q) (sint r)"
  shows "q = i32_div b c" "r = i32_rem b c"
  using trunc_division_unique [OF assms(3) div_correct [OF assms(1,2)]] by (auto intro: signed_word_eqI)

lemma u64_int_eq:
  assumes "(of_int x :: u64) = of_int y" "\<bar>x - y\<bar> < 2 ^ 64"
  shows "x = y"
proof -
  have "x mod 2 ^ 64 = y mod 2 ^ 64"
    using assms(1) by (simp only: word_of_int_eq_iff take_bit_eq_mod) simp
  then have "2 ^ 64 dvd x - y" by (simp only: mod_eq_dvd_iff)
  then show ?thesis using assms(2) dvd_imp_le_int [of "x - y" "2 ^ 64"] by (cases "x = y") simp_all
qed

lemma product_bound:
  assumes "\<bar>x\<bar> \<le> (2 :: int) ^ m" "\<bar>y\<bar> \<le> 2 ^ n"
  shows "\<bar>x * y\<bar> \<le> 2 ^ (m + n)"
  using mult_mono [OF assms] by (simp add: abs_mult power_add)

lemma sint_bound: "\<bar>sint (x :: u32)\<bar> \<le> 2 ^ 31"
  using sint_ge [of x] sint_lt [of x] by (simp add: abs_le_iff)

lemma signed_equation:
  fixes b c q r :: u32
  assumes "mul_extend Op_MULT q * mul_extend Op_MULT c + mul_extend Op_MULT r = mul_extend Op_MULT b"
  shows "sint b = sint q * sint c + sint r"
proof -
  have "(of_int (sint b) :: u64) = of_int (sint q * sint c + sint r)" using assms by (simp add: mul_extend_def)
  moreover have "\<bar>sint b - (sint q * sint c + sint r)\<bar> < 2 ^ 64"
    using product_bound [OF sint_bound [of q] sint_bound [of c]] sint_bound [of b] sint_bound [of r] by (simp add: abs_le_iff abs_less_iff)
  ultimately show ?thesis by (rule u64_int_eq)
qed

lemma overflow_equation:
  fixes b c q r :: u32
  assumes "mul_extend Op_MULT q * mul_extend Op_MULT c + mul_extend Op_MULT r = mul_extend Op_MULTU b" "sdiv_overflow b c" "r = 0"
  shows "q = b"
proof -
  have b: "uint b = 2 ^ 31" "sint b = - (2 ^ 31)" "sint c = - 1" using assms(2) by (auto simp: sdiv_overflow_def)
  have "(of_int (uint b) :: u64) = of_int (sint q * sint c)" using assms by (simp add: mul_extend_def)
  moreover have "\<bar>uint b - sint q * sint c\<bar> < 2 ^ 64"
    using product_bound [OF sint_bound [of q] sint_bound [of c]] b(1) by (simp add: abs_le_iff abs_less_iff)
  ultimately have "uint b = sint q * sint c" by (rule u64_int_eq)
  then have "sint q = sint b" using b by simp
  then show ?thesis by (simp add: signed_word_eqI)
qed

lemma trunc_divisionI:
  assumes "b = q * c + r" "\<bar>r\<bar> < \<bar>c\<bar>" "r < 0 \<Longrightarrow> b < 0" "0 < r \<Longrightarrow> 0 \<le> b"
  shows "trunc_division b c q r"
proof -
  have "r = 0" if "b = 0"
  proof -
    have "\<bar>q\<bar> * \<bar>c\<bar> = \<bar>r\<bar>" using assms(1) that by (metis abs_minus_cancel abs_mult add.inverse_inverse eq_neg_iff_add_eq_0)
    then have "\<bar>q\<bar> * \<bar>c\<bar> < 1 * \<bar>c\<bar>" using assms(2) by simp
    then have "\<bar>q\<bar> < 1" by (rule mult_right_less_imp_less) simp
    then show ?thesis using assms(1) that by simp
  qed
  then have "sgn r = sgn b" if "r \<noteq> 0" using that assms(3,4) by (cases "r < 0") (auto simp: sgn_if)
  then show ?thesis using assms by (simp add: trunc_division_def)
qed

lemma unsigned_equation:
  fixes b c q r :: u32
  assumes "mul_extend Op_MULTU q * mul_extend Op_MULTU c + mul_extend Op_MULTU r = mul_extend Op_MULTU b" "r < c"
  shows "q = b div c" "r = b mod c"
proof -
  have bound: "uint x < 4294967296" "0 \<le> uint x" for x :: u32 using uint_lt2p [of x] by simp_all
  have "(of_int (uint b) :: u64) = of_int (uint q * uint c + uint r)" using assms by (simp add: mul_extend_def)
  moreover have "\<bar>uint b - (uint q * uint c + uint r)\<bar> < 2 ^ 64"
  proof -
    have "uint q * uint c \<le> 4294967295 * 4294967295" using bound [of q] bound [of c] by (intro mult_mono) auto
    moreover have "0 \<le> uint q * uint c" by simp
    moreover have "(2 :: int) ^ 64 = 18446744073709551616" by simp
    ultimately show ?thesis using bound [of b] bound [of r] unfolding abs_less_iff by (intro conjI; linarith)
  qed
  ultimately have "uint b = uint q * uint c + uint r" by (rule u64_int_eq)
  moreover have "0 \<le> uint r" "uint r < uint c" using assms(2) by (simp_all add: word_less_def)
  ultimately have "uint b div uint c = uint q" "uint b mod uint c = uint r"
    using int_div_pos_eq [of "uint b" "uint c" "uint q" "uint r"] by (simp_all add: mult.commute)
  then show "q = b div c" "r = b mod c" by (auto intro!: unsigned_word_eqI [where 'a = int] simp: uint_div uint_mod)
qed

text \<open>Adding eight digits with carries is addition of 64-bit words.\<close>

lemma digits_of_sum:
  fixes x y z :: u64
  assumes eq: "\<And>k. k < 8 \<Longrightarrow> unat (byte_at_u64 x k) + unat (byte_at_u64 y k) + c k = unat (byte_at_u64 z k) + 256 * c (Suc k)"
    and "c 0 = 0"
  shows "x + y = z"
proof -
  have u64: "w = of_nat (\<Sum>i<8. unat (byte_at_u64 w i) * 256 ^ i)" for w :: u64
    by (simp only: u64_digits [symmetric] of_nat_unat ucast_id)
  have "(\<Sum>k<8. (unat (byte_at_u64 x k) + unat (byte_at_u64 y k)) * 256 ^ k) =
      (\<Sum>k<8. unat (byte_at_u64 z k) * 256 ^ k) + c 8 * 256 ^ 8"
    using carry_sum [of 8 "\<lambda>k. unat (byte_at_u64 x k) + unat (byte_at_u64 y k)" c "\<lambda>k. unat (byte_at_u64 z k)" 256, OF eq] assms(2) by simp
  then have "unat x + unat y = unat z + c 8 * 256 ^ 8"
    by (simp only: u64_digits [symmetric] distrib_right sum.distrib)
  then have "(of_nat (unat x + unat y) :: u64) = of_nat (unat z + c 8 * 256 ^ 8)" by (rule arg_cong)
  then show ?thesis using u64_modulus [of "of_nat (c 8)"] by (simp add: mult.commute)
qed

end
