(* ===== verification/Clo_Clz_Chip.thy ===== *)
theory Clo_Clz_Chip
  imports Mul_Chip
begin

text \<open>
  The messages of the arithmetic events of a record, and the chip for \<open>CLO\<close> and \<open>CLZ\<close>
  (\<^verbatim>\<open>crates/core/machine/src/alu/clo_clz/mod.rs\<close>): the number of leading zeros is checked by a right shift that the
  shift chip has to justify, and the messages the row sends are those of the events that the executor's
  \<open>emit_cloclz_dependencies\<close> adds to the record.
\<close>

unbundle bit_operations_syntax

section \<open>Messages of a record\<close>

definition record_messages :: "execution_record \<Rightarrow> koala list multiset" where
  "record_messages r =
     mset (map alu_event_message (er_add_sub_events r @ er_bitwise_events r @ er_shift_left_events r
       @ er_shift_right_events r @ er_lt_events r @ er_cloclz_events r))
     + mset (map comp_alu_message (er_mul_events r @ er_divrem_events r))"

lemma record_messages_push [simp]:
  "record_messages (push_add_sub e r) = add_mset (alu_event_message e) (record_messages r)"
  "record_messages (push_bitwise e r) = add_mset (alu_event_message e) (record_messages r)"
  "record_messages (push_shift_left e r) = add_mset (alu_event_message e) (record_messages r)"
  "record_messages (push_shift_right e r) = add_mset (alu_event_message e) (record_messages r)"
  "record_messages (push_lt e r) = add_mset (alu_event_message e) (record_messages r)"
  "record_messages (push_cloclz e r) = add_mset (alu_event_message e) (record_messages r)"
  "record_messages (push_mul e' r) = add_mset (comp_alu_message e') (record_messages r)"
  "record_messages (push_divrem e' r) = add_mset (comp_alu_message e') (record_messages r)"
  by (simp_all add: record_messages_def push_defs)

lemma record_messages_default [simp]: "record_messages default_record = {#}"
  by (simp add: record_messages_def default_record_def record_new_def)

lemma from_canonical_u32_simps: "from_canonical_u32 5 = (5 :: koala)" "from_canonical_u32 9 = (9 :: koala)"
  by (simp_all add: from_canonical_u32_def)

lemma dep_message:
  "alu_event_message (dep_event op a b c) =
     instruction_values 0 0 (from_canonical_u32 BUILDER_UNUSED_PC) (from_canonical_u32 (BUILDER_UNUSED_PC + BUILDER_DEFAULT_PC_INC))
       (from_canonical_u32 (BUILDER_UNUSED_PC + BUILDER_DEFAULT_PC_INC + BUILDER_DEFAULT_PC_INC)) 0 (opcode_as_field op)
       (word_from a) (word_from b) (word_from c) zero_word 0 0 0 0 1"
  "comp_alu_message (dep_comp_event op hi a b c) =
     instruction_values 0 0 (from_canonical_u32 BUILDER_UNUSED_PC) (from_canonical_u32 (BUILDER_UNUSED_PC + BUILDER_DEFAULT_PC_INC))
       (from_canonical_u32 (BUILDER_UNUSED_PC + BUILDER_DEFAULT_PC_INC + BUILDER_DEFAULT_PC_INC)) 0 (opcode_as_field op)
       (word_from a) (word_from b) (word_from c) (word_from hi) 0 0 0 0 1"
  by (simp_all add: alu_event_message_def comp_alu_message_def dep_event_def dep_comp_event_def UNUSED_PC_def DEFAULT_PC_INC_def
      BUILDER_UNUSED_PC_def BUILDER_DEFAULT_PC_INC_def from_canonical_u32_simps)

lemma instruction_values_cong:
  "limb_list a = limb_list a' \<Longrightarrow> limb_list b = limb_list b' \<Longrightarrow> limb_list c = limb_list c' \<Longrightarrow> limb_list hi = limb_list hi' \<Longrightarrow>
   instruction_values s k p q r x opc a b c hi f1 f2 f3 f4 f5 = instruction_values s k p q r x opc a' b' c' hi' f1 f2 f3 f4 f5"
  by (simp add: instruction_values_def)

lemma send_alu_sends [simp]:
  "instruction_sends (send_alu_with_hi opc a b c hi m) = (if m = 0 then [] else
     [instruction_values 0 0 (from_canonical_u32 BUILDER_UNUSED_PC) (from_canonical_u32 (BUILDER_UNUSED_PC + BUILDER_DEFAULT_PC_INC))
       (from_canonical_u32 (BUILDER_UNUSED_PC + BUILDER_DEFAULT_PC_INC + BUILDER_DEFAULT_PC_INC)) 0 opc a b c hi 0 0 0 0 1])"
  "instruction_sends (send_alu opc a b c m) = (if m = 0 then [] else
     [instruction_values 0 0 (from_canonical_u32 BUILDER_UNUSED_PC) (from_canonical_u32 (BUILDER_UNUSED_PC + BUILDER_DEFAULT_PC_INC))
       (from_canonical_u32 (BUILDER_UNUSED_PC + BUILDER_DEFAULT_PC_INC + BUILDER_DEFAULT_PC_INC)) 0 opc a b c zero_word 0 0 0 0 1])"
  by (simp_all add: send_alu_def send_alu_with_hi_def)

section \<open>The chip\<close>

record 'f clo_clz_cols =
  cc_pc :: 'f
  cc_next_pc :: 'f
  cc_a :: "'f limbs"
  cc_b :: "'f limbs"
  cc_bb :: "'f limbs"
  cc_is_bb_zero :: 'f
  cc_is_clz :: 'f
  cc_is_real :: 'f

definition clo_clz_bb :: "alu_event \<Rightarrow> u32" where
  "clo_clz_bb event = (if alu_opcode event = Op_CLZ then alu_b event else 0xffffffff - alu_b event)"

definition clo_clz_event_to_row :: "alu_event \<Rightarrow> 'f::field clo_clz_cols \<times> byte_lookup_event list" where
  "clo_clz_event_to_row event =
     (let bb = clo_clz_bb event in
      (\<lparr>cc_pc = from_canonical_u32 (alu_pc event), cc_next_pc = from_canonical_u32 (alu_next_pc event),
        cc_a = word_from (alu_a event), cc_b = word_from (alu_b event), cc_bb = word_from bb,
        cc_is_bb_zero = from_bool (bb = 0), cc_is_clz = from_bool (alu_opcode event = Op_CLZ), cc_is_real = 1\<rparr>,
       add_u8_range_checks (le_bytes bb) @ [byte_lookup_event_new B_LTU 1 0 (ucast (alu_a event)) 33]))"

definition clo_clz_padding :: "'f::field clo_clz_cols" where
  "clo_clz_padding = \<lparr>cc_pc = 0, cc_next_pc = 0, cc_a = word_from 32, cc_b = zero_word, cc_bb = zero_word,
     cc_is_bb_zero = 1, cc_is_clz = 0, cc_is_real = 0\<rparr>"

definition clo_clz_eval :: "'f::field clo_clz_cols \<Rightarrow> 'f air_op list" where
  "clo_clz_eval local =
     (let is_clo = cc_is_real local - cc_is_clz local;
          cpu_opcode = is_clo * opcode_as_field Op_CLO + cc_is_clz local * opcode_as_field Op_CLZ in
      concat (map (\<lambda>i. when_cond is_clo (assert_eq (cc_b local i + cc_bb local i) (from_canonical_u32 255))
          @ when_cond (cc_is_clz local) (assert_eq (cc_b local i) (cc_bb local i))) [0..<4])
      @ slice_range_check_u8 (limb_list (cc_bb local)) (cc_is_real local)
      @ send_byte (byte_opcode_as_field B_LTU) 1 (cc_a local 0) (from_canonical_u8 33) (cc_is_real local)
      @ when_cond (cc_is_real local) (assert_zero (cc_a local 1))
      @ when_cond (cc_is_real local) (assert_zero (cc_a local 2))
      @ when_cond (cc_is_real local) (assert_zero (cc_a local 3))
      @ receive_instruction
          (instruction_values 0 0 (cc_pc local) (cc_next_pc local) (cc_next_pc local + 4) 0 cpu_opcode
             (cc_a local) (cc_b local) zero_word zero_word 0 0 0 0 1)
          (cc_is_real local)
      @ assert_bool (cc_is_bb_zero local)
      @ when_cond (cc_is_bb_zero local) (assert_zero (word_reduce (cc_bb local)))
      @ when_cond (cc_is_bb_zero local) (assert_zero (cc_bb local 3))
      @ when_cond (cc_is_bb_zero local) (assert_eq (cc_a local 0) (from_canonical_u32 32))
      @ send_alu (opcode_as_field Op_SRL) (mk_word 1 0 0 0) (cc_bb local)
          (mk_word (from_canonical_u32 31 - cc_a local 0) 0 0 0) (1 - cc_is_bb_zero local)
      @ assert_bool (cc_is_clz local)
      @ assert_bool (cc_is_real local)
      @ when_cond (cc_is_clz local) (assert_one (cc_is_real local)))"

section \<open>Soundness\<close>

lemma leading_zeros_eqI:
  fixes w :: u32
  assumes "n < 32" "2 ^ (31 - n) \<le> unat w" "unat w < 2 ^ (32 - n)"
  shows "leading_zeros w = n"
proof -
  have "n \<le> leading_zeros w" using leading_zeros_ge_iff [of n w] assms by simp
  moreover have "\<not> Suc n \<le> leading_zeros w" using leading_zeros_ge_iff [of "Suc n" w] assms by simp
  ultimately show ?thesis by simp
qed

lemma unat_shift: "unat (drop_bit n w) = unat w div 2 ^ n"
  by (subst unat_drop_bit_eq) (rule drop_bit_eq_div)

lemma leading_zeros_shift:
  fixes w :: u32
  assumes "n < 32" "drop_bit (31 - n) w = 1"
  shows "leading_zeros w = n"
proof -
  have "unat (drop_bit (31 - n) w) = 1" using assms by simp
  then have d: "unat w div 2 ^ (31 - n) = 1" by (simp only: unat_shift)
  have "2 ^ (31 - n) \<le> unat w" using d by (metis div_less not_less zero_neq_one)
  moreover have "unat w < 2 * 2 ^ (31 - n)" using d by (metis Suc_1 dividend_less_times_div mult.commute less_mult_imp_div_less lessI mult_2 nat_mult_1_right add.commute div_less_iff_less_mult zero_less_power zero_less_numeral)
  moreover have "(2 :: nat) * 2 ^ (31 - n) = 2 ^ (32 - n)" using assms(1) by (simp flip: power_Suc)
  ultimately show ?thesis using assms(1) by (intro leading_zeros_eqI) simp_all
qed

lemma shift_leading_zeros:
  fixes w :: u32
  assumes "w \<noteq> 0"
  shows "drop_bit (31 - leading_zeros w) w = 1"
proof -
  note b = leading_zeros_bounds [OF assms]
  have "unat w div 2 ^ (31 - leading_zeros w) = 1"
  proof (rule div_nat_eqI)
    show "2 ^ (31 - leading_zeros w) * 1 \<le> unat w" using b(2) by simp
    have "(2 :: nat) * 2 ^ (31 - leading_zeros w) = 2 ^ Suc (31 - leading_zeros w)" by simp
    also have "Suc (31 - leading_zeros w) = 32 - leading_zeros w" using b(1) by simp
    finally show "unat w < 2 ^ (31 - leading_zeros w) * Suc 1" using b(3) by simp
  qed
  then have "unat (drop_bit (31 - leading_zeros w) w) = unat (1 :: u32)" by (simp add: unat_shift)
  then show ?thesis by (simp only: unsigned_word_eqI)
qed

lemma limb_complement:
  assumes "byte_word b" "byte_word bb" "\<forall>i<4. b i + bb i = from_canonical_u32 255"
  shows "to_u32 bb = NOT (to_u32 b)"
proof -
  have *: "canon (b i) + canon (bb i) = 255" if "i < 4" for i
  proof (rule koala_nat_eqI)
    show "(of_nat (canon (b i) + canon (bb i)) :: koala) = of_nat 255" using assms(3) that by (simp add: from_canonical_u32_def)
    show "canon (b i) + canon (bb i) < 2130706433"
      using byte_word_nth [OF assms(1) that] byte_word_nth [OF assms(2) that] by (simp add: is_byte_def)
  qed simp
  have "limb_number b + limb_number bb = 4294967295"
    using * [of 0] * [of 1] * [of 2] * [of 3] by (simp add: limb_number_def)
  then have "(of_nat (limb_number b + limb_number bb) :: u32) = 4294967295" by (simp only: of_nat_numeral)
  then have "to_u32 b + to_u32 bb = -1" by (simp add: to_u32_def)
  then have "to_u32 bb = -1 - to_u32 b" by (simp add: eq_diff_eq add.commute)
  then show ?thesis by (simp add: not_eq_complement)
qed

lemma zero_limbs:
  assumes "byte_word w" "word_reduce w = 0" "w 3 = 0"
  shows "to_u32 w = 0"
proof -
  have "(of_nat (limb_number w) :: koala) = of_nat 0" using assms(2) by (simp add: word_reduce_def limb_number_def)
  moreover have "limb_number w < 16777216" using byte_word_canon [OF assms(1)] assms(3) by (simp add: limb_number_def)
  ultimately have "limb_number w = 0" by (intro koala_nat_eqI) simp_all
  then show ?thesis by (simp add: to_u32_def)
qed

lemma low_byte_word:
  assumes "w 0 = of_nat n" "n < 256" "w 1 = 0" "w 2 = 0" "w 3 = 0"
  shows "byte_word w" "to_u32 w = of_nat n"
proof -
  have c: "canon (w 0) = n" using assms by (simp add: canon_of_nat)
  then show "byte_word w" using assms by (simp add: byte_word_def limb_list_def is_byte_def)
  show "to_u32 w = of_nat n" using assms c by (simp add: to_u32_def limb_number_def)
qed

lemma alu_op_clo_clz:
  "alu_op Op_CLZ b c = Inr (of_nat (leading_zeros b), 0)" "alu_op Op_CLO b c = Inr (of_nat (leading_zeros (NOT b)), 0)"
  by (simp_all add: alu_op_def alu_result_def leading_ones_not)

lemma clo_clz_count:
  fixes is_bb_zero :: koala
  assumes valid: "is_bb_zero \<noteq> 1 \<Longrightarrow> alu_message_valid (instruction_values s k p q r x (opcode_as_field Op_SRL)
      (mk_word 1 0 0 0) bb (mk_word (from_canonical_u32 31 - of_nat n) 0 0 0) zero_word f1 f2 f3 f4 f5)"
    and bb: "byte_word bb" and n: "n < 33"
    and zero: "is_bb_zero = 1 \<Longrightarrow> word_reduce bb = 0 \<and> bb 3 = 0 \<and> n = 32"
  shows "leading_zeros (to_u32 bb) = n"
proof (cases "is_bb_zero = 1")
  case True
  then show ?thesis using zero zero_limbs [OF bb] by (simp add: leading_zeros_0)
next
  case False
  let ?c = "mk_word (from_canonical_u32 31 - of_nat n) 0 0 (0 :: koala)"
  note v = alu_message_validD [OF valid [OF False]]
  have n32: "n \<noteq> 32"
  proof
    assume "n = 32"
    have "(of_nat (2130706432 + 32) :: koala) = of_nat 31" by (subst of_nat_koala_eq_iff) simp
    then have "of_nat 2130706432 = (of_nat 31 - of_nat 32 :: koala)" unfolding of_nat_add by (simp add: eq_diff_eq)
    then have c0: "?c 0 = of_nat 2130706432" by (simp add: mk_word_def from_canonical_u32_def \<open>n = 32\<close>)
    have "canon (?c 0) = 2130706432" unfolding c0 by (rule canon_of_nat) simp
    then show False using byte_word_canon [OF v(3)] by simp
  qed
  then have n31: "n \<le> 31" using n by simp
  then have c0: "?c 0 = of_nat (31 - n)" by (simp add: mk_word_def from_canonical_u32_def of_nat_diff)
  have c: "to_u32 ?c = of_nat (31 - n)" by (rule low_byte_word(2)) (simp_all add: c0, simp_all add: mk_word_def)
  have a: "to_u32 (mk_word 1 0 0 (0 :: koala)) = of_nat 1" by (rule low_byte_word(2)) (simp_all add: mk_word_def)
  have "shamt (of_nat (31 - n)) = 31 - n"
    by (subst shamt_small) (simp_all add: unsigned_of_nat take_bit_eq_mod)
  then have "drop_bit (31 - n) (to_u32 bb) = 1"
    using v(5) by (simp add: a c alu_computes_def alu_op_simps)
  then show ?thesis using n31 by (intro leading_zeros_shift) simp_all
qed

lemma clo_clz_sound:
  assumes acc: "accepted (clo_clz_eval row)"
    and sent: "list_all (\<lambda>s. operands_ok s \<longrightarrow> alu_message_valid s) (instruction_sends (clo_clz_eval row))"
    and m: "m \<in> set (instruction_receives (clo_clz_eval row))" and ok: "operands_ok m"
  shows "alu_message_valid m"
proof -
  let ?clz = "cc_is_clz row" and ?a = "cc_a row" and ?b = "cc_b row" and ?bb = "cc_bb row"
  have m_eq: "m = instruction_values 0 0 (cc_pc row) (cc_next_pc row) (cc_next_pc row + 4) 0
       ((cc_is_real row - ?clz) * opcode_as_field Op_CLO + ?clz * opcode_as_field Op_CLZ) ?a ?b zero_word zero_word 0 0 0 0 1"
    and nz: "cc_is_real row \<noteq> 0"
    using m by (auto simp: clo_clz_eval_def Let_def split: if_splits)
  note acc = acc [unfolded clo_clz_eval_def Let_def accepted_append accepted_loop]
  have flags: "accepted (assert_bool ?clz)" "accepted (assert_bool (cc_is_real row))"
    and limbs: "\<forall>i<4. accepted (when_cond (cc_is_real row - ?clz) (assert_eq (?b i + ?bb i) (from_canonical_u32 255)))
      \<and> accepted (when_cond ?clz (assert_eq (?b i) (?bb i)))"
    and range: "accepted (slice_range_check_u8 (limb_list ?bb) (cc_is_real row))"
    and ltu: "accepted (send_byte (byte_opcode_as_field B_LTU) 1 (?a 0) (from_canonical_u8 33) (cc_is_real row))"
    and a: "accepted (when_cond (cc_is_real row) (assert_zero (?a 1)))" "accepted (when_cond (cc_is_real row) (assert_zero (?a 2)))"
      "accepted (when_cond (cc_is_real row) (assert_zero (?a 3)))"
    and zero: "accepted (assert_bool (cc_is_bb_zero row))" "accepted (when_cond (cc_is_bb_zero row) (assert_zero (word_reduce ?bb)))"
      "accepted (when_cond (cc_is_bb_zero row) (assert_zero (?bb 3)))"
      "accepted (when_cond (cc_is_bb_zero row) (assert_eq (?a 0) (from_canonical_u32 32)))"
    by (insert acc, (elim conjE, assumption)+)
  have real: "cc_is_real row = 1" using flags(2) nz by simp
  define op where "op = (if ?clz = 1 then Op_CLZ else Op_CLO)"
  have opc: "(cc_is_real row - ?clz) * opcode_as_field Op_CLO + ?clz * opcode_as_field Op_CLZ = opcode_as_field op"
    using flags(1) by (auto simp: real op_def)
  have B: "byte_word ?b" by (rule operands_okD(1) [OF ok [unfolded m_eq] opc]) (simp_all add: op_def zero_word_def mk_word_def)
  have BB: "byte_word ?bb" using range by (simp add: real byte_word_def)
  have bb: "to_u32 ?bb = (if op = Op_CLZ then to_u32 ?b else NOT (to_u32 ?b))"
  proof (cases "?clz = 1")
    case True
    then have "limb_list ?bb = limb_list ?b" using limbs by (simp add: limb_list_def)
    then have "to_u32 ?bb = to_u32 ?b" using limb_list_eqD [of ?bb ?b] by (simp add: to_u32_def limb_number_def)
    then show ?thesis using True by (simp add: op_def)
  next
    case False
    then show ?thesis using limbs flags(1) by (auto simp: op_def real intro!: limb_complement [OF B BB])
  qed
  define n where "n = canon (?a 0)"
  have n: "n < 33" using ltu canon_of_nat [of 33] by (simp add: real n_def byte_table_ltu from_canonical_u8_def from_bool_def split: if_splits)
  have a0: "?a 0 = of_nat n" by (simp add: n_def)
  have "leading_zeros (to_u32 ?bb) = n"
  proof (rule clo_clz_count [OF _ BB n, of "cc_is_bb_zero row"])
    show "word_reduce ?bb = 0 \<and> ?bb 3 = 0 \<and> n = 32" if "cc_is_bb_zero row = 1"
      using zero that canon_of_nat [of 32] by (simp add: n_def from_canonical_u32_def)
    show "alu_message_valid (instruction_values 0 0 (from_canonical_u32 BUILDER_UNUSED_PC) (from_canonical_u32 (BUILDER_UNUSED_PC + BUILDER_DEFAULT_PC_INC))
       (from_canonical_u32 (BUILDER_UNUSED_PC + BUILDER_DEFAULT_PC_INC + BUILDER_DEFAULT_PC_INC)) 0 (opcode_as_field Op_SRL)
       (mk_word 1 0 0 0) ?bb (mk_word (from_canonical_u32 31 - of_nat n) 0 0 0) zero_word 0 0 0 0 1)"
      if "cc_is_bb_zero row \<noteq> 1"
      using sent that BB by (simp add: clo_clz_eval_def Let_def a0 operands_ok_iff) (simp add: mk_word_def)
  qed
  moreover have "byte_word ?a" "to_u32 ?a = of_nat n"
    by (rule low_byte_word [where w = ?a, OF a0]; use a n in \<open>simp add: real\<close>)+
  ultimately show ?thesis unfolding m_eq
    by (intro alu_message_validI [where op = op])
      (use B bb opc in \<open>auto intro!: alu_computesI simp: op_def alu_op_clo_clz split: if_splits\<close>)
qed

section \<open>Completeness\<close>

definition valid_clo_clz_event :: "alu_event \<Rightarrow> bool" where
  "valid_clo_clz_event e \<longleftrightarrow> valid_alu e \<and> alu_opcode e \<in> {Op_CLO, Op_CLZ} \<and> alu_c e = 0"

lemma word_from_low: "unat v < 256 \<Longrightarrow> limb_list (word_from v) = [of_nat (unat v), 0, 0, 0 :: koala]"
  by (simp add: limb_list_def word_from_def from_canonical_u8_def unat_byte_at del: of_nat_unat)

lemma word_from_complement:
  assumes "i < 4"
  shows "word_from w i + word_from (NOT w) i = (from_canonical_u32 255 :: koala)"
proof -
  have "byte_at w i + byte_at (NOT w) i = - 1"
  proof -
    have "byte_at (NOT w) i = NOT (byte_at w i)" using assms by (intro bit_word_eqI) (auto simp: bit_byte_at bit_simps)
    then show ?thesis by simp
  qed
  then have "byte_at (NOT w) i = - 1 - byte_at w i" by (simp add: eq_diff_eq add.commute)
  then have "unat (byte_at (NOT w) i) = unat (- 1 :: u8) - unat (byte_at w i)"
    by (simp only: unat_sub word_order.extremum)
  then have "unat (byte_at (NOT w) i) = 255 - unat (byte_at w i)" by (simp add: unsigned_minus_1_eq_mask mask_eq_exp_minus_1)
  then have "unat (byte_at w i) + unat (byte_at (NOT w) i) = 255" using unat_byte_less [of "byte_at w i"] by linarith
  then show ?thesis by (simp only: word_from_def from_canonical_u8_def from_canonical_u32_def of_nat_add [symmetric]) simp
qed

lemma clo_clz_complete:
  assumes valid: "valid_clo_clz_event e" and row: "clo_clz_event_to_row e = (row :: koala clo_clz_cols, blu)"
  shows "accepted (clo_clz_eval row)" "instruction_receives (clo_clz_eval row) = [alu_event_message e]"
    "mset (instruction_sends (clo_clz_eval row)) = record_messages (emit_cloclz_dependencies e default_record)"
    "byte_sends (clo_clz_eval row) = map byte_event_values blu"
proof -
  define bb where "bb = clo_clz_bb e"
  have bb_eq: "bb = (if alu_opcode e = Op_CLZ then alu_b e else NOT (alu_b e))"
    by (simp add: bb_def clo_clz_bb_def not_eq_complement)
  have a: "alu_a e = of_nat (leading_zeros bb)"
    using valid by (auto simp: bb_eq valid_clo_clz_event_def valid_alu_def alu_op_clo_clz)
  have le: "leading_zeros bb \<le> 32" using leading_zeros_le [of bb] by simp
  then have ua: "unat (alu_a e) = leading_zeros bb" by (simp add: a unsigned_of_nat take_bit_eq_mod)
  have A: "word_from (alu_a e) 0 = (of_nat (leading_zeros bb) :: koala)" "word_from (alu_a e) 1 = (0 :: koala)"
    "word_from (alu_a e) 2 = (0 :: koala)" "word_from (alu_a e) 3 = (0 :: koala)"
    using word_from_low [of "alu_a e"] le ua by (simp_all add: limb_list_def del: of_nat_unat)
  have row_eq: "row = \<lparr>cc_pc = from_canonical_u32 (alu_pc e), cc_next_pc = from_canonical_u32 (alu_next_pc e),
        cc_a = word_from (alu_a e), cc_b = word_from (alu_b e), cc_bb = word_from bb,
        cc_is_bb_zero = from_bool (bb = 0), cc_is_clz = from_bool (alu_opcode e = Op_CLZ), cc_is_real = 1\<rparr>"
    and blu: "blu = add_u8_range_checks (le_bytes bb) @ [byte_lookup_event_new B_LTU 1 0 (ucast (alu_a e)) 33]"
    using row by (simp_all add: clo_clz_event_to_row_def Let_def bb_def)
  have limbs: "alu_opcode e \<noteq> Op_CLZ \<Longrightarrow> word_from (alu_b e) i + word_from bb i = (from_canonical_u32 255 :: koala)"
    "alu_opcode e = Op_CLZ \<Longrightarrow> word_from bb i = (word_from (alu_b e) i :: koala)" if "i < 4" for i
    using word_from_complement [OF that] by (simp_all add: bb_eq)
  have zero: "bb = 0 \<Longrightarrow> word_reduce (word_from bb) = (0 :: koala) \<and> word_from bb 3 = (0 :: koala) \<and>
      of_nat (leading_zeros bb) = (from_canonical_u32 32 :: koala)"
    by (simp add: word_reduce_def word_from_def byte_at_def leading_zeros_0 from_canonical_u32_def from_canonical_u8_def)
  have ltu: "in_byte_table [byte_opcode_as_field B_LTU, 1, 0, of_nat (leading_zeros bb), from_canonical_u8 33 :: koala]"
    using le canon_of_nat [of "leading_zeros bb"] canon_of_nat [of 33]
    by (simp add: byte_table_ltu is_byte_def from_canonical_u8_def)
  show "accepted (clo_clz_eval row)"
    unfolding clo_clz_eval_def Let_def row_eq clo_clz_cols.simps accepted_append accepted_loop A
    by (intro conjI; ((simp add: ltu byte_word_from [unfolded byte_word_def] from_bool_cases; fail) | (use zero in \<open>auto simp: from_bool_def\<close>; fail)
      | (use limbs in \<open>auto simp: from_bool_def\<close>; fail)))
  show "instruction_receives (clo_clz_eval row) = [alu_event_message e]"
    using valid unfolding clo_clz_eval_def Let_def row_eq clo_clz_cols.simps alu_event_message_def
    by (auto simp: valid_clo_clz_event_def limb_list_word_from_0 intro!: instruction_values_cong)
  show "mset (instruction_sends (clo_clz_eval row)) = record_messages (emit_cloclz_dependencies e default_record)"
  proof (cases "bb = 0")
    case True
    then show ?thesis unfolding clo_clz_eval_def Let_def row_eq
      by (simp add: emit_cloclz_dependencies_def bb_eq [symmetric])
  next
    case False
    have lt: "leading_zeros bb < 32" using leading_zeros_bounds(1) [OF False] by simp
    have c: "31 - alu_a e = of_nat (31 - leading_zeros bb)" using lt by (simp add: a of_nat_diff)
    have uc: "unat (31 - alu_a e) = 31 - leading_zeros bb" unfolding c by (simp add: unsigned_of_nat take_bit_eq_mod)
    have "shamt (31 - alu_a e) = 31 - leading_zeros bb" by (subst shamt_small) (simp_all add: uc)
    then have one: "drop_bit (shamt (31 - alu_a e)) bb = 1" using shift_leading_zeros [OF False] by simp
    have cw: "limb_list (word_from (31 - alu_a e)) = limb_list (mk_word (from_canonical_u32 31 - of_nat (leading_zeros bb)) 0 0 (0 :: koala))"
      using lt by (simp add: word_from_low uc from_canonical_u32_def of_nat_diff del: of_nat_unat)
    show ?thesis unfolding clo_clz_eval_def Let_def row_eq
      by (simp add: emit_cloclz_dependencies_def bb_eq [symmetric] False one dep_message A)
        (rule instruction_values_cong; simp add: word_from_low cw)
  qed
  have "byte_event_values (byte_lookup_event_new B_LTU 1 0 (ucast (alu_a e)) 33) =
      [byte_opcode_as_field B_LTU, 1, 0, of_nat (leading_zeros bb), from_canonical_u8 33 :: koala]"
    using le by (simp add: byte_event_values_def byte_lookup_event_new_def from_canonical_u8_def unat_ucast_u32_u8 ua del: of_nat_unat)
  then show "byte_sends (clo_clz_eval row) = map byte_event_values blu"
    unfolding clo_clz_eval_def Let_def row_eq blu by (simp add: A byte_sends_range_checks flip: map_le_bytes)
qed

interpretation clo_clz_chip: alu_chip clo_clz_eval clo_clz_event_to_row clo_clz_padding valid_clo_clz_event alu_event_message
    "\<lambda>e. record_messages (emit_cloclz_dependencies e default_record)"
proof
  show "accepted (clo_clz_eval clo_clz_padding)"
    by (simp add: clo_clz_eval_def clo_clz_padding_def Let_def zero_word_def mk_word_def word_reduce_def word_from_def byte_at_def
        from_canonical_u8_def from_canonical_u32_def)
  show "instruction_receives (clo_clz_eval clo_clz_padding) = []" "instruction_sends (clo_clz_eval clo_clz_padding) = []"
    "byte_sends (clo_clz_eval clo_clz_padding) = []"
    by (simp_all add: clo_clz_eval_def clo_clz_padding_def Let_def)
qed (erule (3) clo_clz_sound, simp add: clo_clz_complete [OF _ surjective_pairing])

end
