(* ===== verification/Is_Zero_Air.thy ===== *)
theory Is_Zero_Air
  imports Air_Gadgets
begin

text \<open>
  The zero tests on field elements and words and the equality test on words
  (\<^verbatim>\<open>crates/core/machine/src/operations/is_zero.rs\<close>, \<^verbatim>\<open>is_zero_word.rs\<close>, \<^verbatim>\<open>is_equal_word.rs\<close>): on a real row the result
  column is the truth value of the test, and the populated columns are accepted.
\<close>

record 'f is_zero_operation =
  iz_inverse :: 'f
  iz_result :: 'f

definition is_zero_populate :: "'f::field \<Rightarrow> 'f is_zero_operation" where
  "is_zero_populate a = (if a = 0 then \<lparr>iz_inverse = 0, iz_result = 1\<rparr> else \<lparr>iz_inverse = inverse a, iz_result = 0\<rparr>)"

definition is_zero_eval :: "'f::field \<Rightarrow> 'f is_zero_operation \<Rightarrow> 'f \<Rightarrow> 'f air_op list" where
  "is_zero_eval a cols is_real =
     (let is_zero = 1 - iz_inverse cols * a in
      when_cond is_real (assert_eq is_zero (iz_result cols))
      @ when_cond is_real (assert_bool (iz_result cols))
      @ when_cond is_real (when_cond (iz_result cols) (assert_zero a)))"

record 'f is_zero_word_operation =
  izw_is_zero_byte :: "nat \<Rightarrow> 'f is_zero_operation"
  izw_is_lower_half_zero :: 'f
  izw_is_upper_half_zero :: 'f
  izw_result :: 'f

definition is_zero_word_populate_field :: "'f::field limbs \<Rightarrow> 'f is_zero_word_operation" where
  "is_zero_word_populate_field a =
     (let is_zero_byte = (\<lambda>i. is_zero_populate (a i)) in
      \<lparr>izw_is_zero_byte = is_zero_byte,
       izw_is_lower_half_zero = iz_result (is_zero_byte 0) * iz_result (is_zero_byte 1),
       izw_is_upper_half_zero = iz_result (is_zero_byte 2) * iz_result (is_zero_byte 3),
       izw_result = from_bool (list_all (\<lambda>x. x = 0) (limb_list a))\<rparr>)"

definition is_zero_word_populate :: "u32 \<Rightarrow> 'f::field is_zero_word_operation" where
  "is_zero_word_populate a = is_zero_word_populate_field (word_from a)"

definition is_zero_word_eval :: "'f::field limbs \<Rightarrow> 'f is_zero_word_operation \<Rightarrow> 'f \<Rightarrow> 'f air_op list" where
  "is_zero_word_eval a cols is_real =
     concat (map (\<lambda>i. is_zero_eval (a i) (izw_is_zero_byte cols i) is_real) [0..<4])
     @ assert_bool is_real
     @ when_cond is_real (assert_bool (izw_is_lower_half_zero cols))
     @ when_cond is_real (assert_bool (izw_is_upper_half_zero cols))
     @ when_cond is_real (assert_bool (izw_result cols))
     @ when_cond is_real (assert_eq (izw_is_lower_half_zero cols)
         (iz_result (izw_is_zero_byte cols 0) * iz_result (izw_is_zero_byte cols 1)))
     @ when_cond is_real (assert_eq (izw_is_upper_half_zero cols)
         (iz_result (izw_is_zero_byte cols 2) * iz_result (izw_is_zero_byte cols 3)))
     @ when_cond is_real (assert_eq (izw_result cols) (izw_is_lower_half_zero cols * izw_is_upper_half_zero cols))"

definition is_equal_word_populate :: "u32 \<Rightarrow> u32 \<Rightarrow> 'f::field is_zero_word_operation" where
  "is_equal_word_populate a b = is_zero_word_populate_field (\<lambda>i. word_from a i - word_from b i)"

definition is_equal_word_eval ::
    "'f::field limbs \<Rightarrow> 'f limbs \<Rightarrow> 'f is_zero_word_operation \<Rightarrow> 'f \<Rightarrow> 'f air_op list" where
  "is_equal_word_eval a b cols is_real =
     assert_bool is_real
     @ is_zero_word_eval (mk_word (a 0 - b 0) (a 1 - b 1) (a 2 - b 2) (a 3 - b 3)) cols is_real"

section \<open>The tests\<close>

lemma is_zero_silent [simp]:
  "instruction_receives (is_zero_eval a cols r) = []" "instruction_sends (is_zero_eval a cols r) = []"
  "byte_sends (is_zero_eval a cols r) = []"
  by (simp_all add: is_zero_eval_def)

lemma is_zero_word_silent [simp]:
  "instruction_receives (is_zero_word_eval w cols r) = []" "instruction_sends (is_zero_word_eval w cols r) = []"
  "byte_sends (is_zero_word_eval w cols r) = []"
  "instruction_receives (is_equal_word_eval v w cols r) = []" "instruction_sends (is_equal_word_eval v w cols r) = []"
  "byte_sends (is_equal_word_eval v w cols r) = []"
  by (simp_all add: is_zero_word_eval_def is_equal_word_eval_def)

lemma is_zero_off [simp]:
  "accepted (is_zero_eval a cols 0)" "accepted (is_zero_word_eval w wcols 0)" "accepted (is_equal_word_eval v w wcols 0)"
  by (simp_all add: is_zero_eval_def is_zero_word_eval_def is_equal_word_eval_def)

lemma is_zero_sound: "accepted (is_zero_eval a cols 1) \<Longrightarrow> iz_result cols = from_bool (a = 0)"
  by (auto simp: is_zero_eval_def Let_def from_bool_def)

lemma is_zero_complete [simp]: "accepted (is_zero_eval a (is_zero_populate a) r)" "iz_result (is_zero_populate a) = from_bool (a = 0)"
  by (auto simp: is_zero_eval_def is_zero_populate_def from_bool_def)

lemma is_zero_word_sound:
  assumes "accepted (is_zero_word_eval a cols 1)"
  shows "izw_result cols = from_bool (limb_list a = [0, 0, 0, 0])"
proof -
  note acc = assms [unfolded is_zero_word_eval_def accepted_append accepted_loop]
  have b: "iz_result (izw_is_zero_byte cols i) = from_bool (a i = 0)" if "i < 4" for i
    using acc that by (intro is_zero_sound) simp
  have "izw_result cols = from_bool (a 0 = 0) * from_bool (a 1 = 0) * (from_bool (a 2 = 0) * from_bool (a 3 = 0))"
    using acc b [of 0] b [of 1] b [of 2] b [of 3] by simp
  then show ?thesis by (simp add: limb_list_def from_bool_def)
qed

lemma is_zero_word_field_complete:
  assumes "r = 0 \<or> r = 1"
  shows "accepted (is_zero_word_eval a (is_zero_word_populate_field a) r)"
    "izw_result (is_zero_word_populate_field a) = from_bool (limb_list a = [0, 0, 0, 0])"
  using assms
  by (simp_all add: is_zero_word_eval_def is_zero_word_populate_field_def Let_def limb_list_def)
    (auto simp: from_bool_def)

lemma limb_list_word_from_inj: "limb_list (word_from a) = (limb_list (word_from b) :: koala list) \<longleftrightarrow> a = b"
proof
  assume "limb_list (word_from a) = (limb_list (word_from b) :: koala list)"
  then have "limb_number (word_from a) = limb_number (word_from b)"
    using limb_list_eqD [of "word_from a" "word_from b :: koala limbs"] by (simp only: limb_number_def)
  then show "a = b" by (simp add: unsigned_word_eqI)
qed simp

lemma is_zero_word_complete:
  assumes "r = 0 \<or> r = 1"
  shows "accepted (is_zero_word_eval (word_from a) (is_zero_word_populate a) r)"
    "izw_result (is_zero_word_populate a) = (from_bool (a = 0) :: koala)"
  using is_zero_word_field_complete [OF assms, of "word_from a"] limb_list_word_from_inj [of a 0]
  by (simp_all add: is_zero_word_populate_def limb_list_word_from_0)

lemma is_equal_word_sound:
  assumes "accepted (is_equal_word_eval a b cols 1)"
  shows "izw_result cols = from_bool (limb_list a = limb_list b)"
  using is_zero_word_sound [of "mk_word (a 0 - b 0) (a 1 - b 1) (a 2 - b 2) (a 3 - b 3)" cols] assms
  by (simp add: is_equal_word_eval_def) (simp add: limb_list_def)

lemma is_equal_word_complete:
  assumes "r = 0 \<or> r = 1"
  shows "accepted (is_equal_word_eval (word_from a) (word_from b) (is_equal_word_populate a b) r)"
    "izw_result (is_equal_word_populate a b) = (from_bool (a = b) :: koala)"
proof -
  let ?d = "\<lambda>i. word_from a i - word_from b i :: koala"
  have "is_zero_word_eval (mk_word (?d 0) (?d 1) (?d 2) (?d 3)) cols r = is_zero_word_eval ?d cols r" for cols
    by (simp add: is_zero_word_eval_def mk_word_def upt_rec numeral_2_eq_2 numeral_3_eq_3)
  then show "accepted (is_equal_word_eval (word_from a) (word_from b) (is_equal_word_populate a b) r)"
    using assms is_zero_word_field_complete(1) [OF assms, of ?d] by (simp add: is_equal_word_eval_def is_equal_word_populate_def)
  show "izw_result (is_equal_word_populate a b) = (from_bool (a = b) :: koala)"
    using is_zero_word_field_complete(2) [OF assms, of ?d] limb_list_word_from_inj [of a b]
    by (simp add: is_equal_word_populate_def limb_list_def)
qed

end
