(* ===== verification/Div_Rem_Chip.thy ===== *)
theory Div_Rem_Chip
  imports Div_Words Clo_Clz_Chip Is_Zero_Air
begin

text \<open>
  The chip for \<open>DIV\<close>, \<open>DIVU\<close>, \<open>MOD\<close> and \<open>MODU\<close> (\<^verbatim>\<open>crates/core/machine/src/alu/divrem/mod.rs\<close>). The row sends the product
  of divisor and quotient to the multiplication chip, the absolute values to the addition chip and the comparison
  of remainder and divisor to the comparison chip; the messages are those of the events that the executor's
  \<open>emit_divrem_dependencies\<close> adds to the record.
\<close>

unbundle bit_operations_syntax

record 'f div_rem_cols =
  dr_pc :: 'f
  dr_next_pc :: 'f
  dr_b :: "'f limbs"
  dr_c :: "'f limbs"
  dr_quotient :: "'f limbs"
  dr_remainder :: "'f limbs"
  dr_abs_remainder :: "'f limbs"
  dr_abs_c :: "'f limbs"
  dr_max_abs_c_or_1 :: "'f limbs"
  dr_c_times_quotient :: "nat \<Rightarrow> 'f"
  dr_carry :: "nat \<Rightarrow> 'f"
  dr_is_c_0 :: "'f is_zero_word_operation"
  dr_is_div :: 'f
  dr_is_divu :: 'f
  dr_is_mod :: 'f
  dr_is_modu :: 'f
  dr_is_overflow :: 'f
  dr_is_overflow_b :: "'f is_zero_word_operation"
  dr_is_overflow_c :: "'f is_zero_word_operation"
  dr_b_msb :: 'f
  dr_rem_msb :: 'f
  dr_c_msb :: 'f
  dr_b_neg :: 'f
  dr_rem_neg :: 'f
  dr_c_neg :: 'f
  dr_remainder_check_multiplicity :: 'f
  dr_op_hi_access :: "'f memory_rw_cols"
  dr_shard :: 'f
  dr_clk :: 'f

text \<open>The carry loop of the trace generator.\<close>

fun div_carry_loop :: "u32 \<Rightarrow> (u8 \<times> u8) list \<Rightarrow> u32 list" where
  "div_carry_loop carry [] = []"
| "div_carry_loop carry ((x, y) # xs) = (let carry' = (ucast x + ucast y + carry) div 256 in carry' # div_carry_loop carry' xs)"

definition div_rem_event_to_row :: "comp_alu_event \<Rightarrow> 'f::field div_rem_cols \<times> byte_lookup_event list" where
  "div_rem_event_to_row event =
     (let b = calu_b event; c = calu_c event; op = calu_opcode event;
          is_c_0 = is_zero_word_populate c; writes_hi = (op = Op_DIVU \<or> op = Op_DIV);
          (op_hi_access, hi_blu) = (if writes_hi then memory_populate (Write (calu_hi_record event)) else (mul_default_access, []));
          (quotient, remainder) = get_quotient_and_remainder b c op;
          signed = is_signed_operation op;
          rem_msb = from_canonical_u8 (get_msb remainder); b_msb = from_canonical_u8 (get_msb b); c_msb = from_canonical_u8 (get_msb c);
          c_times_quotient = (if signed then (scast quotient :: u64) * scast c else ucast quotient * ucast c);
          remainder_long = (if signed then scast remainder else ucast remainder) :: u64;
          carry = div_carry_loop 0 (map (\<lambda>i. (byte_at_u64 c_times_quotient i, byte_at_u64 remainder_long i)) [0..<8]) in
      (\<lparr>dr_pc = from_canonical_u32 (calu_pc event), dr_next_pc = from_canonical_u32 (calu_next_pc event),
        dr_b = word_from b, dr_c = word_from c, dr_quotient = word_from quotient, dr_remainder = word_from remainder,
        dr_abs_remainder = (if signed then word_from (unsigned_abs remainder) else word_from remainder),
        dr_abs_c = (if signed then word_from (unsigned_abs c) else word_from c),
        dr_max_abs_c_or_1 = (if signed then word_from (max 1 (unsigned_abs c)) else word_from (max 1 c)),
        dr_c_times_quotient = (\<lambda>i. from_canonical_u8 (byte_at_u64 c_times_quotient i)),
        dr_carry = (\<lambda>i. from_canonical_u32 (carry ! i)),
        dr_is_c_0 = is_c_0,
        dr_is_div = from_bool (op = Op_DIV), dr_is_divu = from_bool (op = Op_DIVU),
        dr_is_mod = from_bool (op = Op_MOD), dr_is_modu = from_bool (op = Op_MODU),
        dr_is_overflow = (if signed then from_bool (b = 0x80000000 \<and> c = 0xFFFFFFFF) else 0),
        dr_is_overflow_b = is_equal_word_populate b 0x80000000, dr_is_overflow_c = is_equal_word_populate c 0xFFFFFFFF,
        dr_b_msb = b_msb, dr_rem_msb = rem_msb, dr_c_msb = c_msb,
        dr_b_neg = (if signed then b_msb else 0), dr_rem_neg = (if signed then rem_msb else 0), dr_c_neg = (if signed then c_msb else 0),
        dr_remainder_check_multiplicity = 1 - izw_result is_c_0,
        dr_op_hi_access = op_hi_access,
        dr_shard = (if writes_hi then from_canonical_u32 (calu_shard event) else 0),
        dr_clk = (if writes_hi then from_canonical_u32 (calu_clk event) else 0)\<rparr>,
       hi_blu
       @ map (\<lambda>w. byte_lookup_event_new B_MSB (ucast (get_msb w)) 0 (byte_at w 3) 0) [b, c, remainder]
       @ add_u8_range_checks (le_bytes b) @ add_u8_range_checks (le_bytes c) @ add_u8_range_checks (le_bytes quotient)
       @ add_u8_range_checks (le_bytes remainder) @ add_u8_range_checks (map (byte_at_u64 c_times_quotient) [0..<8])))"

definition zero_is_zero :: "'f::field is_zero_word_operation" where
  "zero_is_zero = \<lparr>izw_is_zero_byte = (\<lambda>_. \<lparr>iz_inverse = 0, iz_result = 0\<rparr>), izw_is_lower_half_zero = 0,
     izw_is_upper_half_zero = 0, izw_result = 0\<rparr>"

definition div_rem_padding :: "'f::field div_rem_cols" where
  "div_rem_padding = \<lparr>dr_pc = 0, dr_next_pc = 0, dr_b = zero_word, dr_c = zero_word, dr_quotient = zero_word,
     dr_remainder = zero_word, dr_abs_remainder = zero_word, dr_abs_c = zero_word, dr_max_abs_c_or_1 = zero_word,
     dr_c_times_quotient = (\<lambda>_. 0), dr_carry = (\<lambda>_. 0), dr_is_c_0 = zero_is_zero, dr_is_div = 0, dr_is_divu = 0,
     dr_is_mod = 0, dr_is_modu = 0, dr_is_overflow = 0, dr_is_overflow_b = zero_is_zero, dr_is_overflow_c = zero_is_zero,
     dr_b_msb = 0, dr_rem_msb = 0, dr_c_msb = 0, dr_b_neg = 0, dr_rem_neg = 0, dr_c_neg = 0,
     dr_remainder_check_multiplicity = 0, dr_op_hi_access = mul_default_access, dr_shard = 0, dr_clk = 0\<rparr>"

definition dr_is_real :: "'f::field div_rem_cols \<Rightarrow> 'f" where
  "dr_is_real local = dr_is_div local + dr_is_divu local + dr_is_mod local + dr_is_modu local"

definition c_times_quotient_plus_remainder :: "'f::field div_rem_cols \<Rightarrow> nat \<Rightarrow> 'f" where
  "c_times_quotient_plus_remainder local i =
     (let sign_extension = dr_rem_neg local * from_canonical_u8 255 in
      dr_c_times_quotient local i + (if i < 4 then dr_remainder local i else sign_extension) - dr_carry local i * 256
        + (if i > 0 then dr_carry local (i - 1) else 0))"

definition div_rem_eval_product :: "'f::field div_rem_cols \<Rightarrow> 'f air_op list" where
  "div_rem_eval_product local =
     (let is_div = dr_is_div local; is_divu = dr_is_divu local; is_mod = dr_is_mod local; is_modu = dr_is_modu local;
          is_real = dr_is_real local; ctq = dr_c_times_quotient local;
          not_overflow = 1 - dr_is_overflow local in
      concat (map (\<lambda>(msb, is_negative). assert_eq (msb * (is_div + is_mod)) is_negative)
        [(dr_b_msb local, dr_b_neg local), (dr_rem_msb local, dr_rem_neg local), (dr_c_msb local, dr_c_neg local)])
      @ send_alu_with_hi ((is_div + is_mod) * opcode_as_field Op_MULT + (is_divu + is_modu) * opcode_as_field Op_MULTU)
          (mk_word (ctq 0) (ctq 1) (ctq 2) (ctq 3)) (dr_quotient local) (dr_c local) (mk_word (ctq 4) (ctq 5) (ctq 6) (ctq 7)) is_real
      @ is_equal_word_eval (dr_b local) (word_from 0x80000000) (dr_is_overflow_b local) is_real
      @ is_equal_word_eval (dr_c local) (word_from 0xFFFFFFFF) (dr_is_overflow_c local) is_real
      @ assert_eq (dr_is_overflow local) (izw_result (dr_is_overflow_b local) * izw_result (dr_is_overflow_c local) * (is_div + is_mod))
      @ concat (map (\<lambda>i. if i < 4 then assert_eq (dr_b local i) (c_times_quotient_plus_remainder local i)
          else when_cond not_overflow (when_cond (dr_b_neg local) (assert_eq (c_times_quotient_plus_remainder local i) (from_canonical_u8 255)))
            @ when_cond not_overflow (when_cond (1 - dr_b_neg local) (assert_zero (c_times_quotient_plus_remainder local i)))
            @ when_cond (dr_is_overflow local) (assert_zero (c_times_quotient_plus_remainder local i))) [0..<8]))"

definition div_rem_eval_remainder :: "'f::field div_rem_cols \<Rightarrow> 'f air_op list" where
  "div_rem_eval_remainder local =
     (let is_real = dr_is_real local;
          rem_byte_sum = dr_remainder local 0 + dr_remainder local 1 + dr_remainder local 2 + dr_remainder local 3;
          is_c_0_result = izw_result (dr_is_c_0 local);
          max_abs_c_or_1 = mk_word (is_c_0_result * 1 + (1 - is_c_0_result) * dr_abs_c local 0)
            ((1 - is_c_0_result) * dr_abs_c local 1) ((1 - is_c_0_result) * dr_abs_c local 2) ((1 - is_c_0_result) * dr_abs_c local 3) in
      when_cond (dr_rem_neg local) (assert_one (dr_b_neg local))
      @ when_cond rem_byte_sum (when_cond (1 - dr_rem_neg local) (assert_zero (dr_b_neg local)))
      @ is_zero_word_eval (dr_c local) (dr_is_c_0 local) is_real
      @ when_cond is_real (assert_zero is_c_0_result)
      @ concat (map (\<lambda>i. when_not (dr_c_neg local) (assert_eq (dr_c local i) (dr_abs_c local i))
          @ when_not (dr_rem_neg local) (assert_eq (dr_remainder local i) (dr_abs_remainder local i))) [0..<4])
      @ send_alu (opcode_as_field Op_ADD) zero_word (dr_c local) (dr_abs_c local) (dr_c_neg local)
      @ send_alu (opcode_as_field Op_ADD) zero_word (dr_remainder local) (dr_abs_remainder local) (dr_rem_neg local)
      @ concat (map (\<lambda>i. when_cond is_real (assert_eq (dr_max_abs_c_or_1 local i) (max_abs_c_or_1 i))) [0..<4])
      @ assert_eq ((1 - is_c_0_result) * is_real) (dr_remainder_check_multiplicity local)
      @ send_alu (opcode_as_field Op_SLTU) (mk_word 1 0 0 0) (dr_abs_remainder local) (dr_max_abs_c_or_1 local)
          (dr_remainder_check_multiplicity local))"

definition div_rem_eval_ranges :: "'f::field div_rem_cols \<Rightarrow> 'f air_op list" where
  "div_rem_eval_ranges local =
     (let is_real = dr_is_real local in
      concat (map (\<lambda>(msb, byte). send_byte (byte_opcode_as_field B_MSB) msb byte 0 is_real)
          [(dr_b_msb local, dr_b local 3), (dr_c_msb local, dr_c local 3), (dr_rem_msb local, dr_remainder local 3)])
      @ slice_range_check_u8 (limb_list (dr_b local)) is_real
      @ slice_range_check_u8 (limb_list (dr_c local)) is_real
      @ slice_range_check_u8 (limb_list (dr_quotient local)) is_real
      @ slice_range_check_u8 (limb_list (dr_remainder local)) is_real
      @ concat (map (\<lambda>i. assert_bool (dr_carry local i)) [0..<8])
      @ slice_range_check_u8 (map (dr_c_times_quotient local) [0..<8]) is_real
      @ concat (map assert_bool [dr_is_div local, dr_is_divu local, dr_is_mod local, dr_is_modu local, dr_is_overflow local, dr_b_msb local,
          dr_rem_msb local, dr_c_msb local, dr_b_neg local, dr_rem_neg local, dr_c_neg local]))"

definition div_rem_eval_receive :: "'f::field div_rem_cols \<Rightarrow> 'f air_op list" where
  "div_rem_eval_receive local =
     (let is_div = dr_is_div local; is_divu = dr_is_divu local; is_mod = dr_is_mod local; is_modu = dr_is_modu local;
          opc = is_divu * opcode_as_field Op_DIVU + is_div * opcode_as_field Op_DIV + is_mod * opcode_as_field Op_MOD
            + is_modu * opcode_as_field Op_MODU in
      when_cond (dr_is_real local) (assert_eq 1 (is_divu + is_div + is_mod + is_modu))
      @ receive_instruction
          (instruction_values (dr_shard local) (dr_clk local) (dr_pc local) (dr_next_pc local) (dr_next_pc local + 4) 0 opc
             (dr_quotient local) (dr_b local) (dr_c local) (dr_remainder local) 0 0 1 0 1) (is_div + is_divu)
      @ receive_instruction
          (instruction_values 0 0 (dr_pc local) (dr_next_pc local) (dr_next_pc local + 4) 0 opc
             (dr_remainder local) (dr_b local) (dr_c local) zero_word 0 0 0 0 1) (is_mod + is_modu)
      @ eval_memory_access (dr_shard local) (dr_clk local + from_canonical_u32 (position_offset PosHI)) 33
          (dr_op_hi_access local) (is_div + is_divu)
      @ when_cond (is_div + is_divu) (assert_word_eq (dr_remainder local) (ma_value (mrw_access (dr_op_hi_access local)))))"

definition div_rem_eval :: "'f::field div_rem_cols \<Rightarrow> 'f air_op list" where
  "div_rem_eval local =
     div_rem_eval_product local @ div_rem_eval_remainder local @ div_rem_eval_ranges local @ div_rem_eval_receive local"

lemmas div_rem_evals = div_rem_eval_def div_rem_eval_product_def div_rem_eval_remainder_def div_rem_eval_ranges_def
  div_rem_eval_receive_def

section \<open>Soundness\<close>

lemma div_rem_flags:
  fixes d du m mu :: koala
  assumes "d = 0 \<or> d = 1" "du = 0 \<or> du = 1" "m = 0 \<or> m = 1" "mu = 0 \<or> mu = 1" "d + du + m + mu \<noteq> 0" "1 = du + d + m + mu"
  obtains op where "op \<in> {Op_DIV, Op_DIVU, Op_MOD, Op_MODU}" "d = from_bool (op = Op_DIV)" "du = from_bool (op = Op_DIVU)"
    "m = from_bool (op = Op_MOD)" "mu = from_bool (op = Op_MODU)"
  using assms that [of Op_DIV] that [of Op_DIVU] that [of Op_MOD] that [of Op_MODU] by (elim disjE) simp_all

text \<open>The checked sum: quotient times divisor plus remainder is the dividend, as 64-bit words.\<close>

lemma div_rem_sum:
  fixes b r :: "koala limbs" and ctq carry :: "nat \<Rightarrow> koala" and p :: u64 and mop :: opcode
  assumes B: "byte_word b" "byte_word r"
    and ctq: "\<And>i. i < 8 \<Longrightarrow> ctq i = from_canonical_u8 (byte_at_u64 p i)"
    and rem_neg: "rem_neg = from_bool (mop = Op_MULT \<and> bit (to_u32 r) 31)"
    and b_neg: "b_neg = from_bool (bop = Op_MULT \<and> bit (to_u32 b) 31)"
    and carry: "\<And>i. i < 8 \<Longrightarrow> carry i = 0 \<or> carry i = 1"
    and eq: "\<And>i. i < 8 \<Longrightarrow> ctq i + (if i < 4 then r i else rem_neg * 255) - carry i * 256 + (if i > 0 then carry (i - 1) else 0) =
      (if i < 4 then b i else b_neg * 255)"
  shows "p + mul_extend mop (to_u32 r) = mul_extend bop (to_u32 b)"
proof -
  define c where "c k = (case k of 0 \<Rightarrow> 0 | Suc j \<Rightarrow> canon (carry j))" for k
  have small: "canon (carry k) < 2" if "k < 8" for k
    using carry [OF that] canon_of_nat [of 1] canon_of_nat [of 0] by auto
  have "unat (byte_at_u64 p k) + unat (byte_at_u64 (mul_extend mop (to_u32 r)) k) + c k =
      unat (byte_at_u64 (mul_extend bop (to_u32 b)) k) + 256 * c (Suc k)" (is "?x + ?y + _ = ?z + _") if k: "k < 8" for k
  proof (rule koala_nat_eqI)
    have "(of_nat (?x + ?y) :: koala) + of_nat (c k) - of_nat (256 * c (Suc k)) = of_nat ?z"
      using eq [OF k] mul_extended_limb [OF B(1) b_neg k] mul_extended_limb [OF B(2) rem_neg k] ctq [OF k]
      by (cases k) (simp_all add: c_def from_canonical_u8_def algebra_simps del: of_nat_unat)
    then show "(of_nat (?x + ?y + c k) :: koala) = of_nat (?z + 256 * c (Suc k))" by (simp add: diff_eq_eq del: of_nat_unat)
    have "c k < 2" "c (Suc k) < 2" using small [of k] small [of "k - 1"] k by (cases k; simp add: c_def)+
    then show "?x + ?y + c k < 2130706433" "?z + 256 * c (Suc k) < 2130706433"
      using unat_byte_less [of "byte_at_u64 p k"] unat_byte_less [of "byte_at_u64 (mul_extend mop (to_u32 r)) k"]
        unat_byte_less [of "byte_at_u64 (mul_extend bop (to_u32 b)) k"] by linarith+
  qed
  moreover have "c 0 = 0" by (simp only: c_def nat.case)
  ultimately show ?thesis by (rule digits_of_sum)
qed

text \<open>The absolute value, checked by the addition chip when the sign is negative.\<close>

lemma abs_value_sound:
  assumes w: "byte_word w" and neg: "neg = from_bool (sg \<and> bit (to_u32 w) 31)"
    and same: "neg = 0 \<Longrightarrow> limb_list w = limb_list v"
    and sum: "neg \<noteq> 0 \<Longrightarrow> alu_message_valid (instruction_values s k p q r x (opcode_as_field Op_ADD) zero_word w v zero_word f1 f2 f3 f4 f5)"
  shows "byte_word v" "to_u32 v = (if sg then unsigned_abs (to_u32 w) else to_u32 w)"
proof -
  have sign: "bit (to_u32 w) 31 \<longleftrightarrow> sint (to_u32 w) < 0" by (simp add: bit_last_iff [symmetric])
  have "byte_word v \<and> to_u32 v = (if sg then unsigned_abs (to_u32 w) else to_u32 w)"
  proof (cases "sg \<and> bit (to_u32 w) 31")
    case True
    then have m: "alu_message_valid (instruction_values s k p q r x (opcode_as_field Op_ADD) zero_word w v zero_word f1 f2 f3 f4 f5)"
      using sum neg by simp
    note v = alu_message_validD [OF m]
    have "to_u32 w + to_u32 v = 0" using v(5) by (simp add: alu_computes_def alu_op_simps)
    then have "to_u32 v = - to_u32 w" by (simp add: eq_neg_iff_add_eq_0 add.commute)
    then show ?thesis using v(3) True sign by (simp add: unsigned_abs_def)
  next
    case False
    then have l: "limb_list w = limb_list v" using same neg by (simp add: from_bool_def)
    then have "to_u32 v = to_u32 w" using limb_list_eqD [OF l] by (simp add: to_u32_def limb_number_def)
    then show ?thesis using w l False sign by (simp add: byte_word_def unsigned_abs_def)
  qed
  then show "byte_word v" "to_u32 v = (if sg then unsigned_abs (to_u32 w) else to_u32 w)" by simp_all
qed

text \<open>From the checked relations to the executor's result.\<close>

lemma div_rem_words:
  fixes b c q r :: u32
  defines "mop op \<equiv> if is_signed_operation op then Op_MULT else Op_MULTU"
  assumes op: "op \<in> {Op_DIV, Op_DIVU, Op_MOD, Op_MODU}" and c: "c \<noteq> 0"
    and sum: "mul_extend (mop op) q * mul_extend (mop op) c + mul_extend (mop op) r =
      mul_extend (if is_signed_operation op \<and> sdiv_overflow b c then Op_MULTU else mop op) b"
    and less: "if is_signed_operation op then unsigned_abs r < unsigned_abs c else r < c"
    and sign: "is_signed_operation op \<Longrightarrow> sint r < 0 \<Longrightarrow> sint b < 0" "is_signed_operation op \<Longrightarrow> 0 < sint r \<Longrightarrow> 0 \<le> sint b"
  shows "alu_computes op b c (if op \<in> {Op_DIV, Op_DIVU} then q else r) (if op \<in> {Op_DIV, Op_DIVU} then r else 0)"
proof (cases "is_signed_operation op")
  case False
  then have "op = Op_DIVU \<or> op = Op_MODU" using op by (auto simp: is_signed_operation_def)
  moreover have "q = b div c" "r = b mod c" using unsigned_equation [of q c r b] sum less False by (simp_all add: mop_def)
  ultimately show ?thesis using c by (auto intro!: alu_computesI simp: alu_op_def alu_result_def)
next
  case True
  then have op': "op = Op_DIV \<or> op = Op_MOD" by (simp add: is_signed_operation_def)
  have less: "\<bar>sint r\<bar> < \<bar>sint c\<bar>" using less True by (simp add: word_less_def uint_unsigned_abs)
  show ?thesis
  proof (cases "sdiv_overflow b c")
    case ov: True
    then have "sint c = - 1" by (auto simp: sdiv_overflow_def)
    then have r: "r = 0" using less by (simp add: signed_eq_0_iff)
    then have "q = b" using overflow_equation [OF _ ov] sum True ov by (simp add: mop_def)
    then show ?thesis using op' ov r by (auto simp: alu_computes_def)
  next
    case False
    then have "sint b = sint q * sint c + sint r" using signed_equation [of q c r b] sum True by (simp add: mop_def)
    then have "trunc_division (sint b) (sint c) (sint q) (sint r)"
      by (rule trunc_divisionI) (use less sign True in simp_all)
    note w = trunc_division_words [OF c False this]
    show ?thesis using op' False c by (auto intro!: alu_computesI simp: w alu_op_def alu_result_def)
  qed
qed

abbreviation dep_values :: "koala \<Rightarrow> koala limbs \<Rightarrow> koala limbs \<Rightarrow> koala limbs \<Rightarrow> koala limbs \<Rightarrow> koala list" where
  "dep_values opc a b c hi \<equiv>
     instruction_values 0 0 (from_canonical_u32 BUILDER_UNUSED_PC) (from_canonical_u32 (BUILDER_UNUSED_PC + BUILDER_DEFAULT_PC_INC))
       (from_canonical_u32 (BUILDER_UNUSED_PC + BUILDER_DEFAULT_PC_INC + BUILDER_DEFAULT_PC_INC)) 0 opc a b c hi 0 0 0 0 1"

lemma div_rem_sends:
  "instruction_sends (div_rem_eval row) =
     (if dr_is_real row = 0 then [] else
        [dep_values ((dr_is_div row + dr_is_mod row) * opcode_as_field Op_MULT + (dr_is_divu row + dr_is_modu row) * opcode_as_field Op_MULTU)
           (mk_word (dr_c_times_quotient row 0) (dr_c_times_quotient row 1) (dr_c_times_quotient row 2) (dr_c_times_quotient row 3))
           (dr_quotient row) (dr_c row)
           (mk_word (dr_c_times_quotient row 4) (dr_c_times_quotient row 5) (dr_c_times_quotient row 6) (dr_c_times_quotient row 7))])
     @ (if dr_c_neg row = 0 then [] else [dep_values (opcode_as_field Op_ADD) zero_word (dr_c row) (dr_abs_c row) zero_word])
     @ (if dr_rem_neg row = 0 then [] else [dep_values (opcode_as_field Op_ADD) zero_word (dr_remainder row) (dr_abs_remainder row) zero_word])
     @ (if dr_remainder_check_multiplicity row = 0 then []
        else [dep_values (opcode_as_field Op_SLTU) (mk_word 1 0 0 0) (dr_abs_remainder row) (dr_max_abs_c_or_1 row) zero_word])"
  unfolding div_rem_evals Let_def
  by (simp add: if_distrib [of instruction_sends] cong: if_cong)

lemma div_rem_receives:
  "instruction_receives (div_rem_eval row) =
     (let opc = dr_is_divu row * opcode_as_field Op_DIVU + dr_is_div row * opcode_as_field Op_DIV + dr_is_mod row * opcode_as_field Op_MOD
            + dr_is_modu row * opcode_as_field Op_MODU in
      (if dr_is_div row + dr_is_divu row = 0 then [] else
         [instruction_values (dr_shard row) (dr_clk row) (dr_pc row) (dr_next_pc row) (dr_next_pc row + 4) 0 opc
             (dr_quotient row) (dr_b row) (dr_c row) (dr_remainder row) 0 0 1 0 1])
      @ (if dr_is_mod row + dr_is_modu row = 0 then [] else
         [instruction_values 0 0 (dr_pc row) (dr_next_pc row) (dr_next_pc row + 4) 0 opc
             (dr_remainder row) (dr_b row) (dr_c row) zero_word 0 0 0 0 1]))"
  unfolding div_rem_evals Let_def
  by (simp add: if_distrib [of instruction_receives] cong: if_cong)

lemma u8_max_field: "from_canonical_u8 255 = (255 :: koala)"
  by (simp add: from_canonical_u8_def)

lemma div_rem_facts:
  fixes row :: "koala div_rem_cols"
  assumes acc: "accepted (div_rem_eval row)"
  shows "accepted (assert_eq (dr_b_msb row * (dr_is_div row + dr_is_mod row)) (dr_b_neg row))"
      "accepted (assert_eq (dr_rem_msb row * (dr_is_div row + dr_is_mod row)) (dr_rem_neg row))"
      "accepted (assert_eq (dr_c_msb row * (dr_is_div row + dr_is_mod row)) (dr_c_neg row))"
    and "accepted (is_equal_word_eval (dr_b row) (word_from 0x80000000) (dr_is_overflow_b row) (dr_is_real row))"
    and "accepted (is_equal_word_eval (dr_c row) (word_from 0xFFFFFFFF) (dr_is_overflow_c row) (dr_is_real row))"
    and "accepted (assert_eq (dr_is_overflow row) (izw_result (dr_is_overflow_b row) * izw_result (dr_is_overflow_c row) * (dr_is_div row + dr_is_mod row)))"
    and "\<forall>i<8. accepted (if i < 4 then assert_eq (dr_b row i) (c_times_quotient_plus_remainder row i)
          else when_cond (1 - dr_is_overflow row) (when_cond (dr_b_neg row) (assert_eq (c_times_quotient_plus_remainder row i) 255))
            @ when_cond (1 - dr_is_overflow row) (when_cond (1 - dr_b_neg row) (assert_zero (c_times_quotient_plus_remainder row i)))
            @ when_cond (dr_is_overflow row) (assert_zero (c_times_quotient_plus_remainder row i)))"
    and "accepted (when_cond (dr_rem_neg row) (assert_one (dr_b_neg row)))"
    and "accepted (when_cond (dr_remainder row 0 + dr_remainder row 1 + dr_remainder row 2 + dr_remainder row 3)
          (when_cond (1 - dr_rem_neg row) (assert_zero (dr_b_neg row))))"
    and "accepted (is_zero_word_eval (dr_c row) (dr_is_c_0 row) (dr_is_real row))"
    and "accepted (when_cond (dr_is_real row) (assert_zero (izw_result (dr_is_c_0 row))))"
    and "\<forall>i<4. accepted (when_not (dr_c_neg row) (assert_eq (dr_c row i) (dr_abs_c row i))) \<and>
          accepted (when_not (dr_rem_neg row) (assert_eq (dr_remainder row i) (dr_abs_remainder row i)))"
    and "\<forall>i<4. accepted (when_cond (dr_is_real row) (assert_eq (dr_max_abs_c_or_1 row i)
          (mk_word (izw_result (dr_is_c_0 row) * 1 + (1 - izw_result (dr_is_c_0 row)) * dr_abs_c row 0)
            ((1 - izw_result (dr_is_c_0 row)) * dr_abs_c row 1) ((1 - izw_result (dr_is_c_0 row)) * dr_abs_c row 2)
            ((1 - izw_result (dr_is_c_0 row)) * dr_abs_c row 3) i)))"
    and "accepted (assert_eq ((1 - izw_result (dr_is_c_0 row)) * dr_is_real row) (dr_remainder_check_multiplicity row))"
    and "accepted (send_byte (byte_opcode_as_field B_MSB) (dr_b_msb row) (dr_b row 3) 0 (dr_is_real row))"
      "accepted (send_byte (byte_opcode_as_field B_MSB) (dr_c_msb row) (dr_c row 3) 0 (dr_is_real row))"
      "accepted (send_byte (byte_opcode_as_field B_MSB) (dr_rem_msb row) (dr_remainder row 3) 0 (dr_is_real row))"
    and "accepted (slice_range_check_u8 (limb_list (dr_b row)) (dr_is_real row))" "accepted (slice_range_check_u8 (limb_list (dr_c row)) (dr_is_real row))"
      "accepted (slice_range_check_u8 (limb_list (dr_quotient row)) (dr_is_real row))" "accepted (slice_range_check_u8 (limb_list (dr_remainder row)) (dr_is_real row))"
    and "\<forall>i<8. accepted (assert_bool (dr_carry row i))"
    and "accepted (assert_bool (dr_is_div row))" "accepted (assert_bool (dr_is_divu row))" "accepted (assert_bool (dr_is_mod row))"
      "accepted (assert_bool (dr_is_modu row))" "accepted (assert_bool (dr_is_overflow row))"
    and "accepted (when_cond (dr_is_real row) (assert_eq 1 (dr_is_divu row + dr_is_div row + dr_is_mod row + dr_is_modu row)))"
  by (insert acc [unfolded div_rem_evals Let_def accepted_append accepted_loop list.map concat.simps prod.case append_Nil2 u8_max_field],
      (elim conjE, assumption)+)

lemma msb_column:
  assumes "byte_word w" "accepted (send_byte (byte_opcode_as_field B_MSB) msb (w 3) 0 1)"
  shows "msb = from_bool (bit (to_u32 w) 31)"
  using assms(2) byte_at_to_u32_nth [OF assms(1), of 3] by (auto simp: byte_table_msb bit_byte_at)

lemma limb_sum_zero:
  assumes "byte_word w" "w 0 + w 1 + w 2 + w 3 = 0"
  shows "to_u32 w = 0"
proof -
  have "(of_nat (canon (w 0) + canon (w 1) + canon (w 2) + canon (w 3)) :: koala) = of_nat 0" using assms(2) by simp
  then have "canon (w 0) + canon (w 1) + canon (w 2) + canon (w 3) = 0"
    by (rule koala_nat_eqI) (use byte_word_canon [OF assms(1)] in simp_all)
  then show ?thesis by (simp add: to_u32_def limb_number_def)
qed

lemma limb_list_u32_eq: "byte_word w \<Longrightarrow> limb_list w = limb_list (word_from v) \<longleftrightarrow> to_u32 w = v"
  using limb_list_word_from_inj [of "to_u32 w" v] by (simp add: limb_list_to_u32)

lemma word_limbs: "(\<forall>i<4. v i = w i) \<longleftrightarrow> limb_list v = limb_list w"
  by (auto simp: limb_list_def less_Suc_eq numeral_eq_Suc)

lemma product_limbs:
  assumes lo: "byte_word (mk_word (f 0) (f 1) (f 2) (f 3))" "to_u32 (mk_word (f 0) (f 1) (f 2) (f 3)) = ucast (p :: u64)"
    and hi: "byte_word (mk_word (f 4) (f 5) (f 6) (f 7))" "to_u32 (mk_word (f 4) (f 5) (f 6) (f 7)) = ucast (drop_bit 32 p)"
    and "i < 8"
  shows "f i = from_canonical_u8 (byte_at_u64 p i)"
proof (cases "i < 4")
  case True
  have "mk_word (f 0) (f 1) (f 2) (f 3) i = f i" using True by (auto simp: mk_word_def less_Suc_eq numeral_eq_Suc)
  then show ?thesis using byte_at_to_u32_nth [OF lo(1) True] by (simp add: lo(2) byte_at_low [OF True] del: One_nat_def)
next
  case False
  define j where "j = i - 4"
  have j: "i = j + 4" "j < 4" using False assms(5) by (simp_all add: j_def)
  have "mk_word (f 4) (f 5) (f 6) (f 7) j = f i" using j by (auto simp: mk_word_def less_Suc_eq numeral_eq_Suc)
  then show ?thesis using byte_at_to_u32_nth [OF hi(1) j(2)] by (simp add: hi(2) byte_at_high [OF j(2)] j(1))
qed

lemma div_rem_values:
  fixes row :: "koala div_rem_cols"
  assumes acc: "accepted (div_rem_eval row)" and real: "dr_is_real row \<noteq> 0"
    and sent: "list_all (\<lambda>s. operands_ok s \<longrightarrow> alu_message_valid s) (instruction_sends (div_rem_eval row))"
  obtains op where "op \<in> {Op_DIV, Op_DIVU, Op_MOD, Op_MODU}" "dr_is_div row = from_bool (op = Op_DIV)"
    "dr_is_divu row = from_bool (op = Op_DIVU)" "dr_is_mod row = from_bool (op = Op_MOD)" "dr_is_modu row = from_bool (op = Op_MODU)"
    "byte_word (dr_b row)" "byte_word (dr_c row)" "byte_word (dr_quotient row)" "byte_word (dr_remainder row)"
    "alu_computes op (to_u32 (dr_b row)) (to_u32 (dr_c row))
       (if op \<in> {Op_DIV, Op_DIVU} then to_u32 (dr_quotient row) else to_u32 (dr_remainder row))
       (if op \<in> {Op_DIV, Op_DIVU} then to_u32 (dr_remainder row) else 0)"
proof -
  note F = div_rem_facts [OF acc]
  have "1 = dr_is_divu row + dr_is_div row + dr_is_mod row + dr_is_modu row" using F(28) real by simp
  then have one: "dr_is_real row = 1" by (simp add: dr_is_real_def add.commute)
  obtain op where op: "op \<in> {Op_DIV, Op_DIVU, Op_MOD, Op_MODU}" "dr_is_div row = from_bool (op = Op_DIV)"
    "dr_is_divu row = from_bool (op = Op_DIVU)" "dr_is_mod row = from_bool (op = Op_MOD)" "dr_is_modu row = from_bool (op = Op_MODU)"
    by (rule div_rem_flags [of "dr_is_div row" "dr_is_divu row" "dr_is_mod row" "dr_is_modu row"])
      (use F(23-28) one in \<open>simp_all add: dr_is_real_def\<close>)
  have B: "byte_word (dr_b row)" "byte_word (dr_c row)" "byte_word (dr_quotient row)" "byte_word (dr_remainder row)"
    using F(18-21) by (simp_all add: one byte_word_def)
  let ?b = "to_u32 (dr_b row)" and ?c = "to_u32 (dr_c row)" and ?q = "to_u32 (dr_quotient row)" and ?r = "to_u32 (dr_remainder row)"
  define sg where "sg = is_signed_operation op"
  have sgf: "dr_is_div row + dr_is_mod row = from_bool sg" using op by (auto simp: sg_def is_signed_operation_def)
  have neg: "dr_b_neg row = from_bool (sg \<and> bit ?b 31)" "dr_rem_neg row = from_bool (sg \<and> bit ?r 31)" "dr_c_neg row = from_bool (sg \<and> bit ?c 31)"
    using F(1-3) msb_column [OF B(1) F(15) [unfolded one]] msb_column [OF B(4) F(17) [unfolded one]] msb_column [OF B(2) F(16) [unfolded one]]
    by (simp_all add: sgf from_bool_def split: if_splits)
  have ov: "dr_is_overflow row = from_bool (sg \<and> sdiv_overflow ?b ?c)"
    using F(6) is_equal_word_sound [OF F(4) [unfolded one]] is_equal_word_sound [OF F(5) [unfolded one]] B
    by (simp add: limb_list_u32_eq sgf sdiv_overflow_def from_bool_def)
  have c0: "izw_result (dr_is_c_0 row) = 0" "?c \<noteq> 0"
    using F(11) is_zero_word_sound [OF F(10) [unfolded one]] limb_list_u32_eq [OF B(2), of 0] by (simp_all add: one limb_list_word_from_0)
  define mop where "mop = (if sg then Op_MULT else Op_MULTU)"
  define p where "p = mul_extend mop ?q * mul_extend mop ?c"
  have mopc: "(dr_is_div row + dr_is_mod row) * opcode_as_field Op_MULT + (dr_is_divu row + dr_is_modu row) * opcode_as_field Op_MULTU = opcode_as_field mop"
    using op by (auto simp: mop_def sg_def is_signed_operation_def)
  have prod: "alu_message_valid (dep_values (opcode_as_field mop)
       (mk_word (dr_c_times_quotient row 0) (dr_c_times_quotient row 1) (dr_c_times_quotient row 2) (dr_c_times_quotient row 3))
       (dr_quotient row) (dr_c row)
       (mk_word (dr_c_times_quotient row 4) (dr_c_times_quotient row 5) (dr_c_times_quotient row 6) (dr_c_times_quotient row 7)))"
    using sent byte_wordD [OF B(2)] B(3) by (simp add: div_rem_sends one mopc operands_ok_iff)
  note pv = alu_message_validD [OF prod]
  have ctq: "dr_c_times_quotient row i = from_canonical_u8 (byte_at_u64 p i)" if "i < 8" for i
    by (rule product_limbs [OF pv(1) _ pv(4) _ that]) (use pv(5) in \<open>auto simp: alu_computes_def alu_op_mul mop_def p_def split: if_splits\<close>)
  define bop where "bop = (if sg \<and> sdiv_overflow ?b ?c then Op_MULTU else mop)"
  have sum: "p + mul_extend mop ?r = mul_extend bop ?b"
  proof (rule div_rem_sum [OF B(1,4) ctq])
    show "dr_rem_neg row = from_bool (mop = Op_MULT \<and> bit ?r 31)" using neg(2) by (simp add: mop_def)
    show "dr_carry row i = 0 \<or> dr_carry row i = 1" if "i < 8" for i using F(22) that by simp
    show "dr_c_times_quotient row i + (if i < 4 then dr_remainder row i else dr_rem_neg row * 255) - dr_carry row i * 256
        + (if i > 0 then dr_carry row (i - 1) else 0) = (if i < 4 then dr_b row i else from_bool (bop = Op_MULT \<and> bit ?b 31) * 255)"
      (is "?s = _") if "i < 8" for i
    proof -
      have s: "?s = c_times_quotient_plus_remainder row i" by (simp add: c_times_quotient_plus_remainder_def u8_max_field)
      show ?thesis unfolding s using F(7) [rule_format, OF that] neg(1) ov
        by (simp add: bop_def mop_def from_bool_def split: if_splits)
    qed
  qed simp_all
  have same: "dr_c_neg row = 0 \<Longrightarrow> limb_list (dr_c row) = limb_list (dr_abs_c row)"
    "dr_rem_neg row = 0 \<Longrightarrow> limb_list (dr_remainder row) = limb_list (dr_abs_remainder row)"
    using F(12) by (simp_all add: word_limbs [symmetric])
  have add: "dr_c_neg row \<noteq> 0 \<Longrightarrow> alu_message_valid (dep_values (opcode_as_field Op_ADD) zero_word (dr_c row) (dr_abs_c row) zero_word)"
    "dr_rem_neg row \<noteq> 0 \<Longrightarrow>
      alu_message_valid (dep_values (opcode_as_field Op_ADD) zero_word (dr_remainder row) (dr_abs_remainder row) zero_word)"
    using sent by (simp_all add: div_rem_sends operands_ok_iff)
  note abs_c = abs_value_sound [OF B(2) neg(3) same(1) add(1)]
  note abs_r = abs_value_sound [OF B(4) neg(2) same(2) add(2)]
  have "limb_list (dr_max_abs_c_or_1 row) = limb_list (dr_abs_c row)"
    using F(13) by (simp add: one c0(1) limb_list_def mk_word_def)
  then have max: "byte_word (dr_max_abs_c_or_1 row)" "to_u32 (dr_max_abs_c_or_1 row) = to_u32 (dr_abs_c row)"
    using abs_c(1) limb_list_eqD [of "dr_max_abs_c_or_1 row" "dr_abs_c row"] by (simp_all add: byte_word_def to_u32_def limb_number_def)
  have "alu_message_valid (dep_values (opcode_as_field Op_SLTU) (mk_word 1 0 0 0) (dr_abs_remainder row) (dr_max_abs_c_or_1 row) zero_word)"
    using sent F(14) byte_wordD [OF max(1)] abs_r(1) by (simp add: div_rem_sends one c0(1) operands_ok_iff)
  note lt = alu_message_validD(5) [OF this]
  have "to_u32 (mk_word 1 0 0 (0 :: koala)) = of_nat 1" by (rule low_byte_word(2)) (simp_all add: mk_word_def)
  then have "to_u32 (dr_abs_remainder row) < to_u32 (dr_abs_c row)"
    using lt by (simp add: alu_computes_def alu_op_simps max(2))
  then have less: "if is_signed_operation op then unsigned_abs ?r < unsigned_abs ?c else ?r < ?c" by (simp add: abs_c abs_r sg_def split: if_splits)
  have sign: "sint x < 0 \<longleftrightarrow> bit x 31" for x :: u32 by (simp add: bit_last_iff [symmetric])
  have s1: "sint ?b < 0" if "is_signed_operation op" "sint ?r < 0"
    using F(8) neg(1,2) that by (simp add: sign sg_def)
  have s2: "0 \<le> sint ?b" if "is_signed_operation op" "0 < sint ?r"
  proof -
    have "dr_remainder row 0 + dr_remainder row 1 + dr_remainder row 2 + dr_remainder row 3 \<noteq> 0"
      using that limb_sum_zero [OF B(4)] by auto
    moreover have "\<not> bit ?r 31" using that sign [of ?r] by simp
    ultimately have "\<not> bit ?b 31" using F(9) neg(1,2) that(1) by (simp add: sg_def)
    then show ?thesis using sign [of ?b] by simp
  qed
  have "alu_computes op ?b ?c (if op \<in> {Op_DIV, Op_DIVU} then ?q else ?r) (if op \<in> {Op_DIV, Op_DIVU} then ?r else 0)"
    by (rule div_rem_words [OF op(1) c0(2) _ less s1 s2]) (use sum in \<open>simp_all add: p_def mop_def bop_def sg_def\<close>)
  then show thesis using that [OF op B] by simp
qed

lemma div_rem_sound:
  assumes acc: "accepted (div_rem_eval row)"
    and sent: "list_all (\<lambda>s. operands_ok s \<longrightarrow> alu_message_valid s) (instruction_sends (div_rem_eval row))"
    and m: "m \<in> set (instruction_receives (div_rem_eval row))"
  shows "alu_message_valid m"
proof -
  have "dr_is_real row \<noteq> 0"
  proof
    assume z: "dr_is_real row = 0"
    note F = div_rem_facts(23-26) [OF acc]
    have "dr_is_div row + dr_is_divu row \<noteq> 0 \<or> dr_is_mod row + dr_is_modu row \<noteq> 0" using m by (auto simp: div_rem_receives split: if_splits)
    then show False using z F by (auto simp: dr_is_real_def)
  qed
  from div_rem_values [OF acc this sent] show ?thesis
  proof cases
    case (1 op)
    then show ?thesis using m
      by (auto simp: div_rem_receives Let_def intro!: alu_message_validI split: if_splits)
  qed
qed

section \<open>Completeness\<close>

text \<open>The carries of the trace generator are those of the sum.\<close>

lemma length_div_carry_loop [simp]: "length (div_carry_loop carry xs) = length xs"
  by (induction carry xs rule: div_carry_loop.induct) (simp_all add: Let_def)

lemma div_carry_step:
  fixes x y :: u8 and carry :: u32
  assumes "unat carry \<le> 1"
  shows "unat ((ucast x + ucast y + carry) div 256) = (unat x + unat y + unat carry) div 256"
    "(unat x + unat y + unat carry) div 256 \<le> 1"
proof -
  have s: "unat x + unat y + unat carry < 512" using unat_byte_less [of x] unat_byte_less [of y] assms by linarith
  then have "unat (ucast x + ucast y + carry) = unat x + unat y + unat carry"
    by (simp add: unat_word_ariths)
  then show "unat ((ucast x + ucast y + carry) div 256) = (unat x + unat y + unat carry) div 256"
    by (simp add: unat_div)
  show "(unat x + unat y + unat carry) div 256 \<le> 1" using s by simp
qed

lemma div_carry_loop_nth:
  assumes "unat carry \<le> 1" "j < length xs"
  shows "unat (div_carry_loop carry xs ! j) =
    (unat (fst (xs ! j)) + unat (snd (xs ! j)) + (if j = 0 then unat carry else unat (div_carry_loop carry xs ! (j - 1)))) div 256"
    "unat (div_carry_loop carry xs ! j) \<le> 1"
proof -
  have "unat (div_carry_loop carry xs ! j) =
    (unat (fst (xs ! j)) + unat (snd (xs ! j)) + (if j = 0 then unat carry else unat (div_carry_loop carry xs ! (j - 1)))) div 256 \<and>
    unat (div_carry_loop carry xs ! j) \<le> 1"
    using assms
  proof (induction carry xs arbitrary: j rule: div_carry_loop.induct)
    case (2 carry x y xs)
    note step = div_carry_step [OF 2(2), of x y]
    then show ?case using 2(1) [OF refl, of "j - 1"] 2(3)
      by (cases j; cases "j - 1") (simp_all add: Let_def nth_Cons')
  qed simp
  then show "unat (div_carry_loop carry xs ! j) =
    (unat (fst (xs ! j)) + unat (snd (xs ! j)) + (if j = 0 then unat carry else unat (div_carry_loop carry xs ! (j - 1)))) div 256"
    "unat (div_carry_loop carry xs ! j) \<le> 1" by blast+
qed

lemma sum_digits:
  fixes x y :: u64
  assumes c: "c 0 = 0" "\<And>k. k < 8 \<Longrightarrow> c (Suc k) = (unat (byte_at_u64 x k) + unat (byte_at_u64 y k) + c k) div 256" and k: "k < 8"
  shows "unat (byte_at_u64 x k) + unat (byte_at_u64 y k) + c k = unat (byte_at_u64 (x + y) k) + 256 * c (Suc k)"
proof -
  define d where "d k = (unat (byte_at_u64 x k) + unat (byte_at_u64 y k) + c k) mod 256" for k
  have eq: "unat (byte_at_u64 x k) + unat (byte_at_u64 y k) + c k = d k + 256 * c (Suc k)" if "k < 8" for k
    by (simp add: c(2) [OF that] d_def)
  have "(\<Sum>k<8. (unat (byte_at_u64 x k) + unat (byte_at_u64 y k)) * 256 ^ k) = (\<Sum>k<8. d k * 256 ^ k) + c 8 * 256 ^ 8"
    using carry_sum [of 8 "\<lambda>k. unat (byte_at_u64 x k) + unat (byte_at_u64 y k)" c d 256, OF eq] c(1) by simp
  then have "unat x + unat y = (\<Sum>k<8. d k * 256 ^ k) + c 8 * 256 ^ 8" by (simp only: u64_digits [symmetric] distrib_right sum.distrib)
  then have "(of_nat (unat x + unat y) :: u64) = of_nat ((\<Sum>k<8. d k * 256 ^ k) + c 8 * 256 ^ 8)" by (rule arg_cong)
  then have "x + y = of_nat (\<Sum>k<8. d k * 256 ^ k)" using u64_modulus [of "of_nat (c 8)"] by (simp add: mult.commute)
  moreover have "(\<Sum>k<8. d k * 256 ^ k) < 256 ^ 8" by (rule digits_bound) (simp add: d_def)
  ultimately have "unat (x + y) = (\<Sum>k<8. d k * 256 ^ k)" by (simp only: unsigned_of_nat take_bit_eq_mod) simp
  then have "d k = unat (byte_at_u64 (x + y) k)"
    using digits_unique [of d 8 "\<lambda>i. unat (byte_at_u64 (x + y) i)" k] u64_digits [of "x + y"] k unat_byte_less by (simp add: d_def)
  then show ?thesis using eq [OF k] by simp
qed

lemma div_limb_equation:
  fixes x y :: u64
  defines "cs \<equiv> div_carry_loop 0 (map (\<lambda>i. (byte_at_u64 x i, byte_at_u64 y i)) [0..<8])"
  assumes k: "k < 8"
  shows "from_canonical_u8 (byte_at_u64 x k) + from_canonical_u8 (byte_at_u64 y k) - from_canonical_u32 (cs ! k) * 256
      + (if k > 0 then from_canonical_u32 (cs ! (k - 1)) else 0) = (from_canonical_u8 (byte_at_u64 (x + y) k) :: koala)"
    and "from_canonical_u32 (cs ! k) = (0 :: koala) \<or> from_canonical_u32 (cs ! k) = (1 :: koala)"
proof -
  define c where "c j = (case j of 0 \<Rightarrow> 0 | Suc i \<Rightarrow> unat (cs ! i))" for j
  have step: "c (Suc j) = (unat (byte_at_u64 x j) + unat (byte_at_u64 y j) + c j) div 256" "c (Suc j) \<le> 1" if "j < 8" for j
    using div_carry_loop_nth [of 0 j "map (\<lambda>i. (byte_at_u64 x i, byte_at_u64 y i)) [0..<8]", folded cs_def] that
    by (cases j; simp add: c_def)+
  have "unat (byte_at_u64 x k) + unat (byte_at_u64 y k) + c k = unat (byte_at_u64 (x + y) k) + 256 * c (Suc k)"
    by (rule sum_digits [OF _ step(1) k]) (simp_all add: c_def)
  then have "(of_nat (unat (byte_at_u64 x k) + unat (byte_at_u64 y k) + c k) :: koala) = of_nat (unat (byte_at_u64 (x + y) k) + 256 * c (Suc k))"
    by (rule arg_cong)
  then show "from_canonical_u8 (byte_at_u64 x k) + from_canonical_u8 (byte_at_u64 y k) - from_canonical_u32 (cs ! k) * 256
      + (if k > 0 then from_canonical_u32 (cs ! (k - 1)) else 0) = (from_canonical_u8 (byte_at_u64 (x + y) k) :: koala)"
    by (cases k) (simp_all add: c_def from_canonical_u8_def from_canonical_u32_def algebra_simps del: of_nat_unat)
  show "from_canonical_u32 (cs ! k) = (0 :: koala) \<or> from_canonical_u32 (cs ! k) = (1 :: koala)"
    using step(2) [OF k] by (auto simp: c_def from_canonical_u32_def le_Suc_eq simp del: of_nat_unat)
qed

text \<open>What the executor's quotient and remainder satisfy.\<close>

lemma quotient_remainder_facts:
  fixes b c q r :: u32
  defines "sg op \<equiv> is_signed_operation op" and "mop op \<equiv> if is_signed_operation op then Op_MULT else Op_MULTU"
  assumes qr: "get_quotient_and_remainder b c op = (q, r)" and c: "c \<noteq> 0" "sg op \<Longrightarrow> \<not> sdiv_overflow b c"
  shows "mul_extend (mop op) q * mul_extend (mop op) c + mul_extend (mop op) r = mul_extend (mop op) b"
    "if sg op then unsigned_abs r < unsigned_abs c else r < c"
    "sg op \<Longrightarrow> bit r 31 \<Longrightarrow> bit b 31" "sg op \<Longrightarrow> r \<noteq> 0 \<Longrightarrow> \<not> bit r 31 \<Longrightarrow> \<not> bit b 31"
proof -
  have sign: "bit x 31 \<longleftrightarrow> sint x < 0" for x :: u32 by (simp add: bit_last_iff [symmetric])
  show "mul_extend (mop op) q * mul_extend (mop op) c + mul_extend (mop op) r = mul_extend (mop op) b"
    "if sg op then unsigned_abs r < unsigned_abs c else r < c"
  proof (atomize (full), cases "sg op")
    case True
    then have t: "trunc_division (sint b) (sint c) (sint q) (sint r)"
      using div_correct [OF c(1) c(2) [OF True]] qr c(1) by (simp add: get_quotient_and_remainder_def sg_def)
    then have "(of_int (sint b) :: u64) = of_int (sint q * sint c + sint r)" by (simp add: trunc_division_def)
    then show "mul_extend (mop op) q * mul_extend (mop op) c + mul_extend (mop op) r = mul_extend (mop op) b \<and>
        (if sg op then unsigned_abs r < unsigned_abs c else r < c)"
      using t True by (simp add: mop_def mul_extend_def sg_def trunc_division_def word_less_def uint_unsigned_abs)
  next
    case False
    then have "q = b div c" "r = b mod c" using qr c(1) by (simp_all add: get_quotient_and_remainder_def sg_def)
    then have t: "uint b = uint q * uint c + uint r \<and> uint r < uint c" using divu_correct [OF c(1), of b] by simp
    have "(ucast b :: u64) = of_int (uint b)" by simp
    also have "\<dots> = of_int (uint q * uint c + uint r)" by (simp only: conjunct1 [OF t])
    finally have "(ucast b :: u64) = ucast q * ucast c + ucast r" by simp
    then show "mul_extend (mop op) q * mul_extend (mop op) c + mul_extend (mop op) r = mul_extend (mop op) b \<and>
        (if sg op then unsigned_abs r < unsigned_abs c else r < c)"
      using t False by (simp add: mop_def mul_extend_def sg_def word_less_def)
  qed
  have "sint r \<noteq> 0 \<Longrightarrow> sgn (sint r) = sgn (sint b)" if "sg op"
    using div_correct [OF c(1) c(2) [OF that]] qr c(1) that by (simp add: get_quotient_and_remainder_def sg_def trunc_division_def)
  then have "sint r < 0 \<longrightarrow> sint b < 0" "0 < sint r \<longrightarrow> 0 < sint b" if "sg op" using that by (auto simp: sgn_if split: if_splits)
  then show "sg op \<Longrightarrow> bit r 31 \<Longrightarrow> bit b 31" "sg op \<Longrightarrow> r \<noteq> 0 \<Longrightarrow> \<not> bit r 31 \<Longrightarrow> \<not> bit b 31"
    by (auto simp: sign not_less order_le_less signed_eq_0_iff)
qed

definition alu_of_comp :: "comp_alu_event \<Rightarrow> alu_event" where
  "alu_of_comp e = \<lparr>alu_pc = calu_pc e, alu_next_pc = calu_next_pc e, alu_opcode = calu_opcode e, alu_hi = calu_hi e,
     alu_a = calu_a e, alu_b = calu_b e, alu_c = calu_c e\<rparr>"

definition valid_div_rem_event :: "comp_alu_event \<Rightarrow> bool" where
  "valid_div_rem_event e \<longleftrightarrow> valid_comp_alu e \<and> calu_opcode e \<in> {Op_DIV, Op_DIVU, Op_MOD, Op_MODU} \<and>
     (calu_hi_record_is_real e \<longleftrightarrow> calu_opcode e \<in> {Op_DIV, Op_DIVU}) \<and> (calu_hi_record_is_real e \<longrightarrow> valid_hi_write e)"

lemma valid_div_rem_result:
  assumes "valid_div_rem_event e" "get_quotient_and_remainder (calu_b e) (calu_c e) (calu_opcode e) = (q, r)"
  shows "calu_c e \<noteq> 0" "is_signed_operation (calu_opcode e) \<Longrightarrow> \<not> sdiv_overflow (calu_b e) (calu_c e)"
    "calu_a e = (if calu_opcode e \<in> {Op_DIV, Op_DIVU} then q else r)" "calu_hi e = (if calu_opcode e \<in> {Op_DIV, Op_DIVU} then r else 0)"
  using assms by (auto simp: valid_div_rem_event_def valid_comp_alu_def alu_op_def alu_result_def is_signed_operation_def
      get_quotient_and_remainder_def split: if_splits)

lemma get_msb_u32: "get_msb w = of_bool (bit w 31)"
proof -
  have "drop_bit 31 w AND 1 = (of_bool (bit w 31) :: u32)" by (simp add: bit_iff_odd_drop_bit and_one_eq odd_iff_mod_2_eq_one mod2_eq_if)
  then show ?thesis by (simp add: get_msb_def)
qed

lemma get_msb_koala: "from_canonical_u8 (get_msb w) = (from_bool (bit w 31) :: koala)"
  by (simp add: get_msb_u32 from_bool_def from_canonical_u8_def)

lemma msb_lookup: "in_byte_table [byte_opcode_as_field B_MSB, from_bool (bit w 31), 0, word_from w 3, 0]"
  by (auto simp: byte_table_msb word_from_def bit_byte_at)

lemma abs_message:
  assumes "bit w 31"
  shows "limb_list (word_from (w + unsigned_abs w)) = [0, 0, 0, 0 :: koala]"
proof -
  have "sint w < 0" using assms by (simp add: bit_last_iff [symmetric])
  then show ?thesis by (simp add: unsigned_abs_def limb_list_word_from_0)
qed

lemma div_rem_row:
  assumes row: "div_rem_event_to_row e = (row :: koala div_rem_cols, blu)"
    and qr: "get_quotient_and_remainder (calu_b e) (calu_c e) (calu_opcode e) = (q, r)"
    and hi: "(if calu_opcode e = Op_DIVU \<or> calu_opcode e = Op_DIV then memory_populate (Write (calu_hi_record e))
      else (mul_default_access, [])) = (acc, hblu)"
  defines "sg \<equiv> is_signed_operation (calu_opcode e)"
  defines "p \<equiv> mul_extend (if sg then Op_MULT else Op_MULTU) q * mul_extend (if sg then Op_MULT else Op_MULTU) (calu_c e)"
    and "rl \<equiv> mul_extend (if sg then Op_MULT else Op_MULTU) r"
  shows "row = \<lparr>dr_pc = from_canonical_u32 (calu_pc e), dr_next_pc = from_canonical_u32 (calu_next_pc e),
        dr_b = word_from (calu_b e), dr_c = word_from (calu_c e), dr_quotient = word_from q, dr_remainder = word_from r,
        dr_abs_remainder = word_from (if sg then unsigned_abs r else r), dr_abs_c = word_from (if sg then unsigned_abs (calu_c e) else calu_c e),
        dr_max_abs_c_or_1 = word_from (max 1 (if sg then unsigned_abs (calu_c e) else calu_c e)),
        dr_c_times_quotient = (\<lambda>i. from_canonical_u8 (byte_at_u64 p i)),
        dr_carry = (\<lambda>i. from_canonical_u32 (div_carry_loop 0 (map (\<lambda>i. (byte_at_u64 p i, byte_at_u64 rl i)) [0..<8]) ! i)),
        dr_is_c_0 = is_zero_word_populate (calu_c e),
        dr_is_div = from_bool (calu_opcode e = Op_DIV), dr_is_divu = from_bool (calu_opcode e = Op_DIVU),
        dr_is_mod = from_bool (calu_opcode e = Op_MOD), dr_is_modu = from_bool (calu_opcode e = Op_MODU),
        dr_is_overflow = from_bool (sg \<and> sdiv_overflow (calu_b e) (calu_c e)),
        dr_is_overflow_b = is_equal_word_populate (calu_b e) 0x80000000, dr_is_overflow_c = is_equal_word_populate (calu_c e) 0xFFFFFFFF,
        dr_b_msb = from_bool (bit (calu_b e) 31), dr_rem_msb = from_bool (bit r 31), dr_c_msb = from_bool (bit (calu_c e) 31),
        dr_b_neg = from_bool (sg \<and> bit (calu_b e) 31), dr_rem_neg = from_bool (sg \<and> bit r 31), dr_c_neg = from_bool (sg \<and> bit (calu_c e) 31),
        dr_remainder_check_multiplicity = 1 - izw_result (is_zero_word_populate (calu_c e) :: koala is_zero_word_operation),
        dr_op_hi_access = acc,
        dr_shard = (if calu_opcode e = Op_DIVU \<or> calu_opcode e = Op_DIV then from_canonical_u32 (calu_shard e) else 0),
        dr_clk = (if calu_opcode e = Op_DIVU \<or> calu_opcode e = Op_DIV then from_canonical_u32 (calu_clk e) else 0)\<rparr> \<and>
    blu = hblu @ map (\<lambda>w. byte_lookup_event_new B_MSB (ucast (get_msb w)) 0 (byte_at w 3) 0) [calu_b e, calu_c e, r]
       @ add_u8_range_checks (le_bytes (calu_b e)) @ add_u8_range_checks (le_bytes (calu_c e)) @ add_u8_range_checks (le_bytes q)
       @ add_u8_range_checks (le_bytes r) @ add_u8_range_checks (map (byte_at_u64 p) [0..<8])"
proof -
  have p: "p = (if sg then scast q * scast (calu_c e) else ucast q * ucast (calu_c e))" "rl = (if sg then scast r else ucast r)"
    by (simp_all add: p_def rl_def mul_extend_def)
  note R = row [unfolded div_rem_event_to_row_def Let_def qr hi prod.case get_msb_koala, folded sg_def, folded p, unfolded prod.inject]
  show ?thesis using R by (cases sg) (simp_all add: sdiv_overflow_def)
qed

lemma extended_word:
  assumes "i < 8"
  shows "(if i < 4 then word_from w i else from_bool (sg \<and> bit w 31) * 255) =
    (from_canonical_u8 (byte_at_u64 (mul_extend (if sg then Op_MULT else Op_MULTU) w) i) :: koala)"
  using mul_extended_limb [of "word_from w" _ Op_MULT, OF byte_word_from refl assms]
    mul_extended_limb [of "word_from w" _ Op_MULTU, OF byte_word_from refl assms]
  by (cases sg) (simp_all split: if_splits)

lemma div_rem_max:
  fixes c r :: u32
  assumes "if sg then unsigned_abs r < unsigned_abs c else r < c"
  shows "max 1 (if sg then unsigned_abs c else c) = (if sg then unsigned_abs c else c)"
proof -
  have "1 \<le> (if sg then unsigned_abs c else c)" using assms by (auto simp: word_less_nat_alt word_le_nat_alt Suc_le_eq split: if_splits)
  then show ?thesis by (simp add: max_absorb2)
qed

lemma alu_of_comp_simps:
  "alu_b (alu_of_comp e) = calu_b e" "alu_c (alu_of_comp e) = calu_c e" "alu_opcode (alu_of_comp e) = calu_opcode e"
  by (simp_all add: alu_of_comp_def)

lemma emit_divrem_messages:
  assumes c: "alu_c e \<noteq> 0" and qr: "get_quotient_and_remainder (alu_b e) (alu_c e) (alu_opcode e) = (q, r)"
  defines "sg \<equiv> is_signed_operation (alu_opcode e)"
  defines "mop \<equiv> if sg then Op_MULT else Op_MULTU"
  defines "p \<equiv> mul_extend mop q * mul_extend mop (alu_c e)"
  shows "record_messages (emit_divrem_dependencies e default_record) =
    {#dep_values (opcode_as_field mop) (word_from (ucast p)) (word_from q) (word_from (alu_c e)) (word_from (ucast (drop_bit 32 p)))#}
    + (if sg \<and> bit (alu_c e) 31 then {#dep_values (opcode_as_field Op_ADD) (word_from 0) (word_from (alu_c e)) (word_from (unsigned_abs (alu_c e))) zero_word#} else {#})
    + (if sg \<and> bit r 31 then {#dep_values (opcode_as_field Op_ADD) (word_from 0) (word_from r) (word_from (unsigned_abs r)) zero_word#} else {#})
    + {#dep_values (opcode_as_field Op_SLTU) (word_from 1) (word_from (if sg then unsigned_abs r else r))
        (word_from (max 1 (if sg then unsigned_abs (alu_c e) else alu_c e))) zero_word#}"
proof -
  have p: "(if sg then scast q * scast (alu_c e) else ucast q * ucast (alu_c e)) = p" by (simp add: p_def mop_def mul_extend_def)
  show ?thesis
    using c unfolding emit_divrem_dependencies_def Let_def qr prod.case sg_def [symmetric] p mop_def [symmetric]
    by (cases sg) (simp_all add: get_msb_u32 dep_message lo_word_def hi_word_def)
qed

lemma dep_abs: "dep_values (opcode_as_field Op_ADD) zero_word b c zero_word = dep_values (opcode_as_field Op_ADD) (word_from 0) b c zero_word"
  and dep_less: "dep_values (opcode_as_field Op_SLTU) (mk_word 1 0 0 0) b c zero_word = dep_values (opcode_as_field Op_SLTU) (word_from 1) b c zero_word"
  by (rule instruction_values_cong; simp add: limb_list_word_from_0 word_from_low)+

lemma product_message:
  fixes p :: u64
  defines "f \<equiv> \<lambda>i. from_canonical_u8 (byte_at_u64 p i) :: koala"
  shows "dep_values op (mk_word (f 0) (f 1) (f 2) (f 3)) b c (mk_word (f 4) (f 5) (f 6) (f 7)) =
    dep_values op (word_from (ucast p)) b c (word_from (ucast (drop_bit 32 p)))"
  using byte_at_low [of 0 p] byte_at_low [of 1 p] byte_at_low [of 2 p] byte_at_low [of 3 p]
    byte_at_high [of 0 p] byte_at_high [of 1 p] byte_at_high [of 2 p] byte_at_high [of 3 p]
  by (intro instruction_values_cong; simp) (simp_all add: limb_list_def word_from_def f_def)

lemma div_rem_byte_sends:
  assumes "dr_is_real row = 1"
  shows "byte_sends (div_rem_eval row) =
    [[byte_opcode_as_field B_MSB, dr_b_msb row, 0, dr_b row 3, 0], [byte_opcode_as_field B_MSB, dr_c_msb row, 0, dr_c row 3, 0],
     [byte_opcode_as_field B_MSB, dr_rem_msb row, 0, dr_remainder row 3, 0]]
    @ byte_sends (slice_range_check_u8 (limb_list (dr_b row)) 1) @ byte_sends (slice_range_check_u8 (limb_list (dr_c row)) 1)
    @ byte_sends (slice_range_check_u8 (limb_list (dr_quotient row)) 1) @ byte_sends (slice_range_check_u8 (limb_list (dr_remainder row)) 1)
    @ byte_sends (slice_range_check_u8 (map (dr_c_times_quotient row) [0..<8]) 1)
    @ byte_sends (eval_memory_access (dr_shard row) (dr_clk row + from_canonical_u32 (position_offset PosHI)) 33
        (dr_op_hi_access row) (dr_is_div row + dr_is_divu row))"
  by (simp add: div_rem_evals Let_def assms if_distrib [of byte_sends] cong: if_cong)

lemma div_rem_complete:
  assumes valid: "valid_div_rem_event e" and row: "div_rem_event_to_row e = (row :: koala div_rem_cols, blu)"
  shows "accepted (div_rem_eval row)" "instruction_receives (div_rem_eval row) = [comp_alu_message e]"
    "mset (instruction_sends (div_rem_eval row)) = record_messages (emit_divrem_dependencies (alu_of_comp e) default_record)"
    "mset (byte_sends (div_rem_eval row)) = mset (map byte_event_values blu)"
proof -
  let ?b = "calu_b e" and ?c = "calu_c e" and ?op = "calu_opcode e"
  obtain q r where qr: "get_quotient_and_remainder ?b ?c ?op = (q, r)" by fastforce
  obtain acc hblu where hi: "(if ?op = Op_DIVU \<or> ?op = Op_DIV then memory_populate (Write (calu_hi_record e))
      else (mul_default_access, [])) = (acc :: koala memory_rw_cols, hblu)" by fastforce
  define sg where "sg = is_signed_operation ?op"
  define mop where "mop = (if sg then Op_MULT else Op_MULTU)"
  define p where "p = mul_extend mop q * mul_extend mop ?c"
  define rl where "rl = mul_extend mop r"
  note R = div_rem_row [OF row qr hi, folded sg_def, folded mop_def, folded p_def rl_def]
  note V = valid_div_rem_result [OF valid qr]
  note Q = quotient_remainder_facts [OF qr V(1,2), folded sg_def, folded mop_def, folded p_def rl_def]
  have op: "?op \<in> {Op_DIV, Op_DIVU, Op_MOD, Op_MODU}" using valid by (simp add: valid_div_rem_event_def)
  have real: "dr_is_real row = 1" "dr_is_div row + dr_is_mod row = from_bool sg"
    using op by (auto simp: conjunct1 [OF R] dr_is_real_def sg_def is_signed_operation_def)
  have c0: "izw_result (is_zero_word_populate ?c) = (0 :: koala)" using V(1) is_zero_word_complete(2) [of 1 ?c] by simp
  have no_ov: "\<not> (sg \<and> sdiv_overflow ?b ?c)" using V(2) by (simp add: sg_def)
  have sum: "c_times_quotient_plus_remainder row i = (if i < 4 then word_from ?b i else from_bool (sg \<and> bit ?b 31) * 255)" if "i < 8" for i
  proof -
    note rem = extended_word [OF that, of r sg, folded mop_def, folded rl_def] and b = extended_word [OF that, of ?b sg, folded mop_def]
    show ?thesis unfolding b c_times_quotient_plus_remainder_def Let_def conjunct1 [OF R] div_rem_cols.simps u8_max_field rem
      using div_limb_equation(1) [OF that, of p rl] by (simp add: Q(1))
  qed
  show "instruction_receives (div_rem_eval row) = [comp_alu_message e]"
    using op V(3,4) valid unfolding div_rem_receives Let_def conjunct1 [OF R] div_rem_cols.simps comp_alu_message_def
    by (auto simp: valid_div_rem_event_def limb_list_word_from_0 intro!: instruction_values_cong)
  have opc: "(dr_is_div row + dr_is_mod row) * opcode_as_field Op_MULT + (dr_is_divu row + dr_is_modu row) * opcode_as_field Op_MULTU = opcode_as_field mop"
    using op by (auto simp: conjunct1 [OF R] mop_def sg_def is_signed_operation_def)
  note max = div_rem_max [OF Q(2)]
  show "mset (instruction_sends (div_rem_eval row)) = record_messages (emit_divrem_dependencies (alu_of_comp e) default_record)"
    unfolding div_rem_sends opc real(1) emit_divrem_messages [of "alu_of_comp e", unfolded alu_of_comp_simps, OF V(1) qr, folded sg_def, folded mop_def, folded p_def]
      dep_abs dep_less product_message [symmetric]
    unfolding conjunct1 [OF R] div_rem_cols.simps c0 max by (simp add: from_bool_def del: One_nat_def)
  have hi_ok: "calu_hi_record_is_real e \<longleftrightarrow> ?op = Op_DIVU \<or> ?op = Op_DIV" "calu_hi_record_is_real e \<Longrightarrow> valid_hi_write e"
    using valid by (auto simp: valid_div_rem_event_def)
  note hi_acc = mul_hi_access [OF hi_ok(2), unfolded hi_ok(1), OF _ hi]
  have hi_flag: "dr_is_div row + dr_is_divu row = from_bool (?op = Op_DIVU \<or> ?op = Op_DIV)" by (simp add: conjunct1 [OF R] from_bool_def)
  have mem: "eval_memory_access (dr_shard row) (dr_clk row + from_canonical_u32 (position_offset PosHI)) 33 (dr_op_hi_access row)
      (dr_is_div row + dr_is_divu row) =
     eval_memory_access (if ?op = Op_DIVU \<or> ?op = Op_DIV then from_canonical_u32 (calu_shard e) else 0)
      ((if ?op = Op_DIVU \<or> ?op = Op_DIV then from_canonical_u32 (calu_clk e) else 0) + from_canonical_u32 (position_offset PosHI)) 33 acc
      (from_bool (?op = Op_DIVU \<or> ?op = Op_DIV))"
    unfolding hi_flag unfolding conjunct1 [OF R] by simp
  have carry: "dr_carry row i = 0 \<or> dr_carry row i = 1" if "i < 8" for i
    using div_limb_equation(2) [OF that, of p rl] by (simp add: conjunct1 [OF R])
  have flags: "from_bool (?op = Op_DIVU) + from_bool (?op = Op_DIV) + from_bool (?op = Op_MOD) + from_bool (?op = Op_MODU) = (1 :: koala)"
    using op by auto
  have sums: "\<forall>i<8. accepted (if i < 4 then assert_eq (dr_b row i) (c_times_quotient_plus_remainder row i)
      else when_cond (1 - dr_is_overflow row) (when_cond (dr_b_neg row) (assert_eq (c_times_quotient_plus_remainder row i) (from_canonical_u8 255)))
        @ when_cond (1 - dr_is_overflow row) (when_cond (1 - dr_b_neg row) (assert_zero (c_times_quotient_plus_remainder row i)))
        @ when_cond (dr_is_overflow row) (assert_zero (c_times_quotient_plus_remainder row i)))"
    using no_ov by (simp add: sum) (simp add: conjunct1 [OF R] u8_max_field from_bool_def)
  have signs: "accepted (when_cond (dr_rem_neg row) (assert_one (dr_b_neg row)))"
    "accepted (when_cond (dr_remainder row 0 + dr_remainder row 1 + dr_remainder row 2 + dr_remainder row 3)
      (when_cond (1 - dr_rem_neg row) (assert_zero (dr_b_neg row))))"
  proof -
    show "accepted (when_cond (dr_rem_neg row) (assert_one (dr_b_neg row)))" using Q(3) by (auto simp: conjunct1 [OF R] from_bool_def)
    have "word_from r 0 + word_from r 1 + word_from r 2 + word_from r 3 = (0 :: koala)" if "r = 0"
      using that by (simp add: word_from_def byte_at_def from_canonical_u8_def)
    then show "accepted (when_cond (dr_remainder row 0 + dr_remainder row 1 + dr_remainder row 2 + dr_remainder row 3)
      (when_cond (1 - dr_rem_neg row) (assert_zero (dr_b_neg row))))"
      using Q(4) by (auto simp: conjunct1 [OF R] from_bool_def)
  qed
  have "sint x < 0 \<longleftrightarrow> bit x 31" for x :: u32 by (simp add: bit_last_iff [symmetric])
  then have abs: "\<not> (sg \<and> bit x 31) \<Longrightarrow> (if sg then unsigned_abs x else x) = x" for x by (simp add: unsigned_abs_def)
  have abss: "\<forall>i<4. accepted (when_not (dr_c_neg row) (assert_eq (dr_c row i) (dr_abs_c row i))) \<and>
      accepted (when_not (dr_rem_neg row) (assert_eq (dr_remainder row i) (dr_abs_remainder row i)))"
    unfolding conjunct1 [OF R] div_rem_cols.simps using abs [of ?c] abs [of r] by (auto simp: from_bool_def)
  have maxs: "\<forall>i<4. accepted (when_cond 1 (assert_eq (dr_max_abs_c_or_1 row i)
      (mk_word (izw_result (dr_is_c_0 row) * 1 + (1 - izw_result (dr_is_c_0 row)) * dr_abs_c row 0)
        ((1 - izw_result (dr_is_c_0 row)) * dr_abs_c row 1) ((1 - izw_result (dr_is_c_0 row)) * dr_abs_c row 2)
        ((1 - izw_result (dr_is_c_0 row)) * dr_abs_c row 3) i)))"
    unfolding conjunct1 [OF R] div_rem_cols.simps c0 using max by (cases sg) (auto simp: mk_word_def less_Suc_eq numeral_eq_Suc)
  have tests: "accepted (is_equal_word_eval (dr_b row) (word_from 0x80000000) (dr_is_overflow_b row) 1)"
    "accepted (is_equal_word_eval (dr_c row) (word_from 0xFFFFFFFF) (dr_is_overflow_c row) 1)"
    "accepted (is_zero_word_eval (dr_c row) (dr_is_c_0 row) 1)"
    "accepted (assert_eq (dr_is_overflow row) (izw_result (dr_is_overflow_b row) * izw_result (dr_is_overflow_c row) * from_bool sg))"
    unfolding conjunct1 [OF R] div_rem_cols.simps
    using is_equal_word_complete [of 1 ?b "0x80000000"] is_equal_word_complete [of 1 ?c "0xFFFFFFFF"] is_zero_word_complete(1) [of 1 ?c]
    by (simp_all add: sdiv_overflow_def from_bool_def)
  have msbs: "accepted (send_byte (byte_opcode_as_field B_MSB) (dr_b_msb row) (dr_b row 3) 0 1)"
    "accepted (send_byte (byte_opcode_as_field B_MSB) (dr_c_msb row) (dr_c row 3) 0 1)"
    "accepted (send_byte (byte_opcode_as_field B_MSB) (dr_rem_msb row) (dr_remainder row 3) 0 1)"
    unfolding conjunct1 [OF R] div_rem_cols.simps by (simp_all add: msb_lookup)
  have hi_val: "accepted (when_cond (dr_is_div row + dr_is_divu row) (assert_word_eq (dr_remainder row) (ma_value (mrw_access (dr_op_hi_access row)))))"
    unfolding hi_flag unfolding conjunct1 [OF R] div_rem_cols.simps using hi_acc(3) V(4) by (auto simp: from_bool_def)
  show "accepted (div_rem_eval row)"
    unfolding div_rem_evals Let_def accepted_append accepted_loop list.map concat.simps prod.case append_Nil2 real mem
    by (intro conjI; ((rule sums signs abss maxs tests msbs hi_val) | (rule hi_acc(1); assumption)
      | (simp add: carry; fail) | (simp add: conjunct1 [OF R] c0 flags from_bool_cases list_all_iff byte_word_from [unfolded byte_word_def list_all_iff]; fail)
      | (simp add: conjunct1 [OF R] from_bool_def; fail)))
  have range: "map (dr_c_times_quotient row) [0..<8] = map from_canonical_u8 (map (byte_at_u64 p) [0..<8])"
    unfolding conjunct1 [OF R] div_rem_cols.simps by simp
  show "mset (byte_sends (div_rem_eval row)) = mset (map byte_event_values blu)"
    unfolding div_rem_byte_sends [OF real(1)] range byte_sends_range_checks [OF one_neq_zero] mem
    unfolding conjunct2 [OF R] unfolding conjunct1 [OF R] div_rem_cols.simps map_le_bytes [symmetric] byte_sends_range_checks [OF one_neq_zero]
    by (simp add: hi_acc(2) [simplified] get_msb_koala word_from_def)
qed

interpretation div_rem_chip: alu_chip div_rem_eval div_rem_event_to_row div_rem_padding valid_div_rem_event comp_alu_message
    "\<lambda>e. record_messages (emit_divrem_dependencies (alu_of_comp e) default_record)"
proof
  show "accepted (div_rem_eval div_rem_padding)"
    unfolding div_rem_evals Let_def accepted_append accepted_loop
    by (simp add: div_rem_padding_def dr_is_real_def c_times_quotient_plus_remainder_def zero_is_zero_def zero_word_def mk_word_def)
  show "instruction_receives (div_rem_eval div_rem_padding) = []" "instruction_sends (div_rem_eval div_rem_padding) = []"
    by (simp_all add: div_rem_receives div_rem_sends div_rem_padding_def dr_is_real_def)
  show "byte_sends (div_rem_eval div_rem_padding) = []"
    by (simp add: div_rem_evals Let_def div_rem_padding_def dr_is_real_def if_distrib [of byte_sends] cong: if_cong)
qed (erule (2) div_rem_sound, simp add: div_rem_complete [OF _ surjective_pairing])

end
