(* ===== verification/Alu_Bus.thy ===== *)
theory Alu_Bus
  imports Add_Sub_Chip Bitwise_Chip Lt_Chip Shift_Left_Chip Shift_Right_Chip Div_Rem_Chip
begin

text \<open>
  The arithmetic chips together. Their rows exchange instruction messages: a division row sends its product, absolute
  values and comparison, a leading-zero row its shift. If all rows are accepted and every message a row sends is
  received by some row, then every received message carries the executor's result. Conversely the traces generated
  from a record of valid events are accepted, receive exactly the messages of the events and send exactly the
  messages of the dependencies that the executor recorded with them.
\<close>

section \<open>Rows of the arithmetic chips\<close>

datatype alu_row =
    Row_Add_Sub "koala add_sub_cols"
  | Row_Bitwise "koala bitwise_cols"
  | Row_Lt "koala lt_cols"
  | Row_Shift_Left "koala shift_left_cols"
  | Row_Shift_Right "koala shift_right_cols"
  | Row_Mul "koala mul_cols"
  | Row_Div_Rem "koala div_rem_cols"
  | Row_Clo_Clz "koala clo_clz_cols"

fun alu_row_eval :: "alu_row \<Rightarrow> koala air_op list" where
  "alu_row_eval (Row_Add_Sub r) = add_sub_eval r"
| "alu_row_eval (Row_Bitwise r) = bitwise_eval r"
| "alu_row_eval (Row_Lt r) = lt_eval r"
| "alu_row_eval (Row_Shift_Left r) = shift_left_eval r"
| "alu_row_eval (Row_Shift_Right r) = shift_right_eval r"
| "alu_row_eval (Row_Mul r) = mul_eval r"
| "alu_row_eval (Row_Div_Rem r) = div_rem_eval r"
| "alu_row_eval (Row_Clo_Clz r) = clo_clz_eval r"

lemma alu_row_sound:
  assumes "accepted (alu_row_eval r)" "list_all (\<lambda>s. operands_ok s \<longrightarrow> alu_message_valid s) (instruction_sends (alu_row_eval r))"
    "m \<in> set (instruction_receives (alu_row_eval r))" "operands_ok m"
  shows "alu_message_valid m"
  using assms
  by (cases r)
    (simp_all only: alu_row_eval.simps, (rule add_sub_chip.sound bitwise_chip.sound lt_chip.sound shift_left_chip.sound
      shift_right_chip.sound mul_chip.sound div_rem_chip.sound clo_clz_chip.sound; assumption)+)

text \<open>The rows that send messages never receive what such rows send.\<close>

fun sends_messages :: "alu_row \<Rightarrow> bool" where
  "sends_messages (Row_Div_Rem _) = True"
| "sends_messages (Row_Clo_Clz _) = True"
| "sends_messages _ = False"

lemma leaf_sends: "\<not> sends_messages r \<Longrightarrow> instruction_sends (alu_row_eval r) = []"
  by (cases r) simp_all

definition sender_ops :: "opcode set" where "sender_ops = {Op_DIV, Op_DIVU, Op_MOD, Op_MODU, Op_CLO, Op_CLZ}"
definition helper_ops :: "opcode set" where "helper_ops = {Op_MULT, Op_MULTU, Op_ADD, Op_SLTU, Op_SRL}"

lemma flag_pair: "(x :: koala) = 0 \<or> x = 1 \<Longrightarrow> y = 0 \<or> y = 1 \<Longrightarrow> x + y = 0 \<Longrightarrow> x = 0 \<and> y = 0"
  by auto

lemma div_rem_opcode:
  assumes "accepted (div_rem_eval row)" "dr_is_real row \<noteq> 0"
  obtains op where "op \<in> {Op_DIV, Op_DIVU, Op_MOD, Op_MODU}" "dr_is_div row = from_bool (op = Op_DIV)"
    "dr_is_divu row = from_bool (op = Op_DIVU)" "dr_is_mod row = from_bool (op = Op_MOD)" "dr_is_modu row = from_bool (op = Op_MODU)"
  by (rule div_rem_flags [of "dr_is_div row" "dr_is_divu row" "dr_is_mod row" "dr_is_modu row"])
    (use div_rem_facts(23-28) [OF assms(1)] assms(2) that in \<open>simp_all add: dr_is_real_def\<close>)

lemma sender_receives:
  assumes acc: "accepted (alu_row_eval r)" and "sends_messages r" and m: "m \<in> set (instruction_receives (alu_row_eval r))"
  shows "message_opcode m \<in> opcode_as_field ` sender_ops"
proof (cases r)
  case (Row_Div_Rem row)
  have "dr_is_real row \<noteq> 0"
    using m div_rem_facts(23-26) [of row] acc unfolding Row_Div_Rem alu_row_eval.simps div_rem_receives Let_def dr_is_real_def
    by (auto split: if_splits)
  then obtain op where "op \<in> {Op_DIV, Op_DIVU, Op_MOD, Op_MODU}" "dr_is_div row = from_bool (op = Op_DIV)"
    "dr_is_divu row = from_bool (op = Op_DIVU)" "dr_is_mod row = from_bool (op = Op_MOD)" "dr_is_modu row = from_bool (op = Op_MODU)"
    using acc div_rem_opcode [of row] Row_Div_Rem by auto
  then show ?thesis using m by (auto simp: Row_Div_Rem div_rem_receives Let_def sender_ops_def split: if_splits)
next
  case (Row_Clo_Clz row)
  note acc = acc [unfolded Row_Clo_Clz alu_row_eval.simps clo_clz_eval_def Let_def accepted_append accepted_loop]
  have "accepted (assert_bool (cc_is_clz row))" "accepted (assert_bool (cc_is_real row))" by (insert acc, (elim conjE, assumption)+)
  then show ?thesis using m by (auto simp: Row_Clo_Clz clo_clz_eval_def Let_def sender_ops_def split: if_splits)
qed (use assms(2) in simp_all)

lemma sender_sends:
  assumes acc: "accepted (alu_row_eval r)" and s: "s \<in> set (instruction_sends (alu_row_eval r))"
  shows "message_opcode s \<in> opcode_as_field ` helper_ops"
proof (cases r)
  case (Row_Div_Rem row)
  show ?thesis
  proof (cases "dr_is_real row = 0")
    case True
    then show ?thesis using s by (auto simp: Row_Div_Rem div_rem_sends helper_ops_def split: if_splits)
  next
    case False
    then obtain op where "op \<in> {Op_DIV, Op_DIVU, Op_MOD, Op_MODU}" "dr_is_div row = from_bool (op = Op_DIV)"
      "dr_is_divu row = from_bool (op = Op_DIVU)" "dr_is_mod row = from_bool (op = Op_MOD)" "dr_is_modu row = from_bool (op = Op_MODU)"
      using acc div_rem_opcode [of row] Row_Div_Rem by auto
    then show ?thesis using s by (auto simp: Row_Div_Rem div_rem_sends helper_ops_def split: if_splits)
  qed
next
  case (Row_Clo_Clz row)
  then show ?thesis using s by (auto simp: clo_clz_eval_def Let_def helper_ops_def split: if_splits)
qed (use s in simp_all)

definition bus_accepted :: "alu_row list \<Rightarrow> bool" where
  "bus_accepted trace \<longleftrightarrow> list_all (\<lambda>r. accepted (alu_row_eval r)) trace"

definition bus_balanced :: "alu_row list \<Rightarrow> bool" where
  "bus_balanced trace \<longleftrightarrow>
     mset (concat (map (instruction_sends \<circ> alu_row_eval) trace)) \<subseteq># mset (concat (map (instruction_receives \<circ> alu_row_eval) trace))"

lemma bus_receiver:
  assumes "bus_balanced trace" "r \<in> set trace" "s \<in> set (instruction_sends (alu_row_eval r))"
  obtains r' where "r' \<in> set trace" "s \<in> set (instruction_receives (alu_row_eval r'))"
proof -
  have "s \<in># mset (concat (map (instruction_sends \<circ> alu_row_eval) trace))" using assms(2,3) by auto
  then have "s \<in># mset (concat (map (instruction_receives \<circ> alu_row_eval) trace))"
    using assms(1) unfolding bus_balanced_def by (rule mset_subset_eqD [rotated])
  then show ?thesis using that by auto
qed

lemma bus_sound:
  assumes acc: "bus_accepted trace" and bal: "bus_balanced trace"
    and r: "r \<in> set trace" and m: "m \<in> set (instruction_receives (alu_row_eval r))" and ok: "operands_ok m"
  shows "alu_message_valid m"
proof -
  have accr: "accepted (alu_row_eval r)" if "r \<in> set trace" for r using acc that by (simp add: bus_accepted_def list_all_iff)
  have leaf: "alu_message_valid s" if r: "r \<in> set trace" "\<not> sends_messages r" "s \<in> set (instruction_receives (alu_row_eval r))" "operands_ok s" for r s
    by (rule alu_row_sound [OF accr [OF r(1)] _ r(3,4)]) (simp add: leaf_sends [OF r(2)])
  have sent: "alu_message_valid s" if s: "s \<in> set (instruction_sends (alu_row_eval r))" "operands_ok s" for s
  proof -
    obtain r' where r': "r' \<in> set trace" "s \<in> set (instruction_receives (alu_row_eval r'))" by (rule bus_receiver [OF bal r s(1)])
    have "\<not> sends_messages r'"
      using sender_receives [OF accr [OF r'(1)] _ r'(2)] sender_sends [OF accr [OF r] s(1)]
      by (auto simp: sender_ops_def helper_ops_def)
    then show ?thesis using leaf r' s(2) by blast
  qed
  show ?thesis by (rule alu_row_sound [OF accr [OF r] _ m ok]) (simp add: list_all_iff sent)
qed

section \<open>Traces of a record\<close>

definition valid_alu_record :: "execution_record \<Rightarrow> bool" where
  "valid_alu_record r \<longleftrightarrow> valid_record r \<and> list_all valid_mul_event (er_mul_events r) \<and>
     list_all valid_div_rem_event (er_divrem_events r) \<and> list_all valid_clo_clz_event (er_cloclz_events r)"

definition alu_trace :: "execution_record \<Rightarrow> nat \<Rightarrow> alu_row list" where
  "alu_trace r rows =
     map Row_Add_Sub (chip_trace add_sub_event_to_row add_sub_padding (er_add_sub_events r) rows)
     @ map Row_Bitwise (chip_trace bitwise_event_to_row bitwise_padding (er_bitwise_events r) rows)
     @ map Row_Lt (chip_trace lt_event_to_row lt_padding (er_lt_events r) rows)
     @ map Row_Shift_Left (chip_trace shift_left_event_to_row shift_left_padding (er_shift_left_events r) rows)
     @ map Row_Shift_Right (chip_trace shift_right_event_to_row shift_right_padding (er_shift_right_events r) rows)
     @ map Row_Mul (chip_trace mul_event_to_row mul_padding (er_mul_events r) rows)
     @ map Row_Div_Rem (chip_trace div_rem_event_to_row div_rem_padding (er_divrem_events r) rows)
     @ map Row_Clo_Clz (chip_trace clo_clz_event_to_row clo_clz_padding (er_cloclz_events r) rows)"

definition alu_byte_lookups :: "execution_record \<Rightarrow> byte_lookup_event list" where
  "alu_byte_lookups r =
     chip_dependencies (add_sub_event_to_row :: _ \<Rightarrow> koala add_sub_cols \<times> _) (er_add_sub_events r)
     @ chip_dependencies (bitwise_event_to_row :: _ \<Rightarrow> koala bitwise_cols \<times> _) (er_bitwise_events r)
     @ chip_dependencies (lt_event_to_row :: _ \<Rightarrow> koala lt_cols \<times> _) (er_lt_events r)
     @ chip_dependencies (shift_left_event_to_row :: _ \<Rightarrow> koala shift_left_cols \<times> _) (er_shift_left_events r)
     @ chip_dependencies (shift_right_event_to_row :: _ \<Rightarrow> koala shift_right_cols \<times> _) (er_shift_right_events r)
     @ chip_dependencies (mul_event_to_row :: _ \<Rightarrow> koala mul_cols \<times> _) (er_mul_events r)
     @ chip_dependencies (div_rem_event_to_row :: _ \<Rightarrow> koala div_rem_cols \<times> _) (er_divrem_events r)
     @ chip_dependencies (clo_clz_event_to_row :: _ \<Rightarrow> koala clo_clz_cols \<times> _) (er_cloclz_events r)"

text \<open>The messages of the dependencies that the executor's helpers add for the divisions and leading-zero counts of a record.\<close>

definition dependency_messages :: "execution_record \<Rightarrow> koala list multiset" where
  "dependency_messages r =
     sum_list (map (\<lambda>e. record_messages (emit_divrem_dependencies (alu_of_comp e) default_record)) (er_divrem_events r))
     + sum_list (map (\<lambda>e. record_messages (emit_cloclz_dependencies e default_record)) (er_cloclz_events r))"

definition bus_closed :: "execution_record \<Rightarrow> bool" where
  "bus_closed r \<longleftrightarrow> dependency_messages r \<subseteq># record_messages r"

lemma valid_alu_recordD:
  assumes "valid_alu_record r"
  shows "list_all (\<lambda>e. valid_alu e \<and> alu_opcode e \<in> {Op_ADD, Op_SUB}) (er_add_sub_events r)"
    "list_all (\<lambda>e. valid_alu e \<and> alu_opcode e \<in> bitwise_ops) (er_bitwise_events r)"
    "list_all (\<lambda>e. valid_alu e \<and> alu_opcode e \<in> {Op_SLT, Op_SLTU}) (er_lt_events r)"
    "list_all (\<lambda>e. valid_alu e \<and> alu_opcode e = Op_SLL) (er_shift_left_events r)"
    "list_all (\<lambda>e. valid_alu e \<and> alu_opcode e \<in> {Op_SRL, Op_SRA, Op_ROR}) (er_shift_right_events r)"
    "list_all valid_mul_event (er_mul_events r)" "list_all valid_div_rem_event (er_divrem_events r)"
    "list_all valid_clo_clz_event (er_cloclz_events r)"
  by (insert assms, unfold valid_alu_record_def valid_record_def list_all_iff, (elim conjE, assumption)+)

lemma row_observation:
  "concat (map (f \<circ> alu_row_eval) (map Row_Add_Sub t1)) = concat (map (f \<circ> add_sub_eval) t1)"
  "concat (map (f \<circ> alu_row_eval) (map Row_Bitwise t2)) = concat (map (f \<circ> bitwise_eval) t2)"
  "concat (map (f \<circ> alu_row_eval) (map Row_Lt t3)) = concat (map (f \<circ> lt_eval) t3)"
  "concat (map (f \<circ> alu_row_eval) (map Row_Shift_Left t4)) = concat (map (f \<circ> shift_left_eval) t4)"
  "concat (map (f \<circ> alu_row_eval) (map Row_Shift_Right t5)) = concat (map (f \<circ> shift_right_eval) t5)"
  "concat (map (f \<circ> alu_row_eval) (map Row_Mul t6)) = concat (map (f \<circ> mul_eval) t6)"
  "concat (map (f \<circ> alu_row_eval) (map Row_Div_Rem t7)) = concat (map (f \<circ> div_rem_eval) t7)"
  "concat (map (f \<circ> alu_row_eval) (map Row_Clo_Clz t8)) = concat (map (f \<circ> clo_clz_eval) t8)"
  by (simp_all add: comp_def)

lemmas trace_append = map_append concat_append mset_append row_observation

lemma alu_trace_accepted:
  assumes "valid_alu_record r"
  shows "bus_accepted (alu_trace r n)"
  unfolding bus_accepted_def alu_trace_def list_all_append list.pred_map comp_def alu_row_eval.simps
  using valid_alu_recordD [OF assms]
  by (intro conjI add_sub_chip.trace_accepted bitwise_chip.trace_accepted lt_chip.trace_accepted shift_left_chip.trace_accepted
      shift_right_chip.trace_accepted mul_chip.trace_accepted div_rem_chip.trace_accepted clo_clz_chip.trace_accepted)

lemma alu_trace_receives:
  assumes "valid_alu_record r"
  shows "mset (concat (map (instruction_receives \<circ> alu_row_eval) (alu_trace r n))) = record_messages r"
proof -
  note V = valid_alu_recordD [OF assms]
  note T = add_sub_chip.trace_receives [OF V(1)] bitwise_chip.trace_receives [OF V(2)] lt_chip.trace_receives [OF V(3)]
    shift_left_chip.trace_receives [OF V(4)] shift_right_chip.trace_receives [OF V(5)] mul_chip.trace_receives [OF V(6)]
    div_rem_chip.trace_receives [OF V(7)] clo_clz_chip.trace_receives [OF V(8)]
  show ?thesis unfolding alu_trace_def record_messages_def trace_append T by simp
qed

lemma alu_trace_sends:
  assumes "valid_alu_record r"
  shows "mset (concat (map (instruction_sends \<circ> alu_row_eval) (alu_trace r n))) = dependency_messages r"
proof -
  note V = valid_alu_recordD [OF assms]
  note T = add_sub_chip.trace_sends [OF V(1)] bitwise_chip.trace_sends [OF V(2)] lt_chip.trace_sends [OF V(3)]
    shift_left_chip.trace_sends [OF V(4)] shift_right_chip.trace_sends [OF V(5)] mul_chip.trace_sends [OF V(6)]
    div_rem_chip.trace_sends [OF V(7)] clo_clz_chip.trace_sends [OF V(8)]
  show ?thesis unfolding alu_trace_def dependency_messages_def trace_append T by (simp add: sum_list_triv)
qed

lemma alu_trace_byte_lookups:
  assumes "valid_alu_record r"
  shows "mset (concat (map (byte_sends \<circ> alu_row_eval) (alu_trace r n))) = mset (map byte_event_values (alu_byte_lookups r))"
proof -
  note V = valid_alu_recordD [OF assms]
  note T = add_sub_chip.trace_byte_lookups [OF V(1)] bitwise_chip.trace_byte_lookups [OF V(2)] lt_chip.trace_byte_lookups [OF V(3)]
    shift_left_chip.trace_byte_lookups [OF V(4)] shift_right_chip.trace_byte_lookups [OF V(5)] mul_chip.trace_byte_lookups [OF V(6)]
    div_rem_chip.trace_byte_lookups [OF V(7)] clo_clz_chip.trace_byte_lookups [OF V(8)]
  show ?thesis unfolding alu_trace_def alu_byte_lookups_def trace_append T ..
qed

lemma alu_trace_balanced: "valid_alu_record r \<Longrightarrow> bus_closed r \<Longrightarrow> bus_balanced (alu_trace r n)"
  by (simp add: bus_balanced_def bus_closed_def alu_trace_receives alu_trace_sends del: mset_map)

section \<open>Dependencies in a record\<close>

definition grows :: "execution_record \<Rightarrow> execution_record \<Rightarrow> bool" where
  "grows r r' \<longleftrightarrow> record_messages r \<subseteq># record_messages r' \<and> er_divrem_events r' = er_divrem_events r \<and> er_cloclz_events r' = er_cloclz_events r"

lemma grows_refl [simp]: "grows r r"
  by (simp add: grows_def)

lemma grows_trans: "grows r r' \<Longrightarrow> grows r' r'' \<Longrightarrow> grows r r''"
  by (auto simp: grows_def)

lemma grows_push:
  "grows r r' \<Longrightarrow> grows r (push_add_sub e r')" "grows r r' \<Longrightarrow> grows r (push_bitwise e r')" "grows r r' \<Longrightarrow> grows r (push_lt e r')"
  "grows r r' \<Longrightarrow> grows r (push_shift_left e r')" "grows r r' \<Longrightarrow> grows r (push_shift_right e r')" "grows r r' \<Longrightarrow> grows r (push_mul e' r')"
  by (auto simp: grows_def intro: subset_mset.order_trans) (simp_all add: push_defs)

lemma grows_closed: "grows r r' \<Longrightarrow> bus_closed r \<Longrightarrow> bus_closed r'"
  by (auto simp: grows_def bus_closed_def dependency_messages_def intro: subset_mset.order_trans)

lemma emit_messages_add:
  "record_messages (emit_divrem_dependencies e r) = record_messages r + record_messages (emit_divrem_dependencies e default_record)"
  "record_messages (emit_cloclz_dependencies e r) = record_messages r + record_messages (emit_cloclz_dependencies e default_record)"
  by (auto simp: emit_divrem_dependencies_def emit_cloclz_dependencies_def Let_def split: prod.splits)

lemma emit_grows: "grows r (emit_divrem_dependencies e r)" "grows r (emit_cloclz_dependencies e r)"
  by (auto simp: emit_divrem_dependencies_def emit_cloclz_dependencies_def Let_def intro!: grows_push split: prod.splits)

lemma push_divrem_closed:
  assumes "bus_closed r"
  shows "bus_closed (emit_divrem_dependencies (alu_of_comp e) (push_divrem e r))"
proof -
  have "dependency_messages (emit_divrem_dependencies (alu_of_comp e) (push_divrem e r)) =
      dependency_messages r + record_messages (emit_divrem_dependencies (alu_of_comp e) default_record)"
    using emit_grows(1) [of "push_divrem e r" "alu_of_comp e"] by (simp add: grows_def dependency_messages_def push_divrem_def)
  moreover have "record_messages r \<subseteq># record_messages (push_divrem e r)" by simp
  ultimately show ?thesis
    using assms unfolding bus_closed_def emit_messages_add(1) [of "alu_of_comp e" "push_divrem e r"]
    by (metis subset_mset.add_right_mono subset_mset.order_trans)
qed

lemma push_cloclz_closed:
  assumes "bus_closed r"
  shows "bus_closed (emit_cloclz_dependencies e (push_cloclz e r))"
proof -
  have "dependency_messages (emit_cloclz_dependencies e (push_cloclz e r)) =
      dependency_messages r + record_messages (emit_cloclz_dependencies e default_record)"
    using emit_grows(2) [of "push_cloclz e r" e] by (simp add: grows_def dependency_messages_def push_cloclz_def)
  moreover have "record_messages r \<subseteq># record_messages (push_cloclz e r)" by simp
  ultimately show ?thesis
    using assms unfolding bus_closed_def emit_messages_add(2) [of e "push_cloclz e r"]
    by (metis subset_mset.add_right_mono subset_mset.order_trans)
qed

lemma emit_memory_grows: "grows r (emit_memory_dependencies e m r)"
  by (auto simp: emit_memory_dependencies_def Let_def intro!: grows_push)

lemma emit_branch_grows: "emit_branch_dependencies e r = Inr r' \<Longrightarrow> grows r r'"
  by (auto simp: emit_branch_dependencies_def Let_def intro!: grows_push split: if_splits)

lemma emit_jump_grows: "emit_jump_dependencies e r = Inr r' \<Longrightarrow> grows r r'"
  by (auto simp: emit_jump_dependencies_def Let_def intro!: grows_push split: if_splits)

lemma emit_misc_grows: "emit_misc_dependencies e r = Inr r' \<Longrightarrow> grows r r'"
  by (auto simp: emit_misc_dependencies_def Let_def intro!: grows_push split: if_splits)

lemma grows_other [simp]:
  "grows r (r'\<lparr>er_cpu_events := x1\<rparr>) = grows r r'" "grows r (r'\<lparr>er_memory_instr_events := x2\<rparr>) = grows r r'"
  "grows r (r'\<lparr>er_branch_events := x3\<rparr>) = grows r r'" "grows r (r'\<lparr>er_jump_events := x4\<rparr>) = grows r r'"
  "grows r (r'\<lparr>er_movcond_events := x5\<rparr>) = grows r r'" "grows r (r'\<lparr>er_misc_events := x6\<rparr>) = grows r r'"
  "grows r (r'\<lparr>er_syscall_events := x7\<rparr>) = grows r r'"
  by (simp_all add: grows_def record_messages_def)

end
