(* ===== verification/Alu_Events.thy ===== *)
theory Alu_Events
  imports Refinement Alu_Bus
begin

text \<open>
  The executor and the arithmetic chips together: the statements about the instruction bus, and the invariant of the
  record that makes the bus balance.
\<close>

section \<open>The executor keeps the bus balanced\<close>

lemma push_alu_closed:
  assumes "bus_closed r" "e = alu_of_comp e'"
  shows "bus_closed (push_alu op e e' r)"
  using assms unfolding push_alu_def
  by (auto simp: push_divrem_closed push_cloclz_closed intro: grows_closed [OF grows_push(1) [OF grows_refl]]
      grows_closed [OF grows_push(2) [OF grows_refl]] grows_closed [OF grows_push(3) [OF grows_refl]]
      grows_closed [OF grows_push(4) [OF grows_refl]] grows_closed [OF grows_push(5) [OF grows_refl]]
      grows_closed [OF grows_push(6) [OF grows_refl]])

definition keeps_closed :: "'a rt \<Rightarrow> bool" where
  "keeps_closed f \<longleftrightarrow> (\<forall>s u t. f s = Inr (u, t) \<longrightarrow> bus_closed (ex_record s) \<longrightarrow> bus_closed (ex_record t))"

lemma keeps_closed_bind: "keeps_closed f \<Longrightarrow> (\<And>x. keeps_closed (g x)) \<Longrightarrow> keeps_closed (bindM f g)"
  unfolding keeps_closed_def bindM_def by (auto split: sum.splits)

lemma keeps_closed_modRecord: "(\<And>r. grows r (f r)) \<Longrightarrow> keeps_closed (modRecord f)"
  unfolding keeps_closed_def by (auto simp: modRecord_def modM_def intro: grows_closed)

lemma keeps_closed_recM: "(\<And>r r'. f r = Inr r' \<Longrightarrow> grows r r') \<Longrightarrow> keeps_closed (recM f)"
  unfolding keeps_closed_def by (auto simp: recM_def intro: grows_closed split: sum.splits)

lemma keeps_closed_simple [simp]: "keeps_closed (getM g)" "keeps_closed (panicM p)"
  by (simp_all add: keeps_closed_def getM_def panicM_def)

lemma record_messages_other [simp]:
  "record_messages (r\<lparr>er_branch_events := x3\<rparr>) = record_messages r" "record_messages (r\<lparr>er_jump_events := x4\<rparr>) = record_messages r"
  "record_messages (r\<lparr>er_misc_events := x6\<rparr>) = record_messages r" "record_messages (r\<lparr>er_memory_instr_events := x2\<rparr>) = record_messages r"
  by (simp_all add: record_messages_def)

lemma grows_update:
  "grows (r\<lparr>er_branch_events := x3\<rparr>) r' \<Longrightarrow> grows r r'" "grows (r\<lparr>er_jump_events := x4\<rparr>) r' \<Longrightarrow> grows r r'"
  "grows (r\<lparr>er_misc_events := x6\<rparr>) r' \<Longrightarrow> grows r r'" "grows (r\<lparr>er_memory_instr_events := x2\<rparr>) r' \<Longrightarrow> grows r r'"
  by (simp_all add: grows_def)

lemma keeps_closed_alu: "keeps_closed (emit_alu_event clk op hi a b c hr)"
  unfolding keeps_closed_def emit_alu_event_def Let_def
  by (auto simp: alu_of_comp_def intro!: push_alu_closed split: prod.splits)

lemma keeps_closed_mem: "keeps_closed (emit_mem_instr_event op a b c prev)"
  unfolding keeps_closed_def emit_mem_instr_event_def Let_def
  by (auto intro: grows_closed [OF grows_update(4) [OF emit_memory_grows]] split: option.splits)

lemma keeps_closed_branch: "keeps_closed (emit_branch_event op a b c n nn)"
  unfolding emit_branch_event_def Let_def
  by (intro keeps_closed_bind keeps_closed_simple keeps_closed_recM) (blast intro: grows_update(1) emit_branch_grows)

lemma keeps_closed_jump: "keeps_closed (emit_jump_event op a b c n nn)"
  unfolding emit_jump_event_def Let_def
  by (intro keeps_closed_bind keeps_closed_simple keeps_closed_recM) (blast intro: grows_update(2) emit_jump_grows)

lemma keeps_closed_misc: "keeps_closed (emit_misc_event clk op a b c prev hr)"
  unfolding emit_misc_event_def Let_def
  by (intro keeps_closed_bind keeps_closed_simple) (auto intro!: keeps_closed_recM keeps_closed_modRecord intro: grows_update(3) emit_misc_grows)

lemma keeps_closed_syscall: "keeps_closed (emit_syscall_event clk ar sid x y n)"
  unfolding keeps_closed_def emit_syscall_event_def Let_def by (auto elim: grows_closed [rotated])

lemma keeps_closed_cpu: "keeps_closed (emit_cpu clk pc n nn a b c hi acc ec)"
  unfolding emit_cpu_def by (intro keeps_closed_modRecord) simp

lemma bus_closed_default: "bus_closed (record_new p)"
  by (simp add: bus_closed_def dependency_messages_def record_new_def)

lemma alu_op_overflow: "sdiv_overflow b c \<Longrightarrow> op \<in> {Op_DIV, Op_MOD} \<Longrightarrow> alu_op op b c = Inl (Panic DivisionOverflow)"
  by (auto simp: alu_op_def alu_result_def sdiv_overflow_def Let_def)

text \<open>For valid events, the trace balances exactly when the record contains the dependencies.\<close>

lemma bus_balanced_iff: "valid_alu_record r \<Longrightarrow> bus_balanced (alu_trace r n) \<longleftrightarrow> bus_closed r"
  by (simp only: bus_balanced_def bus_closed_def alu_trace_sends alu_trace_receives)

section \<open>Statements\<close>

text \<open>C6: if every row of the arithmetic chips is accepted and every message sent by a row is received by a row, then
  every received message whose operands are words of bytes (as far as its chip does not check them itself) carries
  32-bit operands and the result that the executor's ALU computes from them. The one exception is a \<open>DIV\<close> or \<open>MOD\<close> of
  the least integer by -1: the executor panics there, and the message carries the wrapped quotient or the remainder 0,
  with HI 0.\<close>

theorem alu_bus_sound:
  assumes "bus_accepted trace" and "bus_balanced trace" and "r \<in> set trace"
    and "m \<in> set (instruction_receives (alu_row_eval r))" and "operands_ok m"
  shows "\<exists>op a b c hi. message_opcode m = opcode_as_field op \<and>
    message_a m = limb_list (word_from a) \<and> message_b m = limb_list (word_from b) \<and>
    message_c m = limb_list (word_from c) \<and> message_hi m = limb_list (word_from hi) \<and>
    (if op \<in> {Op_DIV, Op_MOD} \<and> sdiv_overflow b c then a = (if op = Op_DIV then b else 0) \<and> hi = 0 else alu_op op b c = Inr (a, hi))"
proof -
  have "alu_computes op b c a hi \<Longrightarrow>
    if op \<in> {Op_DIV, Op_MOD} \<and> sdiv_overflow b c then a = (if op = Op_DIV then b else 0) \<and> hi = 0 else alu_op op b c = Inr (a, hi)" for op a b c hi
    by (auto simp: alu_computes_def alu_op_overflow)
  then show ?thesis using bus_sound [OF assms] unfolding alu_message_valid_def by blast
qed

text \<open>A record with a count of leading zeros and its shift.\<close>

definition example_clz :: alu_event where
  "example_clz = \<lparr>alu_pc = 0, alu_next_pc = 4, alu_opcode = Op_CLZ, alu_hi = 0, alu_a = 0, alu_b = 0x80000000, alu_c = 0\<rparr>"

definition example_record :: execution_record where
  "example_record = emit_cloclz_dependencies example_clz (push_cloclz example_clz default_record)"

lemma clz_valid:
  assumes "valid_alu_record r" "alu_opcode e = Op_CLZ" "alu_a e = 0" "alu_b e = 0x80000000" "alu_c e = 0" "alu_hi e = 0"
  shows "valid_alu_record (emit_cloclz_dependencies e (push_cloclz e r))"
proof -
  have z: "leading_zeros (0x80000000 :: u32) = 0" by (rule leading_zeros_eqI) simp_all
  have "valid_alu e" using assms(2-6) by (simp add: valid_alu_def alu_op_clo_clz z)
  then have "valid_record (emit_cloclz_dependencies e (push_cloclz e r))" "valid_clo_clz_event e"
    using assms by (simp_all add: emit_cloclz_valid valid_push(8) valid_clo_clz_event_def valid_alu_record_def)
  then show ?thesis using assms(1) by (simp add: valid_alu_record_def emit_cloclz_dependencies_def Let_def push_defs)
qed

lemma valid_alu_record_new: "valid_alu_record (record_new p)"
  by (simp add: valid_alu_record_def valid_record_def record_new_def)

lemma example_record_ready: "valid_alu_record example_record" "bus_closed example_record"
proof -
  show "valid_alu_record example_record" unfolding example_record_def
    by (rule clz_valid) (simp_all add: default_record_def valid_alu_record_new example_clz_def)
  show "bus_closed example_record" unfolding example_record_def by (rule push_cloclz_closed) (simp add: default_record_def bus_closed_default)
qed

theorem alu_bus_sound_witness:
  "bus_accepted (alu_trace example_record 16) \<and> bus_balanced (alu_trace example_record 16) \<and>
   (\<exists>op a b c hi. message_opcode (alu_event_message example_clz) = opcode_as_field op \<and>
     message_a (alu_event_message example_clz) = limb_list (word_from a) \<and>
     message_b (alu_event_message example_clz) = limb_list (word_from b) \<and>
     message_c (alu_event_message example_clz) = limb_list (word_from c) \<and>
     message_hi (alu_event_message example_clz) = limb_list (word_from hi) \<and>
     (if op \<in> {Op_DIV, Op_MOD} \<and> sdiv_overflow b c then a = (if op = Op_DIV then b else 0) \<and> hi = 0 else alu_op op b c = Inr (a, hi)))"
proof -
  let ?t = "alu_trace example_record 16" and ?r = "Row_Clo_Clz (fst (clo_clz_event_to_row example_clz))"
  have acc: "bus_accepted ?t" "bus_balanced ?t"
    using example_record_ready by (simp_all add: alu_trace_accepted alu_trace_balanced)
  have e: "er_cloclz_events example_record = [example_clz]" "valid_clo_clz_event example_clz"
    using example_record_ready(1) emit_grows(2) [of "push_cloclz example_clz default_record" example_clz]
    by (simp_all add: example_record_def grows_def valid_alu_record_def push_cloclz_def default_record_def record_new_def)
  then have "?r \<in> set ?t" by (simp add: alu_trace_def chip_trace_def)
  moreover have "alu_event_message example_clz \<in> set (instruction_receives (alu_row_eval ?r))"
    using clo_clz_complete(2) [OF e(2) surjective_pairing] by simp
  moreover have "operands_ok (alu_event_message example_clz)"
    by (simp add: alu_event_message_def operands_ok_iff byte_word_nth)
  ultimately show ?thesis using acc alu_bus_sound [OF acc] by blast
qed

text \<open>C10: the traces generated from a record of valid events that contains its dependencies are accepted by all arithmetic
  chips and balance the instruction bus, they receive exactly the messages of the events, and the byte lookups they
  send are exactly those the trace generators record.\<close>

theorem alu_trace_complete:
  assumes "valid_alu_record r" and "bus_closed r"
  shows "bus_accepted (alu_trace r rows) \<and> bus_balanced (alu_trace r rows) \<and>
    mset (concat (map (instruction_receives \<circ> alu_row_eval) (alu_trace r rows))) = record_messages r \<and>
    mset (concat (map (byte_sends \<circ> alu_row_eval) (alu_trace r rows))) = mset (map byte_event_values (alu_byte_lookups r))"
  using assms by (simp only: alu_trace_accepted alu_trace_balanced alu_trace_receives alu_trace_byte_lookups)

theorem alu_trace_complete_witness:
  "bus_accepted (alu_trace example_record 16) \<and> bus_balanced (alu_trace example_record 16) \<and> record_messages example_record \<noteq> {#}"
  using alu_trace_complete [OF example_record_ready, of 16] by (simp add: example_record_def emit_messages_add(2) [of _ "push_cloclz _ _"])

text \<open>C12: whatever events an instruction emits, it keeps the instruction bus of the arithmetic chips balanced: if the rows
  generated from the record received everything they send before, they do so after the instruction, because every message
  a new row of the division or leading-zero chip sends is received by a row of an event that the executor emitted with it.
  The events of both records are valid for their chips.\<close>

theorem emit_events_keeps_balance:
  assumes "emit_events clk pc next_pc next_next_pc i a b c hi_or_prev_a acc exit_code sid s = Inr (u, t)"
    and "valid_alu_record (ex_record s)" and "valid_alu_record (ex_record t)"
    and "bus_balanced (alu_trace (ex_record s) rows)"
  shows "bus_balanced (alu_trace (ex_record t) rows')"
proof -
  have "keeps_closed (emit_events clk pc next_pc next_next_pc i a b c hi_or_prev_a acc exit_code sid)"
    unfolding emit_events_def
    by (intro keeps_closed_bind keeps_closed_cpu) (simp add: keeps_closed_alu keeps_closed_mem keeps_closed_branch
        keeps_closed_jump keeps_closed_misc keeps_closed_syscall)
  then have "bus_closed (ex_record s) \<Longrightarrow> bus_closed (ex_record t)" using assms(1) unfolding keeps_closed_def by blast
  then show ?thesis using assms(4) unfolding bus_balanced_iff [OF assms(2)] bus_balanced_iff [OF assms(3)] .
qed

theorem emit_events_keeps_balance_witness:
  "\<exists>t. emit_events 0 0 4 8 (instruction_new Op_CLZ 8 9 0 False True) 0 0x80000000 0 None default_access_record 0 0 example_executor = Inr ((), t) \<and>
     er_cloclz_events (ex_record t) \<noteq> [] \<and> bus_balanced (alu_trace (ex_record t) 16)"
proof -
  let ?f = "emit_events 0 0 4 8 (instruction_new Op_CLZ 8 9 0 False True) 0 0x80000000 0 None default_access_record 0 0"
  define e where "e = \<lparr>alu_pc = st_pc (ex_state example_executor), alu_next_pc = st_next_pc (ex_state example_executor), alu_opcode = Op_CLZ,
    alu_hi = 0, alu_a = 0, alu_b = 0x80000000, alu_c = 0\<rparr>"
  obtain t x where t: "?f example_executor = Inr ((), t)"
    "ex_record t = emit_cloclz_dependencies e (push_cloclz e ((ex_record example_executor)\<lparr>er_cpu_events := x\<rparr>))"
    by (simp add: emit_events_def emit_cpu_def modRecord_def modM_def bindM_def instruction_new_def is_alu_instruction_def emit_alu_event_def
        Let_def default_access_record_def push_alu_def opt_or_0_def e_def split: prod.splits)
  have new: "valid_alu_record (ex_record example_executor)" "bus_closed (ex_record example_executor)"
    by (simp_all add: example_executor_def executor_new_def valid_alu_record_new bus_closed_default)
  then have "valid_alu_record ((ex_record example_executor)\<lparr>er_cpu_events := x\<rparr>)" by (simp add: valid_alu_record_def valid_record_def)
  then have "valid_alu_record (ex_record t)" unfolding t(2) by (rule clz_valid) (simp_all add: e_def)
  from emit_events_keeps_balance [OF t(1) new(1) this] new have "bus_balanced (alu_trace (ex_record t) 16)" by (simp add: bus_balanced_iff)
  moreover have "er_cloclz_events (ex_record t) \<noteq> []" unfolding t(2) by (simp add: emit_cloclz_dependencies_def Let_def push_defs)
  ultimately show ?thesis using t(1) by blast
qed

end
