(* ===== verification/Word_Range.thy ===== *)
theory Word_Range
  imports Air_Gadgets
begin

text \<open>
  The check that a word of byte limbs is smaller than the order of the field
  (\<^verbatim>\<open>crates/core/machine/src/operations/koala_bear_word.rs\<close>), so that its reduction to a field element loses
  nothing. It decomposes the most significant byte into bits and compares it with 127.
\<close>

unbundle bit_operations_syntax

record 'f word_range_checker =
  wr_most_sig_byte_decomp :: "nat \<Rightarrow> 'f"
  wr_and_0_to_2 :: 'f
  wr_and_0_to_3 :: 'f
  wr_and_0_to_4 :: 'f
  wr_and_0_to_5 :: 'f
  wr_and_0_to_6 :: 'f
  wr_and_0_to_7 :: 'f

definition word_range_populate :: "u32 \<Rightarrow> 'f::field word_range_checker" where
  "word_range_populate value =
     (let decomp = (\<lambda>i. from_bool (value AND push_bit (i + 24) 1 \<noteq> 0));
          and_2 = decomp 0 * decomp 1; and_3 = and_2 * decomp 2; and_4 = and_3 * decomp 3;
          and_5 = and_4 * decomp 4; and_6 = and_5 * decomp 5; and_7 = and_6 * decomp 6 in
      \<lparr>wr_most_sig_byte_decomp = decomp, wr_and_0_to_2 = and_2, wr_and_0_to_3 = and_3, wr_and_0_to_4 = and_4,
       wr_and_0_to_5 = and_5, wr_and_0_to_6 = and_6, wr_and_0_to_7 = and_7\<rparr>)"

definition word_range_zero :: "'f::field word_range_checker" where
  "word_range_zero = \<lparr>wr_most_sig_byte_decomp = (\<lambda>_. 0), wr_and_0_to_2 = 0, wr_and_0_to_3 = 0, wr_and_0_to_4 = 0,
     wr_and_0_to_5 = 0, wr_and_0_to_6 = 0, wr_and_0_to_7 = 0\<rparr>"

definition word_range_check :: "'f::field limbs \<Rightarrow> 'f word_range_checker \<Rightarrow> 'f \<Rightarrow> 'f air_op list" where
  "word_range_check value cols is_real =
     (let decomp = wr_most_sig_byte_decomp cols in
      concat (map (\<lambda>i. when_cond is_real (assert_bool (decomp i))) [0..<8])
      @ when_cond is_real (assert_eq (sum_list (map (\<lambda>i. of_nat (2 ^ i) * decomp i) [0..<8])) (value 3))
      @ when_cond is_real (assert_zero (decomp 7))
      @ when_cond is_real (assert_eq (wr_and_0_to_2 cols) (decomp 0 * decomp 1))
      @ when_cond is_real (assert_eq (wr_and_0_to_3 cols) (wr_and_0_to_2 cols * decomp 2))
      @ when_cond is_real (assert_eq (wr_and_0_to_4 cols) (wr_and_0_to_3 cols * decomp 3))
      @ when_cond is_real (assert_eq (wr_and_0_to_5 cols) (wr_and_0_to_4 cols * decomp 4))
      @ when_cond is_real (assert_eq (wr_and_0_to_6 cols) (wr_and_0_to_5 cols * decomp 5))
      @ when_cond is_real (assert_eq (wr_and_0_to_7 cols) (wr_and_0_to_6 cols * decomp 6))
      @ when_cond is_real (when_cond (wr_and_0_to_7 cols) (assert_zero (value 0 + value 1 + value 2))))"

section \<open>The check\<close>

lemma word_range_silent [simp]:
  "instruction_receives (word_range_check w cols r) = []" "instruction_sends (word_range_check w cols r) = []"
  "byte_sends (word_range_check w cols r) = []"
  by (simp_all add: word_range_check_def Let_def)

lemma word_range_off [simp]: "accepted (word_range_check w cols 0)"
  by (simp add: word_range_check_def Let_def)

lemma unat_as_bits: "unat (p :: u8) = of_bool (bit p 0) + 2 * of_bool (bit p 1) + 4 * of_bool (bit p 2) + 8 * of_bool (bit p 3)
    + 16 * of_bool (bit p 4) + 32 * of_bool (bit p 5) + 64 * of_bool (bit p 6) + 128 * of_bool (bit p 7)"
proof -
  have "unat p = take_bit 8 (unat p)" using unat_byte_less [of p] by (simp add: take_bit_nat_eq_self)
  also have "\<dots> = (\<Sum>i = 0..<8. 2 ^ i * of_bool (bit p i))"
    by (simp add: take_bit_sum push_bit_eq_mult mult.commute bit_unsigned_iff cong: sum.cong)
  finally show ?thesis by (simp add: numeral_eq_Suc)
qed

lemma word_range_top:
  fixes v :: "koala limbs"
  assumes "accepted (word_range_check v cols 1)"
  obtains p :: u8 where "v 3 = from_canonical_u8 p" "unat p < 128" "unat p = 127 \<Longrightarrow> v 0 + v 1 + v 2 = 0"
proof -
  note acc = assms [unfolded word_range_check_def Let_def accepted_append accepted_loop]
  have bits: "wr_most_sig_byte_decomp cols i = 0 \<or> wr_most_sig_byte_decomp cols i = 1" if "i < 8" for i using acc that by simp
  have "sum_list (map (\<lambda>i. of_nat (2 ^ i) * wr_most_sig_byte_decomp cols i) [0..<8]) = v 3" using acc by simp
  with bits obtain p :: u8 where p: "v 3 = from_canonical_u8 p" "\<And>i. i < 8 \<Longrightarrow> wr_most_sig_byte_decomp cols i = from_bool (bit p i)"
    by (rule bits_of_byte [of "wr_most_sig_byte_decomp cols"]) simp_all
  have "\<not> bit p 7" using acc p(2) [of 7] by simp
  moreover have "wr_and_0_to_7 cols = from_bool (bit p 0) * from_bool (bit p 1) * from_bool (bit p 2) * from_bool (bit p 3)
      * from_bool (bit p 4) * from_bool (bit p 5) * from_bool (bit p 6)"
    using acc p(2) by simp
  moreover have "v 0 + v 1 + v 2 = 0 \<or> wr_and_0_to_7 cols = 0" using acc by auto
  ultimately show ?thesis using that [OF p(1)] unat_as_bits [of p] by (auto simp: of_bool_def split: if_splits)
qed

lemma word_range_sound:
  assumes "accepted (word_range_check v cols 1)" "byte_word v"
  shows "limb_number v < 2130706433"
proof -
  obtain p :: u8 where p: "v 3 = from_canonical_u8 p" "unat p < 128" "unat p = 127 \<Longrightarrow> v 0 + v 1 + v 2 = 0"
    using word_range_top [OF assms(1)] by blast
  note b = byte_word_canon [OF assms(2)]
  have c3: "canon (v 3) = unat p" using p(1,2) by (simp add: from_canonical_u8_def canon_of_nat del: of_nat_unat)
  show ?thesis
  proof (cases "unat p = 127")
    case True
    have "canon (v 0) + canon (v 1) + canon (v 2) = 0"
      by (rule koala_nat_eqI) (use p(3) [OF True] b in simp_all)
    then show ?thesis using c3 True by (simp add: limb_number_def)
  next
    case False
    then show ?thesis using c3 b p(2) by (simp add: limb_number_def)
  qed
qed

lemma word_reduce_number: "word_reduce w = (of_nat (limb_number w) :: koala)"
  by (simp add: word_reduce_def limb_number_def)

lemma word_reduce_canon: "limb_number w < 2130706433 \<Longrightarrow> canon (word_reduce w) = limb_number w"
  by (simp add: word_reduce_number canon_of_nat)

lemma word_reduce_from [simp]: "word_reduce (word_from v) = (from_canonical_u32 v :: koala)"
  by (simp add: word_reduce_number from_canonical_u32_def del: of_nat_unat)

lemma mask_bit: "value AND push_bit i 1 \<noteq> 0 \<longleftrightarrow> bit (value :: u32) i"
  by (metis and_exp_eq_0_iff_not_bit push_bit_of_1)

lemma word_range_complete:
  assumes "unat v < 2130706433"
  shows "accepted (word_range_check (word_from v) (word_range_populate v) (r :: koala))"
proof -
  let ?p = "byte_at v 3"
  have bit: "bit v (i + 24) = bit ?p i" if "i < 8" for i using that by (simp add: bit_byte_at add.commute)
  have b: "unat v = unat (byte_at v 0) + 256 * unat (byte_at v 1) + 65536 * unat (byte_at v 2) + 16777216 * unat ?p"
    using limb_number_word_from [of v] by (simp add: limb_number_def word_from_def from_canonical_u8_def canon_of_nat del: limb_number_word_from of_nat_unat)
      (simp add: canon_of_nat unat_byte_less order.strict_trans [OF unat_byte_less] del: of_nat_unat)
  have top: "\<not> bit ?p 7" using unat_as_bits [of ?p] assms b by (auto simp: of_bool_def split: if_splits)
  have low: "word_from v 0 + word_from v 1 + word_from v 2 = (0 :: koala)" if "\<forall>i<7. bit ?p i"
  proof -
    have "unat ?p = 127" using unat_as_bits [of ?p] that top by simp
    then have "unat (byte_at v 0) = 0" "unat (byte_at v 1) = 0" "unat (byte_at v 2) = 0" using assms b by simp_all
    then show ?thesis by (simp add: word_from_def from_canonical_u8_def del: of_nat_unat)
  qed
  have sum: "sum_list (map (\<lambda>i. of_nat (2 ^ i) * from_bool (bit v (i + 24))) [0..<8]) = (word_from v 3 :: koala)"
  proof -
    have "map (\<lambda>i. of_nat (2 ^ i) * from_bool (bit v (i + 24))) [0..<8] = map (\<lambda>i. of_nat (2 ^ i) * (from_bool (bit ?p i) :: koala)) [0..<8]"
      by (rule map_cong) (simp_all add: bit)
    then show ?thesis by (simp only: byte_as_bits [symmetric] word_from_def from_canonical_u8_def)
  qed
  show ?thesis
    unfolding word_range_check_def word_range_populate_def Let_def word_range_checker.simps mask_bit accepted_append accepted_loop sum
    using top low bit [of 0] bit [of 1] bit [of 2] bit [of 3] bit [of 4] bit [of 5] bit [of 6] bit [of 7]
    by (auto simp: from_bool_def less_Suc_eq numeral_eq_Suc)
qed

end
