(* ===== verification/Selectors.thy ===== *)
theory Selectors
  imports Word_Range Clo_Clz_Chip
begin

text \<open>
  Opcode selectors of a row, and the parts of an instruction message that concern the control of the CPU: the
  program counters, the extra cycles and the flags.
\<close>

section \<open>Selectors\<close>

lemma flag_count:
  "list_all (\<lambda>x. x = 0 \<or> x = 1) fs \<Longrightarrow> sum_list fs = (of_nat (length (filter (\<lambda>x. x = 1) fs)) :: koala)"
  by (induction fs) auto

lemma flags_zero:
  fixes fs :: "koala list"
  assumes "list_all (\<lambda>x. x = 0 \<or> x = 1) fs" "length fs < 2130706433" "sum_list fs = 0"
  shows "list_all (\<lambda>x. x = 0) fs"
proof -
  have "length (filter (\<lambda>x. x = 1) fs) = 0"
    using assms flag_count [OF assms(1)] le_less_trans [OF length_filter_le [of "\<lambda>x. x = 1" fs] assms(2)]
    by (intro koala_nat_eqI) simp_all
  then show ?thesis using assms(1) by (auto simp: filter_empty_conv list_all_iff)
qed

text \<open>Boolean selectors whose sum is one: exactly the selector of one opcode is set.\<close>

lemma selected_opcode:
  fixes sel :: "(opcode \<times> koala) list"
  assumes "list_all (\<lambda>x. x = 0 \<or> x = 1) (map snd sel)" "sum_list (map snd sel) = 1" "distinct (map fst sel)"
    "length sel < 2130706433"
  obtains op where "op \<in> set (map fst sel)" "\<forall>p\<in>set sel. snd p = from_bool (op = fst p)"
  using assms
proof (induction sel arbitrary: thesis)
  case (Cons p sel)
  show ?case
  proof (cases "snd p = 1")
    case True
    then have "list_all (\<lambda>x. x = 0) (map snd sel)" using Cons.prems by (intro flags_zero) simp_all
    then have "\<forall>q\<in>set (p # sel). snd q = from_bool (fst p = fst q)"
      using True Cons.prems(4) by (auto simp: list_all_iff from_bool_def image_iff)
    then show ?thesis using Cons.prems(1) [of "fst p"] by simp
  next
    case False
    then have 0: "snd p = 0" using Cons.prems(2) by simp
    obtain op where op: "op \<in> set (map fst sel)" "\<forall>p\<in>set sel. snd p = from_bool (op = fst p)"
      using Cons.IH Cons.prems 0 by auto
    moreover have "op \<noteq> fst p" using op(1) Cons.prems(4) by (metis distinct.simps(2) list.simps(9))
    ultimately show ?thesis using 0 Cons.prems(1) [of op] by (auto simp: from_bool_def)
  qed
qed simp

lemma when_cond_nested [simp]: "when_cond c (when_cond d ops) = when_cond (c * d) ops"
proof -
  have "guard_op c (guard_op d op) = guard_op (c * d) op" for op by (cases op) (simp_all add: mult.assoc)
  then show ?thesis by (simp add: when_cond_def)
qed

section \<open>Messages of dependencies\<close>

text \<open>The messages of the events that a record step adds to an empty record.\<close>

definition step_messages :: "record_step \<Rightarrow> koala list multiset" where
  "step_messages step = (case step default_record of Inr r \<Rightarrow> record_messages r | Inl _ \<Rightarrow> {#})"

lemma flag_word: "limb_list (word_from (of_bool p)) = [from_bool p, 0, 0, 0 :: koala]"
  by (cases p) (simp_all add: word_from_low limb_list_word_from_0)

lemma send_alu_dep:
  assumes "limb_list a = limb_list (word_from A)" "limb_list b = limb_list (word_from B)" "limb_list c = limb_list (word_from C)"
  shows "instruction_sends (send_alu (opcode_as_field op) a b c m) = (if m = 0 then [] else [alu_event_message (dep_event op A B C)])"
  using assms by (simp add: dep_message) (rule impI, rule instruction_values_cong, simp_all)

lemma send_alu_words:
  "instruction_sends (send_alu (opcode_as_field op) (word_from A) (word_from B) (word_from C) m) =
     (if m = 0 then [] else [alu_event_message (dep_event op A B C)])"
  by (rule send_alu_dep) simp_all

lemma send_alu_flag:
  "instruction_sends (send_alu (opcode_as_field op) (mk_word (from_bool p) 0 0 0) (word_from B) (word_from C) m) =
     (if m = 0 then [] else [alu_event_message (dep_event op (of_bool p) B C)])"
  by (rule send_alu_dep) (simp_all add: flag_word)

lemma to_u32_cong: "limb_list v = limb_list w \<Longrightarrow> to_u32 v = to_u32 w"
  by (drule limb_list_eqD) (simp add: to_u32_def limb_number_def)

section \<open>Control part of a message\<close>

definition message_pc :: "koala list \<Rightarrow> koala" where "message_pc vals = vals ! 2"
definition message_next_pc :: "koala list \<Rightarrow> koala" where "message_next_pc vals = vals ! 3"
definition message_next_next_pc :: "koala list \<Rightarrow> koala" where "message_next_next_pc vals = vals ! 4"
definition message_extra_cycles :: "koala list \<Rightarrow> koala" where "message_extra_cycles vals = vals ! 5"
definition message_a_immutable :: "koala list \<Rightarrow> koala" where "message_a_immutable vals = vals ! 23"
definition message_rw_a :: "koala list \<Rightarrow> koala" where "message_rw_a vals = vals ! 24"
definition message_check_memory :: "koala list \<Rightarrow> koala" where "message_check_memory vals = vals ! 25"
definition message_halt :: "koala list \<Rightarrow> koala" where "message_halt vals = vals ! 26"
definition message_sequential :: "koala list \<Rightarrow> koala" where "message_sequential vals = vals ! 27"

lemma message_control [simp]:
  "message_pc (instruction_values s k p q r x opc a b c hi f1 f2 f3 f4 f5) = p"
  "message_next_pc (instruction_values s k p q r x opc a b c hi f1 f2 f3 f4 f5) = q"
  "message_next_next_pc (instruction_values s k p q r x opc a b c hi f1 f2 f3 f4 f5) = r"
  "message_extra_cycles (instruction_values s k p q r x opc a b c hi f1 f2 f3 f4 f5) = x"
  "message_a_immutable (instruction_values s k p q r x opc a b c hi f1 f2 f3 f4 f5) = f1"
  "message_rw_a (instruction_values s k p q r x opc a b c hi f1 f2 f3 f4 f5) = f2"
  "message_check_memory (instruction_values s k p q r x opc a b c hi f1 f2 f3 f4 f5) = f3"
  "message_halt (instruction_values s k p q r x opc a b c hi f1 f2 f3 f4 f5) = f4"
  "message_sequential (instruction_values s k p q r x opc a b c hi f1 f2 f3 f4 f5) = f5"
  by (simp_all add: message_pc_def message_next_pc_def message_next_next_pc_def message_extra_cycles_def
      message_a_immutable_def message_rw_a_def message_check_memory_def message_halt_def message_sequential_def
      instruction_values_def limb_list_def)

lemma canon_from_u32: "unat v < 2130706433 \<Longrightarrow> canon (from_canonical_u32 v) = unat v"
  by (simp add: from_canonical_u32_def canon_of_nat del: of_nat_unat)

text \<open>The word that a canonical field element stands for.\<close>

definition field_word :: "koala \<Rightarrow> u32" where "field_word x = of_nat (canon x)"

lemma unat_field_word: "unat (field_word x) = canon x"
  using canon_less [of x] by (simp add: field_word_def unsigned_of_nat take_bit_eq_mod)

lemma from_field_word [simp]: "from_canonical_u32 (field_word x) = x"
  by (simp add: from_canonical_u32_def unat_field_word del: of_nat_unat)

lemma field_word_from: "unat v < 2130706433 \<Longrightarrow> field_word (from_canonical_u32 v) = v"
  by (simp add: field_word_def canon_from_u32)

lemma field_word_reduce:
  assumes "byte_word w" "limb_number w < 2130706433"
  shows "field_word (word_reduce w) = to_u32 w"
  using assms by (simp add: field_word_def word_reduce_canon to_u32_def)

lemma from_u32_add_4:
  assumes "unat v < 2130706433" "unat (v + 4) < 2130706433"
  shows "from_canonical_u32 (v + 4) = from_canonical_u32 v + (4 :: koala)"
proof -
  have "unat v + unat (4 :: u32) < 2 ^ LENGTH(32)" using assms(1) by simp
  then have "unat (v + 4) = unat v + 4" by (simp add: unat_add_lem [THEN iffD1])
  then show ?thesis by (simp add: from_canonical_u32_def del: of_nat_unat)
qed

end
