(* ===== verification/Memory_Bus.thy ===== *)
theory Memory_Bus
  imports Memory_Air
begin

text \<open>
  Consistency of memory from the messages on the memory bus. An access to an address sends the tuple of the previous
  access and receives its own (\<^verbatim>\<open>crates/core/machine/src/air/memory.rs\<close>). If the tuples of an address balance against
  an initial and a final one and every access is accepted, the accesses form one chain in time from the initial to the
  final tuple: every access sees the value that the latest earlier access left.
\<close>

section \<open>Chains\<close>

text \<open>Accesses as edges from the previous tuple to the new one.\<close>

fun chain :: "('e \<Rightarrow> 'a) \<Rightarrow> ('e \<Rightarrow> 'a) \<Rightarrow> 'a \<Rightarrow> 'e list \<Rightarrow> 'a \<Rightarrow> bool" where
  "chain src dst a [] b \<longleftrightarrow> a = b"
| "chain src dst a (e # es) b \<longleftrightarrow> src e = a \<and> chain src dst (dst e) es b"

lemma no_cycle:
  fixes src dst :: "'e \<Rightarrow> 'a" and time :: "'a \<Rightarrow> nat"
  assumes "\<And>e. e \<in># E \<Longrightarrow> time (src e) < time (dst e)" and "image_mset dst E = image_mset src E"
  shows "E = {#}"
proof (rule ccontr)
  assume "E \<noteq> {#}"
  then obtain e where e: "e \<in># E" by blast
  define t where "t = (LEAST t. \<exists>e. e \<in># E \<and> t = time (src e))"
  have "\<exists>e. e \<in># E \<and> t = time (src e)" unfolding t_def by (rule LeastI_ex) (use e in blast)
  then obtain f where f: "f \<in># E" "t = time (src f)" by blast
  then have "src f \<in># image_mset dst E" unfolding assms(2) by simp
  then obtain g where g: "g \<in># E" "dst g = src f" by auto
  then have "time (src g) < t" using assms(1) f(2) by metis
  then show False using not_less_Least [of "time (src g)" "\<lambda>t. \<exists>e. e \<in># E \<and> t = time (src e)"] g(1) unfolding t_def by blast
qed

lemma chain_exists:
  fixes src dst :: "'e \<Rightarrow> 'a" and time :: "'a \<Rightarrow> nat"
  assumes "\<And>e. e \<in># E \<Longrightarrow> time (src e) < time (dst e)" and "add_mset a (image_mset dst E) = add_mset b (image_mset src E)"
  shows "\<exists>es. mset es = E \<and> chain src dst a es b"
  using assms
proof (induction "size E" arbitrary: E a rule: less_induct)
  case less
  show ?case
  proof (cases "\<exists>e. e \<in># E \<and> src e = a")
    case True
    then obtain e F where e: "src e = a" "E = add_mset e F" by (metis mset_add)
    then have "add_mset (dst e) (image_mset dst F) = add_mset b (image_mset src F)"
      using less.prems(2) by (simp add: add_mset_commute)
    then obtain es where "mset es = F" "chain src dst (dst e) es b"
      using less.hyps [of F "dst e"] less.prems(1) e(2) by auto
    then show ?thesis using e by (intro exI [of _ "e # es"]) simp
  next
    case False
    then have "a \<notin># image_mset src E" by auto
    moreover have "a \<in># add_mset b (image_mset src E)" using less.prems(2) by (metis union_single_eq_member)
    ultimately have "a = b" by simp
    then have "E = {#}" using no_cycle [of E time src dst] less.prems by simp
    then show ?thesis using \<open>a = b\<close> by (intro exI [of _ "[]"]) simp
  qed
qed

lemma chain_sorted:
  fixes src dst :: "'e \<Rightarrow> 'a" and time :: "'a \<Rightarrow> nat"
  assumes "chain src dst a es b" and "\<And>e. e \<in> set es \<Longrightarrow> time (src e) < time (dst e)"
  shows "sorted_wrt (<) (time a # map (time \<circ> dst) es)"
  using assms
proof (induction es arbitrary: a)
  case (Cons e es)
  have ch: "src e = a" "chain src dst (dst e) es b" using Cons.prems(1) by simp_all
  have "sorted_wrt (<) (time (dst e) # map (time \<circ> dst) es)" by (rule Cons.IH [OF ch(2)]) (use Cons.prems(2) in auto)
  moreover have "time a < time (dst e)" using Cons.prems(2) [of e] ch(1) by auto
  ultimately show ?case by (auto simp: comp_def intro: less_trans)
qed simp

section \<open>Messages of an access\<close>

fun memory_sends :: "koala air_op list \<Rightarrow> koala list list" where
  "memory_sends [] = []"
| "memory_sends (Send_Lookup l s # ops) =
     (if al_kind l = LK_Memory \<and> al_multiplicity l \<noteq> 0 then [al_values l] else []) @ memory_sends ops"
| "memory_sends (_ # ops) = memory_sends ops"

fun memory_receives :: "koala air_op list \<Rightarrow> koala list list" where
  "memory_receives [] = []"
| "memory_receives (Receive_Lookup l s # ops) =
     (if al_kind l = LK_Memory \<and> al_multiplicity l \<noteq> 0 then [al_values l] else []) @ memory_receives ops"
| "memory_receives (_ # ops) = memory_receives ops"

lemma memory_sends_append [simp]: "memory_sends (xs @ ys) = memory_sends xs @ memory_sends ys"
  by (induction xs rule: memory_sends.induct) simp_all

lemma memory_receives_append [simp]: "memory_receives (xs @ ys) = memory_receives xs @ memory_receives ys"
  by (induction xs rule: memory_receives.induct) simp_all

lemma memory_silent [simp]:
  "memory_sends (assert_bool x) = []" "memory_sends (assert_zero x) = []" "memory_sends (assert_eq x y) = []"
  "memory_sends (send_byte q a b c m) = []"
  "memory_receives (assert_bool x) = []" "memory_receives (assert_zero x) = []" "memory_receives (assert_eq x y) = []"
  "memory_receives (send_byte q a b c m) = []"
  by (simp_all add: air_defs)

lemma memory_when [simp]: "memory_sends (when_cond c ops) = memory_sends ops" "memory_receives (when_cond c ops) = memory_receives ops"
  unfolding when_cond_def by (induction ops rule: memory_sends.induct) simp_all

lemma memory_range [simp]: "memory_sends (slice_range_check_u8 xs m) = []" "memory_receives (slice_range_check_u8 xs m) = []"
  by (induction xs m rule: slice_range_check_u8.induct) simp_all

text \<open>An access to an address: shard, clock and columns.\<close>

type_synonym access_row = "koala \<times> koala \<times> koala memory_rw_cols"

fun access_ops :: "koala \<Rightarrow> access_row \<Rightarrow> koala air_op list" where
  "access_ops addr (shard, clk, cols) = eval_memory_access shard clk addr cols 1"

fun access_prev :: "koala \<Rightarrow> access_row \<Rightarrow> koala list" where
  "access_prev addr (shard, clk, cols) =
     [ma_prev_shard (mrw_access cols), ma_prev_clk (mrw_access cols), addr] @ limb_list (mrw_prev_value cols)"

fun access_cur :: "koala \<Rightarrow> access_row \<Rightarrow> koala list" where
  "access_cur addr (shard, clk, cols) = [shard, clk, addr] @ limb_list (ma_value (mrw_access cols))"

lemma access_messages: "memory_sends (access_ops addr row) = [access_prev addr row]" "memory_receives (access_ops addr row) = [access_cur addr row]"
  by (cases row; simp add: eval_memory_access_def eval_memory_access_timestamp_def eval_range_check_24bits_def Let_def)+

definition time_in_range :: "koala list \<Rightarrow> bool" where
  "time_in_range m \<longleftrightarrow> canon (m ! 0) < 2 ^ 25 \<and> canon (m ! 1) < 2 ^ 25"

definition message_time :: "koala list \<Rightarrow> nat" where
  "message_time m = canon (m ! 0) * 2 ^ 25 + canon (m ! 1)"

lemma access_forward:
  assumes acc: "accepted (access_ops addr row)" and "time_in_range (access_prev addr row)" "time_in_range (access_cur addr row)"
  shows "message_time (access_prev addr row) < message_time (access_cur addr row)"
proof -
  obtain shard clk cols where row: "row = (shard, clk, cols)" by (cases row)
  have "accepted (eval_memory_access_timestamp (mrw_access cols) 1 shard clk)"
    using memory_access_sound [of shard clk addr cols 1] acc by (simp add: row)
  then have "earlier (canon (ma_prev_shard (mrw_access cols)), canon (ma_prev_clk (mrw_access cols))) (canon shard, canon clk)"
    using assms(2,3) by (intro timestamp_sound) (simp_all add: row time_in_range_def)
  moreover have "canon (ma_prev_clk (mrw_access cols)) < 2 ^ 25" using assms(2) by (simp add: row time_in_range_def)
  ultimately show ?thesis by (auto simp: row earlier_def message_time_def)
qed

lemma chain_time:
  fixes rows :: "access_row list"
  assumes acc: "list_all (\<lambda>row. accepted (access_ops addr row) \<and> time_in_range (access_cur addr row)) rows"
    and init: "time_in_range init"
    and bal: "add_mset init (mset (map (access_cur addr) rows)) = add_mset fin (mset (map (access_prev addr) rows))"
    and "row \<in> set rows"
  shows "message_time (access_prev addr row) < message_time (access_cur addr row)"
proof -
  have "access_prev addr row \<in># add_mset fin (mset (map (access_prev addr) rows))" using assms(4) by simp
  then have "access_prev addr row \<in># add_mset init (mset (map (access_cur addr) rows))" unfolding bal .
  then have "time_in_range (access_prev addr row)" using acc init by (auto simp: list_all_iff)
  then show ?thesis using acc assms(4) by (intro access_forward) (auto simp: list_all_iff)
qed

text \<open>C11: if all accesses to an address are accepted, their times are below 2^25, which covers a 24-bit clock and the
  offset of an access in its cycle, and the messages they send and
  receive balance against an initial and a final message, then the accesses form one chain, ordered by time, from the
  initial to the final message: each access starts from the value and time that the access before it left.\<close>

theorem memory_accesses_chain:
  fixes rows :: "access_row list"
  assumes "list_all (\<lambda>row. accepted (access_ops addr row) \<and> time_in_range (access_cur addr row)) rows" and "time_in_range init"
    and "add_mset init (mset (concat (map (memory_receives \<circ> access_ops addr) rows))) =
         add_mset fin (mset (concat (map (memory_sends \<circ> access_ops addr) rows)))"
  shows "\<exists>ordered. mset ordered = mset rows \<and> chain (access_prev addr) (access_cur addr) init ordered fin \<and>
    sorted_wrt (<) (message_time init # map (message_time \<circ> access_cur addr) ordered)"
proof -
  have "concat (map (memory_receives \<circ> access_ops addr) rows) = map (access_cur addr) rows"
    "concat (map (memory_sends \<circ> access_ops addr) rows) = map (access_prev addr) rows"
    by (induction rows) (simp_all add: access_messages)
  then have bal: "add_mset init (mset (map (access_cur addr) rows)) = add_mset fin (mset (map (access_prev addr) rows))"
    using assms(3) by simp
  note time = chain_time [OF assms(1,2) bal]
  obtain es where es: "mset es = mset rows" "chain (access_prev addr) (access_cur addr) init es fin"
    using chain_exists [of "mset rows" message_time "access_prev addr" "access_cur addr" init fin] time bal by auto
  then have "set es = set rows" by (metis set_mset_mset)
  then have "sorted_wrt (<) (message_time init # map (message_time \<circ> access_cur addr) es)"
    by (intro chain_sorted [OF es(2)]) (rule time, blast)
  then show ?thesis using es by blast
qed

text \<open>A write of 7 after the initial value, and a read of it.\<close>

definition example_access :: "memory_record_enum \<Rightarrow> access_row" where
  "example_access r = (from_canonical_u32 (rec_shard (current_record r)), from_canonical_u32 (rec_timestamp (current_record r)),
     fst (memory_populate r))"

definition example_accesses :: "access_row list" where
  "example_accesses =
     [example_access (Read \<lparr>rd_value = 7, rd_shard = 1, rd_timestamp = 9, rd_prev_shard = 1, rd_prev_timestamp = 5\<rparr>),
      example_access (Write \<lparr>wr_value = 7, wr_shard = 1, wr_timestamp = 5, wr_prev_value = 0, wr_prev_shard = 0, wr_prev_timestamp = 0\<rparr>)]"

lemma example_messages:
  "access_prev addr (example_access r) = [from_canonical_u32 (rec_shard (previous_record r)),
     from_canonical_u32 (rec_timestamp (previous_record r)), addr] @ limb_list (word_from (rec_value (previous_record r)))"
  "access_cur addr (example_access r) = [from_canonical_u32 (rec_shard (current_record r)),
     from_canonical_u32 (rec_timestamp (current_record r)), addr] @ limb_list (word_from (rec_value (current_record r)))"
  by (cases r; simp add: example_access_def memory_read_populate_def memory_write_populate_def populate_access_def Let_def)+

lemma example_accepted:
  assumes "ordered_record (current_record r) (previous_record r)"
  shows "accepted (access_ops addr (example_access r))"
proof -
  obtain access blu where p: "populate_access (current_record r) (previous_record r) = (access :: koala memory_access_cols, blu)" by fastforce
  have "fst (memory_populate r) = \<lparr>mrw_prev_value = word_from (rec_value (previous_record r)), mrw_access = access\<rparr>"
    using p by (cases r) (simp_all add: memory_read_populate_def memory_write_populate_def Let_def)
  then show ?thesis using memory_access_complete(1) [OF assms p, of addr] by (simp add: example_access_def)
qed

theorem memory_accesses_chain_witness:
  "\<exists>ordered. mset ordered = mset example_accesses \<and>
     chain (access_prev 33) (access_cur 33) [0, 0, 33, 0, 0, 0, 0] ordered [1, 9, 33, 7, 0, 0, 0]"
proof -
  have seven: "limb_list (word_from 7) = [7, 0, 0, 0 :: koala]" by (simp add: limb_list_def word_from_def byte_at_def from_canonical_u8_def)
  have small: "canon 0 < 2 ^ 25" "canon 1 < 2 ^ 25" "canon 5 < 2 ^ 25" "canon 9 < 2 ^ 25"
    using canon_of_nat [of 1] canon_of_nat [of 5] canon_of_nat [of 9] by simp_all
  have rows: "list_all (\<lambda>row. accepted (access_ops 33 row) \<and> time_in_range (access_cur 33 row)) example_accesses"
    using small by (simp add: example_accesses_def example_messages time_in_range_def from_canonical_u32_def)
      (simp add: example_accepted ordered_record_def)
  have bal: "add_mset [0, 0, 33, 0, 0, 0, 0] (mset (concat (map (memory_receives \<circ> access_ops 33) example_accesses))) =
      add_mset [1, 9, 33, 7, 0, 0, 0] (mset (concat (map (memory_sends \<circ> access_ops 33) example_accesses)))"
    by (simp add: example_accesses_def access_messages example_messages from_canonical_u32_def seven limb_list_word_from_0)
  show ?thesis using memory_accesses_chain [OF rows _ bal] small by (auto simp: time_in_range_def)
qed

end
