(* ===== verification/Cpu_Chip.thy ===== *)
theory Cpu_Chip
  imports Selectors Memory_Bus
begin

text \<open>
  The CPU chip and the program table (\<^verbatim>\<open>crates/core/machine/src/cpu/\<close>, \<^verbatim>\<open>program/mod.rs\<close>, \<^verbatim>\<open>air/program.rs\<close>). A CPU row
  fetches an instruction from the program table, reads its operands from the registers, sends the instruction to the
  chip that executes it and writes the result. Constraints on two neighbouring rows tie the clocks and the program
  counters together; the selectors for the first row, the rows that have a successor and the last row are arguments.
\<close>

unbundle bit_operations_syntax

section \<open>Instruction columns and the program table\<close>

record 'f instruction_cols =
  ic_opcode :: 'f
  ic_op_a :: 'f
  ic_op_b :: "'f limbs"
  ic_op_c :: "'f limbs"
  ic_op_a_0 :: 'f
  ic_imm_b :: 'f
  ic_imm_c :: 'f

definition instruction_populate :: "instruction \<Rightarrow> 'f::field instruction_cols" where
  "instruction_populate i =
     \<lparr>ic_opcode = opcode_as_field (opcode i), ic_op_a = from_canonical_u32 (ucast (op_a i)), ic_op_b = word_from (op_b i),
      ic_op_c = word_from (op_c i), ic_op_a_0 = from_bool (op_a i = 0), ic_imm_b = from_bool (imm_b i),
      ic_imm_c = from_bool (imm_c i)\<rparr>"

definition instruction_list :: "'f instruction_cols \<Rightarrow> 'f list" where
  "instruction_list i = [ic_opcode i, ic_op_a i] @ limb_list (ic_op_b i) @ limb_list (ic_op_c i) @ [ic_op_a_0 i, ic_imm_b i, ic_imm_c i]"

definition instruction_cols_zero :: "'f::field instruction_cols" where
  "instruction_cols_zero = \<lparr>ic_opcode = 0, ic_op_a = 0, ic_op_b = zero_word, ic_op_c = zero_word, ic_op_a_0 = 0, ic_imm_b = 0, ic_imm_c = 0\<rparr>"

definition send_program :: "'f \<Rightarrow> 'f instruction_cols \<Rightarrow> 'f \<Rightarrow> 'f air_op list" where
  "send_program pc i multiplicity = [Send_Lookup (air_lookup_new (pc # instruction_list i) multiplicity LK_Program) Scope_Local]"

definition receive_program :: "'f \<Rightarrow> 'f instruction_cols \<Rightarrow> 'f \<Rightarrow> 'f air_op list" where
  "receive_program pc i multiplicity = [Receive_Lookup (air_lookup_new (pc # instruction_list i) multiplicity LK_Program) Scope_Local]"

record 'f program_preprocessed_cols =
  pp_pc :: 'f
  pp_instruction :: "'f instruction_cols"

definition program_preprocessed_trace :: "program \<Rightarrow> nat \<Rightarrow> 'f::field program_preprocessed_cols list" where
  "program_preprocessed_trace program padded_nb_rows =
     map (\<lambda>idx. \<lparr>pp_pc = from_canonical_u32 (prog_pc_base program + of_nat idx * 4),
       pp_instruction = instruction_populate (prog_instructions program ! idx)\<rparr>) [0..<length (prog_instructions program)]
     @ replicate (padded_nb_rows - length (prog_instructions program)) \<lparr>pp_pc = 0, pp_instruction = instruction_cols_zero\<rparr>"

definition program_multiplicities :: "program \<Rightarrow> cpu_event list \<Rightarrow> nat \<Rightarrow> 'f::field list" where
  "program_multiplicities program events padded_nb_rows =
     map (\<lambda>idx. of_nat (length (filter (\<lambda>e. cpu_pc e = prog_pc_base program + of_nat idx * 4) events)))
       [0..<length (prog_instructions program)]
     @ replicate (padded_nb_rows - length (prog_instructions program)) 0"

definition program_eval :: "'f program_preprocessed_cols \<Rightarrow> 'f \<Rightarrow> 'f air_op list" where
  "program_eval prep_local multiplicity = receive_program (pp_pc prep_local) (pp_instruction prep_local) multiplicity"

section \<open>CPU columns\<close>

record 'f cpu_cols =
  cp_shard :: 'f
  cp_clk_16bit_limb :: 'f
  cp_clk_8bit_limb :: 'f
  cp_shard_to_send :: 'f
  cp_clk_to_send :: 'f
  cp_pc :: 'f
  cp_next_pc :: 'f
  cp_next_next_pc :: 'f
  cp_instruction :: "'f instruction_cols"
  cp_num_extra_cycles :: 'f
  cp_is_rw_a :: 'f
  cp_is_check_memory :: 'f
  cp_is_halt :: 'f
  cp_is_sequential :: 'f
  cp_op_a_value :: "'f limbs"
  cp_hi_or_prev_a :: "'f limbs"
  cp_op_a_access :: "'f memory_rw_cols"
  cp_op_b_access :: "'f memory_access_cols"
  cp_op_c_access :: "'f memory_access_cols"
  cp_is_real :: 'f
  cp_op_a_immutable :: 'f

definition op_a_val :: "'f cpu_cols \<Rightarrow> 'f limbs" where "op_a_val local = ma_value (mrw_access (cp_op_a_access local))"
definition op_b_val :: "'f cpu_cols \<Rightarrow> 'f limbs" where "op_b_val local = ma_value (cp_op_b_access local)"
definition op_c_val :: "'f cpu_cols \<Rightarrow> 'f limbs" where "op_c_val local = ma_value (cp_op_c_access local)"

text \<open>The public values that the chip reads.\<close>

record 'f cpu_public =
  cv_execution_shard :: 'f
  cv_start_pc :: 'f
  cv_next_pc :: 'f

definition cpu_public_values :: "public_values \<Rightarrow> 'f::field cpu_public" where
  "cpu_public_values pv = \<lparr>cv_execution_shard = from_canonical_u32 (pv_execution_shard pv),
     cv_start_pc = from_canonical_u32 (pv_start_pc pv), cv_next_pc = from_canonical_u32 (pv_next_pc pv)\<rparr>"

definition row_clk :: "'f::field cpu_cols \<Rightarrow> 'f" where
  "row_clk local = from_canonical_u32 (push_bit 16 1) * cp_clk_8bit_limb local + cp_clk_16bit_limb local"

section \<open>Constraints\<close>

definition eval_registers :: "'f::field cpu_cols \<Rightarrow> 'f \<Rightarrow> 'f air_op list" where
  "eval_registers local clk =
     (let i = cp_instruction local; a_access = cp_op_a_access local; a_value = ma_value (mrw_access a_access) in
      when_cond (ic_imm_b i) (assert_word_eq (op_b_val local) (ic_op_b i))
      @ when_cond (ic_imm_c i) (assert_word_eq (op_c_val local) (ic_op_c i))
      @ eval_memory_access (cp_shard local) (clk + from_canonical_u32 (position_offset PosB)) (ic_op_b i 0)
          (memory_read_cols (cp_op_b_access local)) (1 - ic_imm_b i)
      @ eval_memory_access (cp_shard local) (clk + from_canonical_u32 (position_offset PosC)) (ic_op_c i 0)
          (memory_read_cols (cp_op_c_access local)) (1 - ic_imm_c i)
      @ when_cond (ic_op_a_0 i) (assert_word_zero a_value)
      @ when_not (ic_op_a_0 i) (assert_word_eq (cp_op_a_value local) a_value)
      @ when_cond (ic_op_a_0 i * cp_op_a_immutable local) (assert_word_zero (cp_op_a_value local))
      @ when_cond (cp_is_rw_a local) (assert_word_eq (cp_hi_or_prev_a local) (mrw_prev_value a_access))
      @ eval_memory_access (cp_shard local) (clk + from_canonical_u32 (position_offset PosA)) (ic_op_a i) a_access (cp_is_real local)
      @ slice_range_check_u8 (limb_list a_value) (cp_is_real local)
      @ when_cond (cp_op_a_immutable local) (assert_word_eq (op_a_val local) (mrw_prev_value a_access)))"

definition eval_control_flags :: "'f::field cpu_cols \<Rightarrow> 'f air_op list" where
  "eval_control_flags local =
     when_cond (cp_is_real local) (assert_bool (cp_is_rw_a local))
     @ when_cond (cp_is_real local) (assert_bool (cp_is_check_memory local))
     @ when_cond (cp_is_real local) (assert_bool (cp_is_halt local))
     @ when_cond (cp_is_real local) (assert_bool (cp_is_sequential local))
     @ when_cond (cp_is_real local) (assert_zero (cp_is_halt local * cp_is_sequential local))"

definition eval_shard_clk :: "'f::field \<Rightarrow> 'f \<Rightarrow> 'f cpu_cols \<Rightarrow> 'f cpu_cols \<Rightarrow> 'f \<Rightarrow> 'f air_op list" where
  "eval_shard_clk first transition local next clk =
     when_cond transition (when_cond (cp_is_real next) (assert_eq (cp_shard local) (cp_shard next)))
     @ send_byte (byte_opcode_as_field B_U16Range) (cp_shard local) 0 0 (cp_is_real local)
     @ when_cond first (assert_zero clk)
     @ when_cond transition (when_cond (cp_is_real next)
         (assert_eq (clk + from_canonical_u32 5 + cp_num_extra_cycles local) (row_clk next)))
     @ eval_range_check_24bits clk (cp_clk_16bit_limb local) (cp_clk_8bit_limb local) (cp_is_real local)"

definition eval_pc :: "'f::field \<Rightarrow> 'f \<Rightarrow> 'f \<Rightarrow> 'f cpu_cols \<Rightarrow> 'f cpu_cols \<Rightarrow> 'f cpu_public \<Rightarrow> 'f air_op list" where
  "eval_pc first transition final local next pv =
     when_cond (cp_is_real local) (assert_eq (cv_execution_shard pv) (cp_shard local))
     @ when_cond first (assert_eq (cv_start_pc pv) (cp_pc local))
     @ when_cond first (when_not (cp_is_halt local) (assert_eq (cp_pc local + from_canonical_u32 4) (cp_next_pc local)))
     @ when_cond transition (when_cond (cp_is_real next) (assert_eq (cp_next_pc local) (cp_pc next)))
     @ when_cond transition (when_cond (cp_is_real next) (when_not (cp_is_halt next)
         (assert_eq (cp_next_next_pc local) (cp_next_pc next))))
     @ when_cond (cp_is_real local) (when_cond (cp_is_sequential local)
         (assert_eq (cp_next_next_pc local) (cp_next_pc local + from_canonical_u32 4)))
     @ when_cond transition (when_cond (cp_is_real local - cp_is_real next) (assert_eq (cv_next_pc pv) (cp_next_pc local)))
     @ when_cond final (when_cond (cp_is_real local) (assert_eq (cv_next_pc pv) (cp_next_pc local)))
     @ when_cond transition (when_cond (cp_is_real local - cp_is_real next)
         (assert_one (cp_is_sequential local + cp_is_halt local)))
     @ when_cond final (when_cond (cp_is_real local) (assert_one (cp_is_sequential local + cp_is_halt local)))"

definition eval_is_real :: "'f::field \<Rightarrow> 'f \<Rightarrow> 'f cpu_cols \<Rightarrow> 'f cpu_cols \<Rightarrow> 'f air_op list" where
  "eval_is_real first transition local next =
     assert_bool (cp_is_real local)
     @ when_cond first (assert_one (cp_is_real local))
     @ when_cond transition (when_not (cp_is_real local) (assert_zero (cp_is_real next)))
     @ when_cond transition (when_cond (cp_is_halt local) (assert_zero (cp_is_real next)))"

definition cpu_message :: "'f cpu_cols \<Rightarrow> 'f list" where
  "cpu_message local =
     instruction_values (cp_shard_to_send local) (cp_clk_to_send local) (cp_pc local) (cp_next_pc local) (cp_next_next_pc local)
       (cp_num_extra_cycles local) (ic_opcode (cp_instruction local)) (cp_op_a_value local) (op_b_val local) (op_c_val local)
       (cp_hi_or_prev_a local) (cp_op_a_immutable local) (cp_is_rw_a local) (cp_is_check_memory local) (cp_is_halt local)
       (cp_is_sequential local)"

definition cpu_eval :: "'f::field \<Rightarrow> 'f \<Rightarrow> 'f \<Rightarrow> 'f cpu_public \<Rightarrow> 'f cpu_cols \<Rightarrow> 'f cpu_cols \<Rightarrow> 'f air_op list" where
  "cpu_eval first transition final pv local next =
     (let clk = row_clk local; not_real = 1 - cp_is_real local in
      send_program (cp_pc local) (cp_instruction local) (cp_is_real local)
      @ eval_registers local clk
      @ when_cond (cp_is_real local) (assert_eq (cp_shard_to_send local) (if_else (cp_is_check_memory local) (cp_shard local) 0))
      @ when_cond (cp_is_real local) (assert_eq (cp_clk_to_send local) (if_else (cp_is_check_memory local) clk 0))
      @ send_instruction (cpu_message local) (cp_is_real local)
      @ eval_shard_clk first transition local next clk
      @ eval_pc first transition final local next pv
      @ eval_control_flags local
      @ eval_is_real first transition local next
      @ when_cond not_real (assert_zero (1 - ic_imm_b (cp_instruction local)))
      @ when_cond not_real (assert_zero (1 - ic_imm_c (cp_instruction local)))
      @ when_cond not_real (assert_zero (1 - cp_is_rw_a local))
      @ when_cond not_real (assert_zero (cp_is_check_memory local))
      @ when_cond not_real (assert_zero (cp_is_halt local))
      @ when_cond not_real (assert_zero (cp_is_sequential local))
      @ when_cond not_real (assert_zero (cp_next_pc local))
      @ when_cond not_real (assert_zero (cp_next_next_pc local)))"

section \<open>Traces\<close>

text \<open>The operations of all rows of a trace; the successor of the last row is the first one.\<close>

definition cpu_row_ops :: "koala cpu_public \<Rightarrow> koala cpu_cols list \<Rightarrow> nat \<Rightarrow> koala air_op list" where
  "cpu_row_ops pv rows k =
     cpu_eval (from_bool (k = 0)) (from_bool (Suc k < length rows)) (from_bool (Suc k = length rows)) pv
       (rows ! k) (rows ! (Suc k mod length rows))"

definition cpu_accepted :: "koala cpu_public \<Rightarrow> koala cpu_cols list \<Rightarrow> bool" where
  "cpu_accepted pv rows \<longleftrightarrow> list_all (\<lambda>k. accepted (cpu_row_ops pv rows k)) [0..<length rows]"

end
