(* ===== verification/Memory_Order.thy ===== *)
theory Memory_Order
  imports Memory_Bus
begin

text \<open>
  Accesses in program order. When the accesses of a trace carry strictly increasing times, the chain of every address
  is the program order itself, so an access starts from what the latest access before it to the same address left,
  and memory behaves like a map that is updated by one access after the other.
\<close>

type_synonym timed_access = "koala \<times> access_row"

fun cur_message :: "timed_access \<Rightarrow> koala list" where "cur_message (a, row) = access_cur a row"
fun prev_message :: "timed_access \<Rightarrow> koala list" where "prev_message (a, row) = access_prev a row"

definition accesses_balanced :: "koala list \<Rightarrow> (koala \<Rightarrow> koala list) \<Rightarrow> (koala \<Rightarrow> koala list) \<Rightarrow> timed_access list \<Rightarrow> bool" where
  "accesses_balanced addrs init fin accs \<longleftrightarrow>
     mset (map init addrs) + mset (map cur_message accs) = mset (map fin addrs) + mset (map prev_message accs)"

definition accesses_accepted :: "timed_access list \<Rightarrow> bool" where
  "accesses_accepted accs \<longleftrightarrow> list_all (\<lambda>(a, row). accepted (access_ops a row) \<and> time_in_range (access_cur a row)) accs"

definition last_message :: "(koala \<Rightarrow> koala list) \<Rightarrow> timed_access list \<Rightarrow> koala \<Rightarrow> koala list" where
  "last_message init accs a = foldl (\<lambda>m p. if fst p = a then cur_message p else m) (init a) accs"

fun at_address :: "koala \<Rightarrow> timed_access list \<Rightarrow> access_row list" where
  "at_address a [] = []"
| "at_address a (p # accs) = (if fst p = a then [snd p] else []) @ at_address a accs"

lemma at_address_append [simp]: "at_address a (xs @ ys) = at_address a xs @ at_address a ys"
  by (induction xs) simp_all

lemma in_at_address [simp]: "row \<in> set (at_address a accs) \<longleftrightarrow> (a, row) \<in> set accs"
  by (induction accs) auto

lemma message_address: "cur_message p ! 2 = fst p" "prev_message p ! 2 = fst p"
  by (cases p; cases "snd p"; simp)+

lemma filter_at_address:
  "filter_mset (\<lambda>m. m ! 2 = a) (mset (map cur_message accs)) = mset (map (access_cur a) (at_address a accs))"
  "filter_mset (\<lambda>m. m ! 2 = a) (mset (map prev_message accs)) = mset (map (access_prev a) (at_address a accs))"
  by (induction accs; simp add: message_address; force)+

lemma filter_locations:
  assumes "distinct addrs" "list_all (\<lambda>a. f a ! 2 = a) addrs"
  shows "filter_mset (\<lambda>m. m ! 2 = a) (mset (map f addrs)) = (if a \<in> set addrs then {#f a#} else {#})"
  using assms
proof (induction addrs)
  case (Cons b addrs)
  then show ?case by (cases "b = a") simp_all
qed simp

lemma balanced_at:
  assumes "accesses_balanced addrs init fin accs" "distinct addrs"
    "list_all (\<lambda>a. init a ! 2 = a) addrs" "list_all (\<lambda>a. fin a ! 2 = a) addrs"
  shows "(if a \<in> set addrs then {#init a#} else {#}) + mset (map (access_cur a) (at_address a accs)) =
    (if a \<in> set addrs then {#fin a#} else {#}) + mset (map (access_prev a) (at_address a accs))"
proof -
  have "filter_mset (\<lambda>m. m ! 2 = a) (mset (map init addrs) + mset (map cur_message accs)) =
      filter_mset (\<lambda>m. m ! 2 = a) (mset (map fin addrs) + mset (map prev_message accs))"
    using assms(1) by (simp only: accesses_balanced_def)
  then show ?thesis
    unfolding filter_union_mset filter_at_address filter_locations [OF assms(2,3)] filter_locations [OF assms(2,4)] .
qed

lemma sorted_key_unique:
  fixes f :: "'a \<Rightarrow> nat"
  assumes "sorted_wrt (\<lambda>x y. f x < f y) xs" "sorted_wrt (\<lambda>x y. f x < f y) ys" "mset xs = mset ys"
  shows "xs = ys"
  using assms
proof (induction xs arbitrary: ys)
  case (Cons x xs)
  then obtain y ys' where ys: "ys = y # ys'" by (cases ys) auto
  have set: "set (x # xs) = set (y # ys')" using Cons.prems(3) ys by (metis set_mset_mset)
  have "x = y"
  proof (rule ccontr)
    assume "x \<noteq> y"
    then have "x \<in> set ys'" "y \<in> set xs" using set by auto
    then have "f y < f x" "f x < f y" using Cons.prems(1,2) ys by auto
    then show False by simp
  qed
  then show ?case using Cons ys by simp
qed simp

lemma sorted_at_address:
  "sorted_wrt (\<lambda>p q. message_time (cur_message p) < message_time (cur_message q)) accs \<Longrightarrow>
   sorted_wrt (\<lambda>x y. message_time (access_cur a x) < message_time (access_cur a y)) (at_address a accs)"
proof (induction accs)
  case (Cons p accs)
  have "message_time (access_cur a (snd p)) < message_time (access_cur a row)" if "fst p = a" "(a, row) \<in> set accs" for row
    using that Cons.prems by (cases p) auto
  then show ?case using Cons by simp
qed simp

text \<open>Accepted accesses in strictly increasing time whose messages balance against one initial and one final message per
  address.\<close>

definition program_order :: "koala list \<Rightarrow> (koala \<Rightarrow> koala list) \<Rightarrow> (koala \<Rightarrow> koala list) \<Rightarrow> timed_access list \<Rightarrow> bool" where
  "program_order addrs init fin accs \<longleftrightarrow> accesses_accepted accs \<and>
     sorted_wrt (\<lambda>p q. message_time (cur_message p) < message_time (cur_message q)) accs \<and>
     accesses_balanced addrs init fin accs \<and> distinct addrs \<and>
     list_all (\<lambda>a. init a ! 2 = a \<and> time_in_range (init a)) addrs \<and> list_all (\<lambda>a. fin a ! 2 = a) addrs"

lemma balance:
  assumes "program_order addrs init fin accs"
  shows "(if a \<in> set addrs then {#init a#} else {#}) + mset (map (access_cur a) (at_address a accs)) =
    (if a \<in> set addrs then {#fin a#} else {#}) + mset (map (access_prev a) (at_address a accs))"
  using assms unfolding program_order_def by (intro balanced_at) (simp_all add: list_all_iff)

lemma accepted_at: "program_order addrs init fin accs \<Longrightarrow> (a, row) \<in> set accs \<Longrightarrow> accepted (access_ops a row) \<and> time_in_range (access_cur a row)"
  by (auto simp: program_order_def accesses_accepted_def list_all_iff)

lemma forward:
  assumes order: "program_order addrs init fin accs" and r: "(a, row) \<in> set accs"
  shows "message_time (access_prev a row) < message_time (access_cur a row)"
proof -
  have "access_prev a row \<in># (if a \<in> set addrs then {#fin a#} else {#}) + mset (map (access_prev a) (at_address a accs))" using r by simp
  then have "access_prev a row \<in># (if a \<in> set addrs then {#init a#} else {#}) + mset (map (access_cur a) (at_address a accs))"
    by (simp only: balance [OF order])
  then have "time_in_range (access_prev a row)" using order accepted_at [OF order] by (auto simp: program_order_def list_all_iff simp del: access_prev.simps access_cur.simps split: if_splits)
  then show ?thesis using accepted_at [OF order r] by (intro access_forward) simp_all
qed

lemma known_address:
  assumes order: "program_order addrs init fin accs" and "(a, row) \<in> set accs"
  shows "a \<in> set addrs"
proof (rule ccontr)
  assume "a \<notin> set addrs"
  then have "mset (at_address a accs) = {#}"
    using balance [OF order, of a] by (intro no_cycle [of _ message_time "access_prev a" "access_cur a"])
      (simp_all add: forward [OF order] del: access_prev.simps access_cur.simps)
  then have "\<not> row \<in> set (at_address a accs)" by simp
  then show False using assms(2) by simp
qed

lemma program_chain:
  assumes order: "program_order addrs init fin accs" and "a \<in> set addrs"
  shows "chain (access_prev a) (access_cur a) (init a) (at_address a accs) (fin a)"
proof -
  obtain es where es: "mset es = mset (at_address a accs)" "chain (access_prev a) (access_cur a) (init a) es (fin a)"
    using chain_exists [of "mset (at_address a accs)" message_time "access_prev a" "access_cur a" "init a" "fin a"] balance [OF order, of a] assms(2)
    by (auto simp: forward [OF order] simp del: access_prev.simps access_cur.simps)
  have set: "set es = set (at_address a accs)" using es(1) by (metis set_mset_mset)
  have "sorted_wrt (<) (message_time (init a) # map (message_time \<circ> access_cur a) es)"
    by (rule chain_sorted [OF es(2)]) (use set forward [OF order] in simp)
  then have "sorted_wrt (\<lambda>x y. message_time (access_cur a x) < message_time (access_cur a y)) es"
    by (simp add: sorted_wrt_map)
  moreover have "sorted_wrt (\<lambda>x y. message_time (access_cur a x) < message_time (access_cur a y)) (at_address a accs)"
    using order by (intro sorted_at_address) (simp add: program_order_def)
  ultimately have "es = at_address a accs" using es(1) by (rule sorted_key_unique)
  then show ?thesis using es(2) by simp
qed

lemma chain_split: "chain src dst a (xs @ e # ys) b \<Longrightarrow> src e = foldl (\<lambda>_ x. dst x) a xs"
  by (induction xs arbitrary: a) simp_all

lemma chain_end: "chain src dst a xs b \<Longrightarrow> b = foldl (\<lambda>_ x. dst x) a xs"
  by (induction xs arbitrary: a) simp_all

lemma last_message_at: "last_message init accs a = foldl (\<lambda>_ x. access_cur a x) (init a) (at_address a accs)"
proof -
  have "foldl (\<lambda>m p. if fst p = a then cur_message p else m) m accs = foldl (\<lambda>_ x. access_cur a x) m (at_address a accs)" for m
    by (induction accs arbitrary: m) (auto simp del: access_cur.simps)
  then show ?thesis by (simp add: last_message_def)
qed

lemma last_message_Nil [simp]: "last_message init [] a = init a"
  by (simp add: last_message_def)

lemma last_message_append: "last_message init (xs @ ys) a = last_message (last_message init xs) ys a"
  by (simp add: last_message_def)

lemma access_reads_last:
  assumes order: "program_order addrs init fin accs" and "accs = xs @ (a, row) # ys"
  shows "access_prev a row = last_message init xs a"
proof -
  have "a \<in> set addrs" by (rule known_address [OF order, of a row]) (simp add: assms(2))
  then show ?thesis
    using program_chain [OF order, of a] chain_split [of "access_prev a" "access_cur a" "init a" "at_address a xs" row "at_address a ys" "fin a"]
    by (simp add: assms(2) last_message_at)
qed

lemma final_message: "program_order addrs init fin accs \<Longrightarrow> a \<in> set addrs \<Longrightarrow> fin a = last_message init accs a"
  using chain_end [OF program_chain [of addrs init fin accs a]] by (simp add: last_message_at)

end
