(* ===== verification/Cpu_Trace.thy ===== *)
theory Cpu_Trace
  imports Cpu_Chip Memory_Order
begin

text \<open>
  What the constraints of the CPU chip say of an accepted trace: the real rows come first, they carry the shard of the
  public values, the program counters are handed from row to row, and the register accesses of a row are the reads of
  \<open>c\<close> and \<open>b\<close> followed by the access to \<open>a\<close>.
\<close>

section \<open>Constraints of a row\<close>

lemma accepted_send_program [simp]: "accepted (send_program pc i m)"
  by (simp add: send_program_def accepted_def air_lookup_new_def)

lemma cpu_row_accepted:
  assumes "cpu_accepted pv rows" "k < length rows"
  defines "r \<equiv> rows ! k" and "n \<equiv> rows ! (Suc k mod length rows)"
  shows "accepted (eval_registers r (row_clk r))"
    "accepted (when_cond (cp_is_real r) (assert_eq (cp_shard_to_send r) (if_else (cp_is_check_memory r) (cp_shard r) 0)))"
    "accepted (when_cond (cp_is_real r) (assert_eq (cp_clk_to_send r) (if_else (cp_is_check_memory r) (row_clk r) 0)))"
    "accepted (eval_shard_clk (from_bool (k = 0)) (from_bool (Suc k < length rows)) r n (row_clk r))"
    "accepted (eval_pc (from_bool (k = 0)) (from_bool (Suc k < length rows)) (from_bool (Suc k = length rows)) r n pv)"
    "accepted (eval_control_flags r)"
    "accepted (eval_is_real (from_bool (k = 0)) (from_bool (Suc k < length rows)) r n)"
    "accepted (when_cond (1 - cp_is_real r) (assert_zero (1 - ic_imm_b (cp_instruction r))))"
    "accepted (when_cond (1 - cp_is_real r) (assert_zero (1 - ic_imm_c (cp_instruction r))))"
proof -
  have acc: "accepted (cpu_row_ops pv rows k)" using assms(1,2) by (simp add: cpu_accepted_def list_all_iff)
  show "accepted (eval_registers r (row_clk r))"
    "accepted (when_cond (cp_is_real r) (assert_eq (cp_shard_to_send r) (if_else (cp_is_check_memory r) (cp_shard r) 0)))"
    "accepted (when_cond (cp_is_real r) (assert_eq (cp_clk_to_send r) (if_else (cp_is_check_memory r) (row_clk r) 0)))"
    "accepted (eval_shard_clk (from_bool (k = 0)) (from_bool (Suc k < length rows)) r n (row_clk r))"
    "accepted (eval_pc (from_bool (k = 0)) (from_bool (Suc k < length rows)) (from_bool (Suc k = length rows)) r n pv)"
    "accepted (eval_control_flags r)"
    "accepted (eval_is_real (from_bool (k = 0)) (from_bool (Suc k < length rows)) r n)"
    "accepted (when_cond (1 - cp_is_real r) (assert_zero (1 - ic_imm_b (cp_instruction r))))"
    "accepted (when_cond (1 - cp_is_real r) (assert_zero (1 - ic_imm_c (cp_instruction r))))"
    by (insert acc [unfolded cpu_row_ops_def cpu_eval_def Let_def accepted_append, folded r_def n_def], (elim conjE, assumption)+)
qed

section \<open>The real rows\<close>

definition real_count :: "koala cpu_cols list \<Rightarrow> nat" where
  "real_count rows = length (takeWhile (\<lambda>r. cp_is_real r = 1) rows)"

lemma real_count_le: "real_count rows \<le> length rows"
  by (simp add: real_count_def length_takeWhile_le)

lemma real_step:
  assumes "cpu_accepted pv rows" "k < length rows"
  shows "cp_is_real (rows ! k) = 0 \<or> cp_is_real (rows ! k) = 1" "k = 0 \<Longrightarrow> cp_is_real (rows ! k) = 1"
    "Suc k < length rows \<Longrightarrow> cp_is_real (rows ! k) = 0 \<Longrightarrow> cp_is_real (rows ! Suc k) = 0"
    "Suc k < length rows \<Longrightarrow> cp_is_halt (rows ! k) \<noteq> 0 \<Longrightarrow> cp_is_real (rows ! Suc k) = 0"
  using cpu_row_accepted(7) [OF assms] by (simp_all add: eval_is_real_def)

lemma real_iff:
  assumes "cpu_accepted pv rows" "k < length rows"
  shows "cp_is_real (rows ! k) = from_bool (k < real_count rows)"
proof (cases "k < real_count rows")
  case True
  then have "rows ! k \<in> set (takeWhile (\<lambda>r. cp_is_real r = 1) rows)"
    by (metis nth_mem real_count_def takeWhile_nth)
  then show ?thesis using True by (auto dest: set_takeWhileD)
next
  case False
  have "cp_is_real (rows ! k) = 0" if "real_count rows \<le> k" "k < length rows" for k
    using that
  proof (induction k rule: dec_induct)
    case base
    then show ?case using nth_length_takeWhile [of "\<lambda>r. cp_is_real r = 1" rows] real_step(1) [OF assms(1), of "real_count rows"]
      by (auto simp: real_count_def)
  next
    case (step k)
    then show ?case using real_step(3) [OF assms(1), of k] by simp
  qed
  then show ?thesis using False assms(2) by simp
qed

lemma real_count_pos: "cpu_accepted pv rows \<Longrightarrow> rows \<noteq> [] \<Longrightarrow> 0 < real_count rows"
  using real_step(2) [of pv rows 0] real_iff [of pv rows 0] by auto

lemma real_row:
  assumes "cpu_accepted pv rows" "k < real_count rows"
  shows "k < length rows" "cp_is_real (rows ! k) = 1"
  using assms real_count_le [of rows] real_iff [OF assms(1), of k] by auto

lemma cpu_times:
  assumes "cpu_accepted pv rows" "k < real_count rows"
  shows "cp_shard (rows ! k) = cv_execution_shard pv" "canon (cp_shard (rows ! k)) < 65536" "canon (row_clk (rows ! k)) < 2 ^ 24"
proof -
  note real = real_row [OF assms]
  note A = cpu_row_accepted(4) [OF assms(1) real(1), unfolded eval_shard_clk_def accepted_append real(2)]
  show "cp_shard (rows ! k) = cv_execution_shard pv"
    using cpu_row_accepted(5) [OF assms(1) real(1), unfolded eval_pc_def accepted_append] real(2) by simp
  show "canon (cp_shard (rows ! k)) < 65536" using A by (simp add: byte_table_u16)
  show "canon (row_clk (rows ! k)) < 2 ^ 24" by (rule range_check_24_sound) (use A in blast)
qed

lemma cpu_first:
  assumes "cpu_accepted pv rows" "rows \<noteq> []"
  shows "row_clk (rows ! 0) = 0" "cp_pc (rows ! 0) = cv_start_pc pv" "cp_is_halt (rows ! 0) = 0 \<Longrightarrow> cp_next_pc (rows ! 0) = cp_pc (rows ! 0) + 4"
proof -
  have "0 < length rows" using assms(2) by simp
  note A = cpu_row_accepted(4) [OF assms(1) this] cpu_row_accepted(5) [OF assms(1) this]
  show "row_clk (rows ! 0) = 0" "cp_pc (rows ! 0) = cv_start_pc pv" "cp_is_halt (rows ! 0) = 0 \<Longrightarrow> cp_next_pc (rows ! 0) = cp_pc (rows ! 0) + 4"
    using A by (auto simp: eval_shard_clk_def eval_pc_def from_canonical_u32_def)
qed

lemma cpu_next:
  assumes "cpu_accepted pv rows" "Suc k < real_count rows"
  shows "row_clk (rows ! Suc k) = row_clk (rows ! k) + 5 + cp_num_extra_cycles (rows ! k)" "cp_pc (rows ! Suc k) = cp_next_pc (rows ! k)"
    "cp_is_halt (rows ! Suc k) = 0 \<Longrightarrow> cp_next_pc (rows ! Suc k) = cp_next_next_pc (rows ! k)" "cp_is_halt (rows ! k) = 0"
proof -
  note real = real_row [OF assms]
  have k: "k < length rows" "Suc k mod length rows = Suc k" using real(1) by simp_all
  note A = cpu_row_accepted(4) [OF assms(1) k(1), unfolded k(2)] cpu_row_accepted(5) [OF assms(1) k(1), unfolded k(2)]
  show "row_clk (rows ! Suc k) = row_clk (rows ! k) + 5 + cp_num_extra_cycles (rows ! k)" "cp_pc (rows ! Suc k) = cp_next_pc (rows ! k)"
    "cp_is_halt (rows ! Suc k) = 0 \<Longrightarrow> cp_next_pc (rows ! Suc k) = cp_next_next_pc (rows ! k)"
    using A real by (auto simp: eval_shard_clk_def eval_pc_def from_canonical_u32_def)
  show "cp_is_halt (rows ! k) = 0" using real_step(4) [OF assms(1) k(1)] real by auto
qed

lemma cpu_final:
  assumes "cpu_accepted pv rows" "Suc k = real_count rows"
  shows "cp_next_pc (rows ! k) = cv_next_pc pv" "cp_is_sequential (rows ! k) + cp_is_halt (rows ! k) = 1"
proof -
  have k': "k < real_count rows" using assms(2) by simp
  note real = real_row [OF assms(1) k']
  note A = cpu_row_accepted(5) [OF assms(1) real(1), unfolded eval_pc_def accepted_append]
  have "cp_is_real (rows ! Suc k) = 0" if "Suc k < length rows" using real_iff [OF assms(1) that] assms(2) by simp
  then show "cp_next_pc (rows ! k) = cv_next_pc pv" "cp_is_sequential (rows ! k) + cp_is_halt (rows ! k) = 1"
    using A real by (cases "Suc k < length rows"; auto)+
qed

section \<open>Register accesses\<close>

definition row_accesses :: "koala cpu_cols \<Rightarrow> timed_access list" where
  "row_accesses r =
     (let i = cp_instruction r; shard = cp_shard r; clk = row_clk r in
      (if ic_imm_c i = 0 then [(ic_op_c i 0, (shard, clk + 1, memory_read_cols (cp_op_c_access r)))] else [])
      @ (if ic_imm_b i = 0 then [(ic_op_b i 0, (shard, clk + 2, memory_read_cols (cp_op_b_access r)))] else [])
      @ (if cp_is_real r = 1 then [(ic_op_a i, (shard, clk + 3, cp_op_a_access r))] else []))"

lemma position_offsets:
  "from_canonical_u32 (position_offset PosC) = (1 :: koala)" "from_canonical_u32 (position_offset PosB) = (2 :: koala)"
  "from_canonical_u32 (position_offset PosA) = (3 :: koala)"
  by (simp_all add: from_canonical_u32_def)

lemma access_check_bool:
  "accepted (eval_memory_access shard clk a cols do_check) \<Longrightarrow> do_check = 0 \<or> do_check = 1"
  by (simp add: eval_memory_access_def Let_def)

lemma access_off: "memory_sends (eval_memory_access shard clk a cols 0) = []" "memory_receives (eval_memory_access shard clk a cols 0) = []"
  by (simp_all add: eval_memory_access_def eval_memory_access_timestamp_def eval_range_check_24bits_def Let_def)

lemma cpu_registers:
  assumes "cpu_accepted pv rows" "k < length rows"
  defines "r \<equiv> rows ! k"
  defines "i \<equiv> cp_instruction r"
  shows "accepted (when_cond (ic_imm_b i) (assert_word_eq (op_b_val r) (ic_op_b i)))"
    "accepted (when_cond (ic_imm_c i) (assert_word_eq (op_c_val r) (ic_op_c i)))"
    "accepted (eval_memory_access (cp_shard r) (row_clk r + 2) (ic_op_b i 0) (memory_read_cols (cp_op_b_access r)) (1 - ic_imm_b i))"
    "accepted (eval_memory_access (cp_shard r) (row_clk r + 1) (ic_op_c i 0) (memory_read_cols (cp_op_c_access r)) (1 - ic_imm_c i))"
    "accepted (when_cond (ic_op_a_0 i) (assert_word_zero (op_a_val r)))"
    "accepted (when_not (ic_op_a_0 i) (assert_word_eq (cp_op_a_value r) (op_a_val r)))"
    "accepted (when_cond (ic_op_a_0 i * cp_op_a_immutable r) (assert_word_zero (cp_op_a_value r)))"
    "accepted (when_cond (cp_is_rw_a r) (assert_word_eq (cp_hi_or_prev_a r) (mrw_prev_value (cp_op_a_access r))))"
    "accepted (eval_memory_access (cp_shard r) (row_clk r + 3) (ic_op_a i) (cp_op_a_access r) (cp_is_real r))"
    "accepted (when_cond (cp_op_a_immutable r) (assert_word_eq (op_a_val r) (mrw_prev_value (cp_op_a_access r))))"
  by (insert cpu_row_accepted(1) [OF assms(1,2), folded r_def, unfolded eval_registers_def Let_def position_offsets accepted_append, folded i_def op_a_val_def],
      (elim conjE, assumption)+)

lemma imm_bool:
  assumes "cpu_accepted pv rows" "k < length rows"
  shows "ic_imm_b (cp_instruction (rows ! k)) = 0 \<or> ic_imm_b (cp_instruction (rows ! k)) = 1"
    "ic_imm_c (cp_instruction (rows ! k)) = 0 \<or> ic_imm_c (cp_instruction (rows ! k)) = 1"
  using access_check_bool [OF cpu_registers(3) [OF assms]] access_check_bool [OF cpu_registers(4) [OF assms]] by auto

lemma memory_silent_ops [simp]:
  "memory_sends (send_program pc i m) = []" "memory_receives (send_program pc i m) = []"
  "memory_sends (send_instruction v m) = []" "memory_receives (send_instruction v m) = []"
  "memory_sends (receive_instruction v m) = []" "memory_receives (receive_instruction v m) = []"
  "memory_sends (send_alu q a b c m) = []" "memory_receives (send_alu q a b c m) = []"
  "memory_sends (send_alu_with_hi q a b c hi m) = []" "memory_receives (send_alu_with_hi q a b c hi m) = []"
  "memory_sends (assert_word_eq l r) = []" "memory_receives (assert_word_eq l r) = []"
  "memory_sends (assert_word_zero l) = []" "memory_receives (assert_word_zero l) = []"
  "memory_sends (assert_one x) = []" "memory_receives (assert_one x) = []"
  "memory_sends (send_byte_pair q x1 x2 x3 x4 m) = []" "memory_receives (send_byte_pair q x1 x2 x3 x4 m) = []"
  by (simp_all add: send_program_def air_defs)

lemma access_on:
  "memory_sends (eval_memory_access shard clk a cols 1) = [access_prev a (shard, clk, cols)]"
  "memory_receives (eval_memory_access shard clk a cols 1) = [access_cur a (shard, clk, cols)]"
  using access_messages [of a "(shard, clk, cols)"] by simp_all

lemma cpu_row_memory:
  assumes "cpu_accepted pv rows" "k < length rows"
  shows "mset (memory_receives (cpu_row_ops pv rows k)) = mset (map cur_message (row_accesses (rows ! k)))"
    "mset (memory_sends (cpu_row_ops pv rows k)) = mset (map prev_message (row_accesses (rows ! k)))"
proof -
  note E = cpu_row_ops_def cpu_eval_def eval_registers_def eval_shard_clk_def eval_pc_def eval_control_flags_def eval_is_real_def
    eval_range_check_24bits_def Let_def row_accesses_def position_offsets
  note I = imm_bool [OF assms] real_step(1) [OF assms]
  show "mset (memory_receives (cpu_row_ops pv rows k)) = mset (map cur_message (row_accesses (rows ! k)))"
    unfolding E using I by (elim disjE) (simp_all add: access_on access_off del: access_cur.simps access_prev.simps)
  show "mset (memory_sends (cpu_row_ops pv rows k)) = mset (map prev_message (row_accesses (rows ! k)))"
    unfolding E using I by (elim disjE) (simp_all add: access_on access_off del: access_cur.simps access_prev.simps)
qed

lemma padding_accesses:
  assumes "cpu_accepted pv rows" "k < length rows" "\<not> k < real_count rows"
  shows "row_accesses (rows ! k) = []"
  using cpu_row_accepted(8,9) [OF assms(1,2)] real_iff [OF assms(1,2)] assms(3) by (auto simp: row_accesses_def Let_def)

end
