(* ===== verification/Register_File.thy ===== *)
theory Register_File
  imports Cpu_Trace
begin

text \<open>
  The registers as a map that the accepted rows of the CPU update: a row reads its operands from the values that the rows
  before it left and writes its result. The addresses of the registers on the memory bus are their indices.
\<close>

section \<open>Values at addresses\<close>

definition message_value :: "koala list \<Rightarrow> u32" where
  "message_value m = to_u32 (\<lambda>i. m ! (i + 3))"

definition regfile :: "(koala \<Rightarrow> koala list) \<Rightarrow> timed_access list \<Rightarrow> koala \<Rightarrow> u32" where
  "regfile init accs a = message_value (last_message init accs a)"

lemma message_value_limbs [simp]: "message_value ([s, t, a] @ limb_list w) = to_u32 w"
  by (simp add: message_value_def to_u32_def limb_number_def limb_list_def)

lemma message_value_access:
  "message_value (access_cur a (s, t, cols)) = to_u32 (ma_value (mrw_access cols))"
  "message_value (access_prev a (s, t, cols)) = to_u32 (mrw_prev_value cols)"
  by (simp_all only: access_cur.simps access_prev.simps message_value_limbs)

lemma regfile_access [simp]:
  "regfile init (accs @ [(a', (s, t, cols))]) = (regfile init accs)(a' := to_u32 (ma_value (mrw_access cols)))"
  by (rule ext) (simp add: regfile_def last_message_def message_value_access del: access_cur.simps)

lemma read_value:
  assumes "program_order addrs init fin accs" "accs = xs @ (a, (s, t, cols)) # ys"
  shows "to_u32 (mrw_prev_value cols) = regfile init xs a"
  using access_reads_last [OF assms] message_value_access(2) [of a s t cols] by (simp only: regfile_def)

section \<open>A row\<close>

abbreviation accesses_before :: "koala cpu_cols list \<Rightarrow> nat \<Rightarrow> timed_access list" where
  "accesses_before rows k \<equiv> concat (map row_accesses (take k rows))"

lemma accesses_split:
  assumes "k < K" "K \<le> length rows"
  shows "accesses_before rows K = accesses_before rows k @ row_accesses (rows ! k) @ concat (map row_accesses (drop (Suc k) (take K rows)))"
proof -
  have "take K rows = take k (take K rows) @ (take K rows) ! k # drop (Suc k) (take K rows)"
    using assms by (intro id_take_nth_drop) simp
  then have "take K rows = take k rows @ rows ! k # drop (Suc k) (take K rows)" using assms by (simp add: min_def)
  then show ?thesis by (metis concat.simps(2) concat_append list.simps(9) map_append append.assoc)
qed

lemma read_cols_prev [simp]: "mrw_prev_value (memory_read_cols c) = ma_value c" "mrw_access (memory_read_cols c) = c"
  by (simp_all add: memory_read_cols_def)

text \<open>Reading does not change the registers; the access to \<open>a\<close> comes last.\<close>

lemma row_reads:
  fixes rows :: "koala cpu_cols list"
  assumes order: "program_order addrs init fin (accesses_before rows K)" and k: "k < K" "K \<le> length rows" and real: "cp_is_real (rows ! k) = 1"
  defines "r \<equiv> rows ! k" and "\<sigma> \<equiv> regfile init (accesses_before rows k)"
  shows "ic_imm_c (cp_instruction r) = 0 \<Longrightarrow> to_u32 (op_c_val r) = \<sigma> (ic_op_c (cp_instruction r) 0)"
    "ic_imm_b (cp_instruction r) = 0 \<Longrightarrow> to_u32 (op_b_val r) = \<sigma> (ic_op_b (cp_instruction r) 0)"
    "to_u32 (mrw_prev_value (cp_op_a_access r)) = \<sigma> (ic_op_a (cp_instruction r))"
    "regfile init (accesses_before rows (Suc k)) = \<sigma>(ic_op_a (cp_instruction r) := to_u32 (op_a_val r))"
proof -
  let ?i = "cp_instruction r" and ?xs = "accesses_before rows k"
  define ys where "ys = concat (map row_accesses (drop (Suc k) (take K rows)))"
  define C where "C = (if ic_imm_c ?i = 0 then [(ic_op_c ?i 0, (cp_shard r, row_clk r + 1, memory_read_cols (cp_op_c_access r)))] else [])"
  define B where "B = (if ic_imm_b ?i = 0 then [(ic_op_b ?i 0, (cp_shard r, row_clk r + 2, memory_read_cols (cp_op_b_access r)))] else [])"
  define A where "A = (ic_op_a ?i, (cp_shard r, row_clk r + 3, cp_op_a_access r))"
  have row: "row_accesses r = C @ B @ [A]" using real by (simp add: row_accesses_def C_def B_def A_def r_def Let_def)
  have all: "accesses_before rows K = ?xs @ C @ B @ A # ys"
    using accesses_split [OF k] row by (simp add: ys_def r_def)
  show c: "to_u32 (op_c_val r) = \<sigma> (ic_op_c ?i 0)" if "ic_imm_c ?i = 0"
    using read_value [OF order, of ?xs "ic_op_c ?i 0" "cp_shard r" "row_clk r + 1" "memory_read_cols (cp_op_c_access r)" "B @ A # ys"] all that
    by (simp add: C_def op_c_val_def \<sigma>_def)
  have C: "regfile init (?xs @ C) = \<sigma>" using c by (simp add: C_def \<sigma>_def op_c_val_def)
  show b: "to_u32 (op_b_val r) = \<sigma> (ic_op_b ?i 0)" if "ic_imm_b ?i = 0"
    using read_value [OF order, of "?xs @ C" "ic_op_b ?i 0" "cp_shard r" "row_clk r + 2" "memory_read_cols (cp_op_b_access r)" "A # ys"] all that
    by (simp add: B_def op_b_val_def C)
  have B: "regfile init (?xs @ C @ B) = \<sigma>"
    using b regfile_access [of init "?xs @ C"] by (simp add: B_def C op_b_val_def)
  show "to_u32 (mrw_prev_value (cp_op_a_access r)) = \<sigma> (ic_op_a ?i)"
    using read_value [OF order, of "?xs @ C @ B" "ic_op_a ?i" "cp_shard r" "row_clk r + 3" "cp_op_a_access r" ys] all
    by (simp add: A_def B)
  have "accesses_before rows (Suc k) = (?xs @ C @ B) @ [A]" using k row by (simp add: take_Suc_conv_app_nth r_def)
  then show "regfile init (accesses_before rows (Suc k)) = \<sigma>(ic_op_a ?i := to_u32 (op_a_val r))"
    by (simp only: A_def regfile_access B op_a_val_def)
qed

section \<open>Order of the accesses\<close>

lemma canon_add:
  assumes "canon x + n < 2130706433"
  shows "canon (x + of_nat n) = canon x + n"
proof -
  have "x + of_nat n = of_nat (canon x + n)" by simp
  then show ?thesis using assms by (simp only: canon_of_nat)
qed

lemma row_access_bytes:
  assumes acc: "cpu_accepted pv rows" and k: "k < real_count rows"
  defines "r \<equiv> rows ! k"
  shows "list_all (\<lambda>(a, row). accepted (access_ops a row)) (row_accesses r)"
    "ic_imm_b (cp_instruction r) = 0 \<Longrightarrow> byte_word (op_b_val r)" "ic_imm_c (cp_instruction r) = 0 \<Longrightarrow> byte_word (op_c_val r)"
    "byte_word (op_a_val r)" "byte_word (mrw_prev_value (cp_op_a_access r))"
proof -
  note real = real_row [OF acc k, folded r_def]
  note R = cpu_registers [OF acc real(1), folded r_def] and I = imm_bool [OF acc real(1), folded r_def]
  show "list_all (\<lambda>(a, row). accepted (access_ops a row)) (row_accesses r)"
    using R(3,4,9) I real(2) by (auto simp: row_accesses_def Let_def)
  show "ic_imm_b (cp_instruction r) = 0 \<Longrightarrow> byte_word (op_b_val r)"
    using memory_access_sound [OF R(3)] by (simp add: op_b_val_def)
  show "ic_imm_c (cp_instruction r) = 0 \<Longrightarrow> byte_word (op_c_val r)"
    using memory_access_sound [OF R(4)] by (simp add: op_c_val_def)
  show "byte_word (op_a_val r)" "byte_word (mrw_prev_value (cp_op_a_access r))"
    using memory_access_sound [OF R(9)] real(2) by (simp_all add: op_a_val_def)
qed

lemma row_access_clk:
  "p \<in> set (row_accesses r) \<Longrightarrow> cur_message p ! 0 = cp_shard r \<and> cur_message p ! 1 \<in> {row_clk r + 1, row_clk r + 2, row_clk r + 3}"
  by (auto simp: row_accesses_def Let_def split: if_splits)

lemma row_times:
  assumes acc: "cpu_accepted pv rows" and k: "k < real_count rows" and p: "p \<in> set (row_accesses (rows ! k))"
  shows "time_in_range (cur_message p)"
    "\<exists>d\<in>{1, 2, 3}. message_time (cur_message p) = canon (cv_execution_shard pv) * 2 ^ 25 + (canon (row_clk (rows ! k)) + d)"
proof -
  let ?r = "rows ! k"
  note T = cpu_times [OF acc k]
  have c: "canon (row_clk ?r + 1) = canon (row_clk ?r) + 1" "canon (row_clk ?r + 2) = canon (row_clk ?r) + 2"
    "canon (row_clk ?r + 3) = canon (row_clk ?r) + 3"
    using canon_add [of "row_clk ?r" 1] canon_add [of "row_clk ?r" 2] canon_add [of "row_clk ?r" 3] T(3) by simp_all
  obtain d :: nat where d: "d \<in> {1, 2, 3}" "cur_message p ! 0 = cp_shard ?r" "canon (cur_message p ! 1) = canon (row_clk ?r) + d"
    using row_access_clk [OF p]
  proof (elim conjE insertE emptyE)
    assume "cur_message p ! 0 = cp_shard ?r" "cur_message p ! 1 = row_clk ?r + 1"
    then show ?thesis using c(1) by (intro that [of 1]) simp_all
  next
    assume "cur_message p ! 0 = cp_shard ?r" "cur_message p ! 1 = row_clk ?r + 2"
    then show ?thesis using c(2) by (intro that [of 2]) simp_all
  next
    assume "cur_message p ! 0 = cp_shard ?r" "cur_message p ! 1 = row_clk ?r + 3"
    then show ?thesis using c(3) by (intro that [of 3]) simp_all
  qed
  then show "time_in_range (cur_message p)" using T by (auto simp: time_in_range_def)
  show "\<exists>d\<in>{1, 2, 3}. message_time (cur_message p) = canon (cv_execution_shard pv) * 2 ^ 25 + (canon (row_clk ?r) + d)"
    using d T(1) by (intro bexI [of _ d]) (simp_all add: message_time_def)
qed

lemma row_accesses_sorted:
  assumes acc: "cpu_accepted pv rows" and k: "k < real_count rows"
  shows "sorted_wrt (\<lambda>p q. message_time (cur_message p) < message_time (cur_message q)) (row_accesses (rows ! k))"
proof -
  note T = cpu_times [OF acc k]
  have "canon (row_clk (rows ! k) + 1) = canon (row_clk (rows ! k)) + 1" "canon (row_clk (rows ! k) + 2) = canon (row_clk (rows ! k)) + 2"
    "canon (row_clk (rows ! k) + 3) = canon (row_clk (rows ! k)) + 3"
    using canon_add [of "row_clk (rows ! k)" 1] canon_add [of "row_clk (rows ! k)" 2] canon_add [of "row_clk (rows ! k)" 3] T(3) by simp_all
  then show ?thesis by (simp add: row_accesses_def Let_def message_time_def)
qed

text \<open>Without extra cycles the clock advances by five in every row.\<close>

lemma cpu_clock:
  assumes acc: "cpu_accepted pv rows" and extra: "\<And>j. j < k \<Longrightarrow> cp_num_extra_cycles (rows ! j) = 0" and "k < real_count rows"
  shows "canon (row_clk (rows ! k)) = 5 * k"
  using assms(2,3)
proof (induction k)
  case 0
  have "rows \<noteq> []" using 0 by (auto simp: real_count_def)
  then show ?case using cpu_first(1) [OF acc] by simp
next
  case (Suc k)
  have "canon (row_clk (rows ! k)) = 5 * k" using Suc by simp
  moreover have "canon (row_clk (rows ! k)) < 2 ^ 24" using cpu_times(3) [OF acc, of k] Suc.prems by simp
  ultimately show ?case using cpu_next(1) [OF acc Suc.prems(2)] canon_add [of "row_clk (rows ! k)" 5] Suc.prems(1) [of k] by simp
qed

lemma accesses_ordered:
  assumes acc: "cpu_accepted pv rows" and extra: "\<And>j. j < real_count rows \<Longrightarrow> cp_num_extra_cycles (rows ! j) = 0" and "K \<le> real_count rows"
  shows "sorted_wrt (\<lambda>p q. message_time (cur_message p) < message_time (cur_message q)) (accesses_before rows K) \<and>
    (\<forall>p\<in>set (accesses_before rows K). message_time (cur_message p) < canon (cv_execution_shard pv) * 2 ^ 25 + 5 * K)"
  using assms(3)
proof (induction K)
  case (Suc K)
  have K: "K < real_count rows" "K < length rows" using Suc.prems real_count_le [of rows] by simp_all
  have clk: "canon (row_clk (rows ! K)) = 5 * K" using K(1) by (intro cpu_clock [OF acc]) (simp_all add: extra)
  have row: "canon (cv_execution_shard pv) * 2 ^ 25 + 5 * K < message_time (cur_message p) \<and>
      message_time (cur_message p) < canon (cv_execution_shard pv) * 2 ^ 25 + 5 * Suc K" if "p \<in> set (row_accesses (rows ! K))" for p
    using row_times(2) [OF acc K(1) that] clk by auto
  have split: "accesses_before rows (Suc K) = accesses_before rows K @ row_accesses (rows ! K)"
    using K(2) by (simp add: take_Suc_conv_app_nth)
  have IH: "sorted_wrt (\<lambda>p q. message_time (cur_message p) < message_time (cur_message q)) (accesses_before rows K)"
    "\<forall>p\<in>set (accesses_before rows K). message_time (cur_message p) < canon (cv_execution_shard pv) * 2 ^ 25 + 5 * K"
    using Suc by simp_all
  show ?case unfolding split sorted_wrt_append set_append
  proof (intro conjI ballI)
    fix p q
    assume "p \<in> set (accesses_before rows K)" "q \<in> set (row_accesses (rows ! K))"
    then show "message_time (cur_message p) < message_time (cur_message q)" using IH(2) row [of q] less_trans by blast
  next
    fix p
    assume "p \<in> set (accesses_before rows K) \<union> set (row_accesses (rows ! K))"
    then show "message_time (cur_message p) < canon (cv_execution_shard pv) * 2 ^ 25 + 5 * Suc K"
      using bspec [OF IH(2), of p] row [of p] by (elim UnE) (simp_all del: cur_message.simps)
  qed (rule IH(1) row_accesses_sorted [OF acc K(1)])+
qed simp

end
