(* ===== verification/Branch_Chip.thy ===== *)
theory Branch_Chip
  imports Selectors
begin

text \<open>
  The chip for branches (\<^verbatim>\<open>crates/core/machine/src/control_flow/branch/\<close>). It compares the operands through two
  \<open>SLT\<close> messages, adds the offset through an \<open>ADD\<close> message when the branch is taken, and receives the
  instruction with the program counters it has justified.
\<close>

unbundle bit_operations_syntax

section \<open>The chip\<close>

record 'f branch_cols =
  bc_pc :: 'f
  bc_next_pc :: "'f limbs"
  bc_next_pc_range_checker :: "'f word_range_checker"
  bc_target_pc :: "'f limbs"
  bc_next_next_pc :: "'f limbs"
  bc_next_next_pc_range_checker :: "'f word_range_checker"
  bc_op_a_value :: "'f limbs"
  bc_op_b_value :: "'f limbs"
  bc_op_c_value :: "'f limbs"
  bc_is_beq :: 'f
  bc_is_bne :: 'f
  bc_is_bltz :: 'f
  bc_is_blez :: 'f
  bc_is_bgtz :: 'f
  bc_is_bgez :: 'f
  bc_is_branching :: 'f
  bc_a_gt_b :: 'f
  bc_a_lt_b :: 'f

text \<open>The comparison of a branch opcode; the generator panics for other opcodes, which no branch event has.\<close>

definition branch_compare :: "opcode \<Rightarrow> u32 \<Rightarrow> u32 \<Rightarrow> bool" where
  "branch_compare op a b =
     (let a_eq_b = (a = b); a_lt_b = (sint a < sint b); a_gt_b = (sint a > sint b) in
      if op = Op_BEQ then a_eq_b else if op = Op_BNE then \<not> a_eq_b
      else if op = Op_BLTZ then a_lt_b else if op = Op_BLEZ then a_lt_b \<or> a_eq_b
      else if op = Op_BGTZ then a_gt_b else a_eq_b \<or> a_gt_b)"

definition branch_event_to_row :: "branch_event \<Rightarrow> 'f::field branch_cols \<times> byte_lookup_event list" where
  "branch_event_to_row event =
     (let op = br_opcode event; a = br_a event; b = br_b event;
          branching = branch_compare op a b;
          target_pc = br_next_pc event + br_c event in
      (\<lparr>bc_pc = from_canonical_u32 (br_pc event), bc_next_pc = word_from (br_next_pc event),
        bc_next_pc_range_checker = word_range_populate (br_next_pc event), bc_target_pc = word_from target_pc,
        bc_next_next_pc = word_from (br_next_next_pc event),
        bc_next_next_pc_range_checker = word_range_populate (br_next_next_pc event),
        bc_op_a_value = word_from a, bc_op_b_value = word_from b, bc_op_c_value = word_from (br_c event),
        bc_is_beq = from_bool (op = Op_BEQ), bc_is_bne = from_bool (op = Op_BNE), bc_is_bltz = from_bool (op = Op_BLTZ),
        bc_is_blez = from_bool (op = Op_BLEZ), bc_is_bgtz = from_bool (op = Op_BGTZ), bc_is_bgez = from_bool (op = Op_BGEZ),
        bc_is_branching = from_bool branching,
        bc_a_gt_b = from_bool (sint a > sint b), bc_a_lt_b = from_bool (sint a < sint b)\<rparr>,
       if branching then []
       else add_u8_range_checks (le_bytes (br_next_pc event)) @ add_u8_range_checks (le_bytes (br_next_next_pc event))))"

definition branch_padding :: "'f::field branch_cols" where
  "branch_padding = \<lparr>bc_pc = 0, bc_next_pc = zero_word, bc_next_pc_range_checker = word_range_zero, bc_target_pc = zero_word,
     bc_next_next_pc = zero_word, bc_next_next_pc_range_checker = word_range_zero, bc_op_a_value = zero_word,
     bc_op_b_value = zero_word, bc_op_c_value = zero_word, bc_is_beq = 0, bc_is_bne = 0, bc_is_bltz = 0, bc_is_blez = 0,
     bc_is_bgtz = 0, bc_is_bgez = 0, bc_is_branching = 0, bc_a_gt_b = 0, bc_a_lt_b = 0\<rparr>"

definition branch_eval_pc :: "'f::field branch_cols \<Rightarrow> 'f \<Rightarrow> 'f air_op list" where
  "branch_eval_pc local is_real =
     word_range_check (bc_next_pc local) (bc_next_pc_range_checker local) is_real
     @ word_range_check (bc_next_next_pc local) (bc_next_next_pc_range_checker local) is_real
     @ send_alu (opcode_as_field Op_ADD) (bc_target_pc local) (bc_next_pc local) (bc_op_c_value local) (bc_is_branching local)
     @ when_cond is_real (when_not (bc_is_branching local)
         (assert_eq (word_reduce (bc_next_pc local) + from_canonical_u32 4) (word_reduce (bc_next_next_pc local))))
     @ slice_range_check_u8 (limb_list (bc_next_pc local)) (is_real - bc_is_branching local)
     @ slice_range_check_u8 (limb_list (bc_next_next_pc local)) (is_real - bc_is_branching local)
     @ when_cond is_real (when_cond (bc_is_branching local) (assert_word_eq (bc_target_pc local) (bc_next_next_pc local)))
     @ when_not is_real (assert_zero (bc_is_branching local))
     @ when_cond is_real (assert_bool (bc_is_branching local))"

definition branch_eval_condition :: "'f::field branch_cols \<Rightarrow> 'f air_op list" where
  "branch_eval_condition local =
     (let br = bc_is_branching local; gt = bc_a_gt_b local; lt = bc_a_lt_b local in
      when_cond (bc_is_beq local * br) (assert_zero (gt + lt))
      @ when_cond (bc_is_beq local) (when_not br (assert_one (gt + lt)))
      @ when_cond (bc_is_bne local * br) (assert_one (gt + lt))
      @ when_cond (bc_is_bne local) (when_not br (assert_zero (gt + lt)))
      @ when_cond (bc_is_bltz local * br) (assert_one lt)
      @ when_cond (bc_is_bltz local) (when_not br (assert_zero lt))
      @ when_cond (bc_is_blez local * br) (assert_zero gt)
      @ when_cond (bc_is_blez local) (when_not br (assert_one gt))
      @ when_cond (bc_is_bgtz local * br) (assert_one gt)
      @ when_cond (bc_is_bgtz local) (when_not br (assert_zero gt))
      @ when_cond (bc_is_bgez local * br) (assert_zero lt)
      @ when_cond (bc_is_bgez local) (when_not br (assert_one lt)))"

definition branch_eval :: "'f::field branch_cols \<Rightarrow> 'f air_op list" where
  "branch_eval local =
     (let is_real = bc_is_beq local + bc_is_bne local + bc_is_bltz local + bc_is_bgez local + bc_is_blez local + bc_is_bgtz local;
          opcode = bc_is_beq local * opcode_as_field Op_BEQ + bc_is_bne local * opcode_as_field Op_BNE
            + bc_is_bltz local * opcode_as_field Op_BLTZ + bc_is_bgez local * opcode_as_field Op_BGEZ
            + bc_is_blez local * opcode_as_field Op_BLEZ + bc_is_bgtz local * opcode_as_field Op_BGTZ in
      assert_bool (bc_is_beq local) @ assert_bool (bc_is_bne local) @ assert_bool (bc_is_bltz local)
      @ assert_bool (bc_is_bgez local) @ assert_bool (bc_is_blez local) @ assert_bool (bc_is_bgtz local)
      @ assert_bool is_real
      @ receive_instruction
          (instruction_values 0 0 (bc_pc local) (word_reduce (bc_next_pc local)) (word_reduce (bc_next_next_pc local)) 0 opcode
             (bc_op_a_value local) (bc_op_b_value local) (bc_op_c_value local) zero_word 1 0 0 0 0)
          is_real
      @ branch_eval_pc local is_real
      @ branch_eval_condition local
      @ send_alu (opcode_as_field Op_SLT) (mk_word (bc_a_lt_b local) 0 0 0) (bc_op_a_value local) (bc_op_b_value local) is_real
      @ send_alu (opcode_as_field Op_SLT) (mk_word (bc_a_gt_b local) 0 0 0) (bc_op_b_value local) (bc_op_a_value local) is_real)"

section \<open>What a branch message says\<close>

definition branch_ops :: "opcode set" where
  "branch_ops = {Op_BEQ, Op_BNE, Op_BLTZ, Op_BLEZ, Op_BGTZ, Op_BGEZ}"

lemma word_eq_sint: "a = b \<longleftrightarrow> \<not> sint a < sint b \<and> \<not> sint b < sint a" for a b :: u32
  by (metis linorder_neqE_linordered_idom signed_word_eqI order_less_irrefl)

lemma branch_compare_taken:
  "op \<in> branch_ops \<Longrightarrow> op \<in> {Op_BEQ, Op_BNE} \<or> b = 0 \<Longrightarrow> branch_taken op a b = Inr (branch_compare op a b)"
  unfolding branch_ops_def branch_taken_def branch_compare_def Let_def word_eq_sint
  by (elim insertE emptyE disjE; simp; linarith)

definition branch_message_valid :: "koala list \<Rightarrow> bool" where
  "branch_message_valid m \<longleftrightarrow>
     (\<exists>op\<in>branch_ops. message_opcode m = opcode_as_field op \<and> (list_all is_byte (message_a m) \<longrightarrow>
       (\<exists>a b c. message_a m = limb_list (word_from a) \<and> message_b m = limb_list (word_from b) \<and> message_c m = limb_list (word_from c) \<and>
          message_next_next_pc m = (if branch_compare op a b then from_canonical_u32 (field_word (message_next_pc m) + c)
            else message_next_pc m + 4) \<and>
          (branch_compare op a b \<longrightarrow> unat (field_word (message_next_pc m) + c) < 2130706433)))) \<and>
     message_extra_cycles m = 0 \<and> message_a_immutable m = 1 \<and> message_rw_a m = 0 \<and> message_check_memory m = 0 \<and>
     message_halt m = 0 \<and> message_sequential m = 0"

lemma branch_message_validD:
  assumes "branch_message_valid (instruction_values s k p n nn x (opcode_as_field op) a b c hi f1 f2 f3 f4 f5)" "byte_word a"
  shows "nn = (if branch_compare op (to_u32 a) (to_u32 b) then from_canonical_u32 (field_word n + to_u32 c) else n + 4)"
    "branch_compare op (to_u32 a) (to_u32 b) \<Longrightarrow> unat (field_word n + to_u32 c) < 2130706433"
proof -
  obtain A B C where "limb_list a = limb_list (word_from A)" "limb_list b = limb_list (word_from B)" "limb_list c = limb_list (word_from C)"
    and m: "nn = (if branch_compare op A B then from_canonical_u32 (field_word n + C) else n + 4)"
      "branch_compare op A B \<longrightarrow> unat (field_word n + C) < 2130706433"
    using assms unfolding branch_message_valid_def message_simps message_control opcode_as_field_inj byte_word_def by blast
  then have "A = to_u32 a" "B = to_u32 b" "C = to_u32 c" using to_u32_cong to_u32_word_from by metis+
  with m show "nn = (if branch_compare op (to_u32 a) (to_u32 b) then from_canonical_u32 (field_word n + to_u32 c) else n + 4)"
    "branch_compare op (to_u32 a) (to_u32 b) \<Longrightarrow> unat (field_word n + to_u32 c) < 2130706433" by simp_all
qed

section \<open>Soundness\<close>

lemma slt_flag:
  assumes "alu_message_valid (instruction_values s k p q r x (opcode_as_field Op_SLT) (mk_word f 0 0 0) b c hi f1 f2 f3 f4 f5)"
  shows "f = from_bool (sint (to_u32 b) < sint (to_u32 c))"
proof -
  note v = alu_message_validD [OF assms]
  have "to_u32 (mk_word f 0 0 0) = of_bool (sint (to_u32 b) < sint (to_u32 c))"
    using v(5) by (auto simp: alu_computes_def alu_op_def alu_result_def split: if_splits)
  then have "limb_list (word_from (of_bool (sint (to_u32 b) < sint (to_u32 c)))) = limb_list (mk_word f 0 0 0)"
    using limb_list_to_u32 [OF v(1)] by simp
  then show ?thesis by (auto simp: word_from_low limb_list_word_from_0 from_bool_def of_bool_def split: if_splits)
qed

lemma branch_condition:
  fixes br gt lt :: koala
  assumes "op \<in> branch_ops" and acc: "accepted (branch_eval_condition row)"
    and "bc_is_beq row = from_bool (op = Op_BEQ)" "bc_is_bne row = from_bool (op = Op_BNE)" "bc_is_bltz row = from_bool (op = Op_BLTZ)"
      "bc_is_blez row = from_bool (op = Op_BLEZ)" "bc_is_bgtz row = from_bool (op = Op_BGTZ)" "bc_is_bgez row = from_bool (op = Op_BGEZ)"
    and "bc_a_lt_b row = from_bool (sint a < sint b)" "bc_a_gt_b row = from_bool (sint b < sint a)"
    and "bc_is_branching row = 0 \<or> bc_is_branching row = 1"
  shows "bc_is_branching row = from_bool (branch_compare op a b)"
proof -
  show ?thesis
    using assms(1) acc assms(11) unfolding branch_eval_condition_def Let_def assms(3-10) branch_ops_def
    by (elim insertE emptyE) (auto simp: branch_compare_def Let_def word_eq_sint [of a b] from_bool_def split: if_splits)
qed

lemma branch_selected:
  assumes acc: "accepted (branch_eval row)" and m: "m \<in> set (instruction_receives (branch_eval row))"
  obtains op where "op \<in> branch_ops" "message_opcode m = opcode_as_field op"
    "bc_is_beq row = from_bool (op = Op_BEQ)" "bc_is_bne row = from_bool (op = Op_BNE)"
    "bc_is_bltz row = from_bool (op = Op_BLTZ)" "bc_is_blez row = from_bool (op = Op_BLEZ)" "bc_is_bgtz row = from_bool (op = Op_BGTZ)"
    "bc_is_bgez row = from_bool (op = Op_BGEZ)"
    "bc_is_beq row + bc_is_bne row + bc_is_bltz row + bc_is_bgez row + bc_is_blez row + bc_is_bgtz row = 1"
proof -
  define real where "real = bc_is_beq row + bc_is_bne row + bc_is_bltz row + bc_is_bgez row + bc_is_blez row + bc_is_bgtz row"
  note E = branch_eval_def [of row, unfolded Let_def, folded real_def]
  have flags: "accepted (assert_bool (bc_is_beq row))" "accepted (assert_bool (bc_is_bne row))" "accepted (assert_bool (bc_is_bltz row))"
      "accepted (assert_bool (bc_is_bgez row))" "accepted (assert_bool (bc_is_blez row))" "accepted (assert_bool (bc_is_bgtz row))"
      "accepted (assert_bool real)"
    by (insert acc [unfolded E accepted_append], (elim conjE, assumption)+)
  have "real \<noteq> 0" using m by (auto simp: E branch_eval_pc_def branch_eval_condition_def Let_def split: if_splits)
  then have real: "real = 1" using flags(7) by simp
  obtain op where op: "op \<in> branch_ops" "bc_is_beq row = from_bool (op = Op_BEQ)" "bc_is_bne row = from_bool (op = Op_BNE)"
      "bc_is_bltz row = from_bool (op = Op_BLTZ)" "bc_is_blez row = from_bool (op = Op_BLEZ)" "bc_is_bgtz row = from_bool (op = Op_BGTZ)"
      "bc_is_bgez row = from_bool (op = Op_BGEZ)"
  proof (rule selected_opcode [of "[(Op_BEQ, bc_is_beq row), (Op_BNE, bc_is_bne row), (Op_BLTZ, bc_is_bltz row), (Op_BGEZ, bc_is_bgez row),
        (Op_BLEZ, bc_is_blez row), (Op_BGTZ, bc_is_bgtz row)]"], goal_cases)
    case (5 op)
    then show ?case by (intro that [of op]) (auto simp: branch_ops_def)
  qed (use flags real in \<open>simp_all add: real_def add.assoc\<close>)
  have "message_opcode m = opcode_as_field op"
    using m op(1) by (auto simp: E branch_eval_pc_def branch_eval_condition_def Let_def op(2-7) branch_ops_def split: if_splits)
  then show ?thesis using that op real by (simp only: real_def)
qed

lemma branch_sound:
  assumes acc: "accepted (branch_eval row)"
    and sent: "list_all (\<lambda>s. operands_ok s \<longrightarrow> alu_message_valid s) (instruction_sends (branch_eval row))"
    and m: "m \<in> set (instruction_receives (branch_eval row))" and ok: "operands_ok m"
  shows "branch_message_valid m"
proof -
  define real where "real = bc_is_beq row + bc_is_bne row + bc_is_bltz row + bc_is_bgez row + bc_is_blez row + bc_is_bgtz row"
  define opc where "opc = bc_is_beq row * opcode_as_field Op_BEQ + bc_is_bne row * opcode_as_field Op_BNE
            + bc_is_bltz row * opcode_as_field Op_BLTZ + bc_is_bgez row * opcode_as_field Op_BGEZ
            + bc_is_blez row * opcode_as_field Op_BLEZ + bc_is_bgtz row * opcode_as_field Op_BGTZ"
  let ?a = "bc_op_a_value row" and ?b = "bc_op_b_value row" and ?c = "bc_op_c_value row" and ?n = "bc_next_pc row" and ?nn = "bc_next_next_pc row"
  let ?br = "bc_is_branching row"
  note E = branch_eval_def [of row, unfolded Let_def, folded real_def opc_def]
  have m_eq: "m = instruction_values 0 0 (bc_pc row) (word_reduce ?n) (word_reduce ?nn) 0 opc ?a ?b ?c zero_word 1 0 0 0 0"
    using m by (auto simp: E branch_eval_pc_def branch_eval_condition_def Let_def split: if_splits)
  obtain op where op: "op \<in> branch_ops" "bc_is_beq row = from_bool (op = Op_BEQ)" "bc_is_bne row = from_bool (op = Op_BNE)"
      "bc_is_bltz row = from_bool (op = Op_BLTZ)" "bc_is_blez row = from_bool (op = Op_BLEZ)" "bc_is_bgtz row = from_bool (op = Op_BGTZ)"
      "bc_is_bgez row = from_bool (op = Op_BGEZ)" and opc: "opc = opcode_as_field op" and real: "real = 1"
    using branch_selected [OF acc m] by (auto simp: m_eq real_def)
  note acc = acc [unfolded E branch_eval_pc_def accepted_append]
  have rng: "accepted (word_range_check ?n (bc_next_pc_range_checker row) real)" "accepted (word_range_check ?nn (bc_next_next_pc_range_checker row) real)"
    and fall: "accepted (when_cond real (when_not ?br (assert_eq (word_reduce ?n + from_canonical_u32 4) (word_reduce ?nn))))"
    and bytes: "accepted (slice_range_check_u8 (limb_list ?n) (real - ?br))" "accepted (slice_range_check_u8 (limb_list ?nn) (real - ?br))"
    and target: "accepted (when_cond real (when_cond ?br (assert_word_eq (bc_target_pc row) ?nn)))"
    and br: "accepted (when_cond real (assert_bool ?br))"
    and cond: "accepted (branch_eval_condition row)"
    by (insert acc, (elim conjE, assumption)+)
  have br01: "?br = 0 \<or> ?br = 1" using br real by simp
  have bc: "byte_word ?b" "byte_word ?c" using ok op(1) unfolding m_eq opc operands_ok_iff
    by (auto simp: branch_ops_def byte_word_def limb_list_def)
  have sends: "alu_message_valid s" if "s \<in> set (instruction_sends (branch_eval row))" "operands_ok s" for s
    using sent that by (simp add: list_all_iff)
  show ?thesis
  proof (cases "byte_word ?a")
    case False
    then show ?thesis using op(1) opc by (auto simp: branch_message_valid_def m_eq byte_word_def)
  next
    case True
    have lt: "bc_a_lt_b row = from_bool (sint (to_u32 ?a) < sint (to_u32 ?b))"
      by (rule slt_flag, rule sends) (auto simp: E real operands_ok_iff True bc byte_word_nth)
    have gt: "bc_a_gt_b row = from_bool (sint (to_u32 ?b) < sint (to_u32 ?a))"
      by (rule slt_flag, rule sends) (auto simp: E real operands_ok_iff True bc byte_word_nth)
    have taken: "?br = from_bool (branch_compare op (to_u32 ?a) (to_u32 ?b))"
      by (rule branch_condition [OF op(1) cond op(2-7) lt gt br01])
    have pcs: "word_reduce ?nn = (if branch_compare op (to_u32 ?a) (to_u32 ?b) then from_canonical_u32 (field_word (word_reduce ?n) + to_u32 ?c)
            else word_reduce ?n + 4) \<and> (branch_compare op (to_u32 ?a) (to_u32 ?b) \<longrightarrow> unat (field_word (word_reduce ?n) + to_u32 ?c) < 2130706433)"
    proof (cases "branch_compare op (to_u32 ?a) (to_u32 ?b)")
      case False
      then show ?thesis using fall taken real by (simp add: from_canonical_u32_def)
    next
      case compare: True
      then have one: "?br = 1" using taken by simp
      have "alu_message_valid (instruction_values 0 0 (from_canonical_u32 BUILDER_UNUSED_PC) (from_canonical_u32 (BUILDER_UNUSED_PC + BUILDER_DEFAULT_PC_INC))
          (from_canonical_u32 (BUILDER_UNUSED_PC + BUILDER_DEFAULT_PC_INC + BUILDER_DEFAULT_PC_INC)) 0 (opcode_as_field Op_ADD)
          (bc_target_pc row) ?n ?c zero_word 0 0 0 0 1)"
        by (rule sends) (auto simp: E branch_eval_pc_def one operands_ok_iff)
      note v = alu_message_validD [OF this]
      have eq: "limb_list (bc_target_pc row) = limb_list ?nn" using target real one by (simp add: limb_list_def)
      have nn: "byte_word ?nn" "to_u32 ?nn = to_u32 ?n + to_u32 ?c"
        using v eq limb_list_eqD [OF eq] by (auto simp: byte_word_def to_u32_def limb_number_def alu_computes_def alu_op_def alu_result_def)
      have small: "limb_number ?n < 2130706433" "limb_number ?nn < 2130706433"
        using rng real nn(1) v(2) by (auto intro: word_range_sound)
      have "field_word (word_reduce ?n) + to_u32 ?c = to_u32 ?nn" using small v(2) nn by (simp add: field_word_reduce)
      then show ?thesis using compare small nn(1) by (simp add: unat_to_u32 from_canonical_u32_def word_reduce_number del: of_nat_unat)
    qed
    have "\<exists>a b c. message_a m = limb_list (word_from a) \<and> message_b m = limb_list (word_from b) \<and> message_c m = limb_list (word_from c) \<and>
          message_next_next_pc m = (if branch_compare op a b then from_canonical_u32 (field_word (message_next_pc m) + c)
            else message_next_pc m + 4) \<and>
          (branch_compare op a b \<longrightarrow> unat (field_word (message_next_pc m) + c) < 2130706433)"
      by (rule exI [of _ "to_u32 ?a"], rule exI [of _ "to_u32 ?b"], rule exI [of _ "to_u32 ?c"])
        (use pcs in \<open>simp add: m_eq opc True bc limb_list_to_u32\<close>)
    then show ?thesis unfolding branch_message_valid_def
      by (intro conjI impI bexI [OF _ op(1)]) (assumption | (simp add: m_eq opc; fail))+
  qed
qed

section \<open>Completeness\<close>

definition valid_branch_event :: "branch_event \<Rightarrow> bool" where
  "valid_branch_event e \<longleftrightarrow> br_opcode e \<in> branch_ops \<and>
     br_next_next_pc e = (if branch_compare (br_opcode e) (br_a e) (br_b e) then br_next_pc e + br_c e else br_next_pc e + 4) \<and>
     unat (br_next_pc e) < 2130706433 \<and> unat (br_next_next_pc e) < 2130706433"

definition branch_message :: "branch_event \<Rightarrow> koala list" where
  "branch_message e =
     instruction_values 0 0 (from_canonical_u32 (br_pc e)) (from_canonical_u32 (br_next_pc e)) (from_canonical_u32 (br_next_next_pc e)) 0
       (opcode_as_field (br_opcode e)) (word_from (br_a e)) (word_from (br_b e)) (word_from (br_c e)) zero_word 1 0 0 0 0"

lemma branch_step_messages:
  assumes "br_opcode e \<in> branch_ops"
  shows "step_messages (emit_branch_dependencies e) =
    {#alu_event_message (dep_event Op_SLT (of_bool (sint (br_a e) < sint (br_b e))) (br_a e) (br_b e)),
      alu_event_message (dep_event Op_SLT (of_bool (sint (br_a e) > sint (br_b e))) (br_b e) (br_a e))#}
    + (if branch_compare (br_opcode e) (br_a e) (br_b e)
       then {#alu_event_message (dep_event Op_ADD (br_next_next_pc e) (br_next_pc e) (br_c e))#} else {#})"
  using assms unfolding branch_ops_def step_messages_def emit_branch_dependencies_def Let_def branch_compare_def
  by (elim insertE emptyE) simp_all

lemma branch_condition_complete:
  assumes "op \<in> branch_ops" "bc_is_beq row = from_bool (op = Op_BEQ)" "bc_is_bne row = from_bool (op = Op_BNE)"
    "bc_is_bltz row = from_bool (op = Op_BLTZ)" "bc_is_blez row = from_bool (op = Op_BLEZ)" "bc_is_bgtz row = from_bool (op = Op_BGTZ)"
    "bc_is_bgez row = from_bool (op = Op_BGEZ)" "bc_is_branching row = from_bool (branch_compare op a b)"
    "bc_a_lt_b row = from_bool (sint a < sint b)" "bc_a_gt_b row = (from_bool (sint b < sint a) :: koala)"
  shows "accepted (branch_eval_condition row)"
  using assms(1) unfolding branch_eval_condition_def Let_def assms(2-10) branch_ops_def
  by (elim insertE emptyE) (auto simp: branch_compare_def Let_def word_eq_sint [of a b] from_bool_def)

lemma branch_complete:
  fixes row :: "koala branch_cols"
  assumes valid: "valid_branch_event e" and row: "branch_event_to_row e = (row, blu)"
  shows "accepted (branch_eval row)" "instruction_receives (branch_eval row) = [branch_message e]"
    "mset (instruction_sends (branch_eval row)) = step_messages (emit_branch_dependencies e)"
    "byte_sends (branch_eval row) = map byte_event_values blu"
proof -
  let ?t = "branch_compare (br_opcode e) (br_a e) (br_b e)" and ?op = "br_opcode e"
  have op: "?op \<in> branch_ops" and small: "unat (br_next_pc e) < 2130706433" "unat (br_next_next_pc e) < 2130706433"
    and nn: "br_next_next_pc e = (if ?t then br_next_pc e + br_c e else br_next_pc e + 4)"
    by (insert valid [unfolded valid_branch_event_def], (elim conjE, assumption)+)
  note R = row [unfolded branch_event_to_row_def Let_def prod.inject]
  have real: "(from_bool (?op = Op_BEQ) + from_bool (?op = Op_BNE) + from_bool (?op = Op_BLTZ) + from_bool (?op = Op_BGEZ)
      + from_bool (?op = Op_BLEZ) + from_bool (?op = Op_BGTZ) :: koala) = 1"
    and opc: "from_bool (?op = Op_BEQ) * opcode_as_field Op_BEQ + from_bool (?op = Op_BNE) * opcode_as_field Op_BNE
            + from_bool (?op = Op_BLTZ) * opcode_as_field Op_BLTZ + from_bool (?op = Op_BGEZ) * opcode_as_field Op_BGEZ
            + from_bool (?op = Op_BLEZ) * opcode_as_field Op_BLEZ + from_bool (?op = Op_BGTZ) * opcode_as_field Op_BGTZ = (opcode_as_field ?op :: koala)"
    using op by (auto simp: branch_ops_def)
  have fall: "\<not> ?t \<Longrightarrow> from_canonical_u32 (br_next_pc e) + from_canonical_u32 4 = (from_canonical_u32 (br_next_next_pc e) :: koala)"
    using from_u32_add_4 [OF small(1)] small(2) nn by (simp add: from_canonical_u32_def)
  have cond: "accepted (branch_eval_condition row)"
    by (rule branch_condition_complete [OF op, of _ "br_a e" "br_b e"]) (simp_all add: conjunct1 [OF R, symmetric])
  have pc: "accepted (branch_eval_pc row 1)"
    unfolding branch_eval_pc_def conjunct1 [OF R, symmetric] branch_cols.simps accepted_append
    by (intro conjI; ((rule word_range_complete, rule small) | (simp add: byte_word_from [unfolded byte_word_def] from_bool_cases fall nn; fail)
      | (use fall nn in \<open>auto simp: from_bool_def\<close>; fail)))
  note E = branch_eval_def Let_def
  show "accepted (branch_eval row)"
    using cond pc unfolding E by (simp add: conjunct1 [OF R, symmetric] real from_bool_cases)
  show "instruction_receives (branch_eval row) = [branch_message e]"
    unfolding E branch_eval_pc_def branch_eval_condition_def branch_message_def by (simp add: conjunct1 [OF R, symmetric] real opc)
  show "mset (instruction_sends (branch_eval row)) = step_messages (emit_branch_dependencies e)"
    using nn unfolding E branch_eval_pc_def branch_eval_condition_def branch_step_messages [OF op]
    by (simp add: conjunct1 [OF R, symmetric] real send_alu_words send_alu_flag del: send_alu_sends)
  show "byte_sends (branch_eval row) = map byte_event_values blu"
    unfolding E branch_eval_pc_def branch_eval_condition_def
    by (simp add: conjunct1 [OF R, symmetric] conjunct2 [OF R, symmetric] real byte_sends_range_checks flip: map_le_bytes)
qed

interpretation branch_chip: instruction_chip branch_eval branch_event_to_row branch_padding valid_branch_event branch_message
    "\<lambda>e. step_messages (emit_branch_dependencies e)" branch_message_valid
proof
  show "accepted (branch_eval branch_padding)" "instruction_receives (branch_eval branch_padding) = []"
    "instruction_sends (branch_eval branch_padding) = []" "byte_sends (branch_eval branch_padding) = []"
    by (simp_all add: branch_eval_def branch_eval_pc_def branch_eval_condition_def branch_padding_def Let_def)
qed (erule (3) branch_sound, simp add: branch_complete [OF _ surjective_pairing])

end
