(* ===== verification/Jump_Chip.thy ===== *)
theory Jump_Chip
  imports Selectors
begin

text \<open>
  The chip for jumps (\<^verbatim>\<open>crates/core/machine/src/control_flow/jump/\<close>): the link is the address after the delay
  slot, the target is the operand or, for \<open>JumpDirect\<close>, the sum that an \<open>ADD\<close> message justifies.
\<close>

section \<open>The chip\<close>

record 'f jump_cols =
  jc_pc :: 'f
  jc_next_pc :: "'f limbs"
  jc_next_pc_range_checker :: "'f word_range_checker"
  jc_next_next_pc :: "'f limbs"
  jc_next_next_pc_range_checker :: "'f word_range_checker"
  jc_op_a_value :: "'f limbs"
  jc_op_b_value :: "'f limbs"
  jc_op_c_value :: "'f limbs"
  jc_is_jump :: 'f
  jc_is_jumpi :: 'f
  jc_is_jumpdirect :: 'f
  jc_op_a_range_checker :: "'f word_range_checker"

definition jump_event_to_row :: "jump_event \<Rightarrow> 'f::field jump_cols \<times> byte_lookup_event list" where
  "jump_event_to_row event =
     (\<lparr>jc_pc = from_canonical_u32 (jmp_pc event), jc_next_pc = word_from (jmp_next_pc event),
       jc_next_pc_range_checker = word_range_populate (jmp_next_pc event), jc_next_next_pc = word_from (jmp_next_next_pc event),
       jc_next_next_pc_range_checker = word_range_populate (jmp_next_next_pc event),
       jc_op_a_value = word_from (jmp_a event), jc_op_b_value = word_from (jmp_b event), jc_op_c_value = word_from (jmp_c event),
       jc_is_jump = from_bool (jmp_opcode event = Op_Jump), jc_is_jumpi = from_bool (jmp_opcode event = Op_Jumpi),
       jc_is_jumpdirect = from_bool (jmp_opcode event = Op_JumpDirect),
       jc_op_a_range_checker = word_range_populate (jmp_a event)\<rparr>, [])"

definition jump_padding :: "'f::field jump_cols" where
  "jump_padding = \<lparr>jc_pc = 0, jc_next_pc = zero_word, jc_next_pc_range_checker = word_range_zero, jc_next_next_pc = zero_word,
     jc_next_next_pc_range_checker = word_range_zero, jc_op_a_value = zero_word, jc_op_b_value = zero_word, jc_op_c_value = zero_word,
     jc_is_jump = 0, jc_is_jumpi = 0, jc_is_jumpdirect = 0, jc_op_a_range_checker = word_range_zero\<rparr>"

definition jump_eval :: "'f::field jump_cols \<Rightarrow> 'f air_op list" where
  "jump_eval local =
     (let is_real = jc_is_jump local + jc_is_jumpi local + jc_is_jumpdirect local;
          opcode = jc_is_jump local * opcode_as_field Op_Jump + jc_is_jumpi local * opcode_as_field Op_Jumpi
            + jc_is_jumpdirect local * opcode_as_field Op_JumpDirect in
      assert_bool (jc_is_jump local) @ assert_bool (jc_is_jumpi local) @ assert_bool (jc_is_jumpdirect local)
      @ assert_bool is_real
      @ receive_instruction
          (instruction_values 0 0 (jc_pc local) (word_reduce (jc_next_pc local)) (word_reduce (jc_next_next_pc local)) 0 opcode
             (jc_op_a_value local) (jc_op_b_value local) (jc_op_c_value local) zero_word 0 0 0 0 0)
          is_real
      @ when_cond is_real (assert_eq (word_reduce (jc_op_a_value local)) (word_reduce (jc_next_pc local) + from_canonical_u32 4))
      @ word_range_check (jc_op_a_value local) (jc_op_a_range_checker local) is_real
      @ word_range_check (jc_next_pc local) (jc_next_pc_range_checker local) is_real
      @ word_range_check (jc_next_next_pc local) (jc_next_next_pc_range_checker local) is_real
      @ when_cond (jc_is_jump local + jc_is_jumpi local) (assert_word_eq (jc_next_next_pc local) (jc_op_b_value local))
      @ send_alu (opcode_as_field Op_ADD) (jc_next_next_pc local) (jc_next_pc local) (jc_op_b_value local) (jc_is_jumpdirect local))"

section \<open>What a jump message says\<close>

definition jump_ops :: "opcode set" where
  "jump_ops = {Op_Jump, Op_Jumpi, Op_JumpDirect}"

definition jump_target :: "opcode \<Rightarrow> u32 \<Rightarrow> u32 \<Rightarrow> u32" where
  "jump_target op next_pc b = (if op = Op_JumpDirect then next_pc + b else b)"

text \<open>The link is only known to be a word when the CPU checks that it is one, which it does unless the result is discarded.\<close>

definition jump_message_valid :: "koala list \<Rightarrow> bool" where
  "jump_message_valid m \<longleftrightarrow>
     (\<exists>op\<in>jump_ops. \<exists>b. message_opcode m = opcode_as_field op \<and> message_b m = limb_list (word_from b) \<and>
        message_next_next_pc m = from_canonical_u32 (jump_target op (field_word (message_next_pc m)) b) \<and>
        unat (jump_target op (field_word (message_next_pc m)) b) < 2130706433) \<and>
     (list_all is_byte (message_a m) \<longrightarrow> message_a m = limb_list (word_from (field_word (message_next_pc m + 4)))) \<and>
     message_extra_cycles m = 0 \<and> message_a_immutable m = 0 \<and> message_rw_a m = 0 \<and> message_check_memory m = 0 \<and>
     message_halt m = 0 \<and> message_sequential m = 0"

lemma jump_message_validD:
  assumes "jump_message_valid (instruction_values s k p n nn x (opcode_as_field op) a b c hi f1 f2 f3 f4 f5)"
  shows "nn = from_canonical_u32 (jump_target op (field_word n) (to_u32 b))" "unat (jump_target op (field_word n) (to_u32 b)) < 2130706433"
    "byte_word a \<Longrightarrow> to_u32 a = field_word (n + 4)"
proof -
  obtain B where "limb_list b = limb_list (word_from B)" and m: "nn = from_canonical_u32 (jump_target op (field_word n) B)"
      "unat (jump_target op (field_word n) B) < 2130706433"
    using assms unfolding jump_message_valid_def message_simps message_control opcode_as_field_inj by blast
  then have "B = to_u32 b" using to_u32_cong to_u32_word_from by metis
  with m show "nn = from_canonical_u32 (jump_target op (field_word n) (to_u32 b))" "unat (jump_target op (field_word n) (to_u32 b)) < 2130706433"
    by simp_all
  show "to_u32 a = field_word (n + 4)" if "byte_word a"
    using assms that to_u32_cong [of a "word_from (field_word (n + 4))"] by (simp add: jump_message_valid_def byte_word_def)
qed

section \<open>Soundness\<close>

lemma reduced_word:
  assumes "byte_word w" "limb_number w < 2130706433"
  shows "word_reduce w = from_canonical_u32 (to_u32 w)" "limb_list (word_from (field_word (word_reduce w))) = limb_list w"
proof -
  show "word_reduce w = from_canonical_u32 (to_u32 w)"
    using assms(1) by (simp add: word_reduce_number from_canonical_u32_def unat_to_u32 del: of_nat_unat)
  show "limb_list (word_from (field_word (word_reduce w))) = limb_list w"
    using assms by (simp add: field_word_reduce limb_list_to_u32)
qed

lemma jump_selected:
  assumes acc: "accepted (jump_eval row)" and m: "m \<in> set (instruction_receives (jump_eval row))"
  obtains op where "op \<in> jump_ops" "message_opcode m = opcode_as_field op" "jc_is_jump row = from_bool (op = Op_Jump)"
    "jc_is_jumpi row = from_bool (op = Op_Jumpi)" "jc_is_jumpdirect row = from_bool (op = Op_JumpDirect)"
    "jc_is_jump row + jc_is_jumpi row + jc_is_jumpdirect row = 1"
proof -
  define real where "real = jc_is_jump row + jc_is_jumpi row + jc_is_jumpdirect row"
  note E = jump_eval_def [of row, unfolded Let_def, folded real_def]
  have flags: "accepted (assert_bool (jc_is_jump row))" "accepted (assert_bool (jc_is_jumpi row))" "accepted (assert_bool (jc_is_jumpdirect row))"
      "accepted (assert_bool real)"
    by (insert acc [unfolded E accepted_append], (elim conjE, assumption)+)
  have "real \<noteq> 0" using m by (auto simp: E split: if_splits)
  then have real: "real = 1" using flags(4) by simp
  obtain op where op: "op \<in> jump_ops" "jc_is_jump row = from_bool (op = Op_Jump)" "jc_is_jumpi row = from_bool (op = Op_Jumpi)"
      "jc_is_jumpdirect row = from_bool (op = Op_JumpDirect)"
  proof (rule selected_opcode [of "[(Op_Jump, jc_is_jump row), (Op_Jumpi, jc_is_jumpi row), (Op_JumpDirect, jc_is_jumpdirect row)]"], goal_cases)
    case (5 op)
    then show ?case by (intro that [of op]) (auto simp: jump_ops_def)
  qed (use flags real in \<open>simp_all add: real_def add.assoc\<close>)
  have "message_opcode m = opcode_as_field op" using m op(1) by (auto simp: E op(2-4) jump_ops_def split: if_splits)
  then show ?thesis using that op real by (simp only: real_def)
qed

lemma jump_sound:
  assumes acc: "accepted (jump_eval row)"
    and sent: "list_all (\<lambda>s. operands_ok s \<longrightarrow> alu_message_valid s) (instruction_sends (jump_eval row))"
    and m: "m \<in> set (instruction_receives (jump_eval row))" and ok: "operands_ok m"
  shows "jump_message_valid m"
proof -
  define real where "real = jc_is_jump row + jc_is_jumpi row + jc_is_jumpdirect row"
  define opc where "opc = jc_is_jump row * opcode_as_field Op_Jump + jc_is_jumpi row * opcode_as_field Op_Jumpi
            + jc_is_jumpdirect row * opcode_as_field Op_JumpDirect"
  let ?a = "jc_op_a_value row" and ?b = "jc_op_b_value row" and ?n = "jc_next_pc row" and ?nn = "jc_next_next_pc row"
  note E = jump_eval_def [of row, unfolded Let_def, folded real_def opc_def]
  have m_eq: "m = instruction_values 0 0 (jc_pc row) (word_reduce ?n) (word_reduce ?nn) 0 opc ?a ?b (jc_op_c_value row) zero_word 0 0 0 0 0"
    using m by (auto simp: E split: if_splits)
  obtain op where op: "op \<in> jump_ops" "jc_is_jump row = from_bool (op = Op_Jump)" "jc_is_jumpi row = from_bool (op = Op_Jumpi)"
      "jc_is_jumpdirect row = from_bool (op = Op_JumpDirect)" and opc: "opc = opcode_as_field op" and real: "real = 1"
    using jump_selected [OF acc m] by (auto simp: m_eq real_def)
  note acc = acc [unfolded E accepted_append]
  have link: "accepted (when_cond real (assert_eq (word_reduce ?a) (word_reduce ?n + from_canonical_u32 4)))"
    and rng: "accepted (word_range_check ?a (jc_op_a_range_checker row) real)" "accepted (word_range_check ?n (jc_next_pc_range_checker row) real)"
      "accepted (word_range_check ?nn (jc_next_next_pc_range_checker row) real)"
    and target: "accepted (when_cond (jc_is_jump row + jc_is_jumpi row) (assert_word_eq ?nn ?b))"
    by (insert acc, (elim conjE, assumption)+)
  have b: "byte_word ?b" using ok op(1) unfolding m_eq opc operands_ok_iff by (auto simp: jump_ops_def)
  have nn: "byte_word ?nn \<and> to_u32 ?nn = jump_target op (field_word (word_reduce ?n)) (to_u32 ?b)"
  proof (cases "op = Op_JumpDirect")
    case True
    have "alu_message_valid (instruction_values 0 0 (from_canonical_u32 BUILDER_UNUSED_PC) (from_canonical_u32 (BUILDER_UNUSED_PC + BUILDER_DEFAULT_PC_INC))
        (from_canonical_u32 (BUILDER_UNUSED_PC + BUILDER_DEFAULT_PC_INC + BUILDER_DEFAULT_PC_INC)) 0 (opcode_as_field Op_ADD) ?nn ?n ?b zero_word 0 0 0 0 1)"
      using sent op(4) True by (auto simp: E list_all_iff operands_ok_iff split: if_splits)
    note v = alu_message_validD [OF this]
    have "limb_number ?n < 2130706433" using rng(2) real v(2) by (auto intro: word_range_sound)
    then show ?thesis using v True by (simp add: jump_target_def field_word_reduce alu_computes_def alu_op_def alu_result_def)
  next
    case False
    then have eq: "limb_list ?nn = limb_list ?b" using target op by (auto simp: jump_ops_def limb_list_def)
    then show ?thesis using b False limb_list_eqD [OF eq] by (simp add: byte_word_def jump_target_def to_u32_def limb_number_def)
  qed
  then have small: "limb_number ?nn < 2130706433" using rng(3) real by (auto intro: word_range_sound)
  have "\<exists>op\<in>jump_ops. \<exists>b. message_opcode m = opcode_as_field op \<and> message_b m = limb_list (word_from b) \<and>
        message_next_next_pc m = from_canonical_u32 (jump_target op (field_word (message_next_pc m)) b) \<and>
        unat (jump_target op (field_word (message_next_pc m)) b) < 2130706433"
    by (rule bexI [OF _ op(1)], rule exI [of _ "to_u32 ?b"])
      (use nn small in \<open>simp add: m_eq opc b limb_list_to_u32 reduced_word(1) flip: conjunct2 [OF nn]\<close>, simp add: unat_to_u32)
  moreover have "message_a m = limb_list (word_from (field_word (message_next_pc m + 4)))" if "list_all is_byte (message_a m)"
  proof -
    have a: "byte_word ?a" using that by (simp add: m_eq byte_word_def)
    then have "limb_number ?a < 2130706433" using rng(1) real by (auto intro: word_range_sound)
    moreover have "word_reduce ?a = word_reduce ?n + 4" using link real by (simp add: from_canonical_u32_def)
    ultimately show ?thesis using reduced_word(2) [OF a] by (simp add: m_eq)
  qed
  ultimately show ?thesis unfolding jump_message_valid_def by (simp add: m_eq)
qed

section \<open>Completeness\<close>

definition valid_jump_event :: "jump_event \<Rightarrow> bool" where
  "valid_jump_event e \<longleftrightarrow> jmp_opcode e \<in> jump_ops \<and> jmp_a e = jmp_next_pc e + 4 \<and>
     jmp_next_next_pc e = jump_target (jmp_opcode e) (jmp_next_pc e) (jmp_b e) \<and>
     unat (jmp_a e) < 2130706433 \<and> unat (jmp_next_pc e) < 2130706433 \<and> unat (jmp_next_next_pc e) < 2130706433"

definition jump_message :: "jump_event \<Rightarrow> koala list" where
  "jump_message e =
     instruction_values 0 0 (from_canonical_u32 (jmp_pc e)) (from_canonical_u32 (jmp_next_pc e)) (from_canonical_u32 (jmp_next_next_pc e)) 0
       (opcode_as_field (jmp_opcode e)) (word_from (jmp_a e)) (word_from (jmp_b e)) (word_from (jmp_c e)) zero_word 0 0 0 0 0"

lemma jump_complete:
  fixes row :: "koala jump_cols"
  assumes valid: "valid_jump_event e" and row: "jump_event_to_row e = (row, blu)"
  shows "accepted (jump_eval row)" "instruction_receives (jump_eval row) = [jump_message e]"
    "mset (instruction_sends (jump_eval row)) = step_messages (emit_jump_dependencies e)"
    "byte_sends (jump_eval row) = map byte_event_values blu"
proof -
  let ?op = "jmp_opcode e"
  have op: "?op \<in> jump_ops" and a: "jmp_a e = jmp_next_pc e + 4"
    and nn: "jmp_next_next_pc e = jump_target ?op (jmp_next_pc e) (jmp_b e)"
    and small: "unat (jmp_a e) < 2130706433" "unat (jmp_next_pc e) < 2130706433" "unat (jmp_next_next_pc e) < 2130706433"
    by (insert valid [unfolded valid_jump_event_def], (elim conjE, assumption)+)
  note R = row [unfolded jump_event_to_row_def prod.inject]
  have real: "(from_bool (?op = Op_Jump) + from_bool (?op = Op_Jumpi) + from_bool (?op = Op_JumpDirect) :: koala) = 1"
    and opc: "from_bool (?op = Op_Jump) * opcode_as_field Op_Jump + from_bool (?op = Op_Jumpi) * opcode_as_field Op_Jumpi
      + from_bool (?op = Op_JumpDirect) * opcode_as_field Op_JumpDirect = (opcode_as_field ?op :: koala)"
    using op by (auto simp: jump_ops_def)
  have link: "from_canonical_u32 (jmp_a e) = from_canonical_u32 (jmp_next_pc e) + (from_canonical_u32 4 :: koala)"
    using from_u32_add_4 [OF small(2)] small(1) a by (simp add: from_canonical_u32_def)
  have target: "?op = Op_Jump \<or> ?op = Op_Jumpi \<Longrightarrow> jmp_next_next_pc e = jmp_b e" using nn by (auto simp: jump_target_def)
  note E = jump_eval_def Let_def
  show "accepted (jump_eval row)"
    unfolding E conjunct1 [OF R, symmetric] jump_cols.simps accepted_append real
    by (intro conjI; ((rule word_range_complete, rule small) | (simp add: from_bool_cases link; fail) | (use target in \<open>auto simp: from_bool_def\<close>; fail)))
  show "instruction_receives (jump_eval row) = [jump_message e]"
    unfolding E jump_message_def by (simp add: conjunct1 [OF R, symmetric] real opc)
  show "mset (instruction_sends (jump_eval row)) = step_messages (emit_jump_dependencies e)"
    using op nn unfolding E step_messages_def emit_jump_dependencies_def jump_ops_def
    by (auto simp: conjunct1 [OF R, symmetric] send_alu_words jump_target_def simp del: send_alu_sends)
  show "byte_sends (jump_eval row) = map byte_event_values blu"
    unfolding E by (simp add: conjunct2 [OF R, symmetric])
qed

interpretation jump_chip: instruction_chip jump_eval jump_event_to_row jump_padding valid_jump_event jump_message
    "\<lambda>e. step_messages (emit_jump_dependencies e)" jump_message_valid
proof
  show "accepted (jump_eval jump_padding)" "instruction_receives (jump_eval jump_padding) = []"
    "instruction_sends (jump_eval jump_padding) = []" "byte_sends (jump_eval jump_padding) = []"
    by (simp_all add: jump_eval_def jump_padding_def Let_def)
qed (erule (3) jump_sound, simp add: jump_complete [OF _ surjective_pairing])

end
