(* ===== verification/Mov_Cond_Chip.thy ===== *)
theory Mov_Cond_Chip
  imports Selectors Is_Zero_Air
begin

text \<open>
  The chip for the conditional moves and \<open>WSBH\<close> (\<^verbatim>\<open>crates/core/machine/src/misc/mov_cond/mod.rs\<close>).
\<close>

section \<open>The chip\<close>

record 'f mov_cond_cols =
  mc_pc :: 'f
  mc_next_pc :: 'f
  mc_op_a_value :: "'f limbs"
  mc_prev_a_value :: "'f limbs"
  mc_op_b_value :: "'f limbs"
  mc_op_c_value :: "'f limbs"
  mc_c_eq_0 :: "'f is_zero_word_operation"
  mc_is_mne :: 'f
  mc_is_meq :: 'f
  mc_is_wsbh :: 'f

definition mov_cond_event_to_row :: "mov_cond_event \<Rightarrow> 'f::field mov_cond_cols \<times> byte_lookup_event list" where
  "mov_cond_event_to_row event =
     (\<lparr>mc_pc = from_canonical_u32 (mov_pc event), mc_next_pc = from_canonical_u32 (mov_next_pc event),
       mc_op_a_value = word_from (mov_a event), mc_prev_a_value = word_from (mov_prev_a event),
       mc_op_b_value = word_from (mov_b event), mc_op_c_value = word_from (mov_c event),
       mc_c_eq_0 = is_zero_word_populate (mov_c event), mc_is_mne = from_bool (mov_opcode event = Op_MNE),
       mc_is_meq = from_bool (mov_opcode event = Op_MEQ), mc_is_wsbh = from_bool (mov_opcode event = Op_WSBH)\<rparr>, [])"

definition mov_cond_padding :: "'f::field mov_cond_cols" where
  "mov_cond_padding = \<lparr>mc_pc = 0, mc_next_pc = 0, mc_op_a_value = zero_word, mc_prev_a_value = zero_word,
     mc_op_b_value = zero_word, mc_op_c_value = zero_word,
     mc_c_eq_0 = \<lparr>izw_is_zero_byte = (\<lambda>_. \<lparr>iz_inverse = 0, iz_result = 0\<rparr>), izw_is_lower_half_zero = 0,
       izw_is_upper_half_zero = 0, izw_result = 0\<rparr>,
     mc_is_mne = 0, mc_is_meq = 0, mc_is_wsbh = 0\<rparr>"

definition eval_wsbh :: "'f::field mov_cond_cols \<Rightarrow> 'f air_op list" where
  "eval_wsbh local =
     when_cond (mc_is_wsbh local) (assert_eq (mc_op_a_value local 0) (mc_op_b_value local 1))
     @ when_cond (mc_is_wsbh local) (assert_eq (mc_op_a_value local 1) (mc_op_b_value local 0))
     @ when_cond (mc_is_wsbh local) (assert_eq (mc_op_a_value local 2) (mc_op_b_value local 3))
     @ when_cond (mc_is_wsbh local) (assert_eq (mc_op_a_value local 3) (mc_op_b_value local 2))"

definition mov_cond_eval :: "'f::field mov_cond_cols \<Rightarrow> 'f air_op list" where
  "mov_cond_eval local =
     (let is_real = mc_is_mne local + mc_is_meq local + mc_is_wsbh local;
          cpu_opcode = mc_is_wsbh local * opcode_as_field Op_WSBH + mc_is_meq local * opcode_as_field Op_MEQ
            + mc_is_mne local * opcode_as_field Op_MNE;
          c_eq_0 = izw_result (mc_c_eq_0 local) in
      receive_instruction
        (instruction_values 0 0 (mc_pc local) (mc_next_pc local) (mc_next_pc local + from_canonical_u32 4) 0 cpu_opcode
           (mc_op_a_value local) (mc_op_b_value local) (mc_op_c_value local) (mc_prev_a_value local)
           0 (mc_is_mne local + mc_is_meq local) 0 0 1)
        is_real
      @ is_zero_word_eval (mc_op_c_value local) (mc_c_eq_0 local) is_real
      @ when_cond (mc_is_meq local) (when_cond c_eq_0 (assert_word_eq (mc_op_a_value local) (mc_op_b_value local)))
      @ when_cond (mc_is_meq local) (when_not c_eq_0 (assert_word_eq (mc_op_a_value local) (mc_prev_a_value local)))
      @ when_cond (mc_is_mne local) (when_not c_eq_0 (assert_word_eq (mc_op_a_value local) (mc_op_b_value local)))
      @ when_cond (mc_is_mne local) (when_cond c_eq_0 (assert_word_eq (mc_op_a_value local) (mc_prev_a_value local)))
      @ eval_wsbh local
      @ when_cond (mc_is_wsbh local) (assert_word_zero (mc_prev_a_value local))
      @ assert_bool (mc_is_mne local) @ assert_bool (mc_is_meq local) @ assert_bool (mc_is_wsbh local)
      @ assert_bool is_real)"

section \<open>What a message says\<close>

definition mov_ops :: "opcode set" where
  "mov_ops = {Op_MEQ, Op_MNE, Op_WSBH}"

definition moves :: "opcode \<Rightarrow> u32 \<Rightarrow> bool" where
  "moves op c \<longleftrightarrow> (op = Op_MEQ) = (c = 0)"

definition mov_cond_message_valid :: "koala list \<Rightarrow> bool" where
  "mov_cond_message_valid m \<longleftrightarrow>
     (\<exists>op\<in>mov_ops. \<exists>b c. message_opcode m = opcode_as_field op \<and> message_b m = limb_list (word_from b) \<and>
        message_c m = limb_list (word_from c) \<and>
        message_a m = (if op = Op_WSBH then limb_list (word_from (wsbh_value b)) else if moves op c then message_b m else message_hi m) \<and>
        (op = Op_WSBH \<longrightarrow> message_hi m = [0, 0, 0, 0]) \<and> message_rw_a m = from_bool (op \<noteq> Op_WSBH)) \<and>
     message_next_next_pc m = message_next_pc m + 4 \<and> message_extra_cycles m = 0 \<and> message_a_immutable m = 0 \<and>
     message_check_memory m = 0 \<and> message_halt m = 0 \<and> message_sequential m = 1"

lemma mov_cond_message_validD:
  assumes "mov_cond_message_valid (instruction_values s k p n nn x (opcode_as_field op) a b c hi f1 f2 f3 f4 f5)"
  shows "to_u32 a = (if op = Op_WSBH then wsbh_value (to_u32 b) else if moves op (to_u32 c) then to_u32 b else to_u32 hi)"
    "f2 = from_bool (op \<noteq> Op_WSBH)"
proof -
  obtain B C where "limb_list b = limb_list (word_from B)" "limb_list c = limb_list (word_from C)"
    and m: "limb_list a = (if op = Op_WSBH then limb_list (word_from (wsbh_value B)) else if moves op C then limb_list b else limb_list hi)"
      "f2 = from_bool (op \<noteq> Op_WSBH)"
    using assms unfolding mov_cond_message_valid_def message_simps message_control opcode_as_field_inj by blast
  moreover then have "B = to_u32 b" "C = to_u32 c" using to_u32_cong to_u32_word_from by metis+
  ultimately show "to_u32 a = (if op = Op_WSBH then wsbh_value (to_u32 b) else if moves op (to_u32 c) then to_u32 b else to_u32 hi)"
    "f2 = from_bool (op \<noteq> Op_WSBH)"
    using to_u32_cong [of a b] to_u32_cong [of a hi] to_u32_cong [of a "word_from (wsbh_value B)"] by (simp_all split: if_splits)
qed

section \<open>Soundness\<close>

lemma wsbh_limbs: "limb_list (word_from (wsbh_value b)) =
    [word_from b 1, word_from b 0, word_from b 3, word_from b 2 :: koala]"
  using wsbh_bytes [of b] by (simp add: limb_list_def word_from_def)

lemma mov_cond_selected:
  assumes acc: "accepted (mov_cond_eval row)" and m: "m \<in> set (instruction_receives (mov_cond_eval row))"
  obtains op where "op \<in> mov_ops" "message_opcode m = opcode_as_field op" "mc_is_mne row = from_bool (op = Op_MNE)"
    "mc_is_meq row = from_bool (op = Op_MEQ)" "mc_is_wsbh row = from_bool (op = Op_WSBH)" "mc_is_mne row + mc_is_meq row + mc_is_wsbh row = 1"
proof -
  define real where "real = mc_is_mne row + mc_is_meq row + mc_is_wsbh row"
  note E = mov_cond_eval_def [of row, unfolded Let_def, folded real_def]
  have flags: "accepted (assert_bool (mc_is_mne row))" "accepted (assert_bool (mc_is_meq row))" "accepted (assert_bool (mc_is_wsbh row))"
      "accepted (assert_bool real)"
    by (insert acc [unfolded E accepted_append], (elim conjE, assumption)+)
  have "real \<noteq> 0" using m by (auto simp: E eval_wsbh_def split: if_splits)
  then have real: "real = 1" using flags(4) by simp
  obtain op where op: "op \<in> mov_ops" "mc_is_mne row = from_bool (op = Op_MNE)" "mc_is_meq row = from_bool (op = Op_MEQ)"
      "mc_is_wsbh row = from_bool (op = Op_WSBH)"
  proof (rule selected_opcode [of "[(Op_MNE, mc_is_mne row), (Op_MEQ, mc_is_meq row), (Op_WSBH, mc_is_wsbh row)]"], goal_cases)
    case (5 op)
    then show ?case by (intro that [of op]) (auto simp: mov_ops_def)
  qed (use flags real in \<open>simp_all add: real_def add.assoc\<close>)
  have "message_opcode m = opcode_as_field op" using m op(1) by (auto simp: E eval_wsbh_def op(2-4) mov_ops_def split: if_splits)
  then show ?thesis using that op real by (simp only: real_def)
qed

lemma mov_cond_sound:
  assumes acc: "accepted (mov_cond_eval row)"
    and m: "m \<in> set (instruction_receives (mov_cond_eval row))" and ok: "operands_ok m"
  shows "mov_cond_message_valid m"
proof -
  define real where "real = mc_is_mne row + mc_is_meq row + mc_is_wsbh row"
  define opc where "opc = mc_is_wsbh row * opcode_as_field Op_WSBH + mc_is_meq row * opcode_as_field Op_MEQ + mc_is_mne row * opcode_as_field Op_MNE"
  let ?a = "mc_op_a_value row" and ?b = "mc_op_b_value row" and ?c = "mc_op_c_value row" and ?p = "mc_prev_a_value row"
  let ?z = "izw_result (mc_c_eq_0 row)"
  note E = mov_cond_eval_def [of row, unfolded Let_def, folded real_def opc_def]
  have m_eq: "m = instruction_values 0 0 (mc_pc row) (mc_next_pc row) (mc_next_pc row + from_canonical_u32 4) 0 opc ?a ?b ?c ?p
      0 (mc_is_mne row + mc_is_meq row) 0 0 1"
    using m by (auto simp: E eval_wsbh_def split: if_splits)
  obtain op where op: "op \<in> mov_ops" "mc_is_mne row = from_bool (op = Op_MNE)" "mc_is_meq row = from_bool (op = Op_MEQ)"
      "mc_is_wsbh row = from_bool (op = Op_WSBH)" and opc: "opc = opcode_as_field op" and real: "real = 1"
    using mov_cond_selected [OF acc m] by (auto simp: m_eq real_def)
  note acc = acc [unfolded E accepted_append]
  have zero: "accepted (is_zero_word_eval ?c (mc_c_eq_0 row) real)"
    and meq: "accepted (when_cond (mc_is_meq row) (when_cond ?z (assert_word_eq ?a ?b)))" "accepted (when_cond (mc_is_meq row) (when_not ?z (assert_word_eq ?a ?p)))"
    and mne: "accepted (when_cond (mc_is_mne row) (when_not ?z (assert_word_eq ?a ?b)))" "accepted (when_cond (mc_is_mne row) (when_cond ?z (assert_word_eq ?a ?p)))"
    and wsbh: "accepted (eval_wsbh row)" "accepted (when_cond (mc_is_wsbh row) (assert_word_zero ?p))"
    by (insert acc, (elim conjE, assumption)+)
  have bc: "byte_word ?b" "byte_word ?c" using ok op(1) unfolding m_eq opc operands_ok_iff
    by (auto simp: mov_ops_def byte_word_def limb_list_def)
  have z: "?z = from_bool (to_u32 ?c = 0)"
    using is_zero_word_sound [of ?c "mc_c_eq_0 row"] zero real limb_list_to_u32 [OF bc(2)] limb_list_word_from_inj [of "to_u32 ?c" 0]
    by (simp add: limb_list_word_from_0)
  have a: "limb_list ?a = (if op = Op_WSBH then limb_list (word_from (wsbh_value (to_u32 ?b))) else if moves op (to_u32 ?c) then limb_list ?b else limb_list ?p)"
  proof (cases "op = Op_WSBH")
    case True
    then show ?thesis using wsbh(1) op(4) byte_at_to_u32 [OF bc(1)] wsbh_limbs [of "to_u32 ?b"]
      by (simp add: eval_wsbh_def word_from_def) (simp add: limb_list_def)
  next
    case False
    then show ?thesis using op meq mne unfolding op(2,3) z
      by (auto simp: mov_ops_def moves_def limb_list_def)
  qed
  have prev: "op = Op_WSBH \<longrightarrow> limb_list ?p = [0, 0, 0, 0]" using wsbh(2) op(4) by (auto simp: limb_list_def)
  have rw: "mc_is_mne row + mc_is_meq row = from_bool (op \<noteq> Op_WSBH)" using op by (auto simp: mov_ops_def)
  have "\<exists>op\<in>mov_ops. \<exists>b c. message_opcode m = opcode_as_field op \<and> message_b m = limb_list (word_from b) \<and>
        message_c m = limb_list (word_from c) \<and>
        message_a m = (if op = Op_WSBH then limb_list (word_from (wsbh_value b)) else if moves op c then message_b m else message_hi m) \<and>
        (op = Op_WSBH \<longrightarrow> message_hi m = [0, 0, 0, 0]) \<and> message_rw_a m = from_bool (op \<noteq> Op_WSBH)"
    by (rule bexI [OF _ op(1)], rule exI [of _ "to_u32 ?b"], rule exI [of _ "to_u32 ?c"])
      (use a prev in \<open>simp add: m_eq opc bc limb_list_to_u32 rw\<close>)
  then show ?thesis unfolding mov_cond_message_valid_def by (simp add: m_eq from_canonical_u32_def)
qed

section \<open>Completeness\<close>

definition valid_mov_cond_event :: "mov_cond_event \<Rightarrow> bool" where
  "valid_mov_cond_event e \<longleftrightarrow> mov_opcode e \<in> mov_ops \<and> (mov_opcode e = Op_WSBH \<longrightarrow> mov_prev_a e = 0) \<and>
     mov_a e = (if mov_opcode e = Op_WSBH then wsbh_value (mov_b e) else if moves (mov_opcode e) (mov_c e) then mov_b e else mov_prev_a e)"

definition mov_cond_message :: "mov_cond_event \<Rightarrow> koala list" where
  "mov_cond_message e =
     instruction_values 0 0 (from_canonical_u32 (mov_pc e)) (from_canonical_u32 (mov_next_pc e)) (from_canonical_u32 (mov_next_pc e) + 4) 0
       (opcode_as_field (mov_opcode e)) (word_from (mov_a e)) (word_from (mov_b e)) (word_from (mov_c e)) (word_from (mov_prev_a e))
       0 (from_bool (mov_opcode e \<noteq> Op_WSBH)) 0 0 1"

lemma mov_cond_complete:
  fixes row :: "koala mov_cond_cols"
  assumes valid: "valid_mov_cond_event e" and row: "mov_cond_event_to_row e = (row, blu)"
  shows "accepted (mov_cond_eval row)" "instruction_receives (mov_cond_eval row) = [mov_cond_message e]"
    "instruction_sends (mov_cond_eval row) = []" "byte_sends (mov_cond_eval row) = map byte_event_values blu"
proof -
  let ?op = "mov_opcode e"
  have op: "?op \<in> mov_ops" and prev: "?op = Op_WSBH \<longrightarrow> mov_prev_a e = 0"
    and a: "mov_a e = (if ?op = Op_WSBH then wsbh_value (mov_b e) else if moves ?op (mov_c e) then mov_b e else mov_prev_a e)"
    by (insert valid [unfolded valid_mov_cond_event_def], (elim conjE, assumption)+)
  note R = row [unfolded mov_cond_event_to_row_def prod.inject]
  have real: "(from_bool (?op = Op_MNE) + from_bool (?op = Op_MEQ) + from_bool (?op = Op_WSBH) :: koala) = 1"
    and opc: "from_bool (?op = Op_WSBH) * opcode_as_field Op_WSBH + from_bool (?op = Op_MEQ) * opcode_as_field Op_MEQ
      + from_bool (?op = Op_MNE) * opcode_as_field Op_MNE = (opcode_as_field ?op :: koala)"
    and rw: "from_bool (?op = Op_MNE) + from_bool (?op = Op_MEQ) = (from_bool (?op \<noteq> Op_WSBH) :: koala)"
    using op by (auto simp: mov_ops_def)
  have wsbh: "?op = Op_WSBH \<Longrightarrow> word_from (mov_a e) 0 = (word_from (mov_b e) 1 :: koala) \<and> word_from (mov_a e) 1 = (word_from (mov_b e) 0 :: koala) \<and>
      word_from (mov_a e) 2 = (word_from (mov_b e) 3 :: koala) \<and> word_from (mov_a e) 3 = (word_from (mov_b e) 2 :: koala)"
    using a wsbh_limbs [of "mov_b e"] by (simp add: limb_list_def)
  have prev0: "?op = Op_WSBH \<Longrightarrow> i < 4 \<Longrightarrow> word_from (mov_prev_a e) i = (0 :: koala)" for i
    using prev by (simp add: word_from_def byte_at_def)
  note E = mov_cond_eval_def Let_def eval_wsbh_def
  show "accepted (mov_cond_eval row)"
    unfolding E conjunct1 [OF R, symmetric] mov_cond_cols.simps accepted_append real
    by (intro conjI; ((rule is_zero_word_complete(1), simp; fail) | (simp add: from_bool_cases; fail)
      | (use a prev0 in \<open>auto simp: is_zero_word_complete(2) [of 1] moves_def from_bool_def\<close>; fail)
      | (use wsbh in \<open>auto simp: from_bool_def\<close>; fail)))
  show "instruction_receives (mov_cond_eval row) = [mov_cond_message e]"
    unfolding E mov_cond_message_def by (simp add: conjunct1 [OF R, symmetric] real opc from_canonical_u32_def) (simp add: rw)
  show "instruction_sends (mov_cond_eval row) = []" "byte_sends (mov_cond_eval row) = map byte_event_values blu"
    unfolding E by (simp_all add: conjunct2 [OF R, symmetric])
qed

interpretation mov_cond_chip: instruction_chip mov_cond_eval mov_cond_event_to_row mov_cond_padding valid_mov_cond_event mov_cond_message
    "\<lambda>_. {#}" mov_cond_message_valid
proof
  show "accepted (mov_cond_eval mov_cond_padding)" "instruction_receives (mov_cond_eval mov_cond_padding) = []"
    "instruction_sends (mov_cond_eval mov_cond_padding) = []" "byte_sends (mov_cond_eval mov_cond_padding) = []"
    by (simp_all add: mov_cond_eval_def eval_wsbh_def mov_cond_padding_def Let_def)
qed (erule (2) mov_cond_sound, simp add: mov_cond_complete [OF _ surjective_pairing])

end
