(* ===== verification/Instruction_Bus.thy ===== *)
theory Instruction_Bus
  imports Branch_Chip Jump_Chip Mov_Cond_Chip Alu_Bus
begin

text \<open>
  The instruction bus: the arithmetic chips together with the chips for branches, jumps and conditional moves. If all
  rows are accepted and every message on the bus is received, a received message says what its instruction does:
  the result of the operation, the address after the delay slot and the flags that steer the CPU.
\<close>

section \<open>Rows on the bus\<close>

datatype instr_row =
    Row_Alu alu_row
  | Row_Branch "koala branch_cols"
  | Row_Jump "koala jump_cols"
  | Row_Mov_Cond "koala mov_cond_cols"

fun instr_row_eval :: "instr_row \<Rightarrow> koala air_op list" where
  "instr_row_eval (Row_Alu r) = alu_row_eval r"
| "instr_row_eval (Row_Branch r) = branch_eval r"
| "instr_row_eval (Row_Jump r) = jump_eval r"
| "instr_row_eval (Row_Mov_Cond r) = mov_cond_eval r"

definition sequential_message :: "koala list \<Rightarrow> bool" where
  "sequential_message m \<longleftrightarrow> message_next_next_pc m = message_next_pc m + 4 \<and> message_extra_cycles m = 0 \<and> message_a_immutable m = 0 \<and>
     message_rw_a m = 0 \<and> message_halt m = 0 \<and> message_sequential m = 1"

lemma sequential_values [simp]: "sequential_message (instruction_values s k p q (q + 4) 0 opc a b c hi 0 0 f3 0 1)"
  by (simp add: sequential_message_def)

lemma alu_row_sequential:
  assumes m: "m \<in> set (instruction_receives (alu_row_eval r))"
  shows "sequential_message m"
proof (cases r)
  case (Row_Add_Sub row)
  then show ?thesis using m by (auto simp: add_sub_eval_def add_operation_no_message split: if_splits)
next
  case (Row_Bitwise row)
  then show ?thesis using m by (auto simp: bitwise_eval_def Let_def split: if_splits)
next
  case (Row_Lt row)
  then show ?thesis using m by (auto simp: lt_eval_def Let_def split: if_splits prod.splits)
next
  case (Row_Shift_Left row)
  then show ?thesis using m by (auto simp: shift_left_eval_def Let_def split: if_splits)
next
  case (Row_Shift_Right row)
  then show ?thesis using m by (auto simp: shift_right_eval_def Let_def split: if_splits)
next
  case (Row_Mul row)
  then show ?thesis using m by (auto simp: mul_eval_def Let_def split: if_splits)
next
  case (Row_Div_Rem row)
  then show ?thesis using m by (auto simp: div_rem_receives Let_def split: if_splits)
next
  case (Row_Clo_Clz row)
  then show ?thesis using m by (auto simp: clo_clz_eval_def Let_def split: if_splits)
qed

definition instruction_message_valid :: "koala list \<Rightarrow> bool" where
  "instruction_message_valid m \<longleftrightarrow> alu_message_valid m \<and> sequential_message m \<or> branch_message_valid m \<or> jump_message_valid m \<or>
     mov_cond_message_valid m"

lemma instr_row_sound:
  assumes "accepted (instr_row_eval r)" "list_all (\<lambda>s. operands_ok s \<longrightarrow> alu_message_valid s) (instruction_sends (instr_row_eval r))"
    "m \<in> set (instruction_receives (instr_row_eval r))" "operands_ok m"
  shows "instruction_message_valid m"
  using assms alu_row_sequential [of m] unfolding instruction_message_valid_def
  by (cases r) (auto intro: alu_row_sound branch_chip.sound jump_chip.sound mov_cond_chip.sound)

section \<open>Who receives what is sent\<close>

definition control_ops :: "opcode set" where
  "control_ops = branch_ops \<union> jump_ops \<union> mov_ops"

fun is_leaf :: "instr_row \<Rightarrow> bool" where
  "is_leaf (Row_Alu r) = (\<not> sends_messages r)"
| "is_leaf _ = False"

lemma control_receives:
  assumes "accepted (instr_row_eval r)" "m \<in> set (instruction_receives (instr_row_eval r))" "\<not> is_leaf r"
  shows "message_opcode m \<in> opcode_as_field ` (sender_ops \<union> control_ops)"
proof (cases r)
  case (Row_Alu a)
  then show ?thesis using assms sender_receives [of a m] by auto
next
  case (Row_Branch b)
  then show ?thesis using assms branch_selected [of b m] by (auto simp: control_ops_def)
next
  case (Row_Jump j)
  then show ?thesis using assms jump_selected [of j m] by (auto simp: control_ops_def)
next
  case (Row_Mov_Cond c)
  then show ?thesis using assms mov_cond_selected [of c m] by (auto simp: control_ops_def)
qed

lemma instr_row_sends:
  assumes "accepted (instr_row_eval r)" "s \<in> set (instruction_sends (instr_row_eval r))"
  shows "message_opcode s \<in> opcode_as_field ` (insert Op_SLT helper_ops)"
proof (cases r)
  case (Row_Alu a)
  then show ?thesis using assms sender_sends [of a s] by auto
next
  case (Row_Branch b)
  then show ?thesis using assms(2)
    by (auto simp: branch_eval_def branch_eval_pc_def branch_eval_condition_def Let_def helper_ops_def split: if_splits)
next
  case (Row_Jump j)
  then show ?thesis using assms(2) by (auto simp: jump_eval_def Let_def helper_ops_def split: if_splits)
next
  case (Row_Mov_Cond c)
  then show ?thesis using assms(2) by (auto simp: mov_cond_eval_def eval_wsbh_def Let_def)
qed

text \<open>The messages sent on the bus, by its own rows and by the CPU, are what its rows
  receive.\<close>

definition instruction_bus :: "koala list multiset \<Rightarrow> instr_row list \<Rightarrow> bool" where
  "instruction_bus cpu_sends trace \<longleftrightarrow> list_all (\<lambda>r. accepted (instr_row_eval r)) trace \<and>
     cpu_sends + mset (concat (map (instruction_sends \<circ> instr_row_eval) trace))
       = mset (concat (map (instruction_receives \<circ> instr_row_eval) trace))"

lemma instruction_bus_receiver:
  assumes "instruction_bus cpu_sends trace"
    and "s \<in># cpu_sends \<or> (\<exists>r\<in>set trace. s \<in> set (instruction_sends (instr_row_eval r)))"
  obtains r where "r \<in> set trace" "accepted (instr_row_eval r)" "s \<in> set (instruction_receives (instr_row_eval r))"
proof -
  have "s \<in># cpu_sends + mset (concat (map (instruction_sends \<circ> instr_row_eval) trace))" using assms(2) by auto
  then have "s \<in># mset (concat (map (instruction_receives \<circ> instr_row_eval) trace))"
    using assms(1) unfolding instruction_bus_def by metis
  then show ?thesis using that assms(1) by (auto simp: instruction_bus_def list_all_iff)
qed

lemma instruction_bus_sound:
  assumes bus: "instruction_bus cpu_sends trace" and m: "m \<in># cpu_sends" and ok: "operands_ok m"
  shows "instruction_message_valid m"
proof -
  obtain r where r: "r \<in> set trace" "accepted (instr_row_eval r)" "m \<in> set (instruction_receives (instr_row_eval r))"
    using instruction_bus_receiver [OF bus] m by blast
  have "alu_message_valid s" if s: "s \<in> set (instruction_sends (instr_row_eval r))" "operands_ok s" for s
  proof -
    obtain r' where r': "r' \<in> set trace" "accepted (instr_row_eval r')" "s \<in> set (instruction_receives (instr_row_eval r'))"
      using instruction_bus_receiver [OF bus] s(1) r(1) by blast
    have "is_leaf r'"
    proof (rule ccontr)
      assume "\<not> is_leaf r'"
      from control_receives [OF r'(2,3) this] instr_row_sends [OF r(2) s(1)] show False
        by (auto simp: sender_ops_def helper_ops_def control_ops_def branch_ops_def jump_ops_def mov_ops_def)
    qed
    then obtain a where a: "r' = Row_Alu a" "\<not> sends_messages a" by (cases r') auto
    then show ?thesis using r' s(2) by (intro alu_row_sound [of a]) (simp_all add: leaf_sends)
  qed
  then show ?thesis by (intro instr_row_sound [OF r(2) _ r(3) ok]) (simp add: list_all_iff)
qed

end
