(* ===== verification/Row_Step.thy ===== *)
theory Row_Step
  imports Register_File Instruction_Bus Isa
begin

text \<open>
  A CPU row executes an instruction: if its message is justified by an instruction chip, the registers and program
  counters of the row are those of the instruction-set semantics. The instructions covered are the arithmetic ones that
  neither write \<open>HI\<close> nor divide with sign, branches, jumps, the conditional moves and \<open>WSBH\<close>, with operands as the
  decoder produces them.
\<close>

section \<open>Instructions\<close>

definition nop :: instruction where "nop = instruction_new Op_ADD 0 0 0 False False"

definition core_instruction :: "instruction \<Rightarrow> bool" where
  "core_instruction i \<longleftrightarrow> op_a i < 36 \<and> (imm_b i \<or> (ucast (op_b i) :: u8) < 36) \<and> (imm_c i \<or> (ucast (op_c i) :: u8) < 36) \<and>
     (is_alu_instruction i \<and> opcode i \<notin> {Op_MULT, Op_MULTU, Op_DIV, Op_DIVU, Op_MOD} \<and> (imm_b i \<longrightarrow> imm_c i)
      \<or> is_branch_instruction i \<and> imm_c i \<and> (if only_one_operand (opcode i) then imm_b i \<and> op_b i = 0 else \<not> imm_b i)
      \<or> is_jump_instruction i \<and> imm_b i = (opcode i \<noteq> Op_Jump)
      \<or> opcode i \<in> {Op_MEQ, Op_MNE} \<and> \<not> imm_b i \<and> \<not> imm_c i \<or> opcode i = Op_WSBH \<and> \<not> imm_b i)"

lemma core_nop: "core_instruction nop"
  by (simp add: core_instruction_def nop_def instruction_new_def is_alu_instruction_def)

lemma register_from_index_eq:
  assumes "v < 36"
  obtains x where "register_from v = (Inr x :: (execution_error, register) outcome)" "reg_index x = ucast v"
  using register_from_total [OF assms] by blast

lemma register_zero: "(register_from 0 :: (execution_error, register) outcome) = Inr R_ZERO"
  using register_from_index [of R_ZERO] by simp

section \<open>Operands and result of a row\<close>

definition operand_value :: "bool \<Rightarrow> u32 \<Rightarrow> (register \<Rightarrow> u32) \<Rightarrow> u32 \<Rightarrow> bool" where
  "operand_value imm op regs v \<longleftrightarrow>
     (if imm then v = op else \<exists>x. register_from (ucast op) = (Inr x :: (execution_error, register) outcome) \<and> v = regs x)"

definition row_ok :: "koala cpu_cols \<Rightarrow> instruction \<Rightarrow> register \<Rightarrow> (register \<Rightarrow> u32) \<Rightarrow> bool" where
  "row_ok r i rd regs \<longleftrightarrow>
     register_from (op_a i) = (Inr rd :: (execution_error, register) outcome) \<and>
     ic_opcode (cp_instruction r) = opcode_as_field (opcode i) \<and>
     byte_word (op_b_val r) \<and> operand_value (imm_b i) (op_b i) regs (to_u32 (op_b_val r)) \<and>
     byte_word (op_c_val r) \<and> operand_value (imm_c i) (op_c i) regs (to_u32 (op_c_val r)) \<and>
     byte_word (op_a_val r) \<and> byte_word (mrw_prev_value (cp_op_a_access r)) \<and>
     to_u32 (mrw_prev_value (cp_op_a_access r)) = regs rd \<and> regs R_ZERO = 0 \<and>
     (rd = R_ZERO \<and> limb_list (op_a_val r) = [0, 0, 0, 0] \<or>
      (rd \<noteq> R_ZERO \<or> i = nop) \<and> limb_list (cp_op_a_value r) = limb_list (op_a_val r)) \<and>
     (cp_op_a_immutable r = 1 \<longrightarrow> limb_list (op_a_val r) = limb_list (mrw_prev_value (cp_op_a_access r)) \<and>
        limb_list (cp_op_a_value r) = limb_list (op_a_val r)) \<and>
     (cp_is_rw_a r = 1 \<longrightarrow> limb_list (cp_hi_or_prev_a r) = limb_list (mrw_prev_value (cp_op_a_access r)))"

definition row_regs :: "koala cpu_cols \<Rightarrow> register \<Rightarrow> (register \<Rightarrow> u32) \<Rightarrow> register \<Rightarrow> u32" where
  "row_regs r rd regs = regs(rd := to_u32 (op_a_val r))"

lemma to_u32_zeros: "limb_list w = [0, 0, 0, 0] \<Longrightarrow> to_u32 w = 0"
  using to_u32_cong [of w zero_word] by simp

lemma byte_word_cong: "limb_list v = limb_list w \<Longrightarrow> byte_word v = byte_word w"
  by (simp add: byte_word_def)

lemma row_okD:
  assumes "row_ok r i rd regs"
  shows "register_from (op_a i) = (Inr rd :: (execution_error, register) outcome)" "ic_opcode (cp_instruction r) = opcode_as_field (opcode i)"
    "byte_word (op_b_val r)" "operand_value (imm_b i) (op_b i) regs (to_u32 (op_b_val r))"
    "byte_word (op_c_val r)" "operand_value (imm_c i) (op_c i) regs (to_u32 (op_c_val r))"
    "byte_word (op_a_val r)" "byte_word (mrw_prev_value (cp_op_a_access r))"
    "to_u32 (mrw_prev_value (cp_op_a_access r)) = regs rd" "regs R_ZERO = 0"
    "rd = R_ZERO \<and> limb_list (op_a_val r) = [0, 0, 0, 0] \<or>
      (rd \<noteq> R_ZERO \<or> i = nop) \<and> limb_list (cp_op_a_value r) = limb_list (op_a_val r)"
    "cp_op_a_immutable r = 1 \<longrightarrow> limb_list (op_a_val r) = limb_list (mrw_prev_value (cp_op_a_access r)) \<and>
        limb_list (cp_op_a_value r) = limb_list (op_a_val r)"
    "cp_is_rw_a r = 1 \<longrightarrow> limb_list (cp_hi_or_prev_a r) = limb_list (mrw_prev_value (cp_op_a_access r))"
  by (insert assms [unfolded row_ok_def], (elim conjE, assumption)+)

text \<open>The register that a row writes, given the value its message claims.\<close>

lemma row_result:
  assumes "row_ok r i rd regs" and "i = nop \<Longrightarrow> v = 0" and "rd \<noteq> R_ZERO \<or> i = nop \<Longrightarrow> byte_word (cp_op_a_value r) \<Longrightarrow> to_u32 (cp_op_a_value r) = v"
  shows "row_regs r rd regs = regs(rd := (if rd = R_ZERO then 0 else v))"
proof -
  note D = row_okD(1,7,11) [OF assms(1)]
  have "to_u32 (op_a_val r) = (if rd = R_ZERO then 0 else v)"
    using D(3)
  proof (elim disjE conjE)
    assume "rd \<noteq> R_ZERO" and eq: "limb_list (cp_op_a_value r) = limb_list (op_a_val r)"
    then show ?thesis using assms(3) D(2) byte_word_cong [OF eq] to_u32_cong [OF eq] by simp
  next
    assume nop: "i = nop" and eq: "limb_list (cp_op_a_value r) = limb_list (op_a_val r)"
    then have "rd = R_ZERO" using D(1) register_zero by (simp add: nop_def instruction_new_def)
    then show ?thesis using assms(2,3) nop D(2) byte_word_cong [OF eq] to_u32_cong [OF eq] by simp
  qed (simp add: to_u32_zeros)
  then show ?thesis by (simp add: row_regs_def)
qed

lemma row_operands_ok:
  assumes "row_ok r i rd regs"
  shows "operands_ok (cpu_message r)"
  using row_okD(3,5) [OF assms] unfolding cpu_message_def operands_ok_def message_simps
  by (intro disjI2 conjI) (simp_all add: byte_word_def limb_list_def)

section \<open>Kinds of messages\<close>

lemma alu_computes_alu: "alu_computes (opcode i) b c a hi \<Longrightarrow> is_alu_instruction i"
proof (rule ccontr)
  assume computes: "alu_computes (opcode i) b c a hi" and no: "\<not> is_alu_instruction i"
  have op: "opcode i \<noteq> Op_DIV" "opcode i \<noteq> Op_MOD" "alu_op (opcode i) b c = Inl (Panic Unreachable)"
    using no by (simp_all add: is_alu_instruction_def alu_op_def alu_result_def)
  show False using computes unfolding alu_computes_def op(3) using op(1,2) by simp
qed

lemma message_kinds:
  assumes valid: "instruction_message_valid m" and op: "message_opcode m = opcode_as_field (opcode i)"
  shows "is_alu_instruction i \<Longrightarrow> alu_message_valid m \<and> sequential_message m"
    "is_branch_instruction i \<Longrightarrow> branch_message_valid m" "is_jump_instruction i \<Longrightarrow> jump_message_valid m"
    "opcode i \<in> mov_ops \<Longrightarrow> mov_cond_message_valid m"
proof -
  have alu: "alu_message_valid m \<Longrightarrow> is_alu_instruction i"
    using op alu_computes_alu by (auto simp: alu_message_valid_def)
  have br: "branch_message_valid m \<Longrightarrow> opcode i \<in> branch_ops" using op by (auto simp: branch_message_valid_def)
  have ju: "jump_message_valid m \<Longrightarrow> opcode i \<in> jump_ops" using op by (auto simp: jump_message_valid_def)
  have mo: "mov_cond_message_valid m \<Longrightarrow> opcode i \<in> mov_ops" using op by (auto simp: mov_cond_message_valid_def)
  show "alu_message_valid m \<and> sequential_message m" if "is_alu_instruction i"
    using valid br ju mo that by (auto simp: instruction_message_valid_def is_alu_instruction_def branch_ops_def jump_ops_def mov_ops_def)
  show "branch_message_valid m" if "is_branch_instruction i"
    using valid alu ju mo that by (auto simp: instruction_message_valid_def is_alu_instruction_def is_branch_instruction_def jump_ops_def mov_ops_def)
  show "jump_message_valid m" if "is_jump_instruction i"
    using valid alu br mo that by (auto simp: instruction_message_valid_def is_alu_instruction_def is_jump_instruction_def branch_ops_def mov_ops_def)
  show "mov_cond_message_valid m" if "opcode i \<in> mov_ops"
    using valid alu br ju that by (auto simp: instruction_message_valid_def is_alu_instruction_def branch_ops_def jump_ops_def mov_ops_def)
qed

section \<open>Steps\<close>

definition row_arch :: "koala cpu_cols \<Rightarrow> (register \<Rightarrow> u32) \<Rightarrow> (nat \<Rightarrow> u32) \<Rightarrow> arch" where
  "row_arch r regs mem = \<lparr>ar_reg = regs, ar_mem = mem, ar_pc = field_word (cp_pc r), ar_next_pc = field_word (cp_next_pc r)\<rparr>"

definition row_executes :: "koala cpu_cols \<Rightarrow> instruction \<Rightarrow> register \<Rightarrow> (register \<Rightarrow> u32) \<Rightarrow> (nat \<Rightarrow> u32) \<Rightarrow> bool" where
  "row_executes r i rd regs mem \<longleftrightarrow>
     isa_exec i (row_arch r regs mem) = Inr (row_arch r (row_regs r rd regs) mem, field_word (cp_next_next_pc r)) \<and>
     row_regs r rd regs R_ZERO = 0 \<and> cp_num_extra_cycles r = 0 \<and> cp_is_halt r = 0"

lemma field_word_add_4: "canon x + 4 < 2130706433 \<Longrightarrow> field_word (x + 4) = field_word x + 4"
  using canon_add [of x 4] by (simp add: field_word_def)

lemma set_reg_arch: "set_reg x v (row_arch r regs mem) = row_arch r (regs(x := (if x = R_ZERO then 0 else v))) mem"
  by (simp add: set_reg_def row_arch_def)

lemma row_arch_simps [simp]: "ar_reg (row_arch r regs mem) = regs" "ar_next_pc (row_arch r regs mem) = field_word (cp_next_pc r)"
  by (simp_all add: row_arch_def)

lemma operand_cases:
  "operand_value True op regs v \<longleftrightarrow> v = op"
  "operand_value False op regs v \<longleftrightarrow> (\<exists>x. register_from (ucast op) = (Inr x :: (execution_error, register) outcome) \<and> v = regs x)"
  by (simp_all add: operand_value_def)

lemma obind_cases [simp]: "obind (Inr v) f = f v" "obind (Inl e) f = Inl e"
  by (simp_all add: obind_def)

lemma alu_step:
  assumes row: "row_ok r i rd regs" and valid: "instruction_message_valid (cpu_message r)" and small: "canon (cp_next_pc r) + 4 < 2130706433"
    and i: "is_alu_instruction i" "opcode i \<notin> {Op_MULT, Op_MULTU, Op_DIV, Op_DIVU, Op_MOD}" "imm_b i \<longrightarrow> imm_c i"
  shows "row_executes r i rd regs mem"
proof -
  note D = row_okD [OF row]
  let ?b = "to_u32 (op_b_val r)" and ?c = "to_u32 (op_c_val r)" and ?a = "to_u32 (cp_op_a_value r)"
  have v: "alu_message_valid (cpu_message r)" "sequential_message (cpu_message r)"
    using message_kinds(1) [OF valid] i(1) D(2) by (simp_all add: cpu_message_def)
  have "alu_computes (opcode i) ?b ?c ?a (to_u32 (cp_hi_or_prev_a r))"
    using v(1) unfolding cpu_message_def D(2) by (rule alu_message_validD(5))
  then obtain hi where op: "alu_op (opcode i) ?b ?c = Inr (?a, hi)" using i(2) by (auto simp: alu_computes_def)
  have operands: "isa_operands i (row_arch r regs mem) = Inr (rd, ?b, ?c)"
    using D(1,4,6) i(3) by (cases "imm_b i"; cases "imm_c i"; auto simp: isa_operands_def operand_cases)
  have regs: "row_regs r rd regs = regs(rd := (if rd = R_ZERO then 0 else ?a))"
  proof (rule row_result [OF row])
    assume nop: "i = nop"
    then have "?b = 0" "?c = 0" using D(4,6,10) register_zero by (auto simp: nop_def instruction_new_def operand_value_def)
    then show "?a = 0" using op nop by (simp add: alu_op_def alu_result_def nop_def instruction_new_def)
  qed simp
  have lo_hi: "\<not> is_use_lo_hi_alu (opcode i)" using i(1,2) by (auto simp: is_use_lo_hi_alu_def is_alu_instruction_def)
  have "isa_alu i (row_arch r regs mem) = Inr (row_arch r (row_regs r rd regs) mem)"
    using operands op lo_hi by (simp add: isa_alu_def set_reg_arch regs)
  moreover have "cp_next_next_pc r = cp_next_pc r + 4" "cp_num_extra_cycles r = 0" "cp_is_halt r = 0"
    using v(2) by (simp_all add: sequential_message_def cpu_message_def)
  ultimately show ?thesis using i(1) small D(10) by (simp add: row_executes_def isa_exec_def Let_def field_word_add_4 regs)
qed

lemma branch_step:
  assumes row: "row_ok r i rd regs" and valid: "instruction_message_valid (cpu_message r)" and small: "canon (cp_next_pc r) + 4 < 2130706433"
    and i: "is_branch_instruction i" "imm_c i" "if only_one_operand (opcode i) then imm_b i \<and> op_b i = 0 else \<not> imm_b i"
  shows "row_executes r i rd regs mem"
proof -
  note D = row_okD [OF row]
  let ?a = "to_u32 (cp_op_a_value r)" and ?b = "to_u32 (op_b_val r)" and ?n = "field_word (cp_next_pc r)"
  have v: "branch_message_valid (cpu_message r)" using message_kinds(2) [OF valid] i(1) D(2) by (simp add: cpu_message_def)
  then have flags: "cp_op_a_immutable r = 1" "cp_num_extra_cycles r = 0" "cp_is_halt r = 0"
    by (simp_all add: branch_message_valid_def cpu_message_def)
  have av: "limb_list (cp_op_a_value r) = limb_list (op_a_val r)" "limb_list (op_a_val r) = limb_list (mrw_prev_value (cp_op_a_access r))"
    using D(12) flags(1) by simp_all
  then have a: "byte_word (cp_op_a_value r)" "?a = regs rd" "to_u32 (op_a_val r) = regs rd"
    using D(7,9) byte_word_cong to_u32_cong by metis+
  have regs: "row_regs r rd regs = regs" by (simp add: row_regs_def a(3))
  note m = branch_message_validD [OF v [unfolded cpu_message_def D(2)] a(1)]
  have c: "to_u32 (op_c_val r) = op_c i" using D(6) i(2) by (simp add: operand_cases)
  have nn: "field_word (cp_next_next_pc r) = (if branch_compare (opcode i) (regs rd) ?b then ?n + op_c i else ?n + 4)"
    using m small by (simp add: a(2) c field_word_from field_word_add_4)
  obtain x where x: "register_from (ucast (op_b i)) = (Inr x :: (execution_error, register) outcome)"
      "(if only_one_operand (opcode i) then 0 else regs x) = ?b"
    using D(4) i(3) register_zero by (cases "only_one_operand (opcode i)") (auto simp: operand_cases)
  have taken: "branch_taken (opcode i) (regs rd) (if only_one_operand (opcode i) then 0 else regs x) = Inr (branch_compare (opcode i) (regs rd) ?b)"
    unfolding x(2)
  proof (rule branch_compare_taken)
    show "opcode i \<in> branch_ops" using i(1) by (auto simp: is_branch_instruction_def branch_ops_def)
    show "opcode i \<in> {Op_BEQ, Op_BNE} \<or> ?b = 0"
    proof (cases "only_one_operand (opcode i)")
      case True
      then show ?thesis using x(2) by simp
    next
      case False
      then show ?thesis using i(1) by (auto simp: is_branch_instruction_def only_one_operand_def)
    qed
  qed
  have "isa_branch i (row_arch r regs mem) = Inr (field_word (cp_next_next_pc r))"
    unfolding isa_branch_def D(1) x(1) obind_cases row_arch_simps taken nn ..
  moreover have "\<not> is_alu_instruction i" "\<not> is_memory_load_instruction i" "\<not> is_memory_store_instruction i"
    using i(1) by (auto simp: instruction_class_defs)
  ultimately show ?thesis using i(1) flags D(10) by (simp add: row_executes_def isa_exec_def Let_def regs)
qed

lemma jump_step:
  assumes row: "row_ok r i rd regs" and valid: "instruction_message_valid (cpu_message r)" and small: "canon (cp_next_pc r) + 4 < 2130706433"
    and i: "is_jump_instruction i" "imm_b i = (opcode i \<noteq> Op_Jump)"
  shows "row_executes r i rd regs mem"
proof -
  note D = row_okD [OF row]
  let ?b = "to_u32 (op_b_val r)" and ?n = "field_word (cp_next_pc r)"
  have v: "jump_message_valid (cpu_message r)" using message_kinds(3) [OF valid] i(1) D(2) by (simp add: cpu_message_def)
  then have flags: "cp_num_extra_cycles r = 0" "cp_is_halt r = 0" by (simp_all add: jump_message_valid_def cpu_message_def)
  note m = jump_message_validD [OF v [unfolded cpu_message_def D(2)]]
  have nn: "field_word (cp_next_next_pc r) = jump_target (opcode i) ?n ?b" using m(1,2) by (simp add: field_word_from)
  have link: "row_regs r rd regs = regs(rd := (if rd = R_ZERO then 0 else ?n + 4))"
  proof (rule row_result [OF row])
    assume "byte_word (cp_op_a_value r)"
    then show "to_u32 (cp_op_a_value r) = ?n + 4" using m(3) field_word_add_4 [OF small] by simp
  qed (use i(1) in \<open>simp add: nop_def instruction_new_def is_jump_instruction_def\<close>)
  have target: "(if opcode i = Op_Jump then obind (register_from (ucast (op_b i))) (\<lambda>x. Inr (regs x))
      else if opcode i = Op_Jumpi then Inr (op_b i) else Inr (?n + op_b i)) = (Inr (field_word (cp_next_next_pc r)) :: (execution_error, u32) outcome)"
    using D(4) i nn by (auto simp: jump_target_def operand_cases is_jump_instruction_def)
  have "isa_jump i (row_arch r regs mem) = Inr (row_arch r (row_regs r rd regs) mem, field_word (cp_next_next_pc r))"
    unfolding isa_jump_def D(1) obind_cases row_arch_simps target by (simp add: set_reg_arch link)
  moreover have "\<not> is_alu_instruction i" "\<not> is_memory_load_instruction i" "\<not> is_memory_store_instruction i" "\<not> is_branch_instruction i"
    using i(1) by (auto simp: instruction_class_defs)
  ultimately show ?thesis using i(1) flags D(10) by (simp add: row_executes_def isa_exec_def Let_def link)
qed

lemma mov_step:
  assumes row: "row_ok r i rd regs" and valid: "instruction_message_valid (cpu_message r)" and small: "canon (cp_next_pc r) + 4 < 2130706433"
    and i: "opcode i \<in> {Op_MEQ, Op_MNE} \<and> \<not> imm_b i \<and> \<not> imm_c i \<or> opcode i = Op_WSBH \<and> \<not> imm_b i"
  shows "row_executes r i rd regs mem"
proof -
  note D = row_okD [OF row]
  let ?b = "to_u32 (op_b_val r)" and ?c = "to_u32 (op_c_val r)" and ?n = "field_word (cp_next_pc r)"
  have op: "opcode i \<in> mov_ops" using i by (auto simp: mov_ops_def)
  have v: "mov_cond_message_valid (cpu_message r)" using message_kinds(4) [OF valid] op D(2) by (simp add: cpu_message_def)
  then have flags: "cp_num_extra_cycles r = 0" "cp_is_halt r = 0" "cp_next_next_pc r = cp_next_pc r + 4"
    by (simp_all add: mov_cond_message_valid_def cpu_message_def)
  note m = mov_cond_message_validD [OF v [unfolded cpu_message_def D(2)]]
  have prev: "to_u32 (cp_hi_or_prev_a r) = regs rd" if "opcode i \<noteq> Op_WSBH"
    using D(9,13) m(2) that to_u32_cong [of "cp_hi_or_prev_a r" "mrw_prev_value (cp_op_a_access r)"] by simp
  have a: "to_u32 (cp_op_a_value r) = (if opcode i = Op_WSBH then wsbh_value ?b else if moves (opcode i) ?c then ?b else regs rd)"
    using m(1) prev by simp
  have regs: "row_regs r rd regs = regs(rd := (if rd = R_ZERO then 0 else to_u32 (cp_op_a_value r)))"
    by (rule row_result [OF row]) (use op in \<open>auto simp: nop_def instruction_new_def mov_ops_def\<close>)
  have "isa_misc i (row_arch r regs mem) = Inr (row_arch r (row_regs r rd regs) mem)"
    using i
  proof (elim disjE conjE)
    assume mov: "opcode i \<in> {Op_MEQ, Op_MNE}" "\<not> imm_b i" "\<not> imm_c i"
    then obtain x y where "register_from (ucast (op_b i)) = (Inr x :: (execution_error, register) outcome)" "?b = regs x"
        "register_from (ucast (op_c i)) = (Inr y :: (execution_error, register) outcome)" "?c = regs y"
      using D(4,6) by (auto simp: operand_cases)
    then show ?thesis using mov(1) D(1) by (elim insertE emptyE) (simp_all add: isa_misc_def set_reg_arch regs a moves_def Let_def)
  next
    assume mov: "opcode i = Op_WSBH" "\<not> imm_b i"
    then obtain x where "register_from (ucast (op_b i)) = (Inr x :: (execution_error, register) outcome)" "?b = regs x"
      using D(4) by (auto simp: operand_cases)
    then show ?thesis using mov(1) D(1) by (simp add: isa_misc_def set_reg_arch regs a Let_def)
  qed
  moreover have "\<not> is_alu_instruction i" "\<not> is_memory_load_instruction i" "\<not> is_memory_store_instruction i" "\<not> is_branch_instruction i"
    "\<not> is_jump_instruction i" "is_misc_instruction i"
    using op by (auto simp: instruction_class_defs mov_ops_def)
  ultimately show ?thesis using flags D(10) small by (simp add: row_executes_def isa_exec_def Let_def field_word_add_4 regs)
qed

lemma core_step:
  assumes "row_ok r i rd regs" "instruction_message_valid (cpu_message r)" "canon (cp_next_pc r) + 4 < 2130706433" "core_instruction i"
  shows "row_executes r i rd regs mem"
  using assms(4) unfolding core_instruction_def
  by (elim conjE disjE) (auto intro: alu_step branch_step jump_step mov_step assms(1-3))

end
