(* ===== verification/Shard.thy ===== *)
theory Shard
  imports Row_Step
begin

text \<open>
  A shard: the rows of the CPU, the rows of the instruction chips, the multiplicities of the program table and the
  records of the registers at its start and end. It is accepted when every row is, every fetched instruction is in
  the program table, the instruction bus balances, and the memory bus balances against the records of the registers.
  Rows are related to the instructions of the program.
\<close>

section \<open>Program lookups\<close>

fun program_sends :: "koala air_op list \<Rightarrow> koala list list" where
  "program_sends [] = []"
| "program_sends (Send_Lookup l s # ops) =
     (if al_kind l = LK_Program \<and> al_multiplicity l \<noteq> 0 then [al_values l] else []) @ program_sends ops"
| "program_sends (_ # ops) = program_sends ops"

fun program_receives :: "koala air_op list \<Rightarrow> koala list list" where
  "program_receives [] = []"
| "program_receives (Receive_Lookup l s # ops) =
     (if al_kind l = LK_Program \<and> al_multiplicity l \<noteq> 0 then [al_values l] else []) @ program_receives ops"
| "program_receives (_ # ops) = program_receives ops"

lemma program_sends_append [simp]: "program_sends (xs @ ys) = program_sends xs @ program_sends ys"
  by (induction xs rule: program_sends.induct) simp_all

lemma program_silent [simp]:
  "program_sends (assert_bool x) = []" "program_sends (assert_zero x) = []" "program_sends (assert_eq x y) = []"
  "program_sends (assert_one x) = []" "program_sends (assert_word_eq l r) = []" "program_sends (assert_word_zero l) = []"
  "program_sends (send_byte q a b c m) = []" "program_sends (send_instruction v m) = []"
  by (simp_all add: air_defs)

lemma program_when [simp]: "program_sends (when_cond c ops) = program_sends ops" "program_sends (when_not c ops) = program_sends ops"
  unfolding when_not_def when_cond_def by (induction ops rule: program_sends.induct) simp_all

lemma program_range [simp]: "program_sends (slice_range_check_u8 xs m) = []"
  by (induction xs m rule: slice_range_check_u8.induct) simp_all

lemma program_access [simp]: "program_sends (eval_memory_access shard clk a cols do_check) = []"
  by (simp add: eval_memory_access_def eval_memory_access_timestamp_def eval_range_check_24bits_def Let_def air_lookup_new_def)

lemma cpu_row_program:
  "program_sends (cpu_row_ops pv rows k) =
     (if cp_is_real (rows ! k) = 0 then [] else [cp_pc (rows ! k) # instruction_list (cp_instruction (rows ! k))])"
  by (simp add: cpu_row_ops_def cpu_eval_def eval_registers_def eval_shard_clk_def eval_pc_def eval_control_flags_def eval_is_real_def
      eval_range_check_24bits_def Let_def send_program_def air_lookup_new_def)

lemma cpu_row_instruction:
  "instruction_sends (cpu_row_ops pv rows k) = (if cp_is_real (rows ! k) = 0 then [] else [cpu_message (rows ! k)])"
  by (simp add: cpu_row_ops_def cpu_eval_def eval_registers_def eval_shard_clk_def eval_pc_def eval_control_flags_def eval_is_real_def
      eval_range_check_24bits_def Let_def send_program_def air_lookup_new_def)

section \<open>Instructions that a program table proves\<close>

text \<open>The padding rows of the program table offer an addition without effect at address 0.\<close>

definition proved_instruction :: "program \<Rightarrow> u32 \<Rightarrow> instruction \<Rightarrow> bool" where
  "proved_instruction prog pc i \<longleftrightarrow> program_fetch prog pc = (Inr i :: (execution_error, instruction) outcome) \<or> pc = 0 \<and> i = nop"

definition row_instruction :: "koala instruction_cols \<Rightarrow> instruction \<Rightarrow> bool" where
  "row_instruction c i \<longleftrightarrow> ic_opcode c = opcode_as_field (opcode i) \<and> ic_op_a c = from_canonical_u32 (ucast (op_a i)) \<and>
     limb_list (ic_op_b c) = limb_list (word_from (op_b i)) \<and> limb_list (ic_op_c c) = limb_list (word_from (op_c i)) \<and>
     ic_imm_b c = from_bool (imm_b i) \<and> ic_imm_c c = from_bool (imm_c i) \<and>
     (ic_op_a_0 c = from_bool (op_a i = 0) \<or> i = nop \<and> ic_op_a_0 c = 0)"

definition program_fits :: "program \<Rightarrow> bool" where
  "program_fits prog \<longleftrightarrow> unat (prog_pc_base prog) + 4 * length (prog_instructions prog) + 4 < 2130706433"

definition program_table :: "program \<Rightarrow> nat \<Rightarrow> koala list \<Rightarrow> koala list list" where
  "program_table prog padded_nb_rows multiplicities =
     concat (map (\<lambda>(prep, m). program_receives (program_eval prep m)) (zip (program_preprocessed_trace prog padded_nb_rows) multiplicities))"

lemma program_tableD:
  assumes "v \<in> set (program_table prog n ms)"
  obtains prep where "prep \<in> set (program_preprocessed_trace prog n)" "v = pp_pc prep # instruction_list (pp_instruction prep)"
  using assms by (auto simp: program_table_def program_eval_def receive_program_def air_lookup_new_def dest: set_zip_leftD split: if_splits)

lemma table_pc:
  assumes fits: "program_fits prog" and idx: "idx < length (prog_instructions prog)"
  defines "pc \<equiv> prog_pc_base prog + of_nat idx * 4"
  shows "unat pc = unat (prog_pc_base prog) + 4 * idx" "program_fetch prog pc = (Inr (prog_instructions prog ! idx) :: (execution_error, instruction) outcome)"
proof -
  have small: "unat (prog_pc_base prog) + 4 * idx < 2130706433" using fits idx by (simp add: program_fits_def)
  have four: "(of_nat idx * 4 :: u32) = of_nat (4 * idx)" by simp
  have off: "unat (of_nat idx * 4 :: u32) = 4 * idx" unfolding four using small by (simp only: unsigned_of_nat take_bit_eq_mod) simp
  show "unat pc = unat (prog_pc_base prog) + 4 * idx"
    unfolding pc_def using small off by (subst unat_add_lem [THEN iffD1]) simp_all
  have "unat ((pc - prog_pc_base prog) div 4) = idx" by (simp add: pc_def unat_div_distrib off)
  then show "program_fetch prog pc = (Inr (prog_instructions prog ! idx) :: (execution_error, instruction) outcome)"
    using idx by (simp add: program_fetch_def)
qed

lemma instruction_list_inject:
  "instruction_list x = instruction_list y \<longleftrightarrow> ic_opcode x = ic_opcode y \<and> ic_op_a x = ic_op_a y \<and> limb_list (ic_op_b x) = limb_list (ic_op_b y) \<and>
     limb_list (ic_op_c x) = limb_list (ic_op_c y) \<and> ic_op_a_0 x = ic_op_a_0 y \<and> ic_imm_b x = ic_imm_b y \<and> ic_imm_c x = ic_imm_c y"
  by (auto simp: instruction_list_def limb_list_def)

lemma fetched:
  assumes fits: "program_fits prog" and v: "pc # instruction_list c \<in> set (program_table prog n ms)"
  obtains i where "proved_instruction prog (field_word pc) i" "row_instruction c i" "canon pc + 4 < 2130706433"
    "i = nop \<or> i \<in> set (prog_instructions prog)"
proof -
  obtain prep where prep: "prep \<in> set (program_preprocessed_trace prog n)" "pc = pp_pc prep" "instruction_list c = instruction_list (pp_instruction prep)"
    using program_tableD [OF v] by auto
  from prep(1) consider (instr) idx where "idx < length (prog_instructions prog)" "pp_pc prep = from_canonical_u32 (prog_pc_base prog + of_nat idx * 4)"
      "pp_instruction prep = instruction_populate (prog_instructions prog ! idx)"
    | (pad) "pp_pc prep = 0" "pp_instruction prep = instruction_cols_zero"
    by (auto simp: program_preprocessed_trace_def)
  then show ?thesis
  proof cases
    case instr
    note P = table_pc [OF fits instr(1)]
    have small: "unat (prog_pc_base prog) + 4 * idx + 4 < 2130706433" using fits instr(1) by (simp add: program_fits_def)
    show ?thesis
    proof (rule that)
      show "proved_instruction prog (field_word pc) (prog_instructions prog ! idx)"
        using small P by (simp add: proved_instruction_def prep(2) instr(2) field_word_from)
      show "row_instruction c (prog_instructions prog ! idx)"
        using prep(3) by (simp add: instruction_list_inject instr(3) instruction_populate_def row_instruction_def)
      show "canon pc + 4 < 2130706433" using small P by (simp add: prep(2) instr(2) canon_from_u32)
      show "prog_instructions prog ! idx = nop \<or> prog_instructions prog ! idx \<in> set (prog_instructions prog)" using instr(1) by simp
    qed
  next
    case pad
    show ?thesis
    proof (rule that)
      show "proved_instruction prog (field_word pc) nop" by (simp add: proved_instruction_def prep(2) pad(1) field_word_def)
      show "row_instruction c nop"
        using prep(3) by (simp add: instruction_list_inject pad(2) instruction_cols_zero_def row_instruction_def nop_def instruction_new_def
            limb_list_word_from_0 opcode_as_field_def from_canonical_u8_def from_canonical_u32_def from_bool_def)
    qed (simp_all add: prep(2) pad(1))
  qed
qed

end
