(* ===== verification/Hi_Writes.thy ===== *)
theory Hi_Writes
  imports Shard
begin

text \<open>
  Memory messages of the instruction chips. Only a multiplication or division that writes \<open>HI\<close> accesses memory, and
  such a row receives a message that the CPU sent for an instruction of that kind.
\<close>

section \<open>Gadgets without memory messages\<close>

lemma memory_concat [simp]:
  "memory_sends (concat xss) = concat (map memory_sends xss)" "memory_receives (concat xss) = concat (map memory_receives xss)"
  by (induction xss) simp_all

lemma memory_when_not [simp]: "memory_sends (when_not c ops) = memory_sends ops" "memory_receives (when_not c ops) = memory_receives ops"
  by (simp_all add: when_not_def)

lemma memory_u16 [simp]: "memory_sends (slice_range_check_u16 xs m) = []" "memory_receives (slice_range_check_u16 xs m) = []"
  by (simp_all add: slice_range_check_u16_def)

lemma memory_gadgets [simp]:
  "memory_sends (add_operation_eval a b cols r) = []" "memory_receives (add_operation_eval a b cols r) = []"
  "memory_sends (is_zero_eval x z r) = []" "memory_receives (is_zero_eval x z r) = []"
  "memory_sends (is_zero_word_eval w izw r) = []" "memory_receives (is_zero_word_eval w izw r) = []"
  "memory_sends (is_equal_word_eval v w izw r) = []" "memory_receives (is_equal_word_eval v w izw r) = []"
  "memory_sends (word_range_check w wr r) = []" "memory_receives (word_range_check w wr r) = []"
  by (simp_all add: add_operation_eval_def is_zero_eval_def is_zero_word_eval_def is_equal_word_eval_def word_range_check_def Let_def)

lemma no_memory_rows:
  "memory_sends (add_sub_eval r1) = []" "memory_receives (add_sub_eval r1) = []"
  "memory_sends (bitwise_eval r2) = []" "memory_receives (bitwise_eval r2) = []"
  "memory_sends (lt_eval r3) = []" "memory_receives (lt_eval r3) = []"
  "memory_sends (shift_left_eval r4) = []" "memory_receives (shift_left_eval r4) = []"
  "memory_sends (shift_right_eval r5) = []" "memory_receives (shift_right_eval r5) = []"
  "memory_sends (clo_clz_eval r6) = []" "memory_receives (clo_clz_eval r6) = []"
  "memory_sends (branch_eval r7) = []" "memory_receives (branch_eval r7) = []"
  "memory_sends (jump_eval r8) = []" "memory_receives (jump_eval r8) = []"
  "memory_sends (mov_cond_eval r9) = []" "memory_receives (mov_cond_eval r9) = []"
  by (simp_all add: add_sub_eval_def bitwise_eval_def lt_eval_def shift_left_eval_def shift_right_eval_def clo_clz_eval_def branch_eval_def
      branch_eval_pc_def branch_eval_condition_def jump_eval_def mov_cond_eval_def eval_wsbh_def Let_def)

section \<open>Rows that write \<open>HI\<close>\<close>

definition hi_ops :: "opcode set" where "hi_ops = {Op_MULT, Op_MULTU, Op_DIV, Op_DIVU}"

lemma mul_memory:
  assumes acc: "accepted (mul_eval r)" and "memory_sends (mul_eval r) \<noteq> [] \<or> memory_receives (mul_eval r) \<noteq> []"
  shows "\<exists>m\<in>set (instruction_receives (mul_eval r)). message_check_memory m \<noteq> 0 \<and> message_opcode m \<in> opcode_as_field ` hi_ops"
proof -
  have hi: "mul_hi_record_is_real r \<noteq> 0"
    using assms(2) access_off by (auto simp: mul_eval_def Let_def)
  note acc = acc [unfolded mul_eval_def Let_def accepted_append]
  have b: "accepted (assert_bool (mul_is_mul r))" "accepted (assert_bool (mul_is_mult r))" "accepted (assert_bool (mul_is_multu r))"
    "accepted (when_not (mul_is_real r) (assert_zero (mul_hi_record_is_real r)))"
    "accepted (when_cond (mul_is_real r) (assert_one (mul_is_mul r + mul_is_mult r + mul_is_multu r)))"
    "accepted (when_cond (mul_hi_record_is_real r) (assert_one (mul_is_mult r + mul_is_multu r)))"
    by (insert acc, (elim conjE, assumption)+)
  then have real: "mul_is_real r \<noteq> 0" "mul_is_mult r + mul_is_multu r = 1" "mul_is_mul r = 0" using hi by auto
  have "mul_is_mult r * opcode_as_field Op_MULT + mul_is_multu r * opcode_as_field Op_MULTU \<in> opcode_as_field ` hi_ops"
    using b(2,3) real(2) by (auto simp: hi_ops_def)
  then show ?thesis using real hi by (simp add: mul_eval_def Let_def)
qed

lemma div_rem_memory:
  assumes acc: "accepted (div_rem_eval r)" and "memory_sends (div_rem_eval r) \<noteq> [] \<or> memory_receives (div_rem_eval r) \<noteq> []"
  shows "\<exists>m\<in>set (instruction_receives (div_rem_eval r)). message_check_memory m \<noteq> 0 \<and> message_opcode m \<in> opcode_as_field ` hi_ops"
proof -
  have hi: "dr_is_div r + dr_is_divu r \<noteq> 0"
    using assms(2) access_off by (auto simp: div_rem_evals Let_def if_distrib [of memory_sends] if_distrib [of memory_receives] cong: if_cong)
  have "dr_is_real r \<noteq> 0" using div_rem_facts(23-26) [OF acc] hi by (auto simp: dr_is_real_def)
  then obtain op where op: "op \<in> {Op_DIV, Op_DIVU, Op_MOD, Op_MODU}" "dr_is_div r = from_bool (op = Op_DIV)"
    "dr_is_divu r = from_bool (op = Op_DIVU)" "dr_is_mod r = from_bool (op = Op_MOD)" "dr_is_modu r = from_bool (op = Op_MODU)"
    by (rule div_rem_opcode [OF acc])
  then have "op \<in> {Op_DIV, Op_DIVU}" using hi by auto
  then show ?thesis using op(2-5) by (auto simp: div_rem_receives Let_def hi_ops_def)
qed

lemma row_memory:
  assumes "accepted (instr_row_eval r)" "memory_sends (instr_row_eval r) \<noteq> [] \<or> memory_receives (instr_row_eval r) \<noteq> []"
  shows "\<exists>m\<in>set (instruction_receives (instr_row_eval r)). message_check_memory m \<noteq> 0 \<and> message_opcode m \<in> opcode_as_field ` hi_ops"
proof (cases r)
  case (Row_Alu a)
  then show ?thesis using assms mul_memory div_rem_memory by (cases a) (simp_all add: no_memory_rows)
qed (use assms in \<open>simp_all add: no_memory_rows\<close>)

lemma row_sends_no_check: "s \<in> set (instruction_sends (instr_row_eval r)) \<Longrightarrow> message_check_memory s = 0"
proof (cases r)
  case (Row_Alu a)
  assume "s \<in> set (instruction_sends (instr_row_eval r))"
  then show ?thesis using Row_Alu
    by (cases a) (auto simp: leaf_sends [unfolded sends_messages.simps] div_rem_sends clo_clz_eval_def Let_def split: if_splits)
next
  case (Row_Branch b)
  assume "s \<in> set (instruction_sends (instr_row_eval r))"
  then show ?thesis using Row_Branch
    by (auto simp: branch_eval_def branch_eval_pc_def branch_eval_condition_def Let_def split: if_splits)
next
  case (Row_Jump j)
  assume "s \<in> set (instruction_sends (instr_row_eval r))"
  then show ?thesis using Row_Jump by (auto simp: jump_eval_def Let_def split: if_splits)
next
  case (Row_Mov_Cond c)
  assume "s \<in> set (instruction_sends (instr_row_eval r))"
  then show ?thesis using Row_Mov_Cond by (auto simp: mov_cond_eval_def eval_wsbh_def Let_def)
qed

text \<open>If the CPU sends no multiplication or division that writes \<open>HI\<close>, the rows leave memory alone.\<close>

lemma bus_no_memory:
  assumes bus: "instruction_bus cpu_sends trace" and cpu: "\<And>m. m \<in># cpu_sends \<Longrightarrow> message_opcode m \<notin> opcode_as_field ` hi_ops"
    and r: "r \<in> set trace"
  shows "memory_sends (instr_row_eval r) = [] \<and> memory_receives (instr_row_eval r) = []"
proof (rule ccontr)
  assume "\<not> ?thesis"
  moreover have "accepted (instr_row_eval r)" using bus r by (simp add: instruction_bus_def list_all_iff)
  ultimately obtain m where m: "m \<in> set (instruction_receives (instr_row_eval r))" "message_check_memory m \<noteq> 0" "message_opcode m \<in> opcode_as_field ` hi_ops"
    using row_memory [of r] by blast
  have "m \<in># mset (concat (map (instruction_receives \<circ> instr_row_eval) trace))" using r m(1) by auto
  then have "m \<in># cpu_sends + mset (concat (map (instruction_sends \<circ> instr_row_eval) trace))"
    using bus unfolding instruction_bus_def by metis
  then have "m \<in># cpu_sends \<or> (\<exists>r'\<in>set trace. m \<in> set (instruction_sends (instr_row_eval r')))" by auto
  then show False using m cpu row_sends_no_check by blast
qed

end
