(* ===== verification/Shard_Execution.thy ===== *)
theory Shard_Execution
  imports Hi_Writes
begin

text \<open>
  The statement about a whole shard: if its rows are accepted and its buses balance, its public values and register
  records are those of an execution of the program by the instruction-set semantics.
\<close>

section \<open>Accepted shards\<close>

record shard =
  sh_cpu :: "koala cpu_cols list"
  sh_instructions :: "instr_row list"
  sh_multiplicities :: "koala list"
  sh_initial :: "register \<Rightarrow> memory_record"
  sh_final :: "register \<Rightarrow> memory_record"

definition reg_addr :: "register \<Rightarrow> koala" where
  "reg_addr r = from_canonical_u32 (reg_index r)"

definition record_message :: "koala \<Rightarrow> memory_record \<Rightarrow> koala list" where
  "record_message a rec = [from_canonical_u32 (rec_shard rec), from_canonical_u32 (rec_timestamp rec), a] @ limb_list (word_from (rec_value rec))"

definition shard_ops :: "koala cpu_public \<Rightarrow> shard \<Rightarrow> koala air_op list list" where
  "shard_ops pv sh = map (cpu_row_ops pv (sh_cpu sh)) [0..<length (sh_cpu sh)] @ map instr_row_eval (sh_instructions sh)"

text \<open>A register that the shard does not touch has the same record at its start and end.\<close>

definition memory_balanced :: "koala cpu_public \<Rightarrow> shard \<Rightarrow> bool" where
  "memory_balanced pv sh \<longleftrightarrow>
     mset (map (\<lambda>r. record_message (reg_addr r) (sh_initial sh r)) all_registers) + mset (concat (map memory_receives (shard_ops pv sh))) =
     mset (map (\<lambda>r. record_message (reg_addr r) (sh_final sh r)) all_registers) + mset (concat (map memory_sends (shard_ops pv sh)))"

definition shard_accepted :: "program \<Rightarrow> nat \<Rightarrow> koala cpu_public \<Rightarrow> shard \<Rightarrow> bool" where
  "shard_accepted prog padded_nb_rows pv sh \<longleftrightarrow>
     sh_cpu sh \<noteq> [] \<and> cpu_accepted pv (sh_cpu sh) \<and>
     list_all (\<lambda>k. set (program_sends (cpu_row_ops pv (sh_cpu sh) k)) \<subseteq> set (program_table prog padded_nb_rows (sh_multiplicities sh)))
       [0..<length (sh_cpu sh)] \<and>
     instruction_bus (mset (concat (map (\<lambda>k. instruction_sends (cpu_row_ops pv (sh_cpu sh) k)) [0..<length (sh_cpu sh)]))) (sh_instructions sh) \<and>
     memory_balanced pv sh"

text \<open>What the shard relies on: register 0 holds zero, and the records are older than the clock can express.\<close>

definition initial_registers :: "(register \<Rightarrow> memory_record) \<Rightarrow> bool" where
  "initial_registers f \<longleftrightarrow> rec_value (f R_ZERO) = 0 \<and>
     list_all (\<lambda>r. unat (rec_shard (f r)) < 2 ^ 25 \<and> unat (rec_timestamp (f r)) < 2 ^ 25) all_registers"

text \<open>A step of the program: the instruction at the program counter, executed by the instruction-set semantics. An
  instruction whose target is the address 0 has no step: there the executor reports a null pointer.\<close>

definition program_step :: "program \<Rightarrow> arch \<Rightarrow> arch \<Rightarrow> bool" where
  "program_step prog m m' \<longleftrightarrow> (\<exists>i. program_fetch prog (ar_pc m) = (Inr i :: (execution_error, instruction) outcome) \<and> isa_step i m = Inr m')"

definition program_null :: "program \<Rightarrow> arch \<Rightarrow> bool" where
  "program_null prog m \<longleftrightarrow> (\<exists>i. program_fetch prog (ar_pc m) = (Inr i :: (execution_error, instruction) outcome) \<and>
     isa_step i m = Inl (Err NullPointerReference))"

text \<open>An intermediate notion, the step that a single row proves: unlike the executor the tables do not exclude the
  address 0, neither as a target nor as the address of the padding of the program table.\<close>

definition proved_step :: "program \<Rightarrow> arch \<Rightarrow> arch \<Rightarrow> bool" where
  "proved_step prog m m' \<longleftrightarrow> (\<exists>i m1 target. proved_instruction prog (ar_pc m) i \<and> isa_exec i m = Inr (m1, target) \<and>
     m' = m1\<lparr>ar_pc := ar_next_pc m, ar_next_pc := target\<rparr>)"

section \<open>Registers\<close>

lemma reg_addr_inject [simp]: "reg_addr x = reg_addr y \<longleftrightarrow> x = y"
proof
  assume eq: "reg_addr x = reg_addr y"
  have "unat (reg_index z) < 2130706433" for z by (cases z) simp_all
  then have "unat (reg_index x) = unat (reg_index y)"
    using eq canon_from_u32 [of "reg_index x"] canon_from_u32 [of "reg_index y"] by (simp add: reg_addr_def)
  then have "reg_index x = reg_index y" by (simp add: word_unat_eq_iff)
  then show "x = y" by (cases x; cases y; simp)
qed simp

lemma reg_addr_from:
  assumes "register_from v = (Inr x :: (execution_error, register) outcome)" "reg_index x = ucast v"
  shows "reg_addr x = from_canonical_u32 (ucast v)"
  using assms(2) by (simp add: reg_addr_def)

lemma low_limb: "word_from v 0 = (from_canonical_u32 (ucast (ucast v :: u8)) :: koala)"
proof -
  have "unat (ucast (ucast v :: u8) :: u32) = unat (ucast v :: u8)" by (rule unat_ucast_u8_u32)
  then show ?thesis by (simp add: word_from_def byte_at_def from_canonical_u8_def from_canonical_u32_def del: of_nat_unat)
qed

section \<open>Rows of an accepted shard\<close>

lemma shard_acceptedD:
  assumes "shard_accepted prog n pv sh"
  shows "sh_cpu sh \<noteq> []" "cpu_accepted pv (sh_cpu sh)"
    "k < length (sh_cpu sh) \<Longrightarrow> set (program_sends (cpu_row_ops pv (sh_cpu sh) k)) \<subseteq> set (program_table prog n (sh_multiplicities sh))"
    "instruction_bus (mset (concat (map (\<lambda>k. instruction_sends (cpu_row_ops pv (sh_cpu sh) k)) [0..<length (sh_cpu sh)]))) (sh_instructions sh)"
    "memory_balanced pv sh"
  using assms by (simp_all add: shard_accepted_def list_all_iff)

lemma shard_fetched:
  assumes acc: "shard_accepted prog n pv sh" and fits: "program_fits prog" and k: "k < real_count (sh_cpu sh)"
  defines "r \<equiv> sh_cpu sh ! k"
  obtains i where "proved_instruction prog (field_word (cp_pc r)) i" "row_instruction (cp_instruction r) i" "canon (cp_pc r) + 4 < 2130706433"
    "i = nop \<or> i \<in> set (prog_instructions prog)"
proof -
  note cpu = shard_acceptedD(2) [OF acc]
  note real = real_row [OF cpu k]
  have "cp_pc r # instruction_list (cp_instruction r) \<in> set (program_table prog n (sh_multiplicities sh))"
    using shard_acceptedD(3) [OF acc real(1)] real(2) by (simp add: cpu_row_program r_def)
  then show ?thesis by (rule fetched [OF fits]) (rule that)
qed

lemma core_not_hi: "core_instruction i \<Longrightarrow> opcode i \<notin> hi_ops"
  by (auto simp: core_instruction_def hi_ops_def is_branch_instruction_def is_jump_instruction_def)

text \<open>The operands of a row, without reference to the registers.\<close>

lemma row_operands:
  assumes acc: "cpu_accepted pv rows" and k: "k < real_count rows" and i: "row_instruction (cp_instruction (rows ! k)) i"
  defines "r \<equiv> rows ! k"
  shows "byte_word (op_b_val r)" "imm_b i \<Longrightarrow> to_u32 (op_b_val r) = op_b i"
    "byte_word (op_c_val r)" "imm_c i \<Longrightarrow> to_u32 (op_c_val r) = op_c i"
proof -
  note real = real_row [OF acc k]
  note R = cpu_registers [OF acc real(1), folded r_def] and B = row_access_bytes [OF acc k, folded r_def]
  note I = i [folded r_def, unfolded row_instruction_def]
  have b: "limb_list (op_b_val r) = limb_list (word_from (op_b i))" if "imm_b i" using R(1) I that by (simp add: limb_list_def)
  have c: "limb_list (op_c_val r) = limb_list (word_from (op_c i))" if "imm_c i" using R(2) I that by (simp add: limb_list_def)
  show "byte_word (op_b_val r)" using byte_word_cong [OF b] B(2) I by (cases "imm_b i") simp_all
  show "byte_word (op_c_val r)" using byte_word_cong [OF c] B(3) I by (cases "imm_c i") simp_all
  show "imm_b i \<Longrightarrow> to_u32 (op_b_val r) = op_b i" using to_u32_cong [OF b] by simp
  show "imm_c i \<Longrightarrow> to_u32 (op_c_val r) = op_c i" using to_u32_cong [OF c] by simp
qed

lemma row_message_valid:
  assumes acc: "shard_accepted prog n pv sh" and k: "k < real_count (sh_cpu sh)" and i: "row_instruction (cp_instruction (sh_cpu sh ! k)) i"
  shows "instruction_message_valid (cpu_message (sh_cpu sh ! k))"
proof -
  note cpu = shard_acceptedD(2) [OF acc]
  note real = real_row [OF cpu k] and O = row_operands [OF cpu k i]
  have "operands_ok (cpu_message (sh_cpu sh ! k))"
    using O(1,3) unfolding cpu_message_def operands_ok_def message_simps by (intro disjI2 conjI) (simp_all add: byte_word_def limb_list_def)
  moreover have "cpu_message (sh_cpu sh ! k) \<in># mset (concat (map (\<lambda>k. instruction_sends (cpu_row_ops pv (sh_cpu sh) k)) [0..<length (sh_cpu sh)]))"
    using real by (auto simp: cpu_row_instruction intro!: bexI [of _ k])
  ultimately show ?thesis using instruction_bus_sound [OF shard_acceptedD(4) [OF acc]] by blast
qed

lemma no_extra_cycles: "instruction_message_valid (cpu_message r) \<Longrightarrow> cp_num_extra_cycles r = 0 \<and> cp_is_halt r = 0"
  by (auto simp: instruction_message_valid_def sequential_message_def branch_message_valid_def jump_message_valid_def mov_cond_message_valid_def
      cpu_message_def)

section \<open>Accesses of an accepted shard\<close>

lemma concat_rows: "concat (map (\<lambda>k. f (xs ! k)) [0..<length xs]) = concat (map f xs)"
proof -
  have "map (\<lambda>k. f (xs ! k)) [0..<length xs] = map f (map ((!) xs) [0..<length xs])" by simp
  then show ?thesis by (simp only: map_nth)
qed

lemma real_accesses:
  assumes "cpu_accepted pv rows"
  shows "concat (map row_accesses rows) = accesses_before rows (real_count rows)"
proof -
  have "row_accesses r = []" if r: "r \<in> set (drop (real_count rows) rows)" for r
  proof -
    obtain j where "j < length rows - real_count rows" "r = rows ! (real_count rows + j)"
      using r real_count_le [of rows] by (auto simp: in_set_conv_nth)
    then show ?thesis using padding_accesses [OF assms, of "real_count rows + j"] by simp
  qed
  then have "concat (map row_accesses (drop (real_count rows) rows)) = []" by simp
  moreover have "map row_accesses rows = map row_accesses (take (real_count rows) rows) @ map row_accesses (drop (real_count rows) rows)"
    by (simp flip: map_append)
  ultimately show ?thesis by (metis append_Nil2 concat_append)
qed

lemma cpu_memory:
  assumes "cpu_accepted pv rows"
  shows "mset (concat (map memory_receives (map (cpu_row_ops pv rows) [0..<length rows]))) = mset (map cur_message (accesses_before rows (real_count rows)))"
    "mset (concat (map memory_sends (map (cpu_row_ops pv rows) [0..<length rows]))) = mset (map prev_message (accesses_before rows (real_count rows)))"
proof -
  have "mset (concat (map memory_receives (map (cpu_row_ops pv rows) ks))) = mset (map cur_message (concat (map (\<lambda>k. row_accesses (rows ! k)) ks)))"
    "mset (concat (map memory_sends (map (cpu_row_ops pv rows) ks))) = mset (map prev_message (concat (map (\<lambda>k. row_accesses (rows ! k)) ks)))"
    if "list_all (\<lambda>k. k < length rows) ks" for ks
    using that by (induction ks) (simp_all add: cpu_row_memory [OF assms] del: mset_map)
  then show "mset (concat (map memory_receives (map (cpu_row_ops pv rows) [0..<length rows]))) = mset (map cur_message (accesses_before rows (real_count rows)))"
    "mset (concat (map memory_sends (map (cpu_row_ops pv rows) [0..<length rows]))) = mset (map prev_message (accesses_before rows (real_count rows)))"
    unfolding real_accesses [OF assms, symmetric] concat_rows [of row_accesses rows, symmetric] by (simp_all add: list_all_iff del: mset_map)
qed

text \<open>The hypotheses about a shard, collected.\<close>

definition core_shard :: "program \<Rightarrow> nat \<Rightarrow> koala cpu_public \<Rightarrow> shard \<Rightarrow> bool" where
  "core_shard prog n pv sh \<longleftrightarrow> list_all core_instruction (prog_instructions prog) \<and> program_fits prog \<and> shard_accepted prog n pv sh \<and>
     initial_registers (sh_initial sh)"

lemma core_shardD:
  assumes "core_shard prog n pv sh"
  shows "shard_accepted prog n pv sh" "program_fits prog" "cpu_accepted pv (sh_cpu sh)" "rec_value (sh_initial sh R_ZERO) = 0"
  using assms shard_acceptedD(2) by (auto simp: core_shard_def initial_registers_def)

lemma shard_row:
  assumes core: "core_shard prog n pv sh" and k: "k < real_count (sh_cpu sh)"
  defines "r \<equiv> sh_cpu sh ! k"
  obtains i where "proved_instruction prog (field_word (cp_pc r)) i" "row_instruction (cp_instruction r) i" "canon (cp_pc r) + 4 < 2130706433"
    "core_instruction i" "instruction_message_valid (cpu_message r)"
proof -
  note D = core_shardD [OF core]
  obtain i where i: "proved_instruction prog (field_word (cp_pc r)) i" "row_instruction (cp_instruction r) i" "canon (cp_pc r) + 4 < 2130706433"
      "i = nop \<or> i \<in> set (prog_instructions prog)"
    using shard_fetched [OF D(1,2) k] unfolding r_def by blast
  moreover have "core_instruction i" using i(4) core core_nop by (auto simp: core_shard_def list_all_iff)
  ultimately show ?thesis using that row_message_valid [OF D(1) k] unfolding r_def by blast
qed

lemma shard_no_memory:
  assumes core: "core_shard prog n pv sh" and r: "r \<in> set (sh_instructions sh)"
  shows "memory_sends (instr_row_eval r) = [] \<and> memory_receives (instr_row_eval r) = []"
proof (rule bus_no_memory [OF shard_acceptedD(4) [OF core_shardD(1) [OF core]] _ r])
  fix m
  assume "m \<in># mset (concat (map (\<lambda>k. instruction_sends (cpu_row_ops pv (sh_cpu sh) k)) [0..<length (sh_cpu sh)]))"
  then obtain k where k: "k < length (sh_cpu sh)" "cp_is_real (sh_cpu sh ! k) \<noteq> 0" "m = cpu_message (sh_cpu sh ! k)"
    by (auto simp: cpu_row_instruction split: if_splits)
  then have "k < real_count (sh_cpu sh)" using real_iff [OF core_shardD(3) [OF core] k(1)] by (auto simp: from_bool_def split: if_splits)
  then obtain i where "row_instruction (cp_instruction (sh_cpu sh ! k)) i" "core_instruction i" by (rule shard_row [OF core])
  then have "message_opcode m = opcode_as_field (opcode i)" "opcode i \<notin> hi_ops"
    using core_not_hi by (simp_all add: k(3) cpu_message_def row_instruction_def)
  then show "message_opcode m \<notin> opcode_as_field ` hi_ops" by auto
qed

definition initial_message :: "shard \<Rightarrow> koala \<Rightarrow> koala list" where
  "initial_message sh a = record_message a (sh_initial sh (inv reg_addr a))"

definition final_record_message :: "shard \<Rightarrow> koala \<Rightarrow> koala list" where
  "final_record_message sh a = record_message a (sh_final sh (inv reg_addr a))"

lemma inv_reg_addr [simp]: "inv reg_addr (reg_addr x) = x"
  by (intro inv_f_f injI) simp

lemma shard_order:
  assumes core: "core_shard prog n pv sh"
  shows "program_order (map reg_addr all_registers) (initial_message sh) (final_record_message sh) (accesses_before (sh_cpu sh) (real_count (sh_cpu sh)))"
proof -
  let ?rows = "sh_cpu sh" and ?K = "real_count (sh_cpu sh)"
  note D = core_shardD [OF core]
  have extra: "cp_num_extra_cycles (?rows ! j) = 0" if j: "j < ?K" for j
  proof -
    from j obtain i where "instruction_message_valid (cpu_message (?rows ! j))" by (rule shard_row [OF core])
    then show ?thesis using no_extra_cycles by blast
  qed
  have sorted: "sorted_wrt (\<lambda>p q. message_time (cur_message p) < message_time (cur_message q)) (accesses_before ?rows ?K)"
    using accesses_ordered [OF D(3) extra order.refl] by blast
  have acc: "accesses_accepted (accesses_before ?rows ?K)"
  proof -
    have "accepted (access_ops a row) \<and> time_in_range (access_cur a row)" if "(a, row) \<in> set (row_accesses (?rows ! k))" "k < ?K" for a row k
      using row_access_bytes(1) [OF D(3) that(2)] row_times(1) [OF D(3) that(2,1)] that(1) by (auto simp: list_all_iff simp del: access_cur.simps)
    moreover have "set (take ?K ?rows) = (!) ?rows ` {..<?K}" using real_count_le [of ?rows] by (simp add: nth_image lessThan_atLeast0)
    ultimately show ?thesis by (auto simp: accesses_accepted_def list_all_iff simp del: access_cur.simps)
  qed
  have silent: "concat (map memory_receives (map instr_row_eval (sh_instructions sh))) = []" "concat (map memory_sends (map instr_row_eval (sh_instructions sh))) = []"
    using shard_no_memory [OF core] by simp_all
  have "accesses_balanced (map reg_addr all_registers) (initial_message sh) (final_record_message sh) (accesses_before ?rows ?K)"
    using shard_acceptedD(5) [OF D(1)] cpu_memory [OF D(3)]
    unfolding memory_balanced_def accesses_balanced_def shard_ops_def map_append concat_append mset_append silent
    by (simp add: initial_message_def final_record_message_def comp_def)
  moreover have "time_in_range (record_message a (sh_initial sh r))" for a r
  proof -
    have "r \<in> set all_registers" by (cases r) (simp_all add: all_registers_def)
    then have "unat (rec_shard (sh_initial sh r)) < 2 ^ 25" "unat (rec_timestamp (sh_initial sh r)) < 2 ^ 25"
      using core by (simp_all add: core_shard_def initial_registers_def list_all_iff)
    then show ?thesis by (simp add: time_in_range_def record_message_def canon_from_u32)
  qed
  moreover have "distinct (map reg_addr all_registers)" by (simp add: distinct_map inj_on_def) (simp add: all_registers_def)
  ultimately show ?thesis
    unfolding program_order_def using sorted acc by (simp add: initial_message_def final_record_message_def list_all_iff) (simp add: record_message_def)
qed

section \<open>Execution\<close>

text \<open>The registers before a row.\<close>

definition shard_regs :: "shard \<Rightarrow> nat \<Rightarrow> register \<Rightarrow> u32" where
  "shard_regs sh k r = regfile (initial_message sh) (accesses_before (sh_cpu sh) k) (reg_addr r)"

lemma record_message_value [simp]: "message_value (record_message a rec) = rec_value rec"
  by (simp only: record_message_def message_value_limbs to_u32_word_from)

lemma shard_regs_first [simp]: "shard_regs sh 0 r = rec_value (sh_initial sh r)"
  by (simp add: shard_regs_def regfile_def initial_message_def)

lemma shard_regs_last:
  assumes "core_shard prog n pv sh"
  shows "shard_regs sh (real_count (sh_cpu sh)) r = rec_value (sh_final sh r)"
proof -
  have "r \<in> set all_registers" by (cases r) (simp_all add: all_registers_def)
  then show ?thesis using final_message [OF shard_order [OF assms], of "reg_addr r"]
    by (simp add: shard_regs_def regfile_def final_record_message_def flip: record_message_value [of "reg_addr r" "sh_final sh r"])
qed

lemma operand_register:
  assumes "(ucast op :: u8) < 36" "to_u32 v = f (word_from op 0)"
  shows "operand_value False op (\<lambda>x. f (reg_addr x)) (to_u32 v)"
proof -
  obtain x where x: "register_from (ucast op) = (Inr x :: (execution_error, register) outcome)" "reg_index x = ucast (ucast op :: u8)"
    using register_from_index_eq [OF assms(1)] by blast
  then have "reg_addr x = word_from op 0" by (simp add: reg_addr_def low_limb)
  then show ?thesis using x(1) assms(2) by (auto simp: operand_cases)
qed

lemma shard_row_ok:
  assumes core: "core_shard prog n pv sh" and k: "k < real_count (sh_cpu sh)" and zero: "shard_regs sh k R_ZERO = 0"
    and i: "row_instruction (cp_instruction (sh_cpu sh ! k)) i" "core_instruction i"
  obtains rd where "row_ok (sh_cpu sh ! k) i rd (shard_regs sh k)" "shard_regs sh (Suc k) = row_regs (sh_cpu sh ! k) rd (shard_regs sh k)"
proof -
  let ?r = "sh_cpu sh ! k" and ?f = "regfile (initial_message sh) (accesses_before (sh_cpu sh) k)"
  note acc = core_shardD(3) [OF core]
  note real = real_row [OF acc k]
  note I = i(1) [unfolded row_instruction_def] and O = row_operands [OF acc k i(1)]
  note R = cpu_registers [OF acc real(1)] and B = row_access_bytes [OF acc k]
  note S = row_reads [OF shard_order [OF core] k real_count_le real(2)]
  have regs: "op_a i < 36" "imm_b i \<or> (ucast (op_b i) :: u8) < 36" "imm_c i \<or> (ucast (op_c i) :: u8) < 36"
    using i(2) by (simp_all add: core_instruction_def)
  have low: "ic_op_b (cp_instruction ?r) 0 = word_from (op_b i) 0" "ic_op_c (cp_instruction ?r) 0 = word_from (op_c i) 0"
    using I by (simp_all add: limb_list_def)
  obtain rd where rd: "register_from (op_a i) = (Inr rd :: (execution_error, register) outcome)" "reg_index rd = ucast (op_a i)"
    using register_from_index_eq [OF regs(1)] by blast
  have a: "ic_op_a (cp_instruction ?r) = reg_addr rd" using I rd(2) by (simp add: reg_addr_def)
  have "rd = R_ZERO \<Longrightarrow> unat (op_a i) = 0" using arg_cong [OF rd(2), of unat] by simp
  then have rd0: "op_a i = 0 \<longleftrightarrow> rd = R_ZERO" using rd(1) register_zero by (auto simp: unat_eq_zero)
  have b: "operand_value (imm_b i) (op_b i) (shard_regs sh k) (to_u32 (op_b_val ?r))"
    using O(2) operand_register [of "op_b i" "op_b_val ?r" ?f] regs(2) S(2) low(1) I
    by (cases "imm_b i") (simp_all add: operand_cases(1) shard_regs_def [abs_def])
  have c: "operand_value (imm_c i) (op_c i) (shard_regs sh k) (to_u32 (op_c_val ?r))"
    using O(4) operand_register [of "op_c i" "op_c_val ?r" ?f] regs(3) S(1) low(2) I
    by (cases "imm_c i") (simp_all add: operand_cases(1) shard_regs_def [abs_def])
  have prev: "to_u32 (mrw_prev_value (cp_op_a_access ?r)) = shard_regs sh k rd" using S(3) by (simp add: a shard_regs_def)
  have result: "rd = R_ZERO \<and> limb_list (op_a_val ?r) = [0, 0, 0, 0] \<or>
      (rd \<noteq> R_ZERO \<or> i = nop) \<and> limb_list (cp_op_a_value ?r) = limb_list (op_a_val ?r)"
    using R(5,6) I rd0 by (cases "rd = R_ZERO") (auto simp: limb_list_def)
  have immutable: "cp_op_a_immutable ?r = 1 \<longrightarrow> limb_list (op_a_val ?r) = limb_list (mrw_prev_value (cp_op_a_access ?r)) \<and>
      limb_list (cp_op_a_value ?r) = limb_list (op_a_val ?r)"
    using R(5,6,7,10) I by (auto simp: limb_list_def)
  have rw: "cp_is_rw_a ?r = 1 \<longrightarrow> limb_list (cp_hi_or_prev_a ?r) = limb_list (mrw_prev_value (cp_op_a_access ?r))"
    using R(8) by (auto simp: limb_list_def)
  show ?thesis
  proof (rule that)
    show "row_ok ?r i rd (shard_regs sh k)"
      unfolding row_ok_def using rd(1) I O(1,3) b c B(4,5) prev zero result immutable rw by blast
    show "shard_regs sh (Suc k) = row_regs ?r rd (shard_regs sh k)"
      using S(4) by (auto simp: row_regs_def shard_regs_def a fun_eq_iff)
  qed
qed

lemma shard_small:
  assumes core: "core_shard prog n pv sh" and pc: "canon (cv_next_pc pv) + 4 < 2130706433" and k: "k < real_count (sh_cpu sh)"
  shows "canon (cp_next_pc (sh_cpu sh ! k)) + 4 < 2130706433"
proof (cases "Suc k < real_count (sh_cpu sh)")
  case True
  then obtain i where "canon (cp_pc (sh_cpu sh ! Suc k)) + 4 < 2130706433" by (rule shard_row [OF core])
  then show ?thesis using cpu_next(2) [OF core_shardD(3) [OF core] True] by simp
next
  case False
  then have "Suc k = real_count (sh_cpu sh)" using k by simp
  then show ?thesis using cpu_final(1) [OF core_shardD(3) [OF core]] pc by simp
qed

lemma shard_step:
  assumes core: "core_shard prog n pv sh" and pc: "canon (cv_next_pc pv) + 4 < 2130706433" and k: "k < real_count (sh_cpu sh)"
    and zero: "shard_regs sh k R_ZERO = 0"
  shows "shard_regs sh (Suc k) R_ZERO = 0"
    "proved_step prog (row_arch (sh_cpu sh ! k) (shard_regs sh k) mem)
       \<lparr>ar_reg = shard_regs sh (Suc k), ar_mem = mem, ar_pc = field_word (cp_next_pc (sh_cpu sh ! k)),
        ar_next_pc = field_word (cp_next_next_pc (sh_cpu sh ! k))\<rparr>"
proof -
  obtain i where i: "proved_instruction prog (field_word (cp_pc (sh_cpu sh ! k))) i" "row_instruction (cp_instruction (sh_cpu sh ! k)) i"
      "core_instruction i" "instruction_message_valid (cpu_message (sh_cpu sh ! k))"
    using shard_row [OF core k] by blast
  obtain rd where rd: "row_ok (sh_cpu sh ! k) i rd (shard_regs sh k)" "shard_regs sh (Suc k) = row_regs (sh_cpu sh ! k) rd (shard_regs sh k)"
    using shard_row_ok [OF core k zero i(2,3)] by blast
  have ex: "row_executes (sh_cpu sh ! k) i rd (shard_regs sh k) mem" by (rule core_step [OF rd(1) i(4) shard_small [OF core pc k] i(3)])
  then show "shard_regs sh (Suc k) R_ZERO = 0" by (simp add: row_executes_def rd(2))
  show "proved_step prog (row_arch (sh_cpu sh ! k) (shard_regs sh k) mem)
       \<lparr>ar_reg = shard_regs sh (Suc k), ar_mem = mem, ar_pc = field_word (cp_next_pc (sh_cpu sh ! k)),
        ar_next_pc = field_word (cp_next_next_pc (sh_cpu sh ! k))\<rparr>"
    using ex i(1) unfolding proved_step_def row_executes_def by (intro exI [of _ i]) (auto simp: row_arch_def rd(2))
qed

text \<open>The state before row \<open>k\<close>, and after the last row.\<close>

definition shard_state :: "koala cpu_public \<Rightarrow> shard \<Rightarrow> (nat \<Rightarrow> u32) \<Rightarrow> nat \<Rightarrow> arch" where
  "shard_state pv sh mem k = \<lparr>ar_reg = shard_regs sh k, ar_mem = mem,
     ar_pc = (if k = 0 then field_word (cv_start_pc pv) else field_word (cp_next_pc (sh_cpu sh ! (k - 1)))),
     ar_next_pc = (if k = 0 then field_word (cv_start_pc pv) + 4 else field_word (cp_next_next_pc (sh_cpu sh ! (k - 1))))\<rparr>"

lemma shard_state_row:
  assumes core: "core_shard prog n pv sh" and k: "k < real_count (sh_cpu sh)"
  shows "shard_state pv sh mem k = row_arch (sh_cpu sh ! k) (shard_regs sh k) mem"
proof -
  note D = core_shardD [OF core]
  obtain i where i: "canon (cp_pc (sh_cpu sh ! k)) + 4 < 2130706433" "instruction_message_valid (cpu_message (sh_cpu sh ! k))"
    using shard_row [OF core k] by blast
  note halt = no_extra_cycles [OF i(2)]
  show ?thesis
  proof (cases k)
    case 0
    then show ?thesis using cpu_first [OF D(3) shard_acceptedD(1) [OF D(1)]] halt i(1) by (simp add: shard_state_def row_arch_def field_word_add_4)
  next
    case (Suc j)
    then show ?thesis using cpu_next(2,3) [OF D(3), of j] k halt by (simp add: shard_state_def row_arch_def)
  qed
qed

lemma shard_start_pc:
  assumes core: "core_shard prog n pv sh" and start: "cv_start_pc pv \<noteq> 0"
  shows "field_word (cv_start_pc pv) \<noteq> 0" "field_word (cv_start_pc pv) + 4 \<noteq> 0"
proof -
  note D = core_shardD [OF core]
  have "0 < real_count (sh_cpu sh)" by (rule real_count_pos [OF D(3) shard_acceptedD(1) [OF D(1)]])
  then obtain i where "canon (cp_pc (sh_cpu sh ! 0)) + 4 < 2130706433" using shard_row [OF core] by blast
  then have small: "canon (cv_start_pc pv) + 4 < 2130706433" using cpu_first [OF D(3) shard_acceptedD(1) [OF D(1)]] by simp
  show "field_word (cv_start_pc pv) \<noteq> 0"
  proof
    assume "field_word (cv_start_pc pv) = 0"
    then have "cv_start_pc pv = from_canonical_u32 0" using from_field_word [of "cv_start_pc pv"] by simp
    then show False using start by (simp add: from_canonical_u32_def)
  qed
  show "field_word (cv_start_pc pv) + 4 \<noteq> 0"
  proof
    assume "field_word (cv_start_pc pv) + 4 = 0"
    then have "unat (field_word (cv_start_pc pv) + 4) = 0" by simp
    then show False using small by (simp add: unat_word_ariths(1) unat_field_word)
  qed
qed

lemma shard_run:
  assumes core: "core_shard prog n pv sh" and pc: "canon (cv_next_pc pv) + 4 < 2130706433"
  shows "k \<le> real_count (sh_cpu sh) \<Longrightarrow> shard_regs sh k R_ZERO = 0 \<and> (proved_step prog ^^ k) (shard_state pv sh mem 0) (shard_state pv sh mem k)"
proof (induction k)
  case 0
  then show ?case using core_shardD(4) [OF core] by simp
next
  case (Suc k)
  then have k: "k < real_count (sh_cpu sh)" and zero: "shard_regs sh k R_ZERO = 0"
    and run: "(proved_step prog ^^ k) (shard_state pv sh mem 0) (shard_state pv sh mem k)" by simp_all
  have "proved_step prog (shard_state pv sh mem k) (shard_state pv sh mem (Suc k))"
    using shard_step(2) [OF core pc k zero, of mem] unfolding shard_state_row [OF core k] by (simp add: shard_state_def)
  then show ?case using run shard_step(1) [OF core pc k zero] by (auto intro: relpowp_Suc_I)
qed

lemma proved_step_cases:
  assumes "proved_step prog m m'" "ar_pc m \<noteq> 0" "ar_next_pc m \<noteq> 0"
  shows "program_step prog m m' \<and> ar_pc m' \<noteq> 0 \<and> ar_next_pc m' \<noteq> 0 \<or> program_null prog m"
proof -
  obtain i m1 target where i: "proved_instruction prog (ar_pc m) i" and e: "isa_exec i m = Inr (m1, target)"
    and m': "m' = m1\<lparr>ar_pc := ar_next_pc m, ar_next_pc := target\<rparr>"
    using assms(1) by (auto simp: proved_step_def)
  have f: "program_fetch prog (ar_pc m) = (Inr i :: (execution_error, instruction) outcome)"
    using i assms(2) by (simp add: proved_instruction_def)
  show ?thesis
  proof (cases "target = 0")
    case True
    then have "isa_step i m = Inl (Err NullPointerReference)" by (simp add: isa_step_def e)
    then show ?thesis using f by (auto simp: program_null_def)
  next
    case False
    then have "isa_step i m = Inr m'" by (simp add: isa_step_def e m')
    then show ?thesis using f False assms(3) by (auto simp: program_step_def m')
  qed
qed

lemma proved_steps_cases:
  assumes "(proved_step prog ^^ n) m m'" "ar_pc m \<noteq> 0" "ar_next_pc m \<noteq> 0"
  shows "(program_step prog ^^ n) m m' \<and> ar_pc m' \<noteq> 0 \<and> ar_next_pc m' \<noteq> 0 \<or>
    (\<exists>k m1. k < n \<and> (program_step prog ^^ k) m m1 \<and> program_null prog m1)"
  using assms(1)
proof (induction n arbitrary: m')
  case 0
  then show ?case using assms(2,3) by simp
next
  case (Suc n)
  then obtain m1 where m1: "(proved_step prog ^^ n) m m1" "proved_step prog m1 m'" by auto
  from Suc.IH [OF m1(1)] show ?case
  proof (elim disjE conjE)
    assume "(program_step prog ^^ n) m m1" "ar_pc m1 \<noteq> 0" "ar_next_pc m1 \<noteq> 0"
    then show ?thesis using proved_step_cases [OF m1(2)] by (blast intro: relpowp_Suc_I)
  qed (blast intro: less_SucI)
qed

lemma last_sequential:
  assumes "cpu_accepted pv rows" "Suc k = real_count rows" "cp_is_halt (rows ! k) = 0"
  shows "cp_next_next_pc (rows ! k) = cp_next_pc (rows ! k) + 4"
proof -
  have k: "k < real_count rows" using assms(2) by simp
  have "cp_is_sequential (rows ! k) = 1" using cpu_final(2) [OF assms(1,2)] assms(3) by simp
  then show ?thesis
    using cpu_row_accepted(5) [OF assms(1) real_row(1) [OF assms(1) k], unfolded eval_pc_def accepted_append] real_row(2) [OF assms(1) k]
    by (simp add: from_canonical_u32_def)
qed

lemma shard_state_last:
  assumes core: "core_shard prog n pv sh" and pc: "canon (cv_next_pc pv) + 4 < 2130706433"
  shows "shard_state pv sh mem (real_count (sh_cpu sh)) = \<lparr>ar_reg = rec_value \<circ> sh_final sh, ar_mem = mem, ar_pc = field_word (cv_next_pc pv),
      ar_next_pc = field_word (cv_next_pc pv) + 4\<rparr>"
proof -
  note D = core_shardD [OF core]
  obtain k where k: "real_count (sh_cpu sh) = Suc k" using real_count_pos [OF D(3) shard_acceptedD(1) [OF D(1)]] by (cases "real_count (sh_cpu sh)") auto
  then have lt: "k < real_count (sh_cpu sh)" by simp
  obtain i where "instruction_message_valid (cpu_message (sh_cpu sh ! k))" using shard_row [OF core lt] by blast
  then have "cp_next_next_pc (sh_cpu sh ! k) = cp_next_pc (sh_cpu sh ! k) + 4"
    using last_sequential [OF D(3) k [symmetric]] no_extra_cycles by blast
  then show ?thesis
    using cpu_final(1) [OF D(3) k [symmetric]] shard_small [OF core pc lt] shard_regs_last [OF core]
    by (simp add: shard_state_def k field_word_add_4 fun_eq_iff)
qed

end
