(* ===== verification/Cpu_Rows.thy ===== *)
theory Cpu_Rows
  imports Shard
begin

text \<open>
  Rows of the CPU from the executor's events (\<^verbatim>\<open>crates/core/machine/src/cpu/trace.rs\<close>): the trace of a sequence of valid
  events is accepted by the CPU chip.
\<close>

unbundle bit_operations_syntax

section \<open>Trace generation\<close>

definition populate_shard_clk :: "cpu_event \<Rightarrow> u32 \<Rightarrow> (koala \<times> koala \<times> koala) \<times> byte_lookup_event list" where
  "populate_shard_clk event shard =
     (let clk_16bit_limb = ucast (cpu_clk event AND 0xffff) :: u16; clk_8bit_limb = ucast (drop_bit 16 (cpu_clk event) AND 0xff) :: u8 in
      ((from_canonical_u32 shard, of_nat (unat clk_16bit_limb), from_canonical_u8 clk_8bit_limb),
       [byte_lookup_event_new B_U16Range (ucast shard) 0 0 0, byte_lookup_event_new B_U16Range clk_16bit_limb 0 0 0,
        byte_lookup_event_new B_U8Range 0 0 0 clk_8bit_limb]))"

definition default_access :: "u32 \<Rightarrow> koala memory_rw_cols" where
  "default_access v = \<lparr>mrw_prev_value = zero_word,
     mrw_access = \<lparr>ma_value = word_from v, ma_prev_shard = 0, ma_prev_clk = 0, ma_compare_clk = 0, ma_diff_16bit_limb = 0,
       ma_diff_8bit_limb = 0\<rparr>\<rparr>"

fun populate_read :: "u32 \<Rightarrow> memory_record_enum option \<Rightarrow> koala memory_rw_cols \<times> byte_lookup_event list" where
  "populate_read v (Some (Read record)) = memory_read_populate record"
| "populate_read v _ = (default_access v, [])"

fun populate_a :: "u32 \<Rightarrow> memory_record_enum option \<Rightarrow> koala memory_rw_cols \<times> byte_lookup_event list" where
  "populate_a v (Some record) = memory_populate record"
| "populate_a v None = (default_access v, [])"

definition is_op_a_immutable :: "instruction \<Rightarrow> bool" where
  "is_op_a_immutable i \<longleftrightarrow> is_memory_store_instruction_except_sc i \<or> is_branch_instruction i \<or> opcode i = Op_TEQ"

definition syscall_halts :: "koala limbs \<Rightarrow> bool" where
  "syscall_halts prev_value \<longleftrightarrow>
     (let syscall_id0 = prev_value 0; syscall_id1 = prev_value 1; sys_exit_group = syscall_id SC_SYS_EXT_GROUP in
      syscall_id0 = from_canonical_u32 (syscall_id SC_HALT) \<and> syscall_id1 = 0 \<or>
      syscall_id0 = from_canonical_u8 (ucast sys_exit_group) \<and> syscall_id1 = from_canonical_u8 (ucast (drop_bit 8 sys_exit_group)))"

definition cpu_event_to_row :: "cpu_event \<Rightarrow> u32 \<Rightarrow> instruction \<Rightarrow> koala cpu_cols \<times> byte_lookup_event list" where
  "cpu_event_to_row event shard i =
     (let ((shard_col, clk_16bit_limb, clk_8bit_limb), clk_blu) = populate_shard_clk event shard;
          check = is_mult_div_instruction i \<or> is_check_memory_instruction i;
          (op_a_access, a_blu) = populate_a (cpu_a event) (cpu_a_record event);
          (op_b_access, b_blu) = populate_read (cpu_b event) (cpu_b_record event);
          (op_c_access, c_blu) = populate_read (cpu_c event) (cpu_c_record event);
          is_halt = is_syscall_instruction i \<and> syscall_halts (mrw_prev_value op_a_access);
          a_bytes = map (\<lambda>x. of_nat (canon x) :: u8) (limb_list (ma_value (mrw_access op_a_access))) in
      (\<lparr>cp_shard = shard_col, cp_clk_16bit_limb = clk_16bit_limb, cp_clk_8bit_limb = clk_8bit_limb,
        cp_shard_to_send = (if check then shard_col else 0),
        cp_clk_to_send = (if check then from_canonical_u32 (cpu_clk event) else 0),
        cp_pc = from_canonical_u32 (cpu_pc event), cp_next_pc = from_canonical_u32 (cpu_next_pc event),
        cp_next_next_pc = from_canonical_u32 (cpu_next_next_pc event), cp_instruction = instruction_populate i,
        cp_num_extra_cycles = (if is_syscall_instruction i then mrw_prev_value op_a_access 3 else 0),
        cp_is_rw_a = from_bool (is_rw_a_instruction i), cp_is_check_memory = from_bool check,
        cp_is_halt = from_bool is_halt,
        cp_is_sequential = from_bool (\<not> is_halt \<and> \<not> is_branch_instruction i \<and> \<not> is_jump_instruction i),
        cp_op_a_value = word_from (cpu_a event),
        cp_hi_or_prev_a = (case cpu_hi event of Some hi \<Rightarrow> word_from hi | None \<Rightarrow> zero_word),
        cp_op_a_access = op_a_access, cp_op_b_access = mrw_access op_b_access, cp_op_c_access = mrw_access op_c_access,
        cp_is_real = 1, cp_op_a_immutable = from_bool (is_op_a_immutable i)\<rparr>,
       clk_blu @ a_blu @ b_blu @ c_blu @ add_u8_range_checks a_bytes))"

definition cpu_padding :: "koala cpu_cols" where
  "cpu_padding =
     \<lparr>cp_shard = 0, cp_clk_16bit_limb = 0, cp_clk_8bit_limb = 0, cp_shard_to_send = 0, cp_clk_to_send = 0,
      cp_pc = 0, cp_next_pc = 0, cp_next_next_pc = 0, cp_instruction = instruction_cols_zero\<lparr>ic_imm_b := 1, ic_imm_c := 1\<rparr>,
      cp_num_extra_cycles = 0, cp_is_rw_a = 1, cp_is_check_memory = 0, cp_is_halt = 0, cp_is_sequential = 0,
      cp_op_a_value = zero_word, cp_hi_or_prev_a = zero_word, cp_op_a_access = mul_default_access,
      cp_op_b_access = mrw_access mul_default_access, cp_op_c_access = mrw_access mul_default_access,
      cp_is_real = 0, cp_op_a_immutable = 0\<rparr>"

fun cpu_event_rows :: "program \<Rightarrow> u32 \<Rightarrow> cpu_event list \<Rightarrow> (execution_error, koala cpu_cols list) outcome" where
  "cpu_event_rows program shard [] = Inr []"
| "cpu_event_rows program shard (event # events) =
     obind (program_fetch program (cpu_pc event)) (\<lambda>i.
     obind (cpu_event_rows program shard events) (\<lambda>rows. Inr (fst (cpu_event_to_row event shard i) # rows)))"

definition cpu_trace :: "program \<Rightarrow> u32 \<Rightarrow> cpu_event list \<Rightarrow> nat \<Rightarrow> (execution_error, koala cpu_cols list) outcome" where
  "cpu_trace program shard events padded_nb_rows =
     obind (cpu_event_rows program shard events) (\<lambda>rows. Inr (rows @ replicate (padded_nb_rows - length events) cpu_padding))"

section \<open>Valid events\<close>

definition access_at :: "u32 \<Rightarrow> u32 \<Rightarrow> memory_record_enum \<Rightarrow> bool" where
  "access_at shard time r \<longleftrightarrow> ordered_record (current_record r) (previous_record r) \<and> rec_shard (current_record r) = shard \<and>
     rec_timestamp (current_record r) = time"

fun valid_read :: "bool \<Rightarrow> u32 \<Rightarrow> u32 \<Rightarrow> u32 \<Rightarrow> u32 \<Rightarrow> memory_record_enum option \<Rightarrow> bool" where
  "valid_read imm op v shard time None \<longleftrightarrow> imm \<and> v = op"
| "valid_read imm op v shard time (Some (Read r)) \<longleftrightarrow> \<not> imm \<and> access_at shard time (Read r) \<and> rd_value r = v"
| "valid_read imm op v shard time (Some (Write r)) \<longleftrightarrow> False"

definition valid_a :: "instruction \<Rightarrow> u32 \<Rightarrow> cpu_event \<Rightarrow> bool" where
  "valid_a i shard e \<longleftrightarrow>
     (case cpu_a_record e of None \<Rightarrow> False
      | Some r \<Rightarrow> let v = rec_value (current_record r); prev = rec_value (previous_record r) in
          access_at shard (cpu_clk e + 3) r \<and> (if op_a i = 0 then v = 0 else v = cpu_a e) \<and>
          (is_op_a_immutable i \<longrightarrow> v = prev \<and> v = cpu_a e) \<and> (is_rw_a_instruction i \<longrightarrow> cpu_hi e = Some prev))"

definition valid_cpu_event :: "instruction \<Rightarrow> u32 \<Rightarrow> cpu_event \<Rightarrow> bool" where
  "valid_cpu_event i shard e \<longleftrightarrow>
     unat shard < 65536 \<and> unat (cpu_clk e) < 2 ^ 24 \<and> \<not> is_syscall_instruction i \<and>
     valid_read (imm_b i) (op_b i) (cpu_b e) shard (cpu_clk e + 2) (cpu_b_record e) \<and>
     valid_read (imm_c i) (op_c i) (cpu_c e) shard (cpu_clk e + 1) (cpu_c_record e) \<and> valid_a i shard e \<and>
     unat (cpu_next_pc e) < 2130706433 \<and> unat (cpu_next_next_pc e) < 2130706433 \<and>
     (\<not> is_branch_instruction i \<and> \<not> is_jump_instruction i \<longrightarrow> cpu_next_next_pc e = cpu_next_pc e + 4)"

section \<open>Accesses\<close>

lemma populated_accepted:
  assumes "access_at shard time r"
  shows "accepted (eval_memory_access (from_canonical_u32 shard) (from_canonical_u32 time) addr (fst (memory_populate r)) 1)"
  using example_accepted [of r addr] assms by (auto simp: access_at_def example_access_def)

lemma populated_values:
  "mrw_prev_value (fst (memory_populate r)) = (word_from (rec_value (previous_record r)) :: koala limbs)"
  "ma_value (mrw_access (fst (memory_populate r))) = (word_from (rec_value (current_record r)) :: koala limbs)"
  by (cases r; simp add: memory_read_populate_def memory_write_populate_def populate_access_def Let_def)+

lemma read_cols_eq: "memory_read_cols (mrw_access (fst (memory_read_populate r))) = (fst (memory_read_populate r) :: koala memory_rw_cols)"
  by (simp add: memory_read_cols_def memory_read_populate_def populate_access_def Let_def)

lemma from_u32_add:
  assumes "unat (v :: u32) < 2 ^ 24" "d < 256"
  shows "from_canonical_u32 (v + of_nat d) = (from_canonical_u32 v + of_nat d :: koala)"
proof -
  have d: "unat (of_nat d :: u32) = d" using assms(2) by (simp add: unsigned_of_nat take_bit_eq_mod)
  then have "unat (v + of_nat d) = unat v + d" using assms by (subst unat_add_lem [THEN iffD1]) simp_all
  then show ?thesis by (simp add: from_canonical_u32_def del: of_nat_unat)
qed

lemmas read_populated = populated_accepted [where r = "Read r" for r, unfolded memory_populate.simps]
  populated_values(2) [where r = "Read r" for r, unfolded memory_populate.simps current_record.simps memory_record.simps]

lemma read_accepted:
  fixes rec :: "memory_record_enum option"
  assumes "valid_read imm op v shard time rec"
  shows "accepted (eval_memory_access (from_canonical_u32 shard) (from_canonical_u32 time) addr
      (memory_read_cols (mrw_access (fst (populate_read v rec)))) (1 - from_bool imm))"
    "ma_value (mrw_access (fst (populate_read v rec))) = word_from v" "imm \<Longrightarrow> v = op"
  using assms by (induction imm op v shard time rec rule: valid_read.induct) (auto simp: memory_access_off default_access_def read_cols_eq read_populated)

section \<open>A row\<close>

lemma clk_base: "from_canonical_u32 (push_bit 16 1) = (2 ^ 16 :: koala)"
  by (simp add: from_canonical_u32_def push_bit_eq_mult)

lemma clk_limbs:
  fixes clk :: u32
  assumes "unat clk < 2 ^ 24"
  shows "from_canonical_u32 (push_bit 16 1) * from_canonical_u8 (ucast (drop_bit 16 clk AND 0xff)) + of_nat (unat (ucast (clk AND 0xffff) :: u16)) =
      (from_canonical_u32 clk :: koala)"
    "unat (ucast (clk AND 0xffff) :: u16) < 65536"
proof -
  have lo: "unat (ucast (clk AND 0xffff) :: u16) = unat clk mod 65536"
    unfolding and_0xffff by (subst unsigned_ucast_eq, subst unsigned_take_bit_eq) (simp add: take_bit_eq_mod)
  have "unat (drop_bit 16 clk AND 0xff) = unat clk div 65536 mod 256"
    unfolding and_0xff by (subst unsigned_take_bit_eq, subst unat_drop_bit_eq) (simp add: take_bit_eq_mod drop_bit_eq_div)
  moreover have "unat clk div 65536 < 256" using assms by (simp add: div_less_iff_less_mult)
  ultimately have hi: "unat (ucast (drop_bit 16 clk AND 0xff) :: u8) = unat clk div 65536" by (subst unat_ucast_u32_u8) simp_all
  have "65536 * (unat clk div 65536) + unat clk mod 65536 = unat clk" by simp
  then have "(of_nat (65536 * (unat clk div 65536) + unat clk mod 65536) :: koala) = of_nat (unat clk)" by (rule arg_cong)
  then show "from_canonical_u32 (push_bit 16 1) * from_canonical_u8 (ucast (drop_bit 16 clk AND 0xff)) + of_nat (unat (ucast (clk AND 0xffff) :: u16)) =
      (from_canonical_u32 clk :: koala)"
    by (simp only: from_canonical_u32_def from_canonical_u8_def lo hi of_nat_add of_nat_mult of_nat_numeral) (simp add: push_bit_eq_mult)
  show "unat (ucast (clk AND 0xffff) :: u16) < 65536" by (simp only: lo mod_less_divisor zero_less_numeral)
qed

text \<open>The columns of the row of a valid event.\<close>

lemma cpu_row_cols:
  assumes "valid_cpu_event i shard e"
  defines "r \<equiv> fst (cpu_event_to_row e shard i)"
  shows "cp_is_real r = 1" "cp_is_halt r = 0" "cp_num_extra_cycles r = 0" "cp_shard r = from_canonical_u32 shard"
    "row_clk r = from_canonical_u32 (cpu_clk e)" "cp_pc r = from_canonical_u32 (cpu_pc e)" "cp_next_pc r = from_canonical_u32 (cpu_next_pc e)"
    "cp_next_next_pc r = from_canonical_u32 (cpu_next_next_pc e)" "cp_instruction r = instruction_populate i"
    "cp_is_sequential r = from_bool (\<not> is_branch_instruction i \<and> \<not> is_jump_instruction i)"
    "cp_is_rw_a r = from_bool (is_rw_a_instruction i)" "cp_op_a_immutable r = from_bool (is_op_a_immutable i)"
    "cp_op_a_value r = word_from (cpu_a e)" "cp_op_a_access r = fst (populate_a (cpu_a e) (cpu_a_record e))"
    "cp_op_b_access r = mrw_access (fst (populate_read (cpu_b e) (cpu_b_record e)))"
    "cp_op_c_access r = mrw_access (fst (populate_read (cpu_c e) (cpu_c_record e)))"
    "cp_hi_or_prev_a r = (case cpu_hi e of Some hi \<Rightarrow> word_from hi | None \<Rightarrow> zero_word)"
    "cp_is_check_memory r = from_bool (is_mult_div_instruction i \<or> is_check_memory_instruction i)"
    "cp_shard_to_send r = (if is_mult_div_instruction i \<or> is_check_memory_instruction i then from_canonical_u32 shard else 0)"
    "cp_clk_to_send r = (if is_mult_div_instruction i \<or> is_check_memory_instruction i then from_canonical_u32 (cpu_clk e) else 0)"
    "cp_clk_16bit_limb r = of_nat (unat (ucast (cpu_clk e AND 0xffff) :: u16))" "cp_clk_8bit_limb r = from_canonical_u8 (ucast (drop_bit 16 (cpu_clk e) AND 0xff))"
  using assms(1) clk_limbs(1) [of "cpu_clk e"]
  by (simp_all add: r_def cpu_event_to_row_def populate_shard_clk_def Let_def split_beta valid_cpu_event_def row_clk_def del: of_nat_unat)

lemma limb_eq_word [simp]: "(\<forall>j<4. word_from v j = (word_from w j :: koala)) \<longleftrightarrow> v = w"
proof
  assume "\<forall>j<4. word_from v j = (word_from w j :: koala)"
  then have "limb_list (word_from v) = limb_list (word_from w :: koala limbs)" by (simp add: limb_list_def)
  then show "v = w" using to_u32_cong [of "word_from v" "word_from w"] by simp
qed simp

lemma word_zero [simp]: "(\<forall>j<4. word_from v j = (0 :: koala)) \<longleftrightarrow> v = 0"
proof -
  have "word_from 0 j = (0 :: koala)" for j by (simp add: word_from_def byte_at_def from_canonical_u8_def)
  then show ?thesis using limb_eq_word [of v 0] by simp
qed

lemma registers_accepted:
  assumes valid: "valid_cpu_event i shard e"
  defines "r \<equiv> fst (cpu_event_to_row e shard i)"
  shows "accepted (eval_registers r (row_clk r))"
proof -
  note C = cpu_row_cols [OF valid, folded r_def]
  note V = valid [unfolded valid_cpu_event_def]
  obtain a where a: "cpu_a_record e = Some a" "access_at shard (cpu_clk e + 3) a" "if op_a i = 0 then rec_value (current_record a) = 0 else rec_value (current_record a) = cpu_a e"
      "is_op_a_immutable i \<longrightarrow> rec_value (current_record a) = rec_value (previous_record a) \<and> rec_value (current_record a) = cpu_a e"
      "is_rw_a_instruction i \<longrightarrow> cpu_hi e = Some (rec_value (previous_record a))"
    using V by (auto simp: valid_a_def Let_def split: option.splits)
  have rb: "valid_read (imm_b i) (op_b i) (cpu_b e) shard (cpu_clk e + 2) (cpu_b_record e)"
    and rc: "valid_read (imm_c i) (op_c i) (cpu_c e) shard (cpu_clk e + 1) (cpu_c_record e)" using V by blast+
  have clk: "from_canonical_u32 (cpu_clk e) + 1 = (from_canonical_u32 (cpu_clk e + 1) :: koala)" "from_canonical_u32 (cpu_clk e) + 2 = (from_canonical_u32 (cpu_clk e + 2) :: koala)"
    "from_canonical_u32 (cpu_clk e) + 3 = (from_canonical_u32 (cpu_clk e + 3) :: koala)"
    using V from_u32_add [of "cpu_clk e" 1] from_u32_add [of "cpu_clk e" 2] from_u32_add [of "cpu_clk e" 3] by simp_all
  have pop: "ic_op_b (instruction_populate i) = (word_from (op_b i) :: koala limbs)" "ic_op_c (instruction_populate i) = (word_from (op_c i) :: koala limbs)"
    "ic_imm_b (instruction_populate i) = (from_bool (imm_b i) :: koala)" "ic_imm_c (instruction_populate i) = (from_bool (imm_c i) :: koala)"
    "ic_op_a_0 (instruction_populate i) = (from_bool (op_a i = 0) :: koala)"
    by (simp_all add: instruction_populate_def)
  have A: "accepted (eval_memory_access (cp_shard r) (row_clk r + 3) addr (cp_op_a_access r) (cp_is_real r))" for addr
    unfolding C clk a(1) populate_a.simps by (rule populated_accepted [OF a(2)])
  have B: "accepted (eval_memory_access (cp_shard r) (row_clk r + 2) addr (memory_read_cols (cp_op_b_access r)) (1 - from_bool (imm_b i)))" for addr
    unfolding C clk by (rule read_accepted(1) [OF rb])
  have C': "accepted (eval_memory_access (cp_shard r) (row_clk r + 1) addr (memory_read_cols (cp_op_c_access r)) (1 - from_bool (imm_c i)))" for addr
    unfolding C clk by (rule read_accepted(1) [OF rc])
  have range: "accepted (slice_range_check_u8 (limb_list (word_from v)) (1 :: koala))" for v by (simp add: limb_list_def word_from_def)
  have imm: "imm_b i \<Longrightarrow> cpu_b e = op_b i" "imm_c i \<Longrightarrow> cpu_c e = op_c i" using read_accepted(3) rb rc by blast+
  show ?thesis
    unfolding eval_registers_def Let_def position_offsets accepted_append C(9) pop
  proof (intro conjI)
    show "accepted (when_cond (from_bool (imm_b i)) (assert_word_eq (op_b_val r) (word_from (op_b i))))"
      unfolding op_b_val_def C(15) read_accepted(2) [OF rb] using imm(1) by (cases "imm_b i") simp_all
    show "accepted (when_cond (from_bool (imm_c i)) (assert_word_eq (op_c_val r) (word_from (op_c i))))"
      unfolding op_c_val_def C(16) read_accepted(2) [OF rc] using imm(2) by (cases "imm_c i") simp_all
    show "accepted (slice_range_check_u8 (limb_list (ma_value (mrw_access (cp_op_a_access r)))) (cp_is_real r))"
      unfolding C(1,14) a(1) populate_a.simps populated_values by (rule range)
    show "accepted (eval_memory_access (cp_shard r) (row_clk r + 2) (word_from (op_b i) 0) (memory_read_cols (cp_op_b_access r)) (1 - from_bool (imm_b i)))"
      by (rule B)
    show "accepted (eval_memory_access (cp_shard r) (row_clk r + 1) (word_from (op_c i) 0) (memory_read_cols (cp_op_c_access r)) (1 - from_bool (imm_c i)))"
      by (rule C')
    show "accepted (eval_memory_access (cp_shard r) (row_clk r + 3) (ic_op_a (instruction_populate i)) (cp_op_a_access r) (cp_is_real r))"
      by (rule A)
  qed ((use a(3-5) in \<open>auto simp: C(11-14,17) a(1) populated_values op_a_val_def when_not_def from_bool_def split: if_splits\<close>))
qed

lemma from_bool_eq_0 [simp]: "(from_bool b :: koala) = 0 \<longleftrightarrow> \<not> b"
  by (simp add: from_bool_def)

lemma cpu_eval_real:
  fixes first transition final :: koala
  assumes valid: "valid_cpu_event i shard e" and shard: "cv_execution_shard pv = from_canonical_u32 shard"
  defines "r \<equiv> fst (cpu_event_to_row e shard i)"
  assumes first: "first \<noteq> 0 \<Longrightarrow> row_clk r = 0 \<and> cv_start_pc pv = cp_pc r \<and> cp_next_pc r = cp_pc r + 4"
    and transition: "transition \<noteq> 0 \<Longrightarrow>
      cp_is_real nxt = 1 \<and> cp_is_halt nxt = 0 \<and> cp_shard nxt = cp_shard r \<and> row_clk nxt = row_clk r + 5 \<and> cp_pc nxt = cp_next_pc r \<and>
        cp_next_pc nxt = cp_next_next_pc r \<or>
      cp_is_real nxt = 0 \<and> cv_next_pc pv = cp_next_pc r \<and> cp_is_sequential r = 1"
    and final: "final \<noteq> 0 \<Longrightarrow> cv_next_pc pv = cp_next_pc r \<and> cp_is_sequential r = 1"
  shows "accepted (cpu_eval first transition final pv r nxt)"
proof -
  note C = cpu_row_cols [OF valid, folded r_def]
  note V = valid [unfolded valid_cpu_event_def]
  have seq: "cp_is_sequential r \<noteq> 0 \<Longrightarrow> cp_next_next_pc r = cp_next_pc r + 4"
    using V by (auto simp: C from_u32_add_4)
  have clk: "accepted (eval_shard_clk first transition r nxt (row_clk r))"
  proof -
    have "canon (from_canonical_u32 shard) < 65536" "canon (of_nat (unat (ucast (cpu_clk e AND 0xffff) :: u16))) < 65536"
      using V clk_limbs(2) [of "cpu_clk e"] by (simp_all add: canon_from_u32 canon_of_nat del: of_nat_unat)
    moreover have "of_nat (unat (ucast (cpu_clk e AND 0xffff) :: u16)) + from_canonical_u8 (ucast (drop_bit 16 (cpu_clk e) AND 0xff)) * 2 ^ 16 = row_clk r"
      unfolding row_clk_def C(21,22) clk_base by (simp only: mult.commute add.commute)
    ultimately show ?thesis
      using first transition unfolding eval_shard_clk_def eval_range_check_24bits_def
      by (auto simp: byte_table_u16 C(1,3,4,21,22) from_canonical_u32_def simp del: of_nat_unat)
  qed
  have pc: "accepted (eval_pc first transition final r nxt pv)"
    unfolding eval_pc_def using first transition final seq shard by (auto simp: C(1,2,4) when_not_def from_canonical_u32_def)
  have flags: "accepted (eval_control_flags r)" "accepted (eval_is_real first transition r nxt)"
    by (auto simp: eval_control_flags_def eval_is_real_def C(1,2,10,11,18) when_not_def from_bool_cases)
  have send: "accepted (send_instruction m x)" for m :: "koala list" and x by (simp add: send_instruction_def accepted_def air_lookup_new_def)
  have check: "accepted (when_cond (cp_is_real r) (assert_eq (cp_shard_to_send r) (if_else (cp_is_check_memory r) (cp_shard r) 0)))"
    "accepted (when_cond (cp_is_real r) (assert_eq (cp_clk_to_send r) (if_else (cp_is_check_memory r) (row_clk r) 0)))"
    by (simp_all add: C if_else_def from_bool_def)
  show ?thesis
    unfolding cpu_eval_def Let_def accepted_append
    using registers_accepted [OF valid, folded r_def] check clk pc flags by (simp add: send C(1))
qed

lemma cpu_eval_padding:
  fixes transition final :: koala
  assumes "transition \<noteq> 0 \<Longrightarrow> nxt = cpu_padding"
  shows "accepted (cpu_eval 0 transition final pv cpu_padding nxt)"
proof -
  have send: "accepted (send_instruction m 0)" for m :: "koala list" by (simp add: send_instruction_def accepted_def air_lookup_new_def)
  have range: "accepted (slice_range_check_u8 xs 0)" for xs :: "koala list" by (induction xs "0 :: koala" rule: slice_range_check_u8.induct) simp_all
  have "row_clk cpu_padding = 0" by (simp add: row_clk_def cpu_padding_def)
  moreover have "transition = 0 \<or> nxt = cpu_padding" using assms by blast
  ultimately show ?thesis
    unfolding cpu_eval_def Let_def accepted_append eval_registers_def eval_shard_clk_def eval_range_check_24bits_def eval_pc_def eval_control_flags_def eval_is_real_def
    by (elim disjE) (simp_all add: send range memory_access_off cpu_padding_def instruction_cols_zero_def op_b_val_def op_c_val_def op_a_val_def mul_default_access_def
        zero_word_def mk_word_def when_not_def memory_read_cols_def)
qed

section \<open>Traces\<close>

definition fetched_instruction :: "program \<Rightarrow> cpu_event \<Rightarrow> instruction" where
  "fetched_instruction prog e = (case program_fetch prog (cpu_pc e) :: (execution_error, instruction) outcome of Inr i \<Rightarrow> i | Inl _ \<Rightarrow> nop)"

definition next_event :: "cpu_event \<Rightarrow> cpu_event \<Rightarrow> bool" where
  "next_event e e' \<longleftrightarrow> cpu_clk e' = cpu_clk e + 5 \<and> cpu_pc e' = cpu_next_pc e \<and> cpu_next_pc e' = cpu_next_next_pc e"

text \<open>Valid events in the order of execution: every event follows the one before it, the first is at clock zero and the last is
  not a branch or jump, whose delay slot would be in another shard.\<close>

definition valid_cpu_events :: "program \<Rightarrow> public_values \<Rightarrow> cpu_event list \<Rightarrow> bool" where
  "valid_cpu_events prog pv es \<longleftrightarrow> es \<noteq> [] \<and>
     list_all (\<lambda>e. unat ((cpu_pc e - prog_pc_base prog) div 4) < length (prog_instructions prog) \<and>
       valid_cpu_event (fetched_instruction prog e) (pv_execution_shard pv) e) es \<and>
     successively next_event es \<and> cpu_clk (hd es) = 0 \<and> unat (cpu_pc (hd es)) < 2130706433 \<and> cpu_next_pc (hd es) = cpu_pc (hd es) + 4 \<and>
     pv_start_pc pv = cpu_pc (hd es) \<and> pv_next_pc pv = cpu_next_pc (last es) \<and>
     \<not> is_branch_instruction (fetched_instruction prog (last es)) \<and> \<not> is_jump_instruction (fetched_instruction prog (last es))"

abbreviation event_row :: "program \<Rightarrow> u32 \<Rightarrow> cpu_event \<Rightarrow> koala cpu_cols" where
  "event_row prog shard e \<equiv> fst (cpu_event_to_row e shard (fetched_instruction prog e))"

lemma cpu_event_rows_eq:
  "list_all (\<lambda>e. unat ((cpu_pc e - prog_pc_base prog) div 4) < length (prog_instructions prog)) es \<Longrightarrow>
   cpu_event_rows prog shard es = Inr (map (event_row prog shard) es)"
  by (induction es) (simp_all add: program_fetch_def fetched_instruction_def Let_def)

lemma event_rows_next:
  assumes "valid_cpu_event (fetched_instruction prog e) shard e" "valid_cpu_event (fetched_instruction prog e') shard e'" "next_event e e'"
  defines "r \<equiv> event_row prog shard e" and "n \<equiv> event_row prog shard e'"
  shows "cp_is_real n = 1 \<and> cp_is_halt n = 0 \<and> cp_shard n = cp_shard r \<and> row_clk n = row_clk r + 5 \<and> cp_pc n = cp_next_pc r \<and> cp_next_pc n = cp_next_next_pc r"
  using assms(3) from_u32_add [of "cpu_clk e" 5] assms(1)
  by (simp add: cpu_row_cols [OF assms(1), folded r_def] cpu_row_cols [OF assms(2), folded n_def] next_event_def valid_cpu_event_def)

definition event_rows :: "program \<Rightarrow> public_values \<Rightarrow> cpu_event list \<Rightarrow> nat \<Rightarrow> koala cpu_cols list" where
  "event_rows prog pv es n = map (event_row prog (pv_execution_shard pv)) es @ replicate (n - length es) cpu_padding"

lemma event_rows_nth:
  "k < length es \<Longrightarrow> event_rows prog pv es n ! k = event_row prog (pv_execution_shard pv) (es ! k)"
  "length es \<le> k \<Longrightarrow> k < length (event_rows prog pv es n) \<Longrightarrow> event_rows prog pv es n ! k = cpu_padding"
  by (simp_all add: event_rows_def nth_append)

lemma valid_cpu_eventsD:
  assumes "valid_cpu_events prog pv es"
  shows "es \<noteq> []" "k < length es \<Longrightarrow> valid_cpu_event (fetched_instruction prog (es ! k)) (pv_execution_shard pv) (es ! k)"
    "Suc k < length es \<Longrightarrow> next_event (es ! k) (es ! Suc k)"
  using assms by (simp_all add: valid_cpu_events_def list_all_length successively_conv_nth)

lemma first_event_row:
  assumes valid: "valid_cpu_events prog pv es"
  defines "r \<equiv> event_row prog (pv_execution_shard pv) (es ! 0)"
  shows "row_clk r = 0 \<and> cv_start_pc (cpu_public_values pv) = cp_pc r \<and> cp_next_pc r = cp_pc r + 4"
proof -
  have ne: "0 < length es" using valid_cpu_eventsD(1) [OF valid] by simp
  note ev = valid_cpu_eventsD(2) [OF valid ne] and V = valid [unfolded valid_cpu_events_def]
  have "es ! 0 = hd es" using ne by (simp add: hd_conv_nth)
  then show ?thesis
    using V ev from_u32_add_4 [of "cpu_pc (hd es)"] unfolding cpu_row_cols [OF ev, folded r_def]
    by (simp add: cpu_public_values_def from_canonical_u32_def valid_cpu_event_def del: of_nat_unat)
qed

lemma last_event_row:
  assumes valid: "valid_cpu_events prog pv es" and k: "Suc k = length es"
  defines "r \<equiv> event_row prog (pv_execution_shard pv) (es ! k)"
  shows "cv_next_pc (cpu_public_values pv) = cp_next_pc r \<and> cp_is_sequential r = 1"
proof -
  have "k < length es" using k by simp
  note ev = valid_cpu_eventsD(2) [OF valid this] and V = valid [unfolded valid_cpu_events_def]
  have "es ! k = last es" using k by (metis last_conv_nth diff_Suc_1 list.size(3) nat.simps(3))
  then show ?thesis using V by (simp add: cpu_row_cols(7,10) [OF ev, folded r_def] cpu_public_values_def)
qed

lemma event_row_accepted:
  fixes n :: nat
  assumes valid: "valid_cpu_events prog pv es" and k: "k < length es"
  defines "rows \<equiv> event_rows prog pv es n"
  shows "accepted (cpu_row_ops (cpu_public_values pv) rows k)"
  unfolding cpu_row_ops_def rows_def event_rows_nth(1) [OF k]
proof (rule cpu_eval_real [OF valid_cpu_eventsD(2) [OF valid k]], fold rows_def, goal_cases)
  case 2
  then show ?case using first_event_row [OF valid] by simp
next
  case 3
  then have succ: "Suc k mod length rows = Suc k" "Suc k < length rows" by simp_all
  show ?case
  proof (cases "Suc k < length es")
    case True
    have "rows ! Suc k = event_row prog (pv_execution_shard pv) (es ! Suc k)" using True by (simp add: rows_def event_rows_nth)
    then show ?thesis unfolding succ(1)
      using event_rows_next [OF valid_cpu_eventsD(2) [OF valid k] valid_cpu_eventsD(2) [OF valid True] valid_cpu_eventsD(3) [OF valid True]] by simp
  next
    case False
    then have last: "Suc k = length es" using k by simp
    have pad: "rows ! Suc k = cpu_padding" using False succ(2) event_rows_nth(2) [of es "Suc k" prog pv n] by (simp add: rows_def)
    show ?thesis unfolding succ(1) pad using last_event_row [OF valid last] by (simp add: cpu_padding_def)
  qed
next
  case 4
  then have "Suc k = length es" using k by (simp add: rows_def event_rows_def)
  then show ?case by (rule last_event_row [OF valid])
qed (simp add: cpu_public_values_def)

lemma padding_row_accepted:
  assumes "es \<noteq> []" "length es \<le> k" and k: "k < length (event_rows prog pv es n)"
  shows "accepted (cpu_row_ops pub (event_rows prog pv es n) k)"
proof -
  have "k \<noteq> 0" using assms(1,2) by (cases es) auto
  moreover have "event_rows prog pv es n ! k = cpu_padding" using event_rows_nth(2) assms(2) k by blast
  moreover have "event_rows prog pv es n ! (Suc k mod length (event_rows prog pv es n)) = cpu_padding" if "Suc k < length (event_rows prog pv es n)"
    using event_rows_nth(2) [of es "Suc k"] assms(2) that by simp
  ultimately show ?thesis unfolding cpu_row_ops_def by (simp, intro cpu_eval_padding) simp
qed

lemma cpu_trace_accepted:
  assumes valid: "valid_cpu_events prog pv es"
  shows "cpu_trace prog (pv_execution_shard pv) es n = Inr (event_rows prog pv es n)" "cpu_accepted (cpu_public_values pv) (event_rows prog pv es n)"
proof -
  show "cpu_trace prog (pv_execution_shard pv) es n = Inr (event_rows prog pv es n)"
    using valid by (simp add: valid_cpu_events_def cpu_trace_def cpu_event_rows_eq list_all_iff event_rows_def)
  have "accepted (cpu_row_ops (cpu_public_values pv) (event_rows prog pv es n) k)" if "k < length (event_rows prog pv es n)" for k
    using that event_row_accepted [OF valid, of k n] padding_row_accepted [OF valid_cpu_eventsD(1) [OF valid], of k prog pv n "cpu_public_values pv"]
    by (cases "k < length es") simp_all
  then show "cpu_accepted (cpu_public_values pv) (event_rows prog pv es n)" by (simp add: cpu_accepted_def list_all_iff)
qed

end
