(* ===== verification/Shard_Proof.thy ===== *)
theory Shard_Proof
  imports Shard_Execution Cpu_Rows
begin

text \<open>
  Statements about the CPU and whole shards.
\<close>

section \<open>An example\<close>

text \<open>A program that loads 5 into \<open>t0\<close>, its event, and the shard that proves it.\<close>

definition example_instruction :: instruction where "example_instruction = instruction_new Op_ADD 8 0 5 False True"

definition example_shard_program :: program where
  "example_shard_program = default_program\<lparr>prog_instructions := [example_instruction], prog_pc_start := 16, prog_pc_base := 16\<rparr>"

definition example_cpu_event :: cpu_event where
  "example_cpu_event = \<lparr>cpu_clk = 0, cpu_pc = 16, cpu_next_pc = 20, cpu_next_next_pc = 24, cpu_a = 5,
     cpu_a_record = Some (Write \<lparr>wr_value = 5, wr_shard = 1, wr_timestamp = 3, wr_prev_value = 0, wr_prev_shard = 0, wr_prev_timestamp = 0\<rparr>),
     cpu_b = 0, cpu_b_record = Some (Read \<lparr>rd_value = 0, rd_shard = 1, rd_timestamp = 2, rd_prev_shard = 0, rd_prev_timestamp = 0\<rparr>),
     cpu_c = 5, cpu_c_record = None, cpu_hi = None, cpu_hi_record = None, cpu_memory_record = None, cpu_exit_code = 0\<rparr>"

definition example_public_values :: public_values where
  "example_public_values = default_public_values\<lparr>pv_start_pc := 16, pv_next_pc := 20, pv_execution_shard := 1\<rparr>"

definition example_add_event :: alu_event where
  "example_add_event = \<lparr>alu_pc = 16, alu_next_pc = 20, alu_opcode = Op_ADD, alu_hi = 0, alu_a = 5, alu_b = 0, alu_c = 5\<rparr>"

definition example_row :: "koala cpu_cols" where
  "example_row = event_row example_shard_program 1 example_cpu_event"

definition example_shard :: shard where
  "example_shard = \<lparr>sh_cpu = [example_row], sh_instructions = [Row_Alu (Row_Add_Sub (fst (add_sub_event_to_row example_add_event)))],
     sh_multiplicities = [1], sh_initial = (\<lambda>_. \<lparr>rec_shard = 0, rec_timestamp = 0, rec_value = 0\<rparr>),
     sh_final = (\<lambda>r. if r = R_ZERO then \<lparr>rec_shard = 1, rec_timestamp = 2, rec_value = 0\<rparr>
       else if r = R_T0 then \<lparr>rec_shard = 1, rec_timestamp = 3, rec_value = 5\<rparr> else \<lparr>rec_shard = 0, rec_timestamp = 0, rec_value = 0\<rparr>)\<rparr>"

lemma example_fetched: "fetched_instruction example_shard_program example_cpu_event = example_instruction"
  by (simp add: fetched_instruction_def program_fetch_def example_shard_program_def example_cpu_event_def)

lemma example_valid: "valid_cpu_event example_instruction 1 example_cpu_event"
  by (simp add: valid_cpu_event_def example_instruction_def example_cpu_event_def instruction_new_def valid_a_def access_at_def ordered_record_def
      instruction_class_defs is_op_a_immutable_def is_rw_a_instruction_def is_syscall_instruction_def is_memory_store_instruction_except_sc_def)

lemma example_events: "valid_cpu_events example_shard_program example_public_values [example_cpu_event]"
  using example_valid by (simp add: valid_cpu_events_def example_fetched)
    (simp add: example_public_values_def example_shard_program_def example_cpu_event_def example_instruction_def instruction_new_def instruction_class_defs)

lemma example_trace:
  "cpu_trace example_shard_program 1 [example_cpu_event] 1 = Inr [example_row]" "cpu_accepted (cpu_public_values example_public_values) [example_row]"
  using cpu_trace_accepted [OF example_events, where n = 1] by (simp_all add: event_rows_def example_public_values_def example_row_def)

lemma example_row_eq: "example_row = fst (cpu_event_to_row example_cpu_event 1 example_instruction)"
  by (simp add: example_row_def example_fetched)

lemma example_program_lookup:
  "set (program_sends (cpu_row_ops pv [example_row] 0)) \<subseteq> set (program_table example_shard_program 1 [1])"
proof -
  note C = cpu_row_cols [OF example_valid]
  have "cp_pc example_row = from_canonical_u32 16" "cp_instruction example_row = instruction_populate example_instruction"
    unfolding example_row_eq C by (simp_all add: example_cpu_event_def)
  then show ?thesis
    by (simp add: cpu_row_program program_table_def program_preprocessed_trace_def example_shard_program_def default_program_def program_eval_def receive_program_def)
qed

lemma example_message: "cpu_message example_row = alu_event_message example_add_event"
proof -
  note C = cpu_row_cols [OF example_valid]
  have i: "\<not> is_branch_instruction example_instruction" "\<not> is_jump_instruction example_instruction" "\<not> is_rw_a_instruction example_instruction"
    "\<not> is_op_a_immutable example_instruction" "\<not> is_mult_div_instruction example_instruction" "\<not> is_check_memory_instruction example_instruction"
    "opcode example_instruction = Op_ADD"
    by (simp_all add: example_instruction_def instruction_new_def instruction_class_defs is_rw_a_instruction_def is_op_a_immutable_def
        is_memory_store_instruction_except_sc_def is_mult_div_instruction_def is_check_memory_instruction_def)
  have b: "op_b_val example_row = word_from 0" "op_c_val example_row = word_from 5"
    unfolding example_row_eq op_b_val_def op_c_val_def C by (simp_all add: example_cpu_event_def read_populated default_access_def)
  have "from_canonical_u32 24 = (from_canonical_u32 20 + 4 :: koala)" by (simp add: from_canonical_u32_def)
  then show ?thesis
    unfolding cpu_message_def alu_event_message_def b unfolding example_row_eq C
    by (simp add: i instruction_populate_def example_cpu_event_def example_add_event_def)
qed

lemma example_accesses_row:
  "map cur_message (row_accesses example_row) = [record_message (reg_addr R_ZERO) (sh_final example_shard R_ZERO), record_message (reg_addr R_T0) (sh_final example_shard R_T0)]"
  "map prev_message (row_accesses example_row) = [record_message (reg_addr R_ZERO) (sh_initial example_shard R_ZERO), record_message (reg_addr R_T0) (sh_initial example_shard R_T0)]"
proof -
  note C = cpu_row_cols [OF example_valid]
  have i: "ic_imm_b (instruction_populate example_instruction) = (0 :: koala)" "ic_imm_c (instruction_populate example_instruction) = (1 :: koala)"
    "ic_op_a (instruction_populate example_instruction) = reg_addr R_T0" "ic_op_b (instruction_populate example_instruction) 0 = reg_addr R_ZERO"
    by (simp_all add: example_instruction_def instruction_new_def instruction_populate_def reg_addr_def word_from_def byte_at_def from_canonical_u8_def from_canonical_u32_def)
  have acc: "row_accesses example_row =
      [(reg_addr R_ZERO, (from_canonical_u32 1, 2, fst (memory_read_populate \<lparr>rd_value = 0, rd_shard = 1, rd_timestamp = 2, rd_prev_shard = 0, rd_prev_timestamp = 0\<rparr>))),
       (reg_addr R_T0, (from_canonical_u32 1, 3, fst (memory_write_populate \<lparr>wr_value = 5, wr_shard = 1, wr_timestamp = 3, wr_prev_value = 0, wr_prev_shard = 0, wr_prev_timestamp = 0\<rparr>)))]"
    unfolding row_accesses_def Let_def example_row_eq C i by (simp add: example_cpu_event_def read_cols_eq) (simp add: from_canonical_u32_def)
  have t: "(2 :: koala) = from_canonical_u32 2" "(3 :: koala) = from_canonical_u32 3" by (simp_all add: from_canonical_u32_def)
  show "map cur_message (row_accesses example_row) = [record_message (reg_addr R_ZERO) (sh_final example_shard R_ZERO), record_message (reg_addr R_T0) (sh_final example_shard R_T0)]"
    "map prev_message (row_accesses example_row) = [record_message (reg_addr R_ZERO) (sh_initial example_shard R_ZERO), record_message (reg_addr R_T0) (sh_initial example_shard R_T0)]"
    unfolding acc t by (simp_all add: record_message_def example_shard_def memory_read_populate_def memory_write_populate_def populate_access_def Let_def)
qed

lemma example_add: "valid_alu example_add_event"
  by (simp add: valid_alu_def example_add_event_def alu_op_add_sub)

lemma example_instruction_bus: "instruction_bus {#cpu_message example_row#} (sh_instructions example_shard)"
  using add_sub_complete [OF example_add _ surjective_pairing]
  by (simp add: instruction_bus_def example_shard_def example_message add_sub_no_sends) (simp add: example_add_event_def)

lemma example_memory: "memory_balanced (cpu_public_values example_public_values) example_shard"
proof -
  let ?rest = "remove1 R_ZERO (remove1 R_T0 all_registers)"
  let ?pv = "cpu_public_values example_public_values"
  have split: "mset (map f all_registers) = {#f R_ZERO, f R_T0#} + mset (map f ?rest)" for f :: "register \<Rightarrow> koala list"
    by (simp add: all_registers_def)
  have rest: "map (\<lambda>r. record_message (reg_addr r) (sh_initial example_shard r)) ?rest = map (\<lambda>r. record_message (reg_addr r) (sh_final example_shard r)) ?rest"
    by (simp add: all_registers_def example_shard_def)
  have ops: "shard_ops ?pv example_shard = [cpu_row_ops ?pv [example_row] 0, add_sub_eval (fst (add_sub_event_to_row example_add_event))]"
    by (simp add: shard_ops_def example_shard_def)
  have row: "mset (memory_receives (cpu_row_ops ?pv [example_row] 0)) = mset (map cur_message (row_accesses example_row))"
    "mset (memory_sends (cpu_row_ops ?pv [example_row] 0)) = mset (map prev_message (row_accesses example_row))"
    using cpu_row_memory [OF example_trace(2), of 0] by (simp_all del: mset_map)
  show ?thesis
    unfolding memory_balanced_def ops split [of "\<lambda>r. record_message (reg_addr r) (sh_initial example_shard r)"]
      split [of "\<lambda>r. record_message (reg_addr r) (sh_final example_shard r)"] rest
    using row unfolding example_accesses_row by (simp add: no_memory_rows)
qed

lemma example_accepted_shard: "shard_accepted example_shard_program 1 (cpu_public_values example_public_values) example_shard"
proof -
  let ?pv = "cpu_public_values example_public_values"
  have real: "cp_is_real example_row = 1" unfolding example_row_eq by (rule cpu_row_cols(1) [OF example_valid])
  have sh: "sh_cpu example_shard = [example_row]" "sh_multiplicities example_shard = [1]" by (simp_all add: example_shard_def)
  have "mset (concat (map (\<lambda>k. instruction_sends (cpu_row_ops ?pv [example_row] k)) [0..<1])) = {#cpu_message example_row#}"
    by (simp add: cpu_row_instruction real)
  then show ?thesis
    unfolding shard_accepted_def sh using example_trace(2) example_program_lookup [of ?pv] example_instruction_bus example_memory by simp
qed

definition control_trace :: "branch_event list \<Rightarrow> jump_event list \<Rightarrow> mov_cond_event list \<Rightarrow> nat \<Rightarrow> instr_row list" where
  "control_trace branches jumps cond_moves padded_nb_rows =
     map Row_Branch (chip_trace branch_event_to_row branch_padding branches padded_nb_rows)
     @ map Row_Jump (chip_trace jump_event_to_row jump_padding jumps padded_nb_rows)
     @ map Row_Mov_Cond (chip_trace mov_cond_event_to_row mov_cond_padding cond_moves padded_nb_rows)"

definition example_branch :: branch_event where
  "example_branch = \<lparr>br_pc = 4, br_next_pc = 8, br_next_next_pc = 16, br_opcode = Op_BEQ, br_a = 0, br_b = 0, br_c = 8\<rparr>"

definition example_jump :: jump_event where
  "example_jump = \<lparr>jmp_pc = 4, jmp_next_pc = 8, jmp_next_next_pc = 16, jmp_opcode = Op_Jumpi, jmp_a = 12, jmp_b = 16, jmp_c = 0\<rparr>"

section \<open>Statements\<close>

text \<open>C1: an accepted shard is an execution of the program. The program consists of core instructions: the ALU instructions
  other than \<open>MULT\<close>, \<open>MULTU\<close>, \<open>DIV\<close>, \<open>DIVU\<close> and \<open>MOD\<close>, branches, jumps, conditional moves and \<open>WSBH\<close>; no loads, stores,
  system calls, other bit-field operations or multiply-accumulate. It lies below the prime, the start address is not 0
  (\<^verbatim>\<open>prover/src/verify.rs\<close> checks it), four past the next address does not reach the prime, and at the start of the
  shard register 0 is zero and the records are older than \<open>2 ^ 25\<close>. If all rows of the CPU and of the instruction
  chips are accepted, every fetched instruction is in the program table, the instruction bus balances and the memory bus
  balances against the records of the registers, then the program, started at the start address with the initial register
  values, reaches the next address and the final register values in as many steps of the instruction-set semantics as
  the CPU has real rows; or else the program itself, run from the same state, jumps to the address 0 within that
  many steps, which the executor reports as a null pointer and the tables do not exclude.\<close>

theorem shard_proves_execution:
  assumes "shard_accepted prog padded_nb_rows pv sh" and "list_all core_instruction (prog_instructions prog)" and "program_fits prog"
    and "initial_registers (sh_initial sh)" and "cv_start_pc pv \<noteq> 0" and "canon (cv_next_pc pv) + 4 < 2130706433"
  shows "(program_step prog ^^ real_count (sh_cpu sh))
      \<lparr>ar_reg = rec_value \<circ> sh_initial sh, ar_mem = mem, ar_pc = field_word (cv_start_pc pv), ar_next_pc = field_word (cv_start_pc pv) + 4\<rparr>
      \<lparr>ar_reg = rec_value \<circ> sh_final sh, ar_mem = mem, ar_pc = field_word (cv_next_pc pv), ar_next_pc = field_word (cv_next_pc pv) + 4\<rparr> \<or>
    (\<exists>k m. k < real_count (sh_cpu sh) \<and> (program_step prog ^^ k)
      \<lparr>ar_reg = rec_value \<circ> sh_initial sh, ar_mem = mem, ar_pc = field_word (cv_start_pc pv), ar_next_pc = field_word (cv_start_pc pv) + 4\<rparr> m \<and>
      program_null prog m)"
proof -
  have core: "core_shard prog padded_nb_rows pv sh" using assms(1-4) by (simp add: core_shard_def)
  let ?start = "\<lparr>ar_reg = rec_value \<circ> sh_initial sh, ar_mem = mem, ar_pc = field_word (cv_start_pc pv), ar_next_pc = field_word (cv_start_pc pv) + 4\<rparr>"
  have start: "shard_state pv sh mem 0 = ?start" by (simp add: shard_state_def fun_eq_iff)
  have pc: "ar_pc ?start \<noteq> 0" "ar_next_pc ?start \<noteq> 0"
    using shard_start_pc [OF core assms(5)] by simp_all
  have "(proved_step prog ^^ real_count (sh_cpu sh)) ?start (shard_state pv sh mem (real_count (sh_cpu sh)))"
    using shard_run [OF core assms(6) order.refl, of mem] unfolding start by simp
  from proved_steps_cases [OF this pc] show ?thesis unfolding shard_state_last [OF core assms(6)] by blast
qed

theorem shard_proves_execution_witness:
  "\<exists>m. program_step example_shard_program \<lparr>ar_reg = (\<lambda>_. 0), ar_mem = (\<lambda>_. 0), ar_pc = 16, ar_next_pc = 20\<rparr> m \<and>
     ar_reg m R_T0 = 5 \<and> ar_pc m = 20"
proof -
  let ?start = "\<lparr>ar_reg = (\<lambda>_. 0), ar_mem = (\<lambda>_. 0), ar_pc = 16, ar_next_pc = 20\<rparr>"
  have core: "list_all core_instruction (prog_instructions example_shard_program)"
    by (simp add: example_shard_program_def example_instruction_def instruction_new_def core_instruction_def is_alu_instruction_def)
  have fits: "program_fits example_shard_program" by (simp add: program_fits_def example_shard_program_def)
  have init: "initial_registers (sh_initial example_shard)" by (simp add: initial_registers_def example_shard_def list_all_iff)
  have pc: "field_word (from_canonical_u32 16) = 16" "field_word (from_canonical_u32 20) = 20" "canon (from_canonical_u32 20) = 20"
    by (simp_all add: field_word_from canon_from_u32)
  have "cp_is_real example_row = 1" unfolding example_row_eq by (rule cpu_row_cols(1) [OF example_valid])
  then have one: "real_count (sh_cpu example_shard) = 1" by (simp add: real_count_def example_shard_def)
  have small: "canon (cv_next_pc (cpu_public_values example_public_values)) + 4 < 2130706433"
    by (simp add: cpu_public_values_def example_public_values_def pc)
  have "from_canonical_u32 16 \<noteq> (0 :: koala)" using pc(1) by (auto simp: field_word_def)
  then have nonzero: "cv_start_pc (cpu_public_values example_public_values) \<noteq> (0 :: koala)"
    by (simp add: cpu_public_values_def example_public_values_def)
  have null: "\<not> program_null example_shard_program ?start"
    by (simp add: program_null_def program_fetch_def example_shard_program_def example_instruction_def instruction_new_def isa_step_def isa_exec_def
        is_alu_instruction_def isa_alu_def isa_operands_def register_from_def all_registers_def NUM_REGISTERS_def alu_op_def alu_result_def)
  define m where "m = \<lparr>ar_reg = rec_value \<circ> sh_final example_shard, ar_mem = (\<lambda>_. 0), ar_pc = 20, ar_next_pc = 20 + 4\<rparr>"
  have "program_step example_shard_program ?start m \<or> program_null example_shard_program ?start"
    using shard_proves_execution [OF example_accepted_shard core fits init nonzero small, of "\<lambda>_. 0"] unfolding one m_def
    by (simp add: cpu_public_values_def example_public_values_def pc comp_def eq_OO) (simp add: example_shard_def)
  then show ?thesis using null by (intro exI [of _ m]) (simp add: m_def example_shard_def)
qed



text \<open>C7: every message the CPU sends is justified. If the rows of the instruction chips are accepted and receive exactly what
  the CPU and they send, a message of the CPU with byte operands carries the result, the address after the delay slot and
  the control flags that its instruction prescribes.\<close>

theorem cpu_messages_justified:
  assumes "instruction_bus cpu_sends rows" and "m \<in># cpu_sends" and "operands_ok m"
  shows "instruction_message_valid m"
  using assms by (rule instruction_bus_sound)

theorem cpu_messages_justified_witness: "instruction_message_valid (alu_event_message example_add_event)"
proof (rule cpu_messages_justified [OF example_instruction_bus])
  show "alu_event_message example_add_event \<in># {#cpu_message example_row#}" by (simp add: example_message)
  show "operands_ok (alu_event_message example_add_event)" by (simp add: alu_event_message_def operands_ok_iff byte_word_nth)
qed

text \<open>C9: the traces generated from valid branch, jump and conditional-move events are accepted, receive exactly the messages of
  the events and send exactly the messages of the dependencies that the executor records for them.\<close>

theorem control_traces_complete:
  assumes "list_all valid_branch_event branches" and "list_all valid_jump_event jumps" and "list_all valid_mov_cond_event cond_moves"
  shows "list_all (\<lambda>r. accepted (instr_row_eval r)) (control_trace branches jumps cond_moves padded_nb_rows) \<and>
    mset (concat (map (instruction_receives \<circ> instr_row_eval) (control_trace branches jumps cond_moves padded_nb_rows))) =
      mset (map branch_message branches) + mset (map jump_message jumps) + mset (map mov_cond_message cond_moves) \<and>
    mset (concat (map (instruction_sends \<circ> instr_row_eval) (control_trace branches jumps cond_moves padded_nb_rows))) =
      sum_list (map (\<lambda>e. step_messages (emit_branch_dependencies e)) branches) + sum_list (map (\<lambda>e. step_messages (emit_jump_dependencies e)) jumps)"
proof -
  have obs: "concat (map (f \<circ> instr_row_eval) (map Row_Branch t1)) = concat (map (f \<circ> branch_eval) t1)"
    "concat (map (f \<circ> instr_row_eval) (map Row_Jump t2)) = concat (map (f \<circ> jump_eval) t2)"
    "concat (map (f \<circ> instr_row_eval) (map Row_Mov_Cond t3)) = concat (map (f \<circ> mov_cond_eval) t3)" for f :: "koala air_op list \<Rightarrow> koala list list" and t1 t2 t3
    by (simp_all add: comp_def)
  note T = branch_chip.trace_receives [OF assms(1)] jump_chip.trace_receives [OF assms(2)] mov_cond_chip.trace_receives [OF assms(3)]
    branch_chip.trace_sends [OF assms(1)] jump_chip.trace_sends [OF assms(2)] mov_cond_chip.trace_sends [OF assms(3)]
  have "list_all (\<lambda>r. accepted (instr_row_eval r)) (control_trace branches jumps cond_moves padded_nb_rows)"
    unfolding control_trace_def list_all_append list.pred_map comp_def instr_row_eval.simps
    using assms(1-3) by (intro conjI branch_chip.trace_accepted jump_chip.trace_accepted mov_cond_chip.trace_accepted)
  then show ?thesis unfolding control_trace_def map_append concat_append mset_append obs T by (simp add: sum_list_triv del: mset_map)
qed

theorem control_traces_complete_witness:
  "list_all (\<lambda>r. accepted (instr_row_eval r)) (control_trace [example_branch] [example_jump] [] 16)"
proof -
  have "list_all valid_branch_event [example_branch]" by (simp add: valid_branch_event_def example_branch_def branch_ops_def branch_compare_def)
  moreover have "list_all valid_jump_event [example_jump]" by (simp add: valid_jump_event_def example_jump_def jump_ops_def jump_target_def)
  ultimately show ?thesis using control_traces_complete [of "[example_branch]" "[example_jump]" "[]" 16] by simp
qed

end
