(* ===== verification/Spec2Isabelle.thy ===== *)
theory Spec2Isabelle
  imports Encoding Shard_Estimate Termination Alu_Events Shard_Proof
begin

text \<open>
  \<^bold>\<open>Verification of the Ziren (zkMIPS) virtual machine.\<close>

  The program executes a MIPS32 Release 2 guest and records, for a prover, every instruction, every memory access
  and every lookup the chips of the proof system have to justify. The chips turn the recorded events into rows
  of field elements and constrain every row; rows talk to each other through messages that are sent and received.
  This development models the executor (\<^verbatim>\<open>src/crates/core/executor/src\<close>) from the instruction decoder up to the
  entry points \<open>run\<close>, \<open>run_fast\<close> and \<open>run_very_fast\<close>, and the chips for the CPU, the program table, arithmetic,
  control flow, conditional moves and memory accesses (\<^verbatim>\<open>src/crates/core/machine/src\<close>). The two meet in the instruction-set
  semantics of \<open>Isa\<close>: the executor implements it, and a shard that the chips accept is an execution of it.

  \<^bold>\<open>Conventions.\<close> Machine integers are words of their width and wrap where the release build wraps. A
  computation that may fail is a function of the state monad of \<open>Prelude\<close>: \<open>Err\<close> carries a value of
  \<open>ExecutionError\<close>, \<open>Panic\<close> stands for a Rust panic (an index out of range, an \<open>unwrap\<close>, a failed assertion, an
  overflowing signed division). Structs are records whose fields carry a prefix, enums are datatypes, vectors
  are lists, hash maps are finite maps. Two groups of functions are arguments: the hooks of the
  \<open>WRITE\<close> call, which the embedder supplies, and the bodies of the cryptographic precompiles in the table of system
  calls, which are in the repository (\<^verbatim>\<open>syscalls/precompiles\<close>) and not modelled.

  \<^bold>\<open>Parts and theories.\<close>
  \<^item> \<open>Opcodes\<close>, \<open>Instruction\<close>, \<open>Encoding\<close>: \<^verbatim>\<open>opcode.rs\<close>, \<^verbatim>\<open>register.rs\<close>, \<^verbatim>\<open>instruction.rs\<close>. The decoder arm by arm;
    it is total, yields existing registers, and inverts an encoder written from the architecture's formats; for
    \<open>J\<close> and \<open>JAL\<close> only below \<open>0x10000000\<close>, since the decoder drops the upper bits of the program counter.
  \<^item> \<open>Word_Store\<close>, \<open>Paged_Memory\<close>: \<^verbatim>\<open>memory.rs\<close>. The locale \<open>word_store\<close> is the contract of a store of words;
    the register file, the paged memory and their union are interpretations, and every sequence of operations
    behaves as on a finite map.
  \<^item> \<open>Syscall_Code\<close>, \<open>Events\<close>, \<open>Precompile_Events\<close>, \<open>Execution_Record\<close>, \<open>Executor_State\<close>: \<^verbatim>\<open>syscalls/code.rs\<close>,
    \<^verbatim>\<open>events/\<close>, \<^verbatim>\<open>record.rs\<close>, \<^verbatim>\<open>state.rs\<close>, \<^verbatim>\<open>report.rs\<close>, \<^verbatim>\<open>program.rs\<close>. The data the executor keeps and produces.
  \<^item> \<open>Air_Cost\<close>, \<open>Shard_Estimate\<close>: \<^verbatim>\<open>air.rs\<close>, \<^verbatim>\<open>cost.rs\<close>. Chip names and the estimates that decide when a shard is full;
    the padding of the estimate covers the events of the cycles until the next check, except those of \<open>INS\<close>.
  \<^item> \<open>Memory_Access\<close>, \<open>Access_Rules\<close>: the accesses \<open>mr\<close>, \<open>rr\<close>, \<open>mw\<close>, \<open>rw\<close> and their traced and CPU variants in
    \<^verbatim>\<open>executor.rs\<close>, with checkpoints, undo log and local events, and their weakest-precondition rules.
  \<^item> \<open>Alu\<close>, \<open>Load_Store\<close>, \<open>Dependencies\<close>: the values computed by the instructions and the events they send to other
    chips, against a reference semantics on integers, bytes and bits.
  \<^item> \<open>Execute\<close>, \<open>Isa\<close>, \<open>Refinement\<close>: \<open>execute_operation\<close> and its handlers. One step implements the abstract
    instruction-set machine of \<open>Isa\<close> in every mode, with the same failures, and emits only valid ALU events.
  \<^item> \<open>Syscall_Context\<close>, \<open>Write_Syscall\<close>, \<open>Linux_Syscalls\<close>, \<open>Syscalls\<close>: \<^verbatim>\<open>syscalls/\<close>. Every runtime and Linux handler
    and the table that dispatches to them.
  \<^item> \<open>Run_Loop\<close>: \<open>execute_cycle\<close>, shard closing, batches, records, \<open>postprocess\<close> and the entry points.
  \<^item> \<open>Step_Frame\<close>, \<open>Syscall_Frame\<close>, \<open>Unconstrained\<close>: what an instruction leaves alone, as a preorder carried by the
    locale \<open>step_preorder\<close>; leaving an unconstrained block restores the machine,
    as long as no memory word below address 36 is accessed.
  \<^item> \<open>Termination\<close>: with a cycle limit every run ends.

  \<^bold>\<open>The chips.\<close> A constraint builder is a list of operations (assertion that an expression is zero, message sent,
  message received). A row is accepted when every assertion holds and every byte lookup it sends with a multiplicity
  other than zero is an entry of the byte table; values are elements of the field of KoalaBear, built in
  \<open>Koala_Bear\<close>.
  \<^item> \<open>Air_Builder\<close>, \<open>Byte_Chip\<close>, \<open>Air_Words\<close>, \<open>Air_Gadgets\<close>: \<^verbatim>\<open>stark/src/air/builder.rs\<close>, \<^verbatim>\<open>machine/src/air\<close>,
    \<^verbatim>\<open>machine/src/bytes\<close>. Operations of the builder, the byte table and what accepted lookups say of words.
  \<^item> \<open>Alu_Chip\<close>: the contract of a chip that receives instructions as the locale \<open>instruction_chip\<close>, and of an arithmetic
    one as \<open>alu_chip\<close>: the row made from a valid event is accepted, receives the message of the event and sends the
    messages of its dependencies; padding rows are accepted and silent; an accepted row receives only correct
    messages when those it relies on are correct.
  \<^item> \<open>Add_Sub_Chip\<close>, \<open>Bitwise_Chip\<close>, \<open>Lt_Chip\<close>, \<open>Shift_Left_Chip\<close>, \<open>Shift_Right_Chip\<close>, \<open>Mul_Chip\<close>, \<open>Clo_Clz_Chip\<close>,
    \<open>Div_Rem_Chip\<close> (with \<open>Is_Zero_Air\<close> and \<open>Div_Words\<close>): \<^verbatim>\<open>machine/src/alu\<close> and \<^verbatim>\<open>machine/src/operations\<close>. Columns, row
    generation and constraints; each is an interpretation of \<open>alu_chip\<close>.
  \<^item> \<open>Alu_Bus\<close>, \<open>Alu_Events\<close>: the chips together on the instruction bus. Accepted and balanced traces carry only results
    the executor computes, or the wrapped result of the signed division on which it panics; traces generated from the
    executor's record are accepted, and the events an instruction emits keep them balanced.
  \<^item> \<open>Memory_Air\<close>, \<open>Memory_Bus\<close>: \<^verbatim>\<open>memory/consistency\<close>. Access columns, and the offline memory argument: balanced
    accesses to an address form a chain ordered by time. \<open>Memory_Order\<close>: accesses in program order read what the latest
    access before them left.
  \<^item> \<open>Word_Range\<close>, \<open>Selectors\<close>, \<open>Branch_Chip\<close>, \<open>Jump_Chip\<close>, \<open>Mov_Cond_Chip\<close>: \<^verbatim>\<open>operations/koala_bear_word.rs\<close>,
    \<^verbatim>\<open>control_flow/\<close>, \<^verbatim>\<open>misc/mov_cond\<close>. Columns, row generation and constraints; each is an interpretation of
    \<open>instruction_chip\<close>. \<open>Instruction_Bus\<close>: these and the arithmetic chips together; every message that balances is correct.
  \<^item> \<open>Cpu_Chip\<close>, \<open>Cpu_Rows\<close>: \<^verbatim>\<open>cpu/\<close>, \<^verbatim>\<open>program/mod.rs\<close>, \<^verbatim>\<open>air/program.rs\<close>. Columns, constraints across neighbouring rows, the
    program table, and the rows of the executor's events, which are accepted.
  \<^item> \<open>Cpu_Trace\<close>, \<open>Register_File\<close>, \<open>Row_Step\<close>: what the constraints say of an accepted CPU trace: the real rows come first,
    clocks and program counters are handed on, registers behave like a map, and a row whose message is correct is a
    step of the instruction-set semantics.
  \<^item> \<open>Shard\<close>, \<open>Hi_Writes\<close>, \<open>Shard_Execution\<close>, \<open>Shard_Proof\<close>: a shard as a whole. If all rows are accepted and the program,
    instruction and memory buses balance, the program runs from the start address and the initial register values to
    the next address and the final register values by steps of the semantics (\<open>program_step\<close>), or it jumps to the
    address 0 on the way. The theorem covers programs of arithmetic instructions without
    \<open>HI\<close> results and \<open>MOD\<close>, branches, jumps, conditional moves and \<open>WSBH\<close>. The second outcome is there because the
    tables do not exclude a jump to 0 and offer an addition without effect at address 0 through the padding rows of the
    program table, while the executor stops with a null-pointer error.

  \<^bold>\<open>Loops.\<close> Loops over data are structural recursion. The batch loop may run forever, so \<open>execute_loop\<close> and
  \<open>execute_all\<close> are partial functions into \<open>option\<close> where \<open>None\<close> means no result; \<open>run_terminates\<close> shows that
  they return whenever a cycle limit is set. No fuel is used.

  \<^bold>\<open>Not modelled.\<close> The memory tables and the chips for loads and stores, bit fields, multiply-accumulate, system calls
  and precompiles; the records of the registers at the ends of a shard stand for what the memory tables provide. The
  STARK protocol behind the acceptance of rows and the balance of messages, the recursion
  circuits, the prover service, SDK and command line (orchestration and I/O), the curve arithmetic and the guest
  runtime. Inside the executor: the ELF loader, \<open>ExecutionRecord::split\<close>, the bodies of the cryptographic
  precompiles, the hooks, and console output.
\<close>

end
